(* ===== verification/Prelude.thy ===== *)
theory Prelude
  imports Main "HOL-Library.Word"
begin

text \<open>
  Shared vocabulary of the development: the machine integers of \<open>kernel/types.h\<close>, the
  outcome type that every kernel routine returns, and the generic lemmas on lists, words and
  outcomes that the component theories use.
\<close>

unbundle bit_operations_syntax

section \<open>Machine integers\<close>

text \<open>
  The unsigned types of \<open>kernel/types.h\<close>. C \<open>int\<close> values that the code keeps in range are
  HOL \<open>int\<close>; where they come from a register they are read with \<open>sint\<close>.
\<close>

type_synonym u8 = "8 word"
type_synonym u16 = "16 word"
type_synonym u32 = "32 word"
type_synonym u64 = "64 word"

text \<open>
  A C string is the list of the bytes of the object it points into, from the pointer to the
  end of the object; its text ends at the first NUL.
\<close>

abbreviation NUL :: char where
  "NUL \<equiv> CHR 0x00"

type_synonym bytes = "char list"

section \<open>Outcomes\<close>

text \<open>
  A kernel routine, started in a state, returns a value and a new state (\<open>Ret\<close>), ends in
  \<open>panic(msg)\<close>, spins on a spinlock that some hart holds or on a device register
  (\<open>Spin\<close>), or gives up the CPU inside \<open>sched()\<close> (\<open>Blocked\<close>; the process table of
  the state says on which channel). Sequencing stops at everything but \<open>Ret\<close>.
\<close>

datatype ('a, 's) res =
    Ret 'a 's
  | Panic string
  | Spin 's
  | Blocked 's

fun bindr :: "('a, 's) res \<Rightarrow> ('a \<Rightarrow> 's \<Rightarrow> ('b, 's) res) \<Rightarrow> ('b, 's) res" where
  "bindr (Ret a s) f = f a s"
| "bindr (Panic m) f = Panic m"
| "bindr (Spin s) f = Spin s"
| "bindr (Blocked s) f = Blocked s"

definition returns :: "('a, 's) res \<Rightarrow> bool" where
  "returns r \<longleftrightarrow> (\<exists>a s. r = Ret a s)"

lemma bindr_assoc: "bindr (bindr r f) g = bindr r (\<lambda>a s. bindr (f a s) g)"
  by (cases r) simp_all

lemma bindr_Ret_iff:
  "bindr r f = Ret b t \<longleftrightarrow> (\<exists>a s. r = Ret a s \<and> f a s = Ret b t)"
  by (cases r) auto

lemma bindr_RetE:
  assumes "bindr r f = Ret b t"
  obtains a s where "r = Ret a s" and "f a s = Ret b t"
  using assms by (auto simp: bindr_Ret_iff)

lemma bindr_cong [fundef_cong]:
  "r = r' \<Longrightarrow> (\<And>a s. r' = Ret a s \<Longrightarrow> f a s = f' a s) \<Longrightarrow> bindr r f = bindr r' f'"
  by (cases r') simp_all

section \<open>Loops over an index range\<close>

text \<open>
  \<open>for(i = lo; i < hi; i++) body\<close> with a body that may panic or block. Loops whose body
  cannot fail are HOL folds.
\<close>

fun for_upto :: "nat \<Rightarrow> nat \<Rightarrow> (nat \<Rightarrow> 's \<Rightarrow> (unit, 's) res) \<Rightarrow> 's \<Rightarrow> (unit, 's) res" where
  "for_upto lo 0 body s = Ret () s"
| "for_upto lo (Suc n) body s = bindr (body lo s) (\<lambda>_ s. for_upto (Suc lo) n body s)"

text \<open>The loop rule: an invariant that each iteration keeps and that makes it return.\<close>

lemma for_upto_rule:
  assumes "I lo s"
    and "\<And>i s. lo \<le> i \<Longrightarrow> i < lo + n \<Longrightarrow> I i s \<Longrightarrow> \<exists>s'. body i s = Ret () s' \<and> I (Suc i) s'"
  shows "\<exists>s'. for_upto lo n body s = Ret () s' \<and> I (lo + n) s'"
  using assms
proof (induction n arbitrary: lo s)
  case 0
  then show ?case by simp
next
  case (Suc n)
  obtain s1 where b: "body lo s = Ret () s1" and i1: "I (Suc lo) s1"
    using Suc.prems(1) Suc.prems(2)[of lo s] by auto
  have "\<exists>s'. for_upto (Suc lo) n body s1 = Ret () s' \<and> I (Suc lo + n) s'"
    by (rule Suc.IH[OF i1]) (use Suc.prems(2) in auto)
  then show ?case using b by simp
qed

text \<open>A loop whose body may also return from the routine: its result is \<open>Some\<close> then.\<close>

fun for_ret :: "nat \<Rightarrow> nat \<Rightarrow> (nat \<Rightarrow> 's \<Rightarrow> ('a option, 's) res) \<Rightarrow> 's \<Rightarrow> ('a option, 's) res" where
  "for_ret lo 0 body s = Ret None s"
| "for_ret lo (Suc n) body s = bindr (body lo s) (\<lambda>r s.
     case r of Some v \<Rightarrow> Ret (Some v) s | None \<Rightarrow> for_ret (Suc lo) n body s)"

lemma for_ret_rule:
  assumes "I lo s"
    and "\<And>i s. lo \<le> i \<Longrightarrow> i < lo + n \<Longrightarrow> I i s \<Longrightarrow>
      \<exists>r s'. body i s = Ret r s' \<and> (case r of None \<Rightarrow> I (Suc i) s' | Some v \<Rightarrow> Q v s')"
  shows "\<exists>r s'. for_ret lo n body s = Ret r s' \<and> (case r of None \<Rightarrow> I (lo + n) s' | Some v \<Rightarrow> Q v s')"
  using assms
proof (induction n arbitrary: lo s)
  case 0
  then show ?case by simp
next
  case (Suc n)
  obtain r s1 where b: "body lo s = Ret r s1" "case r of None \<Rightarrow> I (Suc lo) s1 | Some v \<Rightarrow> Q v s1"
    using Suc.prems(1) Suc.prems(2)[of lo s] by auto
  show ?case
  proof (cases r)
    case None
    then have "\<exists>r s'. for_ret (Suc lo) n body s1 = Ret r s' \<and> (case r of None \<Rightarrow> I (Suc lo + n) s' | Some v \<Rightarrow> Q v s')"
      using b(2) by (intro Suc.IH) (use Suc.prems(2) in auto)
    then show ?thesis unfolding for_ret.simps b(1) None by (simp only: bindr.simps option.case add_Suc add_Suc_right)
  qed (use b in auto)
qed

text \<open>The value of a routine on C objects; an access outside of the object is undefined in C.\<close>

definition in_object :: "'a option \<Rightarrow> 's \<Rightarrow> ('a, 's) res" where
  "in_object x s = (case x of None \<Rightarrow> Panic ''out of bounds'' | Some v \<Rightarrow> Ret v s)"

section \<open>Lists\<close>

text \<open>The first index below \<open>n\<close> that satisfies a predicate: the table scans of the kernel.\<close>

fun first_idx :: "(nat \<Rightarrow> bool) \<Rightarrow> nat \<Rightarrow> nat \<Rightarrow> nat option" where
  "first_idx P i 0 = None"
| "first_idx P i (Suc n) = (if P i then Some i else first_idx P (Suc i) n)"

lemma first_idx_Some:
  "first_idx P i n = Some k \<longleftrightarrow> i \<le> k \<and> k < i + n \<and> P k \<and> (\<forall>j. i \<le> j \<and> j < k \<longrightarrow> \<not> P j)"
proof (induction n arbitrary: i)
  case 0
  then show ?case by simp
next
  case (Suc n)
  show ?case
    by (auto simp: Suc le_Suc_eq) (metis Suc_leI le_neq_implies_less less_or_eq_imp_le)+
qed

lemma first_idx_None:
  "first_idx P i n = None \<longleftrightarrow> (\<forall>k. i \<le> k \<and> k < i + n \<longrightarrow> \<not> P k)"
proof (induction n arbitrary: i)
  case 0
  then show ?case by auto
next
  case (Suc n)
  show ?case
    by (auto simp: Suc) (metis Suc_leI le_neq_implies_less)
qed

lemma take_nth_drop_update:
  "i < length xs \<Longrightarrow> xs[i := x] = take i xs @ x # drop (Suc i) xs"
  by (rule upd_conv_take_nth_drop)

text \<open>
  A loop that visits the entries of a table in order and changes the ones it visits is a map,
  and one that also counts the entries it changes counts those that meet the condition.
\<close>

lemma fold_update_map:
  assumes "n \<le> length xs"
  shows "fold (\<lambda>i xs. xs[i := f i (xs ! i)]) [0..<n] xs =
    map (\<lambda>i. f i (xs ! i)) [0..<n] @ drop n xs"
  using assms
proof (induction n)
  case 0
  then show ?case by simp
next
  case (Suc n)
  then have "drop n xs = xs ! n # drop (Suc n) xs" by (simp add: Cons_nth_drop_Suc)
  with Suc show ?case by (simp add: nth_append list_update_append)
qed

lemma fold_update_count:
  assumes "n \<le> length xs"
  shows "fold (\<lambda>i (xs, c). if P (xs ! i) then (xs[i := f (xs ! i)], c + 1) else (xs, c)) [0..<n] (xs, c) =
    (map (\<lambda>x. if P x then f x else x) (take n xs) @ drop n xs,
     c + int (length (filter P (take n xs))))"
  using assms
proof (induction n)
  case 0
  then show ?case by simp
next
  case (Suc n)
  then have "drop n xs = xs ! n # drop (Suc n) xs" and "take (Suc n) xs = take n xs @ [xs ! n]"
    by (simp_all add: Cons_nth_drop_Suc take_Suc_conv_app_nth)
  with Suc show ?case by (simp add: nth_append list_update_append)
qed

lemma map_nth_upt: "n = length xs \<Longrightarrow> map (\<lambda>i. f (xs ! i)) [0..<n] = map f xs"
  by (rule nth_equalityI) simp_all

section \<open>Transition systems\<close>

text \<open>The states a step relation reaches from its start states.\<close>

inductive reach :: "('s \<Rightarrow> bool) \<Rightarrow> ('s \<Rightarrow> 's \<Rightarrow> bool) \<Rightarrow> 's \<Rightarrow> bool" for init step where
  reach_start: "init s \<Longrightarrow> reach init step s"
| reach_step: "reach init step s \<Longrightarrow> step s t \<Longrightarrow> reach init step t"

text \<open>
  An inductive invariant holds in every reachable state. Each component whose behaviour is a
  step relation interprets this locale with its own invariant.
\<close>

locale inv_system =
  fixes init :: "'s \<Rightarrow> bool" and step :: "'s \<Rightarrow> 's \<Rightarrow> bool" and inv :: "'s \<Rightarrow> bool"
  assumes inv_init: "init s \<Longrightarrow> inv s"
    and inv_step: "inv s \<Longrightarrow> step s t \<Longrightarrow> inv t"
begin

lemma reach_inv: "reach init step s \<Longrightarrow> inv s"
  by (induction rule: reach.induct) (auto intro: inv_init inv_step)

lemma reach_steps: "step\<^sup>*\<^sup>* s t \<Longrightarrow> inv s \<Longrightarrow> inv t"
  by (induction rule: rtranclp_induct) (auto intro: inv_step)

end

end
