(* ===== verification/Spinlock.thy ===== *)
theory Spinlock
  imports Prelude
begin

text \<open>
  Harts, interrupts and spin locks: \<open>kernel/spinlock.c\<close>, \<open>kernel/spinlock.h\<close> and the per-CPU
  part of \<open>kernel/proc.h\<close> and \<open>kernel/proc.c\<close>. The state of the hardware and of every
  spinlock of the kernel is one record, \<open>machine\<close>; the kernel state \<open>kst\<close> holds it in
  the field \<open>hw\<close>, and every other component extends \<open>kst\<close> with its own globals.
  Two views of a lock are given: the routines as a single hart runs them, used by all the
  other components, and a step relation in which any number of harts run them in any order,
  with mutual exclusion proved for it.
\<close>

section \<open>State\<close>

text \<open>Every spinlock of the kernel, named by the variable or structure field that holds it.\<close>

datatype lockid =
    Lk_pr | Lk_tx | Lk_cons
  | Lk_lighting | Lk_roomenv | Lk_tickslock
  | Lk_kmem | Lk_pid | Lk_wait | Lk_proc nat
  | Lk_bcache | Lk_log | Lk_itable | Lk_ftable | Lk_vdisk
  | Lk_pipe u64
  | Lk_buf_sleep nat | Lk_inode_sleep nat

record spinlock =
  locked :: u32
  lk_name :: string
  lk_cpu :: "nat option"

text \<open>C flags that only ever hold 0 or 1 and are only tested (\<open>intena\<close>) are \<open>bool\<close>.\<close>

record cpu =
  cpu_proc :: "nat option"
  noff :: int
  intena :: bool

text \<open>
  \<open>tp\<close> is the register that holds the hart number of the running code; \<open>sie\<close> is the
  bit \<open>SSTATUS_SIE\<close> of each hart. The last three fields are the console UART as the kernel
  sees it: the line status register, the bytes written to the transmit register (oldest
  first), and the two flags of \<open>kernel/printf.c\<close>.
\<close>

record machine =
  tp :: nat
  cpus :: "nat \<Rightarrow> cpu"
  sie :: "nat \<Rightarrow> bool"
  locks :: "lockid \<Rightarrow> spinlock"
  lsr :: u8
  thr :: bytes
  panicking :: bool
  panicked :: bool

record kst =
  hw :: machine

definition mycpu :: "machine \<Rightarrow> cpu" where
  "mycpu h = cpus h (tp h)"

definition set_mycpu :: "cpu \<Rightarrow> machine \<Rightarrow> machine" where
  "set_mycpu c h = h\<lparr>cpus := (cpus h)(tp h := c)\<rparr>"

definition intr_get :: "machine \<Rightarrow> bool" where
  "intr_get h = sie h (tp h)"

definition intr_off :: "machine \<Rightarrow> machine" where
  "intr_off h = h\<lparr>sie := (sie h)(tp h := False)\<rparr>"

definition intr_on :: "machine \<Rightarrow> machine" where
  "intr_on h = h\<lparr>sie := (sie h)(tp h := True)\<rparr>"

section \<open>The routines of spinlock.c\<close>

definition initlock :: "lockid \<Rightarrow> string \<Rightarrow> 'z kst_scheme \<Rightarrow> (unit, 'z kst_scheme) res" where
  "initlock lk name s =
     (let h = hw s in
      Ret () (s\<lparr>hw := h\<lparr>locks := (locks h)(lk := \<lparr>locked = 0, lk_name = name, lk_cpu = None\<rparr>)\<rparr>\<rparr>))"

definition holding_hw :: "lockid \<Rightarrow> machine \<Rightarrow> bool" where
  "holding_hw lk h \<longleftrightarrow> locked (locks h lk) \<noteq> 0 \<and> lk_cpu (locks h lk) = Some (tp h)"

definition holding :: "lockid \<Rightarrow> 'z kst_scheme \<Rightarrow> bool" where
  "holding lk s = holding_hw lk (hw s)"

definition push_off_hw :: "machine \<Rightarrow> machine" where
  "push_off_hw h =
     (let old = intr_get h;
          h = intr_off h;
          h = (if noff (mycpu h) = 0 then set_mycpu ((mycpu h)\<lparr>intena := old\<rparr>) h else h)
      in set_mycpu ((mycpu h)\<lparr>noff := noff (mycpu h) + 1\<rparr>) h)"

definition push_off :: "'z kst_scheme \<Rightarrow> (unit, 'z kst_scheme) res" where
  "push_off s = Ret () (s\<lparr>hw := push_off_hw (hw s)\<rparr>)"

definition pop_off_hw :: "machine \<Rightarrow> machine" where
  "pop_off_hw h =
     (let h = set_mycpu ((mycpu h)\<lparr>noff := noff (mycpu h) - 1\<rparr>) h
      in if noff (mycpu h) = 0 \<and> intena (mycpu h) then intr_on h else h)"

definition pop_off :: "'z kst_scheme \<Rightarrow> (unit, 'z kst_scheme) res" where
  "pop_off s =
     (if intr_get (hw s) then Panic ''pop_off - interruptible''
      else if noff (mycpu (hw s)) < 1 then Panic ''pop_off''
      else Ret () (s\<lparr>hw := pop_off_hw (hw s)\<rparr>))"

definition set_lock :: "lockid \<Rightarrow> u32 \<Rightarrow> nat option \<Rightarrow> machine \<Rightarrow> machine" where
  "set_lock lk w c h = h\<lparr>locks := (locks h)(lk := (locks h lk)\<lparr>locked := w, lk_cpu := c\<rparr>)\<rparr>"

definition acquire :: "lockid \<Rightarrow> 'z kst_scheme \<Rightarrow> (unit, 'z kst_scheme) res" where
  "acquire lk s = bindr (push_off s) (\<lambda>_ s.
     if holding lk s then Panic ''acquire''
     else if locked (locks (hw s) lk) \<noteq> 0 then Spin s
     else Ret () (s\<lparr>hw := set_lock lk 1 (Some (tp (hw s))) (hw s)\<rparr>))"

definition release :: "lockid \<Rightarrow> 'z kst_scheme \<Rightarrow> (unit, 'z kst_scheme) res" where
  "release lk s =
     (if \<not> holding lk s then Panic ''release''
      else pop_off (s\<lparr>hw := set_lock lk 0 None (hw s)\<rparr>))"

section \<open>Critical sections\<close>

text \<open>
  What a hart relies on between calls: the nesting depth is not negative, and interrupts are
  off whenever it is positive.
\<close>

definition cpu_ok :: "machine \<Rightarrow> bool" where
  "cpu_ok h \<longleftrightarrow> noff (mycpu h) \<ge> 0 \<and> (noff (mycpu h) > 0 \<longrightarrow> \<not> intr_get h)"

definition lk_free :: "lockid \<Rightarrow> machine \<Rightarrow> bool" where
  "lk_free lk h \<longleftrightarrow> locked (locks h lk) = 0 \<and> lk_cpu (locks h lk) = None"

text \<open>
  \<open>enter lk\<close> is the effect of a successful \<open>acquire\<close>, \<open>leave lk\<close> that of
  \<open>release\<close>; \<open>settle\<close> is what a matched pair of \<open>push_off\<close> and \<open>pop_off\<close> leaves
  behind: the saved interrupt state of a hart that held no lock.
\<close>

definition enter :: "lockid \<Rightarrow> machine \<Rightarrow> machine" where
  "enter lk h = set_lock lk 1 (Some (tp h)) (push_off_hw h)"

definition leave :: "lockid \<Rightarrow> machine \<Rightarrow> machine" where
  "leave lk h = pop_off_hw (set_lock lk 0 None h)"

definition settle :: "machine \<Rightarrow> machine" where
  "settle h = (if noff (mycpu h) = 0 then set_mycpu ((mycpu h)\<lparr>intena := intr_get h\<rparr>) h else h)"


definition held :: "lockid \<Rightarrow> machine \<Rightarrow> bool" where
  "held lk h \<longleftrightarrow> holding_hw lk h \<and> \<not> intr_get h \<and> noff (mycpu h) \<ge> 1"

named_theorems lock_simps \<open>rewriting of lock operations on states whose locks are known\<close>

lemmas hw_defs = mycpu_def set_mycpu_def intr_get_def intr_off_def intr_on_def
  push_off_hw_def pop_off_hw_def set_lock_def Let_def

lemma machine_split:
  fixes g h :: machine
  assumes "tp g = tp h" and "cpus g = cpus h" and "sie g = sie h" and "locks g = locks h"
    and "lsr g = lsr h" and "thr g = thr h"
    and "panicking g = panicking h" and "panicked g = panicked h"
  shows "g = h"
  using assms by (auto intro: machine.equality)

lemma set_lock_frame [simp]:
  "tp (set_lock lk w c h) = tp h"
  "cpus (set_lock lk w c h) = cpus h"
  "sie (set_lock lk w c h) = sie h"
  "mycpu (set_lock lk w c h) = mycpu h"
  "intr_get (set_lock lk w c h) = intr_get h"
  by (simp_all add: hw_defs)

lemma push_off_hw_frame [simp]:
  "tp (push_off_hw h) = tp h"
  "locks (push_off_hw h) = locks h"
  "\<not> intr_get (push_off_hw h)"
  "noff (mycpu (push_off_hw h)) = noff (mycpu h) + 1"
  by (simp_all add: hw_defs)

lemma enter_frame [simp]:
  "tp (enter lk h) = tp h" "lsr (enter lk h) = lsr h" "thr (enter lk h) = thr h"
  "panicking (enter lk h) = panicking h" "panicked (enter lk h) = panicked h"
  "noff (mycpu (enter lk h)) = noff (mycpu h) + 1"
  "\<not> intr_get (enter lk h)"
  "cpu_proc (mycpu (enter lk h)) = cpu_proc (mycpu h)"
  by (simp_all add: enter_def hw_defs)

lemma settle_frame [simp]:
  "tp (settle h) = tp h" "lsr (settle h) = lsr h" "thr (settle h) = thr h"
  "panicking (settle h) = panicking h" "panicked (settle h) = panicked h"
  "sie (settle h) = sie h" "locks (settle h) = locks h"
  "intr_get (settle h) = intr_get h"
  "noff (mycpu (settle h)) = noff (mycpu h)"
  "cpu_proc (mycpu (settle h)) = cpu_proc (mycpu h)"
  by (simp_all add: settle_def hw_defs)

lemma settle_settle [simp]: "settle (settle h) = settle h"
  by (simp add: settle_def hw_defs)

lemma cpu_ok_settle [simp]: "cpu_ok (settle h) = cpu_ok h"
  by (simp add: cpu_ok_def)

lemma lk_free_settle [simp]: "lk_free lk (settle h) = lk_free lk h"
  by (simp add: lk_free_def)

lemma cpu_ok_enter [lock_simps]: "cpu_ok h \<Longrightarrow> cpu_ok (enter lk h)"
  by (simp add: cpu_ok_def)

lemma lk_free_enter [lock_simps]: "lk_free l (enter lk h) \<longleftrightarrow> l \<noteq> lk \<and> lk_free l h"
  by (simp add: lk_free_def enter_def hw_defs)

lemma locks_enter_other: "l \<noteq> lk \<Longrightarrow> locks (enter lk h) l = locks h l"
  by (simp add: enter_def hw_defs)

lemma held_enter [lock_simps]: "cpu_ok h \<Longrightarrow> held lk (enter lk h)"
  by (simp add: held_def holding_hw_def cpu_ok_def) (simp add: enter_def hw_defs)

lemma held_enter_other [lock_simps]: "held l h \<Longrightarrow> l \<noteq> lk \<Longrightarrow> held l (enter lk h)"
  by (simp add: held_def holding_hw_def) (simp add: enter_def hw_defs)

lemma settle_enter [lock_simps]: "cpu_ok h \<Longrightarrow> settle (enter lk h) = enter lk h"
  by (simp add: settle_def cpu_ok_def)

lemma enter_settle: "enter lk (settle h) = enter lk h"
  by (auto intro!: machine_split simp: enter_def settle_def hw_defs fun_upd_idem_iff)

lemma lock_same: "locked l = 0 \<Longrightarrow> lk_cpu l = None \<Longrightarrow> l\<lparr>locked := 0, lk_cpu := None\<rparr> = l"
  by (cases l) simp

text \<open>Leaving the section just entered undoes the entry, up to the saved interrupt state.\<close>

lemma leave_enter [lock_simps]:
  assumes "cpu_ok h" and "lk_free lk h"
  shows "leave lk (enter lk h) = settle h"
  using assms
  by (auto intro!: machine_split
      simp: leave_def enter_def settle_def cpu_ok_def lk_free_def hw_defs lock_same
        fun_upd_idem_iff split: if_splits)

text \<open>Locks may also be released in the order in which they were taken.\<close>

lemma leave_enter_other [lock_simps]:
  assumes "cpu_ok h" and "lk_free a h" and "a \<noteq> b"
  shows "leave a (enter b (enter a h)) = enter b h"
  using assms
  by (auto intro!: machine_split
      simp: leave_def enter_def settle_def cpu_ok_def lk_free_def hw_defs lock_same
        fun_upd_twist fun_upd_idem_iff split: if_splits)

lemma acquire_ok [lock_simps]:
  assumes "cpu_ok (hw s)" and "lk_free lk (hw s)"
  shows "acquire lk s = Ret () (s\<lparr>hw := enter lk (hw s)\<rparr>)"
  using assms
  by (simp add: acquire_def push_off_def holding_def holding_hw_def enter_def lk_free_def)

lemma release_ok [lock_simps]:
  assumes "held lk (hw s)"
  shows "release lk s = Ret () (s\<lparr>hw := leave lk (hw s)\<rparr>)"
  using assms
  by (simp add: release_def holding_def pop_off_def held_def leave_def)

text \<open>A lock just initialised is free, and nothing else changes.\<close>

definition fresh :: "lockid \<Rightarrow> string \<Rightarrow> machine \<Rightarrow> machine" where
  "fresh lk nm h = h\<lparr>locks := (locks h)(lk := \<lparr>locked = 0, lk_name = nm, lk_cpu = None\<rparr>)\<rparr>"

lemma initlock_ok [lock_simps]: "initlock lk nm s = Ret () (s\<lparr>hw := fresh lk nm (hw s)\<rparr>)"
  by (simp add: initlock_def fresh_def Let_def)

lemma fresh_frame [simp]:
  "tp (fresh lk nm h) = tp h" "lsr (fresh lk nm h) = lsr h" "thr (fresh lk nm h) = thr h"
  "panicking (fresh lk nm h) = panicking h" "panicked (fresh lk nm h) = panicked h"
  "sie (fresh lk nm h) = sie h" "cpus (fresh lk nm h) = cpus h"
  "intr_get (fresh lk nm h) = intr_get h" "mycpu (fresh lk nm h) = mycpu h"
  "cpu_ok (fresh lk nm h) = cpu_ok h"
  "lk_free l (fresh lk nm h) \<longleftrightarrow> l = lk \<or> lk_free l h"
  by (simp_all add: fresh_def hw_defs cpu_ok_def lk_free_def)

text \<open>A hart that holds nothing on a machine whose locks are all free, for concrete runs.\<close>

definition hw0 :: machine where
  "hw0 = \<lparr>tp = 0, cpus = (\<lambda>_. \<lparr>cpu_proc = None, noff = 0, intena = False\<rparr>), sie = (\<lambda>_. False),
     locks = (\<lambda>_. \<lparr>locked = 0, lk_name = [], lk_cpu = None\<rparr>),
     lsr = 0x20, thr = [], panicking = False, panicked = False\<rparr>"

lemma hw0_ok [simp]: "cpu_ok hw0" "lk_free lk hw0" "settle hw0 = hw0"
  by (simp_all add: cpu_ok_def lk_free_def hw0_def settle_def hw_defs fun_eq_iff)

section \<open>Nesting\<close>

fun push_offs :: "nat \<Rightarrow> 'z kst_scheme \<Rightarrow> (unit, 'z kst_scheme) res" where
  "push_offs 0 s = Ret () s"
| "push_offs (Suc n) s = bindr (push_off s) (\<lambda>_ s. push_offs n s)"

fun pop_offs :: "nat \<Rightarrow> 'z kst_scheme \<Rightarrow> (unit, 'z kst_scheme) res" where
  "pop_offs 0 s = Ret () s"
| "pop_offs (Suc n) s = bindr (pop_off s) (\<lambda>_ s. pop_offs n s)"

lemma push_pop_hw: "cpu_ok h \<Longrightarrow> pop_off_hw (push_off_hw h) = settle h"
  by (auto intro!: machine_split simp: settle_def cpu_ok_def hw_defs fun_upd_idem_iff
      split: if_splits)

lemma cpu_ok_push [lock_simps]: "cpu_ok h \<Longrightarrow> cpu_ok (push_off_hw h)"
  by (simp add: cpu_ok_def)

lemma push_pop_ok [lock_simps]:
  "cpu_ok (hw s) \<Longrightarrow> bindr (push_off s) (\<lambda>_ s. pop_off s) = Ret () (s\<lparr>hw := settle (hw s)\<rparr>)"
  by (simp add: push_off_def pop_off_def push_pop_hw) (simp add: cpu_ok_def)

lemma pop_off_push [lock_simps]:
  "cpu_ok h \<Longrightarrow> pop_off (s\<lparr>hw := push_off_hw h\<rparr>) = Ret () (s\<lparr>hw := settle h\<rparr>)"
  by (simp add: pop_off_def push_pop_hw) (simp add: cpu_ok_def)

lemma settle_push [lock_simps]: "cpu_ok h \<Longrightarrow> settle (push_off_hw h) = push_off_hw h"
  by (simp add: settle_def cpu_ok_def)

lemma pop_offs_last: "pop_offs (Suc n) s = bindr (pop_offs n s) (\<lambda>_ s. pop_off s)"
proof (induction n arbitrary: s)
  case 0
  show ?case by (cases "pop_off s") simp_all
next
  case (Suc n)
  have "pop_offs (Suc (Suc n)) s = bindr (pop_off s) (\<lambda>_ s. pop_offs (Suc n) s)"
    by (rule pop_offs.simps)
  also have "\<dots> = bindr (pop_off s) (\<lambda>_ s. bindr (pop_offs n s) (\<lambda>_ s. pop_off s))"
    by (simp only: Suc)
  finally show ?case by (simp add: bindr_assoc)
qed

lemma push_pops:
  "cpu_ok (hw s) \<Longrightarrow> 0 < n \<Longrightarrow>
    bindr (push_offs n s) (\<lambda>_ s. pop_offs n s) = Ret () (s\<lparr>hw := settle (hw s)\<rparr>)"
proof (induction n arbitrary: s)
  case 0
  then show ?case by simp
next
  case (Suc n)
  let ?s = "s\<lparr>hw := push_off_hw (hw s)\<rparr>"
  have ok: "cpu_ok (hw ?s)" using Suc.prems by (simp add: lock_simps)
  have inner: "bindr (push_offs n ?s) (\<lambda>_ s. pop_offs n s) = Ret () ?s"
  proof (cases "n = 0")
    case True
    then show ?thesis by simp
  next
    case False
    then show ?thesis using Suc.IH[OF ok] Suc.prems by (simp add: lock_simps)
  qed
  have "bindr (push_offs (Suc n) s) (\<lambda>_ s. pop_offs (Suc n) s) =
      bindr (bindr (push_offs n ?s) (\<lambda>_ s. pop_offs n s)) (\<lambda>_ s. pop_off s)"
    by (simp only: pop_offs_last push_offs.simps) (simp add: push_off_def bindr_assoc)
  also have "\<dots> = pop_off ?s" by (simp add: inner)
  finally show ?case using Suc.prems by (simp add: lock_simps)
qed

lemma push_offs_count:
  "\<exists>t. push_offs k s = Ret () t \<and> noff (mycpu (hw t)) = noff (mycpu (hw s)) + int k \<and>
    (0 < k \<longrightarrow> \<not> intr_get (hw t))"
proof (induction k arbitrary: s)
  case (Suc k)
  obtain t where t: "push_offs k (s\<lparr>hw := push_off_hw (hw s)\<rparr>) = Ret () t"
    "noff (mycpu (hw t)) = noff (mycpu (push_off_hw (hw s))) + int k" "0 < k \<longrightarrow> \<not> intr_get (hw t)"
    using Suc[of "s\<lparr>hw := push_off_hw (hw s)\<rparr>"] by auto
  moreover have "\<not> intr_get (hw t)"
    using t by (cases k) auto
  ultimately show ?case by (simp add: push_off_def)
qed simp

section \<open>Interleaved harts\<close>

text \<open>
  One lock and any number of harts, each at a point of \<open>acquire\<close> or \<open>release\<close>. A step is
  one memory access of one hart: the two reads of \<open>holding\<close>, the atomic swap, the store to
  \<open>lk->cpu\<close>, the atomic store of zero.
\<close>

datatype lkpc =
    P_out
  | P_acq_rd_locked | P_acq_rd_cpu | P_swap | P_set_cpu
  | P_crit
  | P_rel_rd_cpu | P_clr_cpu | P_clr_locked
  | P_panic string

record lksys =
  lock :: spinlock
  pcs :: "nat \<Rightarrow> lkpc"

definition at :: "nat \<Rightarrow> lkpc \<Rightarrow> lksys \<Rightarrow> lksys" where
  "at i p s = s\<lparr>pcs := (pcs s)(i := p)\<rparr>"

inductive lk_step :: "lksys \<Rightarrow> lksys \<Rightarrow> bool" where
  call_acquire: "pcs s i = P_out \<Longrightarrow> lk_step s (at i P_acq_rd_locked s)"
| acq_unlocked: "pcs s i = P_acq_rd_locked \<Longrightarrow> locked (lock s) = 0 \<Longrightarrow>
    lk_step s (at i P_swap s)"
| acq_locked: "pcs s i = P_acq_rd_locked \<Longrightarrow> locked (lock s) \<noteq> 0 \<Longrightarrow>
    lk_step s (at i P_acq_rd_cpu s)"
| acq_mine: "pcs s i = P_acq_rd_cpu \<Longrightarrow> lk_cpu (lock s) = Some i \<Longrightarrow>
    lk_step s (at i (P_panic ''acquire'') s)"
| acq_other: "pcs s i = P_acq_rd_cpu \<Longrightarrow> lk_cpu (lock s) \<noteq> Some i \<Longrightarrow>
    lk_step s (at i P_swap s)"
| swap_fails: "pcs s i = P_swap \<Longrightarrow> locked (lock s) \<noteq> 0 \<Longrightarrow>
    lk_step s (s\<lparr>lock := (lock s)\<lparr>locked := 1\<rparr>\<rparr>)"
| swap_wins: "pcs s i = P_swap \<Longrightarrow> locked (lock s) = 0 \<Longrightarrow>
    lk_step s (at i P_set_cpu (s\<lparr>lock := (lock s)\<lparr>locked := 1\<rparr>\<rparr>))"
| set_cpu: "pcs s i = P_set_cpu \<Longrightarrow>
    lk_step s (at i P_crit (s\<lparr>lock := (lock s)\<lparr>lk_cpu := Some i\<rparr>\<rparr>))"
| rel_unlocked: "pcs s i = P_crit \<Longrightarrow> locked (lock s) = 0 \<Longrightarrow>
    lk_step s (at i (P_panic ''release'') s)"
| rel_locked: "pcs s i = P_crit \<Longrightarrow> locked (lock s) \<noteq> 0 \<Longrightarrow>
    lk_step s (at i P_rel_rd_cpu s)"
| rel_other: "pcs s i = P_rel_rd_cpu \<Longrightarrow> lk_cpu (lock s) \<noteq> Some i \<Longrightarrow>
    lk_step s (at i (P_panic ''release'') s)"
| rel_mine: "pcs s i = P_rel_rd_cpu \<Longrightarrow> lk_cpu (lock s) = Some i \<Longrightarrow>
    lk_step s (at i P_clr_cpu s)"
| clr_cpu: "pcs s i = P_clr_cpu \<Longrightarrow>
    lk_step s (at i P_clr_locked (s\<lparr>lock := (lock s)\<lparr>lk_cpu := None\<rparr>\<rparr>))"
| clr_locked: "pcs s i = P_clr_locked \<Longrightarrow>
    lk_step s (at i P_out (s\<lparr>lock := (lock s)\<lparr>locked := 0\<rparr>\<rparr>))"

definition lk_init :: "lksys \<Rightarrow> bool" where
  "lk_init s \<longleftrightarrow> locked (lock s) = 0 \<and> lk_cpu (lock s) = None \<and> pcs s = (\<lambda>_. P_out)"

text \<open>The harts that own the lock word, and those for which \<open>holding\<close> answers yes.\<close>

definition owner_pc :: "lkpc \<Rightarrow> bool" where
  "owner_pc p \<longleftrightarrow> p \<in> {P_set_cpu, P_crit, P_rel_rd_cpu, P_clr_cpu, P_clr_locked}"

definition holder_pc :: "lkpc \<Rightarrow> bool" where
  "holder_pc p \<longleftrightarrow> p \<in> {P_crit, P_rel_rd_cpu, P_clr_cpu}"

definition lk_inv :: "lksys \<Rightarrow> bool" where
  "lk_inv s \<longleftrightarrow>
     (\<forall>i j. owner_pc (pcs s i) \<and> owner_pc (pcs s j) \<longrightarrow> i = j) \<and>
     (locked (lock s) \<noteq> 0 \<longleftrightarrow> (\<exists>i. owner_pc (pcs s i))) \<and>
     (\<forall>i. lk_cpu (lock s) = Some i \<longleftrightarrow> holder_pc (pcs s i)) \<and>
     (\<forall>i m. pcs s i \<noteq> P_panic m)"

lemma lk_inv_at:
  assumes "lk_inv s" and "owner_pc p = owner_pc (pcs s i)" and "holder_pc p = holder_pc (pcs s i)"
    and "\<And>m. p \<noteq> P_panic m"
  shows "lk_inv (at i p s)"
proof -
  have "owner_pc (pcs (at i p s) j) = owner_pc (pcs s j)"
    "holder_pc (pcs (at i p s) j) = holder_pc (pcs s j)" for j
    using assms(2,3) by (simp_all add: at_def)
  then show ?thesis
    using assms(1,4) by (simp add: lk_inv_def) (simp add: at_def)
qed

lemma lk_inv_owner:
  assumes "lk_inv s" and "owner_pc (pcs s i)"
  shows "locked (lock s) \<noteq> 0" and "owner_pc (pcs s j) \<longleftrightarrow> j = i"
  using assms unfolding lk_inv_def by blast+

lemma lk_inv_holder: "lk_inv s \<Longrightarrow> lk_cpu (lock s) = Some i \<longleftrightarrow> holder_pc (pcs s i)"
  by (simp add: lk_inv_def)

lemma holder_owner: "holder_pc p \<Longrightarrow> owner_pc p"
  by (auto simp: holder_pc_def owner_pc_def)

lemmas pc_simps = owner_pc_def holder_pc_def

lemma lk_inv_swap:
  assumes "lk_inv s" and "pcs s i = P_swap" and "locked (lock s) = 0"
  shows "lk_inv (at i P_set_cpu (s\<lparr>lock := (lock s)\<lparr>locked := 1\<rparr>\<rparr>))"
proof -
  have none: "\<not> owner_pc (pcs s j)" for j
    using lk_inv_owner(1)[OF assms(1)] assms(3) by blast
  then have "\<not> holder_pc (pcs s j)" for j using holder_owner by blast
  with none assms show ?thesis
    by (simp add: lk_inv_def) (simp add: at_def pc_simps)
qed

lemma lk_inv_set_cpu:
  assumes "lk_inv s" and "pcs s i = P_set_cpu"
  shows "lk_inv (at i P_crit (s\<lparr>lock := (lock s)\<lparr>lk_cpu := Some i\<rparr>\<rparr>))"
proof -
  have o: "owner_pc (pcs s i)" using assms(2) by (simp add: pc_simps)
  have only: "owner_pc (pcs s j) \<longleftrightarrow> j = i" for j by (rule lk_inv_owner(2)[OF assms(1) o])
  then have "holder_pc (pcs s j) \<Longrightarrow> j = i" for j using holder_owner by blast
  with only o lk_inv_owner(1)[OF assms(1) o] assms show ?thesis
    by (auto simp: lk_inv_def at_def pc_simps)
qed

lemma lk_inv_clr_cpu:
  assumes "lk_inv s" and "pcs s i = P_clr_cpu"
  shows "lk_inv (at i P_clr_locked (s\<lparr>lock := (lock s)\<lparr>lk_cpu := None\<rparr>\<rparr>))"
proof -
  have o: "owner_pc (pcs s i)" using assms(2) by (simp add: pc_simps)
  have only: "owner_pc (pcs s j) \<longleftrightarrow> j = i" for j by (rule lk_inv_owner(2)[OF assms(1) o])
  then have "holder_pc (pcs s j) \<Longrightarrow> j = i" for j using holder_owner by blast
  with only o lk_inv_owner(1)[OF assms(1) o] assms show ?thesis
    by (auto simp: lk_inv_def at_def pc_simps)
qed

lemma lk_inv_clr_locked:
  assumes "lk_inv s" and "pcs s i = P_clr_locked"
  shows "lk_inv (at i P_out (s\<lparr>lock := (lock s)\<lparr>locked := 0\<rparr>\<rparr>))"
proof -
  have o: "owner_pc (pcs s i)" using assms(2) by (simp add: pc_simps)
  have only: "owner_pc (pcs s j) \<longleftrightarrow> j = i" for j by (rule lk_inv_owner(2)[OF assms(1) o])
  with assms show ?thesis
    by (auto simp: lk_inv_def at_def pc_simps)
qed

lemma lk_inv_swap_fails:
  "lk_inv s \<Longrightarrow> locked (lock s) \<noteq> 0 \<Longrightarrow> lk_inv (s\<lparr>lock := (lock s)\<lparr>locked := 1\<rparr>\<rparr>)"
  by (simp add: lk_inv_def)

lemma lk_step_inv:
  assumes "lk_inv s" and "lk_step s t"
  shows "lk_inv t"
  using assms(2,1)
proof (induction rule: lk_step.induct)
  case (acq_mine s i)
  then show ?case using lk_inv_holder[of s i] by (simp add: pc_simps)
next
  case (rel_unlocked s i)
  then show ?case using lk_inv_owner(1)[of s i] by (simp add: pc_simps)
next
  case (rel_other s i)
  then show ?case using lk_inv_holder[of s i] by (simp add: pc_simps)
qed (simp_all add: lk_inv_at lk_inv_swap lk_inv_set_cpu lk_inv_clr_cpu lk_inv_clr_locked
    lk_inv_swap_fails pc_simps)

interpretation lk_sys: inv_system lk_init lk_step lk_inv
proof
  show "lk_init s \<Longrightarrow> lk_inv s" for s
    by (simp add: lk_init_def lk_inv_def owner_pc_def holder_pc_def)
qed (rule lk_step_inv)

section \<open>Properties\<close>

text \<open>
  C1: Mutual exclusion. However the harts interleave their memory accesses, no two of them are
  ever between the return of \<open>acquire\<close> and the store that frees the lock.
\<close>

theorem spinlock_mutual_exclusion:
  assumes "reach lk_init lk_step s" and "owner_pc (pcs s i)" and "owner_pc (pcs s j)"
  shows "i = j"
  using lk_sys.reach_inv[OF assms(1)] assms(2,3) unfolding lk_inv_def by blast

lemma lk_run_example:
  "reach lk_init lk_step
     \<lparr>lock = \<lparr>locked = 1, lk_name = ''l'', lk_cpu = Some 1\<rparr>, pcs = (\<lambda>_. P_out)(1 := P_crit)\<rparr>"
proof -
  let ?l0 = "\<lparr>locked = 0, lk_name = ''l'', lk_cpu = None\<rparr>"
  let ?l1 = "\<lparr>locked = 1, lk_name = ''l'', lk_cpu = None\<rparr>"
  let ?p = "\<lambda>p. (\<lambda>_. P_out)(1 := p)"
  have r0: "reach lk_init lk_step \<lparr>lock = ?l0, pcs = (\<lambda>_. P_out)\<rparr>"
    by (rule reach_start) (simp add: lk_init_def)
  have r1: "reach lk_init lk_step \<lparr>lock = ?l0, pcs = ?p P_acq_rd_locked\<rparr>"
    using reach_step[OF r0 call_acquire[of _ 1]] by (simp add: at_def)
  have r2: "reach lk_init lk_step \<lparr>lock = ?l0, pcs = ?p P_swap\<rparr>"
    using reach_step[OF r1 acq_unlocked[of _ 1]] by (simp add: at_def)
  have r3: "reach lk_init lk_step \<lparr>lock = ?l1, pcs = ?p P_set_cpu\<rparr>"
    using reach_step[OF r2 swap_wins[of _ 1]] by (simp add: at_def)
  show ?thesis
    using reach_step[OF r3 set_cpu[of _ 1]] by (simp add: at_def)
qed

theorem spinlock_mutual_exclusion_witness:
  "let s = \<lparr>lock = \<lparr>locked = 1, lk_name = ''l'', lk_cpu = Some 1\<rparr>,
      pcs = (\<lambda>_. P_out)(1 := P_crit)\<rparr> in
    reach lk_init lk_step s \<and> owner_pc (pcs s 1) \<and> (\<forall>j. owner_pc (pcs s j) \<longrightarrow> 1 = j)"
  using lk_run_example spinlock_mutual_exclusion[OF lk_run_example, of 1]
  by (auto simp: Let_def owner_pc_def)

text \<open>
  C10: The checks of \<open>acquire\<close> and \<open>release\<close> never fire in harts that use the lock in
  brackets: no interleaving reaches either panic.
\<close>

theorem spinlock_never_panics:
  assumes "reach lk_init lk_step s"
  shows "pcs s i \<noteq> P_panic m"
  using lk_sys.reach_inv[OF assms] by (simp add: lk_inv_def)

theorem spinlock_never_panics_witness:
  "pcs \<lparr>lock = \<lparr>locked = 1, lk_name = ''l'', lk_cpu = Some 1\<rparr>,
      pcs = (\<lambda>_. P_out)(1 := P_crit)\<rparr> 1 \<noteq> P_panic ''release''"
  by (rule spinlock_never_panics[OF lk_run_example])

lemma acquire_run:
  assumes "pcs s i = P_out" and "locked (lock s) = 0"
  shows "lk_step\<^sup>*\<^sup>* s
    \<lparr>lock = (lock s)\<lparr>locked := 1, lk_cpu := Some i\<rparr>, pcs = (pcs s)(i := P_crit)\<rparr>"
proof -
  let ?s1 = "at i P_acq_rd_locked s"
  let ?s2 = "at i P_swap ?s1"
  let ?s3 = "at i P_set_cpu (?s2\<lparr>lock := (lock ?s2)\<lparr>locked := 1\<rparr>\<rparr>)"
  let ?s4 = "at i P_crit (?s3\<lparr>lock := (lock ?s3)\<lparr>lk_cpu := Some i\<rparr>\<rparr>)"
  have "lk_step s ?s1"
    by (rule call_acquire) (use assms in simp)
  then have "lk_step\<^sup>*\<^sup>* s ?s1" by (rule r_into_rtranclp)
  also have "lk_step ?s1 ?s2"
    by (rule acq_unlocked) (use assms in \<open>simp_all add: at_def\<close>)
  also have "lk_step ?s2 ?s3"
    by (rule swap_wins) (use assms in \<open>simp_all add: at_def\<close>)
  also have "lk_step ?s3 ?s4"
    by (rule set_cpu) (simp add: at_def)
  finally have "lk_step\<^sup>*\<^sup>* s ?s4" .
  then show ?thesis by (cases s) (simp add: at_def)
qed

text \<open>
  C11: \<open>acquire\<close> as a function of one hart is a run of the step relation: a call that
  returns moves the hart from outside to the critical section, with the same final contents of
  the lock, whatever the other harts are doing.
\<close>

theorem acquire_refines_steps:
  assumes "acquire lk s = Ret () t" and "p (tp (hw s)) = P_out"
  shows "lk_step\<^sup>*\<^sup>* \<lparr>lock = locks (hw s) lk, pcs = p\<rparr>
    \<lparr>lock = locks (hw t) lk, pcs = p(tp (hw s) := P_crit)\<rparr>"
proof -
  have "locked (locks (hw s) lk) = 0" and
    "locks (hw t) lk = (locks (hw s) lk)\<lparr>locked := 1, lk_cpu := Some (tp (hw s))\<rparr>"
    using assms(1)
    by (auto simp: acquire_def push_off_def holding_def set_lock_def split: if_splits)
  with acquire_run[of "\<lparr>lock = locks (hw s) lk, pcs = p\<rparr>" "tp (hw s)"] assms(2)
  show ?thesis by simp
qed

lemma acquire_hw0: "acquire lk \<lparr>hw = hw0\<rparr> = Ret () \<lparr>hw = enter lk hw0\<rparr>"
  by (simp add: lock_simps)

theorem acquire_refines_steps_witness:
  "lk_step\<^sup>*\<^sup>* \<lparr>lock = locks hw0 Lk_kmem, pcs = (\<lambda>_. P_out)\<rparr>
     \<lparr>lock = locks (enter Lk_kmem hw0) Lk_kmem, pcs = (\<lambda>_. P_out)(0 := P_crit)\<rparr>"
  using acquire_refines_steps[OF acquire_hw0, of "\<lambda>_. P_out" Lk_kmem]
  by (simp add: hw0_def)

text \<open>
  C12: \<open>push_off\<close> and \<open>pop_off\<close> are matched. At any nesting depth that fits the 32-bit
  \<open>int\<close> of the source, \<open>n\<close> calls of \<open>push_off\<close> count up by one each, with the count
  inside the range of the \<open>int\<close> and interrupts disabled after every one of them; \<open>n\<close> calls of
  \<open>pop_off\<close> then undo them and leave the count and the interrupt bit as they were.
\<close>

theorem push_pop_matched:
  assumes "cpu_ok (hw s)" and "0 < n" and "noff (mycpu (hw s)) + int n < 2 ^ 31"
  shows "(\<forall>k \<le> n. \<exists>t. push_offs k s = Ret () t \<and>
      noff (mycpu (hw t)) = sint (word_of_int (noff (mycpu (hw s)) + int k) :: 32 word) \<and>
      (0 < k \<longrightarrow> \<not> intr_get (hw t))) \<and>
    bindr (push_offs n s) (\<lambda>_ s. pop_offs n s) = Ret () (s\<lparr>hw := settle (hw s)\<rparr>) \<and>
    intr_get (settle (hw s)) = intr_get (hw s) \<and>
    noff (mycpu (settle (hw s))) = noff (mycpu (hw s))"
proof -
  have "sint (word_of_int (noff (mycpu (hw s)) + int k) :: 32 word) = noff (mycpu (hw s)) + int k" if "k \<le> n" for k
    using assms that unfolding sint_sbintrunc' cpu_ok_def by (intro signed_take_bit_int_eq_self) simp_all
  then show ?thesis
    using push_pops[OF assms(1,2)] push_offs_count[of _ s] by auto
qed

theorem push_pop_matched_witness:
  "bindr (push_offs 3 \<lparr>hw = hw0\<rparr>) (\<lambda>_ s. pop_offs 3 s) = Ret () \<lparr>hw = hw0\<rparr> \<and>
    (\<exists>t. push_offs 2 \<lparr>hw = hw0\<rparr> = Ret () t \<and> noff (mycpu (hw t)) = 2)"
proof -
  have "noff (mycpu hw0) = 0" by (simp add: hw0_def mycpu_def)
  then show ?thesis
    using push_pop_matched[of "\<lparr>hw = hw0\<rparr>" 3] by (auto dest!: spec[of _ 2])
qed

end
