(* ===== verification/Kstring.thy ===== *)
theory Kstring
  imports Prelude
begin

text \<open>
  The string and memory routines of \<open>kernel/string.c\<close>. The memory routines work on the
  byte-addressed physical memory, a function from addresses to bytes; the string routines on
  the bytes of the C objects they are given, with \<open>None\<close> for a read or a write past the end
  of an object.
\<close>

type_synonym memory = "u64 \<Rightarrow> u8"

section \<open>Memory\<close>

fun memset_loop :: "memory \<Rightarrow> u64 \<Rightarrow> int \<Rightarrow> nat \<Rightarrow> nat \<Rightarrow> memory" where
  "memset_loop m dst c i 0 = m"
| "memset_loop m dst c i (Suc k) =
     memset_loop (m(dst + of_nat i := word_of_int c)) dst c (Suc i) k"

definition memset :: "memory \<Rightarrow> u64 \<Rightarrow> int \<Rightarrow> nat \<Rightarrow> memory" where
  "memset m dst c n = memset_loop m dst c 0 n"

fun memcmp :: "memory \<Rightarrow> u64 \<Rightarrow> u64 \<Rightarrow> nat \<Rightarrow> int" where
  "memcmp m s1 s2 0 = 0"
| "memcmp m s1 s2 (Suc n) =
     (if m s1 \<noteq> m s2 then uint (m s1) - uint (m s2) else memcmp m (s1 + 1) (s2 + 1) n)"

fun copy_fwd :: "memory \<Rightarrow> u64 \<Rightarrow> u64 \<Rightarrow> nat \<Rightarrow> memory" where
  "copy_fwd m d s 0 = m"
| "copy_fwd m d s (Suc n) = copy_fwd (m(d := m s)) (d + 1) (s + 1) n"

fun copy_bwd :: "memory \<Rightarrow> u64 \<Rightarrow> u64 \<Rightarrow> nat \<Rightarrow> memory" where
  "copy_bwd m d s 0 = m"
| "copy_bwd m d s (Suc n) = copy_bwd (m(d - 1 := m (s - 1))) (d - 1) (s - 1) n"

definition memmove :: "memory \<Rightarrow> u64 \<Rightarrow> u64 \<Rightarrow> nat \<Rightarrow> memory" where
  "memmove m dst src n =
     (if n = 0 then m
      else if src < dst \<and> src + of_nat n > dst
      then copy_bwd m (dst + of_nat n) (src + of_nat n) n
      else copy_fwd m dst src n)"

definition memcpy :: "memory \<Rightarrow> u64 \<Rightarrow> u64 \<Rightarrow> nat \<Rightarrow> memory" where
  "memcpy m dst src n = memmove m dst src n"

section \<open>Strings\<close>

fun strncmp :: "bytes \<Rightarrow> bytes \<Rightarrow> nat \<Rightarrow> int option" where
  "strncmp p q 0 = Some 0"
| "strncmp (a # p) (b # q) (Suc n) =
     (if a \<noteq> NUL \<and> a = b then strncmp p q n else Some (of_char a - of_char b))"
| "strncmp _ _ (Suc n) = None"

text \<open>The second loop of \<open>strncpy\<close>, which pads with NULs.\<close>

fun fill_nul :: "bytes \<Rightarrow> nat \<Rightarrow> bytes option" where
  "fill_nul s 0 = Some s"
| "fill_nul [] (Suc n) = None"
| "fill_nul (_ # s) (Suc n) = map_option ((#) NUL) (fill_nul s n)"

fun strncpy :: "bytes \<Rightarrow> bytes \<Rightarrow> nat \<Rightarrow> bytes option" where
  "strncpy s t 0 = Some s"
| "strncpy (_ # s) (c # t) (Suc n) =
     map_option ((#) c) (if c \<noteq> NUL then strncpy s t n else fill_nul s n)"
| "strncpy _ _ (Suc n) = None"

text \<open>
  \<open>safestrcpy_loop s t k\<close> is the loop entered with \<open>n\<close> equal to \<open>Suc k\<close>, so that
  \<open>--n > 0\<close> holds exactly when \<open>k\<close> is positive.
\<close>

fun safestrcpy_loop :: "bytes \<Rightarrow> bytes \<Rightarrow> nat \<Rightarrow> bytes option" where
  "safestrcpy_loop [] t 0 = None"
| "safestrcpy_loop (_ # s) t 0 = Some (NUL # s)"
| "safestrcpy_loop (_ # s) (c # t) (Suc k) =
     (if c \<noteq> NUL then map_option ((#) c) (safestrcpy_loop s t k)
      else (case s of [] \<Rightarrow> None | _ # s' \<Rightarrow> Some (NUL # NUL # s')))"
| "safestrcpy_loop _ _ (Suc k) = None"

definition safestrcpy :: "bytes \<Rightarrow> bytes \<Rightarrow> int \<Rightarrow> bytes option" where
  "safestrcpy s t n = (if n \<le> 0 then Some s else safestrcpy_loop s t (nat n - 1))"

fun strlen :: "bytes \<Rightarrow> nat option" where
  "strlen [] = None"
| "strlen (c # s) = (if c = NUL then Some 0 else map_option Suc (strlen s))"

section \<open>The memory routines against their specification\<close>

text \<open>What filling and copying mean: the byte at offset \<open>a - dst\<close>, if below \<open>n\<close>, changes.\<close>

definition filled :: "memory \<Rightarrow> u64 \<Rightarrow> u8 \<Rightarrow> nat \<Rightarrow> memory" where
  "filled m dst c n = (\<lambda>a. if unat (a - dst) < n then c else m a)"

definition copied :: "memory \<Rightarrow> u64 \<Rightarrow> u64 \<Rightarrow> nat \<Rightarrow> memory" where
  "copied m dst src n = (\<lambda>a. if unat (a - dst) < n then m (src + (a - dst)) else m a)"

lemma unat_of_nat_u64: "n < 2 ^ 64 \<Longrightarrow> unat (of_nat n :: u64) = n"
  by (simp add: unat_of_nat)

lemma unat_u64: "unat (a :: u64) < 2 ^ 64"
  using unsigned_less[of a] by simp

lemma of_nat_unat_u64 [simp]: "of_nat (unat (a :: u64)) = a"
  by simp

lemma offset_eq:
  assumes "i < 2 ^ 64"
  shows "a = dst + of_nat i \<longleftrightarrow> unat (a - dst :: u64) = i"
proof
  assume "a = dst + of_nat i"
  then have "a - dst = of_nat i" by simp
  then show "unat (a - dst) = i" by (simp only: unat_of_nat_u64[OF assms])
next
  assume "unat (a - dst) = i"
  then have "a - dst = of_nat i" by (metis of_nat_unat_u64)
  then show "a = dst + of_nat i" by (simp add: algebra_simps)
qed

lemma memset_loop_eq:
  "i + k \<le> 2 ^ 64 \<Longrightarrow> memset_loop m dst c i k =
    (\<lambda>a. if i \<le> unat (a - dst) \<and> unat (a - dst) < i + k then word_of_int c else m a)"
proof (induction k arbitrary: m i)
  case 0
  then show ?case by (auto simp: fun_eq_iff)
next
  case (Suc k)
  then have "i < 2 ^ 64" by simp
  then have off: "a = dst + of_nat i \<longleftrightarrow> unat (a - dst) = i" for a by (rule offset_eq)
  show ?case
    using Suc by (auto simp: fun_eq_iff off Suc_le_eq simp del: of_nat_Suc)
qed

lemma memset_eq: "n \<le> 2 ^ 64 \<Longrightarrow> memset m dst c n = filled m dst (word_of_int c) n"
  by (simp add: memset_def memset_loop_eq filled_def)

lemma step_offset:
  fixes a d :: u64
  assumes "a \<noteq> d"
  shows "unat (a - (d + 1)) = unat (a - d) - 1" and "0 < unat (a - d)"
proof -
  have ne: "a - d \<noteq> 0" using assms by simp
  then show pos: "0 < unat (a - d)" by (simp add: unat_gt_0)
  have "a - (d + 1) = (a - d) - 1" by simp
  then show "unat (a - (d + 1)) = unat (a - d) - 1"
    using ne by (metis unat_minus_one)
qed

lemma copy_fwd_eq:
  assumes "n \<le> 2 ^ 64" and "\<And>k. 0 < k \<Longrightarrow> k < n \<Longrightarrow> s + of_nat k \<noteq> d"
  shows "copy_fwd m d s n = copied m d s n"
  using assms
proof (induction n arbitrary: m d s)
  case 0
  then show ?case by (simp add: copied_def)
next
  case (Suc n)
  let ?m = "m(d := m s)"
  have "copy_fwd ?m (d + 1) (s + 1) n = copied ?m (d + 1) (s + 1) n"
  proof (rule Suc.IH)
    fix k assume "0 < k" "k < n"
    then have "s + of_nat k \<noteq> d" using Suc.prems(2)[of k] by simp
    moreover have "s + 1 + of_nat k = (s + of_nat k) + 1" by (simp only: ac_simps)
    ultimately show "s + 1 + of_nat k \<noteq> d + 1" by (simp only: add_right_cancel not_False_eq_True)
  qed (use Suc.prems in simp)
  moreover have "copied ?m (d + 1) (s + 1) n a = copied m d s (Suc n) a" for a
  proof (cases "a = d")
    case True
    have "unat (d - (d + 1)) = 2 ^ 64 - 1"
      by (simp add: unsigned_minus_1_eq_mask mask_eq_exp_minus_1)
    with True show ?thesis using Suc.prems(1) by (simp add: copied_def)
  next
    case False
    note off = step_offset[OF this]
    have src: "s + 1 + (a - (d + 1)) = s + (a - d)" by simp
    have "unat (a - d) < Suc n \<Longrightarrow> s + (a - d) \<noteq> d"
      using Suc.prems(2)[of "unat (a - d)"] off(2) by simp
    then show ?thesis using False off by (auto simp: copied_def src)
  qed
  ultimately show ?case by (simp add: fun_eq_iff)
qed

lemma copy_bwd_eq:
  assumes "n \<le> 2 ^ 64" and "\<And>j k. j < n \<Longrightarrow> k < j \<Longrightarrow> s + of_nat k \<noteq> d + of_nat j"
  shows "copy_bwd m (d + of_nat n) (s + of_nat n) n = copied m d s n"
  using assms
proof (induction n arbitrary: m)
  case 0
  then show ?case by (simp add: copied_def)
next
  case (Suc n)
  let ?m = "m(d + of_nat n := m (s + of_nat n))"
  have "n < 2 ^ 64" using Suc.prems(1) by simp
  then have off: "a = d + of_nat n \<longleftrightarrow> unat (a - d) = n" for a by (rule offset_eq)
  have "copy_bwd ?m (d + of_nat n) (s + of_nat n) n = copied ?m d s n"
    by (rule Suc.IH) (use Suc.prems in auto)
  moreover have "copied ?m d s n a = copied m d s (Suc n) a" for a
  proof (cases "unat (a - d) < n")
    case True
    then have "s + of_nat (unat (a - d)) \<noteq> d + of_nat n"
      by (intro Suc.prems(2)) auto
    with True show ?thesis by (simp add: copied_def)
  next
    case False
    then show ?thesis by (auto simp: copied_def off less_Suc_eq)
  qed
  ultimately show ?case by (simp add: fun_eq_iff)
qed

lemma unat_add_of_nat:
  "unat (a :: u64) + n < 2 ^ 64 \<Longrightarrow> unat (a + of_nat n) = unat a + n"
  by (simp add: unat_word_ariths unat_of_nat)

lemma memmove_eq:
  assumes "unat src + n < 2 ^ 64" and "unat dst + n < 2 ^ 64"
  shows "memmove m dst src n = copied m dst src n"
proof (cases "src < dst \<and> src + of_nat n > dst")
  case True
  have "src + of_nat k \<noteq> dst + of_nat j" if "j < n" "k < j" for j k
  proof
    assume "src + of_nat k = dst + of_nat j"
    then have "unat (src + of_nat k) = unat (dst + of_nat j)" by simp
    then have "unat src + k = unat dst + j"
      using that assms by (simp add: unat_add_of_nat)
    moreover have "unat src < unat dst" using True by (simp add: word_less_nat_alt)
    ultimately show False using that by simp
  qed
  then show ?thesis
    using True assms(1) copy_bwd_eq[of n src dst m]
    by (cases "n = 0") (auto simp: memmove_def copied_def)
next
  case False
  have "src + of_nat k \<noteq> dst" if "0 < k" "k < n" for k
  proof
    assume "src + of_nat k = dst"
    then have "unat dst = unat src + k"
      using that assms by (simp add: unat_add_of_nat flip: \<open>src + of_nat k = dst\<close>)
    moreover have "unat (src + of_nat n) = unat src + n" using assms by (simp add: unat_add_of_nat)
    ultimately show False using False that by (simp add: word_less_nat_alt)
  qed
  then show ?thesis
    using False assms(1) copy_fwd_eq[of n src dst m]
    by (cases "n = 0") (auto simp: memmove_def copied_def)
qed

lemma memcmp_zero:
  "memcmp m s1 s2 n = 0 \<longleftrightarrow> (\<forall>k<n. m (s1 + of_nat k) = m (s2 + of_nat k))"
proof (induction n arbitrary: s1 s2)
  case 0
  then show ?case by simp
next
  case (Suc n)
  have "uint (m s1) - uint (m s2) = 0 \<longleftrightarrow> m s1 = m s2"
    by (simp add: word_uint_eq_iff)
  moreover have "(\<forall>k<Suc n. m (s1 + of_nat k) = m (s2 + of_nat k)) \<longleftrightarrow>
      m s1 = m s2 \<and> (\<forall>k<n. m (s1 + 1 + of_nat k) = m (s2 + 1 + of_nat k))"
    by (simp add: All_less_Suc2 add.assoc)
  ultimately show ?case by (simp add: Suc)
qed

section \<open>The string routines against their specification\<close>

text \<open>The text of a C string, and whether the object holds a terminator at all.\<close>

definition cstr :: "bytes \<Rightarrow> bytes" where
  "cstr s = takeWhile (\<lambda>c. c \<noteq> NUL) s"

lemma cstr_simps [simp]:
  "cstr [] = []" "cstr (NUL # s) = []" "c \<noteq> NUL \<Longrightarrow> cstr (c # s) = c # cstr s"
  by (simp_all add: cstr_def)

lemma strlen_eq: "strlen s = (if NUL \<in> set s then Some (length (cstr s)) else None)"
  by (induction s) auto

lemma of_char_zero: "(of_char c :: int) = 0 \<longleftrightarrow> c = NUL"
  using of_char_eq_iff[of c NUL, where 'a = int] by simp

lemma strncmp_zero:
  assumes "NUL \<in> set p" and "NUL \<in> set q"
  shows "\<exists>r. strncmp p q n = Some r \<and> (r = 0 \<longleftrightarrow> take n (cstr p) = take n (cstr q))"
  using assms
proof (induction p q n rule: strncmp.induct)
  case (2 a p b q n)
  show ?case
  proof (cases "a \<noteq> NUL \<and> a = b")
    case True
    with 2 have "NUL \<in> set p" "NUL \<in> set q" by auto
    with 2 True show ?thesis by auto
  next
    case False
    then show ?thesis by (cases "a = NUL"; cases "b = NUL") (auto simp: of_char_zero)
  qed
qed simp_all

lemma fill_nul_eq:
  "n \<le> length s \<Longrightarrow> fill_nul s n = Some (replicate n NUL @ drop n s)"
  by (induction s n rule: fill_nul.induct) simp_all

lemma strncpy_eq:
  assumes "n \<le> length s" and "NUL \<in> set t"
  shows "strncpy s t n =
    Some (take n (cstr t) @ replicate (n - length (cstr t)) NUL @ drop n s)"
  using assms
proof (induction s t n rule: strncpy.induct)
  case (2 x s c t n)
  then show ?case
    by (cases "c = NUL") (auto simp: fill_nul_eq)
qed auto

lemma safestrcpy_loop_eq:
  assumes "k < length s" and "NUL \<in> set t"
  shows "\<exists>d. safestrcpy_loop s t k = Some d \<and> length d = length s \<and>
    cstr d = take k (cstr t) \<and> NUL \<in> set (take (Suc k) d) \<and> drop (Suc k) d = drop (Suc k) s"
  using assms
proof (induction s t k rule: safestrcpy_loop.induct)
  case (3 x s c t k)
  then show ?case by (cases "c = NUL"; cases s) auto
qed auto

lemma safestrcpy_eq:
  assumes "0 < n" and "n \<le> int (length s)" and "NUL \<in> set t"
  shows "\<exists>d. safestrcpy s t n = Some d \<and> length d = length s \<and>
    cstr d = take (nat n - 1) (cstr t) \<and> NUL \<in> set (take (nat n) d) \<and>
    drop (nat n) d = drop (nat n) s"
  using safestrcpy_loop_eq[of "nat n - 1" s t] assms by (simp add: safestrcpy_def Suc_diff_1)

section \<open>Properties\<close>

text \<open>
  C6: \<open>memmove\<close> copies \<open>n\<close> bytes however source and destination overlap: every byte of
  the destination gets the old byte of the source, and no other byte changes.
\<close>

theorem memmove_correct:
  assumes "unat src + n < 2 ^ 64" and "unat dst + n < 2 ^ 64"
  shows "(\<forall>k<n. memmove m dst src n (dst + of_nat k) = m (src + of_nat k)) \<and>
    (\<forall>a. (\<forall>k<n. a \<noteq> dst + of_nat k) \<longrightarrow> memmove m dst src n a = m a)"
proof -
  have "memmove m dst src n (dst + of_nat k) = m (src + of_nat k)" if "k < n" for k
    using that assms(2) unat_of_nat_u64[of k] by (simp add: memmove_eq[OF assms] copied_def)
  moreover have "memmove m dst src n a = m a" if "\<forall>k<n. a \<noteq> dst + of_nat k" for a
  proof -
    have "\<not> unat (a - dst) < n"
    proof
      assume "unat (a - dst) < n"
      with that have "a \<noteq> dst + of_nat (unat (a - dst))" by blast
      then show False by simp
    qed
    then show ?thesis by (simp add: memmove_eq[OF assms] copied_def)
  qed
  ultimately show ?thesis by blast
qed

theorem memmove_correct_witness:
  "memmove (\<lambda>a. ucast a) 0x1001 0x1000 8 0x1008 = 7"
proof -
  have "\<forall>k<8. memmove (\<lambda>a. ucast a) 0x1001 0x1000 8 (0x1001 + of_nat k) = (ucast (0x1000 + of_nat k :: u64) :: u8)"
    using memmove_correct[of "0x1000" 8 "0x1001" "\<lambda>a. ucast a"] by simp
  then have "memmove (\<lambda>a. ucast a) 0x1001 0x1000 8 (0x1001 + of_nat 7) = (ucast (0x1000 + of_nat 7 :: u64) :: u8)"
    by (rule allE[of _ 7]) simp
  then show ?thesis by simp
qed

text \<open>
  C7: \<open>safestrcpy\<close> with a positive size always leaves a terminated string: the longest
  prefix of the source that fits, inside the first \<open>n\<close> bytes of the destination, whose
  other bytes it does not touch.
\<close>

theorem safestrcpy_terminates:
  assumes "0 < n" and "n \<le> int (length s)" and "NUL \<in> set t"
  shows "\<exists>d. safestrcpy s t n = Some d \<and> length d = length s \<and>
    cstr d = take (nat n - 1) (cstr t) \<and> NUL \<in> set (take (nat n) d) \<and>
    drop (nat n) d = drop (nat n) s"
  by (rule safestrcpy_eq[OF assms])

theorem safestrcpy_terminates_witness:
  "safestrcpy ''......'' (''init'' @ [NUL]) 4 = Some (''ini'' @ [NUL] @ ''..'') \<and>
    (\<exists>d. safestrcpy ''......'' (''init'' @ [NUL]) 4 = Some d \<and> cstr d = ''ini'')"
  using safestrcpy_terminates[of 4 "''......''" "''init'' @ [NUL]"]
  by (simp add: safestrcpy_def numeral_eq_Suc)

end
