(* ===== verification/Kprintf.thy ===== *)
theory Kprintf
  imports Spinlock Kstring
begin

text \<open>
  Kernel console output: \<open>kernel/printf.c\<close>, \<open>consputc\<close> of \<open>kernel/console.c\<close> and
  \<open>uartputc_sync\<close> of \<open>kernel/uart.c\<close>. A call of \<open>printf\<close> walks through its format and
  passes characters to \<open>consputc\<close> as it goes; the output is the bytes written to the
  transmit register. What a format means is stated a second time, independently of the loop, as
  the relation \<open>formats\<close> between a format, its arguments and a text.
\<close>

section \<open>The UART transmit path\<close>

definition LSR_TX_IDLE :: u8 where
  "LSR_TX_IDLE = push_bit 5 1"

definition uartputc_sync :: "int \<Rightarrow> 'z kst_scheme \<Rightarrow> (unit, 'z kst_scheme) res" where
  "uartputc_sync c s =
     bindr (if \<not> panicking (hw s) then push_off s else Ret () s) (\<lambda>_ s.
     if panicked (hw s) then Spin s
     else if lsr (hw s) AND LSR_TX_IDLE = 0 then Spin s
     else let s = s\<lparr>hw := (hw s)\<lparr>thr := thr (hw s) @ [char_of c]\<rparr>\<rparr>
       in if \<not> panicking (hw s) then pop_off s else Ret () s)"

definition BACKSPACE :: int where
  "BACKSPACE = 0x100"

definition consputc :: "int \<Rightarrow> 'z kst_scheme \<Rightarrow> (unit, 'z kst_scheme) res" where
  "consputc c s =
     (if c = BACKSPACE then
        bindr (uartputc_sync 8 s) (\<lambda>_ s.
        bindr (uartputc_sync 32 s) (\<lambda>_ s. uartputc_sync 8 s))
      else uartputc_sync c s)"

fun consputs :: "int list \<Rightarrow> 'z kst_scheme \<Rightarrow> (unit, 'z kst_scheme) res" where
  "consputs [] s = Ret () s"
| "consputs (c # cs) s = bindr (consputc c s) (\<lambda>_ s. consputs cs s)"

section \<open>Formatting\<close>

definition digits :: bytes where
  "digits = ''0123456789abcdef''"

text \<open>
  The loop of \<open>printint\<close> that fills \<open>buf\<close>, least significant digit first. The guard on the
  base makes the recursion total; only 10 and 16 are ever passed.
\<close>

function printint_buf :: "nat \<Rightarrow> nat \<Rightarrow> bytes" where
  "printint_buf base x =
     digits ! (x mod base) #
       (if x div base \<noteq> 0 \<and> 2 \<le> base then printint_buf base (x div base) else [])"
  by pat_completeness auto
termination
  by (relation "measure snd") (auto intro!: div_less_dividend gr0I)

declare printint_buf.simps [simp del]

definition printint :: "u64 \<Rightarrow> nat \<Rightarrow> bool \<Rightarrow> bytes" where
  "printint xx base sign =
     (let sign = (sign \<and> sint xx < 0);
          x = (if sign then - xx else xx);
          buf = printint_buf base (unat x) @ (if sign then [CHR ''-''] else [])
      in rev buf)"

fun printptr_loop :: "nat \<Rightarrow> u64 \<Rightarrow> bytes" where
  "printptr_loop 0 x = []"
| "printptr_loop (Suc n) x = digits ! unat (drop_bit 60 x) # printptr_loop n (push_bit 4 x)"

definition printptr :: "u64 \<Rightarrow> bytes" where
  "printptr x = [CHR ''0'', CHR ''x''] @ printptr_loop 16 x"

text \<open>
  The variable arguments of a call of \<open>printf\<close>. \<open>None\<close> stands for an argument that is
  missing or of the wrong kind, which C leaves undefined.
\<close>

datatype varg = VInt u64 | VStr "bytes option"

definition hd0 :: "bytes \<Rightarrow> char" where
  "hd0 f = (case f of [] \<Rightarrow> NUL | c # _ \<Rightarrow> c)"

fun va_word :: "varg list \<Rightarrow> (u64 \<times> varg list) option" where
  "va_word (VInt x # ap) = Some (x, ap)"
| "va_word _ = None"

fun va_str :: "varg list \<Rightarrow> (bytes \<times> varg list) option" where
  "va_str (VStr None # ap) = Some (''(null)'', ap)"
| "va_str (VStr (Some t) # ap) = Some (cstr t, ap)"
| "va_str _ = None"

definition va_int :: "u64 \<Rightarrow> u64" where
  "va_int x = scast (ucast x :: u32)"

definition va_uint32 :: "u64 \<Rightarrow> u64" where
  "va_uint32 x = ucast (ucast x :: u32)"

text \<open>
  One conversion: the values it passes to \<open>consputc\<close>, how many format characters after the
  \<open>%\<close> it consumes, and the arguments left. \<open>c0\<close>, \<open>c1\<close>, \<open>c2\<close> are the three
  characters after the \<open>%\<close>. The argument of \<open>%c\<close> is passed on at its 32 bits.
\<close>

definition printf_conv ::
    "char \<Rightarrow> char \<Rightarrow> char \<Rightarrow> varg list \<Rightarrow> (int list \<times> nat \<times> varg list) option" where
  "printf_conv c0 c1 c2 ap =
     (let num = (\<lambda>cast base sign n.
            map_option (\<lambda>(x, ap). (map of_char (printint (cast x) base sign), n, ap)) (va_word ap)) in
      if c0 = CHR ''d'' then num va_int 10 True 1
      else if c0 = CHR ''l'' \<and> c1 = CHR ''d'' then num id 10 True 2
      else if c0 = CHR ''l'' \<and> c1 = CHR ''l'' \<and> c2 = CHR ''d'' then num id 10 True 3
      else if c0 = CHR ''u'' then num va_uint32 10 False 1
      else if c0 = CHR ''l'' \<and> c1 = CHR ''u'' then num id 10 False 2
      else if c0 = CHR ''l'' \<and> c1 = CHR ''l'' \<and> c2 = CHR ''u'' then num id 10 False 3
      else if c0 = CHR ''x'' then num va_uint32 16 False 1
      else if c0 = CHR ''l'' \<and> c1 = CHR ''x'' then num id 16 False 2
      else if c0 = CHR ''l'' \<and> c1 = CHR ''l'' \<and> c2 = CHR ''x'' then num id 16 False 3
      else if c0 = CHR ''p'' then
        map_option (\<lambda>(x, ap). (map of_char (printptr x), 1, ap)) (va_word ap)
      else if c0 = CHR ''c'' then
        map_option (\<lambda>(x, ap). ([sint (ucast x :: u32)], 1, ap)) (va_word ap)
      else if c0 = CHR ''s'' then
        map_option (\<lambda>(t, ap). (map of_char t, 1, ap)) (va_str ap)
      else if c0 = CHR ''%'' then Some ([of_char CHR ''%''], 1, ap)
      else Some ([of_char CHR ''%'', of_char c0], 1, ap))"

text \<open>The loop over the format.\<close>

function printf_loop :: "bytes \<Rightarrow> varg list \<Rightarrow> 'z kst_scheme \<Rightarrow> (unit, 'z kst_scheme) res" where
  "printf_loop [] ap s = Ret () s"
| "printf_loop (cx # f) ap s =
     (if cx = NUL then Ret () s
      else if cx \<noteq> CHR ''%'' then bindr (consputc (of_char cx) s) (\<lambda>_ s. printf_loop f ap s)
      else let c0 = hd0 f;
               c1 = (if c0 \<noteq> NUL then hd0 (drop 1 f) else NUL);
               c2 = (if c1 \<noteq> NUL then hd0 (drop 2 f) else NUL)
           in if c0 = NUL then Ret () s
              else case printf_conv c0 c1 c2 ap of
                None \<Rightarrow> Panic ''undefined: va_arg''
              | Some (out, n, ap) \<Rightarrow> bindr (consputs out s) (\<lambda>_ s. printf_loop (drop n f) ap s))"
  by pat_completeness auto
termination
  by (relation "measure (\<lambda>(f, ap, s). length f)") auto

declare printf_loop.simps [simp del]

definition kprintf :: "bytes \<Rightarrow> varg list \<Rightarrow> 'z kst_scheme \<Rightarrow> (int, 'z kst_scheme) res" where
  "kprintf fmt ap s =
     bindr (if \<not> panicking (hw s) then acquire Lk_pr s else Ret () s) (\<lambda>_ s.
     bindr (printf_loop fmt ap s) (\<lambda>_ s.
     bindr (if \<not> panicking (hw s) then release Lk_pr s else Ret () s) (\<lambda>_ s. Ret 0 s)))"

definition printfinit :: "'z kst_scheme \<Rightarrow> (unit, 'z kst_scheme) res" where
  "printfinit s = initlock Lk_pr ''pr'' s"

section \<open>What is printed\<close>

text \<open>A console that can print: no panic, and the transmitter idle.\<close>

definition tty_ok :: "machine \<Rightarrow> bool" where
  "tty_ok h \<longleftrightarrow> \<not> panicking h \<and> \<not> panicked h \<and> lsr h AND LSR_TX_IDLE \<noteq> 0"

definition emit :: "bytes \<Rightarrow> machine \<Rightarrow> machine" where
  "emit out h = h\<lparr>thr := thr h @ out\<rparr>"

lemma emit_frame [simp]:
  "tp (emit out h) = tp h" "cpus (emit out h) = cpus h" "sie (emit out h) = sie h"
  "locks (emit out h) = locks h" "lsr (emit out h) = lsr h" "thr (emit out h) = thr h @ out"
  "panicking (emit out h) = panicking h" "panicked (emit out h) = panicked h"
  "mycpu (emit out h) = mycpu h" "intr_get (emit out h) = intr_get h"
  "cpu_ok (emit out h) = cpu_ok h" "lk_free l (emit out h) = lk_free l h"
  "tty_ok (emit out h) = tty_ok h" "holding_hw l (emit out h) = holding_hw l h"
  "held l (emit out h) = held l h"
  by (simp_all add: emit_def mycpu_def intr_get_def cpu_ok_def lk_free_def tty_ok_def
      held_def holding_hw_def)

lemma emit_Nil [simp]: "emit [] h = h"
  by (simp add: emit_def)

lemma emit_emit [simp]: "emit b (emit a h) = emit (a @ b) h"
  by (simp add: emit_def)

lemma emit_ops:
  "settle (emit out h) = emit out (settle h)"
  "push_off_hw (emit out h) = emit out (push_off_hw h)"
  "enter l (emit out h) = emit out (enter l h)"
  "leave l (emit out h) = emit out (leave l h)"
  by (simp_all add: emit_def settle_def enter_def leave_def hw_defs)

lemma tty_ok_frame [simp]:
  "tty_ok (settle h) = tty_ok h" "tty_ok (enter l h) = tty_ok h"
  by (simp_all add: tty_ok_def)

lemma uartputc_sync_ok:
  assumes "cpu_ok (hw s)" and "tty_ok (hw s)"
  shows "uartputc_sync c s = Ret () (s\<lparr>hw := emit [char_of c] (settle (hw s))\<rparr>)"
proof -
  have "panicking (push_off_hw h) = panicking h" "panicked (push_off_hw h) = panicked h"
    "lsr (push_off_hw h) = lsr h" for h by (simp_all add: hw_defs)
  moreover have "(push_off_hw h)\<lparr>thr := thr (push_off_hw h) @ t\<rparr> = push_off_hw (emit t h)" for h t
    by (simp add: emit_def hw_defs)
  ultimately show ?thesis
    using assms
    by (simp add: uartputc_sync_def push_off_def tty_ok_def lock_simps emit_ops(1))
qed

text \<open>The bytes that \<open>consputc\<close> sends for one value.\<close>

definition cons_text :: "int \<Rightarrow> bytes" where
  "cons_text c = (if c = BACKSPACE then [CHR 0x08, CHR '' '', CHR 0x08] else [char_of c])"

lemma consputc_emits:
  assumes "cpu_ok (hw s)" and "tty_ok (hw s)"
  shows "consputc c s = Ret () (s\<lparr>hw := emit (cons_text c) (settle (hw s))\<rparr>)"
proof -
  have "char_of (8 :: int) = CHR 0x08" "char_of (32 :: int) = CHR '' ''" by (simp_all add: char_of_def)
  then show ?thesis using assms by (simp add: consputc_def cons_text_def uartputc_sync_ok emit_ops)
qed

lemma consputs_locked:
  assumes "cpu_ok h" and "tty_ok h" and "settle h = h"
  shows "consputs cs (s\<lparr>hw := h\<rparr>) = Ret () (s\<lparr>hw := emit (concat (map cons_text cs)) h\<rparr>)"
  using assms
proof (induction cs arbitrary: h)
  case (Cons c cs)
  then have "consputs cs (s\<lparr>hw := emit (cons_text c) h\<rparr>) =
      Ret () (s\<lparr>hw := emit (concat (map cons_text cs)) (emit (cons_text c) h)\<rparr>)"
    by (intro Cons.IH) (simp_all add: emit_ops)
  then show ?case using Cons.prems by (simp add: consputc_emits)
qed simp

lemma of_char_not_backspace: "of_char c \<noteq> BACKSPACE"
proof -
  have "(of_char c :: int) < 256" by (metis of_char_mod_256 pos_mod_bound zero_less_numeral)
  then show ?thesis by (simp add: BACKSPACE_def)
qed

lemma cons_text_char [simp]: "cons_text (of_char c) = [c]" "concat (map (cons_text \<circ> of_char) t) = t"
proof -
  show c: "cons_text (of_char c) = [c]" for c by (simp add: cons_text_def of_char_not_backspace)
  show "concat (map (cons_text \<circ> of_char) t) = t" by (induction t) (simp_all add: c)
qed

lemma cons_text_percent [simp]: "cons_text 37 = ''%''"
  using cons_text_char(1)[of "CHR ''%''"] by simp

text \<open>The text of a format, by the recursion of the loop.\<close>

function printf_chars :: "bytes \<Rightarrow> varg list \<Rightarrow> bytes option" where
  "printf_chars [] ap = Some []"
| "printf_chars (cx # f) ap =
     (if cx = NUL then Some []
      else if cx \<noteq> CHR ''%'' then map_option ((#) cx) (printf_chars f ap)
      else let c0 = hd0 f;
               c1 = (if c0 \<noteq> NUL then hd0 (drop 1 f) else NUL);
               c2 = (if c1 \<noteq> NUL then hd0 (drop 2 f) else NUL)
           in if c0 = NUL then Some []
              else case printf_conv c0 c1 c2 ap of
                None \<Rightarrow> None
              | Some (out, n, ap) \<Rightarrow>
                  map_option ((@) (concat (map cons_text out))) (printf_chars (drop n f) ap))"
  by pat_completeness auto
termination
  by (relation "measure (\<lambda>(f, ap). length f)") auto

lemma printf_loop_ok:
  assumes "cpu_ok h" and "tty_ok h" and "settle h = h" and "printf_chars fmt ap = Some out"
  shows "printf_loop fmt ap (s\<lparr>hw := h\<rparr>) = Ret () (s\<lparr>hw := emit out h\<rparr>)"
  using assms
proof (induction fmt ap arbitrary: h out rule: printf_chars.induct)
  case (1 ap)
  then show ?case by (simp add: printf_loop.simps)
next
  case (2 cx f ap)
  let ?c0 = "hd0 f"
  let ?c1 = "if ?c0 \<noteq> NUL then hd0 (drop 1 f) else NUL"
  let ?c2 = "if ?c1 \<noteq> NUL then hd0 (drop 2 f) else NUL"
  consider "cx = NUL" | "cx \<noteq> NUL" "cx \<noteq> CHR ''%''" | "cx = CHR ''%''" "?c0 = NUL" | "cx = CHR ''%''" "?c0 \<noteq> NUL"
    by blast
  then show ?case
  proof cases
    case 2
    with \<open>printf_chars (cx # f) ap = Some out\<close> obtain t where t: "printf_chars f ap = Some t" "out = cx # t"
      by auto
    have "printf_loop f ap (s\<lparr>hw := emit [cx] h\<rparr>) = Ret () (s\<lparr>hw := emit t (emit [cx] h)\<rparr>)"
      using "2.IH"(1)[of "emit [cx] h" t] 2 "2.prems" t by (simp add: emit_ops)
    then show ?thesis using 2 t "2.prems" by (simp add: printf_loop.simps consputc_emits)
  next
    case 4
    then have "(CHR ''%'' :: char) \<noteq> NUL" by simp
    with 4 "2.prems"(4) obtain cs n ap' t where c: "printf_conv ?c0 ?c1 ?c2 ap = Some (cs, n, ap')"
        and t: "printf_chars (drop n f) ap' = Some t" "out = concat (map cons_text cs) @ t"
      by (auto simp: Let_def split: option.splits)
    have "printf_loop (drop n f) ap' (s\<lparr>hw := emit (concat (map cons_text cs)) h\<rparr>) =
        Ret () (s\<lparr>hw := emit t (emit (concat (map cons_text cs)) h)\<rparr>)"
      using "2.IH"(2)[OF _ _ refl refl refl _ c refl refl, of "emit (concat (map cons_text cs)) h" t] 4 "2.prems" t
      by (simp add: emit_ops)
    then show ?thesis
      using 4 c t "2.prems" unfolding printf_loop.simps by (simp add: Let_def consputs_locked)
  qed (use "2.prems" in \<open>simp_all add: printf_loop.simps\<close>)
qed

text \<open>A \<open>printf\<close> prints exactly the characters of its format and keeps everything else.\<close>

lemma kprintf_ok:
  assumes "cpu_ok (hw s)" and "tty_ok (hw s)" and "lk_free Lk_pr (hw s)"
    and "printf_chars fmt ap = Some out"
  shows "kprintf fmt ap s = Ret 0 (s\<lparr>hw := emit out (settle (hw s))\<rparr>)"
proof -
  have np: "\<not> panicking (hw s)" using assms(2) by (simp add: tty_ok_def)
  have "printf_loop fmt ap (s\<lparr>hw := enter Lk_pr (hw s)\<rparr>) = Ret () (s\<lparr>hw := emit out (enter Lk_pr (hw s))\<rparr>)"
    using assms by (intro printf_loop_ok) (simp_all add: lock_simps)
  then show ?thesis
    using assms np by (simp add: kprintf_def lock_simps emit_ops)
qed

text \<open>How the characters of a format are found, piece by piece.\<close>

lemma printf_chars_plain:
  assumes "CHR ''%'' \<notin> set xs" and "NUL \<notin> set xs"
  shows "printf_chars (xs @ f) ap = map_option ((@) xs) (printf_chars f ap)"
  using assms
proof (induction xs)
  case Nil
  then show ?case by (cases "printf_chars f ap") simp_all
next
  case (Cons x xs)
  then have "x \<noteq> CHR ''%''" and "x \<noteq> NUL" by auto
  with Cons show ?case by (cases "printf_chars f ap") simp_all
qed

lemma printf_chars_d:
  "printf_chars (CHR ''%'' # CHR ''d'' # f) (VInt x # ap) =
    map_option ((@) (printint (va_int x) 10 True)) (printf_chars f ap)"
  by (simp add: hd0_def printf_conv_def Let_def)

lemma printf_chars_s:
  "printf_chars (CHR ''%'' # CHR ''s'' # f) (VStr (Some t) # ap) =
    map_option ((@) (cstr t)) (printf_chars f ap)"
  by (simp add: hd0_def printf_conv_def Let_def)

section \<open>Integers\<close>

text \<open>The value of a digit and of a most-significant-first string of digits.\<close>

definition digit_val :: "char \<Rightarrow> nat" where
  "digit_val c = length (takeWhile (\<lambda>d. d \<noteq> c) digits)"

definition digits_val :: "nat \<Rightarrow> bytes \<Rightarrow> nat" where
  "digits_val base ds = foldl (\<lambda>v c. v * base + digit_val c) 0 ds"

definition signed_val :: "nat \<Rightarrow> bytes \<Rightarrow> int" where
  "signed_val base ds =
     (case ds of
        c # r \<Rightarrow> if c = CHR ''-'' then - int (digits_val base r) else int (digits_val base ds)
      | [] \<Rightarrow> 0)"

lemma digit_val_digits: "d < 16 \<Longrightarrow> digit_val (digits ! d) = d"
proof -
  have "\<forall>d \<in> set [0..<16]. digit_val (digits ! d) = d"
    by (simp add: digit_val_def digits_def upt_rec)
  then show "d < 16 \<Longrightarrow> digit_val (digits ! d) = d" by simp
qed

lemma digit_not_minus: "d < 16 \<Longrightarrow> digits ! d \<noteq> CHR ''-''"
proof -
  have "\<forall>d \<in> set [0..<16]. digits ! d \<noteq> CHR ''-''" by (simp add: digits_def upt_rec)
  then show "d < 16 \<Longrightarrow> digits ! d \<noteq> CHR ''-''" by simp
qed

lemma printint_buf_val:
  assumes "2 \<le> base" and "base \<le> 16"
  shows "digits_val base (rev (printint_buf base x)) = x"
  using assms
proof (induction base x rule: printint_buf.induct)
  case (1 base x)
  have d: "digit_val (digits ! (x mod base)) = x mod base"
    using 1 by (intro digit_val_digits less_le_trans[OF mod_less_divisor]) simp_all
  show ?case
  proof (cases "x div base = 0")
    case True
    then show ?thesis
      using d by (subst printint_buf.simps) (simp add: digits_val_def mod_eq_self_iff_div_eq_0)
  next
    case False
    with 1 have "digits_val base (rev (printint_buf base (x div base))) = x div base" by simp
    with False 1 d show ?thesis
      by (subst printint_buf.simps) (simp add: digits_val_def)
  qed
qed

lemma printint_buf_len:
  assumes "2 \<le> base" and "x < base ^ Suc k"
  shows "length (printint_buf base x) \<le> Suc k"
  using assms
proof (induction k arbitrary: x)
  case 0
  then show ?case by (subst printint_buf.simps) simp
next
  case (Suc k)
  then have "x div base < base ^ Suc k" by (simp add: less_mult_imp_div_less mult.commute)
  with Suc have "length (printint_buf base (x div base)) \<le> Suc k" by simp
  then show ?case by (subst printint_buf.simps) simp
qed

lemma printint_buf_digits:
  assumes "2 \<le> base" and "base \<le> 16"
  shows "CHR ''-'' \<notin> set (printint_buf base x)"
  using assms
proof (induction base x rule: printint_buf.induct)
  case (1 base x)
  have "x mod base < 16"
    using 1(2,3) by (intro less_le_trans[OF mod_less_divisor]) simp_all
  then have "digits ! (x mod base) \<noteq> CHR ''-''" by (rule digit_not_minus)
  then show ?case using 1 by (subst printint_buf.simps) auto
qed

lemma printint_buf_nonempty: "printint_buf base x \<noteq> []"
  by (subst printint_buf.simps) simp

lemma unat_neg:
  fixes x :: u64
  assumes "sint x < 0"
  shows "int (unat (- x)) = - sint x"
proof -
  have "uint (- x) = uint (word_of_int (- sint x) :: u64)" by simp
  also have "\<dots> = take_bit 64 (- sint x)"
    by (subst uint_word_of_int) (simp add: take_bit_eq_mod)
  also have "\<dots> = - sint x"
    using assms sint_greater_eq[of x] by (intro take_bit_int_eq_self) simp_all
  finally show ?thesis by simp
qed

lemma printint_val:
  assumes "2 \<le> base" and "base \<le> 16"
  shows "signed_val base (printint xx base True) = sint xx"
    and "signed_val base (printint xx base False) = uint xx"
proof -
  have pos: "signed_val base (rev (printint_buf base x)) = int x" for x
  proof -
    obtain c r where cr: "rev (printint_buf base x) = c # r"
      using printint_buf_nonempty[of base x] by (meson list.exhaust rev_is_Nil_conv)
    then have "c \<in> set (printint_buf base x)" by (metis list.set_intros(1) set_rev)
    then have "c \<noteq> CHR ''-''" using printint_buf_digits[OF assms, of x] by blast
    then show ?thesis using printint_buf_val[OF assms, of x] by (simp add: signed_val_def cr)
  qed
  then show "signed_val base (printint xx base False) = uint xx"
    by (simp add: printint_def)
  show "signed_val base (printint xx base True) = sint xx"
  proof (cases "sint xx < 0")
    case True
    then show ?thesis
      using printint_buf_val[OF assms] unat_neg[OF True]
      by (simp add: printint_def Let_def signed_val_def)
  next
    case False
    then have "uint xx = sint xx"
      using uint_sint[of xx] sint_less[of xx] by (simp add: take_bit_int_eq_self)
    with False show ?thesis by (simp add: printint_def Let_def pos)
  qed
qed

section \<open>The meaning of a format\<close>

text \<open>
  Numerals, most significant digit first: of any length without leading zeros, and of a fixed
  number of hexadecimal digits.
\<close>

definition digit_char :: "nat \<Rightarrow> char" where
  "digit_char d = char_of (if d < 10 then 48 + d else 87 + d)"

function numeral_of :: "nat \<Rightarrow> nat \<Rightarrow> bytes" where
  "numeral_of base n =
     (if n < base \<or> base < 2 then [digit_char n]
      else numeral_of base (n div base) @ [digit_char (n mod base)])"
  by pat_completeness auto
termination
  by (relation "measure snd") (auto intro!: div_less_dividend)

declare numeral_of.simps [simp del]

definition int_numeral :: "nat \<Rightarrow> int \<Rightarrow> bytes" where
  "int_numeral base v = (if v < 0 then CHR ''-'' # numeral_of base (nat (- v)) else numeral_of base (nat v))"

fun hex_of :: "nat \<Rightarrow> nat \<Rightarrow> bytes" where
  "hex_of 0 v = []"
| "hex_of (Suc n) v = hex_of n (v div 16) @ [digit_char (v mod 16)]"

text \<open>
  \<open>formats fmt ap t\<close>: the format \<open>fmt\<close> with the arguments \<open>ap\<close> stands for the text
  \<open>t\<close>. The conversions of \<open>int\<close> and \<open>uint\<close> read the low 32 bits of an argument, those
  with \<open>l\<close> or \<open>ll\<close> all 64. The value \<open>0x100\<close> printed as a character rubs out the character
  before it. A sequence that is no conversion stands for itself.
\<close>

definition long_conv :: "bytes \<Rightarrow> bool" where
  "long_conv f \<longleftrightarrow> take 1 f \<in> {''d'', ''u'', ''x''} \<or> take 2 f \<in> {''ld'', ''lu'', ''lx''}"

inductive formats :: "bytes \<Rightarrow> varg list \<Rightarrow> bytes \<Rightarrow> bool" where
  fm_end: "formats [] ap []"
| fm_nul: "formats (NUL # f) ap []"
| fm_lone: "f = [] \<or> hd f = NUL \<Longrightarrow> formats (CHR ''%'' # f) ap []"
| fm_char: "c \<noteq> CHR ''%'' \<Longrightarrow> c \<noteq> NUL \<Longrightarrow> formats f ap t \<Longrightarrow> formats (c # f) ap (c # t)"
| fm_d: "formats f ap t \<Longrightarrow> formats (''%d'' @ f) (VInt x # ap) (int_numeral 10 (sint (ucast x :: u32)) @ t)"
| fm_ld: "k \<in> {''%ld'', ''%lld''} \<Longrightarrow> formats f ap t \<Longrightarrow>
    formats (k @ f) (VInt x # ap) (int_numeral 10 (sint x) @ t)"
| fm_u: "formats f ap t \<Longrightarrow> formats (''%u'' @ f) (VInt x # ap) (numeral_of 10 (unat (ucast x :: u32)) @ t)"
| fm_lu: "k \<in> {''%lu'', ''%llu''} \<Longrightarrow> formats f ap t \<Longrightarrow>
    formats (k @ f) (VInt x # ap) (numeral_of 10 (unat x) @ t)"
| fm_x: "formats f ap t \<Longrightarrow> formats (''%x'' @ f) (VInt x # ap) (numeral_of 16 (unat (ucast x :: u32)) @ t)"
| fm_lx: "k \<in> {''%lx'', ''%llx''} \<Longrightarrow> formats f ap t \<Longrightarrow>
    formats (k @ f) (VInt x # ap) (numeral_of 16 (unat x) @ t)"
| fm_p: "formats f ap t \<Longrightarrow> formats (''%p'' @ f) (VInt x # ap) (''0x'' @ hex_of 16 (unat x) @ t)"
| fm_c: "unat (ucast x :: u32) \<noteq> 0x100 \<Longrightarrow> formats f ap t \<Longrightarrow>
    formats (''%c'' @ f) (VInt x # ap) (char_of (unat x) # t)"
| fm_rub: "unat (ucast x :: u32) = 0x100 \<Longrightarrow> formats f ap t \<Longrightarrow>
    formats (''%c'' @ f) (VInt x # ap) ([CHR 0x08, CHR '' '', CHR 0x08] @ t)"
| fm_s: "NUL \<notin> set b \<Longrightarrow> r = [] \<or> hd r = NUL \<Longrightarrow> formats f ap t \<Longrightarrow>
    formats (''%s'' @ f) (VStr (Some (b @ r)) # ap) (b @ t)"
| fm_null: "formats f ap t \<Longrightarrow> formats (''%s'' @ f) (VStr None # ap) (''(null)'' @ t)"
| fm_percent: "formats f ap t \<Longrightarrow> formats (''%%'' @ f) ap (CHR ''%'' # t)"
| fm_other: "c \<notin> set (NUL # ''dluxpcs%'') \<or> c = CHR ''l'' \<and> \<not> long_conv f \<Longrightarrow> formats f ap t \<Longrightarrow>
    formats (CHR ''%'' # c # f) ap (CHR ''%'' # c # t)"

lemma digit_char_digits: "d < 16 \<Longrightarrow> digits ! d = digit_char d"
proof -
  have "\<forall>d \<in> set [0..<16]. digits ! d = digit_char d"
    by (simp add: digit_char_def digits_def upt_rec char_of_def bit_0)
  then show "d < 16 \<Longrightarrow> digits ! d = digit_char d" by simp
qed

lemma printint_buf_numeral:
  assumes "2 \<le> base" and "base \<le> 16"
  shows "rev (printint_buf base x) = numeral_of base x"
  using assms
proof (induction base x rule: printint_buf.induct)
  case (1 base x)
  have d: "digits ! (x mod base) = digit_char (x mod base)"
    using 1 by (intro digit_char_digits less_le_trans[OF mod_less_divisor]) simp_all
  have "x div base = 0 \<longleftrightarrow> x < base" using 1(2) by (simp add: div_eq_0_iff)
  with 1 d show ?case
    by (cases "x < base") (subst printint_buf.simps, subst numeral_of.simps, simp)+
qed

lemma printint_numeral:
  assumes "2 \<le> base" and "base \<le> 16"
  shows "printint xx base True = int_numeral base (sint xx)" "printint xx base False = numeral_of base (unat xx)"
proof -
  note r = printint_buf_numeral[OF assms]
  show "printint xx base False = numeral_of base (unat xx)" by (simp add: printint_def r)
  show "printint xx base True = int_numeral base (sint xx)"
  proof (cases "sint xx < 0")
    case True
    have "unat (- xx) = nat (- sint xx)" using unat_neg[OF True] by linarith
    with True show ?thesis by (simp add: printint_def int_numeral_def r)
  next
    case False
    then have "uint xx = sint xx"
      using uint_sint[of xx] sint_less[of xx] by (simp add: take_bit_int_eq_self)
    then have "unat xx = nat (sint xx)" by (metis nat_uint_eq)
    with False show ?thesis by (simp add: printint_def int_numeral_def r)
  qed
qed

lemma nibble:
  fixes x :: u64
  assumes "k < 16"
  shows "unat (drop_bit 60 (push_bit (4 * k) x)) = unat x div 16 ^ (15 - k) mod 16"
proof -
  have "drop_bit 60 (push_bit (4 * k) x) = take_bit 4 (drop_bit (60 - 4 * k) x)"
    using assms by (intro bit_word_eqI) (auto simp: bit_simps)
  moreover have "(2 :: nat) ^ (60 - 4 * k) = 16 ^ (15 - k)"
    using power_mult[of "2 :: nat" 4 "15 - k"] by (simp add: diff_mult_distrib2)
  moreover have "unat (take_bit 4 (drop_bit (60 - 4 * k) x)) = unat x div 2 ^ (60 - 4 * k) mod 2 ^ 4"
    by (simp only: unsigned_take_bit_eq unsigned_drop_bit_eq) (simp add: take_bit_eq_mod drop_bit_eq_div mod_less[OF unsigned_less[of x, simplified]])
  ultimately show ?thesis by simp
qed

lemma printptr_loop_nth:
  "printptr_loop n (push_bit (4 * j) x) = map (\<lambda>k. digits ! unat (drop_bit 60 (push_bit (4 * k) x))) [j..<j + n]"
proof (induction n arbitrary: j)
  case (Suc n)
  have "push_bit 4 (push_bit (4 * j) x) = push_bit (4 * Suc j) x" by (simp add: push_bit_push_bit add.commute)
  moreover have "[j..<j + Suc n] = j # [Suc j..<Suc j + n]" by (simp add: upt_conv_Cons del: upt_Suc)
  ultimately show ?case using Suc[of "Suc j"] by (simp only: printptr_loop.simps list.map)
qed simp

lemma hex_of_nth: "hex_of n v = map (\<lambda>k. digit_char (v div 16 ^ (n - 1 - k) mod 16)) [0..<n]"
proof (induction n arbitrary: v)
  case (Suc n)
  have "v div 16 div 16 ^ (n - 1 - k) = v div 16 ^ (n - k)" if "k < n" for k
    using that power_Suc[of "16 :: nat" "n - 1 - k"] by (simp add: Suc_diff_Suc flip: div_mult2_eq)
  then show ?case by (simp add: Suc)
qed simp

lemma printptr_hex: "printptr x = ''0x'' @ hex_of 16 (unat x)"
proof -
  have "printptr_loop 16 x = hex_of 16 (unat x)"
    using printptr_loop_nth[of 16 0 x] unfolding hex_of_nth
    by (simp add: nibble digit_char_digits del: upt_rec_numeral cong: map_cong)
  then show ?thesis by (simp add: printptr_def)
qed

lemma cstr_prefix: "NUL \<notin> set b \<Longrightarrow> r = [] \<or> hd r = NUL \<Longrightarrow> cstr (b @ r) = b"
  by (cases r) (auto simp: cstr_def takeWhile_append)

lemma sint_u32_low:
  fixes x :: u64
  shows "char_of (sint (ucast x :: u32)) = char_of (unat x)"
    and "sint (ucast x :: u32) = 0x100 \<longleftrightarrow> unat (ucast x :: u32) = 0x100"
proof -
  show "char_of (sint (ucast x :: u32)) = char_of (unat x)"
    by (simp add: char_of_def bit_signed_iff bit_unsigned_iff bit_ucast_iff)
  have "sint w = 0x100 \<longleftrightarrow> w = 0x100" "unat w = 0x100 \<longleftrightarrow> w = 0x100" for w :: u32
    using word_unat_eq_iff[of w "0x100"] signed_word_eqI[of w "0x100"] by auto
  then show "sint (ucast x :: u32) = 0x100 \<longleftrightarrow> unat (ucast x :: u32) = 0x100" by simp
qed

lemma printf_conv_other:
  "c \<notin> set (NUL # ''dluxpcs%'') \<Longrightarrow> printf_conv c c1 c2 ap = Some ([of_char CHR ''%'', of_char c], 1, ap)"
  "c1 \<notin> set ''dux'' \<Longrightarrow> c1 \<noteq> CHR ''l'' \<or> c2 \<notin> set ''dux'' \<Longrightarrow>
    printf_conv CHR ''l'' c1 c2 ap = Some ([of_char CHR ''%'', of_char CHR ''l''], 1, ap)"
  by (auto simp: printf_conv_def)

lemma long_convD:
  "\<not> long_conv f \<Longrightarrow> hd0 f \<notin> set ''dux'' \<and> (hd0 f = CHR ''l'' \<longrightarrow> hd0 (drop 1 f) \<notin> set ''dux'')"
  by (cases f; cases "tl f") (auto simp: long_conv_def hd0_def)

lemma va_words: "sint (va_int x) = sint (ucast x :: u32)" "unat (va_uint32 x) = unat (ucast x :: u32)"
proof -
  have "sint (scast w :: u64) = sint w" for w :: u32
    unfolding signed_scast_eq
    using sint_greater_eq[of w] sint_less[of w] by (intro signed_take_bit_int_eq_self) simp_all
  moreover have "unat (ucast w :: u64) = unat w" for w :: u32
    unfolding unsigned_ucast_eq by (rule take_bit_nat_eq_self) (rule less_trans[OF unsigned_less], simp)
  ultimately show "sint (va_int x) = sint (ucast x :: u32)" "unat (va_uint32 x) = unat (ucast x :: u32)"
    by (simp_all only: va_int_def va_uint32_def)
qed

lemma formats_chars: "formats fmt ap t \<Longrightarrow> printf_chars fmt ap = Some t"
proof (induction rule: formats.induct)
  case (fm_c x f ap t)
  then show ?case by (simp add: hd0_def printf_conv_def cons_text_def BACKSPACE_def sint_u32_low)
next
  case (fm_rub x f ap t)
  then show ?case by (simp add: hd0_def printf_conv_def cons_text_def BACKSPACE_def sint_u32_low)
next
  case (fm_other c f ap t)
  have "printf_conv c (hd0 f) c2 ap = Some ([of_char CHR ''%'', of_char c], 1, ap)"
    if "hd0 f = CHR ''l'' \<Longrightarrow> c2 = hd0 (drop 1 f)" for c2
    using fm_other(1) that long_convD[of f] printf_conv_other(1) printf_conv_other(2)[of "hd0 f" c2] by metis
  moreover have "c \<noteq> NUL" using fm_other(1) by auto
  ultimately show ?case using fm_other(3) by (simp add: hd0_def[of "c # f"] Let_def)
next
  case (fm_lone f ap)
  then show ?case by (cases f) (auto simp: hd0_def)
next
  case (fm_p f ap t x)
  then show ?case using cons_text_char(2)[of "printptr x"] by (simp add: hd0_def printf_conv_def printptr_hex)
next
  case (fm_null f ap t)
  then show ?case using cons_text_char(2)[of "''(null)''"] by (simp add: hd0_def printf_conv_def)
qed (auto simp: hd0_def printf_conv_def printint_numeral va_words cstr_prefix)

section \<open>Properties\<close>

lemma tty_ok_hw0 [simp]: "tty_ok hw0"
  by (simp add: tty_ok_def hw0_def LSR_TX_IDLE_def)

lemma hw0_thr: "thr hw0 = []"
  by (simp add: hw0_def)

text \<open>
  C9: \<open>printf\<close> prints what its format means. For every format and arguments that match it,
  \<open>printf\<close> returns 0 and sends exactly the text of the format to the UART, in order: plain
  characters as they are, every number as the numeral of its value at the width of the
  conversion, strings up to their terminator, and unknown sequences unchanged. Every lock, the
  interrupt state and the rest of the state are left as they were.
\<close>

theorem printf_exact:
  assumes "cpu_ok (hw s)" and "tty_ok (hw s)" and "lk_free Lk_pr (hw s)"
    and "formats fmt ap t"
  shows "\<exists>h. kprintf fmt ap s = Ret 0 (s\<lparr>hw := h\<rparr>) \<and> thr h = thr (hw s) @ t \<and>
    locks h = locks (hw s) \<and> sie h = sie (hw s) \<and> noff (mycpu h) = noff (mycpu (hw s))"
  using kprintf_ok[OF assms(1-3) formats_chars[OF assms(4)]]
  by (intro exI[of _ "emit t (settle (hw s))"]) simp

theorem printf_exact_witness:
  "\<exists>h. kprintf ''%d: %s'' [VInt (-12), VStr (Some (''ok'' @ [NUL]))] \<lparr>hw = hw0\<rparr> =
    Ret 0 \<lparr>hw = h\<rparr> \<and> thr h = ''-12: ok''"
proof -
  have "int_numeral 10 (sint (ucast (-12 :: u64) :: u32)) = ''-12''"
    by (simp add: int_numeral_def numeral_of.simps digit_char_def char_of_def bit_0)
  moreover have "formats '': %s'' [VStr (Some (''ok'' @ [NUL]))] '': ok''"
    using fm_char[OF _ _ fm_char[OF _ _ fm_s[of "''ok''" "[NUL]", OF _ _ fm_end]], of "CHR '':''" "CHR '' ''"] by simp
  ultimately have "formats ''%d: %s'' [VInt (-12), VStr (Some (''ok'' @ [NUL]))] ''-12: ok''"
    using fm_d[of "'': %s''" "[VStr (Some (''ok'' @ [NUL]))]" "'': ok''" "-12"] by simp
  then show ?thesis
    using printf_exact[of "\<lparr>hw = hw0\<rparr>" "''%d: %s''" "[VInt (-12), VStr (Some (''ok'' @ [NUL]))]" "''-12: ok''"]
    by (auto simp: hw0_thr)
qed

text \<open>
  C8: \<open>printint\<close> prints the number: reading the digits back gives the signed or the
  unsigned value of its argument, for every 64-bit word; and the digits, with the sign, fit in
  the 20 bytes of its buffer.
\<close>

theorem printint_correct:
  assumes "base = 10 \<or> base = 16"
  shows "signed_val base (printint xx base True) = sint xx \<and>
    signed_val base (printint xx base False) = uint xx \<and>
    length (printint xx base sg) \<le> 20"
proof -
  have b: "2 \<le> base" "base \<le> 16" using assms by auto
  have "length (printint xx base sg) \<le> 20"
  proof (cases "sg \<and> sint xx < 0")
    case True
    then have "int (unat (- xx)) \<le> int (2 ^ 63)"
      using unat_neg[of xx] sint_greater_eq[of xx] by simp
    then have "unat (- xx) \<le> 2 ^ 63" by (simp only: of_nat_le_iff)
    then have "unat (- xx) < base ^ Suc 18" using assms by auto
    then have "length (printint_buf base (unat (- xx))) \<le> 19"
      using printint_buf_len[OF b(1), of "unat (- xx)" 18] by simp
    with True show ?thesis by (simp add: printint_def Let_def)
  next
    case False
    have "unat xx < 2 ^ 64" using unsigned_less[of xx] by simp
    then have "unat xx < base ^ Suc 19" using assms by auto
    then have "length (printint_buf base (unat xx)) \<le> 20"
      using printint_buf_len[OF b(1), of "unat xx" 19] by simp
    with False show ?thesis by (auto simp: printint_def Let_def)
  qed
  then show ?thesis using printint_val[OF b] by simp
qed

theorem printint_correct_witness:
  "signed_val 10 (printint (-9223372036854775808) 10 True) = -9223372036854775808 \<and>
    length (printint (-9223372036854775808) 10 True) \<le> 20"
  using printint_correct[of 10 "-9223372036854775808" True] by simp

end
