(* ===== verification/Lighting.thy ===== *)
theory Lighting
  imports Kprintf
begin

text \<open>
  The smart-lighting system: \<open>kernel/lighting.c\<close>, \<open>kernel/lighting.h\<close>,
  \<open>kernel/roomstat.h\<close>, and the older single-room module \<open>kernel/roomenv.c\<close>. The global
  \<open>ticks\<close> of \<open>kernel/trap.c\<close>, which both modules read, is a field of the state here.
\<close>

section \<open>State\<close>

abbreviation NUM_ROOMS :: nat where "NUM_ROOMS \<equiv> 5"
abbreviation ROOM_NAME_MAX :: nat where "ROOM_NAME_MAX \<equiv> 32"
abbreviation LIGHT_OFF :: int where "LIGHT_OFF \<equiv> 0"
abbreviation LIGHT_ON :: int where "LIGHT_ON \<equiv> 1"
abbreviation ROOM_EMPTY :: int where "ROOM_EMPTY \<equiv> 0"
abbreviation ROOM_OCCUPIED :: int where "ROOM_OCCUPIED \<equiv> 1"
abbreviation MAX_LIGHT_ON_TICKS :: int where "MAX_LIGHT_ON_TICKS \<equiv> 100"

record room =
  rname :: bytes
  light_on :: int
  occupied :: int
  usage_ticks :: u32
  light_on_since :: u32

record roomstat =
  rs_name :: bytes
  rs_light_on :: int
  rs_occupied :: int
  rs_usage_ticks :: u32

record roomenv =
  re_name :: bytes
  re_light_on :: int
  re_occupied :: int
  last_motion_tick :: int
  total_light_on_ticks :: int

record lightst = kst +
  ticks :: u32
  rooms :: "room list"
  lighting_initialized :: int
  roomenv_room :: roomenv

text \<open>Updates of different fields are kept in the order of the fields.\<close>

lemma lightst_order [simp]:
  "hw_update f0 (ticks_update g0 s) = ticks_update g0 (hw_update f0 s)"
  "hw_update f1 (rooms_update g1 s) = rooms_update g1 (hw_update f1 s)"
  "hw_update f2 (lighting_initialized_update g2 s) = lighting_initialized_update g2 (hw_update f2 s)"
  "hw_update f3 (roomenv_room_update g3 s) = roomenv_room_update g3 (hw_update f3 s)"
  "ticks_update f4 (rooms_update g4 s) = rooms_update g4 (ticks_update f4 s)"
  "ticks_update f5 (lighting_initialized_update g5 s) = lighting_initialized_update g5 (ticks_update f5 s)"
  "ticks_update f6 (roomenv_room_update g6 s) = roomenv_room_update g6 (ticks_update f6 s)"
  "rooms_update f7 (lighting_initialized_update g7 s) = lighting_initialized_update g7 (rooms_update f7 s)"
  "rooms_update f8 (roomenv_room_update g8 s) = roomenv_room_update g8 (rooms_update f8 s)"
  "lighting_initialized_update f9 (roomenv_room_update g9 s) = roomenv_room_update g9 (lighting_initialized_update f9 s)"
  by (induct s; simp)+

section \<open>The routines of lighting.c\<close>

definition names :: "bytes list" where
  "names = [''Living Room'', ''Kitchen'', ''Bedroom'', ''Bathroom'', ''Office'']"

text \<open>The copy loop for one name; the end of the list is the terminator of the literal.\<close>

fun copy_name :: "bytes \<Rightarrow> bytes \<Rightarrow> nat \<Rightarrow> bytes" where
  "copy_name dst [] j = dst[j := NUL]"
| "copy_name dst (c # cs) j =
     (if c \<noteq> NUL \<and> j < ROOM_NAME_MAX - 1 then copy_name (dst[j := c]) cs (Suc j)
      else dst[j := NUL])"

definition init_room :: "nat \<Rightarrow> room \<Rightarrow> room" where
  "init_room i r =
     r\<lparr>rname := copy_name (rname r) (names ! i) 0, light_on := LIGHT_OFF,
       occupied := ROOM_EMPTY, usage_ticks := 0, light_on_since := 0\<rparr>"

definition lighting_init :: "'z lightst_scheme \<Rightarrow> (unit, 'z lightst_scheme) res" where
  "lighting_init s =
     bindr (if lighting_initialized s = 0 then initlock Lk_lighting ''lighting'' s
            else Ret () s) (\<lambda>_ s.
     bindr (acquire Lk_lighting s) (\<lambda>_ s.
     let s = s\<lparr>rooms := fold (\<lambda>i rs. rs[i := init_room i (rs ! i)]) [0..<NUM_ROOMS] (rooms s)\<rparr>;
         s = s\<lparr>lighting_initialized := 1\<rparr>
     in release Lk_lighting s))"

text \<open>\<open>if (!lighting_initialized) lighting_init();\<close>, the first line of most routines.\<close>

definition ensure_init :: "'z lightst_scheme \<Rightarrow> (unit, 'z lightst_scheme) res" where
  "ensure_init s = (if lighting_initialized s = 0 then lighting_init s else Ret () s)"

definition bad_room :: "int \<Rightarrow> bool" where
  "bad_room roomid \<longleftrightarrow> roomid < 0 \<or> roomid \<ge> int NUM_ROOMS"

text \<open>\<open>out\<close> is the contents of the caller's buffer, \<open>None\<close> for a null pointer.\<close>

definition room_status ::
    "int \<Rightarrow> roomstat option \<Rightarrow> 'z lightst_scheme \<Rightarrow> (int \<times> roomstat option, 'z lightst_scheme) res" where
  "room_status roomid out s =
     bindr (ensure_init s) (\<lambda>_ s.
     if bad_room roomid \<or> out = None then Ret (-1, out) s
     else
       bindr (acquire Lk_lighting s) (\<lambda>_ s.
       let r = rooms s ! nat roomid;
           out = Some \<lparr>rs_name = map (\<lambda>j. rname r ! j) [0..<ROOM_NAME_MAX],
                   rs_light_on = light_on r, rs_occupied = occupied r,
                   rs_usage_ticks = usage_ticks r\<rparr>
       in bindr (release Lk_lighting s) (\<lambda>_ s. Ret (0, out) s)))"

definition set_room_occupied :: "int \<Rightarrow> 'z lightst_scheme \<Rightarrow> (int, 'z lightst_scheme) res" where
  "set_room_occupied roomid s =
     bindr (ensure_init s) (\<lambda>_ s.
     if bad_room roomid then Ret (-1) s
     else
       bindr (acquire Lk_lighting s) (\<lambda>_ s.
       let i = nat roomid;
           s = s\<lparr>rooms := (rooms s)[i := (rooms s ! i)\<lparr>occupied := ROOM_OCCUPIED,
                 light_on := LIGHT_ON, light_on_since := ticks s\<rparr>]\<rparr>
       in bindr (release Lk_lighting s) (\<lambda>_ s. Ret 0 s)))"

definition set_room_empty :: "int \<Rightarrow> 'z lightst_scheme \<Rightarrow> (int, 'z lightst_scheme) res" where
  "set_room_empty roomid s =
     bindr (ensure_init s) (\<lambda>_ s.
     if bad_room roomid then Ret (-1) s
     else
       bindr (acquire Lk_lighting s) (\<lambda>_ s.
       let i = nat roomid;
           s = s\<lparr>rooms := (rooms s)[i := (rooms s ! i)\<lparr>occupied := ROOM_EMPTY,
                 light_on := LIGHT_OFF, light_on_since := 0\<rparr>]\<rparr>
       in bindr (release Lk_lighting s) (\<lambda>_ s. Ret 0 s)))"

definition count_usage :: "room \<Rightarrow> room" where
  "count_usage r =
     (if light_on r = LIGHT_ON then r\<lparr>usage_ticks := usage_ticks r + 1\<rparr> else r)"

definition update_usage :: "'z lightst_scheme \<Rightarrow> (unit, 'z lightst_scheme) res" where
  "update_usage s =
     (if lighting_initialized s = 0 then Ret () s
      else
        bindr (acquire Lk_lighting s) (\<lambda>_ s.
        release Lk_lighting
          (s\<lparr>rooms := fold (\<lambda>i rs. rs[i := count_usage (rs ! i)]) [0..<NUM_ROOMS] (rooms s)\<rparr>)))"

definition get_room_usage :: "int \<Rightarrow> 'z lightst_scheme \<Rightarrow> (u32, 'z lightst_scheme) res" where
  "get_room_usage roomid s =
     bindr (ensure_init s) (\<lambda>_ s.
     if bad_room roomid then Ret (-1) s
     else
       bindr (acquire Lk_lighting s) (\<lambda>_ s.
       let val = usage_ticks (rooms s ! nat roomid)
       in bindr (release Lk_lighting s) (\<lambda>_ s. Ret val s)))"

definition get_total_usage :: "'z lightst_scheme \<Rightarrow> (u32, 'z lightst_scheme) res" where
  "get_total_usage s =
     bindr (ensure_init s) (\<lambda>_ s.
     bindr (acquire Lk_lighting s) (\<lambda>_ s.
     let total = fold (\<lambda>i total. total + usage_ticks (rooms s ! i)) [0..<NUM_ROOMS] 0
     in bindr (release Lk_lighting s) (\<lambda>_ s. Ret total s)))"

definition turn_off :: "room \<Rightarrow> room" where
  "turn_off r = r\<lparr>light_on := LIGHT_OFF, light_on_since := 0\<rparr>"

definition overdue :: "u32 \<Rightarrow> u32 \<Rightarrow> room \<Rightarrow> bool" where
  "overdue now limit r \<longleftrightarrow>
     light_on r = LIGHT_ON \<and> light_on_since r > 0 \<and> now - light_on_since r \<ge> limit"

definition shutoff_msg :: bytes where
  "shutoff_msg = ''lighting: auto-shutoff saved energy - turned off %d light(s)'' @ [CHR 0x0A]"

text \<open>
  The two rules of the policy, from \<open>acquire\<close> to \<open>release\<close>. The time \<open>now\<close> is read
  before the lock is taken, so it is an argument of the section.
\<close>

definition auto_shutoff_rules :: "u32 \<Rightarrow> u32 \<Rightarrow> 'z lightst_scheme \<Rightarrow> (int, 'z lightst_scheme) res" where
  "auto_shutoff_rules now limit s =
     bindr (acquire Lk_lighting s) (\<lambda>_ s.
     let all_empty = fold (\<lambda>i e. if occupied (rooms s ! i) \<noteq> ROOM_EMPTY then False else e)
                       [0..<NUM_ROOMS] True;
         (rs, count) =
           fold (\<lambda>i (rs, count). if overdue now limit (rs ! i)
                    then (rs[i := turn_off (rs ! i)], count + 1) else (rs, count))
             [0..<NUM_ROOMS] (rooms s, 0);
         (rs, count) =
           (if all_empty then
              fold (\<lambda>i (rs, count). if light_on (rs ! i) = LIGHT_ON
                      then (rs[i := turn_off (rs ! i)], count + 1) else (rs, count))
                [0..<NUM_ROOMS] (rs, count)
            else (rs, count)) in
     bindr (release Lk_lighting (s\<lparr>rooms := rs\<rparr>)) (\<lambda>_ s. Ret count s))"

definition auto_shutoff_impl :: "int \<Rightarrow> bool \<Rightarrow> 'z lightst_scheme \<Rightarrow> (int, 'z lightst_scheme) res" where
  "auto_shutoff_impl timeout_ticks verbose s =
     bindr (ensure_init s) (\<lambda>_ s.
     let now = ticks s;
         limit = (if timeout_ticks > 0 then word_of_int timeout_ticks
                  else word_of_int MAX_LIGHT_ON_TICKS) in
     bindr (auto_shutoff_rules now limit s) (\<lambda>count s.
     bindr (if verbose \<and> count > 0
            then kprintf shutoff_msg [VInt (word_of_int count)] s else Ret 0 s) (\<lambda>_ s.
     Ret count s)))"

definition lighting_tick :: "'z lightst_scheme \<Rightarrow> (unit, 'z lightst_scheme) res" where
  "lighting_tick s = bindr (auto_shutoff_impl 300 True s) (\<lambda>_ s. Ret () s)"

definition auto_shutoff :: "int \<Rightarrow> 'z lightst_scheme \<Rightarrow> (int, 'z lightst_scheme) res" where
  "auto_shutoff timeout_ticks s = auto_shutoff_impl timeout_ticks False s"

section \<open>The routines of roomenv.c\<close>

text \<open>
  The five assignments that \<open>roomenv_init\<close> and \<open>roomenv_reset\<close> share. The copy of the
  name stays inside both arrays, so the case of an access outside them does not occur.
\<close>

definition reset_roomenv :: "roomenv \<Rightarrow> roomenv" where
  "reset_roomenv r =
     r\<lparr>re_name := (case safestrcpy (re_name r) (''MainRoom'' @ [NUL]) 16 of
                    Some n \<Rightarrow> n | None \<Rightarrow> re_name r),
       re_light_on := 0, re_occupied := 0, last_motion_tick := 0, total_light_on_ticks := 0\<rparr>"

definition roomenv_init :: "'z lightst_scheme \<Rightarrow> (unit, 'z lightst_scheme) res" where
  "roomenv_init s =
     bindr (initlock Lk_roomenv ''roomenv'' s) (\<lambda>_ s.
     Ret () (s\<lparr>roomenv_room := reset_roomenv (roomenv_room s)\<rparr>))"

definition roomenv_reset :: "'z lightst_scheme \<Rightarrow> (unit, 'z lightst_scheme) res" where
  "roomenv_reset s =
     bindr (acquire Lk_roomenv s) (\<lambda>_ s.
     release Lk_roomenv (s\<lparr>roomenv_room := reset_roomenv (roomenv_room s)\<rparr>))"

definition roomenv_set_light :: "int \<Rightarrow> 'z lightst_scheme \<Rightarrow> (unit, 'z lightst_scheme) res" where
  "roomenv_set_light on s =
     bindr (acquire Lk_roomenv s) (\<lambda>_ s.
     release Lk_roomenv (s\<lparr>roomenv_room := (roomenv_room s)\<lparr>re_light_on := on\<rparr>\<rparr>))"

definition roomenv_set_occupied :: "int \<Rightarrow> 'z lightst_scheme \<Rightarrow> (unit, 'z lightst_scheme) res" where
  "roomenv_set_occupied occ s =
     bindr (acquire Lk_roomenv s) (\<lambda>_ s.
     release Lk_roomenv
       (s\<lparr>roomenv_room := (roomenv_room s)\<lparr>re_occupied := occ,
             last_motion_tick := sint (ticks s)\<rparr>\<rparr>))"

definition roomenv_print_status :: "'z lightst_scheme \<Rightarrow> (unit, 'z lightst_scheme) res" where
  "roomenv_print_status s =
     bindr (acquire Lk_roomenv s) (\<lambda>_ s.
     let r = roomenv_room s; nl = [CHR 0x0A] in
     bindr (kprintf (''Room: %s'' @ nl) [VStr (Some (re_name r))] s) (\<lambda>_ s.
     bindr (kprintf (''Light: %s'' @ nl)
              [VStr (Some (if re_light_on r \<noteq> 0 then ''ON'' else ''OFF''))] s) (\<lambda>_ s.
     bindr (kprintf (''Occupied: %s'' @ nl)
              [VStr (Some (if re_occupied r \<noteq> 0 then ''YES'' else ''NO''))] s) (\<lambda>_ s.
     bindr (kprintf (''Last motion tick: %d'' @ nl) [VInt (word_of_int (last_motion_tick r))] s) (\<lambda>_ s.
     bindr (kprintf (''Total light-on ticks: %d'' @ nl)
              [VInt (word_of_int (total_light_on_ticks r))] s) (\<lambda>_ s.
     release Lk_roomenv s))))))"

section \<open>Effect of the routines\<close>

text \<open>The lights that one run of the policy turns off, and the rooms it leaves.\<close>

definition all_vacant :: "room list \<Rightarrow> bool" where
  "all_vacant rs \<longleftrightarrow> (\<forall>r \<in> set rs. occupied r = ROOM_EMPTY)"

definition due :: "bool \<Rightarrow> u32 \<Rightarrow> u32 \<Rightarrow> room \<Rightarrow> bool" where
  "due vacant now limit r \<longleftrightarrow> light_on r = LIGHT_ON \<and> (vacant \<or> overdue now limit r)"

definition shut :: "u32 \<Rightarrow> u32 \<Rightarrow> room list \<Rightarrow> room list" where
  "shut now limit rs = map (\<lambda>r. if due (all_vacant rs) now limit r then turn_off r else r) rs"

definition shut_count :: "u32 \<Rightarrow> u32 \<Rightarrow> room list \<Rightarrow> int" where
  "shut_count now limit rs = int (length (filter (due (all_vacant rs) now limit) rs))"

definition limit_of :: "int \<Rightarrow> u32" where
  "limit_of timeout_ticks =
     (if timeout_ticks > 0 then word_of_int timeout_ticks else word_of_int MAX_LIGHT_ON_TICKS)"

text \<open>
  What a caller in a kernel that is up relies on: the module is initialised, the array has
  its five rooms, and neither the hart's lock nesting nor the lighting lock is in the way.
\<close>

definition light_ready :: "'z lightst_scheme \<Rightarrow> bool" where
  "light_ready s \<longleftrightarrow> lighting_initialized s \<noteq> 0 \<and> length (rooms s) = NUM_ROOMS \<and>
     cpu_ok (hw s) \<and> lk_free Lk_lighting (hw s)"

lemma light_ready_upd [simp]:
  "light_ready s \<Longrightarrow> length rs = NUM_ROOMS \<Longrightarrow> cpu_ok h \<Longrightarrow> lk_free Lk_lighting h \<Longrightarrow>
    light_ready (s\<lparr>hw := h, rooms := rs\<rparr>)"
  "light_ready s \<Longrightarrow> light_ready (s\<lparr>ticks := t\<rparr>)"
  by (simp_all add: light_ready_def)

lemma light_readyD:
  assumes "light_ready s"
  shows "lighting_initialized s \<noteq> 0" "length (rooms s) = NUM_ROOMS"
    "cpu_ok (hw s)" "lk_free Lk_lighting (hw s)"
  using assms by (simp_all add: light_ready_def)

lemma ensure_init_ready: "light_ready s \<Longrightarrow> ensure_init s = Ret () s"
  by (simp add: ensure_init_def light_ready_def)

lemma lighting_init_ok:
  assumes "length (rooms s) = NUM_ROOMS" and "cpu_ok (hw s)" and "lk_free Lk_lighting (hw s)"
  shows "lighting_init s = Ret ()
    (s\<lparr>hw := settle (if lighting_initialized s = 0
                      then fresh Lk_lighting ''lighting'' (hw s) else hw s),
       rooms := map (\<lambda>i. init_room i (rooms s ! i)) [0..<NUM_ROOMS],
       lighting_initialized := 1\<rparr>)"
proof -
  have "fold (\<lambda>i rs. rs[i := init_room i (rs ! i)]) [0..<NUM_ROOMS] (rooms s) =
      map (\<lambda>i. init_room i (rooms s ! i)) [0..<NUM_ROOMS]"
    using fold_update_map[of NUM_ROOMS "rooms s" init_room] assms(1) by simp
  then show ?thesis
    using assms by (simp add: lighting_init_def Let_def lock_simps del: upt_rec_numeral)
qed

lemma room_status_ok:
  assumes "light_ready s"
  shows "room_status roomid out s =
    (if bad_room roomid \<or> out = None then Ret (-1, out) s
     else let r = rooms s ! nat roomid in
       Ret (0, Some \<lparr>rs_name = map (\<lambda>j. rname r ! j) [0..<ROOM_NAME_MAX], rs_light_on = light_on r,
            rs_occupied = occupied r, rs_usage_ticks = usage_ticks r\<rparr>) (s\<lparr>hw := settle (hw s)\<rparr>))"
  using light_readyD[OF assms]
  by (simp add: room_status_def ensure_init_ready[OF assms] Let_def lock_simps del: upt_rec_numeral)

lemma set_room_occupied_ok:
  assumes "light_ready s"
  shows "set_room_occupied roomid s =
    (if bad_room roomid then Ret (-1) s
     else Ret 0 (s\<lparr>hw := settle (hw s),
       rooms := (rooms s)[nat roomid := (rooms s ! nat roomid)\<lparr>occupied := ROOM_OCCUPIED,
                 light_on := LIGHT_ON, light_on_since := ticks s\<rparr>]\<rparr>))"
  using light_readyD[OF assms]
  by (simp add: set_room_occupied_def ensure_init_ready[OF assms] Let_def lock_simps)

lemma set_room_empty_ok:
  assumes "light_ready s"
  shows "set_room_empty roomid s =
    (if bad_room roomid then Ret (-1) s
     else Ret 0 (s\<lparr>hw := settle (hw s),
       rooms := (rooms s)[nat roomid := (rooms s ! nat roomid)\<lparr>occupied := ROOM_EMPTY,
                 light_on := LIGHT_OFF, light_on_since := 0\<rparr>]\<rparr>))"
  using light_readyD[OF assms]
  by (simp add: set_room_empty_def ensure_init_ready[OF assms] Let_def lock_simps)

lemma update_usage_ok:
  assumes "light_ready s"
  shows "update_usage s = Ret () (s\<lparr>hw := settle (hw s), rooms := map count_usage (rooms s)\<rparr>)"
proof -
  have "fold (\<lambda>i rs. rs[i := count_usage (rs ! i)]) [0..<NUM_ROOMS] (rooms s) =
      map count_usage (rooms s)"
    using fold_update_map[of NUM_ROOMS "rooms s" "\<lambda>_. count_usage"] light_readyD(2)[OF assms]
      map_nth_upt[of NUM_ROOMS "rooms s" count_usage]
    by (simp del: upt_rec_numeral)
  then show ?thesis
    using light_readyD[OF assms] by (simp add: update_usage_def lock_simps del: upt_rec_numeral)
qed

lemma get_room_usage_ok:
  assumes "light_ready s"
  shows "get_room_usage roomid s =
    (if bad_room roomid then Ret (-1) s
     else Ret (usage_ticks (rooms s ! nat roomid)) (s\<lparr>hw := settle (hw s)\<rparr>))"
  using light_readyD[OF assms]
  by (simp add: get_room_usage_def ensure_init_ready[OF assms] Let_def lock_simps)

lemma fold_sum_nth:
  fixes f :: "'a \<Rightarrow> 'b :: comm_monoid_add"
  assumes "n \<le> length xs"
  shows "fold (\<lambda>i t. t + f (xs ! i)) [0..<n] 0 = sum_list (map f (take n xs))"
  using assms by (induction n) (simp_all add: take_Suc_conv_app_nth)

lemma get_total_usage_ok:
  assumes "light_ready s"
  shows "get_total_usage s =
    Ret (sum_list (map usage_ticks (rooms s))) (s\<lparr>hw := settle (hw s)\<rparr>)"
  using light_readyD[OF assms] fold_sum_nth[of NUM_ROOMS "rooms s" usage_ticks]
  by (simp add: get_total_usage_def ensure_init_ready[OF assms] Let_def lock_simps
      del: upt_rec_numeral)

lemma fold_all_vacant:
  "fold (\<lambda>i e. if occupied (rs ! i) \<noteq> ROOM_EMPTY then False else e) [0..<n] e \<longleftrightarrow>
    e \<and> (\<forall>i < n. occupied (rs ! i) = ROOM_EMPTY)"
  by (induction n) (auto simp: less_Suc_eq)

lemma all_vacant_nth: "n = length rs \<Longrightarrow> (\<forall>i < n. occupied (rs ! i) = ROOM_EMPTY) \<longleftrightarrow> all_vacant rs"
  by (simp add: all_vacant_def all_set_conv_all_nth)

text \<open>After the first rule the second turns off exactly the lights that are still on.\<close>

lemma shut_two_rules:
  assumes "all_vacant rs"
  shows "map (\<lambda>r. if light_on r = LIGHT_ON then turn_off r else r)
      (map (\<lambda>r. if overdue now limit r then turn_off r else r) rs) = shut now limit rs"
    and "int (length (filter (overdue now limit) rs)) +
      int (length (filter (\<lambda>r. light_on r = LIGHT_ON)
        (map (\<lambda>r. if overdue now limit r then turn_off r else r) rs))) = shut_count now limit rs"
proof -
  show "map (\<lambda>r. if light_on r = LIGHT_ON then turn_off r else r)
      (map (\<lambda>r. if overdue now limit r then turn_off r else r) rs) = shut now limit rs"
    using assms by (auto simp: shut_def due_def overdue_def turn_off_def)
  have "length (filter (overdue now limit) xs) +
      length (filter (\<lambda>r. light_on r = LIGHT_ON)
        (map (\<lambda>r. if overdue now limit r then turn_off r else r) xs)) =
      length (filter (due True now limit) xs)" for xs
    by (induction xs) (auto simp: due_def overdue_def turn_off_def)
  then show "int (length (filter (overdue now limit) rs)) +
      int (length (filter (\<lambda>r. light_on r = LIGHT_ON)
        (map (\<lambda>r. if overdue now limit r then turn_off r else r) rs))) = shut_count now limit rs"
    using assms by (simp add: shut_count_def flip: of_nat_add)
qed

lemma due_False: "due False now limit = overdue now limit"
  by (auto simp: due_def overdue_def)

lemma auto_shutoff_rules_ok:
  assumes "length (rooms s) = NUM_ROOMS" and "cpu_ok (hw s)" and "lk_free Lk_lighting (hw s)"
  shows "auto_shutoff_rules now limit s = Ret (shut_count now limit (rooms s))
    (s\<lparr>hw := settle (hw s), rooms := shut now limit (rooms s)\<rparr>)"
proof -
  let ?rs = "rooms s" and ?n = NUM_ROOMS
  let ?one = "map (\<lambda>r. if overdue now limit r then turn_off r else r) ?rs"
  have e: "fold (\<lambda>i e. if occupied (?rs ! i) \<noteq> ROOM_EMPTY then False else e) [0..<?n] True =
      all_vacant ?rs"
    using fold_all_vacant[of ?rs ?n True] all_vacant_nth[of ?n ?rs] assms(1) by simp
  have one: "fold (\<lambda>i (rs, c). if overdue now limit (rs ! i)
        then (rs[i := turn_off (rs ! i)], c + 1) else (rs, c)) [0..<?n] (?rs, 0) =
      (?one, int (length (filter (overdue now limit) ?rs)))"
    using fold_update_count[of ?n ?rs "overdue now limit" turn_off 0] assms(1)
    by (simp del: upt_rec_numeral)
  have two: "fold (\<lambda>i (rs, c). if light_on (rs ! i) = LIGHT_ON
        then (rs[i := turn_off (rs ! i)], c + 1) else (rs, c)) [0..<?n] (?one, k) =
      (map (\<lambda>r. if light_on r = LIGHT_ON then turn_off r else r) ?one,
       k + int (length (filter (\<lambda>r. light_on r = LIGHT_ON) ?one)))" for k
    using fold_update_count[of ?n ?one "\<lambda>r. light_on r = LIGHT_ON" turn_off k] assms(1)
    by (simp del: upt_rec_numeral)
  show ?thesis
  proof (cases "all_vacant ?rs")
    case True
    show ?thesis
      using assms(2,3) True unfolding auto_shutoff_rules_def
      by (simp add: lock_simps e one two shut_two_rules
        del: upt_rec_numeral map_map length_filter_map)
  next
    case False
    then show ?thesis
      using assms(2,3) unfolding auto_shutoff_rules_def
      by (simp add: lock_simps e one shut_def shut_count_def due_False del: upt_rec_numeral)
  qed
qed

definition shutoff_out :: "int \<Rightarrow> bytes" where
  "shutoff_out count = ''lighting: auto-shutoff saved energy - turned off '' @
     printint (va_int (word_of_int count)) 10 True @ '' light(s)'' @ [CHR 0x0A]"

lemma shutoff_msg_chars: "printf_chars shutoff_msg [VInt (word_of_int count)] = Some (shutoff_out count)"
proof -
  have "printf_chars ('' light(s)'' @ [CHR 0x0A]) [] = Some ('' light(s)'' @ [CHR 0x0A])"
    by simp
  then have "printf_chars (CHR ''%'' # CHR ''d'' # '' light(s)'' @ [CHR 0x0A]) [VInt (word_of_int count)] =
      Some (printint (va_int (word_of_int count)) 10 True @ '' light(s)'' @ [CHR 0x0A])"
    by (simp only: printf_chars_d option.map)
  then have "printf_chars (''lighting: auto-shutoff saved energy - turned off '' @
        (CHR ''%'' # CHR ''d'' # '' light(s)'' @ [CHR 0x0A])) [VInt (word_of_int count)] =
      Some (shutoff_out count)"
    by (subst printf_chars_plain) (simp_all add: shutoff_out_def)
  then show ?thesis by (simp add: shutoff_msg_def)
qed

text \<open>What the message adds to the console.\<close>

definition shutoff_log :: "bool \<Rightarrow> int \<Rightarrow> bytes" where
  "shutoff_log verbose count = (if verbose \<and> count > 0 then shutoff_out count else [])"

lemma auto_shutoff_impl_ok:
  assumes "light_ready s" and "tty_ok (hw s)" and "lk_free Lk_pr (hw s)"
  shows "auto_shutoff_impl timeout_ticks verbose s =
    (let limit = limit_of timeout_ticks; count = shut_count (ticks s) limit (rooms s) in
     Ret count (s\<lparr>hw := emit (shutoff_log verbose count) (settle (hw s)),
                  rooms := shut (ticks s) limit (rooms s)\<rparr>))"
  using light_readyD[OF assms(1)] assms(2,3)
  by (simp add: auto_shutoff_impl_def ensure_init_ready[OF assms(1)] auto_shutoff_rules_ok
      limit_of_def Let_def kprintf_ok[where out = "shutoff_out c" for c] shutoff_msg_chars
      shutoff_log_def)

section \<open>Invariant\<close>

text \<open>
  A well-formed room: a terminated name, flags that are 0 or 1, no start time while the light
  is off, and no light in a room that is empty.
\<close>

definition room_ok :: "room \<Rightarrow> bool" where
  "room_ok r \<longleftrightarrow> length (rname r) = ROOM_NAME_MAX \<and> NUL \<in> set (rname r) \<and>
     light_on r \<in> {LIGHT_OFF, LIGHT_ON} \<and> occupied r \<in> {ROOM_EMPTY, ROOM_OCCUPIED} \<and>
     (light_on r = LIGHT_OFF \<longrightarrow> light_on_since r = 0) \<and>
     (occupied r = ROOM_EMPTY \<longrightarrow> light_on r = LIGHT_OFF)"

text \<open>The environment the module runs in: a hart that can take its lock and print.\<close>

definition light_env :: "machine \<Rightarrow> bool" where
  "light_env h \<longleftrightarrow> cpu_ok h \<and> lk_free Lk_lighting h \<and> lk_free Lk_pr h \<and> tty_ok h"

lemma light_env_frame [simp]:
  "light_env (settle h) = light_env h" "light_env (emit out h) = light_env h"
  "light_env h \<Longrightarrow> light_env (fresh Lk_lighting nm h)"
  by (auto simp: light_env_def tty_ok_def)

definition light_inv :: "'z lightst_scheme \<Rightarrow> bool" where
  "light_inv s \<longleftrightarrow> length (rooms s) = NUM_ROOMS \<and> list_all room_ok (rooms s) \<and> light_env (hw s)"

text \<open>The module after boot, before its first call: everything is zero.\<close>

definition light_boot :: "'z lightst_scheme \<Rightarrow> bool" where
  "light_boot s \<longleftrightarrow> lighting_initialized s = 0 \<and> light_env (hw s) \<and>
     rooms s = replicate NUM_ROOMS \<lparr>rname = replicate ROOM_NAME_MAX NUL, light_on = 0,
        occupied = 0, usage_ticks = 0, light_on_since = 0\<rparr>"

text \<open>One call into the module by the rest of the kernel, or one advance of the clock.\<close>

inductive light_step :: "'z lightst_scheme \<Rightarrow> 'z lightst_scheme \<Rightarrow> bool" where
  step_init: "lighting_init s = Ret () s' \<Longrightarrow> light_step s s'"
| step_status: "room_status i out s = Ret v s' \<Longrightarrow> light_step s s'"
| step_occupied: "set_room_occupied i s = Ret v s' \<Longrightarrow> light_step s s'"
| step_empty: "set_room_empty i s = Ret v s' \<Longrightarrow> light_step s s'"
| step_update: "update_usage s = Ret () s' \<Longrightarrow> light_step s s'"
| step_usage: "get_room_usage i s = Ret u s' \<Longrightarrow> light_step s s'"
| step_total: "get_total_usage s = Ret u s' \<Longrightarrow> light_step s s'"
| step_shutoff: "auto_shutoff_impl t b s = Ret v s' \<Longrightarrow> light_step s s'"
| step_clock: "light_step s (s\<lparr>ticks := ticks s + 1\<rparr>)"

lemma length_copy_name [simp]: "length (copy_name dst cs j) = length dst"
  by (induction dst cs j rule: copy_name.induct) simp_all

lemma NUL_copy_name: "j < length dst \<Longrightarrow> length dst = ROOM_NAME_MAX \<Longrightarrow> NUL \<in> set (copy_name dst cs j)"
  by (induction dst cs j rule: copy_name.induct) (simp_all add: set_update_memI)

lemma init_room_ok: "length (rname r) = ROOM_NAME_MAX \<Longrightarrow> room_ok (init_room i r)"
  by (simp add: room_ok_def init_room_def NUL_copy_name)

lemma lighting_init_inv:
  assumes "light_inv s"
  shows "\<exists>s1. lighting_init s = Ret () s1 \<and> light_inv s1 \<and> light_ready s1"
proof -
  have "\<forall>i < NUM_ROOMS. length (rname (rooms s ! i)) = ROOM_NAME_MAX"
    using assms by (simp add: light_inv_def list_all_length room_ok_def)
  then have "list_all room_ok (map (\<lambda>i. init_room i (rooms s ! i)) [0..<NUM_ROOMS])"
    by (auto simp: list_all_iff intro!: init_room_ok simp del: upt_rec_numeral)
  then show ?thesis
    using assms lighting_init_ok[of s]
    by (auto simp: light_inv_def light_ready_def light_env_def tty_ok_def simp del: upt_rec_numeral)
qed

lemma ensure_init_inv:
  assumes "light_inv s"
  shows "\<exists>s1. ensure_init s = Ret () s1 \<and> light_inv s1 \<and> light_ready s1"
proof (cases "lighting_initialized s = 0")
  case True
  then show ?thesis using lighting_init_inv[OF assms] by (simp add: ensure_init_def)
next
  case False
  with assms show ?thesis
    by (simp add: ensure_init_def light_inv_def light_ready_def light_env_def)
qed

text \<open>A call in a state that is not yet initialised acts as one in the initialised state.\<close>

lemma ops_ensure_init:
  assumes "ensure_init s = Ret () s1" and "light_ready s1"
  shows "room_status i out s = room_status i out s1"
    "set_room_occupied i s = set_room_occupied i s1"
    "set_room_empty i s = set_room_empty i s1"
    "get_room_usage i s = get_room_usage i s1"
    "get_total_usage s = get_total_usage s1"
    "auto_shutoff_impl t b s = auto_shutoff_impl t b s1"
  using assms ensure_init_ready[OF assms(2)]
  by (simp_all add: room_status_def set_room_occupied_def set_room_empty_def get_room_usage_def
      get_total_usage_def auto_shutoff_impl_def)

lemma list_all_update: "list_all P xs \<Longrightarrow> P x \<Longrightarrow> list_all P (xs[i := x])"
  by (auto simp: list_all_iff dest!: set_update_subset_insert[THEN subsetD])

lemma light_inv_nth: "light_inv s \<Longrightarrow> \<not> bad_room i \<Longrightarrow> room_ok (rooms s ! nat i)"
  by (auto simp: light_inv_def list_all_length bad_room_def nat_less_iff)

lemma light_inv_upd:
  assumes "light_inv s" and "length rs = NUM_ROOMS" and "list_all room_ok rs" and "light_env h"
  shows "light_inv (s\<lparr>hw := h, rooms := rs\<rparr>)"
  using assms by (simp add: light_inv_def)

lemma shut_inv: "list_all room_ok rs \<Longrightarrow> list_all room_ok (shut now limit rs)"
  by (auto simp: list_all_iff shut_def room_ok_def turn_off_def due_def)

lemma count_usage_inv: "list_all room_ok rs \<Longrightarrow> list_all room_ok (map count_usage rs)"
  by (auto simp: list_all_iff room_ok_def count_usage_def)

lemma length_shut [simp]: "length (shut now limit rs) = length rs"
  by (simp add: shut_def)

text \<open>Every call returns, and the state it returns in satisfies the invariant.\<close>

definition returns_inv :: "('a, 'z lightst_scheme) res \<Rightarrow> bool" where
  "returns_inv r \<longleftrightarrow> (\<exists>v s. r = Ret v s \<and> light_inv s)"

lemma returns_invI: "r = Ret v s \<Longrightarrow> light_inv s \<Longrightarrow> returns_inv r"
  by (auto simp: returns_inv_def)

lemma returns_inv_returns: "returns_inv r \<Longrightarrow> returns r"
  by (auto simp: returns_inv_def returns_def)

lemma returns_invD: "returns_inv r \<Longrightarrow> r = Ret v s \<Longrightarrow> light_inv s"
  by (auto simp: returns_inv_def)

lemma ready_ops_inv:
  assumes inv: "light_inv s" and rdy: "light_ready s"
  shows "returns_inv (room_status i out s)" "returns_inv (set_room_occupied i s)"
    "returns_inv (set_room_empty i s)" "returns_inv (get_room_usage i s)"
    "returns_inv (get_total_usage s)" "returns_inv (auto_shutoff_impl t b s)"
proof -
  have env: "light_env (hw s)" "length (rooms s) = NUM_ROOMS" "list_all room_ok (rooms s)"
    using inv by (simp_all add: light_inv_def)
  have same: "light_inv (s\<lparr>hw := settle (hw s)\<rparr>)" using inv by (simp add: light_inv_def)
  show "returns_inv (room_status i out s)" "returns_inv (get_room_usage i s)"
    "returns_inv (get_total_usage s)"
    using inv same
    by (simp_all add: room_status_ok[OF rdy] get_room_usage_ok[OF rdy] get_total_usage_ok[OF rdy]
        Let_def returns_inv_def del: upt_rec_numeral)
  have "room_ok r \<Longrightarrow> room_ok (r\<lparr>occupied := ROOM_OCCUPIED, light_on := LIGHT_ON, light_on_since := u\<rparr>)"
    "room_ok r \<Longrightarrow> room_ok (r\<lparr>occupied := ROOM_EMPTY, light_on := LIGHT_OFF, light_on_since := 0\<rparr>)"
    for r u by (simp_all add: room_ok_def)
  then show "returns_inv (set_room_occupied i s)" "returns_inv (set_room_empty i s)"
    using inv env light_inv_nth[OF inv, of i]
    by (simp_all add: set_room_occupied_ok[OF rdy] set_room_empty_ok[OF rdy] returns_inv_def
        light_inv_upd list_all_update)
  show "returns_inv (auto_shutoff_impl t b s)"
    using env auto_shutoff_impl_ok[OF rdy, of t b]
    by (auto simp: light_env_def Let_def intro!: returns_invI light_inv_upd[OF inv] shut_inv)
qed

lemma ops_inv:
  assumes inv: "light_inv s"
  shows "returns_inv (lighting_init s)" "returns_inv (update_usage s)"
    "returns_inv (room_status i out s)" "returns_inv (set_room_occupied i s)"
    "returns_inv (set_room_empty i s)" "returns_inv (get_room_usage i s)"
    "returns_inv (get_total_usage s)" "returns_inv (auto_shutoff_impl t b s)"
proof -
  show "returns_inv (lighting_init s)"
    using lighting_init_inv[OF inv] by (auto simp: returns_inv_def)
  show "returns_inv (update_usage s)"
  proof (cases "lighting_initialized s = 0")
    case True
    with inv show ?thesis by (simp add: update_usage_def returns_inv_def)
  next
    case False
    with inv have "light_ready s" by (simp add: light_inv_def light_ready_def light_env_def)
    from update_usage_ok[OF this] inv show ?thesis
      by (auto simp: light_inv_def intro!: returns_invI count_usage_inv)
  qed
  obtain s1 where s1: "ensure_init s = Ret () s1" "light_inv s1" "light_ready s1"
    using ensure_init_inv[OF inv] by blast
  show "returns_inv (room_status i out s)" "returns_inv (set_room_occupied i s)"
    "returns_inv (set_room_empty i s)" "returns_inv (get_room_usage i s)"
    "returns_inv (get_total_usage s)" "returns_inv (auto_shutoff_impl t b s)"
    using ready_ops_inv[OF s1(2,3)] by (simp_all only: ops_ensure_init[OF s1(1,3)])
qed

lemma light_boot_inv: "light_boot s \<Longrightarrow> light_inv s"
  by (simp add: light_boot_def light_inv_def room_ok_def list_all_iff)

lemma light_step_inv: "light_step s s' \<Longrightarrow> light_inv s \<Longrightarrow> light_inv s'"
proof (induction rule: light_step.induct)
  case (step_clock s)
  then show ?case by (simp add: light_inv_def)
qed (auto dest: ops_inv returns_invD)

interpretation light_sys: inv_system light_boot light_step light_inv
  by unfold_locales (auto intro: light_boot_inv light_step_inv)

section \<open>Properties\<close>

definition light0 :: lightst where
  "light0 = \<lparr>hw = hw0, ticks = 7,
     rooms = replicate NUM_ROOMS \<lparr>rname = replicate ROOM_NAME_MAX NUL, light_on = 0,
        occupied = 0, usage_ticks = 0, light_on_since = 0\<rparr>,
     lighting_initialized = 0,
     roomenv_room = \<lparr>re_name = replicate 16 NUL, re_light_on = 0, re_occupied = 0,
        last_motion_tick = 0, total_light_on_ticks = 0\<rparr>\<rparr>"

lemma light_env_hw0 [simp]: "light_env hw0"
  by (simp add: light_env_def)

lemma light0_boot [simp]: "light_boot light0"
  by (simp add: light_boot_def light0_def)

lemma light0_inv [simp]: "light_inv light0"
  by (simp add: light_boot_inv)

text \<open>
  C2: from boot on, whatever calls are made and however often the clock advances, every room
  keeps a terminated name and flags that are 0 or 1, an unlit room has no start time, and an
  empty room is unlit; and every call into the module returns: it never panics and never
  waits for its lock.
\<close>

theorem lighting_safe:
  assumes "reach light_boot light_step s"
  shows "length (rooms s) = NUM_ROOMS \<and> list_all room_ok (rooms s) \<and>
    returns (set_room_occupied i s) \<and> returns (set_room_empty i s) \<and>
    returns (room_status i out s) \<and> returns (auto_shutoff_impl t b s) \<and>
    returns (get_room_usage i s) \<and> returns (get_total_usage s) \<and>
    returns (update_usage s) \<and> returns (lighting_init s)"
proof -
  have inv: "light_inv s" using assms by (rule light_sys.reach_inv)
  then show ?thesis
    by (simp add: ops_inv[OF inv, THEN returns_inv_returns]) (simp add: light_inv_def)
qed

theorem lighting_safe_witness:
  "length (rooms light0) = NUM_ROOMS \<and> returns (set_room_occupied 3 light0) \<and>
    returns (auto_shutoff_impl 0 True light0)"
  using lighting_safe[of light0 3 None 0 True] by (simp add: reach_start)

lemma auto_shutoff_overdue:
  assumes "light_inv s" and "lighting_initialized s \<noteq> 0"
  shows "auto_shutoff timeout_ticks s =
    Ret (int (length (filter (overdue (ticks s) (limit_of timeout_ticks)) (rooms s))))
      (s\<lparr>hw := settle (hw s),
         rooms := map (\<lambda>r. if overdue (ticks s) (limit_of timeout_ticks) r then turn_off r else r)
           (rooms s)\<rparr>)"
proof -
  have rdy: "light_ready s" and env: "light_env (hw s)"
    using assms by (simp_all add: light_inv_def light_ready_def light_env_def)
  have dark: "due (all_vacant (rooms s)) now limit r = overdue now limit r" if "r \<in> set (rooms s)" for r now limit
    using that assms(1)
    by (auto simp: due_def overdue_def light_inv_def list_all_iff room_ok_def all_vacant_def)
  show ?thesis
    using auto_shutoff_impl_ok[OF rdy, of timeout_ticks False] env dark
    by (simp add: auto_shutoff_def light_env_def shut_def shut_count_def Let_def shutoff_log_def
        cong: filter_cong map_cong)
qed

text \<open>The test of the source, with the limit as the number of ticks it stands for.\<close>

lemma overdue_ticks:
  assumes "timeout_ticks < 2 ^ 31"
  shows "overdue now (limit_of timeout_ticks) r \<longleftrightarrow> light_on r = LIGHT_ON \<and> light_on_since r \<noteq> 0 \<and>
    (if 0 < timeout_ticks then nat timeout_ticks else 100) \<le> unat (now - light_on_since r)"
proof -
  have "unat (limit_of timeout_ticks) = (if 0 < timeout_ticks then nat timeout_ticks else 100)"
  proof (cases "0 < timeout_ticks")
    case True
    then have "uint (word_of_int timeout_ticks :: u32) = timeout_ticks"
      using assms by (simp add: uint_word_of_int)
    with True show ?thesis by (simp add: limit_of_def flip: nat_uint_eq)
  qed (simp add: limit_of_def)
  then show ?thesis by (simp add: overdue_def word_le_nat_alt word_neq_0_conv)
qed

text \<open>
  C3: in every reachable state, \<open>auto_shutoff\<close> applies its argument as the limit, or 100 ticks
  when the argument is not positive. It turns off exactly the lights that are on, have a nonzero
  start tick, and whose start tick is the limit or more ago (modulo the width of the tick counter); it clears their start tick, leaves
  every other room and field as it was, and returns how many lights it turned off. The rule for
  a house with no occupant never turns off a further light, since an empty room is already
  dark. A light that was switched on at tick 0 is never turned off by it.
\<close>

theorem auto_shutoff_exact:
  assumes "reach light_boot light_step s" and "lighting_initialized s \<noteq> 0" and "timeout_ticks < 2 ^ 31"
    and "limit = (if 0 < timeout_ticks then nat timeout_ticks else 100)"
  shows "auto_shutoff timeout_ticks s =
    Ret (int (card {i. i < NUM_ROOMS \<and> light_on (rooms s ! i) = LIGHT_ON \<and> light_on_since (rooms s ! i) \<noteq> 0 \<and>
          limit \<le> unat (ticks s - light_on_since (rooms s ! i))}))
      (s\<lparr>hw := settle (hw s),
         rooms := map (\<lambda>r. if light_on r = LIGHT_ON \<and> light_on_since r \<noteq> 0 \<and>
             limit \<le> unat (ticks s - light_on_since r)
           then r\<lparr>light_on := LIGHT_OFF, light_on_since := 0\<rparr> else r) (rooms s)\<rparr>)"
proof -
  have inv: "light_inv s" using assms(1) by (rule light_sys.reach_inv)
  then have "length (rooms s) = NUM_ROOMS" by (simp add: light_inv_def)
  then show ?thesis
    using auto_shutoff_overdue[OF inv assms(2), of timeout_ticks]
    by (simp only: overdue_ticks[OF assms(3)] turn_off_def assms(4)[symmetric] length_filter_conv_card)
qed

text \<open>
  A short run: the module is initialised at tick 7, the kitchen is occupied, and the clock
  advances to tick 8.
\<close>

definition light1 :: lightst where
  "light1 = light0\<lparr>hw := fresh Lk_lighting ''lighting'' hw0,
     rooms := map (\<lambda>i. init_room i (rooms light0 ! i)) [0..<NUM_ROOMS], lighting_initialized := 1\<rparr>"

definition light2 :: lightst where
  "light2 = light1\<lparr>ticks := 8, rooms := (rooms light1)[1 := (rooms light1 ! 1)
     \<lparr>occupied := ROOM_OCCUPIED, light_on := LIGHT_ON, light_on_since := 7\<rparr>]\<rparr>"

lemma settle_fresh_hw0: "settle (fresh lk nm hw0) = fresh lk nm hw0"
  by (simp add: fresh_def settle_def hw_defs hw0_def fun_eq_iff)

lemma light1_step: "lighting_init light0 = Ret () light1"
  by (subst lighting_init_ok)
    (simp_all add: light0_def light1_def settle_fresh_hw0 del: upt_rec_numeral)

lemma light1_ready: "light_ready light1"
  by (simp add: light_ready_def light1_def light0_def)

lemma light2_reach: "reach light_boot light_step light2"
proof -
  let ?s = "light2\<lparr>ticks := 7\<rparr>"
  have 1: "reach light_boot light_step light1"
    by (rule reach_step[of _ _ light0]) (simp_all add: reach_start step_init[OF light1_step])
  have "set_room_occupied 1 light1 = Ret 0 ?s"
    by (subst set_room_occupied_ok[OF light1_ready])
      (simp add: bad_room_def light2_def light1_def light0_def settle_fresh_hw0 del: upt_rec_numeral)
  then have "light_step light1 ?s" by (rule step_occupied)
  then have "reach light_boot light_step ?s" by (rule reach_step[OF 1])
  moreover have "light_step ?s light2"
    using step_clock[of ?s] by (simp add: light2_def light1_def light0_def)
  ultimately show ?thesis by (rule reach_step)
qed

theorem auto_shutoff_exact_witness:
  "reach light_boot light_step light2 \<and> lighting_initialized light2 \<noteq> 0 \<and>
    (\<exists>n s. auto_shutoff 1 light2 = Ret n s \<and> light_on (rooms s ! 1) = LIGHT_OFF \<and>
      occupied (rooms s ! 1) = ROOM_OCCUPIED) \<and>
    (\<exists>n s. auto_shutoff 0 light2 = Ret n s \<and> light_on (rooms s ! 1) = LIGHT_ON)"
  using light2_reach auto_shutoff_exact[OF light2_reach, of 1 1] auto_shutoff_exact[OF light2_reach, of 0 100]
  by (simp add: light2_def light1_def light0_def init_room_def upt_rec)

text \<open>
  C4: \<open>lighting_init\<close> may be called again at any time, but it is not a no-op then: every
  light goes off, every room becomes empty and the energy used so far is forgotten.
\<close>

theorem lighting_init_resets:
  assumes "light_ready s" and "lighting_init s = Ret () s'" and "i < NUM_ROOMS"
  shows "light_on (rooms s' ! i) = LIGHT_OFF \<and> occupied (rooms s' ! i) = ROOM_EMPTY \<and>
    usage_ticks (rooms s' ! i) = 0 \<and> light_on_since (rooms s' ! i) = 0"
  using assms(2,3) lighting_init_ok[OF light_readyD(2-4)[OF assms(1)]]
  by (auto simp: init_room_def simp del: upt_rec_numeral)

theorem lighting_init_resets_witness:
  "light_on (rooms light2 ! 1) = LIGHT_ON \<and>
    (\<exists>s. lighting_init light2 = Ret () s \<and> light_on (rooms s ! 1) = LIGHT_OFF)"
proof -
  have rdy: "light_ready light2"
    using light1_ready by (simp add: light2_def light_ready_def)
  obtain s where s: "lighting_init light2 = Ret () s"
    using lighting_init_ok[OF light_readyD(2-4)[OF rdy]] by blast
  then show ?thesis
    using lighting_init_resets[OF rdy s, of 1] by (simp add: light2_def light1_def)
qed

end
