(* ===== verification/Bytes.thy ===== *)
theory Bytes
  imports Kstring
begin

text \<open>
  Little-endian integers in memory and in disk blocks: how the compiled code lays out the
  \<open>ushort\<close>, \<open>uint\<close> and \<open>uint64\<close> fields of C structures, and that reading gives back
  what was written. Used by the page allocator, the page tables and the file system.
\<close>

section \<open>Integers as lists of bytes\<close>

fun le_bytes :: "nat \<Rightarrow> nat \<Rightarrow> u8 list" where
  "le_bytes 0 v = []"
| "le_bytes (Suc n) v = of_nat (v mod 256) # le_bytes n (v div 256)"

fun le_val :: "u8 list \<Rightarrow> nat" where
  "le_val [] = 0"
| "le_val (b # bs) = unat b + 256 * le_val bs"

lemma length_le_bytes [simp]: "length (le_bytes n v) = n"
  by (induction n arbitrary: v) simp_all

lemma unat_u8: "unat (b :: u8) < 256"
  using unsigned_less[of b] by simp

lemma unat_of_nat_u8: "unat (of_nat v :: u8) = v mod 256"
  by (simp add: unat_of_nat)

lemma le_val_le_bytes: "le_val (le_bytes n v) = v mod 256 ^ n"
proof (induction n arbitrary: v)
  case 0
  then show ?case by simp
next
  case (Suc n)
  have "v mod 256 + 256 * (v div 256 mod 256 ^ n) = v mod (256 * 256 ^ n)"
    by (simp add: mod_mult2_eq)
  with Suc show ?case by (simp add: unat_of_nat_u8)
qed

lemma le_val_less: "le_val bs < 256 ^ length bs"
proof (induction bs)
  case Nil
  then show ?case by simp
next
  case (Cons b bs)
  then have "le_val bs + 1 \<le> 256 ^ length bs" by simp
  then have "256 * (le_val bs + 1) \<le> 256 * 256 ^ length bs" by (rule mult_le_mono2)
  with unat_u8[of b] show ?case by simp
qed

lemma le_bytes_le_val: "n = length bs \<Longrightarrow> le_bytes n (le_val bs) = bs"
proof (induction bs arbitrary: n)
  case Nil
  then show ?case by simp
next
  case (Cons b bs)
  have "(unat b + 256 * le_val bs) mod 256 = unat b" using unat_u8[of b] by simp
  moreover have "(unat b + 256 * le_val bs) div 256 = le_val bs" using unat_u8[of b] by simp
  ultimately show ?case using Cons by simp
qed

section \<open>Integers in memory\<close>

definition ld :: "nat \<Rightarrow> memory \<Rightarrow> u64 \<Rightarrow> nat" where
  "ld n m a = le_val (map (\<lambda>k. m (a + of_nat k)) [0..<n])"

definition st :: "nat \<Rightarrow> memory \<Rightarrow> u64 \<Rightarrow> nat \<Rightarrow> memory" where
  "st n m a v = (\<lambda>x. if unat (x - a) < n then le_bytes n v ! unat (x - a) else m x)"

definition ld64 :: "memory \<Rightarrow> u64 \<Rightarrow> u64" where
  "ld64 m a = of_nat (ld 8 m a)"

definition st64 :: "memory \<Rightarrow> u64 \<Rightarrow> u64 \<Rightarrow> memory" where
  "st64 m a v = st 8 m a (unat v)"

text \<open>The bytes of an object do not meet those of another.\<close>

definition apart :: "u64 \<Rightarrow> nat \<Rightarrow> u64 \<Rightarrow> nat \<Rightarrow> bool" where
  "apart a n b k \<longleftrightarrow> unat a + n \<le> unat b \<or> unat b + k \<le> unat a"

lemma ld_cong: "(\<And>k. k < n \<Longrightarrow> m (a + of_nat k) = m' (a + of_nat k)) \<Longrightarrow> ld n m a = ld n m' a"
  unfolding ld_def by (rule arg_cong[where f = le_val]) simp

lemma ld_st_same:
  assumes "n < 2 ^ 64"
  shows "ld n (st n m a v) a = v mod 256 ^ n"
proof -
  have "map (\<lambda>k. st n m a v (a + of_nat k)) [0..<n] = le_bytes n v"
    using assms by (intro nth_equalityI) (simp_all add: st_def unat_of_nat_u64)
  then show ?thesis by (simp add: ld_def le_val_le_bytes)
qed

lemma offset_apart:
  assumes "apart a n b k" and "i < k" and "unat a + n < 2 ^ 64" and "unat b + k < 2 ^ 64"
  shows "\<not> unat (b + of_nat i - a) < n"
proof
  let ?o = "unat (b + of_nat i - a)"
  assume less: "?o < n"
  have "b + of_nat i = a + of_nat ?o" by simp
  then have "unat (b + of_nat i) = unat (a + of_nat ?o)" by simp
  moreover have "unat (b + of_nat i) = unat b + i"
    using assms by (intro unat_add_of_nat) simp
  moreover have "unat (a + of_nat ?o) = unat a + ?o"
    using less assms by (intro unat_add_of_nat) simp
  ultimately show False using assms less by (auto simp: apart_def)
qed

lemma ld_st_apart:
  assumes "apart a n b k" and "unat a + n < 2 ^ 64" and "unat b + k < 2 ^ 64"
  shows "ld k (st n m a v) b = ld k m b"
  by (rule ld_cong) (simp add: st_def offset_apart[OF assms(1) _ assms(2,3)])

lemma ld_filled_apart:
  assumes "apart a n b k" and "unat a + n < 2 ^ 64" and "unat b + k < 2 ^ 64"
  shows "ld k (filled m a c n) b = ld k m b"
  by (rule ld_cong) (simp add: filled_def offset_apart[OF assms(1) _ assms(2,3)])

lemma ld_copied_apart:
  assumes "apart a n b k" and "unat a + n < 2 ^ 64" and "unat b + k < 2 ^ 64"
  shows "ld k (copied m a src n) b = ld k m b"
  by (rule ld_cong) (simp add: copied_def offset_apart[OF assms(1) _ assms(2,3)])

lemma apart_sub:
  assumes "apart a n b k" and "k' \<le> k" and "n' \<le> n"
  shows "apart a n' b k'"
  using assms by (auto simp: apart_def)

lemma apart_sym: "apart a n b k = apart b k a n"
  by (auto simp: apart_def)

lemma ld64_st64_same [simp]: "ld64 (st64 m a v) a = v"
proof -
  have "unat v mod 256 ^ 8 = unat v" using unat_u64[of v] by simp
  then show ?thesis by (simp add: ld64_def st64_def ld_st_same)
qed

lemma ld64_st64_apart:
  assumes "apart a 8 b 8" and "unat a + 8 < 2 ^ 64" and "unat b + 8 < 2 ^ 64"
  shows "ld64 (st64 m a v) b = ld64 m b"
  by (simp add: ld64_def st64_def ld_st_apart[OF assms])

section \<open>Integers in disk blocks and other byte arrays\<close>

definition get_le :: "nat \<Rightarrow> u8 list \<Rightarrow> nat \<Rightarrow> nat" where
  "get_le n d off = le_val (take n (drop off d))"

definition put_le :: "nat \<Rightarrow> u8 list \<Rightarrow> nat \<Rightarrow> nat \<Rightarrow> u8 list" where
  "put_le n d off v = take off d @ le_bytes n v @ drop (off + n) d"

lemma length_put_le [simp]: "off + n \<le> length d \<Longrightarrow> length (put_le n d off v) = length d"
  by (simp add: put_le_def)

lemma get_put_same: "off + n \<le> length d \<Longrightarrow> get_le n (put_le n d off v) off = v mod 256 ^ n"
  by (simp add: get_le_def put_le_def le_val_le_bytes)

lemma get_put_other:
  assumes "off + n \<le> length d" and "i + k \<le> off \<or> off + n \<le> i"
  shows "get_le k (put_le n d off v) i = get_le k d i"
proof -
  have nth: "put_le n d off v ! j = d ! j" if "j < off \<or> off + n \<le> j" "j < length d" for j
    using assms(1) that by (auto simp: put_le_def nth_append min_def)
  have "take k (drop i (put_le n d off v)) = take k (drop i d)"
    using assms by (intro nth_equalityI) (auto simp: nth)
  then show ?thesis by (simp add: get_le_def)
qed

text \<open>The \<open>ushort\<close> and \<open>uint\<close> fields of on-disk structures.\<close>

definition get16 :: "u8 list \<Rightarrow> nat \<Rightarrow> u16" where "get16 d off = of_nat (get_le 2 d off)"
definition put16 :: "u8 list \<Rightarrow> nat \<Rightarrow> u16 \<Rightarrow> u8 list" where "put16 d off v = put_le 2 d off (unat v)"
definition get32 :: "u8 list \<Rightarrow> nat \<Rightarrow> u32" where "get32 d off = of_nat (get_le 4 d off)"
definition put32 :: "u8 list \<Rightarrow> nat \<Rightarrow> u32 \<Rightarrow> u8 list" where "put32 d off v = put_le 4 d off (unat v)"

lemma length_put [simp]:
  "off + 2 \<le> length d \<Longrightarrow> length (put16 d off v) = length d"
  "off + 4 \<le> length d \<Longrightarrow> length (put32 d off w) = length d"
  by (simp_all add: put16_def put32_def)

lemma get32_put32:
  assumes "off + 4 \<le> length d"
  shows "get32 (put32 d off v) off = v" and "i + 4 \<le> off \<or> off + 4 \<le> i \<Longrightarrow> get32 (put32 d off v) i = get32 d i"
proof -
  have "unat v < 256 ^ 4" using unsigned_less[of v] by simp
  then show "get32 (put32 d off v) off = v"
    using get_put_same[OF assms, of "unat v"] by (simp add: get32_def put32_def)
  show "i + 4 \<le> off \<or> off + 4 \<le> i \<Longrightarrow> get32 (put32 d off v) i = get32 d i"
    using get_put_other[OF assms] by (simp add: get32_def put32_def)
qed

lemma get16_put16:
  assumes "off + 2 \<le> length d"
  shows "get16 (put16 d off v) off = v" and "i + 2 \<le> off \<or> off + 2 \<le> i \<Longrightarrow> get16 (put16 d off v) i = get16 d i"
proof -
  have "unat v < 256 ^ 2" using unsigned_less[of v] by simp
  then show "get16 (put16 d off v) off = v"
    using get_put_same[OF assms, of "unat v"] by (simp add: get16_def put16_def)
  show "i + 2 \<le> off \<or> off + 2 \<le> i \<Longrightarrow> get16 (put16 d off v) i = get16 d i"
    using get_put_other[OF assms] by (simp add: get16_def put16_def)
qed

end
