(* ===== verification/Kalloc.thy ===== *)
theory Kalloc
  imports Lighting Bytes
begin

text \<open>
  The physical page allocator \<open>kernel/kalloc.c\<close>. The free pages form a linked list whose
  links are stored in the pages themselves, so the model works on the byte memory: the state
  has the memory, the head of the list and the linker symbol \<open>end\<close>.
\<close>

section \<open>State and routines\<close>

definition KERNBASE :: u64 where "KERNBASE = 0x80000000"
definition PHYSTOP :: u64 where "PHYSTOP = KERNBASE + 128 * 1024 * 1024"
definition PGSIZE :: nat where "PGSIZE = 4096"

definition PGROUNDUP :: "u64 \<Rightarrow> u64" where
  "PGROUNDUP sz = (sz + of_nat PGSIZE - 1) AND NOT (of_nat PGSIZE - 1)"

definition PGROUNDDOWN :: "u64 \<Rightarrow> u64" where
  "PGROUNDDOWN a = a AND NOT (of_nat PGSIZE - 1)"

record kmemst = lightst +
  mem :: memory
  freelist :: u64
  kend :: u64

text \<open>Updates of different fields are kept in the order of the fields.\<close>

lemma kmemst_order [simp]:
  "hw_update f0 (mem_update g0 s) = mem_update g0 (hw_update f0 s)"
  "hw_update f1 (freelist_update g1 s) = freelist_update g1 (hw_update f1 s)"
  "hw_update f2 (kend_update g2 s) = kend_update g2 (hw_update f2 s)"
  "ticks_update f3 (mem_update g3 s) = mem_update g3 (ticks_update f3 s)"
  "ticks_update f4 (freelist_update g4 s) = freelist_update g4 (ticks_update f4 s)"
  "ticks_update f5 (kend_update g5 s) = kend_update g5 (ticks_update f5 s)"
  "rooms_update f6 (mem_update g6 s) = mem_update g6 (rooms_update f6 s)"
  "rooms_update f7 (freelist_update g7 s) = freelist_update g7 (rooms_update f7 s)"
  "rooms_update f8 (kend_update g8 s) = kend_update g8 (rooms_update f8 s)"
  "lighting_initialized_update f9 (mem_update g9 s) = mem_update g9 (lighting_initialized_update f9 s)"
  "lighting_initialized_update f10 (freelist_update g10 s) = freelist_update g10 (lighting_initialized_update f10 s)"
  "lighting_initialized_update f11 (kend_update g11 s) = kend_update g11 (lighting_initialized_update f11 s)"
  "roomenv_room_update f12 (mem_update g12 s) = mem_update g12 (roomenv_room_update f12 s)"
  "roomenv_room_update f13 (freelist_update g13 s) = freelist_update g13 (roomenv_room_update f13 s)"
  "roomenv_room_update f14 (kend_update g14 s) = kend_update g14 (roomenv_room_update f14 s)"
  "mem_update f15 (freelist_update g15 s) = freelist_update g15 (mem_update f15 s)"
  "mem_update f16 (kend_update g16 s) = kend_update g16 (mem_update f16 s)"
  "freelist_update f17 (kend_update g17 s) = kend_update g17 (freelist_update f17 s)"
  by (induct s; simp)+

definition kfree :: "u64 \<Rightarrow> 'z kmemst_scheme \<Rightarrow> (unit, 'z kmemst_scheme) res" where
  "kfree pa s =
     (if pa mod of_nat PGSIZE \<noteq> 0 \<or> pa < kend s \<or> pa \<ge> PHYSTOP then Panic ''kfree''
      else
        let s = s\<lparr>mem := memset (mem s) pa 1 PGSIZE\<rparr>;
            r = pa in
        bindr (acquire Lk_kmem s) (\<lambda>_ s.
        let s = s\<lparr>mem := st64 (mem s) r (freelist s)\<rparr>;
            s = s\<lparr>freelist := r\<rparr>
        in release Lk_kmem s))"

definition kalloc :: "'z kmemst_scheme \<Rightarrow> (u64, 'z kmemst_scheme) res" where
  "kalloc s =
     bindr (acquire Lk_kmem s) (\<lambda>_ s.
     let r = freelist s;
         s = (if r \<noteq> 0 then s\<lparr>freelist := ld64 (mem s) r\<rparr> else s) in
     bindr (release Lk_kmem s) (\<lambda>_ s.
     let s = (if r \<noteq> 0 then s\<lparr>mem := memset (mem s) r 5 PGSIZE\<rparr> else s)
     in Ret r s))"

text \<open>The loop of \<open>freerange\<close>; it ends because \<open>kfree\<close> rejects a page past \<open>PHYSTOP\<close>.\<close>

lemma kfree_below: "kfree pa s = Ret u t \<Longrightarrow> unat pa < unat PHYSTOP"
  by (simp add: kfree_def word_le_nat_alt split: if_splits)

function freerange_loop :: "u64 \<Rightarrow> u64 \<Rightarrow> 'z kmemst_scheme \<Rightarrow> (unit, 'z kmemst_scheme) res" where
  "freerange_loop p pa_end s =
     (if p + of_nat PGSIZE \<le> pa_end
      then bindr (kfree p s) (\<lambda>_ s. freerange_loop (p + of_nat PGSIZE) pa_end s)
      else Ret () s)"
  by pat_completeness auto
termination
proof (relation "measure (\<lambda>(p, _, _). unat PHYSTOP - unat p)")
  fix p pa_end u and s t :: "'z kmemst_scheme"
  assume "kfree p s = Ret u t"
  then have "unat p < unat PHYSTOP" by (rule kfree_below)
  moreover from this have "unat (p + of_nat PGSIZE) = unat p + PGSIZE"
    by (intro unat_add_of_nat) (simp add: PHYSTOP_def KERNBASE_def PGSIZE_def)
  ultimately show "((p + of_nat PGSIZE, pa_end, t), p, pa_end, s)
      \<in> measure (\<lambda>(p, _, _). unat PHYSTOP - unat p)"
    by (simp add: PGSIZE_def)
qed simp

declare freerange_loop.simps [simp del]

definition freerange :: "u64 \<Rightarrow> u64 \<Rightarrow> 'z kmemst_scheme \<Rightarrow> (unit, 'z kmemst_scheme) res" where
  "freerange pa_start pa_end s = freerange_loop (PGROUNDUP pa_start) pa_end s"

definition kinit :: "'z kmemst_scheme \<Rightarrow> (unit, 'z kmemst_scheme) res" where
  "kinit s = bindr (initlock Lk_kmem ''kmem'' s) (\<lambda>_ s. freerange (kend s) PHYSTOP s)"

section \<open>Pages\<close>

text \<open>A page the allocator may own, and that two of them never overlap.\<close>

definition page_ok :: "u64 \<Rightarrow> u64 \<Rightarrow> bool" where
  "page_ok e p \<longleftrightarrow> unat p mod PGSIZE = 0 \<and> e \<le> p \<and> p < PHYSTOP \<and> p \<noteq> 0"

lemma PGSIZE_pos [simp]: "0 < PGSIZE"
  by (simp add: PGSIZE_def)

lemma unat_PGSIZE: "unat (of_nat PGSIZE :: u64) = PGSIZE"
  by (simp add: PGSIZE_def)

lemma page_ok_bound: "page_ok e p \<Longrightarrow> unat p + PGSIZE < 2 ^ 64"
  by (simp add: page_ok_def PHYSTOP_def KERNBASE_def PGSIZE_def word_less_nat_alt)

lemma aligned_apart:
  assumes "unat p mod PGSIZE = 0" and "unat q mod PGSIZE = 0" and "p \<noteq> q"
  shows "apart p PGSIZE q PGSIZE"
proof -
  obtain i where i: "unat p = PGSIZE * i" using assms(1) by (auto elim: dvdE[OF mod_0_imp_dvd])
  obtain j where j: "unat q = PGSIZE * j" using assms(2) by (auto elim: dvdE[OF mod_0_imp_dvd])
  have "unat p \<noteq> unat q" using assms(3) by (simp add: word_unat_eq_iff)
  then have "i < j \<or> j < i" using i j by auto
  then have "PGSIZE * i + PGSIZE \<le> PGSIZE * j \<or> PGSIZE * j + PGSIZE \<le> PGSIZE * i"
    by (metis Suc_leI add.commute mult_Suc_right mult_le_mono2)
  then show ?thesis by (simp add: apart_def i j)
qed

lemma page_apart: "page_ok e p \<Longrightarrow> page_ok e q \<Longrightarrow> p \<noteq> q \<Longrightarrow> apart p PGSIZE q PGSIZE"
  by (simp add: page_ok_def aligned_apart)

lemma ld64_filled_other:
  assumes "page_ok e p" and "page_ok e q" and "p \<noteq> q"
  shows "ld64 (filled m p c PGSIZE) q = ld64 m q"
proof -
  have "apart p PGSIZE q 8"
    by (rule apart_sub[OF page_apart[OF assms]]) (simp_all add: PGSIZE_def)
  moreover have "unat q + 8 < 2 ^ 64" using page_ok_bound[OF assms(2)] by (simp add: PGSIZE_def)
  ultimately show ?thesis
    using page_ok_bound[OF assms(1)] by (simp add: ld64_def ld_filled_apart)
qed

lemma ld64_st64_other:
  assumes "page_ok e p" and "page_ok e q" and "p \<noteq> q"
  shows "ld64 (st64 m p v) q = ld64 m q"
proof -
  have "apart p 8 q 8"
    by (rule apart_sub[OF page_apart[OF assms]]) (simp_all add: PGSIZE_def)
  moreover have "unat p + 8 < 2 ^ 64" "unat q + 8 < 2 ^ 64"
    using page_ok_bound[OF assms(1)] page_ok_bound[OF assms(2)] by (simp_all add: PGSIZE_def)
  ultimately show ?thesis by (simp add: ld64_st64_apart)
qed

section \<open>The free list\<close>

text \<open>The list of pages linked from \<open>p\<close>, ended by a null link.\<close>

fun chain :: "memory \<Rightarrow> u64 \<Rightarrow> u64 list \<Rightarrow> bool" where
  "chain m p [] \<longleftrightarrow> p = 0"
| "chain m p (q # qs) \<longleftrightarrow> p = q \<and> q \<noteq> 0 \<and> chain m (ld64 m q) qs"

lemma chain_cong: "(\<And>q. q \<in> set qs \<Longrightarrow> ld64 m q = ld64 m' q) \<Longrightarrow> chain m p qs = chain m' p qs"
  by (induction qs arbitrary: p) auto

text \<open>The links determine the list: the abstraction is a function of the state.\<close>

lemma chain_unique: "chain m p qs \<Longrightarrow> chain m p rs \<Longrightarrow> qs = rs"
proof (induction qs arbitrary: p rs)
  case Nil
  then show ?case by (cases rs) auto
next
  case (Cons q qs)
  then show ?case by (cases rs) auto
qed

definition kmem_rep :: "u64 list \<Rightarrow> 'z kmemst_scheme \<Rightarrow> bool" where
  "kmem_rep ps s \<longleftrightarrow> chain (mem s) (freelist s) ps \<and> distinct ps \<and>
     (\<forall>p \<in> set ps. page_ok (kend s) p) \<and> cpu_ok (hw s) \<and> lk_free Lk_kmem (hw s)"

lemma kmem_repD:
  assumes "kmem_rep ps s"
  shows "chain (mem s) (freelist s) ps" "distinct ps" "\<And>p. p \<in> set ps \<Longrightarrow> page_ok (kend s) p"
    "cpu_ok (hw s)" "lk_free Lk_kmem (hw s)"
  using assms by (simp_all add: kmem_rep_def)

lemma memset_page: "memset m p c PGSIZE = filled m p (word_of_int c) PGSIZE"
  by (rule memset_eq) (simp add: PGSIZE_def)

lemma mod_page_iff: "(pa :: u64) mod of_nat PGSIZE = 0 \<longleftrightarrow> unat pa mod PGSIZE = 0"
  by (simp add: unat_eq_0[symmetric] unat_mod_distrib unat_PGSIZE del: unat_eq_0)

text \<open>\<open>kfree\<close> and \<open>kalloc\<close> push and pop the list; the page given out is filled with junk.\<close>

lemma kfree_ok:
  assumes "kmem_rep ps s" and "page_ok (kend s) pa"
  shows "kfree pa s = Ret () (s\<lparr>hw := settle (hw s), freelist := pa,
    mem := st64 (filled (mem s) pa 1 PGSIZE) pa (freelist s)\<rparr>)"
  using assms kmem_repD(4,5)[OF assms(1)]
  by (simp add: kfree_def page_ok_def mod_page_iff memset_page Let_def lock_simps
      linorder_not_less[symmetric])

lemma kfree_rep:
  assumes "kmem_rep ps s" and "page_ok (kend s) pa" and "pa \<notin> set ps"
  shows "kmem_rep (pa # ps) (s\<lparr>hw := settle (hw s), freelist := pa,
    mem := st64 (filled (mem s) pa 1 PGSIZE) pa (freelist s)\<rparr>)"
proof -
  let ?m = "st64 (filled (mem s) pa 1 PGSIZE) pa (freelist s)"
  have "ld64 ?m q = ld64 (mem s) q" if "q \<in> set ps" for q
  proof -
    have q: "page_ok (kend s) q" "pa \<noteq> q" using that assms kmem_repD(3)[OF assms(1)] by auto
    then show ?thesis
      using ld64_st64_other[OF assms(2) q] ld64_filled_other[OF assms(2) q] by simp
  qed
  then have "chain ?m (freelist s) ps"
    using kmem_repD(1)[OF assms(1)] chain_cong[of ps ?m "mem s"] by simp
  moreover have "pa \<noteq> 0" using assms(2) by (simp add: page_ok_def)
  ultimately show ?thesis using assms kmem_repD[OF assms(1)] by (simp add: kmem_rep_def)
qed

lemma kalloc_empty:
  assumes "kmem_rep [] s"
  shows "kalloc s = Ret 0 (s\<lparr>hw := settle (hw s)\<rparr>)"
  using kmem_repD[OF assms] by (simp add: kalloc_def Let_def lock_simps)

lemma kalloc_ok:
  assumes "kmem_rep (p # ps) s"
  shows "kalloc s = Ret p (s\<lparr>hw := settle (hw s), freelist := ld64 (mem s) p,
    mem := filled (mem s) p 5 PGSIZE\<rparr>)"
  using kmem_repD(1,4,5)[OF assms] by (simp add: kalloc_def Let_def lock_simps memset_page)

lemma kalloc_rep:
  assumes "kmem_rep (p # ps) s"
  shows "kmem_rep ps (s\<lparr>hw := settle (hw s), freelist := ld64 (mem s) p,
    mem := filled (mem s) p 5 PGSIZE\<rparr>)"
proof -
  have "ld64 (filled (mem s) p 5 PGSIZE) q = ld64 (mem s) q" if "q \<in> set ps" for q
    using that kmem_repD(2,3)[OF assms] by (intro ld64_filled_other[of "kend s"]) auto
  then have "chain (filled (mem s) p 5 PGSIZE) (ld64 (mem s) p) ps"
    using kmem_repD(1)[OF assms] chain_cong[of ps "filled (mem s) p 5 PGSIZE" "mem s"] by simp
  then show ?thesis using assms by (simp add: kmem_rep_def)
qed

section \<open>Initialisation\<close>

lemma and_not_mask_eq: "x AND NOT (mask n) = push_bit n (drop_bit n (x :: 'a :: len word))"
  by (rule bit_eqI) (auto simp: bit_simps)

lemma PG_mask: "of_nat PGSIZE - 1 = (mask 12 :: u64)"
  by (simp add: PGSIZE_def mask_eq_exp_minus_1)

lemma unat_round: "unat (a AND NOT (of_nat PGSIZE - 1) :: u64) = unat a div PGSIZE * PGSIZE"
proof -
  have "take_bit 64 (unat a) = unat a" by (rule take_bit_nat_eq_self[OF unat_u64])
  then have "unat (push_bit 12 (drop_bit 12 a)) = take_bit 64 (push_bit 12 (drop_bit 12 (unat a)))"
    by (simp add: unsigned_push_bit_eq unsigned_drop_bit_eq)
  also have "\<dots> = unat a div PGSIZE * PGSIZE"
  proof -
    have "unat a div PGSIZE * PGSIZE \<le> unat a" by (rule div_times_less_eq_dividend)
    also have "\<dots> < 2 ^ 64" by (rule unat_u64)
    finally show ?thesis
      by (simp add: take_bit_nat_eq_self push_bit_eq_mult drop_bit_eq_div PGSIZE_def)
  qed
  finally show ?thesis unfolding PG_mask and_not_mask_eq .
qed

lemma unat_PGROUNDDOWN: "unat (PGROUNDDOWN a) = unat a div PGSIZE * PGSIZE"
  by (simp add: PGROUNDDOWN_def unat_round)

lemma unat_PGROUNDUP:
  assumes "unat a + PGSIZE \<le> 2 ^ 64"
  shows "unat (PGROUNDUP a) = (unat a + (PGSIZE - 1)) div PGSIZE * PGSIZE"
proof -
  have "a + of_nat PGSIZE - 1 = a + of_nat (PGSIZE - 1)" by (simp add: of_nat_diff PGSIZE_def)
  moreover have "unat (a + of_nat (PGSIZE - 1)) = unat a + (PGSIZE - 1)"
    using assms by (intro unat_add_of_nat) (simp add: PGSIZE_def)
  ultimately show ?thesis by (simp only: PGROUNDUP_def unat_round)
qed

text \<open>The \<open>n\<close> pages from \<open>p\<close> on, in order of address.\<close>

fun page_seq :: "u64 \<Rightarrow> nat \<Rightarrow> u64 list" where
  "page_seq p 0 = []"
| "page_seq p (Suc n) = p # page_seq (p + of_nat PGSIZE) n"

lemma unat_next_page:
  fixes p :: u64
  assumes "unat p + n \<le> unat PHYSTOP"
  shows "unat (p + of_nat n) = unat p + n"
  using assms by (intro unat_add_of_nat) (simp add: PHYSTOP_def KERNBASE_def)

lemma freerange_loop_rep:
  assumes "unat p + n * PGSIZE = unat PHYSTOP" and "unat p mod PGSIZE = 0" and "kend s \<le> p"
    and "p \<noteq> 0" and "kmem_rep ps s" and "\<And>q. q \<in> set ps \<Longrightarrow> q < p"
  shows "\<exists>t. freerange_loop p PHYSTOP s = Ret () t \<and> kend t = kend s \<and>
    kmem_rep (rev (page_seq p n) @ ps) t"
  using assms
proof (induction n arbitrary: p ps s)
  case 0
  then have "p = PHYSTOP" by (simp add: word_unat_eq_iff)
  moreover have "\<not> PHYSTOP + of_nat PGSIZE \<le> PHYSTOP"
    by (simp add: PHYSTOP_def KERNBASE_def PGSIZE_def)
  ultimately show ?case using 0 by (subst freerange_loop.simps) simp
next
  case (Suc n)
  let ?p = "p + of_nat PGSIZE"
  let ?s = "s\<lparr>hw := settle (hw s), freelist := p,
    mem := st64 (filled (mem s) p 1 PGSIZE) p (freelist s)\<rparr>"
  have next_p: "unat ?p = unat p + PGSIZE"
    using Suc.prems(1) by (intro unat_next_page) simp
  have "unat p < unat PHYSTOP" using Suc.prems(1) PGSIZE_pos unfolding mult_Suc by linarith
  then have ok: "page_ok (kend s) p"
    using Suc.prems(2-4) by (simp add: page_ok_def word_less_nat_alt)
  have rep: "kmem_rep (p # ps) ?s"
    using Suc.prems by (intro kfree_rep[OF Suc.prems(5) ok]) auto
  have le: "?p \<le> PHYSTOP" and lt: "p < ?p"
    using Suc.prems(1) by (simp_all add: word_le_nat_alt word_less_nat_alt next_p)
  have "\<exists>t. freerange_loop ?p PHYSTOP ?s = Ret () t \<and> kend t = kend ?s \<and>
      kmem_rep (rev (page_seq ?p n) @ (p # ps)) t"
  proof (rule Suc.IH[OF _ _ _ _ rep])
    show "unat ?p + n * PGSIZE = unat PHYSTOP" using Suc.prems(1) by (simp add: next_p)
    show "unat ?p mod PGSIZE = 0" using Suc.prems(2) by (simp add: next_p)
    show "kend ?s \<le> ?p" using Suc.prems(3) lt by simp
    show "?p \<noteq> 0" using lt by auto
    show "q \<in> set (p # ps) \<Longrightarrow> q < ?p" for q using Suc.prems(6)[of q] lt by auto
  qed
  then show ?case
    using le kfree_ok[OF Suc.prems(5) ok] by (subst freerange_loop.simps) auto
qed

text \<open>Number and first address of the pages the kernel hands to the allocator.\<close>

definition first_page :: "u64 \<Rightarrow> u64" where
  "first_page e = PGROUNDUP e"

definition num_pages :: "u64 \<Rightarrow> nat" where
  "num_pages e = (unat PHYSTOP - unat (first_page e)) div PGSIZE"

lemma kinit_rep:
  assumes "0 < kend s" and "kend s \<le> PHYSTOP" and "freelist s = 0" and "cpu_ok (hw s)"
  shows "\<exists>t. kinit s = Ret () t \<and> kend t = kend s \<and>
    kmem_rep (rev (page_seq (first_page (kend s)) (num_pages (kend s)))) t"
proof -
  let ?e = "unat (kend s)" and ?p = "first_page (kend s)"
  let ?s = "s\<lparr>hw := fresh Lk_kmem ''kmem'' (hw s)\<rparr>"
  have e: "0 < ?e" "?e \<le> unat PHYSTOP"
    using assms(1,2) by (simp_all add: word_less_nat_alt word_le_nat_alt)
  have "unat PHYSTOP mod PGSIZE = 0" "unat PHYSTOP + PGSIZE \<le> 2 ^ 64"
    by (simp_all add: PHYSTOP_def KERNBASE_def PGSIZE_def)
  with e have p: "unat ?p = (?e + (PGSIZE - 1)) div PGSIZE * PGSIZE"
    unfolding first_page_def by (intro unat_PGROUNDUP) simp
  have up: "?e \<le> unat ?p" unfolding p by (simp add: PGSIZE_def)
  have "unat ?p \<le> unat PHYSTOP"
    unfolding p using e(2) by (simp add: PHYSTOP_def KERNBASE_def PGSIZE_def)
  moreover have al: "unat ?p mod PGSIZE = 0" unfolding p by simp
  ultimately have n: "unat ?p + num_pages (kend s) * PGSIZE = unat PHYSTOP"
    using \<open>unat PHYSTOP mod PGSIZE = 0\<close> by (simp add: num_pages_def mod_0_imp_dvd dvd_div_mult_self dvd_diff_nat)
  have rep: "kmem_rep [] ?s" using assms by (simp add: kmem_rep_def)
  have "\<exists>t. freerange_loop ?p PHYSTOP ?s = Ret () t \<and> kend t = kend ?s \<and>
      kmem_rep (rev (page_seq ?p (num_pages (kend s))) @ []) t"
    using up e by (intro freerange_loop_rep[OF n al _ _ rep]) (auto simp: word_le_nat_alt)
  then show ?thesis by (simp add: kinit_def freerange_def first_page_def lock_simps)
qed

section \<open>Clients\<close>

text \<open>
  The allocator and the pages its clients own. A client may write any byte of a page it owns
  and must only free a page it owns.
\<close>

inductive km_step ::
    "'z kmemst_scheme \<times> u64 set \<Rightarrow> 'z kmemst_scheme \<times> u64 set \<Rightarrow> bool" where
  km_alloc: "kalloc s = Ret p s' \<Longrightarrow> p \<noteq> 0 \<Longrightarrow> km_step (s, A) (s', insert p A)"
| km_full: "kalloc s = Ret 0 s' \<Longrightarrow> km_step (s, A) (s', A)"
| km_free: "p \<in> A \<Longrightarrow> kfree p s = Ret () s' \<Longrightarrow> km_step (s, A) (s', A - {p})"
| km_write: "p \<in> A \<Longrightarrow> k < PGSIZE \<Longrightarrow>
    km_step (s, A) (s\<lparr>mem := (mem s)(p + of_nat k := b)\<rparr>, A)"

definition km_boot :: "'z kmemst_scheme \<Rightarrow> bool" where
  "km_boot s \<longleftrightarrow> 0 < kend s \<and> kend s \<le> PHYSTOP \<and> freelist s = 0 \<and> cpu_ok (hw s)"

definition km_init :: "'z kmemst_scheme \<times> u64 set \<Rightarrow> bool" where
  "km_init = (\<lambda>(s, A). A = {} \<and> (\<exists>s0. km_boot s0 \<and> kinit s0 = Ret () s))"

definition all_pages :: "u64 \<Rightarrow> u64 set" where
  "all_pages e = set (page_seq (first_page e) (num_pages e))"

definition km_inv :: "'z kmemst_scheme \<times> u64 set \<Rightarrow> bool" where
  "km_inv = (\<lambda>(s, A). \<exists>ps. kmem_rep ps s \<and> set ps \<inter> A = {} \<and> set ps \<union> A = all_pages (kend s) \<and>
     (\<forall>p \<in> A. page_ok (kend s) p))"

lemma km_invI:
  "kmem_rep ps s \<Longrightarrow> set ps \<inter> A = {} \<Longrightarrow> set ps \<union> A = all_pages (kend s) \<Longrightarrow>
    (\<And>p. p \<in> A \<Longrightarrow> page_ok (kend s) p) \<Longrightarrow> km_inv (s, A)"
  by (auto simp: km_inv_def)

lemma km_invE:
  assumes "km_inv (s, A)"
  obtains ps where "kmem_rep ps s" "set ps \<inter> A = {}" "set ps \<union> A = all_pages (kend s)"
    "\<And>p. p \<in> A \<Longrightarrow> page_ok (kend s) p"
  using assms by (auto simp: km_inv_def)

lemma kalloc_cases:
  assumes "kmem_rep ps s" and "kalloc s = Ret p s'"
  obtains "p = 0" "ps = []" "s' = s\<lparr>hw := settle (hw s)\<rparr>"
  | qs where "ps = p # qs" "p \<noteq> 0" "kmem_rep qs s'" "kend s' = kend s"
      "mem s' = filled (mem s) p 5 PGSIZE"
proof (cases ps)
  case Nil
  then show ?thesis using assms kalloc_empty[of s] that(1) by simp
next
  case (Cons q qs)
  then have "p = q" "s' = s\<lparr>hw := settle (hw s), freelist := ld64 (mem s) q, mem := filled (mem s) q 5 PGSIZE\<rparr>"
    using assms kalloc_ok[of q qs s] by auto
  moreover have "q \<noteq> 0" using assms(1) Cons by (simp add: kmem_rep_def)
  ultimately show ?thesis using assms(1) kalloc_rep[of q qs s] that(2)[of qs] Cons by simp
qed

lemma km_inv_write:
  assumes "km_inv (s, A)" and "p \<in> A" and "k < PGSIZE"
  shows "km_inv (s\<lparr>mem := (mem s)(p + of_nat k := b)\<rparr>, A)"
proof -
  obtain ps where ps: "kmem_rep ps s" "set ps \<inter> A = {}" "set ps \<union> A = all_pages (kend s)"
    "\<And>p. p \<in> A \<Longrightarrow> page_ok (kend s) p" using km_invE[OF assms(1)] by blast
  have "ld64 ((mem s)(p + of_nat k := b)) q = ld64 (mem s) q" if "q \<in> set ps" for q
  proof -
    have pq: "page_ok (kend s) p" "page_ok (kend s) q" "p \<noteq> q"
      using that ps assms(2) kmem_repD(3)[OF ps(1)] by auto
    have "apart q 8 p PGSIZE"
      by (rule apart_sub[of q PGSIZE p PGSIZE])
        (use page_apart[OF pq] in \<open>simp_all add: PGSIZE_def apart_sym\<close>)
    moreover have "unat q + 8 < 2 ^ 64" using page_ok_bound[OF pq(2)] by (simp add: PGSIZE_def)
    ultimately have "\<not> unat (p + of_nat k - q) < 8"
      using assms(3) page_ok_bound[OF pq(1)] by (intro offset_apart)
    then have "q + of_nat j \<noteq> p + of_nat k" if "j < 8" for j
    proof -
      have "unat (of_nat j :: u64) = j" using that by (intro unat_of_nat_u64) simp
      moreover have "q + of_nat j = p + of_nat k \<Longrightarrow> of_nat j = p + of_nat k - q"
        by (simp add: algebra_simps)
      ultimately show ?thesis using that \<open>\<not> unat (p + of_nat k - q) < 8\<close> by metis
    qed
    then show ?thesis by (simp add: ld64_def cong: ld_cong)
  qed
  then have "kmem_rep ps (s\<lparr>mem := (mem s)(p + of_nat k := b)\<rparr>)"
    using ps(1) chain_cong[of ps "(mem s)(p + of_nat k := b)" "mem s" "freelist s"]
    by (simp add: kmem_rep_def)
  then show ?thesis using ps by (intro km_invI) auto
qed

lemma km_inv_alloc:
  assumes "km_inv (s, A)" and "kalloc s = Ret p s'"
  shows "km_inv (s', if p = 0 then A else insert p A)" and "p \<noteq> 0 \<Longrightarrow> p \<notin> A"
proof -
  obtain ps where ps: "kmem_rep ps s" "set ps \<inter> A = {}" "set ps \<union> A = all_pages (kend s)"
    "\<And>p. p \<in> A \<Longrightarrow> page_ok (kend s) p" using km_invE[OF assms(1)] by blast
  have "km_inv (s', if p = 0 then A else insert p A) \<and> (p \<noteq> 0 \<longrightarrow> p \<notin> A)"
    using ps(1) assms(2)
  proof (cases rule: kalloc_cases)
    case 1
    then have "kmem_rep ps s'" using ps(1) by (simp add: kmem_rep_def)
    with 1 ps show ?thesis by (auto intro!: km_invI[of ps])
  next
    case (2 qs)
    then have "page_ok (kend s) p" "p \<notin> set qs"
      using kmem_repD(2,3)[OF ps(1)] by auto
    with 2 ps show ?thesis by (auto intro!: km_invI[of qs])
  qed
  then show "km_inv (s', if p = 0 then A else insert p A)" and "p \<noteq> 0 \<Longrightarrow> p \<notin> A" by auto
qed

lemma km_inv_free:
  assumes "km_inv (s, A)" and "p \<in> A"
  shows "\<exists>s'. kfree p s = Ret () s' \<and> km_inv (s', A - {p})"
proof -
  obtain ps where ps: "kmem_rep ps s" "set ps \<inter> A = {}" "set ps \<union> A = all_pages (kend s)"
    "\<And>p. p \<in> A \<Longrightarrow> page_ok (kend s) p" using km_invE[OF assms(1)] by blast
  have "p \<notin> set ps" using ps(2) assms(2) by auto
  from kfree_rep[OF ps(1) ps(4)[OF assms(2)] this] kfree_ok[OF ps(1) ps(4)[OF assms(2)]] ps assms(2)
  show ?thesis by (auto intro!: km_invI[of "p # ps"])
qed

lemma km_step_inv: "km_step x y \<Longrightarrow> km_inv x \<Longrightarrow> km_inv y"
proof (induction rule: km_step.induct)
  case (km_alloc s p s' A)
  then show ?case using km_inv_alloc(1)[of s A p s'] by simp
next
  case (km_full s s' A)
  then show ?case using km_inv_alloc(1)[of s A 0 s'] by simp
next
  case (km_free p A s s')
  then show ?case using km_inv_free[of s A p] by auto
next
  case (km_write p A k s b)
  then show ?case by (simp add: km_inv_write)
qed

lemma km_init_inv: "km_init x \<Longrightarrow> km_inv x"
proof -
  assume "km_init x"
  then obtain s s0 where x: "x = (s, {})" and b: "km_boot s0" and k: "kinit s0 = Ret () s"
    by (auto simp: km_init_def)
  obtain t where "kinit s0 = Ret () t" "kend t = kend s0"
    "kmem_rep (rev (page_seq (first_page (kend s0)) (num_pages (kend s0)))) t"
    using kinit_rep[of s0] b by (auto simp: km_boot_def)
  with x k show ?thesis
    by (auto intro!: km_invI[of "rev (page_seq (first_page (kend s)) (num_pages (kend s)))"]
        simp: all_pages_def)
qed

interpretation km_sys: inv_system km_init km_step km_inv
  by unfold_locales (auto intro: km_init_inv km_step_inv)

section \<open>Properties\<close>

text \<open>
  C14: after \<open>kinit\<close>, and however its clients allocate, free and write their own pages, the
  allocator is sound: \<open>kalloc\<close> returns, it only ever hands out a page that no client owns,
  it leaves the contents of every owned page alone, and it reports that memory is exhausted
  only when every page from \<open>end\<close> to \<open>PHYSTOP\<close> is owned; freeing an owned page never
  panics.
\<close>

theorem kalloc_sound:
  assumes "reach km_init km_step (s, A)"
  shows "\<exists>p s'. kalloc s = Ret p s' \<and> (p \<noteq> 0 \<longrightarrow> p \<in> all_pages (kend s) - A) \<and>
      (p = 0 \<longrightarrow> A = all_pages (kend s)) \<and>
      (\<forall>q k. q \<in> A \<longrightarrow> k < PGSIZE \<longrightarrow> mem s' (q + of_nat k) = mem s (q + of_nat k)) \<and>
      (\<forall>q \<in> A. returns (kfree q s))"
proof -
  have inv: "km_inv (s, A)" using assms by (rule km_sys.reach_inv)
  then obtain ps where ps: "kmem_rep ps s" "set ps \<inter> A = {}" "set ps \<union> A = all_pages (kend s)"
    "\<And>p. p \<in> A \<Longrightarrow> page_ok (kend s) p" using km_invE by blast
  have free: "\<forall>q \<in> A. returns (kfree q s)"
    using km_inv_free[OF inv] by (fastforce simp: returns_def)
  show ?thesis
  proof (cases ps)
    case Nil
    with ps kalloc_empty[of s] free show ?thesis by auto
  next
    case (Cons p qs)
    have "mem' (q + of_nat k) = mem s (q + of_nat k)"
      if "q \<in> A" "k < PGSIZE" "mem' = filled (mem s) p 5 PGSIZE" for q k mem'
    proof -
      have pq: "page_ok (kend s) p" "page_ok (kend s) q" "p \<noteq> q"
        using ps Cons that(1) kmem_repD(3)[OF ps(1)] by auto
      have "\<not> unat (q + of_nat k - p) < PGSIZE"
        using that(2) page_ok_bound[OF pq(1)] page_ok_bound[OF pq(2)]
        by (intro offset_apart[OF page_apart[OF pq]])
      then show ?thesis by (simp add: that(3) filled_def)
    qed
    moreover have "p \<noteq> 0" using kmem_repD(1)[OF ps(1)] Cons by simp
    ultimately show ?thesis using ps Cons kalloc_ok[of p qs s] free by auto
  qed
qed

text \<open>A machine whose kernel image ends two pages below the end of memory.\<close>

definition kmem0 :: kmemst where
  "kmem0 = lightst.extend light0 (kmemst.fields (\<lambda>_. 0) 0 (PHYSTOP - 0x1800))"

lemma kmem0_boot: "km_boot kmem0"
  by (simp add: km_boot_def kmem0_def lightst.defs kmemst.defs light0_def PHYSTOP_def KERNBASE_def)

theorem kalloc_sound_witness:
  "\<exists>s1 s2 s3. kinit kmem0 = Ret () s1 \<and> kalloc s1 = Ret (PHYSTOP - 0x1000) s2 \<and>
    kalloc s2 = Ret 0 s3"
proof -
  have e: "kend kmem0 = PHYSTOP - 0x1800" by (simp add: kmem0_def lightst.defs kmemst.defs)
  have fp: "first_page (PHYSTOP - 0x1800) = PHYSTOP - 0x1000"
    by (simp add: first_page_def PGROUNDUP_def PHYSTOP_def KERNBASE_def PGSIZE_def)
  then have pages: "all_pages (PHYSTOP - 0x1800) = {PHYSTOP - 0x1000}"
    by (simp add: all_pages_def num_pages_def PHYSTOP_def KERNBASE_def PGSIZE_def)
  obtain s1 where s1: "kinit kmem0 = Ret () s1" "kend s1 = kend kmem0"
    using kinit_rep[of kmem0] kmem0_boot by (auto simp: km_boot_def)
  then have r1: "reach km_init km_step (s1, {})"
    using kmem0_boot by (auto simp: km_init_def intro!: reach_start)
  obtain p s2 where s2: "kalloc s1 = Ret p s2" "p \<noteq> 0 \<longrightarrow> p \<in> all_pages (kend s1) - {}"
      "p = 0 \<longrightarrow> {} = all_pages (kend s1)"
    using kalloc_sound[OF r1] by auto
  then have p: "p = PHYSTOP - 0x1000" "p \<noteq> 0"
    using pages s1(2) e by (auto simp: PHYSTOP_def KERNBASE_def)
  have r2: "reach km_init km_step (s2, {p})"
    using reach_step[OF r1 km_alloc[OF s2(1) p(2)]] .
  have "kend s2 = kend s1"
    using km_invE[OF km_sys.reach_inv[OF r1]] s2(1) p(2) by (metis kalloc_cases)
  then show ?thesis using kalloc_sound[OF r2] s1 s2(1) p pages e by auto
qed

end
