(* ===== verification/Proc.thy ===== *)
theory Proc
  imports Kalloc
begin

text \<open>
  Processes and their scheduling: the process table of \<open>kernel/proc.h\<close> and the routines of
  \<open>kernel/proc.c\<close> that only touch the table (process identifiers, sleep and wakeup, kill,
  the scheduler). A call of \<open>swtch\<close> ends the run of the calling thread: the outcome is
  \<open>Blocked s\<close> with the state at the switch, and what the thread does when it is switched
  to again is a definition of its own (\<open>sched_resume\<close>, \<open>sleep_resume\<close>,
  \<open>scheduler_resume\<close>).
\<close>

section \<open>State\<close>

definition NPROC :: nat where "NPROC = 64"
definition NOFILE :: nat where "NOFILE = 16"

definition MAXVA :: u64 where "MAXVA = push_bit (9 + 9 + 9 + 12 - 1) 1"
definition TRAMPOLINE :: u64 where "TRAMPOLINE = MAXVA - of_nat PGSIZE"
definition TRAPFRAME :: u64 where "TRAPFRAME = TRAMPOLINE - of_nat PGSIZE"

definition KSTACK :: "nat \<Rightarrow> u64" where
  "KSTACK p = TRAMPOLINE - (of_nat p + 1) * 2 * of_nat PGSIZE"

datatype procstate = UNUSED | USED | SLEEPING | RUNNABLE | RUNNING | ZOMBIE

text \<open>The addresses a thread may sleep on, named by the object that has the address.\<close>

datatype chan =
    Ch_ticks
  | Ch_proc nat
  | Ch_cons_r
  | Ch_tx_chan
  | Ch_nread u64
  | Ch_nwrite u64
  | Ch_log
  | Ch_sleeplock lockid
  | Ch_disk_free
  | Ch_buf nat

record kcontext =
  ctx_ra :: u64
  ctx_sp :: u64
  ctx_s :: "u64 list"

record proc =
  p_state :: procstate
  p_chan :: "chan option"
  p_killed :: int
  p_xstate :: int
  p_pid :: int
  p_parent :: "nat option"
  p_kstack :: u64
  p_sz :: u64
  p_pagetable :: u64
  p_trapframe :: u64
  p_context :: kcontext
  p_ofile :: "nat option list"
  p_cwd :: "nat option"
  p_name :: bytes

record procst = kmemst +
  procs :: "proc list"
  initproc :: "nat option"
  nextpid :: int

text \<open>Updates of different fields are kept in the order of the fields.\<close>

lemma procst_order [simp]:
  "hw_update f0 (procs_update g0 s) = procs_update g0 (hw_update f0 s)"
  "hw_update f1 (initproc_update g1 s) = initproc_update g1 (hw_update f1 s)"
  "hw_update f2 (nextpid_update g2 s) = nextpid_update g2 (hw_update f2 s)"
  "ticks_update f3 (procs_update g3 s) = procs_update g3 (ticks_update f3 s)"
  "ticks_update f4 (initproc_update g4 s) = initproc_update g4 (ticks_update f4 s)"
  "ticks_update f5 (nextpid_update g5 s) = nextpid_update g5 (ticks_update f5 s)"
  "rooms_update f6 (procs_update g6 s) = procs_update g6 (rooms_update f6 s)"
  "rooms_update f7 (initproc_update g7 s) = initproc_update g7 (rooms_update f7 s)"
  "rooms_update f8 (nextpid_update g8 s) = nextpid_update g8 (rooms_update f8 s)"
  "lighting_initialized_update f9 (procs_update g9 s) = procs_update g9 (lighting_initialized_update f9 s)"
  "lighting_initialized_update f10 (initproc_update g10 s) = initproc_update g10 (lighting_initialized_update f10 s)"
  "lighting_initialized_update f11 (nextpid_update g11 s) = nextpid_update g11 (lighting_initialized_update f11 s)"
  "roomenv_room_update f12 (procs_update g12 s) = procs_update g12 (roomenv_room_update f12 s)"
  "roomenv_room_update f13 (initproc_update g13 s) = initproc_update g13 (roomenv_room_update f13 s)"
  "roomenv_room_update f14 (nextpid_update g14 s) = nextpid_update g14 (roomenv_room_update f14 s)"
  "mem_update f15 (procs_update g15 s) = procs_update g15 (mem_update f15 s)"
  "mem_update f16 (initproc_update g16 s) = initproc_update g16 (mem_update f16 s)"
  "mem_update f17 (nextpid_update g17 s) = nextpid_update g17 (mem_update f17 s)"
  "freelist_update f18 (procs_update g18 s) = procs_update g18 (freelist_update f18 s)"
  "freelist_update f19 (initproc_update g19 s) = initproc_update g19 (freelist_update f19 s)"
  "freelist_update f20 (nextpid_update g20 s) = nextpid_update g20 (freelist_update f20 s)"
  "kend_update f21 (procs_update g21 s) = procs_update g21 (kend_update f21 s)"
  "kend_update f22 (initproc_update g22 s) = initproc_update g22 (kend_update f22 s)"
  "kend_update f23 (nextpid_update g23 s) = nextpid_update g23 (kend_update f23 s)"
  "procs_update f24 (initproc_update g24 s) = initproc_update g24 (procs_update f24 s)"
  "procs_update f25 (nextpid_update g25 s) = nextpid_update g25 (procs_update f25 s)"
  "initproc_update f26 (nextpid_update g26 s) = nextpid_update g26 (initproc_update f26 s)"
  by (induct s; simp)+

definition upd_proc :: "nat \<Rightarrow> (proc \<Rightarrow> proc) \<Rightarrow> 'z procst_scheme \<Rightarrow> 'z procst_scheme" where
  "upd_proc i f s = s\<lparr>procs := (procs s)[i := f (procs s ! i)]\<rparr>"

section \<open>The routines of proc.c on the process table\<close>

definition procinit :: "'z procst_scheme \<Rightarrow> (unit, 'z procst_scheme) res" where
  "procinit s =
     bindr (initlock Lk_pid ''nextpid'' s) (\<lambda>_ s.
     bindr (initlock Lk_wait ''wait_lock'' s) (\<lambda>_ s.
     for_upto 0 NPROC (\<lambda>i s.
       bindr (initlock (Lk_proc i) ''proc'' s) (\<lambda>_ s.
       Ret () (upd_proc i (\<lambda>p. p\<lparr>p_state := UNUSED, p_kstack := KSTACK i\<rparr>) s))) s))"

definition myproc :: "'z kst_scheme \<Rightarrow> (nat option, 'z kst_scheme) res" where
  "myproc s =
     bindr (push_off s) (\<lambda>_ s.
     let p = cpu_proc (mycpu (hw s)) in
     bindr (pop_off s) (\<lambda>_ s. Ret p s))"

text \<open>The current process of code that runs in one; a null pointer is not followed.\<close>

definition curproc :: "'z kst_scheme \<Rightarrow> (nat, 'z kst_scheme) res" where
  "curproc s = bindr (myproc s) (\<lambda>p s.
     case p of None \<Rightarrow> Panic ''null dereference'' | Some i \<Rightarrow> Ret i s)"

definition allocpid :: "'z procst_scheme \<Rightarrow> (int, 'z procst_scheme) res" where
  "allocpid s =
     bindr (acquire Lk_pid s) (\<lambda>_ s.
     let pid = nextpid s;
         s = s\<lparr>nextpid := nextpid s + 1\<rparr> in
     bindr (release Lk_pid s) (\<lambda>_ s. Ret pid s))"

definition sched :: "'z procst_scheme \<Rightarrow> (unit, 'z procst_scheme) res" where
  "sched s =
     bindr (curproc s) (\<lambda>p s.
     if \<not> holding (Lk_proc p) s then Panic ''sched p->lock''
     else if noff (mycpu (hw s)) \<noteq> 1 then Panic ''sched locks''
     else if p_state (procs s ! p) = RUNNING then Panic ''sched RUNNING''
     else if intr_get (hw s) then Panic ''sched interruptible''
     else Blocked s)"

text \<open>\<open>intena\<close> is the value the thread saved before the switch.\<close>

definition sched_resume :: "bool \<Rightarrow> 'z procst_scheme \<Rightarrow> (unit, 'z procst_scheme) res" where
  "sched_resume saved s = Ret () (s\<lparr>hw := set_mycpu ((mycpu (hw s))\<lparr>intena := saved\<rparr>) (hw s)\<rparr>)"

definition yield :: "'z procst_scheme \<Rightarrow> (unit, 'z procst_scheme) res" where
  "yield s =
     bindr (curproc s) (\<lambda>p s.
     bindr (acquire (Lk_proc p) s) (\<lambda>_ s.
     bindr (sched (upd_proc p (\<lambda>q. q\<lparr>p_state := RUNNABLE\<rparr>) s)) (\<lambda>_ s.
     release (Lk_proc p) s)))"

definition yield_resume :: "nat \<Rightarrow> bool \<Rightarrow> 'z procst_scheme \<Rightarrow> (unit, 'z procst_scheme) res" where
  "yield_resume p saved s = bindr (sched_resume saved s) (\<lambda>_ s. release (Lk_proc p) s)"

text \<open>The end of \<open>sleep\<close>, after the call of \<open>sched\<close>.\<close>

definition sleep_finish :: "nat \<Rightarrow> lockid \<Rightarrow> 'z procst_scheme \<Rightarrow> (unit, 'z procst_scheme) res" where
  "sleep_finish p lk s =
     (let s = upd_proc p (\<lambda>q. q\<lparr>p_chan := None\<rparr>) s in
      bindr (release (Lk_proc p) s) (\<lambda>_ s.
      acquire lk s))"

definition sleep_on :: "chan \<Rightarrow> lockid \<Rightarrow> 'z procst_scheme \<Rightarrow> (unit, 'z procst_scheme) res" where
  "sleep_on ch lk s =
     bindr (curproc s) (\<lambda>p s.
     bindr (acquire (Lk_proc p) s) (\<lambda>_ s.
     bindr (release lk s) (\<lambda>_ s.
     bindr (sched (upd_proc p (\<lambda>q. q\<lparr>p_chan := Some ch, p_state := SLEEPING\<rparr>) s)) (\<lambda>_ s.
     sleep_finish p lk s))))"

definition sleep_resume :: "nat \<Rightarrow> bool \<Rightarrow> lockid \<Rightarrow> 'z procst_scheme \<Rightarrow> (unit, 'z procst_scheme) res" where
  "sleep_resume p saved lk s = bindr (sched_resume saved s) (\<lambda>_ s. sleep_finish p lk s)"

definition wakeup :: "chan option \<Rightarrow> 'z procst_scheme \<Rightarrow> (unit, 'z procst_scheme) res" where
  "wakeup ch s =
     for_upto 0 NPROC (\<lambda>i s.
       bindr (myproc s) (\<lambda>me s.
       if Some i \<noteq> me then
         bindr (acquire (Lk_proc i) s) (\<lambda>_ s.
         let s = (if p_state (procs s ! i) = SLEEPING \<and> p_chan (procs s ! i) = ch
                  then upd_proc i (\<lambda>p. p\<lparr>p_state := RUNNABLE\<rparr>) s else s)
         in release (Lk_proc i) s)
       else Ret () s)) s"

fun kkill_loop :: "int \<Rightarrow> nat \<Rightarrow> nat \<Rightarrow> 'z procst_scheme \<Rightarrow> (int, 'z procst_scheme) res" where
  "kkill_loop pid i 0 s = Ret (-1) s"
| "kkill_loop pid i (Suc n) s =
     bindr (acquire (Lk_proc i) s) (\<lambda>_ s.
     if p_pid (procs s ! i) = pid then
       let s = upd_proc i (\<lambda>p. p\<lparr>p_killed := 1\<rparr>) s;
           s = (if p_state (procs s ! i) = SLEEPING
                then upd_proc i (\<lambda>p. p\<lparr>p_state := RUNNABLE\<rparr>) s else s) in
       bindr (release (Lk_proc i) s) (\<lambda>_ s. Ret 0 s)
     else
       bindr (release (Lk_proc i) s) (\<lambda>_ s. kkill_loop pid (Suc i) n s))"

definition kkill :: "int \<Rightarrow> 'z procst_scheme \<Rightarrow> (int, 'z procst_scheme) res" where
  "kkill pid s = kkill_loop pid 0 NPROC s"

definition setkilled :: "nat \<Rightarrow> 'z procst_scheme \<Rightarrow> (unit, 'z procst_scheme) res" where
  "setkilled p s =
     bindr (acquire (Lk_proc p) s) (\<lambda>_ s.
     release (Lk_proc p) (upd_proc p (\<lambda>q. q\<lparr>p_killed := 1\<rparr>) s))"

definition killed :: "nat \<Rightarrow> 'z procst_scheme \<Rightarrow> (int, 'z procst_scheme) res" where
  "killed p s =
     bindr (acquire (Lk_proc p) s) (\<lambda>_ s.
     let k = p_killed (procs s ! p) in
     bindr (release (Lk_proc p) s) (\<lambda>_ s. Ret k s))"

text \<open>The comparison of two process pointers is that of table indices.\<close>

definition reparent :: "nat \<Rightarrow> 'z procst_scheme \<Rightarrow> (unit, 'z procst_scheme) res" where
  "reparent p s =
     for_upto 0 NPROC (\<lambda>i s.
       if p_parent (procs s ! i) = Some p then
         let s = upd_proc i (\<lambda>q. q\<lparr>p_parent := initproc s\<rparr>) s
         in wakeup (map_option Ch_proc (initproc s)) s
       else Ret () s) s"

text \<open>
  One visit of the scheduler to a table entry: it switches to a runnable process, with the
  lock of the process held, or moves on; and what it does when the process switches back.
\<close>

definition with_proc :: "nat option \<Rightarrow> machine \<Rightarrow> machine" where
  "with_proc p h = set_mycpu ((mycpu h)\<lparr>cpu_proc := p\<rparr>) h"

definition scheduler_visit :: "nat \<Rightarrow> 'z procst_scheme \<Rightarrow> (unit, 'z procst_scheme) res" where
  "scheduler_visit p s =
     bindr (acquire (Lk_proc p) s) (\<lambda>_ s.
     if p_state (procs s ! p) = RUNNABLE
     then let s = upd_proc p (\<lambda>q. q\<lparr>p_state := RUNNING\<rparr>) s
          in Blocked (s\<lparr>hw := with_proc (Some p) (hw s)\<rparr>)
     else release (Lk_proc p) s)"

definition scheduler_resume :: "nat \<Rightarrow> 'z procst_scheme \<Rightarrow> (unit, 'z procst_scheme) res" where
  "scheduler_resume p s = release (Lk_proc p) (s\<lparr>hw := with_proc None (hw s)\<rparr>)"

text \<open>
  One round of the scheduler's outer loop from entry \<open>p\<close> on. It ends when a process is
  switched to, or, with no runnable process, at the instruction \<open>wfi\<close>.
\<close>

definition scheduler_round :: "nat \<Rightarrow> 'z procst_scheme \<Rightarrow> (unit, 'z procst_scheme) res" where
  "scheduler_round p s = for_upto p (NPROC - p) scheduler_visit s"

definition scheduler_start :: "'z procst_scheme \<Rightarrow> (unit, 'z procst_scheme) res" where
  "scheduler_start s =
     (let s = s\<lparr>hw := intr_off (intr_on (hw s))\<rparr> in scheduler_round 0 s)"

section \<open>Effect of the routines\<close>

named_theorems proc_simps \<open>effect of the routines on states whose locks are known\<close>

lemma push_off_hw_proc [simp]: "cpu_proc (mycpu (push_off_hw h)) = cpu_proc (mycpu h)"
  by (simp add: hw_defs)

lemma myproc_ok [proc_simps]:
  "cpu_ok (hw s) \<Longrightarrow> myproc s = Ret (cpu_proc (mycpu (hw s))) (s\<lparr>hw := settle (hw s)\<rparr>)"
  by (simp add: myproc_def push_off_def Let_def lock_simps)

lemma curproc_ok [proc_simps]:
  "cpu_ok (hw s) \<Longrightarrow> cpu_proc (mycpu (hw s)) = Some p \<Longrightarrow>
    curproc s = Ret p (s\<lparr>hw := settle (hw s)\<rparr>)"
  by (simp add: curproc_def myproc_ok)

lemma upd_proc_frame [simp]:
  "hw (upd_proc i f s) = hw s" "length (procs (upd_proc i f s)) = length (procs s)"
  "ticks (upd_proc i f s) = ticks s" "rooms (upd_proc i f s) = rooms s"
  "lighting_initialized (upd_proc i f s) = lighting_initialized s"
  "mem (upd_proc i f s) = mem s" "freelist (upd_proc i f s) = freelist s"
  "kend (upd_proc i f s) = kend s" "initproc (upd_proc i f s) = initproc s"
  "nextpid (upd_proc i f s) = nextpid s"
  by (simp_all add: upd_proc_def)

text \<open>The locks of all processes but the one of this hart are free.\<close>

definition others_free :: "'z kst_scheme \<Rightarrow> bool" where
  "others_free s \<longleftrightarrow> cpu_ok (hw s) \<and>
     (\<forall>i < NPROC. cpu_proc (mycpu (hw s)) \<noteq> Some i \<longrightarrow> lk_free (Lk_proc i) (hw s))"

lemma others_free_hw:
  assumes "others_free s"
  shows "others_free (s\<lparr>hw := settle (hw s)\<rparr>)"
    "others_free (s\<lparr>hw := settle (hw s), procs := ps\<rparr>)"
  using assms by (simp_all add: others_free_def)

text \<open>A loop over the table whose body changes one entry, under its lock, at a time.\<close>

lemma proc_loop:
  assumes "length (procs s) = NPROC"
    and "\<And>i t. i < NPROC \<Longrightarrow> t = s\<lparr>hw := hw t, procs := procs t\<rparr> \<Longrightarrow> hw t \<in> {hw s, settle (hw s)} \<Longrightarrow>
      length (procs t) = NPROC \<Longrightarrow>
      body i t = Ret () (t\<lparr>hw := settle (hw t), procs := (procs t)[i := g i (procs t ! i)]\<rparr>)"
  shows "for_upto 0 NPROC body s = Ret () (s\<lparr>hw := settle (hw s),
    procs := map (\<lambda>i. g i (procs s ! i)) [0..<NPROC]\<rparr>)"
proof -
  define st where "st k = s\<lparr>hw := if k = 0 then hw s else settle (hw s),
    procs := map (\<lambda>i. g i (procs s ! i)) [0..<k] @ drop k (procs s)\<rparr>" for k
  have "\<exists>t. for_upto 0 NPROC body s = Ret () t \<and> t = st (0 + NPROC)"
  proof (rule for_upto_rule[where I = "\<lambda>k t. t = st k"])
    show "s = st 0" by (simp add: st_def)
    fix i t assume i: "i < 0 + NPROC" and t: "t = st i"
    then have drop: "drop i (procs s) = procs s ! i # drop (Suc i) (procs s)"
      using assms(1) by (simp add: Cons_nth_drop_Suc)
    have "body i t = Ret () (t\<lparr>hw := settle (hw t), procs := (procs t)[i := g i (procs t ! i)]\<rparr>)"
      using i t assms(1) by (intro assms(2)) (auto simp: st_def)
    moreover have "t\<lparr>hw := settle (hw t), procs := (procs t)[i := g i (procs t ! i)]\<rparr> = st (Suc i)"
      by (simp add: t st_def drop nth_append list_update_append)
    ultimately show "\<exists>t'. body i t = Ret () t' \<and> t' = st (Suc i)" by simp
  qed
  then show ?thesis using assms(1) by (simp add: st_def NPROC_def del: upt_rec_numeral)
qed

definition wake :: "chan option \<Rightarrow> nat option \<Rightarrow> proc list \<Rightarrow> proc list" where
  "wake ch me ps = map (\<lambda>i. let p = ps ! i in
     if me \<noteq> Some i \<and> p_state p = SLEEPING \<and> p_chan p = ch then p\<lparr>p_state := RUNNABLE\<rparr> else p)
     [0..<NPROC]"

lemma length_wake [simp]: "length (wake ch me ps) = NPROC"
  by (simp add: wake_def)

lemma wake_nth: "i < NPROC \<Longrightarrow> wake ch me ps ! i =
    (if me \<noteq> Some i \<and> p_state (ps ! i) = SLEEPING \<and> p_chan (ps ! i) = ch
     then (ps ! i)\<lparr>p_state := RUNNABLE\<rparr> else ps ! i)"
  by (simp add: wake_def Let_def)

lemma wakeup_ok [proc_simps]:
  assumes "others_free s" and "length (procs s) = NPROC"
  shows "wakeup ch s = Ret () (s\<lparr>hw := settle (hw s),
    procs := wake ch (cpu_proc (mycpu (hw s))) (procs s)\<rparr>)"
  unfolding wakeup_def wake_def
proof (rule proc_loop[OF assms(2)])
  fix i and t :: "'a procst_scheme"
  assume i: "i < NPROC" and h: "hw t \<in> {hw s, settle (hw s)}" and l: "length (procs t) = NPROC"
  have ok: "cpu_ok (hw t)" and me: "cpu_proc (mycpu (hw t)) = cpu_proc (mycpu (hw s))"
    and free: "cpu_proc (mycpu (hw s)) \<noteq> Some i \<Longrightarrow> lk_free (Lk_proc i) (hw t)"
    using h assms(1) i by (auto simp: others_free_def)
  show "bindr (myproc t) (\<lambda>me s. if Some i \<noteq> me then
         bindr (acquire (Lk_proc i) s) (\<lambda>_ s.
         let s = (if p_state (procs s ! i) = SLEEPING \<and> p_chan (procs s ! i) = ch
                  then upd_proc i (\<lambda>p. p\<lparr>p_state := RUNNABLE\<rparr>) s else s)
         in release (Lk_proc i) s) else Ret () s) =
    Ret () (t\<lparr>hw := settle (hw t), procs := (procs t)[i := let p = procs t ! i in
     if cpu_proc (mycpu (hw s)) \<noteq> Some i \<and> p_state p = SLEEPING \<and> p_chan p = ch
     then p\<lparr>p_state := RUNNABLE\<rparr> else p]\<rparr>)"
    using ok me free i l by (auto simp: myproc_ok Let_def lock_simps upd_proc_def)
qed

lemma killed_ok [proc_simps]:
  "cpu_ok (hw s) \<Longrightarrow> lk_free (Lk_proc p) (hw s) \<Longrightarrow>
    killed p s = Ret (p_killed (procs s ! p)) (s\<lparr>hw := settle (hw s)\<rparr>)"
  by (simp add: killed_def Let_def lock_simps)

lemma setkilled_ok [proc_simps]:
  "cpu_ok (hw s) \<Longrightarrow> lk_free (Lk_proc p) (hw s) \<Longrightarrow>
    setkilled p s = Ret () (upd_proc p (\<lambda>q. q\<lparr>p_killed := 1\<rparr>) (s\<lparr>hw := settle (hw s)\<rparr>))"
  by (simp add: setkilled_def lock_simps upd_proc_def)

lemma allocpid_ok [proc_simps]:
  "cpu_ok (hw s) \<Longrightarrow> lk_free Lk_pid (hw s) \<Longrightarrow>
    allocpid s = Ret (nextpid s) (s\<lparr>hw := settle (hw s), nextpid := nextpid s + 1\<rparr>)"
  by (simp add: allocpid_def Let_def lock_simps)

text \<open>What \<open>kkill\<close> does to its victim.\<close>

definition kill_mark :: "proc \<Rightarrow> proc" where
  "kill_mark p = p\<lparr>p_killed := 1,
     p_state := if p_state p = SLEEPING then RUNNABLE else p_state p\<rparr>"

lemma kkill_loop_ok:
  assumes "cpu_ok (hw s)" and "\<And>j. i \<le> j \<Longrightarrow> j < i + n \<Longrightarrow> lk_free (Lk_proc j) (hw s)"
    and "i + n \<le> length (procs s)" and "0 < n"
  shows "kkill_loop pid i n s =
    (case first_idx (\<lambda>j. p_pid (procs s ! j) = pid) i n of
       None \<Rightarrow> Ret (-1) (s\<lparr>hw := settle (hw s)\<rparr>)
     | Some j \<Rightarrow> Ret 0 (s\<lparr>hw := settle (hw s), procs := (procs s)[j := kill_mark (procs s ! j)]\<rparr>))"
  using assms
proof (induction n arbitrary: i s)
  case 0
  then show ?case by simp
next
  case (Suc n)
  have free: "lk_free (Lk_proc i) (hw s)" using Suc.prems(2)[of i] by simp
  show ?case
  proof (cases "p_pid (procs s ! i) = pid")
    case True
    have "procs s ! i = (procs s ! i)\<lparr>p_state := p_state (procs s ! i)\<rparr>" by simp
    with True Suc.prems(1,3) free show ?thesis
      by (auto simp: lock_simps Let_def upd_proc_def kill_mark_def)
  next
    case False
    show ?thesis
    proof (cases "n = 0")
      case True
      with False Suc.prems free show ?thesis by (simp add: lock_simps)
    next
      case nz: False
      have "kkill_loop pid (Suc i) n (s\<lparr>hw := settle (hw s)\<rparr>) =
        (case first_idx (\<lambda>j. p_pid (procs s ! j) = pid) (Suc i) n of
           None \<Rightarrow> Ret (-1) (s\<lparr>hw := settle (hw s)\<rparr>)
         | Some j \<Rightarrow> Ret 0 (s\<lparr>hw := settle (hw s), procs := (procs s)[j := kill_mark (procs s ! j)]\<rparr>))"
        using Suc.IH[of "s\<lparr>hw := settle (hw s)\<rparr>" "Suc i"] Suc.prems nz
        by (simp split: option.splits)
      with False Suc.prems free show ?thesis by (simp add: lock_simps)
    qed
  qed
qed

definition all_free :: "'z kst_scheme \<Rightarrow> bool" where
  "all_free s \<longleftrightarrow> cpu_ok (hw s) \<and> (\<forall>i < NPROC. lk_free (Lk_proc i) (hw s))"

lemma kkill_ok:
  assumes "all_free s" and "length (procs s) = NPROC"
  shows "kkill pid s =
    (case first_idx (\<lambda>j. p_pid (procs s ! j) = pid) 0 NPROC of
       None \<Rightarrow> Ret (-1) (s\<lparr>hw := settle (hw s)\<rparr>)
     | Some j \<Rightarrow> Ret 0 (s\<lparr>hw := settle (hw s), procs := (procs s)[j := kill_mark (procs s ! j)]\<rparr>))"
  unfolding kkill_def using assms by (intro kkill_loop_ok) (auto simp: all_free_def NPROC_def)

section \<open>Switching\<close>

lemma with_proc_frame [simp]:
  "tp (with_proc q h) = tp h" "locks (with_proc q h) = locks h" "sie (with_proc q h) = sie h"
  "intr_get (with_proc q h) = intr_get h" "noff (mycpu (with_proc q h)) = noff (mycpu h)"
  "intena (mycpu (with_proc q h)) = intena (mycpu h)"
  "cpu_proc (mycpu (with_proc q h)) = q" "cpu_ok (with_proc q h) = cpu_ok h"
  "lk_free l (with_proc q h) = lk_free l h" "held l (with_proc q h) = held l h"
  "with_proc q (with_proc r h) = with_proc q h"
  by (simp_all add: with_proc_def hw_defs cpu_ok_def lk_free_def held_def holding_hw_def)

lemma with_proc_same: "cpu_proc (mycpu h) = q \<Longrightarrow> with_proc q h = h"
  by (auto intro!: machine_split simp: with_proc_def hw_defs fun_upd_idem_iff)

lemma with_proc_ops:
  "with_proc q (enter l h) = enter l (with_proc q h)"
  "with_proc q (settle h) = settle (with_proc q h)"
  by (auto intro!: machine_split simp: with_proc_def enter_def settle_def hw_defs fun_upd_idem_iff)

text \<open>A thread that holds one spinlock and nothing else, as the callers of \<open>sleep\<close> do.\<close>

definition sole_lock :: "lockid \<Rightarrow> nat \<Rightarrow> machine \<Rightarrow> machine \<Rightarrow> bool" where
  "sole_lock lk p h0 h \<longleftrightarrow> h = enter lk h0 \<and> cpu_ok h0 \<and> noff (mycpu h0) = 0 \<and>
     cpu_proc (mycpu h0) = Some p \<and> p < NPROC \<and> lk_free lk h0 \<and> (\<forall>i. lk \<noteq> Lk_proc i) \<and>
     (\<forall>i < NPROC. lk_free (Lk_proc i) h0)"

lemma sched_ok:
  assumes "cpu_ok h0" and "noff (mycpu h0) = 0" and "cpu_proc (mycpu h0) = Some p"
    and "hw s = enter (Lk_proc p) h0" and "p_state (procs s ! p) \<noteq> RUNNING"
  shows "sched s = Blocked s"
proof -
  have ok: "cpu_ok (hw s)" "cpu_proc (mycpu (hw s)) = Some p" "settle (hw s) = hw s"
    using assms by (simp_all add: lock_simps)
  have "held (Lk_proc p) (hw s)" using assms by (simp add: lock_simps)
  then show ?thesis
    using ok assms by (simp add: sched_def curproc_ok holding_def held_def)
qed

lemma sleep_on_ok:
  assumes "sole_lock lk p h0 (hw s)" and "length (procs s) = NPROC"
  shows "sleep_on ch lk s = Blocked (s\<lparr>hw := enter (Lk_proc p) h0,
    procs := (procs s)[p := (procs s ! p)\<lparr>p_chan := Some ch, p_state := SLEEPING\<rparr>]\<rparr>)"
proof -
  have h: "hw s = enter lk h0" "cpu_ok h0" "noff (mycpu h0) = 0" "cpu_proc (mycpu h0) = Some p"
      "p < NPROC" "lk_free lk h0" "lk \<noteq> Lk_proc p" "lk_free (Lk_proc p) h0"
    using assms(1) by (simp_all add: sole_lock_def)
  have ok: "cpu_ok (hw s)" "cpu_proc (mycpu (hw s)) = Some p" "settle (hw s) = hw s"
      "lk_free (Lk_proc p) (hw s)"
    using h by (simp_all add: lock_simps)
  have "held lk (enter (Lk_proc p) (hw s))" using h by (simp add: lock_simps)
  moreover have "leave lk (enter (Lk_proc p) (hw s)) = enter (Lk_proc p) h0"
    using h by (simp add: lock_simps)
  ultimately show ?thesis
    using ok h assms(2)
      sched_ok[OF h(2,3,4), of "upd_proc p (\<lambda>q. q\<lparr>p_chan := Some ch, p_state := SLEEPING\<rparr>)
        (s\<lparr>hw := enter (Lk_proc p) h0\<rparr>)"]
    by (simp add: sleep_on_def curproc_ok lock_simps) (simp add: upd_proc_def)
qed

text \<open>The switch back to the scheduler, and its later switch to a runnable process.\<close>

lemma scheduler_resume_ok:
  assumes "hw s = enter (Lk_proc p) h0" and "cpu_ok h0" and "lk_free (Lk_proc p) h0"
  shows "scheduler_resume p s = Ret () (s\<lparr>hw := settle (with_proc None h0)\<rparr>)"
  using assms by (simp add: scheduler_resume_def with_proc_ops lock_simps)

lemma scheduler_visit_ok:
  assumes "cpu_ok (hw s)" and "lk_free (Lk_proc p) (hw s)"
  shows "scheduler_visit p s =
    (if p_state (procs s ! p) = RUNNABLE
     then Blocked (s\<lparr>hw := enter (Lk_proc p) (with_proc (Some p) (hw s)),
            procs := (procs s)[p := (procs s ! p)\<lparr>p_state := RUNNING\<rparr>]\<rparr>)
     else Ret () (s\<lparr>hw := settle (hw s)\<rparr>))"
  using assms
  by (simp add: scheduler_visit_def lock_simps with_proc_ops upd_proc_def Let_def)

text \<open>The interrupt state a resumed thread gets back is the one it saved.\<close>

definition restored :: "bool \<Rightarrow> machine \<Rightarrow> machine" where
  "restored v h = (let h = (if v then intr_on h else intr_off h)
     in set_mycpu ((mycpu h)\<lparr>intena := v\<rparr>) h)"

lemma restored_frame [simp]:
  "tp (restored v h) = tp h" "locks (restored v h) = locks h" "intr_get (restored v h) = v"
  "noff (mycpu (restored v h)) = noff (mycpu h)"
  "cpu_proc (mycpu (restored v h)) = cpu_proc (mycpu h)"
  "lk_free l (restored v h) = lk_free l h"
  "noff (mycpu h) = 0 \<Longrightarrow> cpu_ok (restored v h)"
  by (simp_all add: restored_def hw_defs lk_free_def cpu_ok_def)

lemma leave_resumed:
  assumes "noff (mycpu h) = 0" and "lk_free lk h"
  shows "leave lk (set_mycpu ((mycpu (enter lk h))\<lparr>intena := v\<rparr>) (enter lk h)) = restored v h"
  using assms
  by (auto intro!: machine_split simp: leave_def enter_def restored_def lk_free_def hw_defs lock_same
      fun_upd_idem_iff split: if_splits)

lemma held_resumed:
  "held l (set_mycpu ((mycpu h)\<lparr>intena := v\<rparr>) h) = held l h"
  by (simp add: held_def holding_hw_def hw_defs)

lemma sleep_resume_ok:
  assumes "hw s = enter (Lk_proc p) h1" and "noff (mycpu h1) = 0" and "cpu_ok h1"
    and "lk_free (Lk_proc p) h1" and "lk_free lk h1"
  shows "sleep_resume p v lk s = Ret () (s\<lparr>hw := enter lk (restored v h1),
    procs := (procs s)[p := (procs s ! p)\<lparr>p_chan := None\<rparr>]\<rparr>)"
proof -
  let ?h = "set_mycpu ((mycpu (enter (Lk_proc p) h1))\<lparr>intena := v\<rparr>) (enter (Lk_proc p) h1)"
  have "held (Lk_proc p) ?h" using assms(3) by (simp add: held_resumed lock_simps)
  then show ?thesis
    using assms by (simp add: sleep_resume_def sched_resume_def sleep_finish_def lock_simps
        leave_resumed upd_proc_def)
qed

section \<open>Properties\<close>

text \<open>
  C20: a process that calls \<open>sleep\<close> with the condition lock held gives the lock up and is
  asleep on its channel; the first \<open>wakeup\<close> of that channel makes it runnable, the
  scheduler can then switch to it, and \<open>sleep\<close> returns with the condition lock held again,
  the channel cleared, the process running and its interrupt state restored. None of the
  checks of \<open>sched\<close> fires on the way.
\<close>

theorem sleep_wakeup_roundtrip:
  assumes "sole_lock lk p h0 (hw s)" and "length (procs s) = NPROC"
  shows "\<exists>s1 s2 s3 s4 s5. sleep_on ch lk s = Blocked s1 \<and>
    scheduler_resume p s1 = Ret () s2 \<and> lk_free lk (hw s2) \<and>
    p_state (procs s2 ! p) = SLEEPING \<and> p_chan (procs s2 ! p) = Some ch \<and>
    wakeup (Some ch) s2 = Ret () s3 \<and> p_state (procs s3 ! p) = RUNNABLE \<and>
    scheduler_visit p s3 = Blocked s4 \<and> cpu_proc (mycpu (hw s4)) = Some p \<and>
    sleep_resume p v lk s4 = Ret () s5 \<and> held lk (hw s5) \<and> lk_free (Lk_proc p) (hw s5) \<and>
    p_state (procs s5 ! p) = RUNNING \<and> p_chan (procs s5 ! p) = None \<and>
    (\<forall>i < NPROC. i \<noteq> p \<longrightarrow> p_state (procs s5 ! i) = (if p_state (procs s ! i) = SLEEPING \<and>
       p_chan (procs s ! i) = Some ch then RUNNABLE else p_state (procs s ! i)))"
proof -
  have h: "cpu_ok h0" "noff (mycpu h0) = 0" "cpu_proc (mycpu h0) = Some p" "p < NPROC"
      "lk_free lk h0" "lk \<noteq> Lk_proc p" "\<And>i. i < NPROC \<Longrightarrow> lk_free (Lk_proc i) h0"
    using assms(1) by (simp_all add: sole_lock_def)
  let ?ps1 = "(procs s)[p := (procs s ! p)\<lparr>p_chan := Some ch, p_state := SLEEPING\<rparr>]"
  let ?h2 = "settle (with_proc None h0)"
  let ?ps3 = "wake (Some ch) None ?ps1"
  let ?h4 = "with_proc (Some p) ?h2"
  let ?ps4 = "?ps3[p := (?ps3 ! p)\<lparr>p_state := RUNNING\<rparr>]"
  have s1: "sleep_on ch lk s = Blocked (s\<lparr>hw := enter (Lk_proc p) h0, procs := ?ps1\<rparr>)"
    by (rule sleep_on_ok[OF assms])
  have s2: "scheduler_resume p (s\<lparr>hw := enter (Lk_proc p) h0, procs := ?ps1\<rparr>) =
      Ret () (s\<lparr>hw := ?h2, procs := ?ps1\<rparr>)"
    using scheduler_resume_ok[of "s\<lparr>hw := enter (Lk_proc p) h0, procs := ?ps1\<rparr>" p h0] h by simp
  have "others_free (s\<lparr>hw := ?h2, procs := ?ps1\<rparr>)" using h by (simp add: others_free_def)
  then have s3: "wakeup (Some ch) (s\<lparr>hw := ?h2, procs := ?ps1\<rparr>) = Ret () (s\<lparr>hw := ?h2, procs := ?ps3\<rparr>)"
    using wakeup_ok[of "s\<lparr>hw := ?h2, procs := ?ps1\<rparr>" "Some ch"] assms(2) by simp
  have st: "p_state (?ps3 ! p) = RUNNABLE" using h(4) assms(2) by (simp add: wake_nth)
  then have s4: "scheduler_visit p (s\<lparr>hw := ?h2, procs := ?ps3\<rparr>) =
      Blocked (s\<lparr>hw := enter (Lk_proc p) ?h4, procs := ?ps4\<rparr>)"
    using scheduler_visit_ok[of "s\<lparr>hw := ?h2, procs := ?ps3\<rparr>" p] h by simp
  have s5: "sleep_resume p v lk (s\<lparr>hw := enter (Lk_proc p) ?h4, procs := ?ps4\<rparr>) =
      Ret () (s\<lparr>hw := enter lk (restored v ?h4), procs := ?ps4[p := (?ps4 ! p)\<lparr>p_chan := None\<rparr>]\<rparr>)"
    using sleep_resume_ok[of "s\<lparr>hw := enter (Lk_proc p) ?h4, procs := ?ps4\<rparr>" p ?h4 lk v] h by simp
  have "cpu_ok (restored v ?h4)" using h by simp
  then show ?thesis
    using h assms(2)
    by (simp add: s1 s2 s3 s4 s5 st lock_simps) (simp add: wake_nth)
qed

text \<open>A table whose entry 0 runs as process 1 on a hart that holds no lock.\<close>

definition unused_proc :: proc where
  "unused_proc = \<lparr>p_state = UNUSED, p_chan = None, p_killed = 0, p_xstate = 0, p_pid = 0,
     p_parent = None, p_kstack = 0, p_sz = 0, p_pagetable = 0, p_trapframe = 0,
     p_context = \<lparr>ctx_ra = 0, ctx_sp = 0, ctx_s = replicate 12 0\<rparr>,
     p_ofile = replicate NOFILE None, p_cwd = None, p_name = replicate 16 NUL\<rparr>"

definition proc0 :: procst where
  "proc0 = kmemst.extend (kmem0\<lparr>hw := with_proc (Some 0) hw0\<rparr>)
     (procst.fields ((replicate NPROC unused_proc)[0 := unused_proc\<lparr>p_state := RUNNING, p_pid := 1\<rparr>])
       (Some 0) 2)"

lemma proc0_simps [simp]:
  "hw proc0 = with_proc (Some 0) hw0" "length (procs proc0) = NPROC" "initproc proc0 = Some 0"
  "nextpid proc0 = 2"
  by (simp_all add: proc0_def kmemst.defs procst.defs)

lemma hw0_noff [simp]: "noff (mycpu hw0) = 0"
  by (simp add: hw0_def mycpu_def)

lemma proc0_sole:
  "(\<forall>i. lk \<noteq> Lk_proc i) \<Longrightarrow>
    sole_lock lk 0 (with_proc (Some 0) hw0) (hw (proc0\<lparr>hw := enter lk (with_proc (Some 0) hw0)\<rparr>))"
  by (simp add: sole_lock_def NPROC_def)

theorem sleep_wakeup_roundtrip_witness:
  "\<exists>s1 s2 s3 s4 s5.
    sleep_on Ch_ticks Lk_tickslock (proc0\<lparr>hw := enter Lk_tickslock (with_proc (Some 0) hw0)\<rparr>) = Blocked s1 \<and>
    scheduler_resume 0 s1 = Ret () s2 \<and> wakeup (Some Ch_ticks) s2 = Ret () s3 \<and>
    scheduler_visit 0 s3 = Blocked s4 \<and> sleep_resume 0 True Lk_tickslock s4 = Ret () s5 \<and>
    p_state (procs s5 ! 0) = RUNNING"
  using sleep_wakeup_roundtrip[OF proc0_sole[of Lk_tickslock], of Ch_ticks True] by fastforce

lemma scheduler_round_ok:
  assumes "cpu_ok (hw s)" and "\<And>j. i \<le> j \<Longrightarrow> j < i + n \<Longrightarrow> lk_free (Lk_proc j) (hw s)"
    and "hw s = settle (hw s)"
  shows "for_upto i n scheduler_visit s =
    (case first_idx (\<lambda>j. p_state (procs s ! j) = RUNNABLE) i n of
       None \<Rightarrow> Ret () s
     | Some j \<Rightarrow> Blocked (s\<lparr>hw := enter (Lk_proc j) (with_proc (Some j) (hw s)),
            procs := (procs s)[j := (procs s ! j)\<lparr>p_state := RUNNING\<rparr>]\<rparr>))"
  using assms
proof (induction n arbitrary: i)
  case 0
  then show ?case by simp
next
  case (Suc n)
  have "lk_free (Lk_proc i) (hw s)" using Suc.prems(2)[of i] by simp
  moreover have "s\<lparr>hw := settle (hw s)\<rparr> = s" using Suc.prems(3) by simp
  ultimately show ?case
    using Suc by (simp add: scheduler_visit_ok)
qed

text \<open>
  C21: a round of the scheduler switches to the first runnable process of the table, marks it
  running and makes it the current process with its lock held; if no process is runnable the
  round changes nothing and the hart waits for an interrupt.
\<close>

theorem scheduler_picks_runnable:
  assumes "all_free s" and "noff (mycpu (hw s)) = 0"
  shows "let h = settle (intr_off (hw s)) in
    scheduler_start (s\<lparr>hw := h\<rparr>) =
    (case first_idx (\<lambda>j. p_state (procs s ! j) = RUNNABLE) 0 NPROC of
       None \<Rightarrow> Ret () (s\<lparr>hw := h\<rparr>)
     | Some j \<Rightarrow> Blocked (s\<lparr>hw := enter (Lk_proc j) (with_proc (Some j) h),
            procs := (procs s)[j := (procs s ! j)\<lparr>p_state := RUNNING\<rparr>]\<rparr>))"
proof -
  let ?h = "settle (intr_off (hw s))"
  have "intr_off (intr_on ?h) = ?h"
    by (auto intro!: machine_split simp: settle_def hw_defs)
  moreover have "cpu_ok (intr_off (hw s))" "\<And>j. j < NPROC \<Longrightarrow> lk_free (Lk_proc j) (intr_off (hw s))"
    using assms by (simp_all add: all_free_def cpu_ok_def lk_free_def hw_defs)
  ultimately show ?thesis
    using scheduler_round_ok[of "s\<lparr>hw := ?h\<rparr>" 0 NPROC]
    by (simp add: Let_def scheduler_start_def scheduler_round_def cong: option.case_cong)
qed

theorem scheduler_picks_runnable_witness:
  "\<exists>t. scheduler_start (proc0\<lparr>procs := (procs proc0)[3 := unused_proc\<lparr>p_state := RUNNABLE\<rparr>],
      hw := settle (intr_off (with_proc None hw0))\<rparr>) = Blocked t \<and>
    p_state (procs t ! 3) = RUNNING"
proof -
  let ?s = "proc0\<lparr>procs := (procs proc0)[3 := unused_proc\<lparr>p_state := RUNNABLE\<rparr>], hw := with_proc None hw0\<rparr>"
  have "procs proc0 = (replicate NPROC unused_proc)[0 := unused_proc\<lparr>p_state := RUNNING, p_pid := 1\<rparr>]"
    by (simp add: proc0_def kmemst.defs procst.defs)
  then have "first_idx (\<lambda>j. p_state (procs ?s ! j) = RUNNABLE) 0 NPROC = Some 3"
    by (auto simp: first_idx_Some NPROC_def nth_list_update unused_proc_def)
  moreover have "all_free ?s" by (simp add: all_free_def)
  ultimately show ?thesis
    using scheduler_picks_runnable[of ?s] by (simp add: Let_def) (simp add: NPROC_def)
qed

text \<open>
  C22: \<open>kill\<close> marks the first process with the given identifier, makes it runnable if it
  sleeps so that it can notice, changes no other process and returns 0; with no such process
  it changes nothing and returns -1.
\<close>

theorem kkill_exact:
  assumes "all_free s" and "length (procs s) = NPROC"
  shows "(\<exists>i < NPROC. p_pid (procs s ! i) = pid \<and> (\<forall>j < i. p_pid (procs s ! j) \<noteq> pid) \<and>
      kkill pid s = Ret 0 (s\<lparr>hw := settle (hw s), procs := (procs s)[i := kill_mark (procs s ! i)]\<rparr>)) \<or>
    (\<forall>i < NPROC. p_pid (procs s ! i) \<noteq> pid) \<and> kkill pid s = Ret (-1) (s\<lparr>hw := settle (hw s)\<rparr>)"
proof (cases "first_idx (\<lambda>j. p_pid (procs s ! j) = pid) 0 NPROC")
  case None
  then have "kkill pid s = Ret (-1) (s\<lparr>hw := settle (hw s)\<rparr>)"
    using kkill_ok[OF assms, of pid] by simp
  with None show ?thesis by (simp add: first_idx_None)
next
  case (Some i)
  then have "kkill pid s = Ret 0 (s\<lparr>hw := settle (hw s), procs := (procs s)[i := kill_mark (procs s ! i)]\<rparr>)"
    using kkill_ok[OF assms, of pid] by simp
  with Some show ?thesis by (auto simp: first_idx_Some)
qed

theorem kkill_exact_witness:
  "\<exists>t. kkill 1 proc0 = Ret 0 t \<and> p_killed (procs t ! 0) = 1"
proof -
  have p: "p_pid (procs proc0 ! 0) = 1"
    by (simp add: proc0_def kmemst.defs procst.defs NPROC_def)
  have "all_free proc0" by (simp add: all_free_def)
  from kkill_exact[OF this, of 1] p show ?thesis
    by (auto simp: kill_mark_def NPROC_def nth_list_update)
qed

end
