(* ===== verification/Wakeup.thy ===== *)
theory Wakeup
  imports Proc
begin

text \<open>
  Sleep and wakeup under interleaving. One process waits for a condition in a loop around
  \<open>sleep\<close> (\<open>kernel/proc.c\<close>), any number of other threads establish the condition and call
  \<open>wakeup\<close>, all of them under the condition lock \<open>lk\<close>; the steps are those between lock
  operations, and threads run in any order. The state keeps the two locks, the condition and
  the table entry of the sleeping process, whose fields are those of the model of the table.
\<close>

section \<open>The threads\<close>

datatype tid = Sleeper | Waker nat

text \<open>Where the waiting process is: in its own loop, in \<open>sleep\<close>, or switched away from.\<close>

datatype spc =
    S_want            \<comment> \<open>before \<open>acquire(lk)\<close> of the loop\<close>
  | S_test            \<comment> \<open>tests the condition, \<open>lk\<close> held\<close>
  | S_acq_p           \<comment> \<open>in \<open>sleep\<close>, before \<open>acquire(&p->lock)\<close>\<close>
  | S_rel_lk          \<comment> \<open>before \<open>release(lk)\<close>\<close>
  | S_set             \<comment> \<open>before \<open>p->chan = chan; p->state = SLEEPING\<close>\<close>
  | S_sched           \<comment> \<open>before the switch to the scheduler, which releases \<open>p->lock\<close>\<close>
  | S_away            \<comment> \<open>switched away\<close>
  | S_tidy            \<comment> \<open>switched to again, \<open>p->lock\<close> held, before \<open>p->chan = 0\<close>\<close>
  | S_reacq           \<comment> \<open>before \<open>acquire(lk)\<close> at the end of \<open>sleep\<close>\<close>
  | S_done            \<comment> \<open>left the loop with the condition true, \<open>lk\<close> held\<close>

text \<open>Where a thread that wakes is: it sets the condition, then runs \<open>wakeup\<close>.\<close>

datatype wpc =
    W_out
  | W_set             \<comment> \<open>\<open>lk\<close> held, before it makes the condition true\<close>
  | W_acq_p           \<comment> \<open>in \<open>wakeup\<close>, before \<open>acquire(&p->lock)\<close>\<close>
  | W_check           \<comment> \<open>\<open>p->lock\<close> held, before the test of state and channel\<close>
  | W_rel_p
  | W_rel_lk
  | W_end

record swsys =
  lk_owner :: "tid option"
  pl_owner :: "tid option"
  cond :: bool
  sw_state :: procstate
  sw_chan :: "chan option"
  spc_of :: spc
  wpc_of :: "nat \<Rightarrow> wpc"

inductive sw_step :: "chan \<Rightarrow> swsys \<Rightarrow> swsys \<Rightarrow> bool" for ch where
  s_want: "spc_of s = S_want \<Longrightarrow> lk_owner s = None \<Longrightarrow>
    sw_step ch s (s\<lparr>lk_owner := Some Sleeper, spc_of := S_test\<rparr>)"
| s_leave: "spc_of s = S_test \<Longrightarrow> cond s \<Longrightarrow> sw_step ch s (s\<lparr>spc_of := S_done\<rparr>)"
| s_call: "spc_of s = S_test \<Longrightarrow> \<not> cond s \<Longrightarrow> sw_step ch s (s\<lparr>spc_of := S_acq_p\<rparr>)"
| s_acq_p: "spc_of s = S_acq_p \<Longrightarrow> pl_owner s = None \<Longrightarrow>
    sw_step ch s (s\<lparr>pl_owner := Some Sleeper, spc_of := S_rel_lk\<rparr>)"
| s_rel_lk: "spc_of s = S_rel_lk \<Longrightarrow> sw_step ch s (s\<lparr>lk_owner := None, spc_of := S_set\<rparr>)"
| s_set: "spc_of s = S_set \<Longrightarrow>
    sw_step ch s (s\<lparr>sw_chan := Some ch, sw_state := SLEEPING, spc_of := S_sched\<rparr>)"
| s_sched: "spc_of s = S_sched \<Longrightarrow> sw_step ch s (s\<lparr>pl_owner := None, spc_of := S_away\<rparr>)"
| s_run: "spc_of s = S_away \<Longrightarrow> pl_owner s = None \<Longrightarrow> sw_state s = RUNNABLE \<Longrightarrow>
    sw_step ch s (s\<lparr>pl_owner := Some Sleeper, sw_state := RUNNING, spc_of := S_tidy\<rparr>)"
| s_tidy: "spc_of s = S_tidy \<Longrightarrow>
    sw_step ch s (s\<lparr>sw_chan := None, pl_owner := None, spc_of := S_reacq\<rparr>)"
| s_reacq: "spc_of s = S_reacq \<Longrightarrow> lk_owner s = None \<Longrightarrow>
    sw_step ch s (s\<lparr>lk_owner := Some Sleeper, spc_of := S_test\<rparr>)"
| w_acq: "wpc_of s k = W_out \<Longrightarrow> lk_owner s = None \<Longrightarrow>
    sw_step ch s (s\<lparr>lk_owner := Some (Waker k), wpc_of := (wpc_of s)(k := W_set)\<rparr>)"
| w_set: "wpc_of s k = W_set \<Longrightarrow>
    sw_step ch s (s\<lparr>cond := True, wpc_of := (wpc_of s)(k := W_acq_p)\<rparr>)"
| w_acq_p: "wpc_of s k = W_acq_p \<Longrightarrow> pl_owner s = None \<Longrightarrow>
    sw_step ch s (s\<lparr>pl_owner := Some (Waker k), wpc_of := (wpc_of s)(k := W_check)\<rparr>)"
| w_check: "wpc_of s k = W_check \<Longrightarrow>
    sw_step ch s (s\<lparr>sw_state := if sw_state s = SLEEPING \<and> sw_chan s = Some ch then RUNNABLE
        else sw_state s, wpc_of := (wpc_of s)(k := W_rel_p)\<rparr>)"
| w_rel_p: "wpc_of s k = W_rel_p \<Longrightarrow>
    sw_step ch s (s\<lparr>pl_owner := None, wpc_of := (wpc_of s)(k := W_rel_lk)\<rparr>)"
| w_rel_lk: "wpc_of s k = W_rel_lk \<Longrightarrow>
    sw_step ch s (s\<lparr>lk_owner := None, wpc_of := (wpc_of s)(k := W_end)\<rparr>)"

definition sw_init :: "swsys \<Rightarrow> bool" where
  "sw_init s \<longleftrightarrow> lk_owner s = None \<and> pl_owner s = None \<and> \<not> cond s \<and> sw_state s = RUNNING \<and>
     sw_chan s = None \<and> spc_of s = S_want \<and> wpc_of s = (\<lambda>_. W_out)"

section \<open>Invariant\<close>

definition s_lk :: "spc \<Rightarrow> bool" where
  "s_lk p \<longleftrightarrow> p \<in> {S_test, S_acq_p, S_rel_lk, S_done}"

definition s_pl :: "spc \<Rightarrow> bool" where
  "s_pl p \<longleftrightarrow> p \<in> {S_rel_lk, S_set, S_sched, S_tidy}"

definition w_lk :: "wpc \<Rightarrow> bool" where
  "w_lk p \<longleftrightarrow> p \<in> {W_set, W_acq_p, W_check, W_rel_p, W_rel_lk}"

definition w_pl :: "wpc \<Rightarrow> bool" where
  "w_pl p \<longleftrightarrow> p \<in> {W_check, W_rel_p}"

text \<open>A thread that has made the condition true and has not yet looked at the process.\<close>

definition w_pending :: "wpc \<Rightarrow> bool" where
  "w_pending p \<longleftrightarrow> p \<in> {W_acq_p, W_check}"

definition locks_ok :: "swsys \<Rightarrow> bool" where
  "locks_ok s \<longleftrightarrow>
     (lk_owner s = Some Sleeper \<longleftrightarrow> s_lk (spc_of s)) \<and>
     (pl_owner s = Some Sleeper \<longleftrightarrow> s_pl (spc_of s)) \<and>
     (\<forall>k. lk_owner s = Some (Waker k) \<longleftrightarrow> w_lk (wpc_of s k)) \<and>
     (\<forall>k. pl_owner s = Some (Waker k) \<longleftrightarrow> w_pl (wpc_of s k))"

text \<open>
  The process is marked asleep only between the assignment and the next wakeup, with its
  channel set; and if the condition holds while it is going to sleep or asleep, some thread
  is still about to look at it.
\<close>

definition sleep_ok :: "chan \<Rightarrow> swsys \<Rightarrow> bool" where
  "sleep_ok ch s \<longleftrightarrow>
     (spc_of s \<in> {S_acq_p, S_rel_lk} \<longrightarrow> \<not> cond s) \<and>
     (spc_of s = S_sched \<longrightarrow> sw_state s = SLEEPING) \<and>
     (sw_state s = SLEEPING \<longrightarrow> spc_of s \<in> {S_sched, S_away} \<and> sw_chan s = Some ch) \<and>
     (spc_of s = S_away \<longrightarrow> sw_state s \<in> {SLEEPING, RUNNABLE}) \<and>
     (cond s \<and> (spc_of s = S_set \<or> sw_state s = SLEEPING) \<longrightarrow> (\<exists>k. w_pending (wpc_of s k)))"

definition sw_inv :: "chan \<Rightarrow> swsys \<Rightarrow> bool" where
  "sw_inv ch s \<longleftrightarrow> locks_ok s \<and> sleep_ok ch s"

lemmas pc_defs = s_lk_def s_pl_def w_lk_def w_pl_def

lemma at_simps:
  "\<not> s_lk S_want" "s_lk S_test" "s_lk S_acq_p" "s_lk S_rel_lk" "\<not> s_lk S_set" "\<not> s_lk S_sched"
  "\<not> s_lk S_away" "\<not> s_lk S_tidy" "\<not> s_lk S_reacq" "s_lk S_done"
  "\<not> s_pl S_want" "\<not> s_pl S_test" "\<not> s_pl S_acq_p" "s_pl S_rel_lk" "s_pl S_set" "s_pl S_sched"
  "\<not> s_pl S_away" "s_pl S_tidy" "\<not> s_pl S_reacq" "\<not> s_pl S_done"
  "\<not> w_lk W_out" "w_lk W_set" "w_lk W_acq_p" "w_lk W_check" "w_lk W_rel_p" "w_lk W_rel_lk" "\<not> w_lk W_end"
  "\<not> w_pl W_out" "\<not> w_pl W_set" "\<not> w_pl W_acq_p" "w_pl W_check" "w_pl W_rel_p" "\<not> w_pl W_rel_lk"
  "\<not> w_pl W_end"
  by (simp_all add: pc_defs)

lemma waker_owner:
  assumes "locks_ok s"
  shows "lk_owner s = Some (Waker k) \<longleftrightarrow> w_lk (wpc_of s k)"
    and "pl_owner s = Some (Waker k) \<longleftrightarrow> w_pl (wpc_of s k)"
  using assms by (simp_all add: locks_ok_def)

lemma locks_ok_step: "sw_step ch s t \<Longrightarrow> locks_ok s \<Longrightarrow> locks_ok t"
proof (induction rule: sw_step.induct)
  case (w_rel_p s k)
  then have "pl_owner s = Some (Waker k)" by (simp add: waker_owner at_simps)
  with w_rel_p show ?case by (auto simp: locks_ok_def at_simps)
next
  case (w_rel_lk s k)
  then have "lk_owner s = Some (Waker k)" by (simp add: waker_owner at_simps)
  with w_rel_lk show ?case by (auto simp: locks_ok_def at_simps)
qed (auto simp: locks_ok_def at_simps)

text \<open>The steps of the waiting process; only the lock order matters.\<close>

lemma no_waker_lk: "locks_ok s \<Longrightarrow> s_lk (spc_of s) \<Longrightarrow> \<not> w_lk (wpc_of s k)"
  unfolding locks_ok_def by auto

lemma no_waker_pl: "locks_ok s \<Longrightarrow> s_pl (spc_of s) \<Longrightarrow> \<not> w_pl (wpc_of s k)"
  unfolding locks_ok_def by auto

lemma pending_upd:
  "\<exists>j. w_pending (f j) \<Longrightarrow> \<not> w_pending (f k) \<Longrightarrow> \<exists>i. w_pending ((f(k := x)) i)"
  by (metis fun_upd_apply)

lemma sleep_ok_step:
  assumes "sw_step ch s t" and "locks_ok s" and "sleep_ok ch s"
  shows "sleep_ok ch t"
  using assms
proof (induction rule: sw_step.induct)
  case (w_acq s k)
  then have "(\<exists>k. w_pending (wpc_of s k)) \<Longrightarrow> (\<exists>i. w_pending (((wpc_of s)(k := W_set)) i))"
    by (intro pending_upd) (simp_all add: w_pending_def)
  then show ?case using w_acq by (simp add: sleep_ok_def)
next
  case (w_set s k)
  then have "\<not> s_lk (spc_of s)" using no_waker_lk[of s k] by (auto simp: pc_defs)
  moreover have "\<exists>i. w_pending (((wpc_of s)(k := W_acq_p)) i)"
    by (rule exI[of _ k]) (simp add: w_pending_def)
  ultimately show ?case using w_set by (auto simp: sleep_ok_def pc_defs)
next
  case (w_acq_p s k)
  then have "\<exists>i. w_pending (((wpc_of s)(k := W_check)) i)"
    by (intro exI[of _ k]) (simp add: w_pending_def)
  then show ?case using w_acq_p by (simp add: sleep_ok_def)
next
  case (w_check s k)
  then have "\<not> s_pl (spc_of s)" using no_waker_pl[of s k] by (auto simp: pc_defs)
  then show ?case using w_check by (auto simp: sleep_ok_def pc_defs)
next
  case (w_rel_p s k)
  then have "(\<exists>k. w_pending (wpc_of s k)) \<Longrightarrow> (\<exists>i. w_pending (((wpc_of s)(k := W_rel_lk)) i))"
    by (intro pending_upd) (simp_all add: w_pending_def)
  then show ?case using w_rel_p by (simp add: sleep_ok_def)
next
  case (w_rel_lk s k)
  then have "(\<exists>k. w_pending (wpc_of s k)) \<Longrightarrow> (\<exists>i. w_pending (((wpc_of s)(k := W_end)) i))"
    by (intro pending_upd) (simp_all add: w_pending_def)
  then show ?case using w_rel_lk by (simp add: sleep_ok_def)
qed (auto simp: sleep_ok_def)

lemma sw_inv_init: "sw_init s \<Longrightarrow> sw_inv ch s"
  by (simp add: sw_init_def sw_inv_def locks_ok_def sleep_ok_def pc_defs)

lemma sw_inv_step: "sw_inv ch s \<Longrightarrow> sw_step ch s t \<Longrightarrow> sw_inv ch t"
  by (simp add: sw_inv_def locks_ok_step sleep_ok_step)

interpretation sw_sys: inv_system sw_init "sw_step ch" "sw_inv ch" for ch
  by unfold_locales (auto intro: sw_inv_init sw_inv_step)

section \<open>Properties\<close>

text \<open>
  C13: no wakeup is lost. However the threads interleave, if the condition is true while the
  process is marked asleep on its channel, then some thread that made it true is still in
  \<open>wakeup\<close> and has not looked at the process yet; once all of them are through, the process
  is not asleep.
\<close>

theorem no_lost_wakeup:
  assumes "reach sw_init (sw_step ch) s" and "cond s"
    and "\<forall>k. wpc_of s k \<in> {W_out, W_rel_p, W_rel_lk, W_end}"
  shows "sw_state s \<noteq> SLEEPING \<and> spc_of s \<notin> {S_set, S_sched}"
proof -
  have "sleep_ok ch s" using sw_sys.reach_inv[OF assms(1)] by (simp add: sw_inv_def)
  moreover have "\<not> w_pending (wpc_of s k)" for k
    using assms(3)[rule_format, of k] by (auto simp: w_pending_def)
  ultimately show ?thesis using assms(2) by (auto simp: sleep_ok_def)
qed

text \<open>A run in which the wakeup comes between the release of \<open>lk\<close> and the switch.\<close>

definition sw0 :: swsys where
  "sw0 = \<lparr>lk_owner = None, pl_owner = None, cond = False, sw_state = RUNNING, sw_chan = None,
     spc_of = S_want, wpc_of = (\<lambda>_. W_out)\<rparr>"

lemma sw_run: "sw_step ch s t \<Longrightarrow> reach sw_init (sw_step ch) s \<Longrightarrow> reach sw_init (sw_step ch) t"
  by (rule reach_step)

lemma sw0_race:
  "reach sw_init (sw_step Ch_ticks)
    \<lparr>lk_owner = Some (Waker 0), pl_owner = Some (Waker 0), cond = True, sw_state = RUNNABLE,
     sw_chan = Some Ch_ticks, spc_of = S_away, wpc_of = (\<lambda>_. W_out)(0 := W_rel_p)\<rparr>"
proof -
  let ?R = "reach sw_init (sw_step Ch_ticks)"
  have "?R sw0" by (rule reach_start) (simp add: sw_init_def sw0_def)
  note r = this[unfolded sw0_def]
  note r = s_want[THEN sw_run, OF _ _ r, simplified]
  note r = s_call[THEN sw_run, OF _ _ r, simplified]
  note r = s_acq_p[THEN sw_run, OF _ _ r, simplified]
  note r = s_rel_lk[THEN sw_run, OF _ r, simplified]
  note r = w_acq[THEN sw_run, OF _ _ r, of 0, simplified]
  note r = w_set[THEN sw_run, OF _ r, of 0, simplified]
  note r = s_set[THEN sw_run, OF _ r, simplified]
  note r = s_sched[THEN sw_run, OF _ r, simplified]
  note r = w_acq_p[THEN sw_run, OF _ _ r, of 0, simplified]
  note r = w_check[THEN sw_run, OF _ r, of 0, simplified]
  show ?thesis using r by simp
qed

theorem no_lost_wakeup_witness:
  "let s = \<lparr>lk_owner = Some (Waker 0), pl_owner = Some (Waker 0), cond = True, sw_state = RUNNABLE,
     sw_chan = Some Ch_ticks, spc_of = S_away, wpc_of = (\<lambda>_. W_out)(0 := W_rel_p)\<rparr> in
   reach sw_init (sw_step Ch_ticks) s \<and> cond s \<and> sw_state s \<noteq> SLEEPING \<and> spc_of s \<notin> {S_set, S_sched}"
  using sw0_race no_lost_wakeup[OF sw0_race] by (simp add: Let_def)

end
