(* ===== verification/Sleeplock.thy ===== *)
theory Sleeplock
  imports Proc
begin

text \<open>
  Sleep locks, \<open>kernel/sleeplock.c\<close>. A sleep lock is named by the spinlock inside it. A call
  that finds the lock taken ends in \<open>sleep_on\<close>; when the process runs again it repeats the
  test, which is \<open>acquiresleep_resume\<close>.
\<close>

record sleeplock =
  sl_locked :: u32
  sl_name :: string
  sl_pid :: int

record slst = procst +
  slocks :: "lockid \<Rightarrow> sleeplock"

text \<open>Updates of different fields are kept in the order of the fields.\<close>

lemma slst_order [simp]:
  "hw_update f0 (slocks_update g0 s) = slocks_update g0 (hw_update f0 s)"
  "ticks_update f1 (slocks_update g1 s) = slocks_update g1 (ticks_update f1 s)"
  "rooms_update f2 (slocks_update g2 s) = slocks_update g2 (rooms_update f2 s)"
  "lighting_initialized_update f3 (slocks_update g3 s) = slocks_update g3 (lighting_initialized_update f3 s)"
  "roomenv_room_update f4 (slocks_update g4 s) = slocks_update g4 (roomenv_room_update f4 s)"
  "mem_update f5 (slocks_update g5 s) = slocks_update g5 (mem_update f5 s)"
  "freelist_update f6 (slocks_update g6 s) = slocks_update g6 (freelist_update f6 s)"
  "kend_update f7 (slocks_update g7 s) = slocks_update g7 (kend_update f7 s)"
  "procs_update f8 (slocks_update g8 s) = slocks_update g8 (procs_update f8 s)"
  "initproc_update f9 (slocks_update g9 s) = slocks_update g9 (initproc_update f9 s)"
  "nextpid_update f10 (slocks_update g10 s) = slocks_update g10 (nextpid_update f10 s)"
  by (induct s; simp)+

definition upd_sl :: "lockid \<Rightarrow> (sleeplock \<Rightarrow> sleeplock) \<Rightarrow> 'z slst_scheme \<Rightarrow> 'z slst_scheme" where
  "upd_sl lk f s = s\<lparr>slocks := (slocks s)(lk := f (slocks s lk))\<rparr>"

definition initsleeplock :: "lockid \<Rightarrow> string \<Rightarrow> 'z slst_scheme \<Rightarrow> (unit, 'z slst_scheme) res" where
  "initsleeplock lk name s =
     bindr (initlock lk ''sleep lock'' s) (\<lambda>_ s.
     Ret () (upd_sl lk (\<lambda>l. l\<lparr>sl_name := name, sl_locked := 0, sl_pid := 0\<rparr>) s))"

text \<open>The test of the loop and what follows it, with the spinlock held.\<close>

definition acquiresleep_loop :: "lockid \<Rightarrow> 'z slst_scheme \<Rightarrow> (unit, 'z slst_scheme) res" where
  "acquiresleep_loop lk s =
     (if sl_locked (slocks s lk) \<noteq> 0 then sleep_on (Ch_sleeplock lk) lk s
      else
        let s = upd_sl lk (\<lambda>l. l\<lparr>sl_locked := 1\<rparr>) s in
        bindr (curproc s) (\<lambda>p s.
        release lk (upd_sl lk (\<lambda>l. l\<lparr>sl_pid := p_pid (procs s ! p)\<rparr>) s)))"

definition acquiresleep :: "lockid \<Rightarrow> 'z slst_scheme \<Rightarrow> (unit, 'z slst_scheme) res" where
  "acquiresleep lk s = bindr (acquire lk s) (\<lambda>_ s. acquiresleep_loop lk s)"

definition acquiresleep_resume ::
    "nat \<Rightarrow> bool \<Rightarrow> lockid \<Rightarrow> 'z slst_scheme \<Rightarrow> (unit, 'z slst_scheme) res" where
  "acquiresleep_resume p saved lk s =
     bindr (sleep_resume p saved lk s) (\<lambda>_ s. acquiresleep_loop lk s)"

definition releasesleep :: "lockid \<Rightarrow> 'z slst_scheme \<Rightarrow> (unit, 'z slst_scheme) res" where
  "releasesleep lk s =
     bindr (acquire lk s) (\<lambda>_ s.
     let s = upd_sl lk (\<lambda>l. l\<lparr>sl_locked := 0, sl_pid := 0\<rparr>) s in
     bindr (wakeup (Some (Ch_sleeplock lk)) s) (\<lambda>_ s.
     release lk s))"

definition holdingsleep :: "lockid \<Rightarrow> 'z slst_scheme \<Rightarrow> (bool, 'z slst_scheme) res" where
  "holdingsleep lk s =
     bindr (acquire lk s) (\<lambda>_ s.
     bindr (if sl_locked (slocks s lk) \<noteq> 0
            then bindr (curproc s) (\<lambda>p s. Ret (sl_pid (slocks s lk) = p_pid (procs s ! p)) s)
            else Ret False s) (\<lambda>r s.
     bindr (release lk s) (\<lambda>_ s. Ret r s)))"

section \<open>Effect\<close>

text \<open>A process that holds no spinlock, on a machine where the locks it may need are free.\<close>

definition thread_ok :: "nat \<Rightarrow> lockid \<Rightarrow> machine \<Rightarrow> bool" where
  "thread_ok p lk h \<longleftrightarrow> cpu_ok h \<and> noff (mycpu h) = 0 \<and> cpu_proc (mycpu h) = Some p \<and> p < NPROC \<and>
     lk_free lk h \<and> (\<forall>i. lk \<noteq> Lk_proc i) \<and> (\<forall>i < NPROC. lk_free (Lk_proc i) h)"

lemma thread_okD:
  assumes "thread_ok p lk h"
  shows "cpu_ok h" "noff (mycpu h) = 0" "cpu_proc (mycpu h) = Some p" "p < NPROC" "lk_free lk h"
    "\<And>i. lk \<noteq> Lk_proc i" "\<And>i. i < NPROC \<Longrightarrow> lk_free (Lk_proc i) h"
  using assms by (simp_all add: thread_ok_def)

lemma thread_ok_sole: "thread_ok p lk h \<Longrightarrow> sole_lock lk p h (enter lk h)"
  by (simp add: thread_ok_def sole_lock_def)

lemma acquiresleep_free:
  assumes "thread_ok p lk (hw s)" and "sl_locked (slocks s lk) = 0"
  shows "acquiresleep lk s = Ret () (s\<lparr>hw := settle (hw s),
    slocks := (slocks s)(lk := (slocks s lk)\<lparr>sl_locked := 1, sl_pid := p_pid (procs s ! p)\<rparr>)\<rparr>)"
  using thread_okD[OF assms(1)] assms(2)
  by (simp add: acquiresleep_def acquiresleep_loop_def lock_simps curproc_ok upd_sl_def Let_def)

lemma acquiresleep_taken:
  assumes "thread_ok p lk (hw s)" and "sl_locked (slocks s lk) \<noteq> 0" and "length (procs s) = NPROC"
  shows "acquiresleep lk s = Blocked (s\<lparr>hw := enter (Lk_proc p) (hw s), procs :=
    (procs s)[p := (procs s ! p)\<lparr>p_chan := Some (Ch_sleeplock lk), p_state := SLEEPING\<rparr>]\<rparr>)"
  using thread_okD[OF assms(1)] assms(2,3)
    sleep_on_ok[of lk p "hw s" "s\<lparr>hw := enter lk (hw s)\<rparr>" "Ch_sleeplock lk"] thread_ok_sole[OF assms(1)]
  by (simp add: acquiresleep_def acquiresleep_loop_def lock_simps)

lemma releasesleep_ok:
  assumes "thread_ok p lk (hw s)" and "length (procs s) = NPROC"
  shows "releasesleep lk s = Ret () (s\<lparr>hw := settle (hw s),
    slocks := (slocks s)(lk := (slocks s lk)\<lparr>sl_locked := 0, sl_pid := 0\<rparr>),
    procs := wake (Some (Ch_sleeplock lk)) (Some p) (procs s)\<rparr>)"
proof -
  note h = thread_okD[OF assms(1)]
  have "others_free (s\<lparr>hw := enter lk (hw s), slocks := l\<rparr>)" for l
    using h h(6)[symmetric] by (simp add: others_free_def lock_simps)
  then show ?thesis
    using h assms(2) by (simp add: releasesleep_def lock_simps wakeup_ok upd_sl_def Let_def)
qed

lemma holdingsleep_ok:
  assumes "thread_ok p lk (hw s)"
  shows "holdingsleep lk s =
    Ret (sl_locked (slocks s lk) \<noteq> 0 \<and> sl_pid (slocks s lk) = p_pid (procs s ! p))
      (s\<lparr>hw := settle (hw s)\<rparr>)"
  using thread_okD[OF assms] by (simp add: holdingsleep_def lock_simps curproc_ok)

section \<open>Properties\<close>

text \<open>
  C23: a sleep lock is exclusive and handed over. \<open>acquiresleep\<close> on a free lock takes it in the
  caller's name and changes nothing else. On a taken lock it does not return: the caller is asleep
  on the lock, holding only the lock of its own table entry for the scheduler to release; every
  other table entry, every sleep lock and the rest of the state are as before. \<open>releasesleep\<close>
  frees the lock, makes exactly the other processes asleep on it runnable, and changes nothing else.
\<close>

theorem sleeplock_exclusive:
  assumes "thread_ok p lk (hw s)" and "length (procs s) = NPROC"
  shows "(sl_locked (slocks s lk) = 0 \<longrightarrow> acquiresleep lk s = Ret () (s\<lparr>hw := settle (hw s),
        slocks := (slocks s)(lk := (slocks s lk)\<lparr>sl_locked := 1, sl_pid := p_pid (procs s ! p)\<rparr>)\<rparr>)) \<and>
    (sl_locked (slocks s lk) \<noteq> 0 \<longrightarrow> acquiresleep lk s = Blocked (s\<lparr>hw := enter (Lk_proc p) (hw s), procs :=
          (procs s)[p := (procs s ! p)\<lparr>p_chan := Some (Ch_sleeplock lk), p_state := SLEEPING\<rparr>]\<rparr>) \<and>
        (\<forall>l. l \<noteq> Lk_proc p \<longrightarrow> locks (enter (Lk_proc p) (hw s)) l = locks (hw s) l)) \<and>
    (\<exists>ps. releasesleep lk s = Ret () (s\<lparr>hw := settle (hw s),
        slocks := (slocks s)(lk := (slocks s lk)\<lparr>sl_locked := 0, sl_pid := 0\<rparr>), procs := ps\<rparr>) \<and>
      length ps = NPROC \<and> (\<forall>i < NPROC. ps ! i =
        (if i \<noteq> p \<and> p_state (procs s ! i) = SLEEPING \<and> p_chan (procs s ! i) = Some (Ch_sleeplock lk)
         then (procs s ! i)\<lparr>p_state := RUNNABLE\<rparr> else procs s ! i)))"
  using acquiresleep_free[OF assms(1)] acquiresleep_taken[OF assms(1) _ assms(2)]
    releasesleep_ok[OF assms] thread_okD[OF assms(1)] assms(2)
  by (auto simp: wake_nth locks_enter_other)

definition sl0 :: slst where
  "sl0 = procst.extend proc0 (slst.fields (\<lambda>_. \<lparr>sl_locked = 0, sl_name = [], sl_pid = 0\<rparr>))"

lemma sl0_simps [simp]:
  "hw sl0 = with_proc (Some 0) hw0" "procs sl0 = procs proc0"
  "slocks sl0 = (\<lambda>_. \<lparr>sl_locked = 0, sl_name = [], sl_pid = 0\<rparr>)"
  by (simp_all add: sl0_def procst.defs slst.defs proc0_def kmemst.defs)

lemma sl0_thread: "(\<forall>i. lk \<noteq> Lk_proc i) \<Longrightarrow> thread_ok 0 lk (hw sl0)"
  by (simp add: thread_ok_def NPROC_def)

theorem sleeplock_exclusive_witness:
  "\<exists>t u. acquiresleep (Lk_buf_sleep 4) sl0 = Ret () t \<and> sl_locked (slocks t (Lk_buf_sleep 4)) = 1 \<and>
    acquiresleep (Lk_buf_sleep 4) t = Blocked u \<and> p_state (procs u ! 0) = SLEEPING \<and> procs u ! 1 = procs sl0 ! 1"
proof -
  let ?lk = "Lk_buf_sleep 4"
  let ?t = "sl0\<lparr>hw := settle (hw sl0),
    slocks := (slocks sl0)(?lk := (slocks sl0 ?lk)\<lparr>sl_locked := 1, sl_pid := p_pid (procs sl0 ! 0)\<rparr>)\<rparr>"
  have th: "thread_ok 0 ?lk (hw sl0)" by (rule sl0_thread) simp
  then have th': "thread_ok 0 ?lk (hw ?t)" by (simp add: thread_ok_def)
  have len: "length (procs sl0) = NPROC" "length (procs ?t) = NPROC" by simp_all
  have "acquiresleep ?lk sl0 = Ret () ?t"
    using sleeplock_exclusive[OF th len(1)] by (simp del: sl0_simps(1))
  moreover have "acquiresleep ?lk ?t = Blocked (?t\<lparr>hw := enter (Lk_proc 0) (hw ?t), procs := (procs ?t)[0 := (procs ?t ! 0)
      \<lparr>p_chan := Some (Ch_sleeplock ?lk), p_state := SLEEPING\<rparr>]\<rparr>)"
    using sleeplock_exclusive[OF th' len(2)] by simp
  ultimately show ?thesis by (auto simp: NPROC_def)
qed

end
