(* ===== verification/Clock.thy ===== *)
theory Clock
  imports Sleeplock
begin

text \<open>
  The timer interrupt: \<open>clockintr\<close> of \<open>kernel/trap.c\<close>, where the tick counter, the wakeup of
  sleepers and the lighting module come together. The timer is the machine's time and, for
  each hart, the comparison value that raises its next interrupt.
\<close>

record clockst = slst +
  mtime :: u64
  stimecmp :: "nat \<Rightarrow> u64"

text \<open>Updates of different fields are kept in the order of the fields.\<close>

lemma clockst_order [simp]:
  "hw_update f0 (mtime_update g0 s) = mtime_update g0 (hw_update f0 s)"
  "hw_update f1 (stimecmp_update g1 s) = stimecmp_update g1 (hw_update f1 s)"
  "ticks_update f2 (mtime_update g2 s) = mtime_update g2 (ticks_update f2 s)"
  "ticks_update f3 (stimecmp_update g3 s) = stimecmp_update g3 (ticks_update f3 s)"
  "rooms_update f4 (mtime_update g4 s) = mtime_update g4 (rooms_update f4 s)"
  "rooms_update f5 (stimecmp_update g5 s) = stimecmp_update g5 (rooms_update f5 s)"
  "lighting_initialized_update f6 (mtime_update g6 s) = mtime_update g6 (lighting_initialized_update f6 s)"
  "lighting_initialized_update f7 (stimecmp_update g7 s) = stimecmp_update g7 (lighting_initialized_update f7 s)"
  "roomenv_room_update f8 (mtime_update g8 s) = mtime_update g8 (roomenv_room_update f8 s)"
  "roomenv_room_update f9 (stimecmp_update g9 s) = stimecmp_update g9 (roomenv_room_update f9 s)"
  "mem_update f10 (mtime_update g10 s) = mtime_update g10 (mem_update f10 s)"
  "mem_update f11 (stimecmp_update g11 s) = stimecmp_update g11 (mem_update f11 s)"
  "freelist_update f12 (mtime_update g12 s) = mtime_update g12 (freelist_update f12 s)"
  "freelist_update f13 (stimecmp_update g13 s) = stimecmp_update g13 (freelist_update f13 s)"
  "kend_update f14 (mtime_update g14 s) = mtime_update g14 (kend_update f14 s)"
  "kend_update f15 (stimecmp_update g15 s) = stimecmp_update g15 (kend_update f15 s)"
  "procs_update f16 (mtime_update g16 s) = mtime_update g16 (procs_update f16 s)"
  "procs_update f17 (stimecmp_update g17 s) = stimecmp_update g17 (procs_update f17 s)"
  "initproc_update f18 (mtime_update g18 s) = mtime_update g18 (initproc_update f18 s)"
  "initproc_update f19 (stimecmp_update g19 s) = stimecmp_update g19 (initproc_update f19 s)"
  "nextpid_update f20 (mtime_update g20 s) = mtime_update g20 (nextpid_update f20 s)"
  "nextpid_update f21 (stimecmp_update g21 s) = stimecmp_update g21 (nextpid_update f21 s)"
  "slocks_update f22 (mtime_update g22 s) = mtime_update g22 (slocks_update f22 s)"
  "slocks_update f23 (stimecmp_update g23 s) = stimecmp_update g23 (slocks_update f23 s)"
  "mtime_update f24 (stimecmp_update g24 s) = stimecmp_update g24 (mtime_update f24 s)"
  by (induct s; simp)+

definition trapinit :: "'z kst_scheme \<Rightarrow> (unit, 'z kst_scheme) res" where
  "trapinit s = initlock Lk_tickslock ''time'' s"

text \<open>The part of the handler under \<open>tickslock\<close>.\<close>

definition clock_tick :: "'z clockst_scheme \<Rightarrow> (unit, 'z clockst_scheme) res" where
  "clock_tick s =
     bindr (acquire Lk_tickslock s) (\<lambda>_ s.
     let s = s\<lparr>ticks := ticks s + 1\<rparr> in
     bindr (wakeup (Some Ch_ticks) s) (\<lambda>_ s.
     release Lk_tickslock s))"

definition clockintr :: "'z clockst_scheme \<Rightarrow> (unit, 'z clockst_scheme) res" where
  "clockintr s =
     bindr (if tp (hw s) = 0 then
              bindr (clock_tick s) (\<lambda>_ s.
              bindr (update_usage s) (\<lambda>_ s.
              lighting_tick s))
            else Ret () s) (\<lambda>_ s.
     Ret () (s\<lparr>stimecmp := (stimecmp s)(tp (hw s) := mtime s + 1000000)\<rparr>))"

section \<open>Effect\<close>

definition clock_ready :: "'z clockst_scheme \<Rightarrow> bool" where
  "clock_ready s \<longleftrightarrow> light_ready s \<and> light_env (hw s) \<and> lk_free Lk_tickslock (hw s) \<and>
     others_free s \<and> length (procs s) = NPROC"

lemma clock_tick_ok:
  assumes "cpu_ok (hw s)" and "lk_free Lk_tickslock (hw s)" and "others_free s"
    and "length (procs s) = NPROC"
  shows "clock_tick s = Ret () (s\<lparr>hw := settle (hw s), ticks := ticks s + 1,
    procs := wake (Some Ch_ticks) (cpu_proc (mycpu (hw s))) (procs s)\<rparr>)"
proof -
  have "others_free (s\<lparr>hw := enter Lk_tickslock (hw s), ticks := ticks s + 1\<rparr>)"
    using assms(1,3) by (simp add: others_free_def lock_simps)
  then show ?thesis using assms by (simp add: clock_tick_def lock_simps wakeup_ok Let_def)
qed

text \<open>What one tick does to the rooms: it counts, then applies the policy at the new time.\<close>

definition tick_rooms :: "u32 \<Rightarrow> room list \<Rightarrow> room list" where
  "tick_rooms now rs = shut now (limit_of 300) (map count_usage rs)"

lemma lighting_tick_ok:
  assumes "light_ready s" and "light_env (hw s)"
  shows "\<exists>out. lighting_tick s = Ret () (s\<lparr>hw := emit out (settle (hw s)),
    rooms := shut (ticks s) (limit_of 300) (rooms s)\<rparr>)"
  using auto_shutoff_impl_ok[OF assms(1), of 300 True] assms(2)
  by (auto simp: lighting_tick_def light_env_def Let_def)

lemma clockintr_ok:
  assumes "clock_ready s" and "tp (hw s) = 0"
  shows "\<exists>out. clockintr s = Ret () (s\<lparr>hw := emit out (settle (hw s)), ticks := ticks s + 1,
    procs := wake (Some Ch_ticks) (cpu_proc (mycpu (hw s))) (procs s),
    rooms := tick_rooms (ticks s + 1) (rooms s),
    stimecmp := (stimecmp s)(0 := mtime s + 1000000)\<rparr>)"
proof -
  have r: "light_ready s" "light_env (hw s)" "cpu_ok (hw s)" "lk_free Lk_tickslock (hw s)"
      "others_free s" "length (procs s) = NPROC"
    using assms(1) by (simp_all add: clock_ready_def light_env_def)
  let ?s1 = "s\<lparr>hw := settle (hw s), ticks := ticks s + 1,
    procs := wake (Some Ch_ticks) (cpu_proc (mycpu (hw s))) (procs s)\<rparr>"
  have r1: "light_ready ?s1" using r(1) by (simp add: light_ready_def)
  let ?s2 = "?s1\<lparr>rooms := map count_usage (rooms s)\<rparr>"
  have r2: "light_ready ?s2" "light_env (hw ?s2)" using r(1,2) by (simp_all add: light_ready_def)
  obtain out where "lighting_tick ?s2 = Ret () (?s2\<lparr>hw := emit out (settle (hw ?s2)),
      rooms := shut (ticks ?s2) (limit_of 300) (rooms ?s2)\<rparr>)"
    using lighting_tick_ok[OF r2] by blast
  then show ?thesis
    using assms(2) clock_tick_ok[OF r(3-6)] update_usage_ok[OF r1]
    by (intro exI[of _ out]) (simp add: clockintr_def tick_rooms_def)
qed

lemma clock_ready_step:
  assumes "clock_ready s" and "tp (hw s) = 0"
  obtains t where "clockintr s = Ret () t" "clock_ready t" "tp (hw t) = 0"
    "ticks t = ticks s + 1" "rooms t = tick_rooms (ticks s + 1) (rooms s)"
proof -
  obtain out where "clockintr s = Ret () (s\<lparr>hw := emit out (settle (hw s)), ticks := ticks s + 1,
      procs := wake (Some Ch_ticks) (cpu_proc (mycpu (hw s))) (procs s),
      rooms := tick_rooms (ticks s + 1) (rooms s),
      stimecmp := (stimecmp s)(0 := mtime s + 1000000)\<rparr>)" (is "_ = Ret () ?t")
    using clockintr_ok[OF assms] by blast
  moreover have "clock_ready ?t"
    using assms(1)
    by (simp add: clock_ready_def light_ready_def others_free_def tick_rooms_def)
  ultimately show ?thesis using assms(2) by (intro that[of ?t]) simp_all
qed

end
