(* ===== verification/House.thy ===== *)
theory House
  imports Clock
begin

text \<open>
  The lighting system under the clock. The handler \<open>clockintr\<close> runs on one hart in three
  sections, each under its own lock; between them other harts may run any call of the module.
  The time that \<open>auto_shutoff\<close> compares with is read before its section, so that a call in
  progress on another hart holds a time that may be out of date. The step relation has
  exactly these interleavings.
\<close>

section \<open>Interleaved calls\<close>

datatype phase = Ph_idle | Ph_ticked | Ph_counted

text \<open>
  \<open>pend j\<close> is the time and the limit a call of \<open>auto_shutoff\<close> on hart \<open>j\<close> has
  computed. The last two fields observe the run and influence no step: \<open>lit i\<close> counts the ticks
  that found the light of room \<open>i\<close> on since the module was last initialised, and \<open>unmarked i\<close>
  counts the ticks since \<open>set_room_occupied\<close> last succeeded for room \<open>i\<close>.
\<close>

record 's hsys =
  hst :: 's
  phase :: phase
  pend :: "nat \<Rightarrow> (u32 \<times> u32) option"
  lit :: "nat \<Rightarrow> nat"
  unmarked :: "nat \<Rightarrow> nat"

definition house_env :: "'z clockst_scheme \<Rightarrow> bool" where
  "house_env s \<longleftrightarrow> lk_free Lk_tickslock (hw s) \<and> others_free s \<and> length (procs s) = NPROC"

inductive house_step :: "'z clockst_scheme hsys \<Rightarrow> 'z clockst_scheme hsys \<Rightarrow> bool" where
  h_tick: "phase x = Ph_idle \<Longrightarrow> clock_tick (hst x) = Ret () s \<Longrightarrow>
    house_step x (x\<lparr>hst := s, phase := Ph_ticked, unmarked := \<lambda>i. Suc (unmarked x i)\<rparr>)"
| h_usage: "phase x = Ph_ticked \<Longrightarrow> update_usage (hst x) = Ret () s \<Longrightarrow>
    house_step x (x\<lparr>hst := s, phase := Ph_counted,
      lit := \<lambda>i. lit x i + (if lighting_initialized (hst x) \<noteq> 0 \<and>
        light_on (rooms (hst x) ! i) = LIGHT_ON then 1 else 0)\<rparr>)"
| h_policy: "phase x = Ph_counted \<Longrightarrow> lighting_tick (hst x) = Ret () s \<Longrightarrow>
    house_step x (x\<lparr>hst := s, phase := Ph_idle\<rparr>)"
| h_occupied: "set_room_occupied i (hst x) = Ret v s \<Longrightarrow> house_step x (x\<lparr>hst := s,
      unmarked := if v = 0 then (unmarked x)(nat i := 0) else unmarked x\<rparr>)"
| h_empty: "set_room_empty i (hst x) = Ret v s \<Longrightarrow> house_step x (x\<lparr>hst := s\<rparr>)"
| h_init: "lighting_init (hst x) = Ret () s \<Longrightarrow> house_step x (x\<lparr>hst := s, lit := \<lambda>_. 0\<rparr>)"
| h_auto_read: "ensure_init (hst x) = Ret () s \<Longrightarrow>
    house_step x (x\<lparr>hst := s, pend := (pend x)(j := Some (ticks s, limit_of t))\<rparr>)"
| h_auto_rules: "pend x j = Some (now, limit) \<Longrightarrow> auto_shutoff_rules now limit (hst x) = Ret v s \<Longrightarrow>
    house_step x (x\<lparr>hst := s, pend := (pend x)(j := None)\<rparr>)"
| h_hart: "cpu_ok ((hw (hst x))\<lparr>tp := j\<rparr>) \<Longrightarrow> house_env ((hst x)\<lparr>hw := (hw (hst x))\<lparr>tp := j\<rparr>\<rparr>) \<Longrightarrow>
    house_step x (x\<lparr>hst := (hst x)\<lparr>hw := (hw (hst x))\<lparr>tp := j\<rparr>\<rparr>\<rparr>)"

definition house_init :: "'z clockst_scheme hsys \<Rightarrow> bool" where
  "house_init x \<longleftrightarrow> light_boot (hst x) \<and> house_env (hst x) \<and> phase x = Ph_idle \<and>
     pend x = (\<lambda>_. None) \<and> lit x = (\<lambda>_. 0)"

section \<open>Invariant\<close>

text \<open>How long a light may have been on: below the limit of 300 once the policy has run.\<close>

definition on_ok :: "phase \<Rightarrow> u32 \<Rightarrow> room \<Rightarrow> bool" where
  "on_ok ph now r \<longleftrightarrow> (light_on r = LIGHT_ON \<and> light_on_since r \<noteq> 0 \<longrightarrow>
     unat (now - light_on_since r) \<le> 300 \<and> (ph = Ph_idle \<longrightarrow> unat (now - light_on_since r) < 300))"

definition rooms_inv :: "phase \<Rightarrow> (nat \<Rightarrow> nat) \<Rightarrow> u32 \<Rightarrow> room list \<Rightarrow> bool" where
  "rooms_inv ph n now rs \<longleftrightarrow> list_all (on_ok ph now) rs \<and>
     (\<forall>i < length rs. usage_ticks (rs ! i) = of_nat (n i))"

definition house_ok :: "phase \<Rightarrow> (nat \<Rightarrow> nat) \<Rightarrow> 'z clockst_scheme \<Rightarrow> bool" where
  "house_ok ph n s \<longleftrightarrow> light_inv s \<and> house_env s \<and> rooms_inv ph n (ticks s) (rooms s) \<and>
     (lighting_initialized s = 0 \<longrightarrow> (\<forall>i < NUM_ROOMS. n i = 0))"

definition house_inv :: "'z clockst_scheme hsys \<Rightarrow> bool" where
  "house_inv x \<longleftrightarrow> house_ok (phase x) (lit x) (hst x)"

lemma unat_tick:
  fixes now t :: u32
  assumes "unat (now - t) < 300"
  shows "unat (now + 1 - t) = unat (now - t) + 1"
proof -
  have "now + 1 - t = (now - t) + 1" by simp
  moreover have "unat ((now - t) + 1) = unat (now - t) + 1"
    using assms by (simp add: unat_word_ariths)
  ultimately show ?thesis by (simp only:)
qed

lemma rooms_inv_tick:
  "rooms_inv Ph_idle n now rs \<Longrightarrow> rooms_inv Ph_ticked n (now + 1) rs"
  by (auto simp: rooms_inv_def list_all_iff on_ok_def unat_tick)

lemma rooms_inv_usage:
  "rooms_inv Ph_ticked n now rs \<Longrightarrow>
    rooms_inv Ph_counted (\<lambda>i. n i + (if light_on (rs ! i) = LIGHT_ON then 1 else 0)) now (map count_usage rs)"
  by (auto simp: rooms_inv_def list_all_iff on_ok_def count_usage_def)

lemma usage_shut [simp]:
  "i < length rs \<Longrightarrow> usage_ticks (shut now limit rs ! i) = usage_ticks (rs ! i)"
  by (simp add: shut_def turn_off_def)

lemma rooms_inv_shut:
  "rooms_inv ph n now rs \<Longrightarrow> rooms_inv ph n now (shut now' limit rs)"
  by (auto simp: rooms_inv_def list_all_iff shut_def on_ok_def turn_off_def)

lemma rooms_inv_policy:
  assumes "rooms_inv Ph_counted n now rs"
  shows "rooms_inv Ph_idle n now (shut now (limit_of 300) rs)"
proof -
  have "unat (now - light_on_since r) < 300"
    if "\<not> overdue now (limit_of 300) r" "light_on r = LIGHT_ON" "light_on_since r \<noteq> 0" for r
    using that by (simp add: overdue_def limit_of_def word_le_nat_alt word_neq_0_conv)
  then have "list_all (on_ok Ph_idle now) (shut now (limit_of 300) rs)"
    by (fastforce simp: list_all_iff shut_def on_ok_def turn_off_def due_def)
  moreover have "\<forall>i < length rs. usage_ticks (shut now (limit_of 300) rs ! i) = of_nat (n i)"
    using assms by (simp add: rooms_inv_def)
  ultimately show ?thesis by (simp add: rooms_inv_def)
qed

lemma rooms_inv_update:
  assumes "rooms_inv ph n now rs" and "on_ok ph now r" and "usage_ticks r = usage_ticks (rs ! i)"
    and "i < length rs"
  shows "rooms_inv ph n now (rs[i := r])"
  using assms by (auto simp: rooms_inv_def nth_list_update list_all_update)

lemma house_okD:
  assumes "house_ok ph n s"
  shows "light_inv s" "house_env s" "rooms_inv ph n (ticks s) (rooms s)" "length (rooms s) = NUM_ROOMS"
    "light_env (hw s)" "lighting_initialized s = 0 \<Longrightarrow> i < NUM_ROOMS \<Longrightarrow> n i = 0"
  using assms by (simp_all add: house_ok_def light_inv_def)

lemma house_ready: "house_ok ph n s \<Longrightarrow> lighting_initialized s \<noteq> 0 \<Longrightarrow> light_ready s"
  by (simp add: house_ok_def light_inv_def light_ready_def light_env_def)

lemma house_ok_upd:
  assumes "house_ok ph n s" and "light_inv (s\<lparr>hw := h, rooms := rs\<rparr>)"
    and "lk_free Lk_tickslock h = lk_free Lk_tickslock (hw s)"
    and "others_free (s\<lparr>hw := h, rooms := rs\<rparr>) = others_free s"
    and "rooms_inv ph' n' (ticks s) rs" and "lighting_initialized s \<noteq> 0 \<or> n' = n"
  shows "house_ok ph' n' (s\<lparr>hw := h, rooms := rs\<rparr>)"
  using assms by (auto simp: house_ok_def house_env_def)

lemma others_free_rooms [simp]:
  "others_free (s\<lparr>hw := settle (hw s), rooms := rs\<rparr>) = others_free s"
  "others_free (s\<lparr>hw := emit out (settle (hw s)), rooms := rs\<rparr>) = others_free s"
  by (simp_all add: others_free_def)

lemma house_tick:
  assumes "house_ok Ph_idle n s" and "clock_tick s = Ret () t"
  shows "house_ok Ph_ticked n t"
proof -
  note d = house_okD[OF assms(1)]
  have t: "t = s\<lparr>hw := settle (hw s), ticks := ticks s + 1,
      procs := wake (Some Ch_ticks) (cpu_proc (mycpu (hw s))) (procs s)\<rparr>"
    using clock_tick_ok[of s] d(2,5) assms(2) by (auto simp: house_env_def light_env_def)
  show ?thesis
    using assms(1) rooms_inv_tick[OF d(3)] unfolding t
    by (simp add: house_ok_def house_env_def light_inv_def others_free_def)
qed

lemma house_usage:
  assumes "house_ok Ph_ticked n s" and "update_usage s = Ret () t"
  shows "house_ok Ph_counted (\<lambda>i. n i + (if lighting_initialized s \<noteq> 0 \<and>
    light_on (rooms s ! i) = LIGHT_ON then 1 else 0)) t"
proof (cases "lighting_initialized s = 0")
  case True
  then have "t = s" using assms(2) by (simp add: update_usage_def)
  with True assms(1) show ?thesis
    by (auto simp: house_ok_def rooms_inv_def on_ok_def list_all_iff)
next
  case False
  note r = house_ready[OF assms(1) False] and d = house_okD[OF assms(1)]
  have t: "t = s\<lparr>hw := settle (hw s), rooms := map count_usage (rooms s)\<rparr>"
    using update_usage_ok[OF r] assms(2) by simp
  have "light_inv t" using ops_inv(2)[OF d(1)] assms(2) by (rule returns_invD)
  with False rooms_inv_usage[OF d(3)] show ?thesis
    unfolding t by (intro house_ok_upd[OF assms(1)]) auto
qed

text \<open>The calls whose first line initialises the module if need be.\<close>

lemma house_lighting_init:
  assumes "house_ok ph n s" and "lighting_init s = Ret () t"
  shows "house_ok ph (\<lambda>_. 0) t"
proof -
  note d = house_okD[OF assms(1)]
  have t: "t = s\<lparr>hw := settle (if lighting_initialized s = 0 then fresh Lk_lighting ''lighting'' (hw s)
        else hw s), rooms := map (\<lambda>i. init_room i (rooms s ! i)) [0..<NUM_ROOMS],
        lighting_initialized := 1\<rparr>"
    using lighting_init_ok[of s] d(4,5) assms(2) by (auto simp: light_env_def)
  have "light_inv t" using ops_inv(1)[OF d(1)] assms(2) by (rule returns_invD)
  moreover have "rooms_inv ph (\<lambda>_. 0) (ticks t) (rooms t)"
    unfolding t by (simp add: rooms_inv_def list_all_iff on_ok_def init_room_def del: upt_rec_numeral)
  moreover have "house_env t"
    using d(2) unfolding t by (simp add: house_env_def others_free_def del: upt_rec_numeral)
  ultimately show ?thesis by (simp add: house_ok_def t)
qed

lemma house_ensure_init:
  assumes "house_ok ph n s"
  obtains s1 where "ensure_init s = Ret () s1" "house_ok ph n s1" "light_ready s1"
proof (cases "lighting_initialized s = 0")
  case True
  obtain s1 where s1: "lighting_init s = Ret () s1" "light_ready s1"
    using lighting_init_inv[OF house_okD(1)[OF assms]] by blast
  have "house_ok ph (\<lambda>_. 0) s1" by (rule house_lighting_init[OF assms s1(1)])
  moreover have "\<forall>i < NUM_ROOMS. n i = 0" using True assms by (simp add: house_ok_def)
  ultimately have "house_ok ph n s1"
    by (simp add: house_ok_def rooms_inv_def light_inv_def)
  then show ?thesis using True s1 that by (simp add: ensure_init_def)
next
  case False
  then show ?thesis using assms house_ready[OF assms False] that by (simp add: ensure_init_def)
qed

lemma on_ok_now: "on_ok ph now (r\<lparr>occupied := a, light_on := b, light_on_since := now\<rparr>)"
  by (simp add: on_ok_def)

lemma house_occupied:
  assumes "house_ok ph n s" and "set_room_occupied i s = Ret v t"
  shows "house_ok ph n t"
proof -
  obtain s1 where s1: "ensure_init s = Ret () s1" "house_ok ph n s1" "light_ready s1"
    using house_ensure_init[OF assms(1)] .
  note d = house_okD[OF s1(2)]
  have c: "set_room_occupied i s1 = Ret v t" using assms(2) ops_ensure_init(2)[OF s1(1,3)] by simp
  have "light_inv t" using ops_inv(4)[OF d(1)] c by (rule returns_invD)
  then show ?thesis
    using c d(3,4) s1(2) light_readyD(1)[OF s1(3)] set_room_occupied_ok[OF s1(3), of i]
    by (auto simp: bad_room_def nat_less_iff on_ok_now split: if_splits
        intro!: house_ok_upd rooms_inv_update)
qed

lemma house_empty:
  assumes "house_ok ph n s" and "set_room_empty i s = Ret v t"
  shows "house_ok ph n t"
proof -
  obtain s1 where s1: "ensure_init s = Ret () s1" "house_ok ph n s1" "light_ready s1"
    using house_ensure_init[OF assms(1)] .
  note d = house_okD[OF s1(2)]
  have c: "set_room_empty i s1 = Ret v t" using assms(2) ops_ensure_init(3)[OF s1(1,3)] by simp
  have "light_inv t" using ops_inv(5)[OF d(1)] c by (rule returns_invD)
  then show ?thesis
    using c d(3,4) s1(2) light_readyD(1)[OF s1(3)] set_room_empty_ok[OF s1(3), of i]
    by (auto simp: bad_room_def nat_less_iff on_ok_def split: if_splits
        intro!: house_ok_upd rooms_inv_update)
qed

lemma house_policy:
  assumes "house_ok Ph_counted n s" and "lighting_tick s = Ret () t"
  shows "house_ok Ph_idle n t"
proof -
  obtain s1 where s1: "ensure_init s = Ret () s1" "house_ok Ph_counted n s1" "light_ready s1"
    using house_ensure_init[OF assms(1)] .
  note d = house_okD[OF s1(2)]
  have "lighting_tick s1 = Ret () t"
    using assms(2) ops_ensure_init(6)[OF s1(1,3)] by (simp add: lighting_tick_def)
  then obtain out where t: "t = s1\<lparr>hw := emit out (settle (hw s1)),
      rooms := shut (ticks s1) (limit_of 300) (rooms s1)\<rparr>"
    using lighting_tick_ok[OF s1(3) d(5)] by auto
  have "light_inv t"
    unfolding t using d(1) by (intro light_inv_upd) (auto simp: light_inv_def shut_inv)
  then show ?thesis
    using rooms_inv_policy[OF d(3)] light_readyD(1)[OF s1(3)]
    unfolding t by (intro house_ok_upd[OF s1(2)]) auto
qed

lemma house_rules:
  assumes "house_ok ph n s" and "auto_shutoff_rules now limit s = Ret v t"
  shows "house_ok ph n t"
proof -
  note d = house_okD[OF assms(1)]
  have t: "t = s\<lparr>hw := settle (hw s), rooms := shut now limit (rooms s)\<rparr>"
    using auto_shutoff_rules_ok[of s now limit] d(4,5) assms(2) by (auto simp: light_env_def)
  have "light_inv t"
    unfolding t using d(1) by (intro light_inv_upd) (auto simp: light_inv_def shut_inv)
  then show ?thesis
    using rooms_inv_shut[OF d(3)] unfolding t by (intro house_ok_upd[OF assms(1)]) auto
qed

lemma house_step_inv: "house_step x y \<Longrightarrow> house_inv x \<Longrightarrow> house_inv y"
proof (induction rule: house_step.induct)
  case (h_auto_read x s j t)
  then show ?case
    by (simp add: house_inv_def) (metis house_ensure_init res.inject(1))
next
  case (h_hart x j)
  then show ?case
    by (simp add: house_inv_def house_ok_def light_inv_def light_env_def tty_ok_def lk_free_def)
qed (auto simp: house_inv_def intro: house_tick house_usage house_policy house_occupied house_empty
    house_lighting_init house_rules)

lemma house_init_inv: "house_init x \<Longrightarrow> house_inv x"
  by (simp add: house_init_def house_inv_def house_ok_def light_boot_inv)
    (simp add: light_boot_def rooms_inv_def on_ok_def list_all_iff)

text \<open>
  The recorded start of a lit room is the tick of its last marking, and the marking is not
  longer ago than the policy allows.
\<close>

definition mark_ok :: "nat \<Rightarrow> u32 \<Rightarrow> room \<Rightarrow> bool" where
  "mark_ok n now r \<longleftrightarrow> (light_on r = LIGHT_ON \<and> light_on_since r \<noteq> 0 \<longrightarrow>
     light_on_since r + of_nat n = now \<and> n \<le> 300)"

definition marks_inv :: "'z clockst_scheme hsys \<Rightarrow> bool" where
  "marks_inv x \<longleftrightarrow> (\<forall>i < NUM_ROOMS. mark_ok (unmarked x i) (ticks (hst x)) (rooms (hst x) ! i))"

lemma of_nat_small_eq:
  fixes a b :: u32
  assumes "a + of_nat n = b" and "n \<le> 300"
  shows "unat (b - a) = n"
proof -
  have "b - a = of_nat n" using assms(1) by auto
  then show ?thesis using assms(2) by (simp add: unat_of_nat)
qed

lemma marks_tick:
  assumes "house_ok Ph_idle n s" and "i < NUM_ROOMS" and "mark_ok m (ticks s) (rooms s ! i)"
  shows "mark_ok (Suc m) (ticks s + 1) (rooms s ! i)"
proof -
  have "on_ok Ph_idle (ticks s) (rooms s ! i)"
    using assms(1,2) by (simp add: house_ok_def rooms_inv_def light_inv_def list_all_length)
  then show ?thesis
    using assms(3) of_nat_small_eq[of "light_on_since (rooms s ! i)" m "ticks s"]
    by (auto simp: mark_ok_def on_ok_def)
qed

text \<open>The other steps keep the time, and light no room except by marking it.\<close>

definition dimmed :: "'z clockst_scheme \<Rightarrow> 'z clockst_scheme \<Rightarrow> bool" where
  "dimmed s t \<longleftrightarrow> ticks t = ticks s \<and> (\<forall>i < NUM_ROOMS.
     light_on (rooms t ! i) = LIGHT_ON \<and> light_on_since (rooms t ! i) \<noteq> 0 \<longrightarrow>
     light_on (rooms s ! i) = LIGHT_ON \<and> light_on_since (rooms s ! i) = light_on_since (rooms t ! i))"

lemma dimmed_refl [simp]: "dimmed s s" "dimmed s (s\<lparr>hw := h\<rparr>)"
  by (simp_all add: dimmed_def)

lemma dimmed_trans: "dimmed s t \<Longrightarrow> dimmed t u \<Longrightarrow> dimmed s u"
  by (simp add: dimmed_def)

lemma marks_dimmed:
  "marks_inv x \<Longrightarrow> dimmed (hst x) (hst y) \<Longrightarrow> unmarked y = unmarked x \<Longrightarrow> marks_inv y"
  unfolding marks_inv_def mark_ok_def dimmed_def by metis

lemma dimmed_init:
  assumes "house_ok ph n s" and "lighting_init s = Ret () t"
  shows "dimmed s t"
  using lighting_init_ok[of s] house_okD(4,5)[OF assms(1)] assms(2)
  by (auto simp: dimmed_def light_env_def init_room_def simp del: upt_rec_numeral)

lemma dimmed_ensure:
  assumes "house_ok ph n s" and "ensure_init s = Ret () t"
  shows "dimmed s t"
  using assms(2) dimmed_init[OF assms(1)] by (auto simp: ensure_init_def split: if_splits)

lemma dimmed_shut: "length (rooms s) = NUM_ROOMS \<Longrightarrow> dimmed s (s\<lparr>hw := h, rooms := shut now limit (rooms s)\<rparr>)"
  by (simp add: dimmed_def shut_def turn_off_def)

lemma dimmed_usage:
  assumes "house_ok ph n s" and "update_usage s = Ret () t"
  shows "dimmed s t"
proof (cases "lighting_initialized s = 0")
  case True
  then show ?thesis using assms(2) by (simp add: update_usage_def)
next
  case False
  then show ?thesis
    using update_usage_ok[OF house_ready[OF assms(1) False]] assms house_okD(4)[OF assms(1)]
    by (auto simp: dimmed_def count_usage_def)
qed

lemma dimmed_policy:
  assumes "house_ok ph n s" and "lighting_tick s = Ret () t"
  shows "dimmed s t"
proof -
  obtain s1 where s1: "ensure_init s = Ret () s1" "house_ok ph n s1" "light_ready s1"
    using house_ensure_init[OF assms(1)] .
  have "lighting_tick s1 = Ret () t"
    using assms(2) ops_ensure_init(6)[OF s1(1,3)] by (simp add: lighting_tick_def)
  then have "dimmed s1 t"
    using lighting_tick_ok[OF s1(3) house_okD(5)[OF s1(2)]] dimmed_shut[OF house_okD(4)[OF s1(2)]] by auto
  then show ?thesis by (rule dimmed_trans[OF dimmed_ensure[OF assms(1) s1(1)]])
qed

lemma update_nth: "xs[j := a] ! i = (if i = j \<and> j < length xs then a else xs ! i)"
  by (cases "j < length xs") (auto simp: nth_list_update list_update_beyond)

lemma dimmed_empty:
  assumes "house_ok ph n s" and "set_room_empty i s = Ret v t"
  shows "dimmed s t"
proof -
  obtain s1 where s1: "ensure_init s = Ret () s1" "house_ok ph n s1" "light_ready s1"
    using house_ensure_init[OF assms(1)] .
  have "set_room_empty i s1 = Ret v t" using assms(2) ops_ensure_init(3)[OF s1(1,3)] by simp
  then have "dimmed s1 t"
    using set_room_empty_ok[OF s1(3), of i] house_okD(4)[OF s1(2)]
    by (auto simp: dimmed_def update_nth split: if_splits)
  then show ?thesis by (rule dimmed_trans[OF dimmed_ensure[OF assms(1) s1(1)]])
qed

lemma dimmed_rules:
  assumes "house_ok ph n s" and "auto_shutoff_rules now limit s = Ret v t"
  shows "dimmed s t"
  using auto_shutoff_rules_ok[of s now limit] house_okD(4,5)[OF assms(1)] assms(2) dimmed_shut[of s]
  by (auto simp: light_env_def)

lemma marks_occupied:
  assumes "house_inv x" and "marks_inv x" and "set_room_occupied i (hst x) = Ret v t"
  shows "marks_inv (x\<lparr>hst := t, unmarked := if v = 0 then (unmarked x)(nat i := 0) else unmarked x\<rparr>)"
proof -
  have ok: "house_ok (phase x) (lit x) (hst x)" using assms(1) by (simp add: house_inv_def)
  obtain s1 where s1: "ensure_init (hst x) = Ret () s1" "house_ok (phase x) (lit x) s1" "light_ready s1"
    using house_ensure_init[OF ok] .
  have d: "dimmed (hst x) s1" by (rule dimmed_ensure[OF ok s1(1)])
  have "marks_inv (x\<lparr>hst := s1\<rparr>)" by (rule marks_dimmed[OF assms(2)]) (simp_all add: d)
  moreover have "set_room_occupied i s1 = Ret v t" using assms(3) ops_ensure_init(2)[OF s1(1,3)] by simp
  ultimately show ?thesis
    using set_room_occupied_ok[OF s1(3), of i] house_okD(4)[OF s1(2)]
    by (auto simp: marks_inv_def mark_ok_def update_nth bad_room_def nat_less_iff split: if_splits)
qed

lemma marks_step: "house_step x y \<Longrightarrow> house_inv x \<Longrightarrow> marks_inv x \<Longrightarrow> marks_inv y"
proof (induction rule: house_step.induct)
  case (h_tick x s)
  have ok: "house_ok Ph_idle (lit x) (hst x)" using h_tick by (simp add: house_inv_def)
  have "ticks s = ticks (hst x) + 1 \<and> rooms s = rooms (hst x)"
    using clock_tick_ok[of "hst x"] house_okD(2,5)[OF ok] h_tick(2) by (auto simp: house_env_def light_env_def)
  then show ?case using marks_tick[OF ok] h_tick(4) by (simp add: marks_inv_def)
next
  case (h_occupied i x v s)
  then show ?case by (intro marks_occupied)
qed (auto simp: house_inv_def intro: dimmed_usage dimmed_policy dimmed_empty dimmed_init dimmed_ensure dimmed_rules
    elim!: marks_dimmed)

lemma house_init_marks: "house_init x \<Longrightarrow> marks_inv x"
  using house_init_inv[of x]
  by (simp add: marks_inv_def mark_ok_def house_init_def light_boot_def list_all_length)

interpretation house_sys: inv_system house_init house_step house_inv
  by unfold_locales (auto intro: house_init_inv house_step_inv)

interpretation mark_sys: inv_system house_init house_step "\<lambda>x. house_inv x \<and> marks_inv x"
  by unfold_locales (auto intro: house_init_inv house_step_inv marks_step house_init_marks)

lemma minus_of_nat_ge:
  fixes limit :: u32
  assumes "0 < n" and "unat limit + n \<le> 2 ^ 32"
  shows "limit \<le> - of_nat n"
proof (cases "n < 2 ^ 32")
  case True
  then have "- of_nat n = (of_nat (2 ^ 32 - n) :: u32)" by (simp add: of_nat_diff)
  then have "unat (- of_nat n :: u32) = 2 ^ 32 - n"
    using assms(1) True by (simp only: unat_of_nat) simp
  then show ?thesis using assms(2) by (simp add: word_le_nat_alt)
next
  case False
  then have "unat limit = 0" using assms(2) by linarith
  then have "limit = 0" by (simp add: unat_eq_0)
  then show ?thesis by simp
qed

section \<open>Properties\<close>

text \<open>
  C16: the energy accounting is exact. In every interleaving of timer interrupts and calls, the
  usage counter of a room is the number of ticks since the last initialisation at which the
  handler found its light on, modulo the width of the counter.
\<close>

theorem usage_counts_lit_ticks:
  assumes "reach house_init house_step x" and "i < NUM_ROOMS"
  shows "usage_ticks (rooms (hst x) ! i) = of_nat (lit x i)"
  using house_sys.reach_inv[OF assms(1)] assms(2)
  by (simp add: house_inv_def house_ok_def rooms_inv_def light_inv_def)

text \<open>
  C15: the maximum on-time is enforced against the last marking. In every interleaving, a light
  that is on and whose start was recorded at a nonzero tick was marked by \<open>set_room_occupied\<close>
  less than 300 ticks ago whenever the timer handler is not running, and at most 300 ticks ago at
  any moment, also across the wrap-around of the tick counter; its start time is the tick of that
  marking. Marking a lit room again starts a new period, so the total time a light is on has no bound.
\<close>

theorem max_on_time:
  assumes "reach house_init house_step x" and "i < NUM_ROOMS"
    and "light_on (rooms (hst x) ! i) = LIGHT_ON" and "light_on_since (rooms (hst x) ! i) \<noteq> 0"
  shows "unmarked x i \<le> 300 \<and> (phase x = Ph_idle \<longrightarrow> unmarked x i < 300) \<and>
    light_on_since (rooms (hst x) ! i) = ticks (hst x) - of_nat (unmarked x i)"
proof -
  have m: "light_on_since (rooms (hst x) ! i) + of_nat (unmarked x i) = ticks (hst x)" "unmarked x i \<le> 300"
    and ok: "house_ok (phase x) (lit x) (hst x)"
    using mark_sys.reach_inv[OF assms(1)] assms(2-4) by (simp_all add: marks_inv_def mark_ok_def house_inv_def)
  then have "on_ok (phase x) (ticks (hst x)) (rooms (hst x) ! i)"
    using assms(2) by (simp add: house_ok_def rooms_inv_def light_inv_def list_all_length)
  then show ?thesis using assms(3,4) of_nat_small_eq[OF m] m(2) by (auto simp: on_ok_def simp flip: m(1))
qed

definition clock0 :: clockst where
  "clock0 = slst.extend (sl0\<lparr>ticks := 0\<rparr>) (clockst.fields 0 (\<lambda>_. 0))"

definition house0 :: "clockst hsys" where
  "house0 = \<lparr>hst = clock0, phase = Ph_idle, pend = (\<lambda>_. None), lit = (\<lambda>_. 0), unmarked = (\<lambda>_. 0)\<rparr>"

lemma clock0_simps [simp]:
  "hw clock0 = with_proc (Some 0) hw0" "procs clock0 = procs proc0" "ticks clock0 = 0"
  "rooms clock0 = rooms light0" "lighting_initialized clock0 = 0"
  by (simp_all add: clock0_def slst.defs clockst.defs sl0_def procst.defs proc0_def kmemst.defs
      kmem0_def lightst.defs light0_def)

lemma hw0_tp [simp]: "tp hw0 = 0"
  by (simp add: hw0_def)

lemma light_env_with_proc [simp]: "light_env (with_proc p h) = light_env h"
  by (simp add: light_env_def tty_ok_def) (simp add: with_proc_def hw_defs)

lemma house0_init: "house_init house0"
  by (simp add: house_init_def house0_def house_env_def others_free_def light_boot_def)
    (simp add: light0_def)

text \<open>Runs of the system, one step at a time.\<close>

lemma run_tick:
  fixes x :: "'z clockst_scheme hsys"
  assumes "reach house_init house_step x" and "phase x = Ph_idle"
  obtains y where "reach house_init house_step (y :: 'z clockst_scheme hsys)" "phase y = Ph_ticked" "pend y = pend x" "lit y = lit x"
    "ticks (hst y) = ticks (hst x) + 1" "rooms (hst y) = rooms (hst x)"
    "lighting_initialized (hst y) = lighting_initialized (hst x)"
proof -
  have "house_env (hst x)" "light_env (hw (hst x))"
    using house_sys.reach_inv[OF assms(1)] by (simp_all add: house_inv_def house_ok_def light_inv_def)
  then have tick: "clock_tick (hst x) = Ret () ((hst x)\<lparr>hw := settle (hw (hst x)), ticks := ticks (hst x) + 1,
      procs := wake (Some Ch_ticks) (cpu_proc (mycpu (hw (hst x)))) (procs (hst x))\<rparr>)"
    by (intro clock_tick_ok) (simp_all add: house_env_def light_env_def)
  show ?thesis by (rule that[OF reach_step[OF assms(1) h_tick[OF assms(2) tick]]]) simp_all
qed

lemma run_usage:
  fixes x :: "'z clockst_scheme hsys"
  assumes "reach house_init house_step x" and "phase x = Ph_ticked" and "lighting_initialized (hst x) \<noteq> 0"
  obtains y where "reach house_init house_step (y :: 'z clockst_scheme hsys)" "phase y = Ph_counted"
    "lit y = (\<lambda>i. lit x i + (if light_on (rooms (hst x) ! i) = LIGHT_ON then 1 else 0))"
    "rooms (hst y) = map count_usage (rooms (hst x))" "ticks (hst y) = ticks (hst x)"
proof -
  have "light_ready (hst x)"
    using house_sys.reach_inv[OF assms(1)] assms(3) by (simp add: house_inv_def house_ready)
  note usage = update_usage_ok[OF this]
  show ?thesis
    by (rule that[OF reach_step[OF assms(1) h_usage[OF assms(2) usage]]]) (simp_all add: assms(3))
qed

lemma run_occupied:
  fixes x :: "'z clockst_scheme hsys"
  assumes "reach house_init house_step x" and "lighting_initialized (hst x) \<noteq> 0" and "i < NUM_ROOMS"
  obtains y where "reach house_init house_step (y :: 'z clockst_scheme hsys)" "phase y = phase x" "pend y = pend x" "lit y = lit x"
    "ticks (hst y) = ticks (hst x)" "lighting_initialized (hst y) = lighting_initialized (hst x)"
    "rooms (hst y) = (rooms (hst x))[i := (rooms (hst x) ! i)\<lparr>occupied := ROOM_OCCUPIED,
       light_on := LIGHT_ON, light_on_since := ticks (hst x)\<rparr>]"
proof -
  have "light_ready (hst x)"
    using house_sys.reach_inv[OF assms(1)] assms(2) by (simp add: house_inv_def house_ready)
  from set_room_occupied_ok[OF this, of "int i"] assms(3)
  have occ: "set_room_occupied (int i) (hst x) = Ret 0 ((hst x)\<lparr>hw := settle (hw (hst x)),
      rooms := (rooms (hst x))[i := (rooms (hst x) ! i)\<lparr>occupied := ROOM_OCCUPIED,
       light_on := LIGHT_ON, light_on_since := ticks (hst x)\<rparr>]\<rparr>)"
    by (simp add: bad_room_def)
  show ?thesis by (rule that[OF reach_step[OF assms(1) h_occupied[OF occ]]]) simp_all
qed

lemma run_auto_read:
  fixes x :: "'z clockst_scheme hsys"
  assumes "reach house_init house_step x"
  obtains y where "reach house_init house_step (y :: 'z clockst_scheme hsys)" "phase y = phase x" "lit y = lit x"
    "pend y = (pend x)(j := Some (ticks (hst y), limit_of t))" "ticks (hst y) = ticks (hst x)"
    "lighting_initialized (hst y) \<noteq> 0" "length (rooms (hst y)) = NUM_ROOMS"
proof -
  have ok: "house_ok (phase x) (lit x) (hst x)"
    using house_sys.reach_inv[OF assms] by (simp add: house_inv_def)
  obtain s1 where s1: "ensure_init (hst x) = Ret () s1" "light_ready s1"
    using house_ensure_init[OF ok] by blast
  have "ticks s1 = ticks (hst x)"
    using s1(1) lighting_init_ok[of "hst x"] house_okD(4,5)[OF ok]
    by (auto simp: ensure_init_def light_env_def split: if_splits simp del: upt_rec_numeral)
  then show ?thesis
    using light_readyD(1,2)[OF s1(2)]
    by (intro that[OF reach_step[OF assms h_auto_read[OF s1(1), of j t]]]) simp_all
qed

text \<open>The module is initialised by the first call, at tick 0; room 2 is lit at tick 1.\<close>

lemma run_lit:
  obtains x where "reach house_init house_step (x :: clockst hsys)" "phase x = Ph_ticked" "ticks (hst x) = 1"
    "pend x 0 = Some (0, limit_of 300)" "lighting_initialized (hst x) \<noteq> 0" "lit x 2 = 0"
    "light_on (rooms (hst x) ! 2) = LIGHT_ON" "light_on_since (rooms (hst x) ! 2) = 1"
    "occupied (rooms (hst x) ! 2) = ROOM_OCCUPIED" "length (rooms (hst x)) = NUM_ROOMS"
proof -
  have "reach house_init house_step house0" by (rule reach_start) (rule house0_init)
  from run_auto_read[OF this, of 0 300] obtain x1 where
      x1: "reach house_init house_step (x1 :: clockst hsys)" "phase x1 = phase house0" "lit x1 = lit house0"
      "pend x1 = (pend house0)(0 := Some (ticks (hst x1), limit_of 300))" "ticks (hst x1) = ticks (hst house0)"
      "lighting_initialized (hst x1) \<noteq> 0" "length (rooms (hst x1)) = NUM_ROOMS" .
  then have x1': "phase x1 = Ph_idle" "lit x1 2 = 0" "pend x1 0 = Some (0, limit_of 300)" "ticks (hst x1) = 0"
    by (simp_all add: house0_def)
  from run_tick[OF x1(1) x1'(1)] obtain x2 where
      x2: "reach house_init house_step (x2 :: clockst hsys)" "phase x2 = Ph_ticked" "pend x2 = pend x1"
      "lit x2 = lit x1" "ticks (hst x2) = ticks (hst x1) + 1" "rooms (hst x2) = rooms (hst x1)"
      "lighting_initialized (hst x2) = lighting_initialized (hst x1)" .
  have i2: "lighting_initialized (hst x2) \<noteq> 0" "(2 :: nat) < NUM_ROOMS" using x1(6) x2(7) by simp_all
  from run_occupied[OF x2(1) i2] obtain x3 where
      x3: "reach house_init house_step (x3 :: clockst hsys)" "phase x3 = phase x2" "pend x3 = pend x2"
      "lit x3 = lit x2" "ticks (hst x3) = ticks (hst x2)" "lighting_initialized (hst x3) = lighting_initialized (hst x2)"
      "rooms (hst x3) = (rooms (hst x2))[2 := (rooms (hst x2) ! 2)\<lparr>occupied := ROOM_OCCUPIED,
         light_on := LIGHT_ON, light_on_since := ticks (hst x2)\<rparr>]" .
  show ?thesis
    by (rule that[OF x3(1)]) (simp_all add: x3(2-7) x2(2-6) x1' x1(7) i2)
qed

theorem usage_counts_lit_ticks_witness:
  "\<exists>x. reach house_init house_step (x :: clockst hsys) \<and> lit x 2 = 1 \<and>
    usage_ticks (rooms (hst x) ! 2) = of_nat 1"
proof -
  obtain x where x: "reach house_init house_step (x :: clockst hsys)" "phase x = Ph_ticked"
      "lighting_initialized (hst x) \<noteq> 0" "lit x 2 = 0" "light_on (rooms (hst x) ! 2) = LIGHT_ON"
    using run_lit by blast
  from run_usage[OF x(1-3)] obtain y where y: "reach house_init house_step (y :: clockst hsys)"
      "lit y = (\<lambda>i. lit x i + (if light_on (rooms (hst x) ! i) = LIGHT_ON then 1 else 0))"
    by blast
  then show ?thesis
    using usage_counts_lit_ticks[OF y(1), of 2] x(4,5) by (intro exI[of _ y]) simp
qed

theorem max_on_time_witness:
  "\<exists>x. reach house_init house_step (x :: clockst hsys) \<and> light_on (rooms (hst x) ! 2) = LIGHT_ON \<and>
    light_on_since (rooms (hst x) ! 2) \<noteq> 0 \<and> unmarked x 2 \<le> 300"
proof -
  obtain x where x: "reach house_init house_step (x :: clockst hsys)"
      "light_on (rooms (hst x) ! 2) = LIGHT_ON" "light_on_since (rooms (hst x) ! 2) = 1"
    using run_lit by blast
  then show ?thesis using max_on_time[OF x(1), of 2] by (intro exI[of _ x]) simp
qed

text \<open>
  C18: \<open>auto_shutoff\<close> reads the time before it takes the lock, and the subtraction is
  unsigned. If a light is marked at a later, nonzero tick than the one a pending call has read, the
  light counts as on for almost \<open>2 ^ 32\<close> ticks: for every limit up to \<open>2 ^ 32\<close> less the delay,
  the call turns the light off, also one that was switched on at the current tick.
\<close>

theorem auto_shutoff_stale_time:
  assumes "reach house_init house_step x" and "pend x j = Some (now, limit)" and "i < NUM_ROOMS"
    and "light_on (rooms (hst x) ! i) = LIGHT_ON" and "light_on_since (rooms (hst x) ! i) = now + of_nat delay"
    and "light_on_since (rooms (hst x) ! i) \<noteq> 0" and "0 < delay" and "unat limit + delay \<le> 2 ^ 32"
  shows "\<exists>n s. auto_shutoff_rules now limit (hst x) = Ret n s \<and> light_on (rooms s ! i) = LIGHT_OFF"
proof -
  have inv: "house_inv x" by (rule house_sys.reach_inv[OF assms(1)])
  then have r: "auto_shutoff_rules now limit (hst x) = Ret (shut_count now limit (rooms (hst x)))
      ((hst x)\<lparr>hw := settle (hw (hst x)), rooms := shut now limit (rooms (hst x))\<rparr>)"
    by (intro auto_shutoff_rules_ok) (auto simp: house_inv_def house_ok_def light_inv_def light_env_def)
  have len: "length (rooms (hst x)) = NUM_ROOMS" using inv by (simp add: house_inv_def house_ok_def light_inv_def)
  have "limit \<le> - of_nat delay"
    using minus_of_nat_ge[OF assms(7,8)] .
  then have "due b now limit (rooms (hst x) ! i)" for b
    using assms(4-6) by (simp add: due_def overdue_def word_neq_0_conv)
  then show ?thesis using r len assms(3) by (simp add: shut_def turn_off_def)
qed

theorem auto_shutoff_stale_time_witness:
  "\<exists>x n s. reach house_init house_step (x :: clockst hsys) \<and> pend x 0 = Some (0, 300) \<and>
    light_on (rooms (hst x) ! 2) = LIGHT_ON \<and> light_on_since (rooms (hst x) ! 2) = ticks (hst x) \<and>
    auto_shutoff_rules 0 300 (hst x) = Ret n s \<and> light_on (rooms s ! 2) = LIGHT_OFF"
proof -
  obtain x where x: "reach house_init house_step (x :: clockst hsys)" "ticks (hst x) = 1"
      "pend x 0 = Some (0, limit_of 300)" "light_on (rooms (hst x) ! 2) = LIGHT_ON"
      "light_on_since (rooms (hst x) ! 2) = 1"
    using run_lit by blast
  then show ?thesis
    using auto_shutoff_stale_time[OF x(1), of 0 0 300 2 1]
    by (intro exI[of _ x]) (simp add: limit_of_def)
qed

section \<open>The clock alone\<close>

fun clock_run :: "nat \<Rightarrow> 'z clockst_scheme \<Rightarrow> (unit, 'z clockst_scheme) res" where
  "clock_run 0 s = Ret () s"
| "clock_run (Suc n) s = bindr (clock_run n s) (\<lambda>_ s. clockintr s)"

text \<open>What a tick does to one occupied room.\<close>

lemma tick_room:
  assumes "i < length rs" and "occupied (rs ! i) = ROOM_OCCUPIED"
  shows "tick_rooms now rs ! i =
    (let r = count_usage (rs ! i) in if overdue now (limit_of 300) r then turn_off r else r)"
proof -
  have "\<not> all_vacant (map count_usage rs)"
  proof -
    have "count_usage (rs ! i) \<in> set (map count_usage rs)" using assms(1) by simp
    moreover have "occupied (count_usage (rs ! i)) \<noteq> ROOM_EMPTY"
      using assms(2) by (simp add: count_usage_def)
    ultimately show ?thesis unfolding all_vacant_def by blast
  qed
  then show ?thesis
    using assms(1) by (auto simp: tick_rooms_def shut_def Let_def due_def overdue_def)
qed

lemma length_tick_rooms [simp]: "length (tick_rooms now rs) = length rs"
  by (simp add: tick_rooms_def)

lemma clock_ready_rooms: "clock_ready s \<Longrightarrow> length (rooms s) = NUM_ROOMS"
  by (simp add: clock_ready_def light_ready_def)

lemma clock_run_room:
  assumes "clock_ready s" and "tp (hw s) = 0" and "i < NUM_ROOMS"
    and "f 0 = rooms s ! i" and "\<And>n. occupied (f n) = ROOM_OCCUPIED"
    and "\<And>n. (let r = count_usage (f n) in
      if overdue (ticks s + of_nat (Suc n)) (limit_of 300) r then turn_off r else r) = f (Suc n)"
  shows "\<exists>t. clock_run n s = Ret () t \<and> clock_ready t \<and> tp (hw t) = 0 \<and>
    ticks t = ticks s + of_nat n \<and> rooms t ! i = f n"
proof (induction n)
  case 0
  then show ?case using assms(1,2,4) by simp
next
  case (Suc n)
  then obtain t where t: "clock_run n s = Ret () t" "clock_ready t" "tp (hw t) = 0"
    "ticks t = ticks s + of_nat n" "rooms t ! i = f n" by blast
  obtain u where u: "clockintr t = Ret () u" "clock_ready u" "tp (hw u) = 0"
    "ticks u = ticks t + 1" "rooms u = tick_rooms (ticks t + 1) (rooms t)"
    using clock_ready_step[OF t(2,3)] by blast
  have "rooms u ! i = f (Suc n)"
    using tick_room[of i "rooms t" "ticks t + 1"] assms(3,5,6) clock_ready_rooms[OF t(2)] t(4,5) u(5)
    by (simp add: Let_def ac_simps)
  then show ?case using t u by (intro exI[of _ u]) (simp add: ac_simps)
qed

text \<open>
  C17: the timer alone switches a light off at the right tick. After \<open>set_room_occupied\<close> at
  a nonzero tick, and with no other call, the light is on during exactly the next 300 ticks
  and off from then on, and its usage grows by exactly the ticks it was on.
\<close>

theorem timer_shutoff_at_300:
  assumes "clock_ready s" and "tp (hw s) = 0" and "i < NUM_ROOMS" and "ticks s \<noteq> 0"
  shows "\<exists>u. set_room_occupied (int i) s = Ret 0 u \<and>
    (\<forall>n. \<exists>t. clock_run n u = Ret () t \<and> (light_on (rooms t ! i) = LIGHT_ON \<longleftrightarrow> n < 300) \<and>
      usage_ticks (rooms t ! i) = usage_ticks (rooms s ! i) + of_nat (min n 300))"
proof -
  define r where "r = (rooms s ! i)\<lparr>occupied := ROOM_OCCUPIED, light_on := LIGHT_ON, light_on_since := ticks s\<rparr>"
  let ?u = "s\<lparr>hw := settle (hw s), rooms := (rooms s)[i := r]\<rparr>"
  have u: "set_room_occupied (int i) s = Ret 0 ?u"
    using assms(1,3) by (simp add: set_room_occupied_ok clock_ready_def bad_room_def r_def)
  have ready: "clock_ready ?u" "tp (hw ?u) = 0" "ticks ?u = ticks s" "rooms ?u ! i = r"
    using assms(1-3) by (auto simp: clock_ready_def light_ready_def others_free_def)
  define f where "f n = (if n < 300 then r\<lparr>usage_ticks := usage_ticks r + of_nat n\<rparr>
    else turn_off (r\<lparr>usage_ticks := usage_ticks r + 300\<rparr>))" for n :: nat
  have step: "(let q = count_usage (f n) in
      if overdue (ticks s + of_nat (Suc n)) (limit_of 300) q then turn_off q else q) = f (Suc n)" for n
  proof (cases "n < 300")
    case True
    then have "unat (of_nat (Suc n) :: u32) = Suc n" by (simp add: unat_of_nat del: of_nat_Suc)
    then have "overdue (ticks s + of_nat (Suc n)) (limit_of 300) (count_usage (f n)) \<longleftrightarrow> Suc n = 300"
      using True assms(4)
      by (auto simp: f_def r_def count_usage_def overdue_def limit_of_def word_le_nat_alt word_neq_0_conv)
    then show ?thesis
      using True by (auto simp: f_def r_def count_usage_def turn_off_def Let_def)
  next
    case False
    then show ?thesis by (simp add: f_def turn_off_def count_usage_def overdue_def)
  qed
  have "\<exists>t. clock_run n ?u = Ret () t \<and> clock_ready t \<and> tp (hw t) = 0 \<and>
      ticks t = ticks ?u + of_nat n \<and> rooms t ! i = f n" for n
    by (rule clock_run_room[OF ready(1,2) assms(3)])
      (use ready step in \<open>auto simp: f_def r_def turn_off_def\<close>)
  moreover have "(light_on (f n) = LIGHT_ON \<longleftrightarrow> n < 300) \<and>
      usage_ticks (f n) = usage_ticks (rooms s ! i) + of_nat (min n 300)" for n
    by (simp add: f_def r_def turn_off_def)
  ultimately show ?thesis using u by metis
qed

text \<open>
  C19: the start time 0 doubles as the mark of an unlit room, so a light switched on at tick 0
  escapes the policy: while the room stays occupied, no number of timer ticks turns it off.
\<close>

theorem lit_at_tick_zero_stays_on:
  assumes "clock_ready s" and "tp (hw s) = 0" and "i < NUM_ROOMS" and "ticks s = 0"
  shows "\<exists>u. set_room_occupied (int i) s = Ret 0 u \<and>
    (\<forall>n. \<exists>t. clock_run n u = Ret () t \<and> light_on (rooms t ! i) = LIGHT_ON)"
proof -
  define r where "r = (rooms s ! i)\<lparr>occupied := ROOM_OCCUPIED, light_on := LIGHT_ON, light_on_since := 0\<rparr>"
  let ?u = "s\<lparr>hw := settle (hw s), rooms := (rooms s)[i := r]\<rparr>"
  have u: "set_room_occupied (int i) s = Ret 0 ?u"
    using assms(1,3,4) by (simp add: set_room_occupied_ok clock_ready_def bad_room_def r_def)
  have ready: "clock_ready ?u" "tp (hw ?u) = 0" "rooms ?u ! i = r"
    using assms(1-3) by (auto simp: clock_ready_def light_ready_def others_free_def)
  have "\<exists>t. clock_run n ?u = Ret () t \<and> clock_ready t \<and> tp (hw t) = 0 \<and>
      ticks t = ticks ?u + of_nat n \<and> rooms t ! i = r\<lparr>usage_ticks := usage_ticks r + of_nat n\<rparr>" for n
    by (rule clock_run_room[OF ready(1,2) assms(3)])
      (use ready in \<open>auto simp: r_def count_usage_def overdue_def Let_def\<close>)
  moreover have "light_on (r\<lparr>usage_ticks := k\<rparr>) = LIGHT_ON" for k by (simp add: r_def)
  ultimately show ?thesis using u by metis
qed

text \<open>The system at tick 0, and at a later tick, with the module initialised.\<close>

definition clock1 :: "u32 \<Rightarrow> clockst" where
  "clock1 now = clock0\<lparr>rooms := rooms light1, lighting_initialized := 1, ticks := now\<rparr>"

lemma clock1_ready: "clock_ready (clock1 now)" "tp (hw (clock1 now)) = 0" "ticks (clock1 now) = now"
proof -
  have "length (rooms light1) = NUM_ROOMS" using light1_ready by (rule light_readyD(2))
  then show "clock_ready (clock1 now)" "tp (hw (clock1 now)) = 0" "ticks (clock1 now) = now"
    by (simp_all add: clock1_def clock_ready_def light_ready_def others_free_def)
qed

theorem timer_shutoff_at_300_witness:
  "\<exists>u t. set_room_occupied 4 (clock1 12) = Ret 0 u \<and> clock_run 300 u = Ret () t \<and>
    light_on (rooms t ! 4) \<noteq> LIGHT_ON"
  using timer_shutoff_at_300[OF clock1_ready(1,2), of 4 12] clock1_ready(3)[of 12] by fastforce

theorem lit_at_tick_zero_stays_on_witness:
  "\<exists>u t. set_room_occupied 4 (clock1 0) = Ret 0 u \<and> clock_run 1000 u = Ret () t \<and>
    light_on (rooms t ! 4) = LIGHT_ON"
  using lit_at_tick_zero_stays_on[OF clock1_ready(1,2), of 4 0] clock1_ready(3)[of 0] by fastforce

end
