(* ===== verification/Vm.thy ===== *)
theory Vm
  imports Clock
begin

text \<open>
  Page tables and user memory, \<open>kernel/vm.c\<close>, on the byte memory. A page-table page is 512
  eight-byte entries in memory; a pointer to an entry is its address, 0 for a null pointer. A
  kernel buffer that user memory is copied from or to is the list of its bytes. Loops over
  addresses end because \<open>walk\<close> panics at \<open>MAXVA\<close>.
\<close>

section \<open>Page-table entries\<close>

definition PTE_V :: u64 where "PTE_V = push_bit 0 1"
definition PTE_R :: u64 where "PTE_R = push_bit 1 1"
definition PTE_W :: u64 where "PTE_W = push_bit 2 1"
definition PTE_X :: u64 where "PTE_X = push_bit 3 1"
definition PTE_U :: u64 where "PTE_U = push_bit 4 1"

definition PA2PTE :: "u64 \<Rightarrow> u64" where "PA2PTE pa = push_bit 10 (drop_bit 12 pa)"
definition PTE2PA :: "u64 \<Rightarrow> u64" where "PTE2PA pte = push_bit 12 (drop_bit 10 pte)"
definition PTE_FLAGS :: "u64 \<Rightarrow> u64" where "PTE_FLAGS pte = pte AND 0x3FF"

definition PX :: "nat \<Rightarrow> u64 \<Rightarrow> u64" where
  "PX level va = drop_bit (12 + 9 * level) va AND 0x1FF"

record vmst = clockst +
  kernel_pagetable :: u64
  etext :: u64
  trampoline :: u64

text \<open>Updates of different fields are kept in the order of the fields.\<close>

lemma vmst_order [simp]:
  "hw_update f0 (kernel_pagetable_update g0 s) = kernel_pagetable_update g0 (hw_update f0 s)"
  "hw_update f1 (etext_update g1 s) = etext_update g1 (hw_update f1 s)"
  "hw_update f2 (trampoline_update g2 s) = trampoline_update g2 (hw_update f2 s)"
  "ticks_update f3 (kernel_pagetable_update g3 s) = kernel_pagetable_update g3 (ticks_update f3 s)"
  "ticks_update f4 (etext_update g4 s) = etext_update g4 (ticks_update f4 s)"
  "ticks_update f5 (trampoline_update g5 s) = trampoline_update g5 (ticks_update f5 s)"
  "rooms_update f6 (kernel_pagetable_update g6 s) = kernel_pagetable_update g6 (rooms_update f6 s)"
  "rooms_update f7 (etext_update g7 s) = etext_update g7 (rooms_update f7 s)"
  "rooms_update f8 (trampoline_update g8 s) = trampoline_update g8 (rooms_update f8 s)"
  "lighting_initialized_update f9 (kernel_pagetable_update g9 s) = kernel_pagetable_update g9 (lighting_initialized_update f9 s)"
  "lighting_initialized_update f10 (etext_update g10 s) = etext_update g10 (lighting_initialized_update f10 s)"
  "lighting_initialized_update f11 (trampoline_update g11 s) = trampoline_update g11 (lighting_initialized_update f11 s)"
  "roomenv_room_update f12 (kernel_pagetable_update g12 s) = kernel_pagetable_update g12 (roomenv_room_update f12 s)"
  "roomenv_room_update f13 (etext_update g13 s) = etext_update g13 (roomenv_room_update f13 s)"
  "roomenv_room_update f14 (trampoline_update g14 s) = trampoline_update g14 (roomenv_room_update f14 s)"
  "mem_update f15 (kernel_pagetable_update g15 s) = kernel_pagetable_update g15 (mem_update f15 s)"
  "mem_update f16 (etext_update g16 s) = etext_update g16 (mem_update f16 s)"
  "mem_update f17 (trampoline_update g17 s) = trampoline_update g17 (mem_update f17 s)"
  "freelist_update f18 (kernel_pagetable_update g18 s) = kernel_pagetable_update g18 (freelist_update f18 s)"
  "freelist_update f19 (etext_update g19 s) = etext_update g19 (freelist_update f19 s)"
  "freelist_update f20 (trampoline_update g20 s) = trampoline_update g20 (freelist_update f20 s)"
  "kend_update f21 (kernel_pagetable_update g21 s) = kernel_pagetable_update g21 (kend_update f21 s)"
  "kend_update f22 (etext_update g22 s) = etext_update g22 (kend_update f22 s)"
  "kend_update f23 (trampoline_update g23 s) = trampoline_update g23 (kend_update f23 s)"
  "procs_update f24 (kernel_pagetable_update g24 s) = kernel_pagetable_update g24 (procs_update f24 s)"
  "procs_update f25 (etext_update g25 s) = etext_update g25 (procs_update f25 s)"
  "procs_update f26 (trampoline_update g26 s) = trampoline_update g26 (procs_update f26 s)"
  "initproc_update f27 (kernel_pagetable_update g27 s) = kernel_pagetable_update g27 (initproc_update f27 s)"
  "initproc_update f28 (etext_update g28 s) = etext_update g28 (initproc_update f28 s)"
  "initproc_update f29 (trampoline_update g29 s) = trampoline_update g29 (initproc_update f29 s)"
  "nextpid_update f30 (kernel_pagetable_update g30 s) = kernel_pagetable_update g30 (nextpid_update f30 s)"
  "nextpid_update f31 (etext_update g31 s) = etext_update g31 (nextpid_update f31 s)"
  "nextpid_update f32 (trampoline_update g32 s) = trampoline_update g32 (nextpid_update f32 s)"
  "slocks_update f33 (kernel_pagetable_update g33 s) = kernel_pagetable_update g33 (slocks_update f33 s)"
  "slocks_update f34 (etext_update g34 s) = etext_update g34 (slocks_update f34 s)"
  "slocks_update f35 (trampoline_update g35 s) = trampoline_update g35 (slocks_update f35 s)"
  "mtime_update f36 (kernel_pagetable_update g36 s) = kernel_pagetable_update g36 (mtime_update f36 s)"
  "mtime_update f37 (etext_update g37 s) = etext_update g37 (mtime_update f37 s)"
  "mtime_update f38 (trampoline_update g38 s) = trampoline_update g38 (mtime_update f38 s)"
  "stimecmp_update f39 (kernel_pagetable_update g39 s) = kernel_pagetable_update g39 (stimecmp_update f39 s)"
  "stimecmp_update f40 (etext_update g40 s) = etext_update g40 (stimecmp_update f40 s)"
  "stimecmp_update f41 (trampoline_update g41 s) = trampoline_update g41 (stimecmp_update f41 s)"
  "kernel_pagetable_update f42 (etext_update g42 s) = etext_update g42 (kernel_pagetable_update f42 s)"
  "kernel_pagetable_update f43 (trampoline_update g43 s) = trampoline_update g43 (kernel_pagetable_update f43 s)"
  "etext_update f44 (trampoline_update g44 s) = trampoline_update g44 (etext_update f44 s)"
  by (induct s; simp)+

section \<open>Bytes in memory\<close>

definition rd_bytes :: "memory \<Rightarrow> u64 \<Rightarrow> nat \<Rightarrow> u8 list" where
  "rd_bytes m a n = map (\<lambda>k. m (a + of_nat k)) [0..<n]"

definition wr_bytes :: "memory \<Rightarrow> u64 \<Rightarrow> u8 list \<Rightarrow> memory" where
  "wr_bytes m a bs = (\<lambda>x. if unat (x - a) < length bs then bs ! unat (x - a) else m x)"

section \<open>The routines of vm.c\<close>

text \<open>The loop of \<open>walk\<close>, from \<open>level\<close> down to the table that holds the leaf entry.\<close>

fun walk_loop :: "nat \<Rightarrow> u64 \<Rightarrow> u64 \<Rightarrow> bool \<Rightarrow> 'z kmemst_scheme \<Rightarrow> (u64, 'z kmemst_scheme) res" where
  "walk_loop 0 pt va alloc s = Ret (pt + 8 * PX 0 va) s"
| "walk_loop (Suc l) pt va alloc s =
     (let pte = pt + 8 * PX (Suc l) va;
          e = ld64 (mem s) pte in
      if e AND PTE_V \<noteq> 0 then walk_loop l (PTE2PA e) va alloc s
      else if \<not> alloc then Ret 0 s
      else bindr (kalloc s) (\<lambda>p s.
        if p = 0 then Ret 0 s
        else let s = s\<lparr>mem := memset (mem s) p 0 PGSIZE\<rparr>;
                 s = s\<lparr>mem := st64 (mem s) pte (PA2PTE p OR PTE_V)\<rparr>
             in walk_loop l p va alloc s))"

definition walk :: "u64 \<Rightarrow> u64 \<Rightarrow> bool \<Rightarrow> 'z kmemst_scheme \<Rightarrow> (u64, 'z kmemst_scheme) res" where
  "walk pagetable va alloc s = (if va \<ge> MAXVA then Panic ''walk'' else walk_loop 2 pagetable va alloc s)"

definition walkaddr :: "u64 \<Rightarrow> u64 \<Rightarrow> 'z kmemst_scheme \<Rightarrow> (u64, 'z kmemst_scheme) res" where
  "walkaddr pagetable va s =
     (if va \<ge> MAXVA then Ret 0 s
      else bindr (walk pagetable va False s) (\<lambda>pte s.
        if pte = 0 then Ret 0 s
        else if ld64 (mem s) pte AND PTE_V = 0 then Ret 0 s
        else if ld64 (mem s) pte AND PTE_U = 0 then Ret 0 s
        else Ret (PTE2PA (ld64 (mem s) pte)) s))"

lemma walk_below: "walk pt va alloc s = Ret r t \<Longrightarrow> unat va < unat MAXVA"
  by (simp add: walk_def word_le_nat_alt split: if_splits)

lemma next_below:
  assumes "unat (a :: u64) < unat MAXVA"
  shows "unat MAXVA - unat (a + of_nat PGSIZE) < unat MAXVA - unat a"
proof -
  have "unat (a + of_nat PGSIZE) = unat a + PGSIZE"
    using assms by (intro unat_add_of_nat) (simp add: MAXVA_def PGSIZE_def)
  then show ?thesis using assms by (simp add: PGSIZE_def)
qed

function mappages_loop ::
    "u64 \<Rightarrow> u64 \<Rightarrow> u64 \<Rightarrow> u64 \<Rightarrow> u64 \<Rightarrow> 'z kmemst_scheme \<Rightarrow> (int, 'z kmemst_scheme) res" where
  "mappages_loop pagetable a lst pa perm s =
     bindr (walk pagetable a True s) (\<lambda>pte s.
     if pte = 0 then Ret (-1) s
     else if ld64 (mem s) pte AND PTE_V \<noteq> 0 then Panic ''mappages: remap''
     else let s = s\<lparr>mem := st64 (mem s) pte (PA2PTE pa OR perm OR PTE_V)\<rparr> in
       if a = lst then Ret 0 s
       else mappages_loop pagetable (a + of_nat PGSIZE) lst (pa + of_nat PGSIZE) perm s)"
  by pat_completeness auto
termination
  by (relation "measure (\<lambda>(_, a, _). unat MAXVA - unat a)") (auto dest: walk_below next_below)

declare mappages_loop.simps [simp del]

definition mappages ::
    "u64 \<Rightarrow> u64 \<Rightarrow> u64 \<Rightarrow> u64 \<Rightarrow> u64 \<Rightarrow> 'z kmemst_scheme \<Rightarrow> (int, 'z kmemst_scheme) res" where
  "mappages pagetable va sz pa perm s =
     (if va mod of_nat PGSIZE \<noteq> 0 then Panic ''mappages: va not aligned''
      else if sz mod of_nat PGSIZE \<noteq> 0 then Panic ''mappages: size not aligned''
      else if sz = 0 then Panic ''mappages: size''
      else mappages_loop pagetable va (va + sz - of_nat PGSIZE) pa perm s)"

definition kvmmap ::
    "u64 \<Rightarrow> u64 \<Rightarrow> u64 \<Rightarrow> u64 \<Rightarrow> u64 \<Rightarrow> 'z kmemst_scheme \<Rightarrow> (unit, 'z kmemst_scheme) res" where
  "kvmmap kpgtbl va pa sz perm s =
     bindr (mappages kpgtbl va sz pa perm s) (\<lambda>r s.
     if r \<noteq> 0 then Panic ''kvmmap'' else Ret () s)"

definition proc_mapstacks :: "u64 \<Rightarrow> 'z kmemst_scheme \<Rightarrow> (unit, 'z kmemst_scheme) res" where
  "proc_mapstacks kpgtbl s =
     for_upto 0 NPROC (\<lambda>p s.
       bindr (kalloc s) (\<lambda>pa s.
       if pa = 0 then Panic ''kalloc''
       else kvmmap kpgtbl (KSTACK p) pa (of_nat PGSIZE) (PTE_R OR PTE_W) s)) s"

definition UART0 :: u64 where "UART0 = 0x10000000"
definition VIRTIO0 :: u64 where "VIRTIO0 = 0x10001000"
definition PLIC :: u64 where "PLIC = 0x0c000000"

definition kvmmake :: "'z vmst_scheme \<Rightarrow> (u64, 'z vmst_scheme) res" where
  "kvmmake s =
     bindr (kalloc s) (\<lambda>kpgtbl s.
     let s = s\<lparr>mem := memset (mem s) kpgtbl 0 PGSIZE\<rparr>; pg = of_nat PGSIZE in
     bindr (kvmmap kpgtbl UART0 UART0 pg (PTE_R OR PTE_W) s) (\<lambda>_ s.
     bindr (kvmmap kpgtbl VIRTIO0 VIRTIO0 pg (PTE_R OR PTE_W) s) (\<lambda>_ s.
     bindr (kvmmap kpgtbl PLIC PLIC 0x4000000 (PTE_R OR PTE_W) s) (\<lambda>_ s.
     bindr (kvmmap kpgtbl KERNBASE KERNBASE (etext s - KERNBASE) (PTE_R OR PTE_X) s) (\<lambda>_ s.
     bindr (kvmmap kpgtbl (etext s) (etext s) (PHYSTOP - etext s) (PTE_R OR PTE_W) s) (\<lambda>_ s.
     bindr (kvmmap kpgtbl TRAMPOLINE (trampoline s) pg (PTE_R OR PTE_X) s) (\<lambda>_ s.
     bindr (proc_mapstacks kpgtbl s) (\<lambda>_ s.
     Ret kpgtbl s))))))))"

definition kvminit :: "'z vmst_scheme \<Rightarrow> (unit, 'z vmst_scheme) res" where
  "kvminit s = bindr (kvmmake s) (\<lambda>p s. Ret () (s\<lparr>kernel_pagetable := p\<rparr>))"

definition uvmcreate :: "'z kmemst_scheme \<Rightarrow> (u64, 'z kmemst_scheme) res" where
  "uvmcreate s =
     bindr (kalloc s) (\<lambda>pagetable s.
     if pagetable = 0 then Ret 0 s
     else Ret pagetable (s\<lparr>mem := memset (mem s) pagetable 0 PGSIZE\<rparr>))"

text \<open>The body of the loop of \<open>uvmunmap\<close>, and the loop.\<close>

definition unmap_one :: "u64 \<Rightarrow> u64 \<Rightarrow> bool \<Rightarrow> 'z kmemst_scheme \<Rightarrow> (unit, 'z kmemst_scheme) res" where
  "unmap_one pagetable a do_free s =
     bindr (walk pagetable a False s) (\<lambda>pte s.
     if pte = 0 then Ret () s
     else if ld64 (mem s) pte AND PTE_V = 0 then Ret () s
     else bindr (if do_free then kfree (PTE2PA (ld64 (mem s) pte)) s else Ret () s) (\<lambda>_ s.
       Ret () (s\<lparr>mem := st64 (mem s) pte 0\<rparr>)))"

lemma unmap_one_below: "unmap_one pt a f s = Ret r t \<Longrightarrow> unat a < unat MAXVA"
  by (auto simp: unmap_one_def bindr_Ret_iff dest: walk_below)

function uvmunmap_loop ::
    "u64 \<Rightarrow> u64 \<Rightarrow> u64 \<Rightarrow> bool \<Rightarrow> 'z kmemst_scheme \<Rightarrow> (unit, 'z kmemst_scheme) res" where
  "uvmunmap_loop pagetable a lim do_free s =
     (if a < lim
      then bindr (unmap_one pagetable a do_free s) (\<lambda>_ s.
           uvmunmap_loop pagetable (a + of_nat PGSIZE) lim do_free s)
      else Ret () s)"
  by pat_completeness auto
termination
  by (relation "measure (\<lambda>(_, a, _). unat MAXVA - unat a)") (auto dest: unmap_one_below next_below)

declare uvmunmap_loop.simps [simp del]

definition uvmunmap ::
    "u64 \<Rightarrow> u64 \<Rightarrow> u64 \<Rightarrow> bool \<Rightarrow> 'z kmemst_scheme \<Rightarrow> (unit, 'z kmemst_scheme) res" where
  "uvmunmap pagetable va npages do_free s =
     (if va mod of_nat PGSIZE \<noteq> 0 then Panic ''uvmunmap: not aligned''
      else uvmunmap_loop pagetable va (va + npages * of_nat PGSIZE) do_free s)"

definition uvmdealloc :: "u64 \<Rightarrow> u64 \<Rightarrow> u64 \<Rightarrow> 'z kmemst_scheme \<Rightarrow> (u64, 'z kmemst_scheme) res" where
  "uvmdealloc pagetable oldsz newsz s =
     (if newsz \<ge> oldsz then Ret oldsz s
      else if PGROUNDUP newsz < PGROUNDUP oldsz then
        let npages = (PGROUNDUP oldsz - PGROUNDUP newsz) div of_nat PGSIZE in
        bindr (uvmunmap pagetable (PGROUNDUP newsz) (scast (ucast npages :: u32)) True s) (\<lambda>_ s.
        Ret newsz s)
      else Ret newsz s)"

lemma mappages_below: "mappages pt a n pa perm s = Ret r t \<Longrightarrow> unat a < unat MAXVA"
  by (subst (asm) mappages_def, subst (asm) mappages_loop.simps)
    (auto simp: bindr_Ret_iff dest: walk_below split: if_splits)

text \<open>The loop of \<open>uvmalloc\<close>; \<open>lo\<close> is the rounded old size.\<close>

function uvmalloc_loop ::
    "u64 \<Rightarrow> u64 \<Rightarrow> u64 \<Rightarrow> u64 \<Rightarrow> u64 \<Rightarrow> 'z kmemst_scheme \<Rightarrow> (u64, 'z kmemst_scheme) res" where
  "uvmalloc_loop pagetable a lo newsz xperm s =
     (if a < newsz then
        bindr (kalloc s) (\<lambda>p s.
        if p = 0 then bindr (uvmdealloc pagetable a lo s) (\<lambda>_ s. Ret 0 s)
        else
          bindr (mappages pagetable a (of_nat PGSIZE) p (PTE_R OR PTE_U OR xperm)
                   (s\<lparr>mem := memset (mem s) p 0 PGSIZE\<rparr>)) (\<lambda>r s.
          if r \<noteq> 0 then
            bindr (kfree p s) (\<lambda>_ s.
            bindr (uvmdealloc pagetable a lo s) (\<lambda>_ s. Ret 0 s))
          else uvmalloc_loop pagetable (a + of_nat PGSIZE) lo newsz xperm s))
      else Ret newsz s)"
  by pat_completeness auto
termination
  by (relation "measure (\<lambda>(_, a, _). unat MAXVA - unat a)") (auto dest: mappages_below next_below)

declare uvmalloc_loop.simps [simp del]

definition uvmalloc :: "u64 \<Rightarrow> u64 \<Rightarrow> u64 \<Rightarrow> u64 \<Rightarrow> 'z kmemst_scheme \<Rightarrow> (u64, 'z kmemst_scheme) res" where
  "uvmalloc pagetable oldsz newsz xperm s =
     (if newsz < oldsz then Ret oldsz s
      else let oldsz = PGROUNDUP oldsz
           in uvmalloc_loop pagetable oldsz oldsz newsz xperm s)"

text \<open>
  \<open>freewalk\<close> follows the entries of the table. The recursion of the C function is bounded by
  the three levels of a table; in a memory where it would go deeper it does not return.
\<close>

fun freewalk :: "nat \<Rightarrow> u64 \<Rightarrow> 'z kmemst_scheme \<Rightarrow> (unit, 'z kmemst_scheme) res" where
  "freewalk 0 pagetable s = Spin s"
| "freewalk (Suc depth) pagetable s =
     bindr (for_upto 0 512 (\<lambda>i s.
       let a = pagetable + 8 * of_nat i;
           pte = ld64 (mem s) a in
       if pte AND PTE_V \<noteq> 0 \<and> pte AND (PTE_R OR PTE_W OR PTE_X) = 0 then
         bindr (freewalk depth (PTE2PA pte) s) (\<lambda>_ s.
         Ret () (s\<lparr>mem := st64 (mem s) a 0\<rparr>))
       else if pte AND PTE_V \<noteq> 0 then Panic ''freewalk: leaf''
       else Ret () s) s) (\<lambda>_ s.
     kfree pagetable s)"

definition uvmfree :: "u64 \<Rightarrow> u64 \<Rightarrow> 'z kmemst_scheme \<Rightarrow> (unit, 'z kmemst_scheme) res" where
  "uvmfree pagetable sz s =
     bindr (if sz > 0 then uvmunmap pagetable 0 (PGROUNDUP sz div of_nat PGSIZE) True s
            else Ret () s) (\<lambda>_ s.
     freewalk 3 pagetable s)"

text \<open>One page of \<open>uvmcopy\<close>: nothing to do, a copy, or out of memory.\<close>

definition copy_page :: "u64 \<Rightarrow> u64 \<Rightarrow> u64 \<Rightarrow> 'z kmemst_scheme \<Rightarrow> (bool, 'z kmemst_scheme) res" where
  "copy_page old new i s =
     bindr (walk old i False s) (\<lambda>pte s.
     if pte = 0 then Ret True s
     else let e = ld64 (mem s) pte in
       if e AND PTE_V = 0 then Ret True s
       else
         bindr (kalloc s) (\<lambda>p s.
         if p = 0 then Ret False s
         else
           let s = s\<lparr>mem := memmove (mem s) p (PTE2PA e) PGSIZE\<rparr> in
           bindr (mappages new i (of_nat PGSIZE) p (PTE_FLAGS e) s) (\<lambda>r s.
           if r \<noteq> 0 then bindr (kfree p s) (\<lambda>_ s. Ret False s)
           else Ret True s)))"

lemma copy_page_below: "copy_page old new i s = Ret r t \<Longrightarrow> unat i < unat MAXVA"
  by (auto simp: copy_page_def bindr_Ret_iff dest: walk_below)

function uvmcopy_loop :: "u64 \<Rightarrow> u64 \<Rightarrow> u64 \<Rightarrow> u64 \<Rightarrow> 'z kmemst_scheme \<Rightarrow> (int, 'z kmemst_scheme) res" where
  "uvmcopy_loop old new i sz s =
     (if i < sz then
        bindr (copy_page old new i s) (\<lambda>ok s.
        if ok then uvmcopy_loop old new (i + of_nat PGSIZE) sz s
        else bindr (uvmunmap new 0 (i div of_nat PGSIZE) True s) (\<lambda>_ s. Ret (-1) s))
      else Ret 0 s)"
  by pat_completeness auto
termination
  by (relation "measure (\<lambda>(_, _, i, _). unat MAXVA - unat i)") (auto dest: copy_page_below next_below)

declare uvmcopy_loop.simps [simp del]

definition uvmcopy :: "u64 \<Rightarrow> u64 \<Rightarrow> u64 \<Rightarrow> 'z kmemst_scheme \<Rightarrow> (int, 'z kmemst_scheme) res" where
  "uvmcopy old new sz s = uvmcopy_loop old new 0 sz s"

definition uvmclear :: "u64 \<Rightarrow> u64 \<Rightarrow> 'z kmemst_scheme \<Rightarrow> (unit, 'z kmemst_scheme) res" where
  "uvmclear pagetable va s =
     bindr (walk pagetable va False s) (\<lambda>pte s.
     if pte = 0 then Panic ''uvmclear''
     else Ret () (s\<lparr>mem := st64 (mem s) pte (ld64 (mem s) pte AND NOT PTE_U)\<rparr>))"

definition ismapped :: "u64 \<Rightarrow> u64 \<Rightarrow> 'z kmemst_scheme \<Rightarrow> (bool, 'z kmemst_scheme) res" where
  "ismapped pagetable va s =
     bindr (walk pagetable va False s) (\<lambda>pte s.
     if pte = 0 then Ret False s
     else if ld64 (mem s) pte AND PTE_V \<noteq> 0 then Ret True s
     else Ret False s)"

definition vmfault :: "u64 \<Rightarrow> u64 \<Rightarrow> bool \<Rightarrow> 'z procst_scheme \<Rightarrow> (u64, 'z procst_scheme) res" where
  "vmfault pagetable va rd s =
     bindr (curproc s) (\<lambda>p s.
     if va \<ge> p_sz (procs s ! p) then Ret 0 s
     else
       let va = PGROUNDDOWN va in
       bindr (ismapped pagetable va s) (\<lambda>mapped s.
       if mapped then Ret 0 s
       else
         bindr (kalloc s) (\<lambda>pg s.
         if pg = 0 then Ret 0 s
         else
           let s = s\<lparr>mem := memset (mem s) pg 0 PGSIZE\<rparr> in
           bindr (mappages (p_pagetable (procs s ! p)) va (of_nat PGSIZE) pg
                    (PTE_W OR PTE_U OR PTE_R) s) (\<lambda>r s.
           if r \<noteq> 0 then bindr (kfree pg s) (\<lambda>_ s. Ret 0 s)
           else Ret pg s))))"

section \<open>Copies between the kernel and user memory\<close>

lemma page_offset: "unat (a - PGROUNDDOWN a) = unat a mod PGSIZE"
proof -
  have "unat (PGROUNDDOWN a) + unat a mod PGSIZE = unat a"
    by (simp add: unat_PGROUNDDOWN div_mult_mod_eq)
  moreover from this have "PGROUNDDOWN a \<le> a" by (simp add: word_le_nat_alt)
  ultimately show ?thesis by (simp add: unat_sub)
qed

text \<open>The bytes from an address to the end of its page.\<close>

definition page_room :: "u64 \<Rightarrow> nat" where
  "page_room va = PGSIZE - unat (va - PGROUNDDOWN va)"

lemma page_room_pos [simp]: "0 < page_room va" "page_room va \<noteq> 0"
  using mod_less_divisor[OF PGSIZE_pos, of "unat va"]
  by (simp_all add: page_room_def page_offset linorder_not_le)

text \<open>The physical address for a copy, allocating the page if it is not there yet.\<close>

definition page_for_copy :: "u64 \<Rightarrow> u64 \<Rightarrow> 'z procst_scheme \<Rightarrow> (u64, 'z procst_scheme) res" where
  "page_for_copy pagetable va0 s =
     bindr (walkaddr pagetable va0 s) (\<lambda>pa0 s.
     if pa0 = 0 then vmfault pagetable va0 False s else Ret pa0 s)"

function copyout :: "u64 \<Rightarrow> u64 \<Rightarrow> u8 list \<Rightarrow> 'z procst_scheme \<Rightarrow> (int, 'z procst_scheme) res" where
  "copyout pagetable dstva src s =
     (if src = [] then Ret 0 s
      else
        let va0 = PGROUNDDOWN dstva in
        if va0 \<ge> MAXVA then Ret (-1) s
        else
          bindr (page_for_copy pagetable va0 s) (\<lambda>pa0 s.
          if pa0 = 0 then Ret (-1) s
          else
            bindr (walk pagetable va0 False s) (\<lambda>pte s.
            if pte = 0 then Panic ''null dereference''
            else if ld64 (mem s) pte AND PTE_W = 0 then Ret (-1) s
            else
              let n = min (page_room dstva) (length src);
                  s = s\<lparr>mem := wr_bytes (mem s) (pa0 + (dstva - va0)) (take n src)\<rparr>
              in copyout pagetable (va0 + of_nat PGSIZE) (drop n src) s)))"
  by pat_completeness auto
termination
  by (relation "measure (\<lambda>(_, _, src, _). length src)") auto

declare copyout.simps [simp del]

text \<open>The result of \<open>copyin\<close> and \<open>copyinstr\<close> includes the bytes written to the buffer.\<close>

function copyin :: "u64 \<Rightarrow> u64 \<Rightarrow> nat \<Rightarrow> 'z procst_scheme \<Rightarrow> (int \<times> u8 list, 'z procst_scheme) res" where
  "copyin pagetable srcva len s =
     (if len = 0 then Ret (0, []) s
      else
        let va0 = PGROUNDDOWN srcva in
        bindr (page_for_copy pagetable va0 s) (\<lambda>pa0 s.
        if pa0 = 0 then Ret (-1, []) s
        else
          let n = min (page_room srcva) len;
              bs = rd_bytes (mem s) (pa0 + (srcva - va0)) n in
          bindr (copyin pagetable (va0 + of_nat PGSIZE) (len - n) s) (\<lambda>(r, rest) s.
          Ret (r, bs @ rest) s)))"
  by pat_completeness auto
termination
  by (relation "measure (\<lambda>(_, _, len, _). len)") auto

declare copyin.simps [simp del]

text \<open>The inner loop of \<open>copyinstr\<close> on the bytes left in the page.\<close>

fun copystr_loop :: "u8 list \<Rightarrow> u8 list \<times> bool" where
  "copystr_loop [] = ([], False)"
| "copystr_loop (b # bs) =
     (if b = 0 then ([0], True) else let (r, got_null) = copystr_loop bs in (b # r, got_null))"

function copyinstr :: "u64 \<Rightarrow> u64 \<Rightarrow> nat \<Rightarrow> 'z kmemst_scheme \<Rightarrow> (int \<times> u8 list, 'z kmemst_scheme) res" where
  "copyinstr pagetable srcva mx s =
     (if mx = 0 then Ret (-1, []) s
      else
        let va0 = PGROUNDDOWN srcva in
        bindr (walkaddr pagetable va0 s) (\<lambda>pa0 s.
        if pa0 = 0 then Ret (-1, []) s
        else
          let n = min (page_room srcva) mx;
              (bs, got_null) = copystr_loop (rd_bytes (mem s) (pa0 + (srcva - va0)) n) in
          if got_null then Ret (0, bs) s
          else
            bindr (copyinstr pagetable (va0 + of_nat PGSIZE) (mx - n) s) (\<lambda>(r, rest) s.
            Ret (r, bs @ rest) s)))"
  by pat_completeness auto
termination
  by (relation "measure (\<lambda>(_, _, m, _). m)") auto

declare copyinstr.simps [simp del]

text \<open>\<open>growproc\<close> of \<open>kernel/proc.c\<close>.\<close>

definition growproc :: "int \<Rightarrow> 'z procst_scheme \<Rightarrow> (int, 'z procst_scheme) res" where
  "growproc n s =
     bindr (curproc s) (\<lambda>p s.
     let sz = p_sz (procs s ! p); pt = p_pagetable (procs s ! p) in
     if n > 0 then
       if sz + word_of_int n > TRAPFRAME then Ret (-1) s
       else bindr (uvmalloc pt sz (sz + word_of_int n) PTE_W s) (\<lambda>sz s.
         if sz = 0 then Ret (-1) s
         else Ret 0 (upd_proc p (\<lambda>q. q\<lparr>p_sz := sz\<rparr>) s))
     else if n < 0 then
       bindr (uvmdealloc pt sz (sz + word_of_int n) s) (\<lambda>sz s.
       Ret 0 (upd_proc p (\<lambda>q. q\<lparr>p_sz := sz\<rparr>) s))
     else Ret 0 (upd_proc p (\<lambda>q. q\<lparr>p_sz := sz\<rparr>) s))"

end
