(* ===== verification/PageTable.thy ===== *)
theory PageTable
  imports Vm
begin

text \<open>
  What the page tables of \<open>Vm\<close> mean. The tables under a root form a tree of disjoint pages; a
  translation is a path in it. Extending a table keeps the tree, keeps every translation it
  had and touches no page outside the tree and the free list.
\<close>

section \<open>Entries\<close>

lemma take_bit_aligned: "unat (p :: u64) mod PGSIZE = 0 \<Longrightarrow> take_bit 12 p = 0"
proof -
  assume "unat p mod PGSIZE = 0"
  then have "unat (take_bit 12 p) = 0"
    by (simp only: unsigned_take_bit_eq) (simp add: take_bit_eq_mod PGSIZE_def)
  then show ?thesis by (simp only: unat_eq_0)
qed

lemma bit_aligned: "unat (p :: u64) mod PGSIZE = 0 \<Longrightarrow> n < 12 \<Longrightarrow> \<not> bit p n"
  by (metis bit_0_eq bit_take_bit_iff bot_apply bot_bool_def take_bit_aligned)

lemma bit_small:
  fixes f :: u64
  assumes "take_bit 10 f = f" and "10 \<le> n"
  shows "\<not> bit f n"
  using assms by (metis bit_take_bit_iff linorder_not_less)

lemma PTE2PA_PA2PTE:
  assumes "unat pa mod PGSIZE = 0" and "take_bit 10 f = f"
  shows "PTE2PA (PA2PTE pa OR f) = pa"
proof (rule bit_word_eqI)
  fix n assume n: "n < LENGTH(64)"
  show "bit (PTE2PA (PA2PTE pa OR f)) n = bit pa n"
  proof (cases "n < 12")
    case True
    then show ?thesis using bit_aligned[OF assms(1)] by (simp add: PTE2PA_def bit_simps)
  next
    case False
    then have "\<not> bit f (n - 2)" by (intro bit_small[OF assms(2)]) simp
    moreover have "10 + (n - 12) = n - 2" "12 + (n - 2 - 10) = n" using False by simp_all
    ultimately show ?thesis
      using False n by (auto simp: PTE2PA_def PA2PTE_def bit_simps)
  qed
qed

lemma PTE_FLAGS_PA2PTE:
  assumes "take_bit 10 f = f"
  shows "PTE_FLAGS (PA2PTE pa OR f) = f"
proof -
  have "(0x3FF :: u64) = mask 10" by (simp add: mask_eq_exp_minus_1)
  then have "PTE_FLAGS (PA2PTE pa OR f) = take_bit 10 (PA2PTE pa OR f)"
    by (simp add: PTE_FLAGS_def take_bit_eq_mask)
  also have "\<dots> = take_bit 10 f"
    by (rule bit_eqI) (auto simp: PA2PTE_def bit_simps)
  finally show ?thesis using assms by simp
qed

definition valid :: "u64 \<Rightarrow> bool" where
  "valid e \<longleftrightarrow> e AND PTE_V \<noteq> 0"

lemma valid_bit: "valid e \<longleftrightarrow> bit e 0"
proof -
  have "e AND PTE_V = (if bit e 0 then 1 else 0)"
    by (rule bit_eqI) (auto simp: PTE_V_def bit_simps intro: gr0I)
  then show ?thesis by (simp add: valid_def)
qed

lemma valid_or [simp]: "valid (e OR PTE_V)" "valid (e OR f OR PTE_V)"
  by (simp_all add: valid_bit PTE_V_def bit_simps)

lemma not_valid_0 [simp]: "\<not> valid 0"
  by (simp add: valid_def)

section \<open>Slots\<close>

definition slot :: "u64 \<Rightarrow> nat \<Rightarrow> u64" where
  "slot pt i = pt + 8 * of_nat i"

definition ent :: "memory \<Rightarrow> u64 \<Rightarrow> nat \<Rightarrow> u64" where
  "ent m pt i = ld64 m (slot pt i)"

definition px :: "nat \<Rightarrow> u64 \<Rightarrow> nat" where
  "px l va = unat (PX l va)"

lemma px_less [simp]: "px l va < 512"
proof -
  have "PX l va = take_bit 9 (drop_bit (12 + 9 * l) va)"
    by (simp add: PX_def take_bit_eq_mask mask_eq_exp_minus_1)
  then have "px l va = take_bit 9 (unat (drop_bit (12 + 9 * l) va))"
    by (simp add: px_def unsigned_take_bit_eq)
  then show ?thesis by (simp add: take_bit_eq_mod)
qed

lemma slot_px: "pt + 8 * PX l va = slot pt (px l va)"
  by (simp add: slot_def px_def)

lemma unat_slot:
  assumes "page_ok e pt" and "i < 512"
  shows "unat (slot pt i) = unat pt + 8 * i"
proof -
  have "slot pt i = pt + of_nat (8 * i)" by (simp add: slot_def)
  also have "unat \<dots> = unat pt + 8 * i"
    using page_ok_bound[OF assms(1)] assms(2) by (intro unat_add_of_nat) (simp add: PGSIZE_def)
  finally show ?thesis .
qed

text \<open>Two memories that agree on a page.\<close>

definition page_eq :: "memory \<Rightarrow> memory \<Rightarrow> u64 \<Rightarrow> bool" where
  "page_eq m m' p \<longleftrightarrow> (\<forall>k < PGSIZE. m (p + of_nat k) = m' (p + of_nat k))"

lemma page_eq_refl [simp]: "page_eq m m p"
  by (simp add: page_eq_def)

lemma page_eq_sym: "page_eq m m' p \<Longrightarrow> page_eq m' m p"
  by (simp add: page_eq_def)

lemma page_eq_trans: "page_eq m m' p \<Longrightarrow> page_eq m' m'' p \<Longrightarrow> page_eq m m'' p"
  by (simp add: page_eq_def)

lemma ent_page_eq:
  assumes "page_eq m m' pt" and "i < 512"
  shows "ent m pt i = ent m' pt i"
proof -
  have "m (slot pt i + of_nat k) = m' (slot pt i + of_nat k)" if "k < 8" for k
  proof -
    have "slot pt i + of_nat k = pt + of_nat (8 * i + k)" by (simp add: slot_def)
    moreover have "8 * i + k < PGSIZE" using that assms(2) by (simp add: PGSIZE_def)
    ultimately show ?thesis using assms(1) by (simp only: page_eq_def)
  qed
  then show ?thesis by (simp add: ent_def ld64_def cong: ld_cong)
qed

lemma page_eq_apart:
  assumes "\<And>x. \<not> unat (x - a) < n \<Longrightarrow> m' x = m x" and "apart a n q PGSIZE"
    and "unat a + n < 2 ^ 64" and "unat q + PGSIZE < 2 ^ 64"
  shows "page_eq m m' q"
  unfolding page_eq_def using assms(1) offset_apart[OF assms(2) _ assms(3,4)] by metis

lemma page_eq_filled:
  assumes "page_ok e p" and "page_ok e q" and "p \<noteq> q"
  shows "page_eq m (filled m p c PGSIZE) q"
  by (rule page_eq_apart[where a = p and n = PGSIZE])
    (use page_apart[OF assms] page_ok_bound assms in \<open>auto simp: filled_def\<close>)

lemma page_eq_st64:
  assumes "page_ok e p" and "page_ok e q" and "p \<noteq> q" and "i < 512"
  shows "page_eq m (st64 m (slot p i) v) q"
proof (rule page_eq_apart[where a = "slot p i" and n = 8])
  show "apart (slot p i) 8 q PGSIZE"
    using page_apart[OF assms(1-3)] assms(4)
    by (auto simp: apart_def unat_slot[OF assms(1,4)] PGSIZE_def)
  show "unat (slot p i) + 8 < 2 ^ 64" "unat q + PGSIZE < 2 ^ 64"
    using page_ok_bound[OF assms(1)] page_ok_bound[OF assms(2)] assms(4)
    by (simp_all add: unat_slot[OF assms(1,4)] PGSIZE_def)
qed (simp add: st64_def st_def)

lemma ent_st64_same [simp]: "ent (st64 m (slot p i) v) p i = v"
  by (simp add: ent_def)

lemma ent_st64_other:
  assumes "page_ok e p" and "i < 512" and "j < 512" and "i \<noteq> j"
  shows "ent (st64 m (slot p i) v) p j = ent m p j"
  unfolding ent_def
  by (rule ld64_st64_apart)
    (use assms page_ok_bound[OF assms(1)] in
      \<open>auto simp: apart_def unat_slot[OF assms(1)] PGSIZE_def\<close>)

lemma ent_zero:
  assumes "i < 512"
  shows "ent (filled m p 0 PGSIZE) p i = 0"
proof -
  have "filled m p 0 PGSIZE (slot p i + of_nat k) = 0" if "k < 8" for k
  proof -
    have "slot p i + of_nat k - p = of_nat (8 * i + k)" by (simp add: slot_def)
    moreover have "unat (of_nat (8 * i + k) :: u64) = 8 * i + k"
      using that assms by (intro unat_of_nat_u64) simp
    ultimately have "unat (slot p i + of_nat k - p) = 8 * i + k" by (simp only:)
    then show ?thesis using that assms by (simp add: filled_def PGSIZE_def)
  qed
  then have "map (\<lambda>k. filled m p 0 PGSIZE (slot p i + of_nat k)) [0..<8] = replicate 8 0"
    by (intro nth_equalityI) simp_all
  moreover have "le_val (replicate n 0) = 0" for n by (induction n) simp_all
  ultimately show ?thesis by (simp add: ent_def ld64_def ld_def)
qed

section \<open>Trees of tables\<close>

text \<open>The leaf slot a virtual address leads to, without allocation.\<close>

fun pwalk :: "memory \<Rightarrow> nat \<Rightarrow> u64 \<Rightarrow> u64 \<Rightarrow> u64 option" where
  "pwalk m 0 pt va = Some (slot pt (px 0 va))"
| "pwalk m (Suc l) pt va =
     (let e = ent m pt (px (Suc l) va) in if valid e then pwalk m l (PTE2PA e) va else None)"

text \<open>The pages of the tables under a table of level \<open>l\<close>.\<close>

fun tabs :: "memory \<Rightarrow> nat \<Rightarrow> u64 \<Rightarrow> u64 set" where
  "tabs m 0 pt = {pt}"
| "tabs m (Suc l) pt =
     insert pt (\<Union>i \<in> {i. i < 512 \<and> valid (ent m pt i)}. tabs m l (PTE2PA (ent m pt i)))"

fun tree :: "u64 \<Rightarrow> memory \<Rightarrow> nat \<Rightarrow> u64 \<Rightarrow> bool" where
  "tree e m 0 pt \<longleftrightarrow> page_ok e pt"
| "tree e m (Suc l) pt \<longleftrightarrow> page_ok e pt \<and>
     (\<forall>i < 512. valid (ent m pt i) \<longrightarrow>
        tree e m l (PTE2PA (ent m pt i)) \<and> pt \<notin> tabs m l (PTE2PA (ent m pt i))) \<and>
     (\<forall>i < 512. \<forall>j < 512. i \<noteq> j \<and> valid (ent m pt i) \<and> valid (ent m pt j) \<longrightarrow>
        tabs m l (PTE2PA (ent m pt i)) \<inter> tabs m l (PTE2PA (ent m pt j)) = {})"

lemma root_in_tabs [simp]: "pt \<in> tabs m l pt"
  by (cases l) simp_all

lemma tree_root: "tree e m l pt \<Longrightarrow> page_ok e pt"
  by (cases l) simp_all

lemma tree_page: "tree e m l pt \<Longrightarrow> p \<in> tabs m l pt \<Longrightarrow> page_ok e p"
  by (induction m l pt rule: tabs.induct) auto

lemma child_tabs: "i < 512 \<Longrightarrow> valid (ent m pt i) \<Longrightarrow> tabs m l (PTE2PA (ent m pt i)) \<subseteq> tabs m (Suc l) pt"
  by auto

lemma pwalk_slot:
  "pwalk m l pt va = Some a \<Longrightarrow> \<exists>q \<in> tabs m l pt. \<exists>j < 512. a = slot q j"
proof (induction m l pt va rule: pwalk.induct)
  case (1 m pt va)
  then show ?case by (auto intro!: exI[of _ "px 0 va"])
next
  case (2 m l pt va)
  let ?i = "px (Suc l) va"
  have v: "valid (ent m pt ?i)" using 2(2) by (simp add: Let_def split: if_splits)
  with 2 have "\<exists>q \<in> tabs m l (PTE2PA (ent m pt ?i)). \<exists>j < 512. a = slot q j"
    by (simp add: Let_def)
  then show ?case using child_tabs[OF px_less v, of l] by blast
qed

text \<open>A tree depends only on the pages of its tables.\<close>

lemma tree_cong:
  assumes "\<And>p. p \<in> tabs m l pt \<Longrightarrow> page_eq m m' p"
  shows "tabs m' l pt = tabs m l pt \<and> (tree e m' l pt \<longleftrightarrow> tree e m l pt) \<and>
    (\<forall>va. pwalk m' l pt va = pwalk m l pt va)"
  using assms
proof (induction l arbitrary: pt)
  case 0
  then show ?case by simp
next
  case (Suc l)
  have e: "ent m' pt i = ent m pt i" if "i < 512" for i
    using Suc.prems[of pt] that by (simp add: ent_page_eq)
  have c: "tabs m' l (PTE2PA (ent m pt i)) = tabs m l (PTE2PA (ent m pt i)) \<and>
      (tree e m' l (PTE2PA (ent m pt i)) \<longleftrightarrow> tree e m l (PTE2PA (ent m pt i))) \<and>
      (\<forall>va. pwalk m' l (PTE2PA (ent m pt i)) va = pwalk m l (PTE2PA (ent m pt i)) va)"
    if "i < 512" "valid (ent m pt i)" for i
    using Suc.prems child_tabs[OF that] by (intro Suc.IH) blast
  have "tabs m' (Suc l) pt = tabs m (Suc l) pt" using e c by (auto simp: set_eq_iff)
  moreover have "tree e m' (Suc l) pt \<longleftrightarrow> tree e m (Suc l) pt" using e c by (simp cong: conj_cong)
  moreover have "pwalk m' (Suc l) pt va = pwalk m (Suc l) pt va" for va
    using e[of "px (Suc l) va"] c[of "px (Suc l) va"] by (simp add: Let_def)
  ultimately show ?case by blast
qed

lemma zero_table:
  assumes "\<And>i. i < 512 \<Longrightarrow> \<not> valid (ent m p i)"
  shows "tabs m l p = {p}" and "page_ok e p \<Longrightarrow> tree e m l p"
proof -
  show "tabs m l p = {p}"
  proof (cases l)
    case (Suc k)
    have "{i. i < 512 \<and> valid (ent m p i)} = {}" using assms by blast
    then show ?thesis by (simp only: Suc tabs.simps) simp
  qed simp
  show "page_ok e p \<Longrightarrow> tree e m l p"
  proof (cases l)
    case (Suc k)
    assume "page_ok e p"
    then show ?thesis using assms by (simp only: Suc tree.simps) blast
  qed simp
qed

section \<open>Extensions\<close>

text \<open>
  \<open>m'\<close> extends the table of \<open>m\<close> with pages from \<open>new\<close>: the tree and every translation
  are kept, and no page outside the tree and \<open>new\<close> changes.
\<close>

definition ext :: "u64 \<Rightarrow> memory \<Rightarrow> nat \<Rightarrow> u64 \<Rightarrow> memory \<Rightarrow> u64 set \<Rightarrow> bool" where
  "ext e m l pt m' new \<longleftrightarrow> tree e m' l pt \<and> tabs m l pt \<subseteq> tabs m' l pt \<and>
     tabs m' l pt \<subseteq> tabs m l pt \<union> new \<and>
     (\<forall>q. page_ok e q \<longrightarrow> q \<notin> tabs m l pt \<longrightarrow> q \<notin> new \<longrightarrow> page_eq m m' q) \<and>
     (\<forall>va a. pwalk m l pt va = Some a \<longrightarrow> pwalk m' l pt va = Some a \<and> ld64 m' a = ld64 m a) \<and>
     (\<forall>va a. pwalk m l pt va = None \<longrightarrow> pwalk m' l pt va = Some a \<longrightarrow> \<not> valid (ld64 m' a))"

lemma ext_refl: "tree e m l pt \<Longrightarrow> ext e m l pt m new"
  by (simp add: ext_def)

lemma extD:
  assumes "ext e m l pt m' new"
  shows "tree e m' l pt" "tabs m l pt \<subseteq> tabs m' l pt" "tabs m' l pt \<subseteq> tabs m l pt \<union> new"
    "\<And>q. page_ok e q \<Longrightarrow> q \<notin> tabs m l pt \<Longrightarrow> q \<notin> new \<Longrightarrow> page_eq m m' q"
    "\<And>va a. pwalk m l pt va = Some a \<Longrightarrow> pwalk m' l pt va = Some a"
    "\<And>va a. pwalk m l pt va = Some a \<Longrightarrow> ld64 m' a = ld64 m a"
    "\<And>va a. pwalk m l pt va = None \<Longrightarrow> pwalk m' l pt va = Some a \<Longrightarrow> \<not> valid (ld64 m' a)"
  using assms by (simp_all add: ext_def)

lemma extI:
  assumes "tree e m' l pt" "tabs m l pt \<subseteq> tabs m' l pt" "tabs m' l pt \<subseteq> tabs m l pt \<union> new"
    "\<And>q. page_ok e q \<Longrightarrow> q \<notin> tabs m l pt \<Longrightarrow> q \<notin> new \<Longrightarrow> page_eq m m' q"
    "\<And>va a. pwalk m l pt va = Some a \<Longrightarrow> pwalk m' l pt va = Some a \<and> ld64 m' a = ld64 m a"
    "\<And>va a. pwalk m l pt va = None \<Longrightarrow> pwalk m' l pt va = Some a \<Longrightarrow> \<not> valid (ld64 m' a)"
  shows "ext e m l pt m' new"
  using assms by (simp add: ext_def)

lemma ext_trans:
  assumes "ext e m l pt m1 n1" and "ext e m1 l pt m2 n2"
  shows "ext e m l pt m2 (n1 \<union> n2)"
proof -
  note a = extD[OF assms(1)] and b = extD[OF assms(2)]
  have "page_eq m m2 q" if "page_ok e q" "q \<notin> tabs m l pt" "q \<notin> n1 \<union> n2" for q
  proof (rule page_eq_trans)
    show "page_eq m m1 q" using that by (intro a(4)) auto
    show "page_eq m1 m2 q" using that a(3) by (intro b(4)) auto
  qed
  moreover have "ld64 m2 a = ld64 m a" if "pwalk m l pt va = Some a" for va a
    using b(6)[OF a(5)[OF that]] a(6)[OF that] by simp
  moreover have "tabs m l pt \<subseteq> tabs m2 l pt" "tabs m2 l pt \<subseteq> tabs m l pt \<union> (n1 \<union> n2)"
    using a(2,3) b(2,3) by blast+
  moreover have "\<not> valid (ld64 m2 a)" if n: "pwalk m l pt va = None" and w: "pwalk m2 l pt va = Some a" for va a
  proof (cases "pwalk m1 l pt va")
    case None
    then show ?thesis using b(7) w by blast
  next
    case (Some a')
    then have "a' = a" using b(5)[OF Some] w by simp
    then show ?thesis using a(7)[OF n Some] b(6)[OF Some] by simp
  qed
  ultimately show ?thesis
    using a(5) b(1,5) by (intro extI) blast+
qed

lemma disjoint_ext:
  "A' \<subseteq> A \<union> X \<Longrightarrow> B' \<subseteq> B \<union> Y \<Longrightarrow> A \<inter> B = {} \<Longrightarrow> X \<inter> B = {} \<Longrightarrow> A \<inter> Y = {} \<Longrightarrow>
    X \<inter> Y = {} \<Longrightarrow> A' \<inter> B' = {}"
  by blast

text \<open>An extension below one entry of a table, with new pages from outside the tree.\<close>

definition ext_below :: "u64 \<Rightarrow> memory \<Rightarrow> nat \<Rightarrow> u64 \<Rightarrow> nat \<Rightarrow> memory \<Rightarrow> u64 set \<Rightarrow> bool" where
  "ext_below e m l pt i m' new \<longleftrightarrow> tree e m (Suc l) pt \<and> i < 512 \<and> valid (ent m pt i) \<and>
     ext e m l (PTE2PA (ent m pt i)) m' new \<and> new \<inter> tabs m (Suc l) pt = {}"

abbreviation kid :: "memory \<Rightarrow> u64 \<Rightarrow> nat \<Rightarrow> u64" where
  "kid m pt j \<equiv> PTE2PA (ent m pt j)"

lemma tree_kid:
  assumes "tree e m (Suc l) pt" and "j < 512" and "valid (ent m pt j)"
  shows "tree e m l (kid m pt j)" "pt \<notin> tabs m l (kid m pt j)"
    "\<And>k. k < 512 \<Longrightarrow> k \<noteq> j \<Longrightarrow> valid (ent m pt k) \<Longrightarrow>
      tabs m l (kid m pt j) \<inter> tabs m l (kid m pt k) = {}"
  using assms by auto

lemma ext_below_root:
  assumes "ext_below e m l pt i m' new"
  shows "page_eq m m' pt" and "j < 512 \<Longrightarrow> ent m' pt j = ent m pt j"
proof -
  have x: "tree e m (Suc l) pt" "i < 512" "valid (ent m pt i)" "ext e m l (kid m pt i) m' new"
    "new \<inter> tabs m (Suc l) pt = {}" using assms by (simp_all add: ext_below_def)
  have "pt \<notin> new" using x(5) root_in_tabs[of pt m "Suc l"] by blast
  then show p: "page_eq m m' pt"
    using extD(4)[OF x(4) tree_root[OF x(1)] tree_kid(2)[OF x(1-3)]] by blast
  then show "j < 512 \<Longrightarrow> ent m' pt j = ent m pt j" by (simp add: ent_page_eq)
qed

lemma ext_below_sibling:
  assumes "ext_below e m l pt i m' new" and "j < 512" and "valid (ent m pt j)" and "j \<noteq> i"
  shows "p \<in> tabs m l (kid m pt j) \<Longrightarrow> page_eq m m' p"
    and "tabs m' l (kid m pt j) = tabs m l (kid m pt j)" and "tree e m' l (kid m pt j)"
    and "pwalk m' l (kid m pt j) va = pwalk m l (kid m pt j) va"
proof -
  have x: "tree e m (Suc l) pt" "i < 512" "valid (ent m pt i)" "ext e m l (kid m pt i) m' new"
    "new \<inter> tabs m (Suc l) pt = {}" using assms(1) by (simp_all add: ext_below_def)
  note t = tree_kid[OF x(1) assms(2,3)]
  have eq: "page_eq m m' p" if "p \<in> tabs m l (kid m pt j)" for p
  proof (rule extD(4)[OF x(4)])
    show "page_ok e p" by (rule tree_page[OF t(1) that])
    show "p \<notin> tabs m l (kid m pt i)" using t(3)[OF x(2) _ x(3)] assms(4) that by blast
    show "p \<notin> new" using x(5) child_tabs[OF assms(2,3), of l] that by blast
  qed
  then show "p \<in> tabs m l (kid m pt j) \<Longrightarrow> page_eq m m' p" .
  show "tabs m' l (kid m pt j) = tabs m l (kid m pt j)" "tree e m' l (kid m pt j)"
    "pwalk m' l (kid m pt j) va = pwalk m l (kid m pt j) va"
    using tree_cong[OF eq, where e = e] t(1) by simp_all
qed

lemma ext_below_kid:
  assumes "ext_below e m l pt i m' new" and "j < 512" and "valid (ent m pt j)"
  shows "tree e m' l (kid m pt j) \<and> pt \<notin> tabs m' l (kid m pt j) \<and>
    tabs m l (kid m pt j) \<subseteq> tabs m' l (kid m pt j) \<and>
    tabs m' l (kid m pt j) \<subseteq> tabs m l (kid m pt j) \<union> (if j = i then new else {})"
proof -
  have x: "tree e m (Suc l) pt" "ext e m l (kid m pt i) m' new"
    "new \<inter> tabs m (Suc l) pt = {}" using assms(1) by (simp_all add: ext_below_def)
  note t = tree_kid[OF x(1) assms(2,3)]
  have "pt \<notin> new" using x(3) root_in_tabs[of pt m "Suc l"] by blast
  show ?thesis
  proof (cases "j = i")
    case True
    have "pt \<notin> tabs m' l (kid m pt i)"
      using extD(3)[OF x(2)] t(2) \<open>pt \<notin> new\<close> unfolding True by blast
    then show ?thesis using extD(1-3)[OF x(2)] unfolding True by simp
  next
    case False
    then show ?thesis using t(1,2) ext_below_sibling(2,3)[OF assms False] by simp
  qed
qed

lemma ext_below_disjoint:
  assumes "ext_below e m l pt i m' new" and "j < 512" and "valid (ent m pt j)"
    and "k < 512" and "valid (ent m pt k)" and "j \<noteq> k"
  shows "tabs m' l (kid m pt j) \<inter> tabs m' l (kid m pt k) = {}"
proof -
  have x: "tree e m (Suc l) pt" "new \<inter> tabs m (Suc l) pt = {}"
    using assms(1) by (simp_all add: ext_below_def)
  have old: "tabs m l (kid m pt j) \<inter> tabs m l (kid m pt k) = {}"
    using tree_kid(3)[OF x(1) assms(2,3,4) _ assms(5)] assms(6) by metis
  have nj: "new \<inter> tabs m l (kid m pt j) = {}" and nk: "new \<inter> tabs m l (kid m pt k) = {}"
    using x(2) child_tabs[OF assms(2,3), of l] child_tabs[OF assms(4,5), of l] by blast+
  note sj = ext_below_kid[OF assms(1-3), THEN conjunct2, THEN conjunct2, THEN conjunct2]
  note sk = ext_below_kid[OF assms(1,4,5), THEN conjunct2, THEN conjunct2, THEN conjunct2]
  show ?thesis
    by (rule disjoint_ext[OF sj sk old]) (use nj nk assms(6) in \<open>simp_all add: Int_commute\<close>)
qed

text \<open>An extension below one entry is an extension of the table.\<close>

lemma ext_below_tabs:
  assumes "ext_below e m l pt i m' new"
  shows "tabs m (Suc l) pt \<subseteq> tabs m' (Suc l) pt"
    and "tabs m' (Suc l) pt \<subseteq> tabs m (Suc l) pt \<union> new"
proof -
  note k = ext_below_kid[OF assms] and r = ext_below_root(2)[OF assms]
  have eq: "tabs m' (Suc l) pt = insert pt (\<Union>j \<in> {j. j < 512 \<and> valid (ent m pt j)}. tabs m' l (kid m pt j))"
    using r by auto
  show "tabs m (Suc l) pt \<subseteq> tabs m' (Suc l) pt"
  proof
    fix x assume "x \<in> tabs m (Suc l) pt"
    then consider "x = pt" | j where "j < 512" "valid (ent m pt j)" "x \<in> tabs m l (kid m pt j)"
      by auto
    then show "x \<in> tabs m' (Suc l) pt"
    proof cases
      case 2
      then have "x \<in> tabs m' l (kid m pt j)" using k[of j] by blast
      with 2 show ?thesis unfolding eq by blast
    qed simp
  qed
  show "tabs m' (Suc l) pt \<subseteq> tabs m (Suc l) pt \<union> new"
  proof
    fix x assume "x \<in> tabs m' (Suc l) pt"
    then consider "x = pt" | j where "j < 512" "valid (ent m pt j)" "x \<in> tabs m' l (kid m pt j)"
      unfolding eq by blast
    then show "x \<in> tabs m (Suc l) pt \<union> new"
    proof cases
      case 2
      then have "x \<in> tabs m l (kid m pt j) \<union> new" using k[of j] by (auto split: if_splits)
      then show ?thesis using child_tabs[OF 2(1,2), of l] by blast
    qed simp
  qed
qed

lemma ext_below_walk:
  assumes "ext_below e m l pt i m' new" and w: "pwalk m (Suc l) pt va = Some a"
  shows "pwalk m' (Suc l) pt va = Some a \<and> ld64 m' a = ld64 m a"
proof -
  let ?j = "px (Suc l) va"
  have x: "ext e m l (kid m pt i) m' new" using assms(1) by (simp add: ext_below_def)
  have v: "valid (ent m pt ?j)" and w': "pwalk m l (kid m pt ?j) va = Some a"
    using w by (simp_all add: Let_def split: if_splits)
  have "pwalk m' l (kid m pt ?j) va = Some a \<and> ld64 m' a = ld64 m a"
  proof (cases "?j = i")
    case True
    then show ?thesis using w' extD(5,6)[OF x] by simp
  next
    case False
    note sib = ext_below_sibling[OF assms(1) px_less v False]
    obtain q k where q: "q \<in> tabs m l (kid m pt ?j)" "k < 512" "a = slot q k"
      using pwalk_slot[OF w'] by blast
    have "ld64 m' a = ld64 m a"
      using q(2,3) ent_page_eq[OF sib(1)[OF q(1)], of k] by (simp add: ent_def)
    then show ?thesis using w' sib(4) by simp
  qed
  then show ?thesis using v ext_below_root(2)[OF assms(1) px_less] by (simp add: Let_def)
qed

lemma ext_below_unwalked:
  assumes "ext_below e m l pt i m' new" and n: "pwalk m (Suc l) pt va = None"
    and w: "pwalk m' (Suc l) pt va = Some a"
  shows "\<not> valid (ld64 m' a)"
proof -
  let ?j = "px (Suc l) va"
  have x: "ext e m l (kid m pt i) m' new" using assms(1) by (simp add: ext_below_def)
  have v: "valid (ent m pt ?j)" and w': "pwalk m' l (kid m pt ?j) va = Some a"
    using w ext_below_root(2)[OF assms(1) px_less] by (simp_all add: Let_def split: if_splits)
  have n': "pwalk m l (kid m pt ?j) va = None" using n v by (simp add: Let_def)
  show ?thesis
  proof (cases "?j = i")
    case True
    then show ?thesis using w' n' extD(7)[OF x] by simp
  next
    case False
    then show ?thesis using w' n' ext_below_sibling(4)[OF assms(1) px_less v False] by simp
  qed
qed

lemma ext_child:
  assumes "ext_below e m l pt i m' new"
  shows "ext e m (Suc l) pt m' new"
proof -
  have x: "tree e m (Suc l) pt" "i < 512" "valid (ent m pt i)" "ext e m l (kid m pt i) m' new"
    using assms by (simp_all add: ext_below_def)
  note root = ext_below_root(2)[OF assms]
  have "tree e m' (Suc l) pt"
    unfolding tree.simps(2)
  proof (intro conjI allI impI)
    show "page_ok e pt" by (rule tree_root[OF x(1)])
    fix j assume j: "j < 512" "valid (ent m' pt j)"
    then have v: "valid (ent m pt j)" using root by simp
    show "tree e m' l (kid m' pt j)" "pt \<notin> tabs m' l (kid m' pt j)"
      using ext_below_kid[OF assms j(1) v] root[OF j(1)] by simp_all
  next
    fix j k assume "j < 512" "k < 512" "j \<noteq> k \<and> valid (ent m' pt j) \<and> valid (ent m' pt k)"
    then show "tabs m' l (kid m' pt j) \<inter> tabs m' l (kid m' pt k) = {}"
      using ext_below_disjoint[OF assms, of j k] root[of j] root[of k] by simp
  qed
  moreover have "page_eq m m' q" if "page_ok e q" "q \<notin> tabs m (Suc l) pt" "q \<notin> new" for q
    using that(2) child_tabs[OF x(2,3), of l] by (intro extD(4)[OF x(4) that(1) _ that(3)]) blast
  ultimately show ?thesis by (rule extI[OF _ ext_below_tabs[OF assms] _ ext_below_walk[OF assms] ext_below_unwalked[OF assms]])
qed

text \<open>
  A fresh page \<open>p\<close>, cleared and entered into a free slot, is an extension. The memory
  before the page is cleared may differ from the old one on \<open>p\<close>.
\<close>

definition enters :: "u64 \<Rightarrow> memory \<Rightarrow> u64 \<Rightarrow> nat \<Rightarrow> u64 \<Rightarrow> memory \<Rightarrow> bool" where
  "enters e m pt i p m1 \<longleftrightarrow> i < 512 \<and> \<not> valid (ent m pt i) \<and> page_ok e p \<and> page_ok e pt \<and> pt \<noteq> p \<and>
     (\<exists>m0. (\<forall>q. page_ok e q \<longrightarrow> q \<noteq> p \<longrightarrow> page_eq m m0 q) \<and>
        m1 = st64 (filled m0 p 0 PGSIZE) (slot pt i) (PA2PTE p OR PTE_V))"

lemma enters_entry:
  assumes "enters e m pt i p m1"
  shows "ent m1 pt i = PA2PTE p OR PTE_V" and "kid m1 pt i = p" and "valid (ent m1 pt i)"
proof -
  show e: "ent m1 pt i = PA2PTE p OR PTE_V" using assms by (auto simp: enters_def)
  show "kid m1 pt i = p"
    unfolding e using assms by (intro PTE2PA_PA2PTE) (simp_all add: enters_def page_ok_def PTE_V_def)
  show "valid (ent m1 pt i)" by (simp add: e)
qed

lemma enters_frame:
  assumes "enters e m pt i p m1"
  shows "page_ok e q \<Longrightarrow> q \<noteq> p \<Longrightarrow> q \<noteq> pt \<Longrightarrow> page_eq m m1 q"
    and "j < 512 \<Longrightarrow> j \<noteq> i \<Longrightarrow> ent m1 pt j = ent m pt j"
    and "j < 512 \<Longrightarrow> \<not> valid (ent m1 p j)"
proof -
  obtain m0 where m0: "\<And>q. page_ok e q \<Longrightarrow> q \<noteq> p \<Longrightarrow> page_eq m m0 q"
    and m1: "m1 = st64 (filled m0 p 0 PGSIZE) (slot pt i) (PA2PTE p OR PTE_V)"
    using assms by (auto simp: enters_def)
  have p: "page_ok e p" "page_ok e pt" "pt \<noteq> p" "i < 512" using assms by (auto simp: enters_def)
  have fill: "page_eq m (filled m0 p 0 PGSIZE) q" if "page_ok e q" "q \<noteq> p" for q
    by (rule page_eq_trans[OF m0[OF that] page_eq_filled[OF p(1) that(1)]]) (use that in simp)
  show "page_eq m m1 q" if "page_ok e q" "q \<noteq> p" "q \<noteq> pt"
    unfolding m1
    by (rule page_eq_trans[OF fill[OF that(1,2)] page_eq_st64[OF p(2) that(1) _ p(4)]]) (use that in simp)
  show "ent m1 pt j = ent m pt j" if "j < 512" "j \<noteq> i"
    unfolding m1 using that ent_st64_other[OF p(2,4)] ent_page_eq[OF fill[OF p(2,3)]] by simp
  show "\<not> valid (ent m1 p j)" if "j < 512"
  proof -
    have "page_eq (filled m0 p 0 PGSIZE) m1 p" unfolding m1 by (rule page_eq_st64[OF p(2,1,3,4)])
    then have "ent m1 p j = ent (filled m0 p 0 PGSIZE) p j" using that by (simp add: ent_page_eq)
    then show ?thesis using ent_zero[OF that] by simp
  qed
qed

lemma enters_kid:
  assumes "enters e m pt i p m1" and "tree e m (Suc l) pt" and "p \<notin> tabs m (Suc l) pt"
    and "j < 512" and "valid (ent m pt j)"
  shows "j \<noteq> i" and "kid m1 pt j = kid m pt j" and "valid (ent m1 pt j)"
    and "q \<in> tabs m l (kid m pt j) \<Longrightarrow> page_eq m m1 q"
    and "tabs m1 l (kid m pt j) = tabs m l (kid m pt j)" and "tree e m1 l (kid m pt j)"
    and "pwalk m1 l (kid m pt j) va = pwalk m l (kid m pt j) va"
proof -
  note t = tree_kid[OF assms(2,4,5)]
  show ji: "j \<noteq> i" using assms(1,5) by (auto simp: enters_def)
  show "kid m1 pt j = kid m pt j" "valid (ent m1 pt j)"
    using enters_frame(2)[OF assms(1,4) ji] assms(5) by simp_all
  have eq: "page_eq m m1 q" if "q \<in> tabs m l (kid m pt j)" for q
  proof (rule enters_frame(1)[OF assms(1)])
    show "page_ok e q" by (rule tree_page[OF t(1) that])
    show "q \<noteq> p" using assms(3) child_tabs[OF assms(4,5), of l] that by blast
    show "q \<noteq> pt" using t(2) that by blast
  qed
  then show "q \<in> tabs m l (kid m pt j) \<Longrightarrow> page_eq m m1 q" .
  show "tabs m1 l (kid m pt j) = tabs m l (kid m pt j)" "tree e m1 l (kid m pt j)"
    "pwalk m1 l (kid m pt j) va = pwalk m l (kid m pt j) va"
    using tree_cong[OF eq, where e = e] t(1) by simp_all
qed

lemma enters_fresh:
  assumes "enters e m pt i p m1"
  shows "tabs m1 l p = {p}" and "tree e m1 l p"
  using zero_table[OF enters_frame(3)[OF assms]] assms by (simp_all add: enters_def)

lemma enters_unwalked:
  assumes "enters e m pt i p m1" and "px (Suc l) va = i" and "pwalk m1 l p va = Some a"
  shows "\<not> valid (ld64 m1 a)"
proof (cases l)
  case 0
  then have "a = slot p (px 0 va)" using assms(3) by simp
  then show ?thesis using enters_frame(3)[OF assms(1), of "px 0 va"] by (simp add: ent_def)
next
  case (Suc k)
  then show ?thesis using assms(3) enters_frame(3)[OF assms(1), of "px l va"] by (simp add: Let_def)
qed

lemma enters_tabs:
  assumes "enters e m pt i p m1" and "tree e m (Suc l) pt" and "p \<notin> tabs m (Suc l) pt"
  shows "tabs m1 (Suc l) pt = insert p (tabs m (Suc l) pt)"
proof -
  note k = enters_kid[OF assms]
  have i: "i < 512" "\<not> valid (ent m pt i)" using assms(1) by (simp_all add: enters_def)
  have "{j. j < 512 \<and> valid (ent m1 pt j)} = insert i {j. j < 512 \<and> valid (ent m pt j)}"
  proof (rule set_eqI)
    fix j
    show "j \<in> {j. j < 512 \<and> valid (ent m1 pt j)} \<longleftrightarrow> j \<in> insert i {j. j < 512 \<and> valid (ent m pt j)}"
      using enters_frame(2)[OF assms(1), of j] enters_entry(3)[OF assms(1)] i by (cases "j = i") auto
  qed
  moreover have "tabs m1 l (kid m1 pt i) = {p}"
    using enters_entry(2)[OF assms(1)] enters_fresh(1)[OF assms(1)] by simp
  moreover have "(\<Union>j \<in> {j. j < 512 \<and> valid (ent m pt j)}. tabs m1 l (kid m1 pt j)) =
      (\<Union>j \<in> {j. j < 512 \<and> valid (ent m pt j)}. tabs m l (kid m pt j))"
    by (rule SUP_cong) (simp_all add: k(2,5))
  ultimately show ?thesis by (simp only: tabs.simps UN_insert) blast
qed

lemma enters_tree:
  assumes "enters e m pt i p m1" and "tree e m (Suc l) pt" and "p \<notin> tabs m (Suc l) pt"
  shows "tree e m1 (Suc l) pt"
  unfolding tree.simps(2)
proof (intro conjI allI impI)
  note k = enters_kid[OF assms] and fr = enters_fresh[OF assms(1), of l] and en = enters_entry(2)[OF assms(1)]
  have old: "valid (ent m pt j)" if "j < 512" "valid (ent m1 pt j)" "j \<noteq> i" for j
    using enters_frame(2)[OF assms(1) that(1,3)] that(2) by simp
  show "page_ok e pt" by (rule tree_root[OF assms(2)])
  fix j assume j: "j < 512" "valid (ent m1 pt j)"
  show "tree e m1 l (kid m1 pt j)"
    using fr(2) en k(2,6)[OF j(1) old[OF j]] by (cases "j = i") simp_all
  show "pt \<notin> tabs m1 l (kid m1 pt j)"
    using fr(1) en k(2,5)[OF j(1) old[OF j]] tree_kid(2)[OF assms(2) j(1) old[OF j]] assms(1)
    by (cases "j = i") (simp_all add: enters_def)
next
  note k = enters_kid[OF assms] and fr = enters_fresh[OF assms(1), of l] and en = enters_entry(2)[OF assms(1)]
  have np: "p \<notin> tabs m l (kid m pt j)" if "j < 512" "valid (ent m pt j)" for j
    using assms(3) child_tabs[OF that, of l] by blast
  fix j n assume j: "j < 512" and n: "n < 512" and v: "j \<noteq> n \<and> valid (ent m1 pt j) \<and> valid (ent m1 pt n)"
  then have vj: "j \<noteq> i \<Longrightarrow> valid (ent m pt j)" and vn: "n \<noteq> i \<Longrightarrow> valid (ent m pt n)"
    using enters_frame(2)[OF assms(1)] by auto
  show "tabs m1 l (kid m1 pt j) \<inter> tabs m1 l (kid m1 pt n) = {}"
  proof (cases "j = i")
    case True
    then have "n \<noteq> i" using v by simp
    then show ?thesis using True fr(1) en k(2,5)[OF n vn] np[OF n vn] by simp
  next
    case False
    show ?thesis
    proof (cases "n = i")
      case True
      then show ?thesis using fr(1) en k(2,5)[OF j vj[OF False]] np[OF j vj[OF False]] by simp
    next
      case n': False
      show ?thesis
        using k(2,5)[OF j vj[OF False]] k(2,5)[OF n vn[OF n']]
          tree_kid(3)[OF assms(2) j vj[OF False] n _ vn[OF n']] v by auto
    qed
  qed
qed

lemma ext_new:
  assumes "enters e m pt i p m1" and "tree e m (Suc l) pt" and "p \<notin> tabs m (Suc l) pt"
  shows "ext e m (Suc l) pt m1 {p}"
proof (rule extI)
  show "tree e m1 (Suc l) pt" by (rule enters_tree[OF assms])
  show "tabs m (Suc l) pt \<subseteq> tabs m1 (Suc l) pt" "tabs m1 (Suc l) pt \<subseteq> tabs m (Suc l) pt \<union> {p}"
    using enters_tabs[OF assms] by blast+
  show "page_eq m m1 q" if "page_ok e q" "q \<notin> tabs m (Suc l) pt" "q \<notin> {p}" for q
    using that root_in_tabs[of pt m "Suc l"] by (intro enters_frame(1)[OF assms(1)]) auto
  show "\<not> valid (ld64 m1 a)" if n: "pwalk m (Suc l) pt va = None" and w: "pwalk m1 (Suc l) pt va = Some a" for va a
  proof (rule enters_unwalked[OF assms(1)])
    show i: "px (Suc l) va = i"
    proof (rule ccontr)
      assume "px (Suc l) va \<noteq> i"
      then have en: "ent m1 pt (px (Suc l) va) = ent m pt (px (Suc l) va)"
        by (rule enters_frame(2)[OF assms(1) px_less])
      then have "valid (ent m pt (px (Suc l) va))" using w by (simp add: Let_def split: if_splits)
      then show False using n w en enters_kid(7)[OF assms px_less] by (simp add: Let_def)
    qed
    then show "pwalk m1 l p va = Some a"
      using w enters_entry(2)[OF assms(1)] by (simp add: Let_def split: if_splits)
  qed
  fix va a assume w: "pwalk m (Suc l) pt va = Some a"
  let ?j = "px (Suc l) va"
  have v: "valid (ent m pt ?j)" and w': "pwalk m l (kid m pt ?j) va = Some a"
    using w by (simp_all add: Let_def split: if_splits)
  note k = enters_kid[OF assms px_less v]
  obtain q n where q: "q \<in> tabs m l (kid m pt ?j)" "n < 512" "a = slot q n"
    using pwalk_slot[OF w'] by blast
  have "ld64 m1 a = ld64 m a" using q(2,3) ent_page_eq[OF k(4)[OF q(1)], of n] by (simp add: ent_def)
  then show "pwalk m1 (Suc l) pt va = Some a \<and> ld64 m1 a = ld64 m a"
    using w' k(2,3,7) by (simp add: Let_def)
qed

end
