(* ===== verification/PtWalk.thy ===== *)
theory PtWalk
  imports PageTable
begin

text \<open>
  The routines of \<open>kernel/vm.c\<close> on trees of tables: \<open>walk\<close> finds or makes the leaf slot of an
  address, \<open>mappages\<close> installs translations and changes no other one.
\<close>

section \<open>The allocator next to the tables\<close>

lemma ld64_page_eq: "page_eq m m' q \<Longrightarrow> ld64 m' q = ld64 m q"
  by (auto simp: ld64_def page_eq_def PGSIZE_def intro!: ld_cong arg_cong[where f = of_nat])

lemma kmem_rep_mem:
  assumes "kmem_rep ps s" and "\<And>q. q \<in> set ps \<Longrightarrow> page_eq (mem s) m' q"
  shows "kmem_rep ps (s\<lparr>mem := m'\<rparr>)"
proof -
  have "chain m' (freelist s) ps = chain (mem s) (freelist s) ps"
    using assms(2) by (intro chain_cong) (simp add: ld64_page_eq)
  then show ?thesis using assms(1) by (simp add: kmem_rep_def)
qed

text \<open>The state a routine of this theory may change.\<close>

definition vm_frame :: "'z kmemst_scheme \<Rightarrow> 'z kmemst_scheme \<Rightarrow> bool" where
  "vm_frame s s' \<longleftrightarrow> s' = s\<lparr>hw := hw s', mem := mem s', freelist := freelist s'\<rparr> \<and>
     settle (hw s') = settle (hw s)"

lemma vm_frameD:
  assumes "vm_frame s s'"
  shows "kend s' = kend s" "settle (hw s') = settle (hw s)"
proof -
  have "s' = s\<lparr>hw := hw s', mem := mem s', freelist := freelist s'\<rparr>"
    using assms by (simp add: vm_frame_def)
  from arg_cong[OF this, of kend] show "kend s' = kend s" by simp
  show "settle (hw s') = settle (hw s)" using assms by (simp add: vm_frame_def)
qed

lemma vm_frame_refl [simp]: "vm_frame s s"
  by (simp add: vm_frame_def)

lemma vm_frame_trans:
  assumes "vm_frame s t" and "vm_frame t u"
  shows "vm_frame s u"
proof -
  have t: "t = s\<lparr>hw := hw t, mem := mem t, freelist := freelist t\<rparr>"
    and u: "u = t\<lparr>hw := hw u, mem := mem u, freelist := freelist u\<rparr>"
    using assms by (simp_all add: vm_frame_def)
  have "u = s\<lparr>hw := hw u, mem := mem u, freelist := freelist u\<rparr>"
    by (subst u, subst t) simp
  then show ?thesis using assms by (simp add: vm_frame_def)
qed

lemma vm_frame_mem [simp]: "vm_frame s (s\<lparr>mem := m\<rparr>)"
  by (simp add: vm_frame_def)

section \<open>walk\<close>

text \<open>What a walk that may allocate gives: an extension of the tree with pages from the free list.\<close>

definition grows :: "nat \<Rightarrow> u64 \<Rightarrow> u64 list \<Rightarrow> 'z kmemst_scheme \<Rightarrow> u64 list \<Rightarrow> 'z kmemst_scheme \<Rightarrow> bool" where
  "grows l pt ps s ps' s' \<longleftrightarrow> vm_frame s s' \<and> kmem_rep ps' s' \<and>
     (\<exists>new. ps = new @ ps' \<and> ext (kend s) (mem s) l pt (mem s') (set new))"

definition walk_post :: "nat \<Rightarrow> u64 \<Rightarrow> u64 \<Rightarrow> u64 list \<Rightarrow> 'z kmemst_scheme \<Rightarrow> u64 \<Rightarrow> 'z kmemst_scheme \<Rightarrow> bool" where
  "walk_post l pt va ps s a s' \<longleftrightarrow> (\<exists>ps'. grows l pt ps s ps' s' \<and>
     (if a = 0 then ps' = [] else pwalk (mem s') l pt va = Some a))"

lemma slot_nz: "page_ok e pt \<Longrightarrow> i < 512 \<Longrightarrow> slot pt i \<noteq> 0"
  using unat_slot[of e pt i] by (auto simp: page_ok_def unat_eq_0)

lemma walk_loop_down:
  assumes "kmem_rep ps s" and "tree (kend s) (mem s) (Suc l) pt"
    and "set ps \<inter> tabs (mem s) (Suc l) pt = {}"
    and "valid (ent (mem s) pt (px (Suc l) va))"
    and "walk_post l (kid (mem s) pt (px (Suc l) va)) va ps s a s'"
  shows "walk_post (Suc l) pt va ps s a s'"
proof -
  let ?i = "px (Suc l) va"
  obtain ps' new where g: "vm_frame s s'" "kmem_rep ps' s'" "ps = new @ ps'"
      "ext (kend s) (mem s) l (kid (mem s) pt ?i) (mem s') (set new)"
    and w: "if a = 0 then ps' = [] else pwalk (mem s') l (kid (mem s) pt ?i) va = Some a"
    using assms(5) by (auto simp: walk_post_def grows_def)
  have b: "ext_below (kend s) (mem s) l pt ?i (mem s') (set new)"
    unfolding ext_below_def
  proof (intro conjI)
    have "set new \<subseteq> set ps" by (simp add: g(3))
    then show "set new \<inter> tabs (mem s) (Suc l) pt = {}" using assms(3) by blast
  qed (use assms(2,4) g(4) in \<open>simp_all only: px_less\<close>)
  have "grows (Suc l) pt ps s ps' s'"
    unfolding grows_def using g(1,2,3) ext_child[OF b] by blast
  moreover have en: "ent (mem s') pt ?i = ent (mem s) pt ?i" by (rule ext_below_root(2)[OF b px_less])
  moreover have "pwalk (mem s') (Suc l) pt va = pwalk (mem s') l (kid (mem s) pt ?i) va"
    using assms(4) by (simp add: Let_def en)
  ultimately show ?thesis unfolding walk_post_def using w by (intro exI[of _ ps']) (simp del: pwalk.simps)
qed

lemma walk_loop_new:
  fixes s :: "'z kmemst_scheme"
  assumes "kmem_rep (p # qs) s" and "tree (kend s) (mem s) (Suc l) pt"
    and "set (p # qs) \<inter> tabs (mem s) (Suc l) pt = {}"
    and "\<not> valid (ent (mem s) pt (px (Suc l) va))"
  defines "s2 \<equiv> s\<lparr>hw := settle (hw s), freelist := ld64 (mem s) p,
    mem := st64 (filled (filled (mem s) p 5 PGSIZE) p 0 PGSIZE) (slot pt (px (Suc l) va)) (PA2PTE p OR PTE_V)\<rparr>"
  shows "kmem_rep qs s2" and "enters (kend s) (mem s) pt (px (Suc l) va) p (mem s2)"
    and "vm_frame s s2" and "grows (Suc l) pt (p # qs) s qs s2"
    and "set qs \<inter> tabs (mem s2) (Suc l) pt = {}"
proof -
  let ?m0 = "filled (mem s) p 5 PGSIZE"
  have ok: "page_ok (kend s) p" "page_ok (kend s) pt" "p \<noteq> pt" "p \<notin> tabs (mem s) (Suc l) pt"
    using kmem_repD(3)[OF assms(1)] tree_root[OF assms(2)] assms(3) root_in_tabs[of pt "mem s" "Suc l"]
    by auto
  have "page_eq (mem s) ?m0 q" if "page_ok (kend s) q" "q \<noteq> p" for q
    using page_eq_filled[OF ok(1) that(1)] that(2) by simp
  then show en: "enters (kend s) (mem s) pt (px (Suc l) va) p (mem s2)"
    using ok assms(4) by (auto simp: enters_def s2_def)
  show fr: "vm_frame s s2" by (simp add: s2_def vm_frame_def)
  have "page_eq ?m0 (mem s2) q" if "q \<in> set qs" for q
  proof -
    have q: "page_ok (kend s) q" "q \<noteq> p" "q \<noteq> pt"
      using that kmem_repD(2,3)[OF assms(1)] assms(3) root_in_tabs[of pt "mem s" "Suc l"] by auto
    then have "page_eq (mem s) ?m0 q" using page_eq_filled[OF ok(1) q(1)] by simp
    then show ?thesis using enters_frame(1)[OF en q] page_eq_trans page_eq_sym by blast
  qed
  from kmem_rep_mem[OF kalloc_rep[OF assms(1)], of "mem s2"] this
  show rep: "kmem_rep qs s2" by (simp add: s2_def)
  have x: "ext (kend s) (mem s) (Suc l) pt (mem s2) {p}" by (rule ext_new[OF en assms(2) ok(4)])
  then show "grows (Suc l) pt (p # qs) s qs s2"
    unfolding grows_def using fr rep by (intro conjI exI[of _ "[p]"]) simp_all
  have "set qs \<inter> insert p (tabs (mem s) (Suc l) pt) = {}"
    using kmem_repD(2)[OF assms(1)] assms(3) by auto
  then show "set qs \<inter> tabs (mem s2) (Suc l) pt = {}"
    by (simp only: enters_tabs[OF en assms(2) ok(4)])
qed

lemma grows_trans:
  assumes "grows l pt ps s qs t" and "grows l pt qs t rs u"
  shows "grows l pt ps s rs u"
proof -
  obtain n1 where 1: "vm_frame s t" "ps = n1 @ qs" "ext (kend s) (mem s) l pt (mem t) (set n1)"
    using assms(1) by (auto simp: grows_def)
  obtain n2 where 2: "vm_frame t u" "kmem_rep rs u" "qs = n2 @ rs" "ext (kend t) (mem t) l pt (mem u) (set n2)"
    using assms(2) by (auto simp: grows_def)
  have "ext (kend s) (mem s) l pt (mem u) (set (n1 @ n2))"
    using ext_trans[OF 1(3)] 2(4) vm_frameD(1)[OF 1(1)] by simp
  then show ?thesis
    unfolding grows_def using vm_frame_trans[OF 1(1) 2(1)] 1(2) 2(2,3)
    by (intro conjI exI[of _ "n1 @ n2"]) simp_all
qed

lemma walk_loop_ok:
  assumes "kmem_rep ps s" and "tree (kend s) (mem s) l pt" and "set ps \<inter> tabs (mem s) l pt = {}"
  shows "\<exists>a s'. walk_loop l pt va True s = Ret a s' \<and> walk_post l pt va ps s a s'"
  using assms
proof (induction l arbitrary: pt ps s)
  case 0
  have "slot pt (px 0 va) \<noteq> 0" using 0(2) by (intro slot_nz) simp_all
  moreover have "grows 0 pt ps s ps s"
    unfolding grows_def using 0 ext_refl[OF 0(2)] by (intro conjI exI[of _ "[]"]) simp_all
  ultimately show ?case
    by (intro exI[of _ "slot pt (px 0 va)"] exI[of _ s]) (auto simp: walk_post_def slot_px)
next
  case (Suc l)
  let ?i = "px (Suc l) va"
  show ?case
  proof (cases "valid (ent (mem s) pt ?i)")
    case True
    have sub: "set ps \<inter> tabs (mem s) l (kid (mem s) pt ?i) = {}"
      using Suc.prems(3) child_tabs[OF px_less True, of l] by blast
    obtain a s' where "walk_loop l (kid (mem s) pt ?i) va True s = Ret a s'"
        "walk_post l (kid (mem s) pt ?i) va ps s a s'"
      using Suc.IH[OF Suc.prems(1) tree_kid(1)[OF Suc.prems(2) px_less True] sub] by blast
    then show ?thesis
      using True walk_loop_down[OF Suc.prems True] 
      by (auto simp: Let_def slot_px ent_def valid_def simp del: tabs.simps tree.simps)
  next
    case inv: False
    show ?thesis
    proof (cases ps)
      case Nil
      then have k: "kalloc s = Ret 0 (s\<lparr>hw := settle (hw s)\<rparr>)" using Suc.prems(1) kalloc_empty by simp
      let ?t = "s\<lparr>hw := settle (hw s)\<rparr>"
      have "walk_loop (Suc l) pt va True s = Ret 0 ?t"
        using inv k by (simp add: Let_def slot_px ent_def valid_def)
      moreover have "grows (Suc l) pt ps s [] ?t"
        unfolding grows_def using Nil Suc.prems(1) ext_refl[OF Suc.prems(2)]
        by (intro conjI exI[of _ "[]"]) (simp_all add: vm_frame_def kmem_rep_def)
      ultimately show ?thesis by (auto simp: walk_post_def)
    next
      case (Cons p qs)
      note new = walk_loop_new[OF Suc.prems(1-3)[unfolded Cons] inv]
      define s2 where "s2 = s\<lparr>hw := settle (hw s), freelist := ld64 (mem s) p,
        mem := st64 (filled (filled (mem s) p 5 PGSIZE) p 0 PGSIZE) (slot pt ?i) (PA2PTE p OR PTE_V)\<rparr>"
      note new = new[folded s2_def]
      have ke: "kend s2 = kend s" by (rule vm_frameD(1)[OF new(3)])
      have kp: "kid (mem s2) pt ?i = p" "valid (ent (mem s2) pt ?i)"
        using enters_entry(2,3)[OF new(2)] by simp_all
      have pt: "tree (kend s2) (mem s2) (Suc l) pt"
        using new(4) unfolding grows_def ke by (blast dest: extD(1))
      have disj: "set qs \<inter> tabs (mem s2) l p = {}"
        using enters_fresh(1)[OF new(2)] kmem_repD(2)[OF Suc.prems(1)] Cons by simp
      obtain a s' where w: "walk_loop l p va True s2 = Ret a s'" "walk_post l p va qs s2 a s'"
        using Suc.IH[OF new(1) _ disj] enters_fresh(2)[OF new(2), of l] ke by auto
      have "walk_post (Suc l) pt va qs s2 a s'"
        using walk_loop_down[OF new(1) pt new(5) kp(2)] w(2) kp(1) by simp
      then have "walk_post (Suc l) pt va ps s a s'"
        unfolding walk_post_def Cons using grows_trans[OF new(4)] by blast
      moreover have "p \<noteq> 0" using Suc.prems(1) Cons by (simp add: kmem_rep_def)
      then have "walk_loop (Suc l) pt va True s = walk_loop l p va True s2"
        using inv kalloc_ok[OF Suc.prems(1)[unfolded Cons]]
        by (simp add: Let_def slot_px ent_def valid_def memset_page s2_def)
      ultimately show ?thesis using w(1) by auto
    qed
  qed
qed

text \<open>Without allocation a walk only reads.\<close>

lemma walk_loop_find:
  assumes "tree e (mem s) l pt"
  shows "walk_loop l pt va False s = Ret (case pwalk (mem s) l pt va of None \<Rightarrow> 0 | Some a \<Rightarrow> a) s"
  using assms
proof (induction l arbitrary: pt)
  case 0
  then show ?case by (simp add: slot_px)
next
  case (Suc l)
  show ?case
  proof (cases "valid (ent (mem s) pt (px (Suc l) va))")
    case True
    then show ?thesis
      using Suc.IH[OF tree_kid(1)[OF Suc.prems px_less True]]
      by (simp add: Let_def slot_px ent_def valid_def)
  next
    case False
    then show ?thesis by (simp add: Let_def slot_px ent_def valid_def)
  qed
qed

lemma pwalk_nz:
  assumes "tree e m l pt" and "pwalk m l pt va = Some a"
  shows "a \<noteq> 0"
proof -
  obtain q j where "q \<in> tabs m l pt" "j < 512" "a = slot q j" using pwalk_slot[OF assms(2)] by blast
  then show ?thesis using slot_nz[OF tree_page[OF assms(1)]] by simp
qed

section \<open>Translations\<close>

text \<open>The leaf entry of an address, if it is valid.\<close>

definition leaf :: "memory \<Rightarrow> u64 \<Rightarrow> u64 \<Rightarrow> u64 option" where
  "leaf m pt va = (case pwalk m 2 pt va of None \<Rightarrow> None
     | Some a \<Rightarrow> if valid (ld64 m a) then Some (ld64 m a) else None)"

lemma ext_leaf:
  assumes "ext e m 2 pt m' new"
  shows "leaf m' pt va = leaf m pt va"
  using extD(5,6,7)[OF assms, of va] by (auto simp: leaf_def split: option.splits)

text \<open>Addresses with the same leaf slot have the same indices.\<close>

lemma slot_inj:
  assumes "page_ok e p" and "page_ok e q" and "i < 512" and "j < 512" and "slot p i = slot q j"
  shows "p = q \<and> i = j"
proof -
  have "unat p + 8 * i = unat q + 8 * j"
    using arg_cong[OF assms(5), of unat] by (simp add: unat_slot[OF assms(1,3)] unat_slot[OF assms(2,4)])
  moreover have "p = q"
  proof (rule ccontr)
    assume "p \<noteq> q"
    then show False using page_apart[OF assms(1,2)] calculation assms(3,4) by (auto simp: apart_def PGSIZE_def)
  qed
  ultimately show ?thesis by simp
qed

lemma pwalk_inj:
  assumes "tree e m l pt" and "pwalk m l pt va = Some a" and "pwalk m l pt vb = Some a" and "k \<le> l"
  shows "px k va = px k vb"
  using assms
proof (induction l arbitrary: pt k)
  case 0
  then show ?case using slot_inj[of e pt pt "px 0 va" "px 0 vb"] by simp
next
  case (Suc l)
  let ?i = "px (Suc l) va" and ?j = "px (Suc l) vb"
  have vi: "valid (ent m pt ?i)" and wi: "pwalk m l (kid m pt ?i) va = Some a"
    and vj: "valid (ent m pt ?j)" and wj: "pwalk m l (kid m pt ?j) vb = Some a"
    using Suc.prems(2,3) by (simp_all add: Let_def split: if_splits)
  have same: "?i = ?j"
  proof (rule ccontr)
    assume ne: "?i \<noteq> ?j"
    obtain q n where q: "q \<in> tabs m l (kid m pt ?i)" "n < 512" "a = slot q n"
      using pwalk_slot[OF wi] by blast
    obtain r k where r: "r \<in> tabs m l (kid m pt ?j)" "k < 512" "a = slot r k"
      using pwalk_slot[OF wj] by blast
    have "q = r"
      using slot_inj[OF tree_page[OF tree_kid(1)[OF Suc.prems(1) px_less vi] q(1)]
          tree_page[OF tree_kid(1)[OF Suc.prems(1) px_less vj] r(1)] q(2) r(2)] q(3) r(3) by simp
    then show False using tree_kid(3)[OF Suc.prems(1) px_less vi px_less _ vj] ne q(1) r(1) by auto
  qed
  show ?case
  proof (cases "k = Suc l")
    case True
    then show ?thesis using same by simp
  next
    case False
    then show ?thesis
      using Suc.IH[OF tree_kid(1)[OF Suc.prems(1) px_less vi] wi _] wj same Suc.prems(4) by simp
  qed
qed

text \<open>The three indices determine the page of an address below \<open>MAXVA\<close>.\<close>

lemma bit_PX: "bit (PX l va) n \<longleftrightarrow> n < 9 \<and> bit va (12 + 9 * l + n)"
proof -
  have "PX l va = take_bit 9 (drop_bit (12 + 9 * l) va)"
    by (simp add: PX_def take_bit_eq_mask mask_eq_exp_minus_1)
  then show ?thesis by (simp add: bit_simps)
qed

lemma px_page:
  assumes "va < MAXVA" and "vb < MAXVA" and "\<And>k. k \<le> 2 \<Longrightarrow> px k va = px k vb"
  shows "PGROUNDDOWN va = PGROUNDDOWN vb"
proof -
  have px: "PX k va = PX k vb" if "k \<le> 2" for k using assms(3)[OF that] by (simp add: px_def word_unat_eq_iff)
  have hi: "\<not> bit v n" if "v < MAXVA" "38 \<le> n" for v n
  proof -
    have "unat v < 2 ^ 38" using that(1) by (simp add: MAXVA_def word_less_nat_alt)
    then have "take_bit 38 v = v"
      by (simp add: word_unat_eq_iff unsigned_take_bit_eq take_bit_nat_eq_self)
    then show ?thesis using that(2) by (metis bit_take_bit_iff linorder_not_less)
  qed
  show ?thesis
    unfolding PGROUNDDOWN_def PG_mask
  proof (rule bit_word_eqI)
    fix n assume "n < LENGTH(64)"
    have "bit va n = bit vb n" if "12 \<le> n" "n < 38"
    proof -
      have "(n - 12) div 9 \<le> 2" using that by simp
      from px[OF this] have "bit (PX ((n - 12) div 9) va) ((n - 12) mod 9) = bit (PX ((n - 12) div 9) vb) ((n - 12) mod 9)"
        by simp
      moreover have "12 + 9 * ((n - 12) div 9) + (n - 12) mod 9 = n" using that by simp
      ultimately show ?thesis by (simp add: bit_PX)
    qed
    then show "bit (va AND NOT (mask 12)) n = bit (vb AND NOT (mask 12)) n"
      using hi[OF assms(1), of n] hi[OF assms(2), of n] by (cases "n < 38") (auto simp: bit_simps)
  qed
qed

section \<open>Writing a leaf entry\<close>

definition same_tree :: "u64 \<Rightarrow> memory \<Rightarrow> memory \<Rightarrow> nat \<Rightarrow> u64 \<Rightarrow> bool" where
  "same_tree e m m' l pt \<longleftrightarrow> tabs m' l pt = tabs m l pt \<and> (tree e m' l pt \<longleftrightarrow> tree e m l pt) \<and>
    (\<forall>va. pwalk m' l pt va = pwalk m l pt va)"

lemma same_tree_step:
  assumes "\<And>i. i < 512 \<Longrightarrow> ent m' pt i = ent m pt i"
    and "\<And>i. i < 512 \<Longrightarrow> valid (ent m pt i) \<Longrightarrow> same_tree e m m' l (kid m pt i)"
  shows "same_tree e m m' (Suc l) pt"
proof -
  have c: "tabs m' l (kid m pt i) = tabs m l (kid m pt i)"
      "tree e m' l (kid m pt i) \<longleftrightarrow> tree e m l (kid m pt i)"
      "pwalk m' l (kid m pt i) va = pwalk m l (kid m pt i) va"
    if "i < 512" "valid (ent m pt i)" for i va
    using assms(2)[OF that] by (simp_all add: same_tree_def)
  have "tabs m' (Suc l) pt = tabs m (Suc l) pt" using assms(1) c(1) by (auto simp: set_eq_iff)
  moreover have "tree e m' (Suc l) pt \<longleftrightarrow> tree e m (Suc l) pt"
    using assms(1) c(1,2) by (simp cong: conj_cong)
  moreover have "pwalk m' (Suc l) pt va = pwalk m (Suc l) pt va" for va
    using assms(1)[of "px (Suc l) va"] c(3)[of "px (Suc l) va"] by (simp add: Let_def)
  ultimately show ?thesis by (simp add: same_tree_def)
qed

lemma leaf_write:
  assumes "tree e m l pt" and "pwalk m l pt va = Some a"
  shows "same_tree e m (st64 m a v) l pt"
  using assms
proof (induction l arbitrary: pt)
  case 0
  then show ?case by (simp add: same_tree_def)
next
  case (Suc l)
  let ?i = "px (Suc l) va" and ?m = "st64 m a v"
  have vi: "valid (ent m pt ?i)" and wi: "pwalk m l (kid m pt ?i) va = Some a"
    using Suc.prems(2) by (simp_all add: Let_def split: if_splits)
  note k = tree_kid[OF Suc.prems(1) px_less vi]
  obtain q n where q: "q \<in> tabs m l (kid m pt ?i)" "n < 512" "a = slot q n"
    using pwalk_slot[OF wi] by blast
  have qok: "page_ok e q" by (rule tree_page[OF k(1) q(1)])
  have eq: "page_eq m ?m r" if "page_ok e r" "r \<noteq> q" for r
    unfolding q(3) using that by (intro page_eq_st64[OF qok that(1) _ q(2)]) simp
  show ?case
  proof (rule same_tree_step)
    have "q \<noteq> pt" using k(2) q(1) by blast
    then show "j < 512 \<Longrightarrow> ent ?m pt j = ent m pt j" for j
      using eq[OF tree_root[OF Suc.prems(1)]] ent_page_eq by metis
    fix j assume j: "j < 512" "valid (ent m pt j)"
    show "same_tree e m ?m l (kid m pt j)"
    proof (cases "j = ?i")
      case True
      then show ?thesis using Suc.IH[OF k(1) wi] by simp
    next
      case False
      have "page_eq m ?m r" if "r \<in> tabs m l (kid m pt j)" for r
        using k(3)[OF j(1) False j(2)] q(1) that tree_page[OF tree_kid(1)[OF Suc.prems(1) j] that]
        by (intro eq) auto
      from tree_cong[OF this, where e = e] show ?thesis by (simp add: same_tree_def)
    qed
  qed
qed

text \<open>Only the page of the address gets a new translation.\<close>

lemma leaf_st64:
  assumes "tree e m 2 pt" and "pwalk m 2 pt va = Some a" and "va < MAXVA"
  shows "leaf (st64 m a v) pt va = (if valid v then Some v else None)"
    and "vb < MAXVA \<Longrightarrow> PGROUNDDOWN vb \<noteq> PGROUNDDOWN va \<Longrightarrow> leaf (st64 m a v) pt vb = leaf m pt vb"
proof -
  have w: "pwalk (st64 m a v) 2 pt x = pwalk m 2 pt x" for x
    using leaf_write[OF assms(1,2)] by (simp add: same_tree_def)
  show "leaf (st64 m a v) pt va = (if valid v then Some v else None)"
    by (simp add: leaf_def w assms(2))
  assume vb: "vb < MAXVA" "PGROUNDDOWN vb \<noteq> PGROUNDDOWN va"
  have "ld64 (st64 m a v) b = ld64 m b" if wb: "pwalk m 2 pt vb = Some b" for b
  proof -
    have "a \<noteq> b" using pwalk_inj[OF assms(1,2)] wb px_page[OF assms(3) vb(1)] vb(2) by metis
    obtain q i where q: "q \<in> tabs m 2 pt" "i < 512" "a = slot q i" using pwalk_slot[OF assms(2)] by blast
    obtain r j where r: "r \<in> tabs m 2 pt" "j < 512" "b = slot r j" using pwalk_slot[OF wb] by blast
    note ok = tree_page[OF assms(1) q(1)] tree_page[OF assms(1) r(1)]
    show ?thesis
    proof (cases "q = r")
      case True
      then show ?thesis
        using ent_st64_other[OF ok(1) q(2) r(2)] q(3) r(3) \<open>a \<noteq> b\<close> by (auto simp: ent_def)
    next
      case False
      then have "page_eq m (st64 m a v) r"
        using page_eq_st64[OF ok False q(2)] q(3) by simp
      then show ?thesis using ent_page_eq[OF _ r(2)] r(3) by (metis ent_def)
    qed
  qed
  then show "leaf (st64 m a v) pt vb = leaf m pt vb"
    by (auto simp: leaf_def w split: option.splits)
qed

section \<open>mappages\<close>

text \<open>The tree grew by pages of \<open>new\<close>, and no page outside changed.\<close>

definition tab_grow :: "u64 \<Rightarrow> memory \<Rightarrow> u64 \<Rightarrow> memory \<Rightarrow> u64 set \<Rightarrow> bool" where
  "tab_grow e m pt m' new \<longleftrightarrow> tree e m' 2 pt \<and> tabs m 2 pt \<subseteq> tabs m' 2 pt \<and>
     tabs m' 2 pt \<subseteq> tabs m 2 pt \<union> new \<and>
     (\<forall>q. page_ok e q \<longrightarrow> q \<notin> tabs m 2 pt \<longrightarrow> q \<notin> new \<longrightarrow> page_eq m m' q)"

lemma tab_grow_trans:
  assumes "tab_grow e m pt m1 n1" and "tab_grow e m1 pt m2 n2"
  shows "tab_grow e m pt m2 (n1 \<union> n2)"
proof -
  have "page_eq m m2 q" if "page_ok e q" "q \<notin> tabs m 2 pt" "q \<notin> n1 \<union> n2" for q
  proof (rule page_eq_trans)
    show "page_eq m m1 q" using that assms(1) by (simp add: tab_grow_def)
    have "q \<notin> tabs m1 2 pt" using that assms(1) by (auto simp: tab_grow_def)
    then show "page_eq m1 m2 q" using that assms(2) by (simp add: tab_grow_def)
  qed
  moreover have "tabs m 2 pt \<subseteq> tabs m2 2 pt" "tabs m2 2 pt \<subseteq> tabs m 2 pt \<union> (n1 \<union> n2)" "tree e m2 2 pt"
    using assms unfolding tab_grow_def by blast+
  ultimately show ?thesis by (simp add: tab_grow_def)
qed

lemma ext_tab_grow: "ext e m 2 pt m' new \<Longrightarrow> tab_grow e m pt m' new"
  by (simp add: ext_def tab_grow_def)

lemma leaf_tab_grow:
  assumes "tree e m 2 pt" and "pwalk m 2 pt va = Some a"
  shows "tab_grow e m pt (st64 m a v) {}"
proof -
  obtain q i where q: "q \<in> tabs m 2 pt" "i < 512" "a = slot q i" using pwalk_slot[OF assms(2)] by blast
  have "page_eq m (st64 m a v) r" if "page_ok e r" "r \<notin> tabs m 2 pt" for r
  proof -
    have "q \<noteq> r" using that(2) q(1) by blast
    then show ?thesis using page_eq_st64[OF tree_page[OF assms(1) q(1)] that(1) _ q(2)] q(3) by simp
  qed
  then show ?thesis
    using leaf_write[OF assms] assms(1) by (simp add: same_tree_def tab_grow_def)
qed

text \<open>The \<open>k\<close>-th page from an address on.\<close>

definition pg :: "u64 \<Rightarrow> nat \<Rightarrow> u64" where
  "pg va k = va + of_nat (k * PGSIZE)"

lemma pg_0 [simp]: "pg va 0 = va"
  by (simp add: pg_def)

lemma pg_Suc: "pg (va + of_nat PGSIZE) k = pg va (Suc k)"
  by (simp add: pg_def algebra_simps)

lemma unat_pg:
  assumes "unat va + n * PGSIZE \<le> unat MAXVA" and "k \<le> n"
  shows "unat (pg va k) = unat va + k * PGSIZE"
  unfolding pg_def
proof (rule unat_add_of_nat)
  have "k * PGSIZE \<le> n * PGSIZE" using assms(2) by simp
  moreover have "unat MAXVA < 2 ^ 64" by (rule unat_u64)
  ultimately show "unat va + k * PGSIZE < 2 ^ 64" using assms(1) by linarith
qed

lemma aligned_down: "unat va mod PGSIZE = 0 \<Longrightarrow> PGROUNDDOWN va = va"
  by (simp add: word_unat_eq_iff unat_PGROUNDDOWN mod_0_imp_dvd dvd_div_mult_self)

lemma walk_alloc:
  assumes "kmem_rep ps s" and "tree (kend s) (mem s) 2 pt" and "set ps \<inter> tabs (mem s) 2 pt = {}"
    and "va < MAXVA"
  obtains s' where "walk pt va True s = Ret 0 s'" "grows 2 pt ps s [] s'"
  | a s' ps' where "walk pt va True s = Ret a s'" "a \<noteq> 0" "grows 2 pt ps s ps' s'"
      "pwalk (mem s') 2 pt va = Some a"
proof -
  have "walk pt va True s = walk_loop 2 pt va True s" using assms(4) by (simp add: walk_def linorder_not_le[symmetric])
  moreover obtain a s' where "walk_loop 2 pt va True s = Ret a s'" "walk_post 2 pt va ps s a s'"
    using walk_loop_ok[OF assms(1-3)] by blast
  ultimately show ?thesis using that unfolding walk_post_def by (cases "a = 0") auto
qed

text \<open>What a call of \<open>mappages\<close> for \<open>n\<close> pages leaves behind.\<close>

definition map_post ::
    "u64 \<Rightarrow> u64 \<Rightarrow> nat \<Rightarrow> u64 \<Rightarrow> u64 \<Rightarrow> u64 list \<Rightarrow> 'z kmemst_scheme \<Rightarrow> int \<Rightarrow> 'z kmemst_scheme \<Rightarrow> bool" where
  "map_post pt va n pa perm ps s r s' \<longleftrightarrow> vm_frame s s' \<and> (r = 0 \<or> r = -1) \<and>
     (\<exists>new ps'. ps = new @ ps' \<and> kmem_rep ps' s' \<and> tab_grow (kend s) (mem s) pt (mem s') (set new) \<and>
        (r \<noteq> 0 \<longrightarrow> ps' = [])) \<and>
     (r = 0 \<longrightarrow> (\<forall>k < n. leaf (mem s') pt (pg va k) = Some (PA2PTE (pg pa k) OR perm OR PTE_V))) \<and>
     (\<forall>vb < MAXVA. (\<forall>k < n. PGROUNDDOWN vb \<noteq> pg va k) \<longrightarrow> leaf (mem s') pt vb = leaf (mem s) pt vb)"

text \<open>One page: the state after the entry of the first page is written.\<close>

lemma mappages_entry:
  fixes s :: "'z kmemst_scheme"
  assumes "kmem_rep ps s" and "tree (kend s) (mem s) 2 pt" and "set ps \<inter> tabs (mem s) 2 pt = {}"
    and "va < MAXVA" and "leaf (mem s) pt va = None" and "unat va mod PGSIZE = 0"
  obtains s' where "mappages_loop pt va lst pa perm s = Ret (-1) s'"
      "\<And>n. map_post pt va n pa perm ps s (-1) s'"
  | s' ps' where "mappages_loop pt va lst pa perm s = (if va = lst then Ret 0 s'
        else mappages_loop pt (va + of_nat PGSIZE) lst (pa + of_nat PGSIZE) perm s')"
      "map_post pt va 1 pa perm ps s 0 s'" "kmem_rep ps' s'"
      "tree (kend s') (mem s') 2 pt" "set ps' \<inter> tabs (mem s') 2 pt = {}" "set ps' \<subseteq> set ps"
      "tab_grow (kend s) (mem s) pt (mem s') (set ps - set ps')" "ps = take (length ps - length ps') ps @ ps'"
  using assms(1-4)
proof (cases rule: walk_alloc)
  case (1 s')
  then obtain new where "ps = new" "ext (kend s) (mem s) 2 pt (mem s') (set new)" "kmem_rep [] s'" "vm_frame s s'"
    by (auto simp: grows_def)
  then have "map_post pt va n pa perm ps s (-1) s'" for n
    using ext_leaf[of "kend s" "mem s" pt "mem s'"] ext_tab_grow[of "kend s" "mem s" pt "mem s'"]
    by (auto simp: map_post_def)
  moreover have "mappages_loop pt va lst pa perm s = Ret (-1) s'"
    using 1(1) by (subst mappages_loop.simps) simp
  ultimately show ?thesis using that(1) by blast
next
  case (2 a s1 ps')
  then obtain new where g: "ps = new @ ps'" "ext (kend s) (mem s) 2 pt (mem s1) (set new)" "kmem_rep ps' s1" "vm_frame s s1"
    by (auto simp: grows_def)
  let ?v = "PA2PTE pa OR perm OR PTE_V"
  define s2 where "s2 = s1\<lparr>mem := st64 (mem s1) a ?v\<rparr>"
  have tr: "tree (kend s) (mem s1) 2 pt" by (rule extD(1)[OF g(2)])
  have "leaf (mem s1) pt va = None" using ext_leaf[OF g(2)] assms(5) by simp
  then have inv: "\<not> valid (ld64 (mem s1) a)" using 2(4) by (simp add: leaf_def split: if_splits)
  then have run: "mappages_loop pt va lst pa perm s = (if va = lst then Ret 0 s2
      else mappages_loop pt (va + of_nat PGSIZE) lst (pa + of_nat PGSIZE) perm s2)"
    using 2(1,2) by (subst mappages_loop.simps) (simp add: valid_def s2_def)
  have grow: "tab_grow (kend s) (mem s) pt (mem s2) (set new)"
    using tab_grow_trans[OF ext_tab_grow[OF g(2)] leaf_tab_grow[OF tr 2(4)]] by (simp add: s2_def)
  have fr: "vm_frame s s2" using vm_frame_trans[OF g(4) vm_frame_mem] by (simp add: s2_def)
  have d: "set ps' \<inter> tabs (mem s1) 2 pt = {}"
  proof -
    have "set ps' \<inter> (tabs (mem s) 2 pt \<union> set new) = {}"
      using assms(3) kmem_repD(2)[OF assms(1)] g(1) by auto
    then show ?thesis using extD(3)[OF g(2)] by blast
  qed
  have st: "tabs (mem s2) 2 pt = tabs (mem s1) 2 pt" "tree (kend s2) (mem s2) 2 pt"
    using leaf_write[OF tr 2(4), of ?v] tr vm_frameD(1)[OF fr] by (simp_all add: same_tree_def s2_def)
  have rep: "kmem_rep ps' s2"
    unfolding s2_def
  proof (rule kmem_rep_mem[OF g(3)])
    fix q assume q: "q \<in> set ps'"
    then have "page_ok (kend s) q" "q \<notin> tabs (mem s1) 2 pt"
      using kmem_repD(3)[OF assms(1)] g(1) d by auto
    then show "page_eq (mem s1) (st64 (mem s1) a ?v) q"
      using leaf_tab_grow[OF tr 2(4), of ?v] by (simp add: tab_grow_def)
  qed
  have lf: "leaf (mem s2) pt va = Some ?v" "\<And>vb. vb < MAXVA \<Longrightarrow> PGROUNDDOWN vb \<noteq> va \<Longrightarrow> leaf (mem s2) pt vb = leaf (mem s) pt vb"
    using leaf_st64[OF tr 2(4) assms(4), where v = ?v] aligned_down[OF assms(6)] ext_leaf[OF g(2)]
    by (simp_all add: s2_def)
  have "map_post pt va 1 pa perm ps s 0 s2"
    unfolding map_post_def using fr g(1) rep grow lf by auto
  moreover have "set ps - set ps' = set new" using g(1) kmem_repD(2)[OF assms(1)] by auto
  ultimately show ?thesis
    using run rep st d g(1) grow by (intro that(2)[of s2 ps']) auto
qed

lemma map_post_step:
  fixes s s1 s2 :: "'z kmemst_scheme"
  assumes "map_post pt va 1 pa perm ps s 0 s1"
    and "map_post pt (va + of_nat PGSIZE) n (pa + of_nat PGSIZE) perm ps1 s1 r s2"
    and "kmem_rep ps s" and "ps = new @ ps1" and "tab_grow (kend s) (mem s) pt (mem s1) (set new)"
    and "unat va + Suc n * PGSIZE \<le> unat MAXVA" and "unat va mod PGSIZE = 0"
  shows "map_post pt va (Suc n) pa perm ps s r s2"
proof -
  note a = assms(1)[unfolded map_post_def] and b = assms(2)[unfolded map_post_def]
  have ke: "kend s1 = kend s" using a vm_frameD(1) by blast
  obtain n2 ps2 where 2: "ps1 = n2 @ ps2" "kmem_rep ps2 s2"
      "tab_grow (kend s1) (mem s1) pt (mem s2) (set n2)" "r \<noteq> 0 \<longrightarrow> ps2 = []"
    using b by blast
  have "vm_frame s s2" using a b vm_frame_trans by blast
  moreover have "\<exists>new ps'. ps = new @ ps' \<and> kmem_rep ps' s2 \<and> tab_grow (kend s) (mem s) pt (mem s2) (set new) \<and> (r \<noteq> 0 \<longrightarrow> ps' = [])"
    using 2 assms(4) tab_grow_trans[OF assms(5)] ke by (intro exI[of _ "new @ n2"] exI[of _ ps2]) simp
  moreover have "leaf (mem s2) pt (pg va k) = Some (PA2PTE (pg pa k) OR perm OR PTE_V)" if "r = 0" "k < Suc n" for k
  proof (cases k)
    case 0
    have va: "va < MAXVA" using assms(6) by (simp add: word_less_nat_alt PGSIZE_def)
    have "va \<noteq> pg va (Suc j)" if "j < n" for j
      using unat_pg[OF assms(6), of "Suc j"] that by (auto simp: PGSIZE_def word_unat_eq_iff)
    then have "leaf (mem s2) pt va = leaf (mem s1) pt va"
      using b va aligned_down[OF assms(7)] by (simp only: pg_Suc) auto
    moreover have "leaf (mem s1) pt va = Some (PA2PTE pa OR perm OR PTE_V)" using a by simp
    ultimately show ?thesis using 0 by simp
  next
    case (Suc j)
    then have "leaf (mem s2) pt (pg (va + of_nat PGSIZE) j) = Some (PA2PTE (pg (pa + of_nat PGSIZE) j) OR perm OR PTE_V)"
      using b that by blast
    then show ?thesis unfolding pg_Suc Suc .
  qed
  moreover have "leaf (mem s2) pt vb = leaf (mem s) pt vb"
    if vb: "vb < MAXVA" and ne: "\<forall>k < Suc n. PGROUNDDOWN vb \<noteq> pg va k" for vb
  proof -
    have "\<forall>k < n. PGROUNDDOWN vb \<noteq> pg (va + of_nat PGSIZE) k" unfolding pg_Suc using ne by auto
    then have "leaf (mem s2) pt vb = leaf (mem s1) pt vb" using b vb by blast
    moreover have "leaf (mem s1) pt vb = leaf (mem s) pt vb" using a vb ne by auto
    ultimately show ?thesis by simp
  qed
  ultimately show ?thesis using b by (simp only: map_post_def) blast
qed

lemma mappages_loop_ok:
  fixes s :: "'z kmemst_scheme"
  assumes "kmem_rep ps s" and "tree (kend s) (mem s) 2 pt" and "set ps \<inter> tabs (mem s) 2 pt = {}"
    and "unat va mod PGSIZE = 0" and "unat va + Suc n * PGSIZE \<le> unat MAXVA"
    and "\<And>k. k \<le> n \<Longrightarrow> leaf (mem s) pt (pg va k) = None"
  shows "\<exists>r s'. mappages_loop pt va (pg va n) pa perm s = Ret r s' \<and> map_post pt va (Suc n) pa perm ps s r s'"
  using assms
proof (induction n arbitrary: va pa ps s)
  case 0
  have va: "va < MAXVA" "leaf (mem s) pt va = None"
    using 0(5) 0(6)[of 0] by (simp_all add: word_less_nat_alt PGSIZE_def)
  show ?case
    using 0(1-3) va 0(4)
  proof (cases rule: mappages_entry[where lst = "pg va 0" and pa = pa and perm = perm])
    case (1 s')
    then show ?thesis by blast
  next
    case (2 s' ps')
    then show ?thesis by (intro exI[of _ 0] exI[of _ s']) simp
  qed
next
  case (Suc n)
  let ?va = "va + of_nat PGSIZE"
  have va: "va < MAXVA" "leaf (mem s) pt va = None"
    using Suc.prems(5) Suc.prems(6)[of 0] by (simp_all add: word_less_nat_alt PGSIZE_def)
  have unat: "unat (pg va k) = unat va + k * PGSIZE" if "k \<le> Suc (Suc n)" for k
    by (rule unat_pg[OF Suc.prems(5) that])
  have ne: "va \<noteq> pg va (Suc n)"
    using unat[of "Suc n"] by (auto simp: PGSIZE_def)
  show ?case
    using Suc.prems(1-3) va Suc.prems(4)
  proof (cases rule: mappages_entry[where lst = "pg va (Suc n)" and pa = pa and perm = perm])
    case (1 s')
    then show ?thesis by blast
  next
    case (2 s1 ps1)
    have "\<exists>r s'. mappages_loop pt ?va (pg ?va n) (pa + of_nat PGSIZE) perm s1 = Ret r s' \<and>
        map_post pt ?va (Suc n) (pa + of_nat PGSIZE) perm ps1 s1 r s'"
    proof (rule Suc.IH[OF 2(3,4,5)])
      have va1: "unat ?va = unat va + PGSIZE" using unat[of 1] by (simp add: pg_def)
      show "unat ?va mod PGSIZE = 0" using Suc.prems(4) by (simp add: va1)
      show "unat ?va + Suc n * PGSIZE \<le> unat MAXVA" using Suc.prems(5) by (simp add: va1)
      fix k assume k: "k \<le> n"
      have al: "unat (pg va (Suc k)) mod PGSIZE = 0"
        using unat[of "Suc k"] k Suc.prems(4) by (simp add: mod_mult_self1 del: mult_Suc)
      have "pg va (Suc k) < MAXVA" "pg va (Suc k) \<noteq> va"
        using unat[of "Suc k"] k Suc.prems(5)
        by (auto simp: word_less_nat_alt PGSIZE_def)
      then have "leaf (mem s1) pt (pg va (Suc k)) = leaf (mem s) pt (pg va (Suc k))"
        using 2(2) aligned_down[OF al] by (simp add: map_post_def)
      then show "leaf (mem s1) pt (pg ?va k) = None" using Suc.prems(6)[of "Suc k"] k by (simp only: pg_Suc)
    qed
    then obtain r s' where r: "mappages_loop pt ?va (pg va (Suc n)) (pa + of_nat PGSIZE) perm s1 = Ret r s'"
      "map_post pt ?va (Suc n) (pa + of_nat PGSIZE) perm ps1 s1 r s'" unfolding pg_Suc by blast
    have "map_post pt va (Suc (Suc n)) pa perm ps s r s'"
    proof (rule map_post_step[OF 2(2) r(2) Suc.prems(1) 2(8) _ Suc.prems(5,4)])
      have "set ps - set ps1 = set (take (length ps - length ps1) ps)"
        using arg_cong[OF 2(8), of set] arg_cong[OF 2(8), of distinct] kmem_repD(2)[OF Suc.prems(1)] by auto
      then show "tab_grow (kend s) (mem s) pt (mem s1) (set (take (length ps - length ps1) ps))" using 2(7) by simp
    qed
    then show ?thesis using 2(1) r(1) ne by auto
  qed
qed

lemma mappages_ok:
  fixes s :: "'z kmemst_scheme"
  assumes "kmem_rep ps s" and "tree (kend s) (mem s) 2 pt" and "set ps \<inter> tabs (mem s) 2 pt = {}"
    and "unat va mod PGSIZE = 0" and "unat va + n * PGSIZE \<le> unat MAXVA" and "0 < n"
    and "\<And>k. k < n \<Longrightarrow> leaf (mem s) pt (pg va k) = None"
  shows "\<exists>r s'. mappages pt va (of_nat (n * PGSIZE)) pa perm s = Ret r s' \<and> map_post pt va n pa perm ps s r s'"
proof -
  obtain j where n: "n = Suc j" using assms(6) by (cases n) auto
  have "n * PGSIZE < 2 ^ 64" using assms(5) unat_u64[of MAXVA] by linarith
  then have un: "unat (of_nat (n * PGSIZE) :: u64) = n * PGSIZE" by (rule unat_of_nat_u64)
  then have sz: "(of_nat (n * PGSIZE) :: u64) mod of_nat PGSIZE = 0" "(of_nat (n * PGSIZE) :: u64) \<noteq> 0"
    using assms(6) unfolding mod_page_iff by (simp_all add: word_unat_eq_iff)
  have "va + of_nat (n * PGSIZE) - of_nat PGSIZE = pg va j" by (simp add: n pg_def)
  moreover have "va mod of_nat PGSIZE = 0" using assms(4) by (simp add: mod_page_iff)
  ultimately have "mappages pt va (of_nat (n * PGSIZE)) pa perm s = mappages_loop pt va (pg va j) pa perm s"
    unfolding mappages_def using sz by (simp only:) simp
  then show ?thesis
    using mappages_loop_ok[OF assms(1-4), of j pa perm] assms(5,7) n by auto
qed

lemma walkaddr_ok:
  assumes "tree e (mem s) 2 pt"
  shows "walkaddr pt va s = Ret (if MAXVA \<le> va then 0 else case leaf (mem s) pt va of None \<Rightarrow> 0
    | Some x \<Rightarrow> if x AND PTE_U = 0 then 0 else PTE2PA x) s"
  using walk_loop_find[OF assms] pwalk_nz[OF assms]
  by (auto simp: walkaddr_def walk_def leaf_def valid_def split: option.splits)

section \<open>Properties\<close>

text \<open>
  C26: \<open>mappages\<close> installs exactly the translations it is asked for. On a well-formed table
  whose range is unmapped it returns 0 with every page of the range mapped to the matching
  physical page with the given permissions, and every other address translated as before; or
  it returns -1 because the allocator ran out of pages. Either way the table stays a tree of
  pages, grown only by pages that were free, and no page outside the table changes.
\<close>

theorem mappages_translates:
  fixes s :: "'z kmemst_scheme"
  assumes "kmem_rep ps s" and "tree (kend s) (mem s) 2 pt" and "set ps \<inter> tabs (mem s) 2 pt = {}"
    and "unat va mod PGSIZE = 0" and "unat va + n * PGSIZE \<le> unat MAXVA" and "0 < n"
    and "\<forall>k < n. leaf (mem s) pt (pg va k) = None"
    and "unat pa mod PGSIZE = 0" and "unat pa + n * PGSIZE < 2 ^ 64" and "take_bit 10 perm = perm"
  shows "\<exists>r s' new ps'. mappages pt va (of_nat (n * PGSIZE)) pa perm s = Ret r s' \<and>
     ps = new @ ps' \<and> kmem_rep ps' s' \<and> tree (kend s) (mem s') 2 pt \<and>
     tabs (mem s') 2 pt \<subseteq> tabs (mem s) 2 pt \<union> set new \<and>
     (\<forall>q. page_ok (kend s) q \<longrightarrow> q \<notin> tabs (mem s) 2 pt \<union> set new \<longrightarrow> page_eq (mem s) (mem s') q) \<and>
     (\<forall>vb < MAXVA. (\<forall>k < n. PGROUNDDOWN vb \<noteq> pg va k) \<longrightarrow> leaf (mem s') pt vb = leaf (mem s) pt vb) \<and>
     (r = 0 \<and> (\<forall>k < n. \<exists>x. leaf (mem s') pt (pg va k) = Some x \<and> PTE2PA x = pg pa k \<and>
                  PTE_FLAGS x = perm OR PTE_V) \<or>
      r = -1 \<and> ps' = [])"
proof -
  obtain r s' where run: "mappages pt va (of_nat (n * PGSIZE)) pa perm s = Ret r s'"
    and p: "map_post pt va n pa perm ps s r s'"
    using mappages_ok[OF assms(1-6)] assms(7) by blast
  obtain new ps' where n: "ps = new @ ps'" "kmem_rep ps' s'"
      "tab_grow (kend s) (mem s) pt (mem s') (set new)" "r \<noteq> 0 \<Longrightarrow> ps' = []"
    using p unfolding map_post_def by blast
  have fl: "take_bit 10 (perm OR PTE_V) = perm OR PTE_V"
    using assms(10) by (simp add: take_bit_or PTE_V_def)
  have al: "unat (pg pa k) mod PGSIZE = 0" if "k < n" for k
  proof -
    have "k * PGSIZE \<le> n * PGSIZE" using that by simp
    then have "unat (pg pa k) = unat pa + k * PGSIZE"
      unfolding pg_def using assms(9) by (intro unat_add_of_nat) linarith
    then show ?thesis using assms(8) by simp
  qed
  have "\<exists>x. leaf (mem s') pt (pg va k) = Some x \<and> PTE2PA x = pg pa k \<and> PTE_FLAGS x = perm OR PTE_V"
    if "r = 0" "k < n" for k
    using p that PTE2PA_PA2PTE[OF al[OF that(2)] fl] PTE_FLAGS_PA2PTE[OF fl] by (auto simp: map_post_def)
  moreover have "r = 0 \<or> r = -1" "\<forall>vb < MAXVA. (\<forall>k < n. PGROUNDDOWN vb \<noteq> pg va k) \<longrightarrow> leaf (mem s') pt vb = leaf (mem s) pt vb"
    using p by (simp_all add: map_post_def)
  ultimately show ?thesis
    using run n unfolding tab_grow_def by (intro exI[of _ r] exI[of _ s'] exI[of _ new] exI[of _ ps']) auto
qed

text \<open>An empty table and two free pages.\<close>

definition vm0 :: kmemst where
  "vm0 = kmem0\<lparr>mem := st64 (\<lambda>_. 0) 0x80002000 0x80003000, freelist := 0x80002000, kend := 0x80000000\<rparr>"

lemma vm0_simps [simp]:
  "mem vm0 = st64 (\<lambda>_. 0) 0x80002000 0x80003000" "kend vm0 = 0x80000000" "freelist vm0 = 0x80002000"
  "hw vm0 = hw0"
  by (simp_all add: vm0_def kmem0_def lightst.defs kmemst.defs light0_def)

lemma vm0_pages [simp]:
  "page_ok 0x80000000 0x80001000" "page_ok 0x80000000 0x80002000" "page_ok 0x80000000 0x80003000"
  by (simp_all add: page_ok_def PGSIZE_def PHYSTOP_def KERNBASE_def)

lemma ent_zeros: "ent (\<lambda>_. 0) p i = 0"
proof -
  have "map (\<lambda>k. 0 :: u8) [0..<n] = replicate n 0" for n by (rule nth_equalityI) simp_all
  moreover have "le_val (replicate n 0) = 0" for n by (induction n) simp_all
  ultimately show ?thesis by (simp add: ent_def ld64_def ld_def)
qed

lemma vm0_entry:
  assumes "page_ok 0x80000000 q" and "q \<noteq> 0x80002000" and "i < 512"
  shows "ent (mem vm0) q i = 0"
proof -
  have "page_eq (\<lambda>_. 0) (mem vm0) q"
    using page_eq_st64[OF vm0_pages(2) assms(1), of 0] assms(2) by (simp add: slot_def)
  then show ?thesis using ent_page_eq[OF _ assms(3)] ent_zeros by metis
qed

lemma vm0_tree: "tree 0x80000000 (mem vm0) 2 0x80001000" "tabs (mem vm0) 2 0x80001000 = {0x80001000}"
proof -
  have "\<not> valid (ent (mem vm0) 0x80001000 i)" if "i < 512" for i
    using that by (subst vm0_entry) simp_all
  from zero_table[OF this, where l = 2] show "tree 0x80000000 (mem vm0) 2 0x80001000"
    "tabs (mem vm0) 2 0x80001000 = {0x80001000}" by simp_all
qed

lemma vm0_rep: "kmem_rep [0x80002000, 0x80003000] vm0"
  using vm0_entry[OF vm0_pages(3), of 0] by (simp add: kmem_rep_def ent_def slot_def)

lemma vm0_unmapped: "leaf (mem vm0) 0x80001000 va = None"
proof -
  have "\<not> valid (ent (mem vm0) 0x80001000 (px (Suc 1) va))" by (subst vm0_entry) simp_all
  then have "pwalk (mem vm0) (Suc 1) 0x80001000 va = None"
    by (simp only: pwalk.simps Let_def) simp
  then show ?thesis by (simp only: leaf_def Suc_1) simp
qed

theorem mappages_translates_witness:
  "\<exists>r s'. mappages 0x80001000 0x5000 (of_nat PGSIZE) 0x80006000 (PTE_R OR PTE_W) vm0 = Ret r s' \<and>
     (r = 0 \<and> (\<exists>x. leaf (mem s') 0x80001000 0x5000 = Some x \<and> PTE2PA x = 0x80006000) \<or> r = -1)"
proof -
  have "\<forall>k < 1. leaf (mem vm0) 0x80001000 (pg 0x5000 k) = None"
    by (simp add: vm0_unmapped del: vm0_simps(1))
  from mappages_translates[OF vm0_rep _ _ _ _ _ this, where pa = "0x80006000" and perm = "PTE_R OR PTE_W"]
  show ?thesis
    using vm0_tree by (simp add: PGSIZE_def MAXVA_def PTE_R_def PTE_W_def del: vm0_simps(1)) blast
qed

end
