(* ===== verification/UserMem.thy ===== *)
theory UserMem
  imports PtWalk
begin

text \<open>
  Copies between the kernel and user memory: \<open>copyout\<close> and \<open>copyin\<close> of \<open>kernel/vm.c\<close> on a
  range of mapped pages read and write exactly the bytes the page table assigns to the range.
\<close>

section \<open>Physical addresses of user bytes\<close>

definition upa :: "memory \<Rightarrow> u64 \<Rightarrow> u64 \<Rightarrow> u64" where
  "upa m pt v = PTE2PA (the (leaf m pt v))"

definition phys :: "memory \<Rightarrow> u64 \<Rightarrow> u64 \<Rightarrow> u64" where
  "phys m pt va = upa m pt (PGROUNDDOWN va) + (va - PGROUNDDOWN va)"

text \<open>A page the user may write, in memory of its own.\<close>

definition upage :: "u64 \<Rightarrow> memory \<Rightarrow> u64 \<Rightarrow> u64 \<Rightarrow> bool" where
  "upage e m pt v \<longleftrightarrow> (\<exists>x. leaf m pt v = Some x \<and> x AND PTE_U \<noteq> 0 \<and> x AND PTE_W \<noteq> 0) \<and>
     page_ok e (upa m pt v) \<and> upa m pt v \<notin> tabs m 2 pt"

definition urange :: "u64 \<Rightarrow> memory \<Rightarrow> u64 \<Rightarrow> u64 \<Rightarrow> nat \<Rightarrow> bool" where
  "urange e m pt va n \<longleftrightarrow> tree e m 2 pt \<and> unat va + n \<le> unat MAXVA \<and>
     (\<forall>k < n. upage e m pt (PGROUNDDOWN (va + of_nat k))) \<and>
     (\<forall>j < n. \<forall>k < n. upa m pt (PGROUNDDOWN (va + of_nat j)) = upa m pt (PGROUNDDOWN (va + of_nat k)) \<longrightarrow>
        PGROUNDDOWN (va + of_nat j) = PGROUNDDOWN (va + of_nat k))"

lemma urangeD:
  assumes "urange e m pt va n"
  shows "tree e m 2 pt" "unat va + n \<le> unat MAXVA"
    "\<And>k. k < n \<Longrightarrow> upage e m pt (PGROUNDDOWN (va + of_nat k))"
    "\<And>j k. j < n \<Longrightarrow> k < n \<Longrightarrow> upa m pt (PGROUNDDOWN (va + of_nat j)) = upa m pt (PGROUNDDOWN (va + of_nat k)) \<Longrightarrow>
        PGROUNDDOWN (va + of_nat j) = PGROUNDDOWN (va + of_nat k)"
  using assms by (simp_all add: urange_def)

lemma unat_range:
  assumes "unat (va :: u64) + n \<le> unat MAXVA" and "k \<le> n"
  shows "unat (va + of_nat k) = unat va + k"
  using assms unat_u64[of MAXVA] by (intro unat_add_of_nat) linarith

lemma urange_drop:
  assumes "urange e m pt va n" and "j \<le> n"
  shows "urange e m pt (va + of_nat j) (n - j)"
proof -
  have a: "va + of_nat j + of_nat k = va + of_nat (j + k)" for k by (simp add: algebra_simps)
  have "unat (va + of_nat j) + (n - j) \<le> unat MAXVA"
    using unat_range[OF urangeD(2)[OF assms(1)] assms(2)] urangeD(2)[OF assms(1)] assms(2) by simp
  moreover have "upage e m pt (PGROUNDDOWN (va + of_nat (j + k)))" if "k < n - j" for k
    using that by (intro urangeD(3)[OF assms(1)]) simp
  moreover have "PGROUNDDOWN (va + of_nat (j + i)) = PGROUNDDOWN (va + of_nat (j + k))"
    if "i < n - j" "k < n - j" "upa m pt (PGROUNDDOWN (va + of_nat (j + i))) = upa m pt (PGROUNDDOWN (va + of_nat (j + k)))" for i k
    using that(1,2) by (intro urangeD(4)[OF assms(1) _ _ that(3)]) simp_all
  ultimately show ?thesis unfolding urange_def a using urangeD(1)[OF assms(1)] by blast
qed

text \<open>Offsets in a page.\<close>

lemma page_split:
  fixes va :: u64
  assumes "unat va + n \<le> unat MAXVA" and "k < n"
  shows "unat (va + of_nat k - PGROUNDDOWN (va + of_nat k)) = (unat va + k) mod PGSIZE"
    and "unat (PGROUNDDOWN (va + of_nat k)) = (unat va + k) div PGSIZE * PGSIZE"
  using unat_range[OF assms(1), of k] assms(2) by (simp_all add: page_offset unat_PGROUNDDOWN)

lemma page_room_eq: "page_room va = PGSIZE - unat va mod PGSIZE"
  by (simp add: page_room_def page_offset)

lemma same_page:
  fixes va :: u64
  assumes "unat va + n \<le> unat MAXVA" and "k < n" and "k < page_room va"
  shows "PGROUNDDOWN (va + of_nat k) = PGROUNDDOWN va"
    and "va + of_nat k - PGROUNDDOWN va = (va - PGROUNDDOWN va) + of_nat k"
proof -
  have "unat va mod PGSIZE + k < PGSIZE" using assms(3) by (simp add: page_room_eq)
  then have "(unat va + k) div PGSIZE = unat va div PGSIZE" by (subst div_add1_eq) simp
  then show "PGROUNDDOWN (va + of_nat k) = PGROUNDDOWN va"
    using page_split(2)[OF assms(1,2)] by (simp add: word_unat_eq_iff unat_PGROUNDDOWN)
  show "va + of_nat k - PGROUNDDOWN va = (va - PGROUNDDOWN va) + of_nat k" by simp
qed

lemma next_page:
  fixes va :: u64
  shows "PGROUNDDOWN va + of_nat PGSIZE = va + of_nat (page_room va)"
proof -
  have "page_room va = PGSIZE - unat (va - PGROUNDDOWN va)" "unat (va - PGROUNDDOWN va) \<le> PGSIZE"
    using mod_less_divisor[OF PGSIZE_pos, of "unat va"] by (simp_all add: page_room_def page_offset)
  then show ?thesis by (simp add: of_nat_diff)
qed

section \<open>copyin\<close>

lemma upage_found:
  assumes "tree e (mem s) 2 pt" and "upage e (mem s) pt v" and "v < MAXVA"
  shows "page_for_copy pt v s = Ret (upa (mem s) pt v) s"
    and "\<exists>a. walk pt v False s = Ret a s \<and> a \<noteq> 0 \<and> ld64 (mem s) a AND PTE_W \<noteq> 0"
proof -
  obtain x where x: "leaf (mem s) pt v = Some x" "x AND PTE_U \<noteq> 0" "x AND PTE_W \<noteq> 0"
    using assms(2) by (auto simp: upage_def)
  have nz: "PTE2PA x \<noteq> 0" using assms(2) x(1) by (simp add: upage_def upa_def page_ok_def)
  show "page_for_copy pt v s = Ret (upa (mem s) pt v) s"
    using walkaddr_ok[OF assms(1), of v] x nz assms(3)
    by (simp add: page_for_copy_def upa_def linorder_not_le[symmetric])
  obtain a where "pwalk (mem s) 2 pt v = Some a" "ld64 (mem s) a = x"
    using x(1) by (auto simp: leaf_def split: option.splits if_splits)
  then show "\<exists>a. walk pt v False s = Ret a s \<and> a \<noteq> 0 \<and> ld64 (mem s) a AND PTE_W \<noteq> 0"
    using walk_loop_find[OF assms(1), of v] pwalk_nz[OF assms(1)] x(3) assms(3)
    by (auto simp: walk_def linorder_not_le[symmetric])
qed

lemma urange_first:
  assumes "urange e m pt va n" and "0 < n"
  shows "upage e m pt (PGROUNDDOWN va)" and "PGROUNDDOWN va < MAXVA"
proof -
  show "upage e m pt (PGROUNDDOWN va)" using urangeD(3)[OF assms] by simp
  have "unat (PGROUNDDOWN va) \<le> unat va" by (simp add: unat_PGROUNDDOWN)
  then show "PGROUNDDOWN va < MAXVA" using urangeD(2)[OF assms(1)] assms(2) by (simp add: word_less_nat_alt)
qed

lemma phys_chunk:
  assumes "urange e m pt va n" and "k < n" and "k < page_room va"
  shows "phys m pt (va + of_nat k) = phys m pt va + of_nat k"
  using same_page[OF urangeD(2)[OF assms(1)] assms(2,3)] by (simp add: phys_def)

definition ubytes :: "memory \<Rightarrow> u64 \<Rightarrow> u64 \<Rightarrow> nat \<Rightarrow> u8 list" where
  "ubytes m pt va n = map (\<lambda>k. m (phys m pt (va + of_nat k))) [0..<n]"

lemma ubytes_split:
  assumes "j \<le> n"
  shows "ubytes m pt va n = ubytes m pt va j @ ubytes m pt (va + of_nat j) (n - j)"
proof -
  have "[0..<n] = [0..<j] @ map ((+) j) [0..<n - j]"
    using assms by (intro nth_equalityI) (auto simp: nth_append)
  then show ?thesis by (simp add: ubytes_def comp_def add.assoc)
qed

lemma copyin_ok:
  fixes s :: "'z procst_scheme"
  assumes "urange e (mem s) pt va n"
  shows "copyin pt va n s = Ret (0, ubytes (mem s) pt va n) s"
  using assms
proof (induction n arbitrary: va rule: less_induct)
  case (less n)
  show ?case
  proof (cases "n = 0")
    case True
    then show ?thesis by (subst copyin.simps) (simp add: ubytes_def)
  next
    case False
    let ?n = "min (page_room va) n"
    have pos: "0 < ?n" "?n \<le> n" using False by simp_all
    note f = urange_first[OF less.prems] and t = urangeD(1)[OF less.prems]
    have chunk: "rd_bytes (mem s) (upa (mem s) pt (PGROUNDDOWN va) + (va - PGROUNDDOWN va)) ?n = ubytes (mem s) pt va ?n"
      unfolding phys_def[symmetric] rd_bytes_def ubytes_def using phys_chunk[OF less.prems] by simp
    have rest: "copyin pt (PGROUNDDOWN va + of_nat PGSIZE) (n - ?n) s =
        Ret (0, ubytes (mem s) pt (va + of_nat ?n) (n - ?n)) s"
    proof (cases "page_room va \<le> n")
      case True
      then have "?n = page_room va" by simp
      then show ?thesis
        using less.IH[OF _ urange_drop[OF less.prems pos(2)]] pos False by (simp add: next_page)
    next
      case False
      then show ?thesis by (subst copyin.simps) (simp add: ubytes_def)
    qed
    have "upa (mem s) pt (PGROUNDDOWN va) \<noteq> 0" using f(1) False by (simp add: upage_def page_ok_def)
    then show ?thesis
      using upage_found(1)[OF t f] False rest chunk ubytes_split[OF pos(2), of "mem s" pt va]
      by (subst copyin.simps) (simp add: Let_def)
  qed
qed

section \<open>copyout\<close>

lemma page_addr_inj:
  assumes "page_ok e p" and "page_ok e q" and "i < PGSIZE" and "j < PGSIZE" and "p + of_nat i = q + of_nat j"
  shows "p = q \<and> i = j"
proof -
  have "unat (p + of_nat i) = unat p + i" "unat (q + of_nat j) = unat q + j"
    using page_ok_bound[OF assms(1)] page_ok_bound[OF assms(2)] assms(3,4)
    by (intro unat_add_of_nat; simp)+
  then have eq: "unat p + i = unat q + j" using assms(5) by simp
  have "p = q"
  proof (rule ccontr)
    assume "p \<noteq> q"
    then show False using page_apart[OF assms(1,2)] eq assms(3,4) by (auto simp: apart_def)
  qed
  with eq show ?thesis by simp
qed

lemma phys_page:
  assumes "urange e m pt va n" and "k < n"
  shows "phys m pt (va + of_nat k) = upa m pt (PGROUNDDOWN (va + of_nat k)) + of_nat ((unat va + k) mod PGSIZE)"
    and "page_ok e (upa m pt (PGROUNDDOWN (va + of_nat k)))" "upa m pt (PGROUNDDOWN (va + of_nat k)) \<notin> tabs m 2 pt"
proof -
  have "va + of_nat k - PGROUNDDOWN (va + of_nat k) = of_nat ((unat va + k) mod PGSIZE)"
    using page_split(1)[OF urangeD(2)[OF assms(1)] assms(2)] by (metis of_nat_unat_u64)
  then show "phys m pt (va + of_nat k) = upa m pt (PGROUNDDOWN (va + of_nat k)) + of_nat ((unat va + k) mod PGSIZE)"
    by (simp add: phys_def)
qed (use urangeD(3)[OF assms] in \<open>simp_all add: upage_def\<close>)

lemma phys_inj:
  assumes "urange e m pt va n" and "j < n" and "k < n"
    and "phys m pt (va + of_nat j) = phys m pt (va + of_nat k)"
  shows "j = k"
proof -
  note pj = phys_page[OF assms(1,2)] and pk = phys_page[OF assms(1,3)]
  have u: "upa m pt (PGROUNDDOWN (va + of_nat j)) = upa m pt (PGROUNDDOWN (va + of_nat k))"
    and o: "(unat va + j) mod PGSIZE = (unat va + k) mod PGSIZE"
    using page_addr_inj[OF pj(2) pk(2), of "(unat va + j) mod PGSIZE" "(unat va + k) mod PGSIZE"]
      assms(4) pj(1) pk(1) by simp_all
  have "PGROUNDDOWN (va + of_nat j) = PGROUNDDOWN (va + of_nat k)"
    by (rule urangeD(4)[OF assms(1-3) u])
  then have "(unat va + j) div PGSIZE * PGSIZE = (unat va + k) div PGSIZE * PGSIZE"
    using page_split(2)[OF urangeD(2)[OF assms(1)]] assms(2,3) by metis
  with o have "unat va + j = unat va + k" by (metis div_mult_mod_eq)
  then show ?thesis by simp
qed

text \<open>\<open>m'\<close> is \<open>m\<close> with the bytes \<open>bs\<close> written to user memory from \<open>va\<close> on.\<close>

definition uwritten :: "memory \<Rightarrow> u64 \<Rightarrow> u64 \<Rightarrow> u8 list \<Rightarrow> memory \<Rightarrow> bool" where
  "uwritten m pt va bs m' \<longleftrightarrow> (\<forall>k < length bs. m' (phys m pt (va + of_nat k)) = bs ! k) \<and>
     (\<forall>x. (\<forall>k < length bs. x \<noteq> phys m pt (va + of_nat k)) \<longrightarrow> m' x = m x)"

lemma uwritten_tabs:
  assumes "urange e m pt va n" and "uwritten m pt va bs m'" and "length bs \<le> n" and "p \<in> tabs m 2 pt"
  shows "page_eq m m' p"
  unfolding page_eq_def
proof (intro allI impI)
  fix i assume i: "i < PGSIZE"
  have ok: "page_ok e p" by (rule tree_page[OF urangeD(1)[OF assms(1)] assms(4)])
  have "p + of_nat i \<noteq> phys m pt (va + of_nat k)" if "k < length bs" for k
  proof
    assume eq: "p + of_nat i = phys m pt (va + of_nat k)"
    have k: "k < n" using that assms(3) by simp
    note ph = phys_page[OF assms(1) k]
    have "p = upa m pt (PGROUNDDOWN (va + of_nat k))"
      using page_addr_inj[OF ok ph(2) i, of "(unat va + k) mod PGSIZE"] eq ph(1) by simp
    then show False using ph(3) assms(4) by simp
  qed
  then show "m (p + of_nat i) = m' (p + of_nat i)" using assms(2) by (simp add: uwritten_def)
qed

lemma leaf_cong:
  assumes "\<And>p. p \<in> tabs m 2 pt \<Longrightarrow> page_eq m m' p"
  shows "leaf m' pt v = leaf m pt v"
proof -
  have w: "pwalk m' 2 pt v = pwalk m 2 pt v" using tree_cong[OF assms] by blast
  have "ld64 m' a = ld64 m a" if wa: "pwalk m 2 pt v = Some a" for a
  proof -
    obtain q j where q: "q \<in> tabs m 2 pt" "j < 512" "a = slot q j" using pwalk_slot[OF wa] by blast
    then show ?thesis using ent_page_eq[OF assms[OF q(1)] q(2)] by (simp add: ent_def)
  qed
  then show ?thesis by (auto simp: leaf_def w split: option.splits)
qed

lemma urange_cong:
  assumes "urange e m pt va n" and "\<And>p. p \<in> tabs m 2 pt \<Longrightarrow> page_eq m m' p"
  shows "urange e m' pt va n" and "phys m' pt v = phys m pt v"
proof -
  have l: "leaf m' pt x = leaf m pt x" for x by (rule leaf_cong[OF assms(2)])
  have t: "tabs m' 2 pt = tabs m 2 pt" "tree e m' 2 pt = tree e m 2 pt"
    using tree_cong[OF assms(2), where e = e] by blast+
  show "urange e m' pt va n" using assms(1) by (simp add: urange_def upage_def upa_def l t)
  show "phys m' pt v = phys m pt v" by (simp add: phys_def upa_def l)
qed

lemma uwritten_chunk:
  assumes "urange e m pt va n" and "length bs \<le> n" and "length bs \<le> page_room va"
  shows "uwritten m pt va bs (wr_bytes m (phys m pt va) bs)"
proof -
  have ph: "phys m pt (va + of_nat k) = phys m pt va + of_nat k" if "k < length bs" for k
    using that assms(2,3) by (intro phys_chunk[OF assms(1)]) simp_all
  have "page_room va \<le> PGSIZE" by (simp add: page_room_def)
  then have small: "k < length bs \<Longrightarrow> unat (of_nat k :: u64) = k" for k
    using assms(3) by (intro unat_of_nat_u64) (simp add: PGSIZE_def)
  have "wr_bytes m (phys m pt va) bs x = m x" if ne: "\<forall>k < length bs. x \<noteq> phys m pt (va + of_nat k)" for x
  proof -
    have "\<not> unat (x - phys m pt va) < length bs"
    proof
      assume less: "unat (x - phys m pt va) < length bs"
      have "x = phys m pt va + of_nat (unat (x - phys m pt va))" by simp
      then show False using ne less ph[OF less] by metis
    qed
    then show ?thesis by (simp add: wr_bytes_def)
  qed
  then show ?thesis using ph small by (simp add: uwritten_def wr_bytes_def)
qed

lemma uwritten_append:
  assumes "urange e m pt va n" and "uwritten m pt va bs m1" and "uwritten m1 pt (va + of_nat (length bs)) cs m2"
    and "length bs + length cs \<le> n"
  shows "uwritten m pt va (bs @ cs) m2"
proof -
  have eq: "page_eq m m1 p" if "p \<in> tabs m 2 pt" for p
    using uwritten_tabs[OF assms(1,2) _ that] assms(4) by simp
  have ph: "phys m1 pt v = phys m pt v" for v by (rule urange_cong(2)[OF assms(1) eq])
  have a: "va + of_nat (length bs) + of_nat k = va + of_nat (length bs + k)" for k by (simp add: algebra_simps)
  have w1: "m1 (phys m pt (va + of_nat k)) = bs ! k" if "k < length bs" for k
    using assms(2) that by (simp add: uwritten_def)
  have f1: "m1 x = m x" if "\<forall>k < length bs. x \<noteq> phys m pt (va + of_nat k)" for x
    using assms(2) that by (simp add: uwritten_def)
  have w2: "m2 (phys m pt (va + of_nat (length bs + k))) = cs ! k" if "k < length cs" for k
    using assms(3) that unfolding uwritten_def ph a by blast
  have f2: "m2 x = m1 x" if "\<forall>k < length cs. x \<noteq> phys m pt (va + of_nat (length bs + k))" for x
    using assms(3) that unfolding uwritten_def ph a by blast
  have "m2 (phys m pt (va + of_nat k)) = (bs @ cs) ! k" if k: "k < length (bs @ cs)" for k
  proof (cases "k < length bs")
    case True
    have "phys m pt (va + of_nat k) \<noteq> phys m pt (va + of_nat (length bs + j))" if "j < length cs" for j
      using phys_inj[OF assms(1), of k "length bs + j"] True that assms(4) by auto
    then show ?thesis using True f2[of "phys m pt (va + of_nat k)"] w1 by (simp add: nth_append)
  next
    case False
    then have "m2 (phys m pt (va + of_nat (length bs + (k - length bs)))) = cs ! (k - length bs)"
      using k by (intro w2) simp
    then show ?thesis using False by (simp add: nth_append)
  qed
  moreover have "m2 x = m x" if "\<forall>k < length (bs @ cs). x \<noteq> phys m pt (va + of_nat k)" for x
  proof -
    have "\<forall>k < length cs. x \<noteq> phys m pt (va + of_nat (length bs + k))"
    proof (intro allI impI)
      fix k assume "k < length cs"
      then show "x \<noteq> phys m pt (va + of_nat (length bs + k))" using that[rule_format, of "length bs + k"] by simp
    qed
    moreover have "\<forall>k < length bs. x \<noteq> phys m pt (va + of_nat k)" using that by simp
    ultimately show ?thesis using f2 f1 by metis
  qed
  ultimately show ?thesis by (simp add: uwritten_def)
qed

lemma copyout_ok:
  fixes s :: "'z procst_scheme"
  assumes "urange e (mem s) pt va (length bs)"
  shows "\<exists>m'. copyout pt va bs s = Ret 0 (s\<lparr>mem := m'\<rparr>) \<and> uwritten (mem s) pt va bs m'"
  using assms
proof (induction "length bs" arbitrary: va bs s rule: less_induct)
  case less
  show ?case
  proof (cases "bs = []")
    case True
    then show ?thesis
      by (subst copyout.simps) (auto simp: uwritten_def intro!: exI[of _ "mem s"])
  next
    case False
    let ?n = "min (page_room va) (length bs)"
    let ?m = "wr_bytes (mem s) (phys (mem s) pt va) (take ?n bs)" and ?va = "va + of_nat ?n"
    note f = urange_first[OF less.prems] and t = urangeD(1)[OF less.prems]
    have pos: "0 < length bs" "?n \<le> length bs" "0 < ?n" using False by simp_all
    have w: "uwritten (mem s) pt va (take ?n bs) ?m"
      by (rule uwritten_chunk[OF less.prems]) simp_all
    have eq: "page_eq (mem s) ?m p" if "p \<in> tabs (mem s) 2 pt" for p
      using uwritten_tabs[OF less.prems w _ that] by simp
    have rng: "urange e ?m pt ?va (length bs - ?n)"
      using urange_cong(1)[OF urange_drop[OF less.prems pos(2)] eq] .
    have "\<exists>m'. copyout pt (PGROUNDDOWN va + of_nat PGSIZE) (drop ?n bs) (s\<lparr>mem := ?m\<rparr>) =
        Ret 0 (s\<lparr>mem := m'\<rparr>) \<and> uwritten ?m pt ?va (drop ?n bs) m'"
    proof (cases "page_room va \<le> length bs")
      case True
      then have "PGROUNDDOWN va + of_nat PGSIZE = ?va" by (simp add: next_page)
      then show ?thesis
        using less.hyps[of "drop ?n bs" "s\<lparr>mem := ?m\<rparr>" ?va] rng pos False by simp
    next
      case False
      then show ?thesis
        by (subst copyout.simps) (auto simp: uwritten_def intro!: exI[of _ ?m])
    qed
    then obtain m' where rest: "copyout pt (PGROUNDDOWN va + of_nat PGSIZE) (drop ?n bs) (s\<lparr>mem := ?m\<rparr>) = Ret 0 (s\<lparr>mem := m'\<rparr>)"
      and w': "uwritten ?m pt ?va (drop ?n bs) m'" by blast
    have "uwritten (mem s) pt va (take ?n bs @ drop ?n bs) m'"
      by (rule uwritten_append[OF less.prems w]) (use w' in simp_all)
    then have "uwritten (mem s) pt va bs m'" by simp
    moreover {
    obtain a where "walk pt (PGROUNDDOWN va) False s = Ret a s" "a \<noteq> 0" "ld64 (mem s) a AND PTE_W \<noteq> 0"
      using upage_found(2)[OF t f] pos(1) by blast
    moreover have "upa (mem s) pt (PGROUNDDOWN va) \<noteq> 0" "\<not> MAXVA \<le> PGROUNDDOWN va"
      using f pos(1) by (simp_all add: upage_def page_ok_def linorder_not_le)
    ultimately have "copyout pt va bs s = Ret 0 (s\<lparr>mem := m'\<rparr>)"
      using upage_found(1)[OF t f] pos(1) False rest
      by (subst copyout.simps) (simp add: Let_def phys_def) }
    ultimately show ?thesis by blast
  qed
qed

section \<open>Properties\<close>

text \<open>
  C27: what the kernel copies to mapped user memory, it reads back. \<open>copyout\<close> to a range of
  user pages returns 0, puts each byte at the physical address the page table assigns to it, also
  across page boundaries, and changes no other byte of memory and nothing else in the state. A
  \<open>copyin\<close> of the range then returns the same bytes, and one of any other range that shares no
  byte with it returns what it would have returned before.
\<close>

theorem copyout_copyin:
  fixes s :: "'z procst_scheme"
  assumes "urange e (mem s) pt va (length bs)" and "urange e (mem s) pt vb n"
    and "\<forall>j < n. \<forall>k < length bs. phys (mem s) pt (vb + of_nat j) \<noteq> phys (mem s) pt (va + of_nat k)"
  shows "\<exists>s'. copyout pt va bs s = Ret 0 s' \<and> s' = s\<lparr>mem := mem s'\<rparr> \<and>
    (\<forall>k < length bs. mem s' (phys (mem s) pt (va + of_nat k)) = bs ! k) \<and>
    (\<forall>a. (\<forall>k < length bs. a \<noteq> phys (mem s) pt (va + of_nat k)) \<longrightarrow> mem s' a = mem s a) \<and>
    copyin pt va (length bs) s' = Ret (0, bs) s' \<and>
    copyin pt vb n s = Ret (0, ubytes (mem s) pt vb n) s \<and>
    copyin pt vb n s' = Ret (0, ubytes (mem s) pt vb n) s'"
proof -
  obtain m' where run: "copyout pt va bs s = Ret 0 (s\<lparr>mem := m'\<rparr>)" and w: "uwritten (mem s) pt va bs m'"
    using copyout_ok[OF assms(1)] by blast
  have eq: "page_eq (mem s) m' p" if "p \<in> tabs (mem s) 2 pt" for p
    using uwritten_tabs[OF assms(1) w _ that] by simp
  note ra = urange_cong[OF assms(1) eq] and rb = urange_cong(1)[OF assms(2) eq]
  have "ubytes m' pt va (length bs) = bs"
    using w by (intro nth_equalityI) (simp_all add: ubytes_def ra(2) uwritten_def)
  moreover have "ubytes m' pt vb n = ubytes (mem s) pt vb n"
    using w assms(3) by (simp add: ubytes_def ra(2) uwritten_def)
  ultimately show ?thesis
    using run copyin_ok[of e "s\<lparr>mem := m'\<rparr>" pt va "length bs"] copyin_ok[of e "s\<lparr>mem := m'\<rparr>" pt vb n]
      copyin_ok[OF assms(2)] ra(1) rb w by (simp add: uwritten_def)
qed

text \<open>A process with one user page at \<open>0x5000\<close>.\<close>

definition um1 :: memory where "um1 = st64 (\<lambda>_. 0) (slot 0x80001000 0) (PA2PTE 0x80002000 OR PTE_V)"
definition um2 :: memory where "um2 = st64 um1 (slot 0x80002000 0) (PA2PTE 0x80003000 OR PTE_V)"
definition um3 :: memory where
  "um3 = st64 um2 (slot 0x80003000 5) (PA2PTE 0x80006000 OR PTE_R OR PTE_W OR PTE_U OR PTE_V)"

lemma ent_st64_page:
  assumes "page_ok e p" and "page_ok e q" and "p \<noteq> q" and "i < 512" and "j < 512"
  shows "ent (st64 m (slot p i) v) q j = ent m q j"
  using ent_page_eq[OF page_eq_st64[OF assms(1-4)] assms(5)] by metis

lemma um3_root: "i < 512 \<Longrightarrow> ent um3 0x80001000 i = (if i = 0 then PA2PTE 0x80002000 OR PTE_V else 0)"
  by (auto simp: um3_def um2_def um1_def ent_zeros ent_st64_other[OF vm0_pages(1)]
      ent_st64_page[OF vm0_pages(2,1)] ent_st64_page[OF vm0_pages(3,1)])

lemma um3_mid: "i < 512 \<Longrightarrow> ent um3 0x80002000 i = (if i = 0 then PA2PTE 0x80003000 OR PTE_V else 0)"
  by (auto simp: um3_def um2_def um1_def ent_zeros ent_st64_other[OF vm0_pages(2)]
      ent_st64_page[OF vm0_pages(1,2)] ent_st64_page[OF vm0_pages(3,2)])

lemma um3_kids: "PTE2PA (PA2PTE 0x80002000 OR PTE_V) = 0x80002000" "PTE2PA (PA2PTE 0x80003000 OR PTE_V) = 0x80003000"
  by (rule PTE2PA_PA2PTE; simp add: PGSIZE_def PTE_V_def)+

lemma um3_tabs: "tabs um3 2 0x80001000 = {0x80001000, 0x80002000, 0x80003000}"
    "tabs um3 (Suc 0) 0x80002000 = {0x80002000, 0x80003000}"
proof -
  have "{i. i < 512 \<and> valid (ent um3 0x80002000 i)} = {0}" "{i. i < 512 \<and> valid (ent um3 0x80001000 i)} = {0}"
    using um3_mid um3_root by (auto split: if_splits)
  then show 1: "tabs um3 (Suc 0) 0x80002000 = {0x80002000, 0x80003000}"
    and "tabs um3 2 0x80001000 = {0x80001000, 0x80002000, 0x80003000}"
    using um3_mid[of 0] um3_root[of 0] by (simp_all add: numeral_2_eq_2 um3_kids)
qed

lemma um3_tree: "tree 0x80000000 um3 2 0x80001000"
proof -
  have mid: "tree 0x80000000 um3 (Suc 0) 0x80002000"
    using um3_mid by (auto simp: um3_kids split: if_splits)
  have "tree 0x80000000 um3 (Suc (Suc 0)) 0x80001000"
    unfolding tree.simps(2)[of _ _ "Suc 0"] using um3_root mid um3_tabs(2) by (auto simp: um3_kids split: if_splits)
  then show ?thesis by (simp add: numeral_2_eq_2)
qed

lemma um3_leaf: "leaf um3 0x80001000 0x5000 = Some (PA2PTE 0x80006000 OR PTE_R OR PTE_W OR PTE_U OR PTE_V)"
proof -
  have "px 2 0x5000 = 0" "px 1 0x5000 = 0" "px 0 0x5000 = 5"
    by (simp_all add: px_def PX_def) 
  then have "pwalk um3 (Suc (Suc 0)) 0x80001000 0x5000 = Some (slot 0x80003000 5)"
    using um3_mid[of 0] um3_root[of 0] by (simp add: Let_def um3_kids numeral_2_eq_2)
  then show ?thesis
    by (simp add: leaf_def numeral_2_eq_2[symmetric]) (simp add: um3_def ent_def[symmetric] valid_bit PTE_V_def bit_simps)
qed

lemma um3_upa: "upa um3 0x80001000 0x5000 = 0x80006000" "upage 0x80000000 um3 0x80001000 0x5000"
proof -
  have "take_bit 10 (PTE_R OR PTE_W OR PTE_U OR PTE_V) = PTE_R OR PTE_W OR PTE_U OR PTE_V"
    by (simp add: PTE_R_def PTE_W_def PTE_U_def PTE_V_def)
  then show u: "upa um3 0x80001000 0x5000 = 0x80006000"
    using PTE2PA_PA2PTE[of "0x80006000" "PTE_R OR PTE_W OR PTE_U OR PTE_V"]
    by (simp add: upa_def um3_leaf PGSIZE_def)
  show "upage 0x80000000 um3 0x80001000 0x5000"
    by (simp add: upage_def u um3_tabs um3_leaf page_ok_def PGSIZE_def PHYSTOP_def KERNBASE_def
        PTE_R_def PTE_W_def PTE_U_def PTE_V_def PA2PTE_def)
qed

lemma um3_urange:
  assumes "\<And>k. k < n \<Longrightarrow> PGROUNDDOWN (va + of_nat k) = 0x5000" and "unat va + n \<le> unat MAXVA"
  shows "urange 0x80000000 um3 0x80001000 va n"
  using assms um3_tree um3_upa(2) by (simp add: urange_def)

theorem copyout_copyin_witness:
  "\<exists>s'. copyout 0x80001000 0x5FFE [1, 2] (proc0\<lparr>mem := um3\<rparr>) = Ret 0 s' \<and>
    copyin 0x80001000 0x5FFE 2 s' = Ret (0, [1, 2]) s'"
proof -
  have down: "PGROUNDDOWN (0x5FFE + of_nat k) = 0x5000" "PGROUNDDOWN (0x5000 + of_nat k) = 0x5000" if "k < 2" for k
    using that by (auto simp: less_2_cases_iff PGROUNDDOWN_def PGSIZE_def)
  have "urange 0x80000000 um3 0x80001000 0x5FFE 2" "urange 0x80000000 um3 0x80001000 0x5000 2"
    using down by (intro um3_urange; simp add: MAXVA_def)+
  moreover have "phys um3 0x80001000 (0x5000 + of_nat j) \<noteq> phys um3 0x80001000 (0x5FFE + of_nat k)"
    if "j < 2" "k < 2" for j k
    unfolding phys_def down(1)[OF that(2)] down(2)[OF that(1)] um3_upa(1) using that by (auto simp: less_2_cases_iff)
  ultimately show ?thesis
    using copyout_copyin[of "0x80000000" "proc0\<lparr>mem := um3\<rparr>" "0x80001000" "0x5FFE" "[1, 2]" "0x5000" 2]
    by (simp add: numeral_2_eq_2[symmetric]) blast
qed

end
