(* ===== verification/Bio.thy ===== *)
theory Bio
  imports Vm
begin

text \<open>
  The buffer cache, \<open>kernel/bio.c\<close>. The buffers and the list head are entries of one table, the
  head at index \<open>NBUF\<close>, linked through their \<open>prev\<close> and \<open>next\<close> fields; a pointer to a buffer is
  its index. The disk is an array of blocks, addressed by the number of their first sector as
  the driver computes it. A disk request is taken to its completion: \<open>disk_rw\<close> is the effect of
  \<open>virtio_disk_rw\<close> once the device has served the request. Every write is also recorded, in
  order, so that a crash between two writes can be described.
\<close>

section \<open>State\<close>

definition BSIZE :: nat where "BSIZE = 1024"
definition MAXOPBLOCKS :: nat where "MAXOPBLOCKS = 10"
definition NBUF :: nat where "NBUF = MAXOPBLOCKS * 3"

type_synonym block = "u8 list"

record buf =
  b_valid :: int
  b_disk :: int
  b_dev :: u32
  b_blockno :: u32
  b_refcnt :: u32
  b_prev :: nat
  b_next :: nat
  b_data :: block

record bufst = vmst +
  bufs :: "buf list"
  disk :: "u32 \<Rightarrow> block"
  dtrace :: "(u32 \<times> block) list"

text \<open>Updates of different fields are kept in the order of the fields.\<close>

lemma bufst_order [simp]:
  "hw_update f0 (bufs_update g0 s) = bufs_update g0 (hw_update f0 s)"
  "hw_update f1 (disk_update g1 s) = disk_update g1 (hw_update f1 s)"
  "hw_update f2 (dtrace_update g2 s) = dtrace_update g2 (hw_update f2 s)"
  "ticks_update f3 (bufs_update g3 s) = bufs_update g3 (ticks_update f3 s)"
  "ticks_update f4 (disk_update g4 s) = disk_update g4 (ticks_update f4 s)"
  "ticks_update f5 (dtrace_update g5 s) = dtrace_update g5 (ticks_update f5 s)"
  "rooms_update f6 (bufs_update g6 s) = bufs_update g6 (rooms_update f6 s)"
  "rooms_update f7 (disk_update g7 s) = disk_update g7 (rooms_update f7 s)"
  "rooms_update f8 (dtrace_update g8 s) = dtrace_update g8 (rooms_update f8 s)"
  "lighting_initialized_update f9 (bufs_update g9 s) = bufs_update g9 (lighting_initialized_update f9 s)"
  "lighting_initialized_update f10 (disk_update g10 s) = disk_update g10 (lighting_initialized_update f10 s)"
  "lighting_initialized_update f11 (dtrace_update g11 s) = dtrace_update g11 (lighting_initialized_update f11 s)"
  "roomenv_room_update f12 (bufs_update g12 s) = bufs_update g12 (roomenv_room_update f12 s)"
  "roomenv_room_update f13 (disk_update g13 s) = disk_update g13 (roomenv_room_update f13 s)"
  "roomenv_room_update f14 (dtrace_update g14 s) = dtrace_update g14 (roomenv_room_update f14 s)"
  "mem_update f15 (bufs_update g15 s) = bufs_update g15 (mem_update f15 s)"
  "mem_update f16 (disk_update g16 s) = disk_update g16 (mem_update f16 s)"
  "mem_update f17 (dtrace_update g17 s) = dtrace_update g17 (mem_update f17 s)"
  "freelist_update f18 (bufs_update g18 s) = bufs_update g18 (freelist_update f18 s)"
  "freelist_update f19 (disk_update g19 s) = disk_update g19 (freelist_update f19 s)"
  "freelist_update f20 (dtrace_update g20 s) = dtrace_update g20 (freelist_update f20 s)"
  "kend_update f21 (bufs_update g21 s) = bufs_update g21 (kend_update f21 s)"
  "kend_update f22 (disk_update g22 s) = disk_update g22 (kend_update f22 s)"
  "kend_update f23 (dtrace_update g23 s) = dtrace_update g23 (kend_update f23 s)"
  "procs_update f24 (bufs_update g24 s) = bufs_update g24 (procs_update f24 s)"
  "procs_update f25 (disk_update g25 s) = disk_update g25 (procs_update f25 s)"
  "procs_update f26 (dtrace_update g26 s) = dtrace_update g26 (procs_update f26 s)"
  "initproc_update f27 (bufs_update g27 s) = bufs_update g27 (initproc_update f27 s)"
  "initproc_update f28 (disk_update g28 s) = disk_update g28 (initproc_update f28 s)"
  "initproc_update f29 (dtrace_update g29 s) = dtrace_update g29 (initproc_update f29 s)"
  "nextpid_update f30 (bufs_update g30 s) = bufs_update g30 (nextpid_update f30 s)"
  "nextpid_update f31 (disk_update g31 s) = disk_update g31 (nextpid_update f31 s)"
  "nextpid_update f32 (dtrace_update g32 s) = dtrace_update g32 (nextpid_update f32 s)"
  "slocks_update f33 (bufs_update g33 s) = bufs_update g33 (slocks_update f33 s)"
  "slocks_update f34 (disk_update g34 s) = disk_update g34 (slocks_update f34 s)"
  "slocks_update f35 (dtrace_update g35 s) = dtrace_update g35 (slocks_update f35 s)"
  "mtime_update f36 (bufs_update g36 s) = bufs_update g36 (mtime_update f36 s)"
  "mtime_update f37 (disk_update g37 s) = disk_update g37 (mtime_update f37 s)"
  "mtime_update f38 (dtrace_update g38 s) = dtrace_update g38 (mtime_update f38 s)"
  "stimecmp_update f39 (bufs_update g39 s) = bufs_update g39 (stimecmp_update f39 s)"
  "stimecmp_update f40 (disk_update g40 s) = disk_update g40 (stimecmp_update f40 s)"
  "stimecmp_update f41 (dtrace_update g41 s) = dtrace_update g41 (stimecmp_update f41 s)"
  "kernel_pagetable_update f42 (bufs_update g42 s) = bufs_update g42 (kernel_pagetable_update f42 s)"
  "kernel_pagetable_update f43 (disk_update g43 s) = disk_update g43 (kernel_pagetable_update f43 s)"
  "kernel_pagetable_update f44 (dtrace_update g44 s) = dtrace_update g44 (kernel_pagetable_update f44 s)"
  "etext_update f45 (bufs_update g45 s) = bufs_update g45 (etext_update f45 s)"
  "etext_update f46 (disk_update g46 s) = disk_update g46 (etext_update f46 s)"
  "etext_update f47 (dtrace_update g47 s) = dtrace_update g47 (etext_update f47 s)"
  "trampoline_update f48 (bufs_update g48 s) = bufs_update g48 (trampoline_update f48 s)"
  "trampoline_update f49 (disk_update g49 s) = disk_update g49 (trampoline_update f49 s)"
  "trampoline_update f50 (dtrace_update g50 s) = dtrace_update g50 (trampoline_update f50 s)"
  "bufs_update f51 (disk_update g51 s) = disk_update g51 (bufs_update f51 s)"
  "bufs_update f52 (dtrace_update g52 s) = dtrace_update g52 (bufs_update f52 s)"
  "disk_update f53 (dtrace_update g53 s) = dtrace_update g53 (disk_update f53 s)"
  by (induct s; simp)+

definition upd_buf :: "nat \<Rightarrow> (buf \<Rightarrow> buf) \<Rightarrow> 'z bufst_scheme \<Rightarrow> 'z bufst_scheme" where
  "upd_buf i f s = s\<lparr>bufs := (bufs s)[i := f (bufs s ! i)]\<rparr>"

text \<open>The sector a block starts at, in the driver's 32-bit arithmetic.\<close>

definition sector :: "u32 \<Rightarrow> u32" where
  "sector blockno = blockno * of_nat (BSIZE div 512)"

definition disk_rw :: "nat \<Rightarrow> bool \<Rightarrow> 'z bufst_scheme \<Rightarrow> (unit, 'z bufst_scheme) res" where
  "disk_rw b write s =
     (let a = sector (b_blockno (bufs s ! b)); d = b_data (bufs s ! b) in
      if write then Ret () (s\<lparr>disk := (disk s)(a := d), dtrace := dtrace s @ [(a, d)]\<rparr>)
      else Ret () (upd_buf b (\<lambda>x. x\<lparr>b_data := disk s a\<rparr>) s))"

section \<open>The routines of bio.c\<close>

text \<open>
  Insertion behind the list head, as \<open>binit\<close> and \<open>brelse\<close> do it.
\<close>

definition link_front :: "nat \<Rightarrow> 'z bufst_scheme \<Rightarrow> 'z bufst_scheme" where
  "link_front b s =
     (let s = upd_buf b (\<lambda>x. x\<lparr>b_next := b_next (bufs s ! NBUF)\<rparr>) s;
          s = upd_buf b (\<lambda>x. x\<lparr>b_prev := NBUF\<rparr>) s;
          s = upd_buf (b_next (bufs s ! NBUF)) (\<lambda>x. x\<lparr>b_prev := b\<rparr>) s
      in upd_buf NBUF (\<lambda>x. x\<lparr>b_next := b\<rparr>) s)"

definition binit :: "'z bufst_scheme \<Rightarrow> (unit, 'z bufst_scheme) res" where
  "binit s =
     bindr (initlock Lk_bcache ''bcache'' s) (\<lambda>_ s.
     let s = upd_buf NBUF (\<lambda>x. x\<lparr>b_prev := NBUF\<rparr>) s;
         s = upd_buf NBUF (\<lambda>x. x\<lparr>b_next := NBUF\<rparr>) s in
     for_upto 0 NBUF (\<lambda>b s.
       bindr (initsleeplock (Lk_buf_sleep b) ''buffer'' s) (\<lambda>_ s.
       Ret () (link_front b s))) s)"

text \<open>
  A scan of the list in one direction for a buffer that meets a condition. The number of steps
  is bounded by the number of buffers; in a list that is not closed the scan does not end.
\<close>

fun bscan :: "(buf \<Rightarrow> nat) \<Rightarrow> (buf \<Rightarrow> bool) \<Rightarrow> nat \<Rightarrow> nat \<Rightarrow> buf list \<Rightarrow> nat option option" where
  "bscan nx P 0 b bs = None"
| "bscan nx P (Suc n) b bs =
     (if b = NBUF then Some None
      else if P (bs ! b) then Some (Some b)
      else bscan nx P n (nx (bs ! b)) bs)"

definition bget :: "u32 \<Rightarrow> u32 \<Rightarrow> 'z bufst_scheme \<Rightarrow> (nat, 'z bufst_scheme) res" where
  "bget dev blockno s =
     bindr (acquire Lk_bcache s) (\<lambda>_ s.
     case bscan b_next (\<lambda>b. b_dev b = dev \<and> b_blockno b = blockno) (NBUF + 1)
            (b_next (bufs s ! NBUF)) (bufs s) of
       None \<Rightarrow> Spin s
     | Some (Some b) \<Rightarrow>
         let s = upd_buf b (\<lambda>x. x\<lparr>b_refcnt := b_refcnt x + 1\<rparr>) s in
         bindr (release Lk_bcache s) (\<lambda>_ s.
         bindr (acquiresleep (Lk_buf_sleep b) s) (\<lambda>_ s. Ret b s))
     | Some None \<Rightarrow>
         (case bscan b_prev (\<lambda>b. b_refcnt b = 0) (NBUF + 1) (b_prev (bufs s ! NBUF)) (bufs s) of
            None \<Rightarrow> Spin s
          | Some (Some b) \<Rightarrow>
              let s = upd_buf b (\<lambda>x. x\<lparr>b_dev := dev, b_blockno := blockno, b_valid := 0, b_refcnt := 1\<rparr>) s in
              bindr (release Lk_bcache s) (\<lambda>_ s.
              bindr (acquiresleep (Lk_buf_sleep b) s) (\<lambda>_ s. Ret b s))
          | Some None \<Rightarrow> Panic ''bget: no buffers''))"

definition bread :: "u32 \<Rightarrow> u32 \<Rightarrow> 'z bufst_scheme \<Rightarrow> (nat, 'z bufst_scheme) res" where
  "bread dev blockno s =
     bindr (bget dev blockno s) (\<lambda>b s.
     if b_valid (bufs s ! b) = 0 then
       bindr (disk_rw b False s) (\<lambda>_ s. Ret b (upd_buf b (\<lambda>x. x\<lparr>b_valid := 1\<rparr>) s))
     else Ret b s)"

definition bwrite :: "nat \<Rightarrow> 'z bufst_scheme \<Rightarrow> (unit, 'z bufst_scheme) res" where
  "bwrite b s =
     bindr (holdingsleep (Lk_buf_sleep b) s) (\<lambda>h s.
     if \<not> h then Panic ''bwrite'' else disk_rw b True s)"

definition brelse :: "nat \<Rightarrow> 'z bufst_scheme \<Rightarrow> (unit, 'z bufst_scheme) res" where
  "brelse b s =
     bindr (holdingsleep (Lk_buf_sleep b) s) (\<lambda>h s.
     if \<not> h then Panic ''brelse''
     else
       bindr (releasesleep (Lk_buf_sleep b) s) (\<lambda>_ s.
       bindr (acquire Lk_bcache s) (\<lambda>_ s.
       let s = upd_buf b (\<lambda>x. x\<lparr>b_refcnt := b_refcnt x - 1\<rparr>) s;
           s = (if b_refcnt (bufs s ! b) = 0 then
                  let s = upd_buf (b_next (bufs s ! b)) (\<lambda>x. x\<lparr>b_prev := b_prev (bufs s ! b)\<rparr>) s;
                      s = upd_buf (b_prev (bufs s ! b)) (\<lambda>x. x\<lparr>b_next := b_next (bufs s ! b)\<rparr>) s
                  in link_front b s
                else s)
       in release Lk_bcache s)))"

definition bpin :: "nat \<Rightarrow> 'z bufst_scheme \<Rightarrow> (unit, 'z bufst_scheme) res" where
  "bpin b s =
     bindr (acquire Lk_bcache s) (\<lambda>_ s.
     release Lk_bcache (upd_buf b (\<lambda>x. x\<lparr>b_refcnt := b_refcnt x + 1\<rparr>) s))"

definition bunpin :: "nat \<Rightarrow> 'z bufst_scheme \<Rightarrow> (unit, 'z bufst_scheme) res" where
  "bunpin b s =
     bindr (acquire Lk_bcache s) (\<lambda>_ s.
     release Lk_bcache (upd_buf b (\<lambda>x. x\<lparr>b_refcnt := b_refcnt x - 1\<rparr>) s))"

end
