(* ===== verification/BioSpec.thy ===== *)
theory BioSpec
  imports Bio
begin

text \<open>
  What the buffer cache promises. Its linked list is a list of all buffers in order of use; a
  block has at most one buffer; and what a client sees of a block is the cached copy if there
  is one and the disk otherwise, whichever buffers are recycled in between.
\<close>

section \<open>The linked list\<close>

text \<open>A chain of nodes from \<open>a\<close> to \<open>z\<close> in both directions.\<close>

fun seg :: "(nat \<Rightarrow> nat) \<Rightarrow> (nat \<Rightarrow> nat) \<Rightarrow> nat \<Rightarrow> nat list \<Rightarrow> nat \<Rightarrow> bool" where
  "seg nx pv a [] z \<longleftrightarrow> nx a = z \<and> pv z = a"
| "seg nx pv a (x # xs) z \<longleftrightarrow> nx a = x \<and> pv x = a \<and> seg nx pv x xs z"

lemma seg_append: "seg nx pv a (xs @ x # ys) z \<longleftrightarrow> seg nx pv a xs x \<and> seg nx pv x ys z"
  by (induction xs arbitrary: a) auto

lemma seg_cong:
  assumes "\<And>i. i \<in> set (a # xs) \<Longrightarrow> nx' i = nx i" and "\<And>i. i \<in> set (xs @ [z]) \<Longrightarrow> pv' i = pv i"
  shows "seg nx' pv' a xs z = seg nx pv a xs z"
  using assms by (induction xs arbitrary: a) auto

lemma seg_unlink:
  assumes "seg nx pv a (ys @ b # zs) z" and "distinct (a # ys @ b # zs)" and "z \<notin> set (ys @ b # zs)"
  shows "seg (nx(pv b := nx b)) (pv(nx b := pv b)) a (ys @ zs) z \<and> pv b \<in> set (a # ys) \<and> nx b \<in> set (zs @ [z])"
  using assms
proof (induction ys arbitrary: a)
  case Nil
  then have ab: "nx a = b" "pv b = a" "seg nx pv b zs z" by simp_all
  show ?case
  proof (cases zs)
    case Nil
    then show ?thesis using ab by simp
  next
    case (Cons c cs)
    have "seg (nx(a := c)) (pv(c := a)) c cs z = seg nx pv c cs z"
      using Nil.prems(2,3) Cons by (intro seg_cong) auto
    then show ?thesis using ab Cons by (simp add: fun_upd_def)
  qed
next
  case (Cons y ys)
  have h: "nx a = y" "pv y = a" "seg nx pv y (ys @ b # zs) z" using Cons.prems(1) by simp_all
  have ih: "seg (nx(pv b := nx b)) (pv(nx b := pv b)) y (ys @ zs) z \<and> pv b \<in> set (y # ys) \<and> nx b \<in> set (zs @ [z])"
    using Cons.prems(2,3) by (intro Cons.IH[OF h(3)]) simp_all
  moreover from this have "pv b \<noteq> a" "nx b \<noteq> y" using Cons.prems(2,3) by auto
  ultimately show ?case using h by (auto simp: fun_upd_def)
qed

lemma seg_push:
  assumes "seg nx pv a xs z" and "b \<notin> set (a # xs @ [z])" and "distinct (a # xs)" and "z \<notin> set xs"
  shows "seg (nx(b := nx a, a := b)) (pv(b := a, nx a := b)) a (b # xs) z"
proof (cases xs)
  case Nil
  then show ?thesis using assms by auto
next
  case (Cons c cs)
  have "seg (nx(b := nx a, a := b)) (pv(b := a, nx a := b)) c cs z = seg nx pv c cs z"
    using assms Cons by (intro seg_cong) auto
  then show ?thesis using assms Cons by (auto simp: fun_upd_def)
qed

definition ring :: "nat list \<Rightarrow> buf list \<Rightarrow> bool" where
  "ring xs bs \<longleftrightarrow> seg (\<lambda>i. b_next (bs ! i)) (\<lambda>i. b_prev (bs ! i)) NBUF xs NBUF \<and>
     distinct xs \<and> set xs = {..<NBUF} \<and> length bs = Suc NBUF"

lemma ringD:
  assumes "ring xs bs"
  shows "seg (\<lambda>i. b_next (bs ! i)) (\<lambda>i. b_prev (bs ! i)) NBUF xs NBUF" "distinct xs"
    "set xs = {..<NBUF}" "length bs = Suc NBUF" "length xs = NBUF"
  using assms distinct_card[of xs] by (simp_all add: ring_def)

lemma ring_cong:
  assumes "ring xs bs" and "length bs' = length bs"
    and "\<And>i. i \<le> NBUF \<Longrightarrow> b_next (bs' ! i) = b_next (bs ! i) \<and> b_prev (bs' ! i) = b_prev (bs ! i)"
  shows "ring xs bs'"
proof -
  have "seg (\<lambda>i. b_next (bs' ! i)) (\<lambda>i. b_prev (bs' ! i)) NBUF xs NBUF =
      seg (\<lambda>i. b_next (bs ! i)) (\<lambda>i. b_prev (bs ! i)) NBUF xs NBUF"
    using ringD(3)[OF assms(1)] assms(3) by (intro seg_cong) auto
  then show ?thesis using assms(1,2) by (simp add: ring_def)
qed

text \<open>The two scans visit the list from its front and from its back.\<close>

lemma bscan_seg:
  assumes "seg (\<lambda>i. b_next (bs ! i)) pv a xs NBUF" and "length xs < n" and "NBUF \<notin> set xs"
  shows "bscan b_next P n (b_next (bs ! a)) bs = Some (find (\<lambda>i. P (bs ! i)) xs)"
  using assms
proof (induction xs arbitrary: a n)
  case Nil
  then show ?case by (cases n) simp_all
next
  case (Cons x xs)
  then obtain k where n: "n = Suc k" by (cases n) auto
  have x: "b_next (bs ! a) = x" "x \<noteq> NBUF" "seg (\<lambda>i. b_next (bs ! i)) pv x xs NBUF"
    using Cons.prems by auto
  have "bscan b_next P k (b_next (bs ! x)) bs = Some (find (\<lambda>i. P (bs ! i)) xs)"
    using Cons.prems n by (intro Cons.IH[OF x(3)]) auto
  then show ?case using x n by simp
qed

lemma bscan_rev:
  assumes "seg nx (\<lambda>i. b_prev (bs ! i)) NBUF xs z" and "length xs < n" and "NBUF \<notin> set xs"
  shows "bscan b_prev P n (b_prev (bs ! z)) bs = Some (find (\<lambda>i. P (bs ! i)) (rev xs))"
  using assms
proof (induction xs arbitrary: z n rule: rev_induct)
  case Nil
  then show ?case by (cases n) simp_all
next
  case (snoc x xs)
  then obtain k where n: "n = Suc k" by (cases n) auto
  have x: "b_prev (bs ! z) = x" "x \<noteq> NBUF" "seg nx (\<lambda>i. b_prev (bs ! i)) NBUF xs x"
    using snoc.prems by (auto simp: seg_append)
  have "bscan b_prev P k (b_prev (bs ! x)) bs = Some (find (\<lambda>i. P (bs ! i)) (rev xs))"
    using snoc.prems n by (intro snoc.IH[OF x(3)]) auto
  then show ?case using x n by simp
qed

lemma ring_scans:
  assumes "ring xs bs"
  shows "bscan b_next P (NBUF + 1) (b_next (bs ! NBUF)) bs = Some (find (\<lambda>i. P (bs ! i)) xs)"
    and "bscan b_prev P (NBUF + 1) (b_prev (bs ! NBUF)) bs = Some (find (\<lambda>i. P (bs ! i)) (rev xs))"
proof -
  note r = ringD[OF assms]
  have "NBUF \<notin> set xs" "length xs < NBUF + 1" using r(3,5) by auto
  then show "bscan b_next P (NBUF + 1) (b_next (bs ! NBUF)) bs = Some (find (\<lambda>i. P (bs ! i)) xs)"
    and "bscan b_prev P (NBUF + 1) (b_prev (bs ! NBUF)) bs = Some (find (\<lambda>i. P (bs ! i)) (rev xs))"
    using bscan_seg[OF r(1)] bscan_rev[OF r(1)] by blast+
qed

declare bscan.simps [simp del]

text \<open>Everything of a buffer but its links.\<close>

definition core :: "buf \<Rightarrow> buf" where
  "core b = b\<lparr>b_prev := 0, b_next := 0\<rparr>"

lemma core_simps [simp]:
  "core (b\<lparr>b_prev := i\<rparr>) = core b" "core (b\<lparr>b_next := i\<rparr>) = core b"
  by (simp_all add: core_def)

lemma core_fields:
  assumes "core a = core b"
  shows "b_valid a = b_valid b" "b_disk a = b_disk b" "b_dev a = b_dev b" "b_blockno a = b_blockno b"
    "b_refcnt a = b_refcnt b" "b_data a = b_data b"
  using assms by (cases a; cases b; simp add: core_def)+

definition relinked :: "nat \<Rightarrow> buf list \<Rightarrow> buf list \<Rightarrow> bool" where
  "relinked b bs bs' \<longleftrightarrow> length bs' = length bs \<and> (\<forall>i \<le> NBUF. core (bs' ! i) = core (bs ! i))"

lemma link_front_ring:
  assumes "seg (\<lambda>i. b_next (bufs s ! i)) (\<lambda>i. b_prev (bufs s ! i)) NBUF xs NBUF" and "distinct (b # xs)"
    and "set (b # xs) \<subseteq> {..<NBUF}" and "length (bufs s) = Suc NBUF"
  shows "\<exists>bs'. link_front b s = s\<lparr>bufs := bs'\<rparr> \<and> relinked b (bufs s) bs' \<and>
    seg (\<lambda>i. b_next (bs' ! i)) (\<lambda>i. b_prev (bs' ! i)) NBUF (b # xs) NBUF"
proof -
  let ?nx = "\<lambda>i. b_next (bufs s ! i)" and ?pv = "\<lambda>i. b_prev (bufs s ! i)"
  have b: "b < NBUF" "b \<notin> set xs" "NBUF \<notin> set xs" using assms(2,3) by auto
  have f: "?nx NBUF \<le> NBUF" "?nx NBUF \<noteq> b" using assms(1,3) b by (cases xs; auto)+
  define bs' where "bs' = bufs (link_front b s)"
  have l: "link_front b s = s\<lparr>bufs := bs'\<rparr>" by (simp add: bs'_def link_front_def upd_buf_def Let_def)
  have nx: "b_next (bs' ! i) = (?nx(b := ?nx NBUF, NBUF := b)) i" if "i \<le> NBUF" for i
    using that b f assms(4) by (auto simp: bs'_def link_front_def upd_buf_def Let_def nth_list_update)
  have pv: "b_prev (bs' ! i) = (?pv(b := NBUF, ?nx NBUF := b)) i" if "i \<le> NBUF" for i
    using that b f assms(4) by (auto simp: bs'_def link_front_def upd_buf_def Let_def nth_list_update)
  have "core (bs' ! i) = core (bufs s ! i)" if "i \<le> NBUF" for i
    using that b f assms(4) by (auto simp: bs'_def link_front_def upd_buf_def Let_def nth_list_update)
  then have rel: "relinked b (bufs s) bs'"
    by (simp add: relinked_def bs'_def link_front_def upd_buf_def Let_def)
  have "seg (?nx(b := ?nx NBUF, NBUF := b)) (?pv(b := NBUF, ?nx NBUF := b)) NBUF (b # xs) NBUF"
    using b assms(2) by (intro seg_push[OF assms(1)]) auto
  moreover have "seg (\<lambda>i. b_next (bs' ! i)) (\<lambda>i. b_prev (bs' ! i)) NBUF (b # xs) NBUF =
      seg (?nx(b := ?nx NBUF, NBUF := b)) (?pv(b := NBUF, ?nx NBUF := b)) NBUF (b # xs) NBUF"
    using assms(3) by (intro seg_cong nx pv) auto
  ultimately show ?thesis using l rel by blast
qed

text \<open>Taking a buffer out of the list and putting it in front.\<close>

definition unlink :: "nat \<Rightarrow> 'z bufst_scheme \<Rightarrow> 'z bufst_scheme" where
  "unlink b s =
     (let s = upd_buf (b_next (bufs s ! b)) (\<lambda>x. x\<lparr>b_prev := b_prev (bufs s ! b)\<rparr>) s
      in upd_buf (b_prev (bufs s ! b)) (\<lambda>x. x\<lparr>b_next := b_next (bufs s ! b)\<rparr>) s)"

lemma unlink_ring:
  assumes "ring (ys @ b # zs) (bufs s)"
  shows "\<exists>bs'. unlink b s = s\<lparr>bufs := bs'\<rparr> \<and> relinked b (bufs s) bs' \<and>
    seg (\<lambda>i. b_next (bs' ! i)) (\<lambda>i. b_prev (bs' ! i)) NBUF (ys @ zs) NBUF"
proof -
  let ?nx = "\<lambda>i. b_next (bufs s ! i)" and ?pv = "\<lambda>i. b_prev (bufs s ! i)"
  note r = ringD[OF assms]
  have all: "set (ys @ b # zs) \<subseteq> {..<NBUF}" "NBUF \<notin> set (ys @ b # zs)" using r(3) by auto
  have d: "distinct (NBUF # ys @ b # zs)" using r(2) all by simp
  note u = seg_unlink[OF r(1) d all(2)]
  have f: "?nx b \<le> NBUF" "?pv b \<le> NBUF" "?nx b \<noteq> b" "?pv b \<noteq> b"
    using u d all by auto
  define bs' where "bs' = bufs (unlink b s)"
  have l: "unlink b s = s\<lparr>bufs := bs'\<rparr>" by (simp add: bs'_def unlink_def upd_buf_def Let_def)
  have nx: "b_next (bs' ! i) = (?nx(?pv b := ?nx b)) i" if "i \<le> NBUF" for i
    using that f r(4) by (auto simp: bs'_def unlink_def upd_buf_def Let_def nth_list_update)
  have pv: "b_prev (bs' ! i) = (?pv(?nx b := ?pv b)) i" if "i \<le> NBUF" for i
    using that f r(4) by (auto simp: bs'_def unlink_def upd_buf_def Let_def nth_list_update)
  have "core (bs' ! i) = core (bufs s ! i)" if "i \<le> NBUF" for i
    using that f r(4) by (auto simp: bs'_def unlink_def upd_buf_def Let_def nth_list_update)
  then have rel: "relinked b (bufs s) bs'"
    by (simp add: relinked_def bs'_def unlink_def upd_buf_def Let_def)
  have "seg (\<lambda>i. b_next (bs' ! i)) (\<lambda>i. b_prev (bs' ! i)) NBUF (ys @ zs) NBUF =
      seg (?nx(?pv b := ?nx b)) (?pv(?nx b := ?pv b)) NBUF (ys @ zs) NBUF"
    using all by (intro seg_cong nx pv) auto
  then show ?thesis using u l rel by blast
qed

lemma move_front_ring:
  assumes "ring xs (bufs s)" and "b < NBUF"
  shows "\<exists>bs' xs'. link_front b (unlink b s) = s\<lparr>bufs := bs'\<rparr> \<and> relinked b (bufs s) bs' \<and>
    ring xs' bs' \<and> xs' = b # remove1 b xs"
proof -
  have "b \<in> set xs" using ringD(3)[OF assms(1)] assms(2) by simp
  then obtain ys zs where xs: "xs = ys @ b # zs" by (meson split_list)
  note r = ringD[OF assms(1)[unfolded xs]]
  obtain bs1 where 1: "unlink b s = s\<lparr>bufs := bs1\<rparr>" "relinked b (bufs s) bs1"
      "seg (\<lambda>i. b_next (bs1 ! i)) (\<lambda>i. b_prev (bs1 ! i)) NBUF (ys @ zs) NBUF"
    using unlink_ring[OF assms(1)[unfolded xs]] by blast
  have d: "distinct (b # ys @ zs)" "set (b # ys @ zs) = {..<NBUF}" using r(2,3) by auto
  have "\<exists>bs'. link_front b (s\<lparr>bufs := bs1\<rparr>) = s\<lparr>bufs := bs1\<rparr>\<lparr>bufs := bs'\<rparr> \<and> relinked b bs1 bs' \<and>
      seg (\<lambda>i. b_next (bs' ! i)) (\<lambda>i. b_prev (bs' ! i)) NBUF (b # ys @ zs) NBUF"
    using link_front_ring[of "s\<lparr>bufs := bs1\<rparr>" "ys @ zs" b] 1(3) d(1) eq_refl[OF d(2)] r(4) 1(2)[unfolded relinked_def]
    by simp
  then obtain bs' where 2: "link_front b (unlink b s) = s\<lparr>bufs := bs'\<rparr>" "relinked b bs1 bs'"
      "seg (\<lambda>i. b_next (bs' ! i)) (\<lambda>i. b_prev (bs' ! i)) NBUF (b # ys @ zs) NBUF"
    using 1(1) by auto
  have rel: "relinked b (bufs s) bs'" using 1(2) 2(2) by (simp add: relinked_def)
  have "remove1 b xs = ys @ zs" using r(2) by (simp add: xs remove1_append)
  moreover have "ring (b # ys @ zs) bs'" using 2(3) d rel r(4) by (simp add: ring_def relinked_def)
  ultimately show ?thesis using 2(1) rel by metis
qed

section \<open>A thread of the kernel\<close>

text \<open>Process \<open>p\<close> runs on this hart, no spinlock is held by anyone.\<close>

definition idle :: "nat \<Rightarrow> 'z procst_scheme \<Rightarrow> bool" where
  "idle p s \<longleftrightarrow> cpu_ok (hw s) \<and> noff (mycpu (hw s)) = 0 \<and> cpu_proc (mycpu (hw s)) = Some p \<and>
     p < NPROC \<and> (\<forall>lk. lk_free lk (hw s)) \<and> length (procs s) = NPROC"

lemma idleD:
  assumes "idle p s"
  shows "cpu_ok (hw s)" "noff (mycpu (hw s)) = 0" "cpu_proc (mycpu (hw s)) = Some p"
    "p < NPROC" "lk_free lk (hw s)" "length (procs s) = NPROC"
  using assms by (simp_all add: idle_def)

lemma idle_thread: "idle p s \<Longrightarrow> (\<And>i. lk \<noteq> Lk_proc i) \<Longrightarrow> thread_ok p lk (hw s)"
  by (simp add: idle_def thread_ok_def)

lemma idle_settle:
  "idle p s \<Longrightarrow> hw t = settle (hw s) \<Longrightarrow> length (procs t) = length (procs s) \<Longrightarrow> idle p t"
  by (simp add: idle_def)

section \<open>The cache\<close>

definition is_blk :: "u32 \<Rightarrow> u32 \<Rightarrow> buf \<Rightarrow> bool" where
  "is_blk dev bno b \<longleftrightarrow> b_dev b = dev \<and> b_blockno b = bno"

text \<open>What a client sees of a block.\<close>

definition content :: "'z bufst_scheme \<Rightarrow> u32 \<Rightarrow> u32 \<Rightarrow> block" where
  "content s dev bno =
     (case find (\<lambda>i. is_blk dev bno (bufs s ! i) \<and> b_valid (bufs s ! i) \<noteq> 0) [0..<NBUF] of
        None \<Rightarrow> disk s (sector bno) | Some i \<Rightarrow> b_data (bufs s ! i))"

text \<open>
  The invariant of the cache: the list holds every buffer once, a block of a device has one
  buffer, a locked buffer is referenced, and an unreferenced one does not differ from the disk.
\<close>

definition cache_ok :: "'z bufst_scheme \<Rightarrow> bool" where
  "cache_ok s \<longleftrightarrow> (\<exists>xs. ring xs (bufs s)) \<and>
     (\<forall>i < NBUF. \<forall>j < NBUF. b_dev (bufs s ! i) \<noteq> 0 \<and> b_dev (bufs s ! i) = b_dev (bufs s ! j) \<and>
        b_blockno (bufs s ! i) = b_blockno (bufs s ! j) \<longrightarrow> i = j) \<and>
     (\<forall>i < NBUF. b_refcnt (bufs s ! i) = 0 \<longrightarrow> sl_locked (slocks s (Lk_buf_sleep i)) = 0) \<and>
     (\<forall>i < NBUF. b_refcnt (bufs s ! i) = 0 \<and> b_valid (bufs s ! i) \<noteq> 0 \<longrightarrow>
        b_data (bufs s ! i) = disk s (sector (b_blockno (bufs s ! i))))"

lemma cache_okD:
  assumes "cache_ok s"
  shows "\<exists>xs. ring xs (bufs s)"
    "\<And>i j. i < NBUF \<Longrightarrow> j < NBUF \<Longrightarrow> b_dev (bufs s ! i) \<noteq> 0 \<Longrightarrow> is_blk (b_dev (bufs s ! i)) (b_blockno (bufs s ! i)) (bufs s ! j) \<Longrightarrow> i = j"
    "\<And>i. i < NBUF \<Longrightarrow> b_refcnt (bufs s ! i) = 0 \<Longrightarrow> sl_locked (slocks s (Lk_buf_sleep i)) = 0"
    "\<And>i. i < NBUF \<Longrightarrow> b_refcnt (bufs s ! i) = 0 \<Longrightarrow> b_valid (bufs s ! i) \<noteq> 0 \<Longrightarrow>
      b_data (bufs s ! i) = disk s (sector (b_blockno (bufs s ! i)))"
    "length (bufs s) = Suc NBUF"
proof -
  show "\<exists>xs. ring xs (bufs s)" using assms by (simp add: cache_ok_def)
  then show "length (bufs s) = Suc NBUF" using ringD(4) by blast
  show "i = j" if "i < NBUF" "j < NBUF" "b_dev (bufs s ! i) \<noteq> 0"
      "is_blk (b_dev (bufs s ! i)) (b_blockno (bufs s ! i)) (bufs s ! j)" for i j
  proof -
    have "b_dev (bufs s ! i) = b_dev (bufs s ! j)" "b_blockno (bufs s ! i) = b_blockno (bufs s ! j)"
      using that(4) by (simp_all add: is_blk_def)
    then show ?thesis using assms that(1-3) unfolding cache_ok_def by blast
  qed
  show "sl_locked (slocks s (Lk_buf_sleep i)) = 0" if "i < NBUF" "b_refcnt (bufs s ! i) = 0" for i
    using assms that by (simp add: cache_ok_def)
  show "b_data (bufs s ! i) = disk s (sector (b_blockno (bufs s ! i)))"
    if "i < NBUF" "b_refcnt (bufs s ! i) = 0" "b_valid (bufs s ! i) \<noteq> 0" for i
    using assms that by (simp add: cache_ok_def)
qed

lemma find_unique:
  assumes "i \<in> set xs" and "P i" and "\<And>j. j \<in> set xs \<Longrightarrow> P j \<Longrightarrow> j = i"
  shows "find P xs = Some i"
  using assms
proof (induction xs)
  case Nil
  then show ?case by simp
next
  case (Cons x xs)
  show ?case
  proof (cases "P x")
    case True
    then show ?thesis using Cons.prems(3)[of x] by simp
  next
    case False
    then have "i \<in> set xs" using Cons.prems(1,2) by auto
    then show ?thesis using False Cons.IH[OF _ Cons.prems(2)] Cons.prems(3) by simp
  qed
qed

lemma find_none: "(\<And>j. j \<in> set xs \<Longrightarrow> \<not> P j) \<Longrightarrow> find P xs = None"
  by (simp add: find_None_iff)

lemma find_member: "find P xs = Some i \<Longrightarrow> i \<in> set xs \<and> P i"
  by (induction xs) (auto split: if_splits)

lemma find_exists: "x \<in> set xs \<Longrightarrow> P x \<Longrightarrow> \<exists>i. find P xs = Some i"
  by (induction xs) auto

lemma blk_unique:
  assumes "cache_ok s" and "i < NBUF" and "j < NBUF" and "is_blk dev bno (bufs s ! i)"
    and "is_blk dev bno (bufs s ! j)" and "dev \<noteq> 0"
  shows "j = i"
  using cache_okD(2)[OF assms(1), of i j] assms(2-) by (simp add: is_blk_def)

lemma content_cached:
  assumes "cache_ok s" and "i < NBUF" and "is_blk dev bno (bufs s ! i)" and "dev \<noteq> 0"
  shows "content s dev bno = (if b_valid (bufs s ! i) \<noteq> 0 then b_data (bufs s ! i) else disk s (sector bno))"
proof -
  have u: "j = i" if "j < NBUF" "is_blk dev bno (bufs s ! j)" for j
    using blk_unique[OF assms(1,2) that(1) assms(3) that(2) assms(4)] .
  show ?thesis
  proof (cases "b_valid (bufs s ! i) = 0")
    case True
    then have "find (\<lambda>i. is_blk dev bno (bufs s ! i) \<and> b_valid (bufs s ! i) \<noteq> 0) [0..<NBUF] = None"
      by (intro find_none) (use u in \<open>metis atLeastLessThan_iff atLeastLessThan_upt\<close>)
    then show ?thesis using True by (simp add: content_def)
  next
    case False
    then have "find (\<lambda>i. is_blk dev bno (bufs s ! i) \<and> b_valid (bufs s ! i) \<noteq> 0) [0..<NBUF] = Some i"
      using assms(2,3) by (intro find_unique) (simp_all, use u in metis)
    then show ?thesis using False by (simp add: content_def)
  qed
qed

lemma content_uncached:
  assumes "\<And>i. i < NBUF \<Longrightarrow> \<not> is_blk dev bno (bufs s ! i)"
  shows "content s dev bno = disk s (sector bno)"
proof -
  have "find (\<lambda>i. is_blk dev bno (bufs s ! i) \<and> b_valid (bufs s ! i) \<noteq> 0) [0..<NBUF] = None"
    using assms by (intro find_none) auto
  then show ?thesis by (simp add: content_def)
qed

section \<open>Taking a buffer\<close>

text \<open>The state after a buffer has been taken: only entry \<open>b\<close> of the table and its lock changed.\<close>

definition took :: "nat \<Rightarrow> nat \<Rightarrow> buf \<Rightarrow> 'z bufst_scheme \<Rightarrow> 'z bufst_scheme \<Rightarrow> bool" where
  "took p b x s s' \<longleftrightarrow> s' = s\<lparr>hw := settle (hw s),
     slocks := (slocks s)(Lk_buf_sleep b := (slocks s (Lk_buf_sleep b))\<lparr>sl_locked := 1, sl_pid := p_pid (procs s ! p)\<rparr>),
     bufs := (bufs s)[b := x]\<rparr>"

lemma bget_hit:
  assumes "idle p s" and "cache_ok s" and "i < NBUF" and "is_blk dev bno (bufs s ! i)" and "dev \<noteq> 0"
    and "sl_locked (slocks s (Lk_buf_sleep i)) = 0"
  shows "\<exists>s'. bget dev bno s = Ret i s' \<and> took p i ((bufs s ! i)\<lparr>b_refcnt := b_refcnt (bufs s ! i) + 1\<rparr>) s s'"
proof -
  obtain xs where xs: "ring xs (bufs s)" using cache_okD(1)[OF assms(2)] by blast
  have u: "j = i" if "j < NBUF" "is_blk dev bno (bufs s ! j)" for j
    using blk_unique[OF assms(2,3) that(1) assms(4) that(2) assms(5)] .
  have "find (\<lambda>i. b_dev (bufs s ! i) = dev \<and> b_blockno (bufs s ! i) = bno) xs = Some i"
    using assms(3,4) ringD(3)[OF xs] by (intro find_unique) (simp_all add: is_blk_def, use u in \<open>metis is_blk_def\<close>)
  then have scan: "bscan b_next (\<lambda>b. b_dev b = dev \<and> b_blockno b = bno) (NBUF + 1) (b_next (bufs s ! NBUF)) (bufs s) = Some (Some i)"
    using ring_scans(1)[OF xs, of "\<lambda>b. b_dev b = dev \<and> b_blockno b = bno"] by simp
  define s1 where "s1 = s\<lparr>hw := settle (hw s), bufs := (bufs s)[i := (bufs s ! i)\<lparr>b_refcnt := b_refcnt (bufs s ! i) + 1\<rparr>]\<rparr>"
  have "thread_ok p (Lk_buf_sleep i) (hw s1)"
    using assms(1) by (intro idle_thread[OF idle_settle[OF assms(1)]]) (simp_all add: s1_def)
  then have "acquiresleep (Lk_buf_sleep i) s1 = Ret () (s1\<lparr>hw := settle (hw s1),
      slocks := (slocks s1)(Lk_buf_sleep i := (slocks s1 (Lk_buf_sleep i))\<lparr>sl_locked := 1, sl_pid := p_pid (procs s1 ! p)\<rparr>)\<rparr>)"
    using assms(6) by (intro acquiresleep_free) (simp_all add: s1_def)
  moreover have "bget dev bno s = bindr (acquiresleep (Lk_buf_sleep i) s1) (\<lambda>_ s. Ret i s)"
    using scan idleD(1,5)[OF assms(1)] by (simp add: bget_def lock_simps upd_buf_def s1_def Let_def)
  ultimately show ?thesis by (simp add: took_def s1_def)
qed

lemma bget_miss:
  assumes "idle p s" and "cache_ok s" and "\<And>i. i < NBUF \<Longrightarrow> \<not> is_blk dev bno (bufs s ! i)"
    and "j < NBUF" and "b_refcnt (bufs s ! j) = 0"
  shows "\<exists>i s'. bget dev bno s = Ret i s' \<and> i < NBUF \<and> b_refcnt (bufs s ! i) = 0 \<and>
    took p i ((bufs s ! i)\<lparr>b_dev := dev, b_blockno := bno, b_valid := 0, b_refcnt := 1\<rparr>) s s'"
proof -
  obtain xs where xs: "ring xs (bufs s)" using cache_okD(1)[OF assms(2)] by blast
  have "find (\<lambda>i. b_dev (bufs s ! i) = dev \<and> b_blockno (bufs s ! i) = bno) xs = None"
    using assms(3) ringD(3)[OF xs] by (intro find_none) (auto simp: is_blk_def)
  then have scan: "bscan b_next (\<lambda>b. b_dev b = dev \<and> b_blockno b = bno) (NBUF + 1) (b_next (bufs s ! NBUF)) (bufs s) = Some None"
    using ring_scans(1)[OF xs, of "\<lambda>b. b_dev b = dev \<and> b_blockno b = bno"] by simp
  obtain i where i: "find (\<lambda>i. b_refcnt (bufs s ! i) = 0) (rev xs) = Some i"
    using find_exists[of j "rev xs" "\<lambda>i. b_refcnt (bufs s ! i) = 0"] assms(4,5) ringD(3)[OF xs] by auto
  then have scan2: "bscan b_prev (\<lambda>b. b_refcnt b = 0) (NBUF + 1) (b_prev (bufs s ! NBUF)) (bufs s) = Some (Some i)"
    using ring_scans(2)[OF xs, of "\<lambda>b. b_refcnt b = 0"] by simp
  have r: "i < NBUF" "b_refcnt (bufs s ! i) = 0" using find_member[OF i] ringD(3)[OF xs] by auto
  define s1 where "s1 = s\<lparr>hw := settle (hw s), bufs := (bufs s)[i := (bufs s ! i)\<lparr>b_dev := dev, b_blockno := bno, b_valid := 0, b_refcnt := 1\<rparr>]\<rparr>"
  have "thread_ok p (Lk_buf_sleep i) (hw s1)"
    using assms(1) by (intro idle_thread[OF idle_settle[OF assms(1)]]) (simp_all add: s1_def)
  then have "acquiresleep (Lk_buf_sleep i) s1 = Ret () (s1\<lparr>hw := settle (hw s1),
      slocks := (slocks s1)(Lk_buf_sleep i := (slocks s1 (Lk_buf_sleep i))\<lparr>sl_locked := 1, sl_pid := p_pid (procs s1 ! p)\<rparr>)\<rparr>)"
    using cache_okD(3)[OF assms(2) r] by (intro acquiresleep_free) (simp_all add: s1_def)
  moreover have "bget dev bno s = bindr (acquiresleep (Lk_buf_sleep i) s1) (\<lambda>_ s. Ret i s)"
    using scan scan2 idleD(1,5)[OF assms(1)] by (simp add: bget_def lock_simps upd_buf_def s1_def Let_def)
  ultimately show ?thesis using r by (intro exI[of _ i]) (simp add: took_def s1_def)
qed

lemma bget_full:
  assumes "idle p s" and "cache_ok s" and "\<And>i. i < NBUF \<Longrightarrow> \<not> is_blk dev bno (bufs s ! i)"
    and "\<And>i. i < NBUF \<Longrightarrow> b_refcnt (bufs s ! i) \<noteq> 0"
  shows "bget dev bno s = Panic ''bget: no buffers''"
proof -
  obtain xs where xs: "ring xs (bufs s)" using cache_okD(1)[OF assms(2)] by blast
  have "find (\<lambda>i. b_dev (bufs s ! i) = dev \<and> b_blockno (bufs s ! i) = bno) xs = None"
    "find (\<lambda>i. b_refcnt (bufs s ! i) = 0) (rev xs) = None"
    using assms(3,4) ringD(3)[OF xs] by (intro find_none; auto simp: is_blk_def)+
  then show ?thesis
    using ring_scans[OF xs] idleD(1,5)[OF assms(1)] by (simp add: bget_def lock_simps)
qed

text \<open>
  \<open>bread\<close> either finds the block's buffer or recycles an unreferenced one; in both cases the
  buffer holds what a client sees of the block.
\<close>

definition bread_post :: "nat \<Rightarrow> u32 \<Rightarrow> u32 \<Rightarrow> nat \<Rightarrow> 'z bufst_scheme \<Rightarrow> 'z bufst_scheme \<Rightarrow> bool" where
  "bread_post p dev bno b s s' \<longleftrightarrow> b < NBUF \<and>
     (is_blk dev bno (bufs s ! b) \<or> b_refcnt (bufs s ! b) = 0 \<and> (\<forall>i < NBUF. \<not> is_blk dev bno (bufs s ! i))) \<and>
     (\<exists>x. took p b x s s' \<and> is_blk dev bno x \<and> b_valid x \<noteq> 0 \<and> b_data x = content s dev bno \<and>
        b_refcnt x = b_refcnt (bufs s ! b) + 1 \<and> b_prev x = b_prev (bufs s ! b) \<and> b_next x = b_next (bufs s ! b))"

definition can_get :: "'z bufst_scheme \<Rightarrow> u32 \<Rightarrow> u32 \<Rightarrow> bool" where
  "can_get s dev bno \<longleftrightarrow> (\<exists>i < NBUF. is_blk dev bno (bufs s ! i) \<and> sl_locked (slocks s (Lk_buf_sleep i)) = 0) \<or>
     (\<forall>i < NBUF. \<not> is_blk dev bno (bufs s ! i)) \<and> (\<exists>i < NBUF. b_refcnt (bufs s ! i) = 0)"

lemma bread_ok:
  assumes "idle p s" and "cache_ok s" and "dev \<noteq> 0" and "can_get s dev bno"
  shows "\<exists>b s'. bread dev bno s = Ret b s' \<and> bread_post p dev bno b s s'"
  using assms(4) unfolding can_get_def
proof
  assume "\<exists>i < NBUF. is_blk dev bno (bufs s ! i) \<and> sl_locked (slocks s (Lk_buf_sleep i)) = 0"
  then obtain i where i: "i < NBUF" "is_blk dev bno (bufs s ! i)" "sl_locked (slocks s (Lk_buf_sleep i)) = 0" by blast
  obtain s1 where g: "bget dev bno s = Ret i s1" "took p i ((bufs s ! i)\<lparr>b_refcnt := b_refcnt (bufs s ! i) + 1\<rparr>) s s1"
    using bget_hit[OF assms(1,2) i(1,2) assms(3) i(3)] by blast
  note c = content_cached[OF assms(2) i(1,2) assms(3)]
  have len: "i < length (bufs s)" using i(1) cache_okD(5)[OF assms(2)] by simp
  show ?thesis
    using g i len c
    by (auto simp: bread_def bread_post_def took_def disk_rw_def upd_buf_def Let_def is_blk_def)
next
  assume a: "(\<forall>i < NBUF. \<not> is_blk dev bno (bufs s ! i)) \<and> (\<exists>i < NBUF. b_refcnt (bufs s ! i) = 0)"
  then obtain j where j: "j < NBUF" "b_refcnt (bufs s ! j) = 0" by blast
  obtain i s1 where g: "bget dev bno s = Ret i s1" "i < NBUF" "b_refcnt (bufs s ! i) = 0"
    "took p i ((bufs s ! i)\<lparr>b_dev := dev, b_blockno := bno, b_valid := 0, b_refcnt := 1\<rparr>) s s1"
    using bget_miss[OF assms(1,2) _ j, of dev bno] a by blast
  have len: "i < length (bufs s)" using g(2) cache_okD(5)[OF assms(2)] by simp
  have c: "content s dev bno = disk s (sector bno)" using a by (intro content_uncached) blast
  show ?thesis
    using g len c a
    by (auto simp: bread_def bread_post_def took_def disk_rw_def upd_buf_def Let_def is_blk_def)
qed

lemma tookD:
  assumes "took p b x s s'"
  shows "hw s' = settle (hw s)" "procs s' = procs s" "disk s' = disk s" "dtrace s' = dtrace s"
    "bufs s' = (bufs s)[b := x]"
    "slocks s' = (slocks s)(Lk_buf_sleep b := (slocks s (Lk_buf_sleep b))\<lparr>sl_locked := 1, sl_pid := p_pid (procs s ! p)\<rparr>)"
  using assms by (simp_all add: took_def)

lemma bread_post_cases:
  assumes "bread_post p dev bno b s s'" and "cache_ok s"
  obtains x where "took p b x s s'" "bufs s' ! b = x" "\<And>i. i \<noteq> b \<Longrightarrow> bufs s' ! i = bufs s ! i" "b < NBUF"
    "is_blk dev bno x" "b_valid x \<noteq> 0" "b_data x = content s dev bno" "b_refcnt x = b_refcnt (bufs s ! b) + 1"
    "b_prev x = b_prev (bufs s ! b)" "b_next x = b_next (bufs s ! b)"
    "is_blk dev bno (bufs s ! b) \<or> b_refcnt (bufs s ! b) = 0 \<and> (\<forall>i < NBUF. \<not> is_blk dev bno (bufs s ! i))"
proof -
  obtain x where x: "took p b x s s'" "is_blk dev bno x" "b_valid x \<noteq> 0" "b_data x = content s dev bno"
      "b_refcnt x = b_refcnt (bufs s ! b) + 1" "b_prev x = b_prev (bufs s ! b)" "b_next x = b_next (bufs s ! b)"
    using assms(1) unfolding bread_post_def by blast
  have b: "b < NBUF" using assms(1) by (simp add: bread_post_def)
  then have "bufs s' ! b = x" "\<And>i. i \<noteq> b \<Longrightarrow> bufs s' ! i = bufs s ! i"
    using tookD(5)[OF x(1)] cache_okD(5)[OF assms(2)] by simp_all
  then show ?thesis using that[of x] x b assms(1) unfolding bread_post_def by blast
qed

text \<open>Only the buffer that was taken can be that of the block, before or after.\<close>

lemma bread_other:
  assumes "bread_post p dev bno b s s'" and "cache_ok s" and "dev \<noteq> 0" and "i < NBUF" and "i \<noteq> b"
  shows "\<not> is_blk dev bno (bufs s ! i)"
proof
  assume a: "is_blk dev bno (bufs s ! i)"
  obtain x where "is_blk dev bno (bufs s ! b) \<or> b_refcnt (bufs s ! b) = 0 \<and> (\<forall>i < NBUF. \<not> is_blk dev bno (bufs s ! i))" "b < NBUF"
    using bread_post_cases[OF assms(1,2)] by metis
  then show False using a assms(4,5) blk_unique[OF assms(2) assms(4) _ a _ assms(3), of b] by blast
qed

lemma bread_content:
  assumes "bread_post p dev bno b s s'" and "cache_ok s" and "cache_ok s'" and "dev \<noteq> 0" and "d \<noteq> 0"
  shows "content s' d n = content s d n"
proof -
  obtain x where x: "took p b x s s'" "bufs s' ! b = x" "\<And>i. i \<noteq> b \<Longrightarrow> bufs s' ! i = bufs s ! i" "b < NBUF"
    "is_blk dev bno x" "b_valid x \<noteq> 0" "b_data x = content s dev bno"
    "is_blk dev bno (bufs s ! b) \<or> b_refcnt (bufs s ! b) = 0 \<and> (\<forall>i < NBUF. \<not> is_blk dev bno (bufs s ! i))"
    using bread_post_cases[OF assms(1,2)] by metis
  have dk: "disk s' = disk s" by (rule tookD(3)[OF x(1)])
  show ?thesis
  proof (cases "d = dev \<and> n = bno")
    case True
    then show ?thesis using content_cached[OF assms(3) x(4), of dev bno] x(2,5,6,7) assms(4) by simp
  next
    case False
    then have nx: "\<not> is_blk d n x" using x(5) by (auto simp: is_blk_def)
    show ?thesis
    proof (cases "\<exists>i < NBUF. i \<noteq> b \<and> is_blk d n (bufs s ! i)")
      case True
      then obtain i where i: "i < NBUF" "i \<noteq> b" "is_blk d n (bufs s ! i)" by blast
      then show ?thesis
        using content_cached[OF assms(2) i(1,3) assms(5)] content_cached[OF assms(3) i(1) _ assms(5), of n] x(3)[OF i(2)] dk
        by simp
    next
      case no: False
      have "content s' d n = disk s (sector n)"
        using no nx x(2,3) dk content_uncached[of d n s'] by metis
      moreover have "content s d n = disk s (sector n)"
      proof (cases "is_blk d n (bufs s ! b)")
        case True
        then have "b_refcnt (bufs s ! b) = 0" using x(8) False by (auto simp: is_blk_def)
        then show ?thesis
          using content_cached[OF assms(2) x(4) True assms(5)] cache_okD(4)[OF assms(2) x(4)] True
          by (simp add: is_blk_def)
      next
        case False
        then show ?thesis using no content_uncached[of d n s] by metis
      qed
      ultimately show ?thesis by simp
    qed
  qed
qed

lemma bread_keeps:
  assumes "bread_post p dev bno b s s'" and "idle p s" and "cache_ok s" and "dev \<noteq> 0"
    and "b_refcnt (bufs s ! b) + 1 \<noteq> 0"
  shows "idle p s'" and "cache_ok s'"
proof -
  obtain x where x: "took p b x s s'" "bufs s' ! b = x" "\<And>i. i \<noteq> b \<Longrightarrow> bufs s' ! i = bufs s ! i" "b < NBUF"
    "is_blk dev bno x" "b_refcnt x = b_refcnt (bufs s ! b) + 1"
    "b_prev x = b_prev (bufs s ! b)" "b_next x = b_next (bufs s ! b)"
    using bread_post_cases[OF assms(1,3)] by metis
  note t = tookD[OF x(1)]
  show "idle p s'" by (rule idle_settle[OF assms(2) t(1)]) (simp add: t(2))
  obtain xs where xs: "ring xs (bufs s)" using cache_okD(1)[OF assms(3)] by blast
  have "ring xs (bufs s')"
  proof (rule ring_cong[OF xs])
    show "length (bufs s') = length (bufs s)" by (simp add: t(5))
    show "b_next (bufs s' ! i) = b_next (bufs s ! i) \<and> b_prev (bufs s' ! i) = b_prev (bufs s ! i)" for i
      using x(2,3,7,8) by (cases "i = b") simp_all
  qed
  moreover have "i = j" if "i < NBUF" "j < NBUF" "b_dev (bufs s' ! i) \<noteq> 0"
      "b_dev (bufs s' ! i) = b_dev (bufs s' ! j)" "b_blockno (bufs s' ! i) = b_blockno (bufs s' ! j)" for i j
  proof -
    have o: "\<not> is_blk dev bno (bufs s ! k)" if "k < NBUF" "k \<noteq> b" for k
      using bread_other[OF assms(1,3,4) that] .
    have blk: "is_blk (b_dev (bufs s' ! i)) (b_blockno (bufs s' ! i)) (bufs s' ! j)"
      using that(4,5) by (simp add: is_blk_def)
    show ?thesis
    proof (cases "i = b")
      case True
      then have "is_blk dev bno (bufs s' ! j)" using blk x(2,5) by (simp add: is_blk_def)
      then show ?thesis using o[OF that(2)] x(3)[of j] True by (cases "j = b") simp_all
    next
      case i: False
      show ?thesis
      proof (cases "j = b")
        case True
        then have "is_blk dev bno (bufs s ! i)" using that(4,5) x(2,5) x(3)[OF i] by (simp add: is_blk_def)
        then show ?thesis using o[OF that(1) i] by simp
      next
        case False
        then show ?thesis using blk cache_okD(2)[OF assms(3) that(1,2)] that(3) x(3)[OF i] x(3)[OF False] by simp
      qed
    qed
  qed
  moreover have "sl_locked (slocks s' (Lk_buf_sleep i)) = 0" if "i < NBUF" "b_refcnt (bufs s' ! i) = 0" for i
    using that cache_okD(3)[OF assms(3)] x(2,3,6) assms(5) by (cases "i = b") (auto simp: t(6))
  moreover have "b_data (bufs s' ! i) = disk s' (sector (b_blockno (bufs s' ! i)))"
    if "i < NBUF" "b_refcnt (bufs s' ! i) = 0" "b_valid (bufs s' ! i) \<noteq> 0" for i
    using that cache_okD(4)[OF assms(3)] x(2,3,6) assms(5) by (cases "i = b") (auto simp: t(3))
  ultimately show "cache_ok s'" unfolding cache_ok_def by blast
qed

section \<open>Writing and giving back a buffer\<close>

definition owns :: "nat \<Rightarrow> nat \<Rightarrow> 'z bufst_scheme \<Rightarrow> bool" where
  "owns p b s \<longleftrightarrow> b < NBUF \<and> sl_locked (slocks s (Lk_buf_sleep b)) = 1 \<and>
     sl_pid (slocks s (Lk_buf_sleep b)) = p_pid (procs s ! p)"

lemma took_owns: "took p b x s s' \<Longrightarrow> b < NBUF \<Longrightarrow> owns p b s'"
  by (simp add: owns_def took_def)

lemma took_owns_other: "took p b x s s' \<Longrightarrow> owns p c s \<Longrightarrow> c \<noteq> b \<Longrightarrow> owns p c s'"
  by (simp add: owns_def took_def)

lemma bwrite_ok:
  assumes "idle p s" and "owns p b s"
  shows "bwrite b s = Ret () (s\<lparr>hw := settle (hw s),
    disk := (disk s)(sector (b_blockno (bufs s ! b)) := b_data (bufs s ! b)),
    dtrace := dtrace s @ [(sector (b_blockno (bufs s ! b)), b_data (bufs s ! b))]\<rparr>)"
  using holdingsleep_ok[OF idle_thread[OF assms(1)], of "Lk_buf_sleep b"] assms(2)
  by (simp add: bwrite_def owns_def disk_rw_def Let_def)

text \<open>The state after a buffer has been given back.\<close>

definition gave :: "nat \<Rightarrow> nat \<Rightarrow> 'z bufst_scheme \<Rightarrow> 'z bufst_scheme \<Rightarrow> bool" where
  "gave p b s s' \<longleftrightarrow> (\<exists>bs. s' = s\<lparr>hw := settle (hw s),
      procs := wake (Some (Ch_sleeplock (Lk_buf_sleep b))) (Some p) (procs s),
      slocks := (slocks s)(Lk_buf_sleep b := (slocks s (Lk_buf_sleep b))\<lparr>sl_locked := 0, sl_pid := 0\<rparr>),
      bufs := bs\<rparr> \<and> (\<exists>xs. ring xs bs) \<and>
    relinked b ((bufs s)[b := (bufs s ! b)\<lparr>b_refcnt := b_refcnt (bufs s ! b) - 1\<rparr>]) bs)"

lemma brelse_ok:
  assumes "idle p s" and "owns p b s" and "\<exists>xs. ring xs (bufs s)"
  shows "\<exists>s'. brelse b s = Ret () s' \<and> gave p b s s'"
proof -
  obtain xs where xs: "ring xs (bufs s)" using assms(3) by blast
  have b: "b < NBUF" "b < length (bufs s)" using assms(2) ringD(4)[OF xs] by (simp_all add: owns_def)
  define lk where "lk = Lk_buf_sleep b"
  have th: "thread_ok p lk (hw s)" using assms(1) by (intro idle_thread) (simp_all add: lk_def)
  define s1 where "s1 = s\<lparr>hw := settle (hw s),
      procs := wake (Some (Ch_sleeplock lk)) (Some p) (procs s),
      slocks := (slocks s)(lk := (slocks s lk)\<lparr>sl_locked := 0, sl_pid := 0\<rparr>)\<rparr>"
  define s2 where "s2 = s1\<lparr>hw := enter Lk_bcache (hw s1),
      bufs := (bufs s)[b := (bufs s ! b)\<lparr>b_refcnt := b_refcnt (bufs s ! b) - 1\<rparr>]\<rparr>"
  have hold: "holdingsleep lk s = Ret True (s\<lparr>hw := settle (hw s)\<rparr>)"
    using holdingsleep_ok[OF th] assms(2) by (simp add: owns_def lk_def)
  have "thread_ok p lk (hw (s\<lparr>hw := settle (hw s)\<rparr>))" using th by (simp add: thread_ok_def)
  from releasesleep_ok[OF this] have rel: "releasesleep lk (s\<lparr>hw := settle (hw s)\<rparr>) = Ret () s1"
    using idleD(6)[OF assms(1)] by (simp add: s1_def)
  have free: "cpu_ok (hw s)" "lk_free Lk_bcache (hw s)" using idleD[OF assms(1)] by simp_all
  have r2: "ring xs (bufs s2)"
    by (rule ring_cong[OF xs]) (use b(2) in \<open>auto simp: s2_def nth_list_update\<close>)
  have run: "brelse b s = release Lk_bcache (if b_refcnt (bufs s2 ! b) = 0 then link_front b (unlink b s2) else s2)"
    using hold rel free b(2)
    by (simp add: brelse_def lk_def[symmetric] lock_simps s1_def s2_def upd_buf_def unlink_def Let_def)
  have "\<exists>bs. (if b_refcnt (bufs s2 ! b) = 0 then link_front b (unlink b s2) else s2) = s2\<lparr>bufs := bs\<rparr> \<and>
      relinked b (bufs s2) bs \<and> (\<exists>xs. ring xs bs)"
    using move_front_ring[OF r2 b(1)] r2 by (auto simp: relinked_def intro: exI[of _ "bufs s2"])
  then obtain bs where bs: "(if b_refcnt (bufs s2 ! b) = 0 then link_front b (unlink b s2) else s2) = s2\<lparr>bufs := bs\<rparr>"
    "relinked b (bufs s2) bs" "\<exists>xs. ring xs bs" by blast
  have "brelse b s = Ret () (s1\<lparr>bufs := bs\<rparr>)"
    unfolding run bs(1) using free by (simp add: s2_def s1_def lock_simps)
  then show ?thesis using bs(2,3) by (auto simp: gave_def s1_def s2_def lk_def)
qed

lemma gaveD:
  assumes "gave p b s s'"
  shows "hw s' = settle (hw s)" "length (procs s') = NPROC" "disk s' = disk s" "dtrace s' = dtrace s"
    "slocks s' = (slocks s)(Lk_buf_sleep b := (slocks s (Lk_buf_sleep b))\<lparr>sl_locked := 0, sl_pid := 0\<rparr>)"
    "\<exists>xs. ring xs (bufs s')" "i < NPROC \<Longrightarrow> p_pid (procs s' ! i) = p_pid (procs s ! i)"
  using assms by (auto simp: gave_def wake_nth)

lemma gave_buf:
  assumes "gave p b s s'" and "b < NBUF" and "length (bufs s) = Suc NBUF" and "i \<le> NBUF"
  shows "core (bufs s' ! i) = core (if i = b then (bufs s ! b)\<lparr>b_refcnt := b_refcnt (bufs s ! b) - 1\<rparr> else bufs s ! i)"
  using assms by (auto simp: gave_def relinked_def)

lemma gave_owns_other:
  assumes "gave p b s s'" and "owns p c s" and "c \<noteq> b" and "p < NPROC"
  shows "owns p c s'"
  using assms(2,3) gaveD(5)[OF assms(1)] gaveD(7)[OF assms(1,4)] by (simp add: owns_def)

lemma gave_keeps:
  assumes "gave p b s s'" and "idle p s" and "cache_ok s" and "b < NBUF"
    and "b_refcnt (bufs s ! b) = 1 \<Longrightarrow> b_valid (bufs s ! b) \<noteq> 0 \<Longrightarrow>
      b_data (bufs s ! b) = disk s (sector (b_blockno (bufs s ! b)))"
  shows "idle p s'" and "cache_ok s'"
proof -
  note g = gaveD[OF assms(1)]
  show "idle p s'" using idle_settle[OF assms(2) g(1)] g(2) idleD(6)[OF assms(2)] by simp
  have c: "b_valid (bufs s' ! i) = b_valid (bufs s ! i)" "b_dev (bufs s' ! i) = b_dev (bufs s ! i)"
      "b_blockno (bufs s' ! i) = b_blockno (bufs s ! i)" "b_data (bufs s' ! i) = b_data (bufs s ! i)"
      "b_refcnt (bufs s' ! i) = b_refcnt (bufs s ! i) - (if i = b then 1 else 0)" if "i < NBUF" for i
    using core_fields[OF gave_buf[OF assms(1,4) cache_okD(5)[OF assms(3)], of i]] that by auto
  have "b_refcnt (bufs s ! b) = 1" if "b_refcnt (bufs s ! b) - 1 = 0" using that by simp
  then have "b_data (bufs s' ! i) = disk s' (sector (b_blockno (bufs s' ! i)))"
    if "i < NBUF" "b_refcnt (bufs s' ! i) = 0" "b_valid (bufs s' ! i) \<noteq> 0" for i
    using that c[OF that(1)] cache_okD(4)[OF assms(3) that(1)] assms(5) g(3) by (cases "i = b") auto
  moreover have "sl_locked (slocks s' (Lk_buf_sleep i)) = 0" if "i < NBUF" "b_refcnt (bufs s' ! i) = 0" for i
    using that c(5)[OF that(1)] cache_okD(3)[OF assms(3) that(1)] g(5) by (cases "i = b") auto
  moreover have "i = j" if "i < NBUF" "j < NBUF" "b_dev (bufs s' ! i) \<noteq> 0 \<and> b_dev (bufs s' ! i) = b_dev (bufs s' ! j) \<and>
      b_blockno (bufs s' ! i) = b_blockno (bufs s' ! j)" for i j
    by (rule cache_okD(2)[OF assms(3) that(1,2)]) (use that(3) c(2,3)[OF that(1)] c(2,3)[OF that(2)] in \<open>auto simp: is_blk_def\<close>)
  ultimately show "cache_ok s'" using g(6) unfolding cache_ok_def by blast
qed

lemma gave_content:
  assumes "gave p b s s'" and "cache_ok s" and "b < NBUF"
  shows "content s' d n = content s d n"
proof -
  have c: "is_blk d n (bufs s' ! i) = is_blk d n (bufs s ! i)" "b_valid (bufs s' ! i) = b_valid (bufs s ! i)"
      "b_data (bufs s' ! i) = b_data (bufs s ! i)" if "i < NBUF" for i
    using core_fields[OF gave_buf[OF assms(1,3) cache_okD(5)[OF assms(2)], of i]] that by (auto simp: is_blk_def)
  have "find (\<lambda>i. is_blk d n (bufs s' ! i) \<and> b_valid (bufs s' ! i) \<noteq> 0) [0..<NBUF] =
      find (\<lambda>i. is_blk d n (bufs s ! i) \<and> b_valid (bufs s ! i) \<noteq> 0) [0..<NBUF]"
    using c(1,2) by (intro find_cong) simp_all
  moreover have "b_data (bufs s' ! i) = b_data (bufs s ! i)"
    if "find (\<lambda>i. is_blk d n (bufs s ! i) \<and> b_valid (bufs s ! i) \<noteq> 0) [0..<NBUF] = Some i" for i
    using find_member[OF that] by (intro c(3)) simp
  ultimately show ?thesis
    by (simp add: content_def gaveD(3)[OF assms(1)] split: option.splits)
qed

section \<open>Initialisation\<close>

lemma binit_step:
  assumes "seg (\<lambda>i. b_next (bufs t ! i)) (\<lambda>i. b_prev (bufs t ! i)) NBUF (rev [0..<k]) NBUF"
    and "length (bufs t) = Suc NBUF" and "k < NBUF"
  shows "\<exists>bs. bindr (initsleeplock (Lk_buf_sleep k) ''buffer'' t) (\<lambda>_ s. Ret () (link_front k s)) =
      Ret () (t\<lparr>hw := fresh (Lk_buf_sleep k) ''sleep lock'' (hw t), bufs := bs,
        slocks := (slocks t)(Lk_buf_sleep k := (slocks t (Lk_buf_sleep k))\<lparr>sl_name := ''buffer'', sl_locked := 0, sl_pid := 0\<rparr>)\<rparr>) \<and>
    relinked k (bufs t) bs \<and>
    seg (\<lambda>i. b_next (bs ! i)) (\<lambda>i. b_prev (bs ! i)) NBUF (rev [0..<Suc k]) NBUF"
proof -
  define u where "u = t\<lparr>hw := fresh (Lk_buf_sleep k) ''sleep lock'' (hw t),
        slocks := (slocks t)(Lk_buf_sleep k := (slocks t (Lk_buf_sleep k))\<lparr>sl_name := ''buffer'', sl_locked := 0, sl_pid := 0\<rparr>)\<rparr>"
  have "\<exists>bs'. link_front k u = u\<lparr>bufs := bs'\<rparr> \<and> relinked k (bufs u) bs' \<and>
      seg (\<lambda>i. b_next (bs' ! i)) (\<lambda>i. b_prev (bs' ! i)) NBUF (k # rev [0..<k]) NBUF"
    using assms by (intro link_front_ring) (auto simp: u_def)
  then show ?thesis
    by (auto simp: initsleeplock_def lock_simps upd_sl_def u_def)
qed

definition boot_bufs :: "'z bufst_scheme \<Rightarrow> bool" where
  "boot_bufs s \<longleftrightarrow> length (bufs s) = Suc NBUF \<and> cpu_ok (hw s) \<and>
     (\<forall>i < NBUF. b_dev (bufs s ! i) = 0 \<and> b_refcnt (bufs s ! i) = 0 \<and> b_valid (bufs s ! i) = 0)"

lemma tty_ok_fresh [simp]: "tty_ok (fresh lk nm h) = tty_ok h"
  by (simp add: tty_ok_def fresh_def)

definition binit_inv :: "'z bufst_scheme \<Rightarrow> nat \<Rightarrow> 'z bufst_scheme \<Rightarrow> bool" where
  "binit_inv s k t \<longleftrightarrow> seg (\<lambda>i. b_next (bufs t ! i)) (\<lambda>i. b_prev (bufs t ! i)) NBUF (rev [0..<k]) NBUF \<and>
     length (bufs t) = Suc NBUF \<and> (\<forall>i < NBUF. core (bufs t ! i) = core (bufs s ! i)) \<and>
     (\<forall>i < k. sl_locked (slocks t (Lk_buf_sleep i)) = 0) \<and>
     (\<forall>i < k. lk_free (Lk_buf_sleep i) (hw t)) \<and> lk_free Lk_bcache (hw t) \<and>
     (\<forall>lk. lk_free lk (hw s) \<longrightarrow> lk_free lk (hw t)) \<and> cpu_ok (hw t) \<and> mycpu (hw t) = mycpu (hw s) \<and>
     (tty_ok (hw s) \<longrightarrow> tty_ok (hw t)) \<and>
     t = s\<lparr>hw := hw t, slocks := slocks t, bufs := bufs t\<rparr>"

lemma binit_ok:
  assumes "boot_bufs s"
  shows "\<exists>t. binit s = Ret () t \<and> binit_inv s NBUF t \<and> cache_ok t"
proof -
  define s1 where "s1 = s\<lparr>hw := fresh Lk_bcache ''bcache'' (hw s),
    bufs := (bufs s)[NBUF := (bufs s ! NBUF)\<lparr>b_prev := NBUF, b_next := NBUF\<rparr>]\<rparr>"
  have len: "length (bufs s) = Suc NBUF" "cpu_ok (hw s)" using assms by (simp_all add: boot_bufs_def)
  have run: "binit s = for_upto 0 NBUF (\<lambda>b s. bindr (initsleeplock (Lk_buf_sleep b) ''buffer'' s) (\<lambda>_ s.
       Ret () (link_front b s))) s1"
    using len by (simp add: binit_def lock_simps upd_buf_def Let_def s1_def)
  have "\<exists>t. for_upto 0 NBUF (\<lambda>b s. bindr (initsleeplock (Lk_buf_sleep b) ''buffer'' s) (\<lambda>_ s.
       Ret () (link_front b s))) s1 = Ret () t \<and> binit_inv s (0 + NBUF) t"
  proof (rule for_upto_rule)
    show "binit_inv s 0 s1"
      using len by (auto simp: binit_inv_def s1_def nth_list_update)
    fix k t assume k: "k < 0 + NBUF" and i: "binit_inv s k t"
    obtain bs where b: "bindr (initsleeplock (Lk_buf_sleep k) ''buffer'' t) (\<lambda>_ s. Ret () (link_front k s)) =
      Ret () (t\<lparr>hw := fresh (Lk_buf_sleep k) ''sleep lock'' (hw t), bufs := bs,
        slocks := (slocks t)(Lk_buf_sleep k := (slocks t (Lk_buf_sleep k))\<lparr>sl_name := ''buffer'', sl_locked := 0, sl_pid := 0\<rparr>)\<rparr>)"
      "relinked k (bufs t) bs" "seg (\<lambda>i. b_next (bs ! i)) (\<lambda>i. b_prev (bs ! i)) NBUF (rev [0..<Suc k]) NBUF"
      using binit_step[of t k] k i by (auto simp: binit_inv_def)
    have i': "t = s\<lparr>hw := hw t, slocks := slocks t, bufs := bufs t\<rparr>" using i by (simp add: binit_inv_def)
    have fr: "t\<lparr>hw := h, slocks := l, bufs := b\<rparr> = s\<lparr>hw := h, slocks := l, bufs := b\<rparr>" for h l b
      by (subst i') simp
    show "\<exists>t'. bindr (initsleeplock (Lk_buf_sleep k) ''buffer'' t) (\<lambda>_ s. Ret () (link_front k s)) = Ret () t' \<and> binit_inv s (Suc k) t'"
      using b i fr by (auto simp: binit_inv_def relinked_def less_Suc_eq)
  qed
  then obtain t where t: "binit s = Ret () t" "binit_inv s NBUF t" using run by auto
  have f: "b_dev (bufs t ! i) = 0" "b_refcnt (bufs t ! i) = 0" "b_valid (bufs t ! i) = 0" if "i < NBUF" for i
    using t(2) assms that core_fields[of "bufs t ! i" "bufs s ! i"] by (simp_all add: binit_inv_def boot_bufs_def)
  have "ring (rev [0..<NBUF]) (bufs t)" using t(2) by (auto simp: ring_def binit_inv_def)
  then have "cache_ok t" using f t(2) unfolding cache_ok_def binit_inv_def by blast
  then show ?thesis using t by blast
qed

section \<open>Properties\<close>

text \<open>
  C28: the cache is transparent. In a state where the block's buffer, or an unreferenced one, is
  available, \<open>bread\<close> returns a locked buffer that holds what clients see of the block; what
  they see of any other block, and the disk, are unchanged, although a buffer may have been
  recycled; and giving the unmodified buffer back with \<open>brelse\<close> changes nothing of that
  either. With every buffer referenced by others and the block not cached, \<open>bread\<close> panics.
\<close>

theorem bread_transparent:
  assumes "idle p s" and "cache_ok s" and "dev \<noteq> 0" and "\<forall>i < NBUF. b_refcnt (bufs s ! i) + 1 \<noteq> 0"
  shows "(can_get s dev bno \<longrightarrow> (\<exists>b s1 s2. bread dev bno s = Ret b s1 \<and> owns p b s1 \<and>
       b_data (bufs s1 ! b) = content s dev bno \<and> b_blockno (bufs s1 ! b) = bno \<and>
       (\<forall>d n. d \<noteq> 0 \<longrightarrow> content s1 d n = content s d n) \<and> disk s1 = disk s \<and>
       brelse b s1 = Ret () s2 \<and> idle p s2 \<and> cache_ok s2 \<and> disk s2 = disk s \<and>
       (\<forall>d n. d \<noteq> 0 \<longrightarrow> content s2 d n = content s d n))) \<and>
    ((\<forall>i < NBUF. \<not> is_blk dev bno (bufs s ! i) \<and> b_refcnt (bufs s ! i) \<noteq> 0) \<longrightarrow>
       bread dev bno s = Panic ''bget: no buffers'')"
proof (intro conjI impI)
  assume "can_get s dev bno"
  then obtain b s1 where r: "bread dev bno s = Ret b s1" and post: "bread_post p dev bno b s s1"
    using bread_ok[OF assms(1-3)] by blast
  obtain x where x: "took p b x s s1" "bufs s1 ! b = x" "b < NBUF" "is_blk dev bno x" "b_valid x \<noteq> 0"
      "b_data x = content s dev bno" "b_refcnt x = b_refcnt (bufs s ! b) + 1"
      "is_blk dev bno (bufs s ! b) \<or> b_refcnt (bufs s ! b) = 0 \<and> (\<forall>i < NBUF. \<not> is_blk dev bno (bufs s ! i))"
    using bread_post_cases[OF post assms(2)] by metis
  have k: "idle p s1" "cache_ok s1" using bread_keeps[OF post assms(1-3)] assms(4) x(3) by simp_all
  have c: "content s1 d n = content s d n" if "d \<noteq> 0" for d n
    by (rule bread_content[OF post assms(2) k(2) assms(3) that])
  have own: "owns p b s1" by (rule took_owns[OF x(1,3)])
  obtain s2 where rel: "brelse b s1 = Ret () s2" "gave p b s1 s2"
    using brelse_ok[OF k(1) own cache_okD(1)[OF k(2)]] by blast
  have cl: "b_data (bufs s1 ! b) = disk s1 (sector (b_blockno (bufs s1 ! b)))" if one: "b_refcnt (bufs s1 ! b) = 1"
  proof -
    have z: "b_refcnt (bufs s ! b) = 0" using one x(2,7) by simp
    have "content s dev bno = disk s (sector bno)"
    proof (cases "is_blk dev bno (bufs s ! b)")
      case True
      then show ?thesis
        using content_cached[OF assms(2) x(3) True assms(3)] cache_okD(4)[OF assms(2) x(3) z] by (simp add: is_blk_def)
    next
      case False
      then show ?thesis using x(8) by (intro content_uncached) blast
    qed
    then show ?thesis using x(2,4,6) tookD(3)[OF x(1)] by (simp add: is_blk_def)
  qed
  note g = gave_keeps[OF rel(2) k x(3)] and gc = gave_content[OF rel(2) k(2) x(3)]
  have "idle p s2" "cache_ok s2" using g cl by blast+
  then show "\<exists>b s1 s2. bread dev bno s = Ret b s1 \<and> owns p b s1 \<and>
       b_data (bufs s1 ! b) = content s dev bno \<and> b_blockno (bufs s1 ! b) = bno \<and>
       (\<forall>d n. d \<noteq> 0 \<longrightarrow> content s1 d n = content s d n) \<and> disk s1 = disk s \<and>
       brelse b s1 = Ret () s2 \<and> idle p s2 \<and> cache_ok s2 \<and> disk s2 = disk s \<and>
       (\<forall>d n. d \<noteq> 0 \<longrightarrow> content s2 d n = content s d n)"
    using r own x(2,4,6) c rel(1) gc tookD(3)[OF x(1)] gaveD(3)[OF rel(2)]
    by (intro exI[of _ b] exI[of _ s1] exI[of _ s2]) (simp add: is_blk_def)
next
  assume "\<forall>i < NBUF. \<not> is_blk dev bno (bufs s ! i) \<and> b_refcnt (bufs s ! i) \<noteq> 0"
  then show "bread dev bno s = Panic ''bget: no buffers''"
    using bget_full[OF assms(1,2), of dev bno] by (simp add: bread_def)
qed

text \<open>The machine before \<open>binit\<close>, with a disk of equal blocks.\<close>

definition buf0 :: buf where
  "buf0 = \<lparr>b_valid = 0, b_disk = 0, b_dev = 0, b_blockno = 0, b_refcnt = 0, b_prev = 0, b_next = 0, b_data = replicate BSIZE 0\<rparr>"

definition bio0 :: bufst where
  "bio0 = vmst.extend (clockst.extend (slst.extend sl0 (clockst.fields 0 (\<lambda>_. 0))) (vmst.fields 0 0 0))
     (bufst.fields (replicate (Suc NBUF) buf0) (\<lambda>_. replicate BSIZE 7) [])"

lemma bio0_simps [simp]:
  "hw bio0 = with_proc (Some 0) hw0" "procs bio0 = procs proc0" "bufs bio0 = replicate (Suc NBUF) buf0"
  "disk bio0 = (\<lambda>_. replicate BSIZE 7)" "dtrace bio0 = []"
  by (simp_all add: bio0_def vmst.defs bufst.defs clockst.defs slst.defs sl0_def procst.defs proc0_def kmemst.defs)

lemma bio0_nth: "i < Suc NBUF \<Longrightarrow> bufs bio0 ! i = buf0"
  by (simp del: replicate.simps)

lemma bio0_boot: "boot_bufs bio0"
  by (simp add: boot_bufs_def bio0_nth buf0_def del: replicate.simps bio0_simps(3)) simp

lemma binit_idle:
  assumes "binit_inv s NBUF t" and "idle p s"
  shows "idle p t"
proof -
  have t: "t = s\<lparr>hw := hw t, slocks := slocks t, bufs := bufs t\<rparr>" using assms(1) by (simp add: binit_inv_def)
  from arg_cong[OF this, of procs] have "procs t = procs s" by simp
  then show ?thesis using assms by (simp add: idle_def binit_inv_def)
qed

lemma bio0_idle: "idle 0 bio0"
  by (simp add: idle_def NPROC_def)

theorem bread_transparent_witness:
  "\<exists>t b s1. binit bio0 = Ret () t \<and> bread 1 5 t = Ret b s1 \<and> b_data (bufs s1 ! b) = replicate BSIZE 7"
proof -
  obtain t where t: "binit bio0 = Ret () t" "binit_inv bio0 NBUF t" "cache_ok t"
    using binit_ok[OF bio0_boot] by blast
  have i: "idle 0 t" by (rule binit_idle[OF t(2) bio0_idle])
  have f: "b_dev (bufs t ! i) = 0" "b_refcnt (bufs t ! i) = 0" if "i < NBUF" for i
    using t(2) that core_fields[of "bufs t ! i" "bufs bio0 ! i"] by (simp_all add: binit_inv_def bio0_nth buf0_def del: bio0_simps(3))
  have nc: "\<And>i. i < NBUF \<Longrightarrow> \<not> is_blk 1 5 (bufs t ! i)" using f by (simp add: is_blk_def)
  then have "can_get t 1 5" using f(2)[of 0] by (auto simp: can_get_def NBUF_def MAXOPBLOCKS_def)
  moreover have "t = bio0\<lparr>hw := hw t, slocks := slocks t, bufs := bufs t\<rparr>" using t(2) by (simp add: binit_inv_def)
  from arg_cong[OF this, of disk] have "disk t = disk bio0" by simp
  ultimately show ?thesis
    using bread_transparent[OF i t(3), of 1 5] f(2) content_uncached[OF nc] t(1) by auto
qed

end
