(* ===== verification/Log.thy ===== *)
theory Log
  imports BioSpec
begin

text \<open>
  The write-ahead log, \<open>kernel/log.c\<close>: the in-memory log, the routines that commit a
  transaction and the recovery at boot. The header block on disk is read and written byte by
  byte as the C structure lays it out.
\<close>

section \<open>State\<close>

definition LOGBLOCKS :: nat where "LOGBLOCKS = MAXOPBLOCKS * 3"

text \<open>The structure \<open>log\<close> with its header; the numbers in \<open>block\<close> are compared as unsigned.\<close>

record log =
  lg_start :: int
  lg_outstanding :: int
  lg_committing :: int
  lg_dev :: int
  lg_n :: int
  lg_block :: "u32 list"

record superblock =
  sb_magic :: u32
  sb_size :: u32
  sb_nblocks :: u32
  sb_ninodes :: u32
  sb_nlog :: u32
  sb_logstart :: u32
  sb_inodestart :: u32
  sb_bmapstart :: u32

record logst = bufst +
  lg :: log

text \<open>Updates of different fields are kept in the order of the fields.\<close>

lemma logst_order [simp]:
  "hw_update f0 (lg_update g0 s) = lg_update g0 (hw_update f0 s)"
  "ticks_update f1 (lg_update g1 s) = lg_update g1 (ticks_update f1 s)"
  "rooms_update f2 (lg_update g2 s) = lg_update g2 (rooms_update f2 s)"
  "lighting_initialized_update f3 (lg_update g3 s) = lg_update g3 (lighting_initialized_update f3 s)"
  "roomenv_room_update f4 (lg_update g4 s) = lg_update g4 (roomenv_room_update f4 s)"
  "mem_update f5 (lg_update g5 s) = lg_update g5 (mem_update f5 s)"
  "freelist_update f6 (lg_update g6 s) = lg_update g6 (freelist_update f6 s)"
  "kend_update f7 (lg_update g7 s) = lg_update g7 (kend_update f7 s)"
  "procs_update f8 (lg_update g8 s) = lg_update g8 (procs_update f8 s)"
  "initproc_update f9 (lg_update g9 s) = lg_update g9 (initproc_update f9 s)"
  "nextpid_update f10 (lg_update g10 s) = lg_update g10 (nextpid_update f10 s)"
  "slocks_update f11 (lg_update g11 s) = lg_update g11 (slocks_update f11 s)"
  "mtime_update f12 (lg_update g12 s) = lg_update g12 (mtime_update f12 s)"
  "stimecmp_update f13 (lg_update g13 s) = lg_update g13 (stimecmp_update f13 s)"
  "kernel_pagetable_update f14 (lg_update g14 s) = lg_update g14 (kernel_pagetable_update f14 s)"
  "etext_update f15 (lg_update g15 s) = lg_update g15 (etext_update f15 s)"
  "trampoline_update f16 (lg_update g16 s) = lg_update g16 (trampoline_update f16 s)"
  "bufs_update f17 (lg_update g17 s) = lg_update g17 (bufs_update f17 s)"
  "disk_update f18 (lg_update g18 s) = lg_update g18 (disk_update f18 s)"
  "dtrace_update f19 (lg_update g19 s) = lg_update g19 (dtrace_update f19 s)"
  by (induct s; simp)+

definition upd_log :: "(log \<Rightarrow> log) \<Rightarrow> 'z logst_scheme \<Rightarrow> 'z logst_scheme" where
  "upd_log f s = s\<lparr>lg := f (lg s)\<rparr>"

abbreviation upd_data :: "nat \<Rightarrow> (block \<Rightarrow> block) \<Rightarrow> 'z bufst_scheme \<Rightarrow> 'z bufst_scheme" where
  "upd_data b f s \<equiv> upd_buf b (\<lambda>x. x\<lparr>b_data := f (b_data x)\<rparr>) s"

section \<open>The routines of log.c\<close>

definition log_dev :: "'z logst_scheme \<Rightarrow> u32" where "log_dev s = word_of_int (lg_dev (lg s))"

definition log_slot :: "'z logst_scheme \<Rightarrow> nat \<Rightarrow> u32" where
  "log_slot s tail = word_of_int (lg_start (lg s) + int tail + 1)"

definition install_one :: "bool \<Rightarrow> nat \<Rightarrow> 'z logst_scheme \<Rightarrow> (unit, 'z logst_scheme) res" where
  "install_one recovering tail s =
     bindr (if recovering
            then kprintf (''recovering tail %d dst %d'' @ [CHR 0x0A])
                   [VInt (of_nat tail), VInt (scast (lg_block (lg s) ! tail))] s
            else Ret 0 s) (\<lambda>_ s.
     bindr (bread (log_dev s) (log_slot s tail) s) (\<lambda>lbuf s.
     bindr (bread (log_dev s) (lg_block (lg s) ! tail) s) (\<lambda>dbuf s.
     let s = upd_data dbuf (\<lambda>_. b_data (bufs s ! lbuf)) s in
     bindr (bwrite dbuf s) (\<lambda>_ s.
     bindr (if \<not> recovering then bunpin dbuf s else Ret () s) (\<lambda>_ s.
     bindr (brelse lbuf s) (\<lambda>_ s.
     brelse dbuf s))))))"

definition install_trans :: "bool \<Rightarrow> 'z logst_scheme \<Rightarrow> (unit, 'z logst_scheme) res" where
  "install_trans recovering s = for_upto 0 (nat (lg_n (lg s))) (install_one recovering) s"

text \<open>
  \<open>read_head\<close> takes the count from the disk as it is. A count that does not fit the array in
  memory would overwrite what follows it.
\<close>

definition read_head :: "'z logst_scheme \<Rightarrow> (unit, 'z logst_scheme) res" where
  "read_head s =
     bindr (bread (log_dev s) (word_of_int (lg_start (lg s))) s) (\<lambda>b s.
     let d = b_data (bufs s ! b);
         n = sint (get32 d 0) in
     if n > int LOGBLOCKS then Panic ''out of bounds''
     else
       let s = upd_log (\<lambda>l. l\<lparr>lg_n := n\<rparr>) s;
           s = upd_log (\<lambda>l. l\<lparr>lg_block := map (\<lambda>i. get32 d (4 + 4 * i)) [0..<nat n] @ drop (nat n) (lg_block l)\<rparr>) s
       in brelse b s)"

text \<open>The bytes of a header with a count and block numbers, over the old bytes of the block.\<close>

definition head_bytes :: "int \<Rightarrow> u32 list \<Rightarrow> block \<Rightarrow> block" where
  "head_bytes n bl d = fold (\<lambda>i d. put32 d (4 + 4 * i) (bl ! i)) [0..<nat n] (put32 d 0 (word_of_int n))"

definition write_head :: "'z logst_scheme \<Rightarrow> (unit, 'z logst_scheme) res" where
  "write_head s =
     bindr (bread (log_dev s) (word_of_int (lg_start (lg s))) s) (\<lambda>b s.
     let s = upd_data b (head_bytes (lg_n (lg s)) (lg_block (lg s))) s in
     bindr (bwrite b s) (\<lambda>_ s.
     brelse b s))"

definition recover_from_log :: "'z logst_scheme \<Rightarrow> (unit, 'z logst_scheme) res" where
  "recover_from_log s =
     bindr (read_head s) (\<lambda>_ s.
     bindr (install_trans True s) (\<lambda>_ s.
     let s = upd_log (\<lambda>l. l\<lparr>lg_n := 0\<rparr>) s in
     write_head s))"

definition initlog :: "int \<Rightarrow> superblock \<Rightarrow> 'z logst_scheme \<Rightarrow> (unit, 'z logst_scheme) res" where
  "initlog dev sb s =
     (if 4 + 4 * LOGBLOCKS \<ge> BSIZE then Panic ''initlog: too big logheader''
      else
        bindr (initlock Lk_log ''log'' s) (\<lambda>_ s.
        let s = upd_log (\<lambda>l. l\<lparr>lg_start := sint (sb_logstart sb), lg_dev := dev\<rparr>) s in
        recover_from_log s))"

text \<open>The loop of \<open>begin_op\<close>, with the lock held; it is entered again after each sleep.\<close>

definition begin_op_loop :: "'z logst_scheme \<Rightarrow> (unit, 'z logst_scheme) res" where
  "begin_op_loop s =
     (if lg_committing (lg s) \<noteq> 0 then sleep_on Ch_log Lk_log s
      else if lg_n (lg s) + (lg_outstanding (lg s) + 1) * int MAXOPBLOCKS > int LOGBLOCKS
      then sleep_on Ch_log Lk_log s
      else release Lk_log (upd_log (\<lambda>l. l\<lparr>lg_outstanding := lg_outstanding l + 1\<rparr>) s))"

definition begin_op :: "'z logst_scheme \<Rightarrow> (unit, 'z logst_scheme) res" where
  "begin_op s = bindr (acquire Lk_log s) (\<lambda>_ s. begin_op_loop s)"

definition begin_op_resume :: "nat \<Rightarrow> bool \<Rightarrow> 'z logst_scheme \<Rightarrow> (unit, 'z logst_scheme) res" where
  "begin_op_resume p saved s = bindr (sleep_resume p saved Lk_log s) (\<lambda>_ s. begin_op_loop s)"

definition write_one :: "nat \<Rightarrow> 'z logst_scheme \<Rightarrow> (unit, 'z logst_scheme) res" where
  "write_one tail s =
     bindr (bread (log_dev s) (log_slot s tail) s) (\<lambda>to s.
     bindr (bread (log_dev s) (lg_block (lg s) ! tail) s) (\<lambda>from s.
     let s = upd_data to (\<lambda>_. b_data (bufs s ! from)) s in
     bindr (bwrite to s) (\<lambda>_ s.
     bindr (brelse from s) (\<lambda>_ s.
     brelse to s))))"

definition write_log :: "'z logst_scheme \<Rightarrow> (unit, 'z logst_scheme) res" where
  "write_log s = for_upto 0 (nat (lg_n (lg s))) write_one s"

definition commit :: "'z logst_scheme \<Rightarrow> (unit, 'z logst_scheme) res" where
  "commit s =
     (if lg_n (lg s) > 0 then
        bindr (write_log s) (\<lambda>_ s.
        bindr (write_head s) (\<lambda>_ s.
        bindr (install_trans False s) (\<lambda>_ s.
        let s = upd_log (\<lambda>l. l\<lparr>lg_n := 0\<rparr>) s in
        write_head s)))
      else Ret () s)"

definition end_op :: "'z logst_scheme \<Rightarrow> (unit, 'z logst_scheme) res" where
  "end_op s =
     bindr (acquire Lk_log s) (\<lambda>_ s.
     let s = upd_log (\<lambda>l. l\<lparr>lg_outstanding := lg_outstanding l - 1\<rparr>) s in
     if lg_committing (lg s) \<noteq> 0 then Panic ''log.committing''
     else if lg_outstanding (lg s) = 0 then
       let s = upd_log (\<lambda>l. l\<lparr>lg_committing := 1\<rparr>) s in
       bindr (release Lk_log s) (\<lambda>_ s.
       bindr (commit s) (\<lambda>_ s.
       bindr (acquire Lk_log s) (\<lambda>_ s.
       let s = upd_log (\<lambda>l. l\<lparr>lg_committing := 0\<rparr>) s in
       bindr (wakeup (Some Ch_log) s) (\<lambda>_ s.
       release Lk_log s))))
     else
       bindr (wakeup (Some Ch_log) s) (\<lambda>_ s.
       release Lk_log s))"

definition log_write :: "nat \<Rightarrow> 'z logst_scheme \<Rightarrow> (unit, 'z logst_scheme) res" where
  "log_write b s =
     bindr (acquire Lk_log s) (\<lambda>_ s.
     if lg_n (lg s) \<ge> int LOGBLOCKS then Panic ''too big a transaction''
     else if lg_outstanding (lg s) < 1 then Panic ''log_write outside of trans''
     else
       let n = nat (lg_n (lg s));
           bno = b_blockno (bufs s ! b);
           i = (case first_idx (\<lambda>i. lg_block (lg s) ! i = bno) 0 n of None \<Rightarrow> n | Some i \<Rightarrow> i);
           s = upd_log (\<lambda>l. l\<lparr>lg_block := (lg_block l)[i := bno]\<rparr>) s in
       bindr (if i = n
              then bindr (bpin b s) (\<lambda>_ s. Ret () (upd_log (\<lambda>l. l\<lparr>lg_n := lg_n l + 1\<rparr>) s))
              else Ret () s) (\<lambda>_ s.
       release Lk_log s))"

end
