(* ===== verification/BioView.thy ===== *)
theory BioView
  imports BioSpec
begin

text \<open>
  The buffer cache seen by block number: what a client sees of a block, how many references
  its buffer has, how many buffers are unreferenced. Each routine of \<open>kernel/bio.c\<close> has a simple
  effect on this view; the log and the file system are verified against it.
\<close>

section \<open>The view\<close>

definition refs :: "'z bufst_scheme \<Rightarrow> u32 \<Rightarrow> u32 \<Rightarrow> u32" where
  "refs s d n = (case find (\<lambda>i. is_blk d n (bufs s ! i)) [0..<NBUF] of None \<Rightarrow> 0 | Some i \<Rightarrow> b_refcnt (bufs s ! i))"

definition spare :: "'z bufst_scheme \<Rightarrow> nat" where
  "spare s = card {i. i < NBUF \<and> b_refcnt (bufs s ! i) = 0}"

definition lockset :: "'z bufst_scheme \<Rightarrow> nat set" where
  "lockset s = {i. i < NBUF \<and> sl_locked (slocks s (Lk_buf_sleep i)) \<noteq> 0}"

text \<open>Block numbers whose sector numbers do not wrap around.\<close>

definition small :: "u32 \<Rightarrow> bool" where
  "small n \<longleftrightarrow> unat n < 2 ^ 31"

definition sane :: "u32 \<Rightarrow> 'z bufst_scheme \<Rightarrow> bool" where
  "sane d s \<longleftrightarrow> (\<forall>i < NBUF. b_valid (bufs s ! i) \<noteq> 0 \<longrightarrow> b_dev (bufs s ! i) = d \<and> small (b_blockno (bufs s ! i)))"

definition binv :: "nat \<Rightarrow> u32 \<Rightarrow> 'z bufst_scheme \<Rightarrow> bool" where
  "binv p d s \<longleftrightarrow> idle p s \<and> cache_ok s \<and> sane d s \<and> d \<noteq> 0"

lemma binvD:
  assumes "binv p d s"
  shows "idle p s" "cache_ok s" "sane d s" "d \<noteq> 0" "length (bufs s) = Suc NBUF" "p < NPROC"
  using assms cache_okD(5) idleD(4) by (auto simp: binv_def)

definition holds :: "nat \<Rightarrow> u32 \<Rightarrow> u32 \<Rightarrow> nat \<Rightarrow> 'z bufst_scheme \<Rightarrow> bool" where
  "holds p d n b s \<longleftrightarrow> owns p b s \<and> is_blk d n (bufs s ! b) \<and> b_valid (bufs s ! b) \<noteq> 0"

definition bframe :: "'z bufst_scheme \<Rightarrow> 'z bufst_scheme \<Rightarrow> bool" where
  "bframe s s' \<longleftrightarrow> s' = s\<lparr>hw := hw s', procs := procs s', slocks := slocks s', bufs := bufs s',
     disk := disk s', dtrace := dtrace s'\<rparr> \<and> (tty_ok (hw s) \<longrightarrow> tty_ok (hw s'))"

lemma bframe_refl [simp]: "bframe s s"
  by (simp add: bframe_def)

lemma bframe_trans:
  assumes "bframe s t" and "bframe t u"
  shows "bframe s u"
proof -
  have t: "t = s\<lparr>hw := hw t, procs := procs t, slocks := slocks t, bufs := bufs t, disk := disk t, dtrace := dtrace t\<rparr>"
    and u: "u = t\<lparr>hw := hw u, procs := procs u, slocks := slocks u, bufs := bufs u, disk := disk u, dtrace := dtrace u\<rparr>"
    using assms by (simp_all add: bframe_def)
  have "u = s\<lparr>hw := hw u, procs := procs u, slocks := slocks u, bufs := bufs u, disk := disk u, dtrace := dtrace u\<rparr>"
    by (subst u, subst t) simp
  then show ?thesis using assms by (simp add: bframe_def)
qed

lemma refs_cached:
  assumes "cache_ok s" and "i < NBUF" and "is_blk d n (bufs s ! i)" and "d \<noteq> 0"
  shows "refs s d n = b_refcnt (bufs s ! i)"
proof -
  have "find (\<lambda>i. is_blk d n (bufs s ! i)) [0..<NBUF] = Some i"
    using assms(2,3) by (intro find_unique) (simp_all, use blk_unique[OF assms(1,2) _ assms(3) _ assms(4)] in metis)
  then show ?thesis by (simp add: refs_def)
qed

lemma refs_uncached: "(\<And>i. i < NBUF \<Longrightarrow> \<not> is_blk d n (bufs s ! i)) \<Longrightarrow> refs s d n = 0"
  using find_none[of "[0..<NBUF]" "\<lambda>i. is_blk d n (bufs s ! i)"] by (simp add: refs_def)

lemma refs_nz:
  assumes "refs s d n \<noteq> 0"
  obtains i where "i < NBUF" "is_blk d n (bufs s ! i)" "b_refcnt (bufs s ! i) = refs s d n"
proof (cases "find (\<lambda>i. is_blk d n (bufs s ! i)) [0..<NBUF]")
  case None
  then show ?thesis using assms by (simp add: refs_def)
next
  case (Some i)
  then show ?thesis using find_member[OF Some] that[of i] by (simp add: refs_def)
qed

lemma holdsD:
  assumes "holds p d n b s" and "binv p d s"
  shows "b < NBUF" "is_blk d n (bufs s ! b)" "refs s d n = b_refcnt (bufs s ! b)" "refs s d n \<noteq> 0"
    "content s d n = b_data (bufs s ! b)" "b \<in> lockset s"
proof -
  note i = binvD[OF assms(2)]
  show b: "b < NBUF" "is_blk d n (bufs s ! b)" using assms(1) by (simp_all add: holds_def owns_def)
  show r: "refs s d n = b_refcnt (bufs s ! b)" by (rule refs_cached[OF i(2) b i(4)])
  show "refs s d n \<noteq> 0"
    using cache_okD(3)[OF i(2) b(1)] assms(1) by (auto simp: r holds_def owns_def)
  show "content s d n = b_data (bufs s ! b)"
    using content_cached[OF i(2) b i(4)] assms(1) by (simp add: holds_def)
  show "b \<in> lockset s" using assms(1) b(1) by (simp add: lockset_def holds_def owns_def)
qed

lemma holds_unique: "holds p d n b s \<Longrightarrow> holds p d m b s \<Longrightarrow> m = n"
  by (simp add: holds_def is_blk_def)

lemma sector_inj: "small m \<Longrightarrow> small n \<Longrightarrow> sector m = sector n \<longleftrightarrow> m = n"
proof -
  assume m: "small m" and n: "small n"
  have "unat (k * 2) = unat k * 2" if "small k" for k :: u32
    using that by (intro unat_mult_lem[THEN iffD1, of k 2, simplified]) (simp add: small_def)
  then show ?thesis using m n by (auto simp: sector_def BSIZE_def word_unat_eq_iff)
qed

section \<open>The routines on the view\<close>

text \<open>Two states with the same view, the buffer \<open>held\<close> of the caller apart.\<close>

definition same_held :: "nat \<Rightarrow> u32 \<Rightarrow> nat set \<Rightarrow> 'z bufst_scheme \<Rightarrow> 'z bufst_scheme \<Rightarrow> bool" where
  "same_held p d X s s' \<longleftrightarrow> (\<forall>m b. b \<notin> X \<longrightarrow> holds p d m b s \<longrightarrow> holds p d m b s')"

lemma same_heldD: "same_held p d X s s' \<Longrightarrow> holds p d m b s \<Longrightarrow> b \<notin> X \<Longrightarrow> holds p d m b s'"
  by (simp add: same_held_def)

lemma same_held_trans: "same_held p d X s t \<Longrightarrow> same_held p d Y t u \<Longrightarrow> same_held p d (X \<union> Y) s u"
  by (simp add: same_held_def)

lemma bread_refs:
  assumes "bread_post p d n b s s'" and "binv p d s" and "cache_ok s'"
  shows "refs s' d m = (if m = n then refs s d n + 1 else refs s d m)"
    and "b_refcnt (bufs s ! b) = refs s d n"
proof -
  note i = binvD[OF assms(2)]
  obtain x where x: "bufs s' ! b = x" "\<And>i. i \<noteq> b \<Longrightarrow> bufs s' ! i = bufs s ! i" "b < NBUF"
    "is_blk d n x" "b_refcnt x = b_refcnt (bufs s ! b) + 1"
    "is_blk d n (bufs s ! b) \<or> b_refcnt (bufs s ! b) = 0 \<and> (\<forall>i < NBUF. \<not> is_blk d n (bufs s ! i))"
    using bread_post_cases[OF assms(1) i(2)] by metis
  have r: "refs s d n = b_refcnt (bufs s ! b)"
    using x(6)
  proof
    assume "is_blk d n (bufs s ! b)"
    then show ?thesis by (rule refs_cached[OF i(2) x(3) _ i(4)])
  next
    assume "b_refcnt (bufs s ! b) = 0 \<and> (\<forall>i < NBUF. \<not> is_blk d n (bufs s ! i))"
    then show ?thesis using refs_uncached[of d n s] by simp
  qed
  then show "b_refcnt (bufs s ! b) = refs s d n" by simp
  show "refs s' d m = (if m = n then refs s d n + 1 else refs s d m)"
  proof (cases "m = n")
    case True
    then show ?thesis using refs_cached[OF assms(3) x(3), of d n] x(1,4,5) i(4) r by simp
  next
    case False
    then have nb: "\<not> is_blk d m (bufs s' ! b)" using x(1,4) by (auto simp: is_blk_def)
    show ?thesis
    proof (cases "\<exists>i < NBUF. i \<noteq> b \<and> is_blk d m (bufs s ! i)")
      case True
      then obtain j where j: "j < NBUF" "j \<noteq> b" "is_blk d m (bufs s ! j)" by blast
      then show ?thesis
        using refs_cached[OF i(2) j(1,3) i(4)] refs_cached[OF assms(3) j(1), of d m] x(2)[OF j(2)] i(4) False by simp
    next
      case no: False
      have "refs s' d m = 0" using no nb x(2) refs_uncached[of d m s'] by metis
      moreover have "refs s d m = 0"
      proof (cases "is_blk d m (bufs s ! b)")
        case True
        then have "b_refcnt (bufs s ! b) = 0" using x(6) False by (auto simp: is_blk_def)
        then show ?thesis using refs_cached[OF i(2) x(3) True i(4)] by simp
      next
        case nb': False
        then show ?thesis using no refs_uncached[of d m s] by metis
      qed
      ultimately show ?thesis using False by simp
    qed
  qed
qed

lemma bread_view:
  assumes "binv p d s" and "small n" and "\<And>i. i < NBUF \<Longrightarrow> is_blk d n (bufs s ! i) \<Longrightarrow> i \<notin> lockset s"
    and "refs s d n + 1 \<noteq> 0" and "refs s d n \<noteq> 0 \<or> 0 < spare s"
  obtains b s' where "bread d n s = Ret b s'" "bframe s s'" "binv p d s'" "holds p d n b s'" "b \<notin> lockset s"
    "lockset s' = insert b (lockset s)" "\<And>m. content s' d m = content s d m"
    "\<And>m. refs s' d m = (if m = n then refs s d n + 1 else refs s d m)"
    "spare s' = (if refs s d n = 0 then spare s - 1 else spare s)"
    "disk s' = disk s" "dtrace s' = dtrace s" "same_held p d {} s s'"
proof -
  note i = binvD[OF assms(1)]
  have "can_get s d n"
  proof (cases "\<exists>i < NBUF. is_blk d n (bufs s ! i)")
    case True
    then show ?thesis using assms(3) by (auto simp: can_get_def lockset_def)
  next
    case False
    then have "0 < spare s" using assms(5) refs_uncached[of d n s] by blast
    then have "{i. i < NBUF \<and> b_refcnt (bufs s ! i) = 0} \<noteq> {}" unfolding spare_def by (metis card.empty less_not_refl3)
    then show ?thesis using False by (auto simp: can_get_def)
  qed
  then obtain b s' where r: "bread d n s = Ret b s'" and post: "bread_post p d n b s s'"
    using bread_ok[OF i(1,2,4)] by blast
  obtain x where x: "took p b x s s'" "bufs s' ! b = x" "\<And>i. i \<noteq> b \<Longrightarrow> bufs s' ! i = bufs s ! i" "b < NBUF"
      "is_blk d n x" "b_valid x \<noteq> 0" "b_refcnt x = b_refcnt (bufs s ! b) + 1"
      "is_blk d n (bufs s ! b) \<or> b_refcnt (bufs s ! b) = 0 \<and> (\<forall>i < NBUF. \<not> is_blk d n (bufs s ! i))"
    using bread_post_cases[OF post i(2)] by metis
  note t = tookD[OF x(1)]
  have ref: "b_refcnt (bufs s ! b) = refs s d n"
    using x(8) refs_cached[OF i(2) x(4) _ i(4), of n] refs_uncached[of d n s] by auto
  then have k: "idle p s'" "cache_ok s'" using bread_keeps[OF post i(1,2,4)] assms(4) by simp_all
  have inv: "binv p d s'"
    using i(3,4) k x(2,3,5) assms(2) unfolding binv_def sane_def by (metis is_blk_def)
  have nl: "b \<notin> lockset s"
    using x(8) assms(3)[OF x(4)] cache_okD(3)[OF i(2) x(4)] by (auto simp: lockset_def)
  have ls: "lockset s' = insert b (lockset s)" using x(4) by (auto simp: lockset_def t(6))
  have fr: "bframe s s'" using x(1) by (simp add: bframe_def took_def)
  have held: "same_held p d {} s s'"
  proof -
    have "holds p d m c s'" if h: "holds p d m c s" for m c
    proof -
      have "c \<noteq> b" using holdsD(6)[OF h assms(1)] nl by auto
      then show ?thesis using h x(3) took_owns_other[OF x(1)] by (simp add: holds_def)
    qed
    then show ?thesis by (simp add: same_held_def)
  qed
  have hb: "holds p d n b s'" using took_owns[OF x(1,4)] x(2,5,6) by (simp add: holds_def)
  have "{i. i < NBUF \<and> b_refcnt (bufs s' ! i) = 0} = {i. i < NBUF \<and> b_refcnt (bufs s ! i) = 0} - {b}"
  proof (rule set_eqI)
    fix j
    show "j \<in> {i. i < NBUF \<and> b_refcnt (bufs s' ! i) = 0} \<longleftrightarrow> j \<in> {i. i < NBUF \<and> b_refcnt (bufs s ! i) = 0} - {b}"
      using x(2,7) x(3)[of j] assms(4) ref by (cases "j = b") simp_all
  qed
  then have sp: "spare s' = (if refs s d n = 0 then spare s - 1 else spare s)"
    using x(4) ref by (simp add: spare_def card_Diff_singleton_if)
  show ?thesis
    by (rule that[OF r fr inv hb nl ls bread_content[OF post i(2) k(2) i(4,4)] bread_refs(1)[OF post assms(1) k(2)] sp t(3,4) held])
qed

lemma content_cong:
  assumes "\<And>i. i < NBUF \<Longrightarrow> b_dev (bufs s' ! i) = b_dev (bufs s ! i) \<and> b_blockno (bufs s' ! i) = b_blockno (bufs s ! i) \<and>
      b_valid (bufs s' ! i) = b_valid (bufs s ! i)"
    and "\<And>i. i < NBUF \<Longrightarrow> is_blk d m (bufs s ! i) \<Longrightarrow> b_data (bufs s' ! i) = b_data (bufs s ! i)"
    and "disk s' (sector m) = disk s (sector m)"
  shows "content s' d m = content s d m"
proof -
  have "find (\<lambda>i. is_blk d m (bufs s' ! i) \<and> b_valid (bufs s' ! i) \<noteq> 0) [0..<NBUF] =
      find (\<lambda>i. is_blk d m (bufs s ! i) \<and> b_valid (bufs s ! i) \<noteq> 0) [0..<NBUF]"
    using assms(1) by (intro find_cong) (simp_all add: is_blk_def)
  moreover have "b_data (bufs s' ! i) = b_data (bufs s ! i)"
    if "find (\<lambda>i. is_blk d m (bufs s ! i) \<and> b_valid (bufs s ! i) \<noteq> 0) [0..<NBUF] = Some i" for i
    using find_member[OF that] by (intro assms(2)) simp_all
  ultimately show ?thesis by (simp add: content_def assms(3) split: option.splits)
qed

lemma refs_cong:
  assumes "\<And>i. i < NBUF \<Longrightarrow> b_dev (bufs s' ! i) = b_dev (bufs s ! i) \<and> b_blockno (bufs s' ! i) = b_blockno (bufs s ! i)"
    and "\<And>i. i < NBUF \<Longrightarrow> is_blk d m (bufs s ! i) \<Longrightarrow> b_refcnt (bufs s' ! i) = b_refcnt (bufs s ! i)"
  shows "refs s' d m = refs s d m"
proof -
  have "find (\<lambda>i. is_blk d m (bufs s' ! i)) [0..<NBUF] = find (\<lambda>i. is_blk d m (bufs s ! i)) [0..<NBUF]"
    using assms(1) by (intro find_cong) (simp_all add: is_blk_def)
  moreover have "b_refcnt (bufs s' ! i) = b_refcnt (bufs s ! i)"
    if "find (\<lambda>i. is_blk d m (bufs s ! i)) [0..<NBUF] = Some i" for i
    using find_member[OF that] by (intro assms(2)) simp_all
  ultimately show ?thesis by (simp add: refs_def split: option.splits)
qed

lemma holds_other:
  assumes "holds p d n b s" and "binv p d s" and "i < NBUF" and "i \<noteq> b"
  shows "\<not> is_blk d n (bufs s ! i)"
  using blk_unique[OF binvD(2)[OF assms(2)] holdsD(1)[OF assms(1,2)] assms(3) holdsD(2)[OF assms(1,2)] _ binvD(4)[OF assms(2)]] assms(4)
  by blast

lemma cache_ok_upd:
  assumes "cache_ok s" and "\<exists>xs. ring xs (bufs s')"
    and "\<And>i. i < NBUF \<Longrightarrow> b_dev (bufs s' ! i) = b_dev (bufs s ! i) \<and> b_blockno (bufs s' ! i) = b_blockno (bufs s ! i)"
    and "\<And>i. i < NBUF \<Longrightarrow> b_refcnt (bufs s' ! i) = 0 \<Longrightarrow> sl_locked (slocks s' (Lk_buf_sleep i)) = 0"
    and "\<And>i. i < NBUF \<Longrightarrow> b_refcnt (bufs s' ! i) = 0 \<Longrightarrow> b_valid (bufs s' ! i) \<noteq> 0 \<Longrightarrow>
      b_data (bufs s' ! i) = disk s' (sector (b_blockno (bufs s' ! i)))"
  shows "cache_ok s'"
proof -
  have "i = j" if "i < NBUF" "j < NBUF" "b_dev (bufs s' ! i) \<noteq> 0 \<and> b_dev (bufs s' ! i) = b_dev (bufs s' ! j) \<and>
      b_blockno (bufs s' ! i) = b_blockno (bufs s' ! j)" for i j
    by (rule cache_okD(2)[OF assms(1) that(1,2)]) (use that(3) assms(3)[OF that(1)] assms(3)[OF that(2)] in \<open>auto simp: is_blk_def\<close>)
  then show ?thesis using assms(2,4,5) unfolding cache_ok_def by blast
qed

text \<open>Changing the data of a held buffer.\<close>

lemma data_view:
  fixes s :: "'z bufst_scheme" and v :: block
  assumes "holds p d n b s" and "binv p d s"
  defines "s' \<equiv> s\<lparr>bufs := (bufs s)[b := (bufs s ! b)\<lparr>b_data := v\<rparr>]\<rparr>"
  shows "bframe s s'" "binv p d s'" "holds p d n b s'" "lockset s' = lockset s"
    "content s' d m = (if m = n then v else content s d m)" "refs s' d m = refs s d m" "spare s' = spare s"
    "disk s' = disk s" "dtrace s' = dtrace s" "same_held p d {} s s'"
proof -
  note h = holdsD[OF assms(1,2)] and i = binvD[OF assms(2)]
  have nth: "bufs s' ! i = (if i = b then (bufs s ! b)\<lparr>b_data := v\<rparr> else bufs s ! i)" for i
    using h(1) i(5) by (simp add: s'_def)
  obtain xs where "ring xs (bufs s)" using cache_okD(1)[OF i(2)] by blast
  then have "ring xs (bufs s')" by (rule ring_cong) (simp_all add: nth, simp add: s'_def)
  moreover have "b_refcnt (bufs s ! b) \<noteq> 0" using h(3,4) by simp
  moreover have eq: "slocks s' = slocks s" "disk s' = disk s" "hw s' = hw s" "procs s' = procs s" by (simp_all add: s'_def)
  ultimately have ok: "cache_ok s'"
    using cache_okD(3,4)[OF i(2)] by (intro cache_ok_upd[OF i(2)]) (auto simp: nth split: if_splits)
  show inv: "binv p d s'" using i(1,3,4) ok by (auto simp: binv_def sane_def idle_def nth eq)
  show hb: "holds p d n b s'" using assms(1) by (simp add: holds_def owns_def nth eq is_blk_def)
  show "content s' d m = (if m = n then v else content s d m)"
  proof (cases "m = n")
    case True
    then show ?thesis using holdsD(5)[OF hb inv] by (simp add: nth)
  next
    case False
    then have "content s' d m = content s d m"
      using h(2) by (intro content_cong) (auto simp: nth is_blk_def eq)
    then show ?thesis using False by simp
  qed
  show "refs s' d m = refs s d m" by (rule refs_cong) (simp_all add: nth)
  show "spare s' = spare s" by (simp add: spare_def nth) (rule arg_cong[where f = card], auto)
  show "same_held p d {} s s'" by (auto simp: same_held_def holds_def owns_def nth is_blk_def eq)
  show "lockset s' = lockset s" "disk s' = disk s" "dtrace s' = dtrace s" "bframe s s'"
    by (simp_all add: lockset_def s'_def bframe_def)
qed

text \<open>Writing a held buffer to the disk.\<close>

lemma bwrite_view:
  assumes "holds p d n b s" and "binv p d s" and "small n"
  obtains s' where "bwrite b s = Ret () s'" "bframe s s'" "binv p d s'" "holds p d n b s'"
    "lockset s' = lockset s" "\<And>m. small m \<Longrightarrow> content s' d m = content s d m" "\<And>m. refs s' d m = refs s d m"
    "spare s' = spare s" "disk s' = (disk s)(sector n := content s d n)"
    "dtrace s' = dtrace s @ [(sector n, content s d n)]" "same_held p d {} s s'"
proof -
  note h = holdsD[OF assms(1,2)] and i = binvD[OF assms(2)]
  define s' where "s' = s\<lparr>hw := settle (hw s), disk := (disk s)(sector n := content s d n),
    dtrace := dtrace s @ [(sector n, content s d n)]\<rparr>"
  have own: "owns p b s" using assms(1) by (simp add: holds_def)
  have blk: "b_blockno (bufs s ! b) = n" using h(2) by (simp add: is_blk_def)
  have run: "bwrite b s = Ret () s'"
    using bwrite_ok[OF i(1) own] by (simp add: s'_def blk h(5))
  have b': "bufs s' = bufs s" "slocks s' = slocks s" "procs s' = procs s" by (simp_all add: s'_def)
  have "b_data (bufs s ! j) = disk s' (sector (b_blockno (bufs s ! j)))"
    if "j < NBUF" "b_refcnt (bufs s ! j) = 0" "b_valid (bufs s ! j) \<noteq> 0" for j
  proof -
    have "j \<noteq> b" using that(2) h(3,4) by auto
    moreover have "b_dev (bufs s ! j) = d" "small (b_blockno (bufs s ! j))" using i(3) that by (simp_all add: sane_def)
    ultimately have "b_blockno (bufs s ! j) \<noteq> n" "small (b_blockno (bufs s ! j))"
      using holds_other[OF assms(1,2) that(1)] by (auto simp: is_blk_def)
    then show ?thesis
      using cache_okD(4)[OF i(2) that] sector_inj[OF _ assms(3)] by (simp add: s'_def)
  qed
  then have ok: "cache_ok s'"
    using cache_okD(1,3)[OF i(2)] by (intro cache_ok_upd[OF i(2)]) (simp_all add: b')
  have inv: "binv p d s'" using i(1,3,4) ok by (simp add: binv_def sane_def idle_def s'_def)
  have hb: "holds p d n b s'" using assms(1) by (simp add: holds_def owns_def b')
  have con: "content s' d m = content s d m" if "small m" for m
  proof (cases "m = n")
    case True
    then show ?thesis using holdsD(5)[OF hb inv] h(5) by (simp add: b')
  next
    case False
    then show ?thesis using sector_inj[OF that assms(3)] by (intro content_cong) (simp_all add: b', simp add: s'_def)
  qed
  have "refs s' d m = refs s d m" for m unfolding refs_def b' ..
  moreover have "same_held p d {} s s'" by (simp add: same_held_def holds_def owns_def b')
  ultimately show ?thesis
    using that[OF run _ inv hb _ con] by (simp add: spare_def lockset_def bframe_def b') (simp add: s'_def)
qed

text \<open>Giving back a held buffer.\<close>

lemma brelse_view:
  assumes "holds p d n b s" and "binv p d s" and "refs s d n = 1 \<Longrightarrow> content s d n = disk s (sector n)"
  obtains s' where "brelse b s = Ret () s'" "bframe s s'" "binv p d s'" "lockset s' = lockset s - {b}"
    "\<And>m. content s' d m = content s d m"
    "\<And>m. refs s' d m = (if m = n then refs s d n - 1 else refs s d m)"
    "spare s' = (if refs s d n = 1 then spare s + 1 else spare s)"
    "disk s' = disk s" "dtrace s' = dtrace s" "same_held p d {b} s s'"
proof -
  note h = holdsD[OF assms(1,2)] and i = binvD[OF assms(2)]
  have own: "owns p b s" using assms(1) by (simp add: holds_def)
  obtain s' where run: "brelse b s = Ret () s'" and g: "gave p b s s'"
    using brelse_ok[OF i(1) own cache_okD(1)[OF i(2)]] by blast
  note gd = gaveD[OF g]
  have blk: "b_blockno (bufs s ! b) = n" using h(2) by (simp add: is_blk_def)
  have k: "idle p s'" "cache_ok s'"
    using gave_keeps[OF g i(1,2) h(1)] assms(3) h(3,5) blk by simp_all
  have c: "b_valid (bufs s' ! j) = b_valid (bufs s ! j)" "b_dev (bufs s' ! j) = b_dev (bufs s ! j)"
      "b_blockno (bufs s' ! j) = b_blockno (bufs s ! j)"
      "b_refcnt (bufs s' ! j) = b_refcnt (bufs s ! j) - (if j = b then 1 else 0)" if "j < NBUF" for j
    using core_fields[OF gave_buf[OF g h(1) i(5), of j]] that by auto
  have inv: "binv p d s'" using i(3,4) k c by (simp add: binv_def sane_def)
  have fr: "bframe s s'" using g by (auto simp: bframe_def gave_def)
  have "refs s' d m = (if m = n then refs s d n - 1 else refs s d m)" for m
  proof (cases "m = n")
    case True
    have "is_blk d n (bufs s' ! b)" using h(2) c(2,3)[OF h(1)] by (simp add: is_blk_def)
    then show ?thesis using True refs_cached[OF k(2) h(1) _ i(4)] c(4)[OF h(1)] h(3) by simp
  next
    case False
    then have "refs s' d m = refs s d m"
      using c h(2) by (intro refs_cong) (auto simp: is_blk_def)
    then show ?thesis using False by simp
  qed
  moreover have "spare s' = (if refs s d n = 1 then spare s + 1 else spare s)"
  proof -
    have "{j. j < NBUF \<and> b_refcnt (bufs s' ! j) = 0} =
        (if refs s d n = 1 then insert b else id) {j. j < NBUF \<and> b_refcnt (bufs s ! j) = 0}"
    proof (rule set_eqI)
      fix j
      show "j \<in> {j. j < NBUF \<and> b_refcnt (bufs s' ! j) = 0} \<longleftrightarrow>
          j \<in> (if refs s d n = 1 then insert b else id) {j. j < NBUF \<and> b_refcnt (bufs s ! j) = 0}"
        using c(4)[of j] h(1,3,4) by (cases "j = b") auto
    qed
    moreover have "b \<notin> {j. j < NBUF \<and> b_refcnt (bufs s ! j) = 0}" using h(3,4) by simp
    ultimately show ?thesis by (simp add: spare_def)
  qed
  moreover have "lockset s' = lockset s - {b}" by (auto simp: lockset_def gd(5))
  moreover have "same_held p d {b} s s'"
  proof -
    have "holds p d m x s'" if "x \<noteq> b" "holds p d m x s" for m x
      using that gave_owns_other[OF g _ that(1) i(6)] c[of x] by (auto simp: holds_def owns_def is_blk_def)
    then show ?thesis by (simp add: same_held_def)
  qed
  ultimately show ?thesis
    using that[OF run fr inv _ gave_content[OF g i(2) h(1)] _ _ gd(3,4)] by blast
qed

text \<open>Dropping the pin of a held buffer.\<close>

lemma bunpin_view:
  assumes "holds p d n b s" and "binv p d s" and "refs s d n \<noteq> 1"
  obtains s' where "bunpin b s = Ret () s'" "bframe s s'" "binv p d s'" "holds p d n b s'"
    "lockset s' = lockset s" "\<And>m. content s' d m = content s d m"
    "\<And>m. refs s' d m = (if m = n then refs s d n - 1 else refs s d m)"
    "spare s' = spare s" "disk s' = disk s" "dtrace s' = dtrace s" "same_held p d {} s s'"
proof -
  note h = holdsD[OF assms(1,2)] and i = binvD[OF assms(2)]
  define s' where "s' = s\<lparr>hw := settle (hw s), bufs := (bufs s)[b := (bufs s ! b)\<lparr>b_refcnt := b_refcnt (bufs s ! b) - 1\<rparr>]\<rparr>"
  have run: "bunpin b s = Ret () s'"
    using idleD(1,5)[OF i(1)] by (simp add: bunpin_def lock_simps upd_buf_def s'_def)
  have nth: "bufs s' ! j = (if j = b then (bufs s ! b)\<lparr>b_refcnt := b_refcnt (bufs s ! b) - 1\<rparr> else bufs s ! j)" for j
    using h(1) i(5) by (simp add: s'_def)
  have eq: "slocks s' = slocks s" "disk s' = disk s" "dtrace s' = dtrace s" "hw s' = settle (hw s)" "procs s' = procs s"
    by (simp_all add: s'_def)
  obtain xs where "ring xs (bufs s)" using cache_okD(1)[OF i(2)] by blast
  then have "ring xs (bufs s')" by (rule ring_cong) (simp_all add: nth, simp add: s'_def)
  moreover have nz: "b_refcnt (bufs s ! b) - 1 \<noteq> 0" using assms(3) h(3) by simp
  ultimately have ok: "cache_ok s'"
    using cache_okD(3,4)[OF i(2)] by (intro cache_ok_upd[OF i(2)]) (auto simp: nth eq split: if_splits)
  have inv: "binv p d s'" using i(1,3,4) ok by (auto simp: binv_def sane_def idle_def nth eq)
  have hb: "holds p d n b s'" using assms(1) by (simp add: holds_def owns_def nth eq is_blk_def)
  have con: "content s' d m = content s d m" for m by (rule content_cong) (simp_all add: nth eq)
  have ref: "refs s' d m = (if m = n then refs s d n - 1 else refs s d m)" for m
  proof (cases "m = n")
    case True
    then show ?thesis using holdsD(3)[OF hb inv] h(3) by (simp add: nth)
  next
    case False
    then have "refs s' d m = refs s d m" using h(2) by (intro refs_cong) (auto simp: nth is_blk_def)
    then show ?thesis using False by simp
  qed
  have "{j. j < NBUF \<and> b_refcnt (bufs s' ! j) = 0} = {j. j < NBUF \<and> b_refcnt (bufs s ! j) = 0}"
    using nz h(3,4) by (auto simp: nth split: if_splits)
  then have "spare s' = spare s" by (simp add: spare_def)
  moreover have "same_held p d {} s s'" by (auto simp: same_held_def holds_def owns_def nth is_blk_def eq)
  moreover have "bframe s s'" by (simp add: bframe_def s'_def)
  ultimately show ?thesis using that[OF run _ inv hb _ con ref _ eq(2,3)] by (simp add: lockset_def eq)
qed

end
