(* ===== verification/LogDisk.thy ===== *)
theory LogDisk
  imports Log BioView
begin

text \<open>
  The log as it lies on the disk, with no cache and no code: the header, what recovery would
  make of a disk, and the order of the writes of a commit and of a recovery. The lemmas say
  what every prefix of these writes means to a later recovery.
\<close>

section \<open>Sequences of writes\<close>

type_synonym dimage = "u32 \<Rightarrow> block"

definition apply_writes :: "(u32 \<times> block) list \<Rightarrow> dimage \<Rightarrow> dimage" where
  "apply_writes ws D = fold (\<lambda>(k, v) D. D(k := v)) ws D"

lemma apply_writes_simps [simp]:
  "apply_writes [] D = D"
  "apply_writes (vs @ ws) D = apply_writes ws (apply_writes vs D)"
  "apply_writes [(k, v)] D = D(k := v)"
  by (simp_all add: apply_writes_def)

lemma apply_writes_miss: "(\<And>j. j < n \<Longrightarrow> f j \<noteq> x) \<Longrightarrow> apply_writes (map (\<lambda>j. (f j, v j)) [0..<n]) D x = D x"
  by (induction n) auto

lemma apply_writes_hit:
  assumes "i < n" and "\<And>j. j < n \<Longrightarrow> f j = f i \<Longrightarrow> j = i"
  shows "apply_writes (map (\<lambda>j. (f j, v j)) [0..<n]) D (f i) = v i"
  using assms
proof (induction n)
  case (Suc n)
  show ?case
  proof (cases "i = n")
    case False
    then have "f n \<noteq> f i" using Suc.prems(2)[of n] by auto
    then show ?thesis using Suc.IH Suc.prems False by simp
  qed simp
qed simp

section \<open>The header\<close>

lemma head_bytes_0 [simp]: "head_bytes 0 bl d = put32 d 0 0"
  by (simp add: head_bytes_def)

lemma head_fold:
  assumes "4 + 4 * n \<le> length d"
  shows "length (fold (\<lambda>i d. put32 d (4 + 4 * i) (bl ! i)) [0..<n] d) = length d"
    and "get32 (fold (\<lambda>i d. put32 d (4 + 4 * i) (bl ! i)) [0..<n] d) 0 = get32 d 0"
    and "j < n \<Longrightarrow> get32 (fold (\<lambda>i d. put32 d (4 + 4 * i) (bl ! i)) [0..<n] d) (4 + 4 * j) = bl ! j"
  using assms
proof (induction n)
  case (Suc n)
  let ?e = "fold (\<lambda>i d. put32 d (4 + 4 * i) (bl ! i)) [0..<n] d"
  { case 1 then show ?case using Suc.IH(1) by simp }
  { case 2 then show ?case using Suc.IH(1,2) by (simp add: get32_put32(2)) }
  { case 3
    show ?case
    proof (cases "j = n")
      case True
      then show ?thesis using 3 Suc.IH(1) by (simp add: get32_put32(1))
    next
      case False
      then have "get32 ?e (4 + 4 * j) = bl ! j" using 3 Suc.IH(3) by simp
      moreover have "4 + 4 * j + 4 \<le> 4 + 4 * n" using 3 False by simp
      ultimately show ?thesis using 3 Suc.IH(1) get32_put32(2)[of "4 + 4 * n" ?e "4 + 4 * j"] by simp
    qed }
qed simp_all

lemma head_bytes_get:
  assumes "0 \<le> n" and "nat n \<le> LOGBLOCKS" and "length d = BSIZE"
  shows "length (head_bytes n bl d) = BSIZE" "get32 (head_bytes n bl d) 0 = word_of_int n"
    "j < nat n \<Longrightarrow> get32 (head_bytes n bl d) (4 + 4 * j) = bl ! j"
proof -
  have l: "4 + 4 * nat n \<le> length d" "0 + 4 \<le> length d"
    using assms by (simp_all add: BSIZE_def LOGBLOCKS_def MAXOPBLOCKS_def)
  have l': "4 + 4 * nat n \<le> length (put32 d 0 (word_of_int n))" using l by simp
  show "length (head_bytes n bl d) = BSIZE" using head_fold(1)[OF l'] l assms(3) by (simp add: head_bytes_def)
  show "get32 (head_bytes n bl d) 0 = word_of_int n"
    using head_fold(2)[OF l'] get32_put32(1)[OF l(2)] by (simp add: head_bytes_def)
  show "j < nat n \<Longrightarrow> get32 (head_bytes n bl d) (4 + 4 * j) = bl ! j"
    using head_fold(3)[OF l'] by (simp add: head_bytes_def)
qed

section \<open>The area of the log\<close>

definition lslot :: "u32 \<Rightarrow> nat \<Rightarrow> u32" where "lslot ls j = ls + of_nat j + 1"

text \<open>A log area of a file system: its block numbers do not wrap around.\<close>

definition log_at :: "u32 \<Rightarrow> bool" where "log_at ls \<longleftrightarrow> unat ls + LOGBLOCKS < 2 ^ 31"

definition home :: "u32 \<Rightarrow> u32 \<Rightarrow> bool" where
  "home ls m \<longleftrightarrow> small m \<and> m \<noteq> ls \<and> (\<forall>j < LOGBLOCKS. m \<noteq> lslot ls j)"

lemma unat_lslot:
  assumes "log_at ls" and "j < LOGBLOCKS"
  shows "unat (lslot ls j) = unat ls + j + 1"
proof -
  have "lslot ls j = of_nat (unat ls + j + 1)" by (simp add: lslot_def)
  moreover have "unat ls + j + 1 < 2 ^ 31" using assms by (simp add: log_at_def)
  then have "unat (of_nat (unat ls + j + 1) :: u32) = unat ls + j + 1" 
    by (simp only: unat_of_nat) (simp add: take_bit_nat_eq_self)
  ultimately show ?thesis by simp
qed

lemma log_area:
  assumes "log_at ls" and "j < LOGBLOCKS"
  shows "small (lslot ls j)" "small ls" "lslot ls j \<noteq> ls" "k < LOGBLOCKS \<Longrightarrow> lslot ls k = lslot ls j \<Longrightarrow> k = j"
proof -
  show "small (lslot ls j)" "small ls" using unat_lslot[OF assms] assms by (simp_all add: small_def log_at_def)
  show "lslot ls j \<noteq> ls" using unat_lslot[OF assms] by (metis add.assoc add.commute le_add2 not_less_eq_eq plus_1_eq_Suc)
  show "k < LOGBLOCKS \<Longrightarrow> lslot ls k = lslot ls j \<Longrightarrow> k = j" using unat_lslot[OF assms] unat_lslot[OF assms(1), of k] by simp
qed

lemma homeD: "home ls m \<Longrightarrow> small m" "home ls m \<Longrightarrow> m \<noteq> ls" "home ls m \<Longrightarrow> j < LOGBLOCKS \<Longrightarrow> m \<noteq> lslot ls j"
  by (simp_all add: home_def)

section \<open>What recovery makes of a disk\<close>

definition hdr_n :: "u32 \<Rightarrow> dimage \<Rightarrow> int" where "hdr_n ls D = sint (get32 (D (sector ls)) 0)"
definition hdr_blk :: "u32 \<Rightarrow> dimage \<Rightarrow> nat \<Rightarrow> u32" where "hdr_blk ls D j = get32 (D (sector ls)) (4 + 4 * j)"

definition log_wf :: "u32 \<Rightarrow> dimage \<Rightarrow> bool" where
  "log_wf ls D \<longleftrightarrow> log_at ls \<and> length (D (sector ls)) = BSIZE \<and> 0 \<le> hdr_n ls D \<and> nat (hdr_n ls D) \<le> LOGBLOCKS \<and>
     (\<forall>j < nat (hdr_n ls D). home ls (hdr_blk ls D j)) \<and>
     (\<forall>i < nat (hdr_n ls D). \<forall>j < nat (hdr_n ls D). hdr_blk ls D i = hdr_blk ls D j \<longrightarrow> i = j)"

lemma log_wfD:
  assumes "log_wf ls D"
  shows "log_at ls" "length (D (sector ls)) = BSIZE" "0 \<le> hdr_n ls D" "nat (hdr_n ls D) \<le> LOGBLOCKS"
    "\<And>j. j < nat (hdr_n ls D) \<Longrightarrow> home ls (hdr_blk ls D j)"
    "\<And>i j. i < nat (hdr_n ls D) \<Longrightarrow> j < nat (hdr_n ls D) \<Longrightarrow> hdr_blk ls D i = hdr_blk ls D j \<Longrightarrow> i = j"
  using assms by (simp_all add: log_wf_def)

definition rview :: "u32 \<Rightarrow> dimage \<Rightarrow> u32 \<Rightarrow> block" where
  "rview ls D m = (case find (\<lambda>j. hdr_blk ls D j = m) [0..<nat (hdr_n ls D)] of
     Some j \<Rightarrow> D (sector (lslot ls j)) | None \<Rightarrow> D (sector m))"

lemma rview_hit:
  assumes "log_wf ls D" and "j < nat (hdr_n ls D)"
  shows "rview ls D (hdr_blk ls D j) = D (sector (lslot ls j))"
proof -
  have "find (\<lambda>i. hdr_blk ls D i = hdr_blk ls D j) [0..<nat (hdr_n ls D)] = Some j"
    using assms(2) log_wfD(6)[OF assms(1) _ assms(2)] by (intro find_unique) auto
  then show ?thesis by (simp add: rview_def)
qed

lemma rview_miss: "(\<And>j. j < nat (hdr_n ls D) \<Longrightarrow> hdr_blk ls D j \<noteq> m) \<Longrightarrow> rview ls D m = D (sector m)"
  using find_none[of "[0..<nat (hdr_n ls D)]" "\<lambda>j. hdr_blk ls D j = m"] by (simp add: rview_def)

section \<open>Prefixes of the writes of a recovery\<close>

definition home_writes :: "u32 \<Rightarrow> dimage \<Rightarrow> (u32 \<times> block) list" where
  "home_writes ls D = map (\<lambda>j. (sector (hdr_blk ls D j), D (sector (lslot ls j)))) [0..<nat (hdr_n ls D)]"

definition rec_writes :: "u32 \<Rightarrow> dimage \<Rightarrow> (u32 \<times> block) list" where
  "rec_writes ls D = home_writes ls D @ [(sector ls, head_bytes 0 [] (D (sector ls)))]"

lemma home_prefix:
  assumes "log_wf ls D" and "k \<le> nat (hdr_n ls D)"
  shows "take k (home_writes ls D) = map (\<lambda>j. (sector (hdr_blk ls D j), D (sector (lslot ls j)))) [0..<k]"
  using assms(2) by (simp add: home_writes_def take_map)

lemma home_prefix_at:
  assumes "log_wf ls D" and "k \<le> nat (hdr_n ls D)"
  defines "D' \<equiv> apply_writes (take k (home_writes ls D)) D"
  shows "D' (sector ls) = D (sector ls)" "j < LOGBLOCKS \<Longrightarrow> D' (sector (lslot ls j)) = D (sector (lslot ls j))"
    "i < k \<Longrightarrow> D' (sector (hdr_blk ls D i)) = D (sector (lslot ls i))"
    "small m \<Longrightarrow> (\<And>j. j < k \<Longrightarrow> hdr_blk ls D j \<noteq> m) \<Longrightarrow> D' (sector m) = D (sector m)"
proof -
  note w = log_wfD[OF assms(1)]
  have D': "D' = apply_writes (map (\<lambda>j. (sector (hdr_blk ls D j), D (sector (lslot ls j)))) [0..<k]) D"
    by (simp add: D'_def home_prefix[OF assms(1,2)])
  have h: "home ls (hdr_blk ls D j)" if "j < k" for j using w(5) that assms(2) by simp
  have sm: "small (hdr_blk ls D j)" if "j < k" for j using homeD(1)[OF h[OF that]] .
  have miss: "D' (sector m) = D (sector m)" if "small m" "\<And>j. j < k \<Longrightarrow> hdr_blk ls D j \<noteq> m" for m
    unfolding D' using that sm by (intro apply_writes_miss) (simp add: sector_inj)
  then show "small m \<Longrightarrow> (\<And>j. j < k \<Longrightarrow> hdr_blk ls D j \<noteq> m) \<Longrightarrow> D' (sector m) = D (sector m)" by blast
  show "D' (sector ls) = D (sector ls)"
    using miss[of ls] h homeD(2) log_area(2)[OF w(1), of 0] by (force simp: LOGBLOCKS_def MAXOPBLOCKS_def)
  show "j < LOGBLOCKS \<Longrightarrow> D' (sector (lslot ls j)) = D (sector (lslot ls j))"
    using miss[of "lslot ls j"] h homeD(3) log_area(1)[OF w(1), of j] by metis
  show "i < k \<Longrightarrow> D' (sector (hdr_blk ls D i)) = D (sector (lslot ls i))"
  proof -
    assume i: "i < k"
    have "j = i" if "j < k" "sector (hdr_blk ls D j) = sector (hdr_blk ls D i)" for j
      using that i sm w(6)[of j i] assms(2) by (simp add: sector_inj)
    then show ?thesis unfolding D' by (intro apply_writes_hit[OF i, of "\<lambda>j. sector (hdr_blk ls D j)"])
  qed
qed

text \<open>However far a recovery gets, the next one ends with the same home blocks.\<close>

lemma rec_prefix:
  fixes k :: nat
  assumes "log_wf ls D"
  defines "D' \<equiv> apply_writes (take k (rec_writes ls D)) D"
  shows "log_wf ls D'" "home ls m \<Longrightarrow> rview ls D' m = rview ls D m"
    "k > nat (hdr_n ls D) \<Longrightarrow> hdr_n ls D' = 0"
proof -
  note w = log_wfD[OF assms(1)]
  let ?n = "nat (hdr_n ls D)"
  have len: "length (home_writes ls D) = ?n" by (simp add: home_writes_def)
  show "log_wf ls D'" "home ls m \<Longrightarrow> rview ls D' m = rview ls D m" "k > ?n \<Longrightarrow> hdr_n ls D' = 0"
  proof -
    consider "k \<le> ?n" | "k > ?n" by linarith
    then have "log_wf ls D' \<and> (home ls m \<longrightarrow> rview ls D' m = rview ls D m) \<and> (k > ?n \<longrightarrow> hdr_n ls D' = 0)"
    proof cases
      case 1
      then have D': "D' = apply_writes (take k (home_writes ls D)) D" by (simp add: D'_def rec_writes_def len)
      note h = home_prefix_at[OF assms(1) 1, folded D']
      have hd: "hdr_n ls D' = hdr_n ls D" "hdr_blk ls D' = hdr_blk ls D" by (simp_all add: hdr_n_def hdr_blk_def h(1) fun_eq_iff)
      have wf: "log_wf ls D'" using assms(1) by (simp add: log_wf_def hd h(1))
      have "rview ls D' m = rview ls D m" if "home ls m"
      proof (cases "\<exists>j < ?n. hdr_blk ls D j = m")
        case True
        then obtain j where j: "j < ?n" "hdr_blk ls D j = m" by blast
        then show ?thesis using rview_hit[OF assms(1) j(1)] rview_hit[OF wf, of j] h(2)[of j] w(4) by (simp add: hd)
      next
        case False
        then have "rview ls D m = D (sector m)" "rview ls D' m = D' (sector m)" by (auto intro!: rview_miss simp: hd)
        then show ?thesis using h(4)[of m] False 1 homeD(1)[OF that] by force
      qed
      then show ?thesis using wf 1 by simp
    next
      case 2
      then have D': "D' = (apply_writes (take ?n (home_writes ls D)) D)(sector ls := head_bytes 0 [] (D (sector ls)))"
        by (simp add: D'_def rec_writes_def len)
      note h = home_prefix_at[OF assms(1) le_refl]
      have n0: "hdr_n ls D' = 0" "length (D' (sector ls)) = BSIZE"
        using head_bytes_get[of 0 "D (sector ls)"] w(2) by (simp_all add: hdr_n_def D')
      have wf: "log_wf ls D'" using w(1) n0 by (simp add: log_wf_def)
      have "rview ls D' m = rview ls D m" if m: "home ls m"
      proof -
        have ne: "sector m \<noteq> sector ls"
          using sector_inj homeD(1,2)[OF m] log_area(2)[OF w(1), of 0] by (simp add: LOGBLOCKS_def MAXOPBLOCKS_def)
        have "rview ls D' m = D' (sector m)" by (rule rview_miss) (simp add: n0)
        moreover have "D' (sector m) = rview ls D m"
        proof (cases "\<exists>j < ?n. hdr_blk ls D j = m")
          case True
          then obtain j where j: "j < ?n" "hdr_blk ls D j = m" by blast
          then show ?thesis using rview_hit[OF assms(1) j(1)] h(3)[OF j(1)] ne by (simp add: D')
        next
          case False
          then show ?thesis using rview_miss[of ls D m] h(4)[of m] homeD(1)[OF m] ne by (auto simp: D')
        qed
        ultimately show ?thesis by simp
      qed
      then show ?thesis using wf n0 by simp
    qed
    then show "log_wf ls D'" "home ls m \<Longrightarrow> rview ls D' m = rview ls D m" "k > ?n \<Longrightarrow> hdr_n ls D' = 0" by simp_all
  qed
qed

section \<open>Prefixes of the writes of a commit\<close>

definition log_part :: "u32 \<Rightarrow> dimage \<Rightarrow> nat \<Rightarrow> u32 list \<Rightarrow> (nat \<Rightarrow> block) \<Rightarrow> (u32 \<times> block) list" where
  "log_part ls D n bl v = map (\<lambda>j. (sector (lslot ls j), v j)) [0..<n] @ [(sector ls, head_bytes (int n) bl (D (sector ls)))]"

definition commit_writes :: "u32 \<Rightarrow> dimage \<Rightarrow> nat \<Rightarrow> u32 list \<Rightarrow> (nat \<Rightarrow> block) \<Rightarrow> (u32 \<times> block) list" where
  "commit_writes ls D n bl v = log_part ls D n bl v @ rec_writes ls (apply_writes (log_part ls D n bl v) D)"

lemma log_slots_at:
  fixes D :: dimage and v :: "nat \<Rightarrow> block"
  assumes "log_at ls" and "k \<le> LOGBLOCKS"
  defines "D' \<equiv> apply_writes (map (\<lambda>j. (sector (lslot ls j), v j)) [0..<k]) D"
  shows "D' (sector ls) = D (sector ls)" "home ls m \<Longrightarrow> D' (sector m) = D (sector m)" "j < k \<Longrightarrow> D' (sector (lslot ls j)) = v j"
proof -
  have a: "small (lslot ls j)" "small ls" "lslot ls j \<noteq> ls" if "j < k" for j
    using log_area(1-3)[OF assms(1), of j] that assms(2) by simp_all
  show "D' (sector ls) = D (sector ls)"
    unfolding D'_def using a by (intro apply_writes_miss) (simp add: sector_inj)
  show "home ls m \<Longrightarrow> D' (sector m) = D (sector m)"
  proof -
    assume m: "home ls m"
    have "sector (lslot ls j) \<noteq> sector m" if "j < k" for j
      using sector_inj[OF a(1)[OF that] homeD(1)[OF m]] homeD(3)[OF m, of j] that assms(2) by simp
    then show ?thesis unfolding D'_def by (intro apply_writes_miss)
  qed
  show "j < k \<Longrightarrow> D' (sector (lslot ls j)) = v j"
  proof -
    assume j: "j < k"
    have "i = j" if "i < k" "sector (lslot ls i) = sector (lslot ls j)" for i
      using that sector_inj[OF a(1)[OF that(1)] a(1)[OF j]] log_area(4)[OF assms(1), of j i] j assms(2) by simp
    then show ?thesis unfolding D'_def by (intro apply_writes_hit[OF j, of "\<lambda>j. sector (lslot ls j)"])
  qed
qed

lemma log_part_done:
  fixes bl :: "u32 list" and v :: "nat \<Rightarrow> block"
  assumes "log_wf ls D" and "n \<le> LOGBLOCKS" and "\<forall>j < n. home ls (bl ! j)"
    and "\<forall>i < n. \<forall>j < n. bl ! i = bl ! j \<longrightarrow> i = j"
  defines "D' \<equiv> apply_writes (log_part ls D n bl v) D"
  shows "log_wf ls D'" "hdr_n ls D' = int n" "j < n \<Longrightarrow> hdr_blk ls D' j = bl ! j"
    "j < n \<Longrightarrow> D' (sector (lslot ls j)) = v j" "home ls m \<Longrightarrow> D' (sector m) = D (sector m)"
    "j < n \<Longrightarrow> rview ls D' (bl ! j) = v j" "home ls m \<Longrightarrow> m \<notin> set (take n bl) \<Longrightarrow> n \<le> length bl \<Longrightarrow> rview ls D' m = D (sector m)"
proof -
  note w = log_wfD[OF assms(1)] and a = log_slots_at[OF log_wfD(1)[OF assms(1)] assms(2), where v = v and D = D]
  note hb = head_bytes_get[where n = "int n" and d = "D (sector ls)" and bl = bl, simplified, OF assms(2) w(2)]
  have sl: "small ls" using log_area(2)[OF w(1), of 0] by (simp add: LOGBLOCKS_def MAXOPBLOCKS_def)
  have D': "D' = (apply_writes (map (\<lambda>j. (sector (lslot ls j), v j)) [0..<n]) D)(sector ls := head_bytes (int n) bl (D (sector ls)))"
    by (simp add: D'_def log_part_def)
  have "sint (of_nat n :: u32) = int n"
    using assms(2) by (simp add: signed_of_nat signed_take_bit_int_eq_self LOGBLOCKS_def MAXOPBLOCKS_def)
  then show n: "hdr_n ls D' = int n" by (simp add: hdr_n_def D' hb(2))
  show b: "j < n \<Longrightarrow> hdr_blk ls D' j = bl ! j" for j by (simp add: hdr_blk_def D' hb(3))
  have "\<forall>j < nat (hdr_n ls D'). home ls (hdr_blk ls D' j)" using n b assms(3) by simp
  moreover have "i = j" if "i < nat (hdr_n ls D')" "j < nat (hdr_n ls D')" "hdr_blk ls D' i = hdr_blk ls D' j" for i j
    using that n b assms(4) by simp
  moreover have "length (D' (sector ls)) = BSIZE" by (simp add: D' hb(1))
  moreover have "0 \<le> hdr_n ls D'" "nat (hdr_n ls D') \<le> LOGBLOCKS" using n assms(2) by simp_all
  ultimately show wf: "log_wf ls D'" unfolding log_wf_def using w(1) by blast
  show s: "j < n \<Longrightarrow> D' (sector (lslot ls j)) = v j" for j
    using a(3) sector_inj[OF log_area(1)[OF w(1), of j] sl] log_area(3)[OF w(1), of j] assms(2) by (simp add: D')
  show h: "home ls m \<Longrightarrow> D' (sector m) = D (sector m)" for m
    using a(2) sector_inj[OF homeD(1)[of ls m] sl] homeD(2)[of ls m] by (simp add: D')
  show "j < n \<Longrightarrow> rview ls D' (bl ! j) = v j" using rview_hit[OF wf, of j] n b s by simp
  show "home ls m \<Longrightarrow> m \<notin> set (take n bl) \<Longrightarrow> n \<le> length bl \<Longrightarrow> rview ls D' m = D (sector m)"
    using rview_miss[of ls D' m] n b h by (fastforce simp: in_set_conv_nth)
qed

text \<open>Every prefix of a commit means the old disk to a recovery, or the new contents.\<close>

lemma commit_prefix:
  fixes bl :: "u32 list" and k :: nat
  assumes "log_wf ls D" and "hdr_n ls D = 0" and "n \<le> LOGBLOCKS" "n \<le> length bl" and "\<forall>j < n. home ls (bl ! j)"
    and "\<forall>i < n. \<forall>j < n. bl ! i = bl ! j \<longrightarrow> i = j"
    and "\<And>m. home ls m \<Longrightarrow> m \<notin> set (take n bl) \<Longrightarrow> new m = D (sector m)"
  defines "D' \<equiv> apply_writes (take k (commit_writes ls D n bl (\<lambda>j. new (bl ! j)))) D"
  shows "log_wf ls D'"
    "(k \<le> n \<longrightarrow> (\<forall>m. home ls m \<longrightarrow> rview ls D' m = D (sector m))) \<and>
     (k > n \<longrightarrow> (\<forall>m. home ls m \<longrightarrow> rview ls D' m = new m))"
proof -
  let ?v = "\<lambda>j. new (bl ! j)"
  note c = log_part_done[OF assms(1,3,5,6), where v = ?v]
  have len: "length (log_part ls D n bl ?v) = Suc n" by (simp add: log_part_def)
  have "log_wf ls D' \<and> (k \<le> n \<longrightarrow> (\<forall>m. home ls m \<longrightarrow> rview ls D' m = D (sector m))) \<and>
     (k > n \<longrightarrow> (\<forall>m. home ls m \<longrightarrow> rview ls D' m = new m))"
  proof (cases "k \<le> n")
    case True
    then have D': "D' = apply_writes (map (\<lambda>j. (sector (lslot ls j), ?v j)) [0..<k]) D"
      by (simp add: D'_def commit_writes_def log_part_def take_map)
    note a = log_slots_at[OF log_wfD(1)[OF assms(1)], where k = k and v = ?v and D = D, folded D']
    have "hdr_n ls D' = 0" "D' (sector ls) = D (sector ls)" using a(1) True assms(2,3) by (simp_all add: hdr_n_def)
    then show ?thesis using assms(1) a(2) True assms(3) rview_miss[of ls D'] by (simp add: log_wf_def)
  next
    case False
    let ?D = "apply_writes (log_part ls D n bl ?v) D"
    have D': "D' = apply_writes (take (k - Suc n) (rec_writes ls ?D)) ?D"
      using False by (simp add: D'_def commit_writes_def len)
    note r = rec_prefix[OF c(1), where k = "k - Suc n", folded D']
    have "rview ls ?D m = new m" if m: "home ls m" for m
    proof (cases "m \<in> set (take n bl)")
      case True
      then obtain j where "j < n" "m = bl ! j" using assms(4) by (auto simp: in_set_conv_nth)
      then show ?thesis by (simp only: c(6))
    next
      case no: False
      show ?thesis by (simp only: c(7)[OF m no assms(4)] assms(7)[OF m no])
    qed
    then show ?thesis using False r by simp
  qed
  then show "log_wf ls D'" "(k \<le> n \<longrightarrow> (\<forall>m. home ls m \<longrightarrow> rview ls D' m = D (sector m))) \<and>
     (k > n \<longrightarrow> (\<forall>m. home ls m \<longrightarrow> rview ls D' m = new m))" by simp_all
qed

end
