(* ===== verification/LogSpec.thy ===== *)
theory LogSpec
  imports LogDisk
begin

text \<open>
  Crash safety of the log. The steps of \<open>commit\<close> and of the recovery are described by their
  effect on the view of the buffer cache and by the disk writes they make, in order. Whatever
  prefix of the writes of a commit reaches the disk before a crash, recovery brings the disk to
  the state before the transaction or to the state after it.
\<close>

section \<open>Copying one block\<close>

definition quiet :: "nat \<Rightarrow> u32 \<Rightarrow> 'z bufst_scheme \<Rightarrow> bool" where
  "quiet p d s \<longleftrightarrow> binv p d s \<and> lockset s = {}"

lemma bframe_lg: "bframe s s' \<Longrightarrow> lg s' = lg s"
proof -
  assume "bframe s s'"
  then have "s' = s\<lparr>hw := hw s', procs := procs s', slocks := slocks s', bufs := bufs s', disk := disk s', dtrace := dtrace s'\<rparr>"
    by (simp add: bframe_def)
  from arg_cong[OF this, of lg] show ?thesis by simp
qed

lemma bframe_tty: "bframe s s' \<Longrightarrow> tty_ok (hw s) \<Longrightarrow> tty_ok (hw s')"
  by (simp add: bframe_def)

lemma lg_consts: "lg t = lg s \<Longrightarrow> log_dev t = log_dev s \<and> log_slot t = log_slot s"
  by (simp add: log_dev_def log_slot_def fun_eq_iff)

text \<open>The second of two blocks is not in the buffer of the first.\<close>

lemma second_free:
  assumes "holds p d a ba s" and "lockset s = {ba}" and "a \<noteq> b" and "is_blk d b (bufs s ! i)"
  shows "i \<notin> lockset s"
  using assms by (auto simp: holds_def is_blk_def)

lemma word_plus1: "(x :: u32) + 1 = 1 \<longleftrightarrow> x = 0"
  by simp

definition copied_blk :: "u32 \<Rightarrow> u32 \<Rightarrow> u32 \<Rightarrow> 'z bufst_scheme \<Rightarrow> 'z bufst_scheme \<Rightarrow> bool" where
  "copied_blk d a b s s' \<longleftrightarrow> bframe s s' \<and>
     (\<forall>m. small m \<longrightarrow> content s' d m = (if m = b then content s d a else content s d m)) \<and>
     disk s' = (disk s)(sector b := content s d a) \<and> dtrace s' = dtrace s @ [(sector b, content s d a)]"

lemma write_one_ok:
  assumes "quiet p (log_dev s) s" and "small (log_slot s tail)" and "small (lg_block (lg s) ! tail)"
    and "log_slot s tail \<noteq> lg_block (lg s) ! tail"
    and "refs s (log_dev s) (lg_block (lg s) ! tail) \<noteq> 0" and "refs s (log_dev s) (lg_block (lg s) ! tail) + 1 \<noteq> 0"
    and "refs s (log_dev s) (log_slot s tail) + 1 \<noteq> 0" and "0 < spare s"
  shows "\<exists>s'. write_one tail s = Ret () s' \<and> quiet p (log_dev s) s' \<and>
    copied_blk (log_dev s) (lg_block (lg s) ! tail) (log_slot s tail) s s' \<and>
    (\<forall>m. refs s' (log_dev s) m = refs s (log_dev s) m) \<and> spare s' = spare s"
proof -
  define d a b where "d = log_dev s" and "a = lg_block (lg s) ! tail" and "b = log_slot s tail"
  note A = assms[folded d_def a_def b_def, unfolded quiet_def]
  have 0: "binv p d s" "i \<notin> lockset s" "refs s d b \<noteq> 0 \<or> 0 < spare s" for i
    using A(1,8) by simp_all
  obtain tb s1 where 1: "bread d b s = Ret tb s1" "bframe s s1" "binv p d s1" "holds p d b tb s1" "tb \<notin> lockset s"
    "lockset s1 = insert tb (lockset s)" "\<And>m. content s1 d m = content s d m"
    "\<And>m. refs s1 d m = (if m = b then refs s d b + 1 else refs s d m)"
    "spare s1 = (if refs s d b = 0 then spare s - 1 else spare s)" "disk s1 = disk s" "dtrace s1 = dtrace s"
    "same_held p d {} s s1"
    by (rule bread_view[OF 0(1) A(2) 0(2) A(7) 0(3)], rule that)
  have lk1: "lockset s1 = {tb}" using 1(6) A(1) by simp
  have r1: "refs s1 d a + 1 \<noteq> 0" "refs s1 d a \<noteq> 0 \<or> 0 < spare s1" using 1(8) A(4,5,6) by auto
  have f1: "i \<notin> lockset s1" if "i < NBUF" "is_blk d a (bufs s1 ! i)" for i
    using second_free[OF 1(4) lk1 A(4) that(2)] .
  obtain fb s2 where 2: "bread d a s1 = Ret fb s2" "bframe s1 s2" "binv p d s2" "holds p d a fb s2" "fb \<notin> lockset s1"
    "lockset s2 = insert fb (lockset s1)" "\<And>m. content s2 d m = content s1 d m"
    "\<And>m. refs s2 d m = (if m = a then refs s1 d a + 1 else refs s1 d m)"
    "spare s2 = (if refs s1 d a = 0 then spare s1 - 1 else spare s1)" "disk s2 = disk s1" "dtrace s2 = dtrace s1"
    "same_held p d {} s1 s2"
    by (rule bread_view[OF 1(3) A(3) _ r1], erule (1) f1, rule that)
  have h2: "holds p d b tb s2" using same_heldD[OF 2(12) 1(4)] by simp
  define s3 where "s3 = s2\<lparr>bufs := (bufs s2)[tb := (bufs s2 ! tb)\<lparr>b_data := b_data (bufs s2 ! fb)\<rparr>]\<rparr>"
  have src: "b_data (bufs s2 ! fb) = content s d a" using holdsD(5)[OF 2(4,3)] 2(7) 1(7) by simp
  note 3 = data_view[OF h2 2(3), of "b_data (bufs s2 ! fb)", folded s3_def, unfolded src]
  obtain s4 where 4: "bwrite tb s3 = Ret () s4" "bframe s3 s4" "binv p d s4" "holds p d b tb s4" "lockset s4 = lockset s3"
    "\<And>m. small m \<Longrightarrow> content s4 d m = content s3 d m" "\<And>m. refs s4 d m = refs s3 d m" "spare s4 = spare s3"
    "disk s4 = (disk s3)(sector b := content s3 d b)" "dtrace s4 = dtrace s3 @ [(sector b, content s3 d b)]"
    "same_held p d {} s3 s4"
    by (rule bwrite_view[OF 3(3,2) A(2)], rule that)
  have h4: "holds p d a fb s4" using same_heldD[OF 4(11) same_heldD[OF 3(10) 2(4)]] by simp
  have r4: "refs s4 d m = (if m = a then refs s d a + 1 else if m = b then refs s d b + 1 else refs s d m)" for m
    using 4(7) 3(6) 2(8) 1(8) A(4) by auto
  have "refs s4 d a \<noteq> 1" using r4 A(5) by (simp add: word_plus1)
  then have ca: "refs s4 d a = 1 \<Longrightarrow> content s4 d a = disk s4 (sector a)" by simp
  obtain s5 where 5: "brelse fb s4 = Ret () s5" "bframe s4 s5" "binv p d s5" "lockset s5 = lockset s4 - {fb}"
    "\<And>m. content s5 d m = content s4 d m" "\<And>m. refs s5 d m = (if m = a then refs s4 d a - 1 else refs s4 d m)"
    "spare s5 = (if refs s4 d a = 1 then spare s4 + 1 else spare s4)" "disk s5 = disk s4" "dtrace s5 = dtrace s4"
    "same_held p d {fb} s4 s5"
    by (rule brelse_view[OF h4 4(3)], erule ca, rule that)
  have ne: "tb \<noteq> fb" using 2(5) lk1 by auto
  have h5: "holds p d b tb s5" using same_heldD[OF 5(10) 4(4)] ne by simp
  have cb: "content s5 d b = disk s5 (sector b)" using 5(5,8) 4(6)[OF A(2)] 4(9) by simp
  obtain s6 where 6: "brelse tb s5 = Ret () s6" "bframe s5 s6" "binv p d s6" "lockset s6 = lockset s5 - {tb}"
    "\<And>m. content s6 d m = content s5 d m" "\<And>m. refs s6 d m = (if m = b then refs s5 d b - 1 else refs s5 d m)"
    "spare s6 = (if refs s5 d b = 1 then spare s5 + 1 else spare s5)" "disk s6 = disk s5" "dtrace s6 = dtrace s5"
    "same_held p d {tb} s5 s6"
    by (rule brelse_view[OF h5 5(3) cb], rule that)
  have fr: "bframe s s6"
    using bframe_trans[OF bframe_trans[OF bframe_trans[OF bframe_trans[OF bframe_trans[OF 1(2) 2(2)] 3(1)] 4(2)] 5(2)] 6(2)] .
  have l1: "log_dev s1 = d" "lg_block (lg s1) ! tail = a"
    using bframe_lg[OF 1(2)] lg_consts[of s1 s] by (simp_all add: d_def a_def)
  have run: "write_one tail s = Ret () s6"
    using 1(1) 2(1) 4(1) 5(1) 6(1) l1 src
    by (simp add: write_one_def d_def[symmetric] a_def[symmetric] b_def[symmetric] upd_buf_def Let_def s3_def)
  have "lockset s6 = {}" using 6(4) 5(4) 4(5) 3(4) 2(6) lk1 by auto
  moreover have "spare s6 = spare s"
    using 6(7) 5(6,7) r4 4(8) 3(7) 2(9) 1(8,9) A(4,5,8) by (auto simp: word_plus1)
  moreover have "refs s6 d m = refs s d m" for m using 6(6) 5(6) r4 A(4) by auto
  moreover have "copied_blk d a b s s6"
    using fr 6(5,8,9) 5(5,8,9) 4(6,9,10) 3(5,8,9) 2(7,10,11) 1(7,10,11) by (simp add: copied_blk_def)
  ultimately show ?thesis using run 6(3) by (auto simp: quiet_def d_def a_def b_def)
qed

lemma content_clean:
  assumes "binv p d s" and "refs s d n = 0"
  shows "content s d n = disk s (sector n)"
proof (cases "\<exists>i < NBUF. is_blk d n (bufs s ! i)")
  case True
  then obtain i where i: "i < NBUF" "is_blk d n (bufs s ! i)" by blast
  note b = binvD[OF assms(1)]
  have "b_refcnt (bufs s ! i) = 0" using refs_cached[OF b(2) i b(4)] assms(2) by simp
  then show ?thesis
    using content_cached[OF b(2) i b(4)] cache_okD(4)[OF b(2) i(1)] i(2) by (simp add: is_blk_def)
next
  case False
  then show ?thesis by (intro content_uncached) blast
qed

lemma install_copy:
  fixes s :: "'z logst_scheme" and pin :: bool
  assumes "quiet p d s" and "log_dev s = d" and "lg_block (lg s) ! tail = b"
    and "small a" and "small b" and "a \<noteq> b" and "refs s d a = 0" and "refs s d b + 1 \<noteq> 0"
    and "0 < spare s" and "pin \<Longrightarrow> refs s d b \<noteq> 0" and "\<not> pin \<Longrightarrow> refs s d b = 0 \<and> 1 < spare s"
  shows "\<exists>s'. bindr (bread d a s) (\<lambda>lbuf s.
     bindr (bread (log_dev s) (lg_block (lg s) ! tail) s) (\<lambda>dbuf s.
     let s = upd_data dbuf (\<lambda>_. b_data (bufs s ! lbuf)) s in
     bindr (bwrite dbuf s) (\<lambda>_ s.
     bindr (if pin then bunpin dbuf s else Ret () s) (\<lambda>_ s.
     bindr (brelse lbuf s) (\<lambda>_ s.
     brelse dbuf s))))) = Ret () s' \<and> quiet p d s' \<and> copied_blk d a b s s' \<and>
    (\<forall>m. refs s' d m = (if pin \<and> m = b then refs s d b - 1 else refs s d m)) \<and> spare s \<le> spare s'"
proof -
  note A = assms(1)[unfolded quiet_def]
  have 0: "i \<notin> lockset s" "refs s d a + 1 \<noteq> 0" "refs s d a \<noteq> 0 \<or> 0 < spare s" for i
    using A assms(7,9) by simp_all
  obtain lb s1 where 1: "bread d a s = Ret lb s1" "bframe s s1" "binv p d s1" "holds p d a lb s1" "lb \<notin> lockset s"
    "lockset s1 = insert lb (lockset s)" "\<And>m. content s1 d m = content s d m"
    "\<And>m. refs s1 d m = (if m = a then refs s d a + 1 else refs s d m)"
    "spare s1 = (if refs s d a = 0 then spare s - 1 else spare s)" "disk s1 = disk s" "dtrace s1 = dtrace s"
    "same_held p d {} s s1"
    by (rule bread_view[OF conjunct1[OF A] assms(4) 0], rule that)
  have lk1: "lockset s1 = {lb}" using 1(6) A by simp
  have r1: "refs s1 d b + 1 \<noteq> 0" "refs s1 d b \<noteq> 0 \<or> 0 < spare s1" using 1(8,9) assms(6-11) by auto
  have f1: "i \<notin> lockset s1" if "i < NBUF" "is_blk d b (bufs s1 ! i)" for i
    using second_free[OF 1(4) lk1 assms(6) that(2)] .
  obtain db s2 where 2: "bread d b s1 = Ret db s2" "bframe s1 s2" "binv p d s2" "holds p d b db s2" "db \<notin> lockset s1"
    "lockset s2 = insert db (lockset s1)" "\<And>m. content s2 d m = content s1 d m"
    "\<And>m. refs s2 d m = (if m = b then refs s1 d b + 1 else refs s1 d m)"
    "spare s2 = (if refs s1 d b = 0 then spare s1 - 1 else spare s1)" "disk s2 = disk s1" "dtrace s2 = dtrace s1"
    "same_held p d {} s1 s2"
    by (rule bread_view[OF 1(3) assms(5) _ r1], erule (1) f1, rule that)
  have h2: "holds p d a lb s2" using same_heldD[OF 2(12) 1(4)] by simp
  define s3 where "s3 = s2\<lparr>bufs := (bufs s2)[db := (bufs s2 ! db)\<lparr>b_data := b_data (bufs s2 ! lb)\<rparr>]\<rparr>"
  have src: "b_data (bufs s2 ! lb) = content s d a" using holdsD(5)[OF h2 2(3)] 2(7) 1(7) by simp
  note 3 = data_view[OF 2(4) 2(3), of "b_data (bufs s2 ! lb)", folded s3_def, unfolded src]
  obtain s4 where 4: "bwrite db s3 = Ret () s4" "bframe s3 s4" "binv p d s4" "holds p d b db s4" "lockset s4 = lockset s3"
    "\<And>m. small m \<Longrightarrow> content s4 d m = content s3 d m" "\<And>m. refs s4 d m = refs s3 d m" "spare s4 = spare s3"
    "disk s4 = (disk s3)(sector b := content s3 d b)" "dtrace s4 = dtrace s3 @ [(sector b, content s3 d b)]"
    "same_held p d {} s3 s4"
    by (rule bwrite_view[OF 3(3,2) assms(5)], rule that)
  have h4: "holds p d a lb s4" using same_heldD[OF 4(11) same_heldD[OF 3(10) h2]] by simp
  have r4: "refs s4 d m = (if m = b then refs s d b + 1 else if m = a then 1 else refs s d m)" for m
    using 4(7) 3(6) 2(8) 1(8) assms(6,7) by auto
  obtain s5 where 5: "(if pin then bunpin db s4 else Ret () s4) = Ret () s5" "bframe s4 s5" "binv p d s5" "holds p d b db s5"
    "lockset s5 = lockset s4" "\<And>m. content s5 d m = content s4 d m"
    "\<And>m. refs s5 d m = (if pin \<and> m = b then refs s4 d b - 1 else refs s4 d m)"
    "spare s5 = spare s4" "disk s5 = disk s4" "dtrace s5 = dtrace s4" "holds p d a lb s5"
  proof (cases pin)
    case True
    then have "refs s4 d b \<noteq> 1" using r4 assms(10) by simp
    from bunpin_view[OF 4(4,3) this] show ?thesis using that True same_heldD[OF _ h4] by (metis empty_iff)
  next
    case False
    show ?thesis by (rule that[of s4]) (use False 4 h4 in simp_all)
  qed
  have ra: "refs s5 d a = 1" "content s5 d a = disk s5 (sector a)"
    using 5(6,7,9) r4 assms(6) 4(6)[OF assms(4)] 4(9) 3(5,8) 2(7,10) 1(7,10) sector_inj[OF assms(4,5)]
      content_clean[OF conjunct1[OF A] assms(7)] by simp_all
  obtain s6 where 6: "brelse lb s5 = Ret () s6" "bframe s5 s6" "binv p d s6" "lockset s6 = lockset s5 - {lb}"
    "\<And>m. content s6 d m = content s5 d m" "\<And>m. refs s6 d m = (if m = a then refs s5 d a - 1 else refs s5 d m)"
    "spare s6 = (if refs s5 d a = 1 then spare s5 + 1 else spare s5)" "disk s6 = disk s5" "dtrace s6 = dtrace s5"
    "same_held p d {lb} s5 s6"
    by (rule brelse_view[OF 5(11,3) ra(2)], rule that)
  have ne: "db \<noteq> lb" using 2(5) lk1 by auto
  have h6: "holds p d b db s6" using same_heldD[OF 6(10) 5(4)] ne by simp
  have cb: "content s6 d b = disk s6 (sector b)" using 6(5,8) 5(6,9) 4(6)[OF assms(5)] 4(9) by simp
  obtain s7 where 7: "brelse db s6 = Ret () s7" "bframe s6 s7" "binv p d s7" "lockset s7 = lockset s6 - {db}"
    "\<And>m. content s7 d m = content s6 d m" "\<And>m. refs s7 d m = (if m = b then refs s6 d b - 1 else refs s6 d m)"
    "spare s7 = (if refs s6 d b = 1 then spare s6 + 1 else spare s6)" "disk s7 = disk s6" "dtrace s7 = dtrace s6"
    "same_held p d {db} s6 s7"
    by (rule brelse_view[OF h6 6(3) cb], rule that)
  have fr: "bframe s s7"
    using bframe_trans[OF bframe_trans[OF bframe_trans[OF bframe_trans[OF bframe_trans[OF bframe_trans[OF 1(2) 2(2)] 3(1)] 4(2)] 5(2)] 6(2)] 7(2)] .
  have l1: "log_dev s1 = d" "lg_block (lg s1) ! tail = b"
    using bframe_lg[OF 1(2)] lg_consts[of s1 s] assms(2,3) by simp_all
  have "lockset s7 = {}" using 7(4) 6(4) 5(5) 4(5) 3(4) 2(6) lk1 by auto
  moreover have "spare s \<le> spare s7"
    using 7(7) 6(6,7) ra(1) 5(7,8) r4 4(8) 3(7) 2(9) 1(8,9) assms(6-11) by (auto split: if_splits)
  moreover have "refs s7 d m = (if pin \<and> m = b then refs s d b - 1 else refs s d m)" for m
    using 7(6) 6(6) ra(1) 5(7) r4 assms(6,7) by simp
  moreover have "copied_blk d a b s s7"
    using fr 7(5,8,9) 6(5,8,9) 5(6,9,10) 4(6,9,10) 3(5,8,9) 2(7,10,11) 1(7,10,11) by (simp add: copied_blk_def)
  ultimately show ?thesis
    using 1(1) 2(1) 4(1) 5(1) 6(1) 7(1,3) l1 by (simp add: upd_buf_def Let_def s3_def quiet_def)
qed

end
