(* ===== verification/LogCommit.thy ===== *)
theory LogCommit
  imports LogSpec
begin

text \<open>
  The routines of the log as sequences of disk writes: \<open>write_log\<close>, \<open>write_head\<close>, \<open>install_trans\<close>
  and \<open>read_head\<close>, and their compositions \<open>commit\<close> and \<open>initlog\<close>.
\<close>

section \<open>Frames\<close>

lemma lg_view [simp]:
  "binv p d (lg_update f s) = binv p d s" "lockset (lg_update f s) = lockset s" "refs (lg_update f s) d m = refs s d m"
  "spare (lg_update f s) = spare s" "content (lg_update f s) d m = content s d m" "holds p d n b (lg_update f s) = holds p d n b s"
  "quiet p d (lg_update f s) = quiet p d s"
  by (simp_all add: quiet_def binv_def lockset_def refs_def spare_def content_def holds_def owns_def idle_def cache_ok_def sane_def
    cong: option.case_cong)

lemma quiet_print:
  assumes "quiet p d s"
  shows "quiet p d (s\<lparr>hw := emit out (settle (hw s))\<rparr>)" "bframe s (s\<lparr>hw := emit out (settle (hw s))\<rparr>)"
  using assms by (auto simp: quiet_def binv_def lockset_def idle_def cache_ok_def sane_def bframe_def tty_ok_def)

lemma hw_view [simp]:
  "refs (hw_update f s) d m = refs s d m" "spare (hw_update f s) = spare s" "content (hw_update f s) d m = content s d m"
  by (simp_all add: refs_def spare_def content_def cong: option.case_cong)

lemma recover_msg: "\<exists>out. printf_chars (''recovering tail %d dst %d'' @ [CHR 0x0A]) [VInt x, VInt y] = Some out"
proof -
  have "printf_chars ([CHR 0x0A]) [] = Some [CHR 0x0A]" by simp
  then obtain o1 where 1: "printf_chars (CHR ''%'' # CHR ''d'' # [CHR 0x0A]) [VInt y] = Some o1"
    by (simp only: printf_chars_d option.map)
  have "printf_chars ('' dst '' @ (CHR ''%'' # CHR ''d'' # [CHR 0x0A])) [VInt y] = Some ('' dst '' @ o1)"
    by (subst printf_chars_plain) (simp_all only: 1 option.map, simp_all)
  then have "printf_chars (CHR ''%'' # CHR ''d'' # '' dst '' @ (CHR ''%'' # CHR ''d'' # [CHR 0x0A])) [VInt x, VInt y] =
      Some (printint (va_int x) 10 True @ '' dst '' @ o1)" by (simp only: printf_chars_d option.map)
  then have "printf_chars (''recovering tail '' @ (CHR ''%'' # CHR ''d'' # '' dst '' @ (CHR ''%'' # CHR ''d'' # [CHR 0x0A]))) [VInt x, VInt y] =
      Some (''recovering tail '' @ printint (va_int x) 10 True @ '' dst '' @ o1)"
    by (subst printf_chars_plain) (simp_all only: option.map, simp_all)
  then show ?thesis by simp
qed

text \<open>The writes between two states, as far as the log is concerned.\<close>

definition wrote :: "(u32 \<times> block) list \<Rightarrow> 'z bufst_scheme \<Rightarrow> 'z bufst_scheme \<Rightarrow> bool" where
  "wrote ws s s' \<longleftrightarrow> bframe s s' \<and> dtrace s' = dtrace s @ ws \<and> disk s' = apply_writes ws (disk s)"

lemma wrote_nil: "wrote [] s s"
  by (simp add: wrote_def)

lemma wrote_trans: "wrote vs s t \<Longrightarrow> wrote ws t u \<Longrightarrow> wrote (vs @ ws) s u"
  by (auto simp: wrote_def intro: bframe_trans)

lemma wrote_lg: "wrote ws s s' \<Longrightarrow> lg s' = lg s" "wrote ws s s' \<Longrightarrow> tty_ok (hw s) \<Longrightarrow> tty_ok (hw s')"
  by (auto simp: wrote_def bframe_tty dest: bframe_lg)

lemma copied_wrote: "copied_blk d a b s s' \<Longrightarrow> wrote [(sector b, content s d a)] s s'"
  by (simp add: copied_blk_def wrote_def)

lemma install_one_ok:
  fixes s :: "'z logst_scheme"
  assumes "quiet p d s" and "log_dev s = d" and "lg_block (lg s) ! tail = b"
    and "log_slot s tail = a" and "small a" and "small b" and "a \<noteq> b" and "refs s d a = 0" and "refs s d b + 1 \<noteq> 0"
    and "0 < spare s" and "\<not> recovering \<Longrightarrow> refs s d b \<noteq> 0" and "recovering \<Longrightarrow> refs s d b = 0 \<and> 1 < spare s \<and> tty_ok (hw s)"
  shows "\<exists>s'. install_one recovering tail s = Ret () s' \<and> quiet p d s' \<and> wrote [(sector b, content s d a)] s s' \<and>
    (\<forall>m. refs s' d m = (if \<not> recovering \<and> m = b then refs s d b - 1 else refs s d m)) \<and> spare s \<le> spare s'"
proof (cases recovering)
  case False
  then show ?thesis
    using install_copy[OF assms(1-3,5-10), of "\<not> recovering"] assms(4,11) copied_wrote[of d a b]
    by (auto simp: install_one_def assms(2))
next
  case True
  obtain out where out: "printf_chars (''recovering tail %d dst %d'' @ [CHR 0x0A])
      [VInt (of_nat tail), VInt (scast (lg_block (lg s) ! tail))] = Some out" using recover_msg by blast
  have i: "idle p s" using assms(1) by (simp add: quiet_def binv_def)
  define t where "t = s\<lparr>hw := emit out (settle (hw s))\<rparr>"
  have run: "kprintf (''recovering tail %d dst %d'' @ [CHR 0x0A]) [VInt (of_nat tail), VInt (scast (lg_block (lg s) ! tail))] s = Ret 0 t"
    using kprintf_ok[OF idleD(1)[OF i] _ idleD(5)[OF i] out] assms(12) True by (simp add: t_def)
  have q: "quiet p d t" "bframe s t" using quiet_print[OF assms(1)] by (simp_all add: t_def)
  have c: "log_dev t = d" "log_slot t tail = a" "lg_block (lg t) ! tail = b"
    using assms(2-4) by (simp_all add: t_def log_dev_def log_slot_def)
  have w: "wrote [] s t" using q(2) by (simp add: wrote_def t_def)
  show ?thesis
    using install_copy[OF q(1) c(1,3) assms(5-7), of "\<not> recovering"] assms(8-12) True
      wrote_trans[OF w copied_wrote[of d a b t]] run c
    by (auto simp: install_one_def t_def[symmetric]) (auto simp: t_def)
qed

section \<open>The loops\<close>

text \<open>The log in memory: its place on the disk, the device and the blocks it holds.\<close>

definition lgst :: "u32 \<Rightarrow> u32 \<Rightarrow> nat \<Rightarrow> u32 list \<Rightarrow> 'z logst_scheme \<Rightarrow> bool" where
  "lgst ls d n bl s \<longleftrightarrow> log_at ls \<and> log_dev s = d \<and> lg_start (lg s) = uint ls \<and> lg_n (lg s) = int n \<and> lg_block (lg s) = bl \<and>
     n \<le> LOGBLOCKS \<and> n \<le> length bl \<and> (\<forall>j < n. home ls (bl ! j)) \<and> (\<forall>i < n. \<forall>j < n. bl ! i = bl ! j \<longrightarrow> i = j)"

lemma lgstD:
  assumes "lgst ls d n bl s"
  shows "log_at ls" "log_dev s = d" "lg_start (lg s) = uint ls" "lg_n (lg s) = int n" "lg_block (lg s) = bl"
    "n \<le> LOGBLOCKS" "n \<le> length bl" "\<And>j. j < n \<Longrightarrow> home ls (bl ! j)"
    "\<And>i j. i < n \<Longrightarrow> j < n \<Longrightarrow> bl ! i = bl ! j \<Longrightarrow> i = j" "log_slot s j = lslot ls j"
    "word_of_int (lg_start (lg s)) = ls" "small ls"
  using assms log_area(2)[of ls 0]
  by (auto simp: lgst_def log_slot_def lslot_def LOGBLOCKS_def MAXOPBLOCKS_def)

lemma lgst_cong: "lgst ls d n bl s \<Longrightarrow> lg t = lg s \<Longrightarrow> lgst ls d n bl t"
  by (simp add: lgst_def log_dev_def)

lemma home_ne:
  assumes "log_at ls" and "j < LOGBLOCKS" and "home ls m"
  shows "sector m \<noteq> sector (lslot ls j)" "lslot ls j \<noteq> m"
  using sector_inj[OF homeD(1)[OF assms(3)] log_area(1)[OF assms(1,2)]] homeD(3)[OF assms(3,2)] by auto

lemma in_take: "x \<in> set (take i xs) \<Longrightarrow> \<exists>j < i. j < length xs \<and> xs ! j = x"
  by (auto simp: in_set_conv_nth)

lemma write_log_ok:
  fixes s :: "'z logst_scheme"
  assumes "quiet p d s" and "lgst ls d n bl s" and "\<forall>j < n. refs s d (bl ! j) \<noteq> 0 \<and> refs s d (bl ! j) + 1 \<noteq> 0"
    and "\<forall>j < n. refs s d (lslot ls j) = 0" and "0 < spare s"
  shows "\<exists>s'. write_log s = Ret () s' \<and> quiet p d s' \<and>
    wrote (map (\<lambda>j. (sector (lslot ls j), content s d (bl ! j))) [0..<n]) s s' \<and>
    (\<forall>m. refs s' d m = refs s d m) \<and> spare s' = spare s"
proof -
  note l = lgstD[OF assms(2)]
  let ?I = "\<lambda>i t. quiet p d t \<and> wrote (map (\<lambda>j. (sector (lslot ls j), content s d (bl ! j))) [0..<i]) s t \<and>
    (\<forall>m. refs t d m = refs s d m) \<and> spare t = spare s \<and> (\<forall>m. home ls m \<longrightarrow> content t d m = content s d m)"
  have "\<exists>s'. for_upto 0 n write_one s = Ret () s' \<and> ?I (0 + n) s'"
  proof (rule for_upto_rule)
    show "?I 0 s" using assms(1) by (simp add: wrote_nil)
  next
    fix i and t :: "'z logst_scheme" assume i: "i < 0 + n" and I: "?I i t"
    have lt: "lgst ls d n bl t" using lgst_cong[OF assms(2) wrote_lg(1)] I by blast
    note k = lgstD[OF lt]
    have iL: "i < LOGBLOCKS" and h: "home ls (bl ! i)" using i l(6) l(8)[of i] by simp_all
    have "\<exists>s'. write_one i t = Ret () s' \<and> quiet p (log_dev t) s' \<and> copied_blk (log_dev t) (lg_block (lg t) ! i) (log_slot t i) t s' \<and>
      (\<forall>m. refs s' (log_dev t) m = refs t (log_dev t) m) \<and> spare s' = spare t"
      by (rule write_one_ok) (use I i assms(3-5) k(2,5,10) log_area(1)[OF l(1) iL] homeD(1)[OF h] home_ne(2)[OF l(1) iL h] in simp_all)
    then obtain u where u: "write_one i t = Ret () u" "quiet p d u" "copied_blk d (bl ! i) (lslot ls i) t u"
      "\<forall>m. refs u d m = refs t d m" "spare u = spare t" using k(2,5,10) by auto
    have "wrote (map (\<lambda>j. (sector (lslot ls j), content s d (bl ! j))) [0..<Suc i]) s u"
      using wrote_trans[OF _ copied_wrote[OF u(3)]] I h by simp
    moreover have "content u d m = content s d m" if "home ls m" for m
      using u(3) I that home_ne(2)[OF l(1) iL that] homeD(1)[OF that] by (simp add: copied_blk_def)
    ultimately show "\<exists>s'. write_one i t = Ret () s' \<and> ?I (Suc i) s'" using u I by simp
  qed
  then show ?thesis by (auto simp: write_log_def l(4))
qed

lemma install_ok:
  fixes s :: "'z logst_scheme"
  assumes "quiet p d s" and "lgst ls d n bl s" and "\<forall>j < n. refs s d (lslot ls j) = 0" and "0 < spare s"
    and "\<not> recovering \<longrightarrow> (\<forall>j < n. refs s d (bl ! j) \<noteq> 0 \<and> refs s d (bl ! j) + 1 \<noteq> 0)"
    and "recovering \<longrightarrow> (\<forall>j < n. refs s d (bl ! j) = 0) \<and> 1 < spare s \<and> tty_ok (hw s)"
  shows "\<exists>s'. install_trans recovering s = Ret () s' \<and> quiet p d s' \<and>
    wrote (map (\<lambda>j. (sector (bl ! j), disk s (sector (lslot ls j)))) [0..<n]) s s' \<and>
    (\<forall>m. refs s' d m = (if \<not> recovering \<and> m \<in> set (take n bl) then refs s d m - 1 else refs s d m)) \<and> spare s \<le> spare s'"
proof -
  note l = lgstD[OF assms(2)]
  let ?W = "\<lambda>i. map (\<lambda>j. (sector (bl ! j), disk s (sector (lslot ls j)))) [0..<i]"
  let ?I = "\<lambda>i t. quiet p d t \<and> wrote (?W i) s t \<and>
    (\<forall>m. refs t d m = (if \<not> recovering \<and> m \<in> set (take i bl) then refs s d m - 1 else refs s d m)) \<and> spare s \<le> spare t"
  have "\<exists>s'. for_upto 0 n (install_one recovering) s = Ret () s' \<and> ?I (0 + n) s'"
  proof (rule for_upto_rule)
    show "?I 0 s" using assms(1) by (simp add: wrote_nil)
  next
    fix i and t :: "'z logst_scheme" assume i: "i < 0 + n" and I: "?I i t"
    have lt: "lgst ls d n bl t" using lgst_cong[OF assms(2) wrote_lg(1)] I by blast
    note k = lgstD[OF lt]
    have iL: "i < LOGBLOCKS" and h: "home ls (bl ! i)" using i l(6) l(8)[of i] by simp_all
    have nb: "bl ! i \<notin> set (take i bl)" using in_take[of "bl ! i" i bl] l(9)[of i] i by (metis add_0 less_trans less_irrefl)
    have "lslot ls i \<notin> set (take i bl)"
      using in_take[of "lslot ls i" i bl] home_ne(2)[OF l(1) iL l(8)] i by (metis add_0 less_trans)
    then have r: "refs t d (bl ! i) = refs s d (bl ! i)" "refs t d (lslot ls i) = 0" using nb I assms(3) i by auto
    have "disk t (sector (lslot ls i)) = disk s (sector (lslot ls i))"
      using I home_ne(1)[OF l(1) iL l(8)] i by (simp add: wrote_def) (rule apply_writes_miss, simp)
    then have c: "content t d (lslot ls i) = disk s (sector (lslot ls i))"
      using content_clean[OF _ r(2), of p] I by (simp add: quiet_def)
    have "\<exists>s'. install_one recovering i t = Ret () s' \<and> quiet p d s' \<and> wrote [(sector (bl ! i), content t d (lslot ls i))] t s' \<and>
      (\<forall>m. refs s' d m = (if \<not> recovering \<and> m = bl ! i then refs t d (bl ! i) - 1 else refs t d m)) \<and> spare t \<le> spare s'"
      by (rule install_one_ok)
        (use I r i assms(4-6) k(2,5,10) log_area(1)[OF l(1) iL] homeD(1)[OF h] home_ne(2)[OF l(1) iL h] wrote_lg(2) in auto)
    then obtain u where u: "install_one recovering i t = Ret () u" "quiet p d u" "wrote [(sector (bl ! i), disk s (sector (lslot ls i)))] t u"
      "\<forall>m. refs u d m = (if \<not> recovering \<and> m = bl ! i then refs t d (bl ! i) - 1 else refs t d m)" "spare t \<le> spare u"
      using c by auto
    have "set (take (Suc i) bl) = insert (bl ! i) (set (take i bl))" using i l(7) by (simp add: take_Suc_conv_app_nth)
    then have "\<forall>m. refs u d m = (if \<not> recovering \<and> m \<in> set (take (Suc i) bl) then refs s d m - 1 else refs s d m)"
      using u(4) I nb by simp
    moreover have "wrote (?W (Suc i)) s u" using wrote_trans[OF _ u(3)] I by simp
    ultimately show "\<exists>s'. install_one recovering i t = Ret () s' \<and> ?I (Suc i) s'" using u(1,2,5) I by auto
  qed
  then show ?thesis by (auto simp: install_trans_def l(4))
qed

section \<open>The header block\<close>

lemma write_head_ok:
  fixes s :: "'z logst_scheme"
  assumes "quiet p d s" and "log_dev s = d" and "word_of_int (lg_start (lg s)) = ls" and "small ls"
    and "refs s d ls = 0" and "0 < spare s"
  shows "\<exists>s'. write_head s = Ret () s' \<and> quiet p d s' \<and>
    wrote [(sector ls, head_bytes (lg_n (lg s)) (lg_block (lg s)) (disk s (sector ls)))] s s' \<and>
    (\<forall>m. refs s' d m = refs s d m) \<and> spare s' = spare s"
proof -
  note A = assms(1)[unfolded quiet_def]
  have 0: "i \<notin> lockset s" "refs s d ls + 1 \<noteq> 0" "refs s d ls \<noteq> 0 \<or> 0 < spare s" for i
    using A assms(5,6) by simp_all
  obtain b s1 where 1: "bread d ls s = Ret b s1" "bframe s s1" "binv p d s1" "holds p d ls b s1" "b \<notin> lockset s"
    "lockset s1 = insert b (lockset s)" "\<And>m. content s1 d m = content s d m"
    "\<And>m. refs s1 d m = (if m = ls then refs s d ls + 1 else refs s d m)"
    "spare s1 = (if refs s d ls = 0 then spare s - 1 else spare s)" "disk s1 = disk s" "dtrace s1 = dtrace s"
    "same_held p d {} s s1"
    by (rule bread_view[OF conjunct1[OF A] assms(4) 0], rule that)
  define v where "v = head_bytes (lg_n (lg s1)) (lg_block (lg s1)) (b_data (bufs s1 ! b))"
  have v: "v = head_bytes (lg_n (lg s)) (lg_block (lg s)) (disk s (sector ls))"
    using holdsD(5)[OF 1(4,3)] 1(7) content_clean[OF conjunct1[OF A] assms(5)] bframe_lg[OF 1(2)] by (simp add: v_def)
  define s2 where "s2 = s1\<lparr>bufs := (bufs s1)[b := (bufs s1 ! b)\<lparr>b_data := v\<rparr>]\<rparr>"
  note 2 = data_view[OF 1(4,3), of v, folded s2_def]
  obtain s3 where 3: "bwrite b s2 = Ret () s3" "bframe s2 s3" "binv p d s3" "holds p d ls b s3" "lockset s3 = lockset s2"
    "\<And>m. small m \<Longrightarrow> content s3 d m = content s2 d m" "\<And>m. refs s3 d m = refs s2 d m" "spare s3 = spare s2"
    "disk s3 = (disk s2)(sector ls := content s2 d ls)" "dtrace s3 = dtrace s2 @ [(sector ls, content s2 d ls)]"
    "same_held p d {} s2 s3"
    by (rule bwrite_view[OF 2(3,2) assms(4)], rule that)
  have c: "content s3 d ls = disk s3 (sector ls)" using 3(6)[OF assms(4)] 3(9) by simp
  obtain s4 where 4: "brelse b s3 = Ret () s4" "bframe s3 s4" "binv p d s4" "lockset s4 = lockset s3 - {b}"
    "\<And>m. content s4 d m = content s3 d m" "\<And>m. refs s4 d m = (if m = ls then refs s3 d ls - 1 else refs s3 d m)"
    "spare s4 = (if refs s3 d ls = 1 then spare s3 + 1 else spare s3)" "disk s4 = disk s3" "dtrace s4 = dtrace s3"
    "same_held p d {b} s3 s4"
    by (rule brelse_view[OF 3(4,3) c], rule that)
  have "lockset s4 = {}" using 4(4) 3(5) 2(4) 1(6) A by simp
  moreover have "spare s4 = spare s" using 4(7) 3(7,8) 2(6,7) 1(8,9) assms(5,6) by simp
  moreover have "refs s4 d m = refs s d m" for m using 4(6) 3(7) 2(6) 1(8) assms(5) by simp
  moreover have "wrote [(sector ls, v)] s s4"
    using bframe_trans[OF bframe_trans[OF bframe_trans[OF 1(2) 2(1)] 3(2)] 4(2)] 4(8,9) 3(9,10) 2(5,8,9) 1(10,11)
    by (simp add: wrote_def)
  ultimately show ?thesis
    using 1(1) 3(1) 4(1,3) v by (simp add: write_head_def assms(2,3) upd_buf_def Let_def s2_def v_def quiet_def)
qed

lemma read_head_ok:
  fixes s :: "'z logst_scheme"
  assumes "quiet p d s" and "log_dev s = d" and "word_of_int (lg_start (lg s)) = ls" and "log_wf ls (disk s)"
    and "refs s d ls = 0" and "0 < spare s"
  defines "n \<equiv> nat (hdr_n ls (disk s))"
  shows "\<exists>s'. read_head s = Ret () s' \<and> quiet p d s' \<and> disk s' = disk s \<and> dtrace s' = dtrace s \<and>
    lg s' = (lg s)\<lparr>lg_n := hdr_n ls (disk s), lg_block := map (hdr_blk ls (disk s)) [0..<n] @ drop n (lg_block (lg s))\<rparr> \<and>
    (\<forall>m. refs s' d m = refs s d m) \<and> spare s' = spare s \<and> (tty_ok (hw s) \<longrightarrow> tty_ok (hw s'))"
proof -
  note A = assms(1)[unfolded quiet_def] and w = log_wfD[OF assms(4)]
  have 0: "i \<notin> lockset s" "refs s d ls + 1 \<noteq> 0" "refs s d ls \<noteq> 0 \<or> 0 < spare s" for i
    using A assms(5,6) by simp_all
  have sl: "small ls" using log_area(2)[OF w(1), of 0] by (simp add: LOGBLOCKS_def MAXOPBLOCKS_def)
  obtain b s1 where 1: "bread d ls s = Ret b s1" "bframe s s1" "binv p d s1" "holds p d ls b s1" "b \<notin> lockset s"
    "lockset s1 = insert b (lockset s)" "\<And>m. content s1 d m = content s d m"
    "\<And>m. refs s1 d m = (if m = ls then refs s d ls + 1 else refs s d m)"
    "spare s1 = (if refs s d ls = 0 then spare s - 1 else spare s)" "disk s1 = disk s" "dtrace s1 = dtrace s"
    "same_held p d {} s s1"
    by (rule bread_view[OF conjunct1[OF A] sl 0], rule that)
  have dt: "b_data (bufs s1 ! b) = disk s (sector ls)"
    using holdsD(5)[OF 1(4,3)] 1(7) content_clean[OF conjunct1[OF A] assms(5)] by simp
  define s2 where "s2 = s1\<lparr>lg := (lg s)\<lparr>lg_n := hdr_n ls (disk s),
    lg_block := map (hdr_blk ls (disk s)) [0..<n] @ drop n (lg_block (lg s))\<rparr>\<rparr>"
  have h2: "holds p d ls b s2" "binv p d s2" using 1(3,4) by (simp_all add: s2_def)
  have c: "content s2 d ls = disk s2 (sector ls)"
    using 1(7,10) content_clean[OF conjunct1[OF A] assms(5)] by (simp add: s2_def)
  obtain s4 where 4: "brelse b s2 = Ret () s4" "bframe s2 s4" "binv p d s4" "lockset s4 = lockset s2 - {b}"
    "\<And>m. content s4 d m = content s2 d m" "\<And>m. refs s4 d m = (if m = ls then refs s2 d ls - 1 else refs s2 d m)"
    "spare s4 = (if refs s2 d ls = 1 then spare s2 + 1 else spare s2)" "disk s4 = disk s2" "dtrace s4 = dtrace s2"
    "same_held p d {b} s2 s4"
    by (rule brelse_view[OF h2 c], rule that)
  have lim: "\<not> int LOGBLOCKS < hdr_n ls (disk s)" using w(4) by simp
  have "read_head s = brelse b s2"
    using 1(1) lim bframe_lg[OF 1(2)]
    by (simp add: read_head_def assms(2,3) Let_def dt hdr_n_def[symmetric] upd_log_def s2_def n_def hdr_blk_def[abs_def])
  moreover have "lockset s4 = {}" using 4(4) 1(6) A by (simp add: s2_def)
  moreover have "spare s4 = spare s" using 4(7) 1(8,9) assms(5,6) by (simp add: s2_def)
  moreover have "refs s4 d m = refs s d m" for m using 4(6) 1(8) assms(5) by (simp add: s2_def)
  moreover have "tty_ok (hw s) \<longrightarrow> tty_ok (hw s4)"
    using bframe_tty[OF 1(2)] bframe_tty[OF 4(2)] by (simp add: s2_def)
  ultimately show ?thesis
    using 4(1,3,8,9) 1(10,11) bframe_lg[OF 4(2)] by (simp add: s2_def quiet_def)
qed

section \<open>Commit and recovery\<close>

text \<open>
  A transaction that is ready to be committed: no buffer is locked, the log on disk is empty,
  the blocks of the transaction are pinned by one reference each and no others are referenced,
  and the cache has a buffer to spare.
\<close>

definition committable :: "nat \<Rightarrow> u32 \<Rightarrow> u32 \<Rightarrow> nat \<Rightarrow> u32 list \<Rightarrow> 'z logst_scheme \<Rightarrow> bool" where
  "committable p d ls n bl s \<longleftrightarrow> quiet p d s \<and> lgst ls d n bl s \<and> log_wf ls (disk s) \<and> hdr_n ls (disk s) = 0 \<and>
     (\<forall>m. refs s d m = (if m \<in> set (take n bl) then 1 else 0)) \<and> 0 < spare s"

lemma not_home: "\<forall>j < n. home ls (bl ! j) \<Longrightarrow> \<not> home ls m \<Longrightarrow> m \<notin> set (take n bl)"
  using in_take[of m n bl] by blast

lemma commit_ok:
  fixes s :: "'z logst_scheme"
  assumes "committable p d ls n bl s" and "0 < n"
  shows "\<exists>s'. commit s = Ret () s' \<and> quiet p d s' \<and> lg s' = (lg s)\<lparr>lg_n := 0\<rparr> \<and>
    dtrace s' = dtrace s @ commit_writes ls (disk s) n bl (\<lambda>j. content s d (bl ! j)) \<and>
    disk s' = apply_writes (commit_writes ls (disk s) n bl (\<lambda>j. content s d (bl ! j))) (disk s) \<and>
    (\<forall>m. refs s' d m = 0)"
proof -
  have q: "quiet p d s" and l: "lgst ls d n bl s" and w: "log_wf ls (disk s)" and sp: "0 < spare s"
    and r: "refs s d m = (if m \<in> set (take n bl) then 1 else 0)" for m
    using assms(1) by (simp_all add: committable_def)
  note L = lgstD[OF l]
  have nh: "ls \<notin> set (take n bl)" "j < n \<Longrightarrow> lslot ls j \<notin> set (take n bl)" for j
  proof -
    have h: "\<not> home ls m \<Longrightarrow> m \<notin> set (take n bl)" for m using not_home[of n ls bl m] L(8) by blast
    show "ls \<notin> set (take n bl)" by (rule h) (simp add: home_def)
    show "j < n \<Longrightarrow> lslot ls j \<notin> set (take n bl)" using L(6) by (intro h) (use homeD(3)[of ls "lslot ls j" j] in auto)
  qed
  have rs: "\<forall>j < n. refs s d (bl ! j) \<noteq> 0 \<and> refs s d (bl ! j) + 1 \<noteq> 0" "\<forall>j < n. refs s d (lslot ls j) = 0" "refs s d ls = 0"
    using r nh L(7) by (simp_all add: in_set_conv_nth) (metis min.absorb2 nth_take length_take)+
  let ?v = "\<lambda>j. content s d (bl ! j)"
  obtain s1 where 1: "write_log s = Ret () s1" "quiet p d s1"
    "wrote (map (\<lambda>j. (sector (lslot ls j), ?v j)) [0..<n]) s s1" "\<forall>m. refs s1 d m = refs s d m" "spare s1 = spare s"
    using write_log_ok[OF q l rs(1,2) sp] by blast
  note l1 = lgst_cong[OF l wrote_lg(1)[OF 1(3)]]
  obtain s2 where 2: "write_head s1 = Ret () s2" "quiet p d s2"
    "wrote [(sector ls, head_bytes (lg_n (lg s1)) (lg_block (lg s1)) (disk s1 (sector ls)))] s1 s2"
    "\<forall>m. refs s2 d m = refs s1 d m" "spare s2 = spare s1"
    using write_head_ok[OF 1(2) lgstD(2)[OF l1] lgstD(11)[OF l1] L(12)] 1(4,5) rs(3) sp by auto
  note l2 = lgst_cong[OF l1 wrote_lg(1)[OF 2(3)]]
  have "disk s1 (sector ls) = disk s (sector ls)"
    using log_slots_at(1)[OF L(1,6)] 1(3) by (simp add: wrote_def)
  then have w2: "wrote (log_part ls (disk s) n bl ?v) s s2"
    using wrote_trans[OF 1(3) 2(3)] lgstD(4,5)[OF l1] by (simp add: log_part_def)
  obtain s3 where 3: "install_trans False s2 = Ret () s3" "quiet p d s3"
    "wrote (map (\<lambda>j. (sector (bl ! j), disk s2 (sector (lslot ls j)))) [0..<n]) s2 s3"
    "\<forall>m. refs s3 d m = (if m \<in> set (take n bl) then refs s2 d m - 1 else refs s2 d m)" "spare s2 \<le> spare s3"
    using install_ok[OF 2(2) l2, of False] rs 1(4,5) 2(4,5) sp by auto
  have fin: "\<forall>j < n. home ls (bl ! j)" "\<forall>i < n. \<forall>j < n. bl ! i = bl ! j \<longrightarrow> i = j" using L(8,9) by auto
  note c = log_part_done[OF w L(6) fin, where v = ?v]
  have D2: "disk s2 = apply_writes (log_part ls (disk s) n bl ?v) (disk s)" using w2 by (simp add: wrote_def)
  have hw: "home_writes ls (disk s2) = map (\<lambda>j. (sector (bl ! j), disk s2 (sector (lslot ls j)))) [0..<n]"
    using c(2,3) by (simp add: home_writes_def D2)
  have hd: "disk s3 (sector ls) = disk s2 (sector ls)"
    using home_prefix_at(1)[OF c(1) le_refl] 3(3) c(2) by (simp add: wrote_def hw[symmetric] D2[symmetric] home_writes_def)
  define s4 where "s4 = s3\<lparr>lg := (lg s3)\<lparr>lg_n := 0\<rparr>\<rparr>"
  have l3: "log_dev s4 = d" "word_of_int (lg_start (lg s4)) = ls" "lg_n (lg s4) = 0" "lg s4 = (lg s)\<lparr>lg_n := 0\<rparr>"
    using L(2,11) wrote_lg(1)[OF w2] wrote_lg(1)[OF 3(3)] by (simp_all add: s4_def log_dev_def)
  have q4: "quiet p d s4" "refs s4 d ls = 0" "0 < spare s4"
    using 3(2,4,5) 2(4,5) 1(4,5) rs(3) nh(1) sp by (simp_all add: s4_def)
  obtain s5 where 5: "write_head s4 = Ret () s5" "quiet p d s5"
    "wrote [(sector ls, head_bytes (lg_n (lg s4)) (lg_block (lg s4)) (disk s4 (sector ls)))] s4 s5"
    "\<forall>m. refs s5 d m = refs s4 d m" using write_head_ok[OF q4(1) l3(1,2) L(12) q4(2,3)] by blast
  have run: "commit s = Ret () s5"
    using 1(1) 2(1) 3(1) 5(1) assms(2) L(4) by (simp add: commit_def upd_log_def s4_def Let_def)
  have "dtrace s5 = dtrace s @ commit_writes ls (disk s) n bl ?v \<and> disk s5 = apply_writes (commit_writes ls (disk s) n bl ?v) (disk s)"
    using w2 3(3) 5(3) hw hd l3(3) by (simp add: wrote_def commit_writes_def rec_writes_def D2[symmetric] s4_def)
  moreover have "refs s5 d m = 0" for m using 5(4) 3(4) 2(4) 1(4) r by (simp add: s4_def)
  ultimately show ?thesis using run 5(2) wrote_lg(1)[OF 5(3)] l3(4) by simp
qed

text \<open>A machine that has just booted: nothing of the cache is in use.\<close>

definition booted :: "nat \<Rightarrow> u32 \<Rightarrow> 'z logst_scheme \<Rightarrow> bool" where
  "booted p d s \<longleftrightarrow> quiet p d s \<and> (\<forall>m. refs s d m = 0) \<and> 1 < spare s \<and> tty_ok (hw s)"

lemma initlog_ok:
  fixes s :: "'z logst_scheme"
  assumes "booted p d s" and "word_of_int dev = d" and "sint (sb_logstart sb) = uint ls" and "log_wf ls (disk s)"
  shows "\<exists>s'. initlog dev sb s = Ret () s' \<and> quiet p d s' \<and> dtrace s' = dtrace s @ rec_writes ls (disk s) \<and>
    disk s' = apply_writes (rec_writes ls (disk s)) (disk s)"
proof -
  note w = log_wfD[OF assms(4)]
  define s0 where "s0 = s\<lparr>hw := (hw s)\<lparr>locks := (locks (hw s))(Lk_log := \<lparr>locked = 0, lk_name = ''log'', lk_cpu = None\<rparr>)\<rparr>,
    lg := (lg s)\<lparr>lg_start := sint (sb_logstart sb), lg_dev := dev\<rparr>\<rparr>"
  have q0: "quiet p d s0" "\<forall>m. refs s0 d m = 0" "1 < spare s0" "tty_ok (hw s0)" "disk s0 = disk s" "dtrace s0 = dtrace s"
    using assms(1)
    by (auto simp: booted_def s0_def quiet_def binv_def lockset_def idle_def cache_ok_def sane_def tty_ok_def cpu_ok_def lk_free_def mycpu_def)
  have k0: "log_dev s0 = d" "word_of_int (lg_start (lg s0)) = ls" "lg_start (lg s0) = uint ls"
    using assms(2,3) by (simp_all add: s0_def log_dev_def)
  have sl: "small ls" using log_area(2)[OF w(1), of 0] by (simp add: LOGBLOCKS_def MAXOPBLOCKS_def)
  define n bl where "n = nat (hdr_n ls (disk s))" and "bl = map (hdr_blk ls (disk s)) [0..<n] @ drop n (lg_block (lg s0))"
  obtain s1 where 1: "read_head s0 = Ret () s1" "quiet p d s1" "disk s1 = disk s" "dtrace s1 = dtrace s"
    "lg s1 = (lg s0)\<lparr>lg_n := hdr_n ls (disk s), lg_block := bl\<rparr>" "\<forall>m. refs s1 d m = 0" "1 < spare s1" "tty_ok (hw s1)"
    using read_head_ok[OF q0(1) k0(1,2)] q0 assms(4) by (auto simp: n_def bl_def)
  have nth: "bl ! j = hdr_blk ls (disk s) j" if "j < n" for j using that by (simp add: bl_def nth_append)
  have l1: "lgst ls d n bl s1"
    unfolding lgst_def using w k0 1(5) nth by (auto simp: n_def log_dev_def) (simp add: bl_def n_def)
  obtain s2 where 2: "install_trans True s1 = Ret () s2" "quiet p d s2"
    "wrote (map (\<lambda>j. (sector (bl ! j), disk s1 (sector (lslot ls j)))) [0..<n]) s1 s2"
    "\<forall>m. refs s2 d m = refs s1 d m" "spare s1 \<le> spare s2"
    using install_ok[OF 1(2) l1, of True] 1(6-8) by auto
  have hw: "home_writes ls (disk s) = map (\<lambda>j. (sector (bl ! j), disk s1 (sector (lslot ls j)))) [0..<n]"
    using nth 1(3) by (simp add: home_writes_def n_def[symmetric])
  have hd: "disk s2 (sector ls) = disk s (sector ls)"
  proof -
    have "take (nat (hdr_n ls (disk s))) (home_writes ls (disk s)) = home_writes ls (disk s)" by (simp add: home_writes_def)
    then show ?thesis using home_prefix_at(1)[OF assms(4) le_refl] 2(3) 1(3) by (simp add: wrote_def hw)
  qed
  define s3 where "s3 = s2\<lparr>lg := (lg s2)\<lparr>lg_n := 0\<rparr>\<rparr>"
  have k3: "log_dev s3 = d" "word_of_int (lg_start (lg s3)) = ls" "lg_n (lg s3) = 0"
    using k0 1(5) wrote_lg(1)[OF 2(3)] by (simp_all add: s3_def log_dev_def)
  have q3: "quiet p d s3" "refs s3 d ls = 0" "0 < spare s3" using 2(2,4,5) 1(6,7) by (simp_all add: s3_def)
  obtain s4 where 4: "write_head s3 = Ret () s4" "quiet p d s4"
    "wrote [(sector ls, head_bytes (lg_n (lg s3)) (lg_block (lg s3)) (disk s3 (sector ls)))] s3 s4"
    using write_head_ok[OF q3(1) k3(1,2) sl q3(2,3)] by blast
  have "initlog dev sb s = Ret () s4"
    using 1(1) 2(1) 4(1)
    by (simp add: initlog_def initlock_def recover_from_log_def upd_log_def Let_def s0_def[symmetric] s3_def[symmetric]
      BSIZE_def LOGBLOCKS_def MAXOPBLOCKS_def)
  moreover have "dtrace s4 = dtrace s @ rec_writes ls (disk s)" "disk s4 = apply_writes (rec_writes ls (disk s)) (disk s)"
    using 2(3) 4(3) 1(3,4) hw hd k3(3) by (simp_all add: wrote_def rec_writes_def s3_def)
  ultimately show ?thesis using 4(2) by blast
qed

end
