(* ===== verification/LogCrash.thy ===== *)
theory LogCrash
  imports LogCommit
begin

text \<open>
  Crash safety of the log: a commit that is cut off after any of its disk writes, followed by
  any number of recoveries that are cut off as well, leaves either the whole transaction or
  nothing of it, once a recovery completes.
\<close>

section \<open>Booting\<close>

lemma binit_booted:
  fixes s :: "'z logst_scheme"
  assumes "boot_bufs s" and "idle p s" and "tty_ok (hw s)" and "d \<noteq> 0"
  shows "\<exists>t. binit s = Ret () t \<and> booted p d t \<and> disk t = disk s \<and> dtrace t = dtrace s"
proof -
  obtain t where t: "binit s = Ret () t" "binit_inv s NBUF t" "cache_ok t" using binit_ok[OF assms(1)] by blast
  have f: "b_dev (bufs t ! i) = 0" "b_refcnt (bufs t ! i) = 0" "b_valid (bufs t ! i) = 0" if "i < NBUF" for i
    using t(2) assms(1) that core_fields[of "bufs t ! i" "bufs s ! i"] by (simp_all add: binit_inv_def boot_bufs_def)
  have fr: "t = s\<lparr>hw := hw t, slocks := slocks t, bufs := bufs t\<rparr>" using t(2) by (simp add: binit_inv_def)
  have "{i. i < NBUF \<and> b_refcnt (bufs t ! i) = 0} = {..<NBUF}" using f by auto
  then have "spare t = NBUF" by (simp add: spare_def)
  moreover have "lockset t = {}" using cache_okD(3)[OF t(3)] f by (auto simp: lockset_def)
  moreover have "sane d t" using f by (simp add: sane_def)
  moreover have "refs t d m = 0" for m using f assms(4) by (intro refs_uncached) (simp add: is_blk_def)
  moreover have "tty_ok (hw t)" using t(2) assms(3) by (simp add: binit_inv_def)
  ultimately show ?thesis
    using t(1,3) binit_idle[OF t(2) assms(2)] assms(4) arg_cong[OF fr, of disk] arg_cong[OF fr, of dtrace]
    by (simp add: booted_def quiet_def binv_def NBUF_def MAXOPBLOCKS_def)
qed

text \<open>The disks that a series of interrupted recoveries can leave.\<close>

inductive interrupted :: "int \<Rightarrow> superblock \<Rightarrow> dimage \<Rightarrow> dimage \<Rightarrow> bool" for dev sb where
  none: "interrupted dev sb D D"
| again: "interrupted dev sb D D1 \<Longrightarrow> booted p (word_of_int dev) (s :: logst) \<Longrightarrow> disk s = D1 \<Longrightarrow> dtrace s = [] \<Longrightarrow>
    initlog dev sb s = Ret () s' \<Longrightarrow> interrupted dev sb D (apply_writes (take k (dtrace s')) D1)"

lemma interrupted_keeps:
  assumes "interrupted dev sb D D'" and "log_wf ls D" and "sint (sb_logstart sb) = uint ls"
  shows "log_wf ls D' \<and> (\<forall>m. home ls m \<longrightarrow> rview ls D' m = rview ls D m)"
  using assms(1,2)
proof induction
  case (none D)
  then show ?case by simp
next
  case (again D D1 p s s' k)
  then have w: "log_wf ls (disk s)" by simp
  have "dtrace s' = rec_writes ls D1"
    using initlog_ok[OF again.hyps(2) refl assms(3) w] again.hyps(3-5) by auto
  then show ?case using rec_prefix[OF w, where k = k] again.hyps(3) again.IH again.prems by simp
qed

lemma recovered:
  assumes "booted p (word_of_int dev) s" and "log_wf ls (disk s)" and "sint (sb_logstart sb) = uint ls"
  shows "\<exists>s'. initlog dev sb s = Ret () s' \<and> hdr_n ls (disk s') = 0 \<and> (\<forall>m. home ls m \<longrightarrow> disk s' (sector m) = rview ls (disk s) m)"
proof -
  obtain s' where s': "initlog dev sb s = Ret () s'" "disk s' = apply_writes (rec_writes ls (disk s)) (disk s)"
    using initlog_ok[OF assms(1) refl assms(3,2)] by blast
  have "length (rec_writes ls (disk s)) > nat (hdr_n ls (disk s))" by (simp add: rec_writes_def home_writes_def)
  then have n: "hdr_n ls (disk s') = 0" and v: "home ls m \<Longrightarrow> rview ls (disk s') m = rview ls (disk s) m" for m
    using rec_prefix(2,3)[OF assms(2), where k = "length (rec_writes ls (disk s))"] s'(2) by simp_all
  have "rview ls (disk s') m = disk s' (sector m)" for m using n by (intro rview_miss) simp
  then show ?thesis using s'(1) n v by metis
qed

section \<open>Properties\<close>

text \<open>
  C24: a transaction is atomic. In a state that is ready to commit, \<open>commit\<close> returns; let its disk
  writes stop after any number of them, and let any number of recoveries stop in the same way. Then
  the recovery of a boot that is not interrupted returns, leaves an empty log, and the blocks of the
  disk outside the log are all as before the transaction, or all as the processes saw them in the
  cache when \<open>commit\<close> was called; the latter, if \<open>commit\<close> had returned.
\<close>

theorem commit_atomic:
  fixes s :: "'z logst_scheme"
  assumes "committable p (word_of_int dev) ls n bl s" and "sint (sb_logstart sb) = uint ls"
  shows "\<exists>s' ws. commit s = Ret () s' \<and> dtrace s' = dtrace s @ ws \<and>
    (\<forall>k D q t. interrupted dev sb (apply_writes (take k ws) (disk s)) D \<and> booted q (word_of_int dev) t \<and> disk (t :: logst) = D \<longrightarrow>
       (\<exists>t'. initlog dev sb t = Ret () t' \<and> hdr_n ls (disk t') = 0 \<and>
          ((\<forall>m. home ls m \<longrightarrow> disk t' (sector m) = content s (word_of_int dev) m) \<or>
           k < length ws \<and> (\<forall>m. home ls m \<longrightarrow> disk t' (sector m) = disk s (sector m)))))"
proof -
  let ?d = "word_of_int dev :: u32" and ?D = "disk s"
  have q: "quiet p ?d s" and l: "lgst ls ?d n bl s" and w: "log_wf ls ?D" and n0: "hdr_n ls ?D = 0"
    and r: "refs s ?d m = (if m \<in> set (take n bl) then 1 else 0)" for m
    using assms(1) by (simp_all add: committable_def)
  note L = lgstD[OF l]
  have clean: "m \<notin> set (take n bl) \<Longrightarrow> content s ?d m = ?D (sector m)" for m
    using content_clean[of p ?d s m] q r by (simp add: quiet_def)
  have fin: "\<forall>j < n. home ls (bl ! j)" "\<forall>i < n. \<forall>j < n. bl ! i = bl ! j \<longrightarrow> i = j" using L(8,9) by auto
  define ws where "ws = (if n = 0 then [] else commit_writes ls ?D n bl (\<lambda>j. content s ?d (bl ! j)))"
  have run: "\<exists>s'. commit s = Ret () s' \<and> dtrace s' = dtrace s @ ws"
    using commit_ok[OF assms(1)] L(4) by (cases "n = 0") (auto simp: commit_def ws_def)
  have pre: "log_wf ls (apply_writes (take k ws) ?D) \<and>
      ((\<forall>m. home ls m \<longrightarrow> rview ls (apply_writes (take k ws) ?D) m = content s ?d m) \<or>
       k < length ws \<and> (\<forall>m. home ls m \<longrightarrow> rview ls (apply_writes (take k ws) ?D) m = ?D (sector m)))" for k
  proof (cases "n = 0")
    case True
    then show ?thesis using w n0 rview_miss[of ls ?D] clean by (simp add: ws_def)
  next
    case False
    have "k > n \<or> k < length ws" using False by (auto simp: ws_def commit_writes_def log_part_def)
    then show ?thesis
      using commit_prefix[OF w n0 L(6,7) fin, where new = "content s ?d" and k = k] clean False by (auto simp: ws_def)
  qed
  have "\<exists>t'. initlog dev sb t = Ret () t' \<and> hdr_n ls (disk t') = 0 \<and>
          ((\<forall>m. home ls m \<longrightarrow> disk t' (sector m) = content s ?d m) \<or>
           k < length ws \<and> (\<forall>m. home ls m \<longrightarrow> disk t' (sector m) = disk s (sector m)))"
    if i: "interrupted dev sb (apply_writes (take k ws) ?D) (disk t)" and b: "booted q ?d t" for k q and t :: logst
  proof -
    have v: "log_wf ls (disk t)" "\<forall>m. home ls m \<longrightarrow> rview ls (disk t) m = rview ls (apply_writes (take k ws) ?D) m"
      using interrupted_keeps[OF i _ assms(2)] pre[of k] by blast+
    obtain t' where "initlog dev sb t = Ret () t'" "hdr_n ls (disk t') = 0"
      "\<forall>m. home ls m \<longrightarrow> disk t' (sector m) = rview ls (disk t) m" using recovered[OF b v(1) assms(2)] by blast
    then show ?thesis using v(2) pre[of k] by auto
  qed
  then show ?thesis using run by blast
qed

text \<open>
  C25: the log can hold more than a commit can write. With as many distinct blocks in the log as
  there are entries, all of them pinned, every buffer of the cache is taken, and \<open>commit\<close> panics
  when it reads the first block of the log.
\<close>

theorem full_log_panics:
  assumes "quiet p d s" and "lgst ls d LOGBLOCKS bl s" and "\<forall>j < LOGBLOCKS. refs s d (bl ! j) \<noteq> 0"
  shows "commit s = Panic ''bget: no buffers''"
proof -
  note L = lgstD[OF assms(2)]
  have i: "idle p s" "cache_ok s" using assms(1) by (simp_all add: quiet_def binv_def)
  have "\<forall>j < LOGBLOCKS. \<exists>i < NBUF. is_blk d (bl ! j) (bufs s ! i) \<and> b_refcnt (bufs s ! i) \<noteq> 0"
    using assms(3) refs_nz[of s d] by metis
  then obtain f where f: "f j < NBUF" "is_blk d (bl ! j) (bufs s ! f j)" "b_refcnt (bufs s ! f j) \<noteq> 0" if "j < LOGBLOCKS" for j
    by metis
  have "inj_on f {..<LOGBLOCKS}"
    by (rule inj_onI) (use f(2) L(9) in \<open>metis is_blk_def lessThan_iff\<close>)
  then have "card (f ` {..<LOGBLOCKS}) = card {..<NBUF}"
    by (simp only: card_image card_lessThan NBUF_def LOGBLOCKS_def)
  moreover have "f ` {..<LOGBLOCKS} \<subseteq> {..<NBUF}" by (rule image_subsetI) (simp add: f(1))
  ultimately have "f ` {..<LOGBLOCKS} = {..<NBUF}" by (intro card_subset_eq) simp_all
  then have all: "\<exists>j < LOGBLOCKS. i = f j" if "i < NBUF" for i using that by (metis imageE lessThan_iff)
  have "\<not> is_blk d (lslot ls 0) (bufs s ! i) \<and> b_refcnt (bufs s ! i) \<noteq> 0" if iN: "i < NBUF" for i
  proof -
    obtain j where j: "j < LOGBLOCKS" "i = f j" using all[OF iN] by blast
    then have "bl ! j \<noteq> lslot ls 0" by (intro homeD(3)[OF L(8)]) simp_all
    then show ?thesis using f(2,3)[OF j(1)] j(2) by (simp add: is_blk_def)
  qed
  then have "bget d (lslot ls 0) s = Panic ''bget: no buffers''" by (intro bget_full[OF i]) simp_all
  then have "write_one 0 s = Panic ''bget: no buffers''" by (simp add: write_one_def L(2,10) bread_def)
  then show ?thesis
    using L(4) by (simp add: commit_def write_log_def LOGBLOCKS_def MAXOPBLOCKS_def numeral_eq_Suc)
qed

section \<open>Concrete states\<close>

definition log0 :: logst where
  "log0 = bufst.extend (bio0\<lparr>disk := \<lambda>_. replicate BSIZE 0\<rparr>) (logst.fields \<lparr>lg_start = 0, lg_outstanding = 0,
     lg_committing = 0, lg_dev = 0, lg_n = 0, lg_block = replicate LOGBLOCKS 0\<rparr>)"

lemma log0_simps [simp]:
  "hw log0 = hw bio0" "procs log0 = procs bio0" "bufs log0 = bufs bio0" "disk log0 = (\<lambda>_. replicate BSIZE 0)" "dtrace log0 = []"
  by (simp_all add: log0_def bufst.defs logst.defs)

text \<open>A transaction with the blocks 100, 101, and so on, of device 1.\<close>

definition blocks0 :: "u32 list" where "blocks0 = map (\<lambda>i. of_nat (100 + i)) [0..<LOGBLOCKS]"

definition in_log :: "nat \<Rightarrow> 'z logst_scheme \<Rightarrow> 'z logst_scheme" where
  "in_log k t = t\<lparr>bufs := map (\<lambda>i. if i < k then (bufs t ! i)\<lparr>b_valid := 1, b_dev := 1, b_blockno := of_nat (100 + i), b_refcnt := 1,
       b_data := replicate BSIZE 9\<rparr> else bufs t ! i) [0..<Suc NBUF],
     lg := \<lparr>lg_start = 2, lg_outstanding = 0, lg_committing = 1, lg_dev = 1, lg_n = int k, lg_block = blocks0\<rparr>\<rparr>"

lemma disk_in_log [simp]: "disk (in_log k t) = disk t"
  by (simp add: in_log_def)

lemma blk_unat: "i < LOGBLOCKS \<Longrightarrow> unat (of_nat (100 + i) :: u32) = 100 + i"
  by (simp only: unat_of_nat) (simp add: take_bit_nat_eq_self LOGBLOCKS_def MAXOPBLOCKS_def)

lemma blk_inj: "i < LOGBLOCKS \<Longrightarrow> j < LOGBLOCKS \<Longrightarrow> (of_nat (100 + i) :: u32) = of_nat (100 + j) \<longleftrightarrow> i = j"
  using blk_unat[of i] blk_unat[of j] by (metis add_left_cancel)

lemma in_log_lgst:
  assumes "k \<le> LOGBLOCKS"
  shows "lgst 2 1 k blocks0 (in_log k t)"
proof -
  have at: "log_at 2" by (simp add: log_at_def LOGBLOCKS_def MAXOPBLOCKS_def)
  have "home 2 (of_nat (100 + j))" if "j < LOGBLOCKS" for j
  proof -
    have "small (of_nat (100 + j))" using blk_unat[OF that] that unfolding small_def by (simp add: LOGBLOCKS_def MAXOPBLOCKS_def)
    moreover have "(of_nat (100 + j) :: u32) \<noteq> 2" 
      using blk_unat[OF that] by (auto simp del: of_nat_add)
    moreover have "of_nat (100 + j) \<noteq> lslot 2 i" if "i < LOGBLOCKS" for i
      using unat_lslot[OF at that] blk_unat[OF \<open>j < LOGBLOCKS\<close>] that by (auto simp: LOGBLOCKS_def MAXOPBLOCKS_def)
    ultimately show ?thesis by (simp add: home_def)
  qed
  then show ?thesis
    using assms at blk_inj by (auto simp: lgst_def in_log_def blocks0_def log_dev_def)
qed

lemma in_log_view:
  fixes t :: "'z logst_scheme"
  assumes "quiet 0 1 t" and "\<forall>i < NBUF. b_dev (bufs t ! i) = 0 \<and> b_refcnt (bufs t ! i) = 0 \<and> b_valid (bufs t ! i) = 0"
    and "k \<le> NBUF"
  shows "quiet 0 1 (in_log k t)" "refs (in_log k t) 1 m = (if m \<in> set (take k blocks0) then 1 else 0)"
    "k < NBUF \<Longrightarrow> 0 < spare (in_log k t)"
proof -
  have NL: "NBUF = LOGBLOCKS" by (simp add: NBUF_def LOGBLOCKS_def)
  have nth: "bufs (in_log k t) ! i = (if i < k then (bufs t ! i)\<lparr>b_valid := 1, b_dev := 1, b_blockno := of_nat (100 + i),
      b_refcnt := 1, b_data := replicate BSIZE 9\<rparr> else bufs t ! i)" if "i \<le> NBUF" for i
    using that nth_map[of i "[0..<Suc NBUF]"] by (simp add: in_log_def del: upt_Suc)
  have c: "cache_ok t" "idle 0 t" "lockset t = {}" using assms(1) by (simp_all add: quiet_def binv_def)
  obtain xs where "ring xs (bufs t)" using cache_okD(1)[OF c(1)] by blast
  then have ring: "ring xs (bufs (in_log k t))"
    by (rule ring_cong) (use cache_okD(5)[OF c(1)] nth in \<open>simp_all add: in_log_def\<close>)
  have un: "i = j" if "i < NBUF" "j < NBUF" "b_dev (bufs (in_log k t) ! i) \<noteq> 0 \<and> b_dev (bufs (in_log k t) ! i) = b_dev (bufs (in_log k t) ! j) \<and>
      b_blockno (bufs (in_log k t) ! i) = b_blockno (bufs (in_log k t) ! j)" for i j
  proof -
    have "i < k \<and> j < k \<and> (of_nat (100 + i) :: u32) = of_nat (100 + j)"
      using that assms(2) by (auto simp: nth split: if_splits simp del: of_nat_add)
    then show ?thesis using blk_inj[of i j] that(1,2) NL by simp
  qed
  have sl: "slocks (in_log k t) = slocks t" by (simp add: in_log_def)
  have lk: "sl_locked (slocks t (Lk_buf_sleep i)) = 0" if "i < NBUF" for i using c(3) that by (auto simp: lockset_def)
  have dt: "b_data (bufs (in_log k t) ! i) = disk (in_log k t) (sector (b_blockno (bufs (in_log k t) ! i)))"
    if "i < NBUF" "b_refcnt (bufs (in_log k t) ! i) = 0 \<and> b_valid (bufs (in_log k t) ! i) \<noteq> 0" for i
    using that assms(2) by (simp add: nth split: if_splits)
  have cache: "cache_ok (in_log k t)" unfolding cache_ok_def sl using ring un lk dt by blast
  have "small (of_nat (100 + i))" if "i < NBUF" for i
    using blk_unat[of i] that unfolding small_def by (simp add: NL LOGBLOCKS_def MAXOPBLOCKS_def)
  then have "sane 1 (in_log k t)" using assms(2) unfolding sane_def by (simp add: nth)
  moreover have "idle 0 (in_log k t)" using c(2) by (simp add: in_log_def idle_def)
  moreover have "lockset (in_log k t) = {}" using lk by (auto simp: lockset_def sl)
  ultimately show "quiet 0 1 (in_log k t)" using cache by (simp add: quiet_def binv_def)
  show "refs (in_log k t) 1 m = (if m \<in> set (take k blocks0) then 1 else 0)"
  proof (cases "\<exists>i < k. m = of_nat (100 + i)")
    case True
    then obtain i where i: "i < k" "m = of_nat (100 + i)" by blast
    then have "m \<in> set (take k blocks0)" using assms(3) NL by (auto simp: blocks0_def take_map)
    moreover have "refs (in_log k t) 1 m = b_refcnt (bufs (in_log k t) ! i)"
      by (rule refs_cached[OF cache]) (use i assms(3) nth in \<open>simp_all add: is_blk_def\<close>)
    ultimately show ?thesis using i(1) assms(3) by (simp add: nth)
  next
    case False
    then have "m \<notin> set (take k blocks0)" using assms(3) NL by (auto simp: blocks0_def take_map)
    moreover have "refs (in_log k t) 1 m = 0"
      by (rule refs_uncached) (use False assms(2) nth in \<open>auto simp: is_blk_def split: if_splits\<close>)
    ultimately show ?thesis by simp
  qed
  show "k < NBUF \<Longrightarrow> 0 < spare (in_log k t)"
    using assms(2) by (auto simp: spare_def card_gt_0_iff nth intro!: exI[of _ k])
qed

lemma boot_log0:
  "\<exists>t. binit log0 = Ret () t \<and> booted 0 1 t \<and> disk t = (\<lambda>_. replicate BSIZE 0) \<and> dtrace t = [] \<and>
     (\<forall>i < NBUF. b_dev (bufs t ! i) = 0 \<and> b_refcnt (bufs t ! i) = 0 \<and> b_valid (bufs t ! i) = 0)"
proof -
  have b: "boot_bufs log0" using bio0_boot by (simp add: boot_bufs_def)
  have i: "idle 0 log0" using bio0_idle by (simp add: idle_def)
  have y: "tty_ok (hw log0)" by (simp add: tty_ok_def hw0_def with_proc_def set_mycpu_def LSR_TX_IDLE_def)
  obtain t where t: "binit log0 = Ret () t" "binit_inv log0 NBUF t" using binit_ok[OF b] by blast
  have "b_dev (bufs t ! i) = 0 \<and> b_refcnt (bufs t ! i) = 0 \<and> b_valid (bufs t ! i) = 0" if "i < NBUF" for i
    using t(2) b that core_fields[of "bufs t ! i" "bufs log0 ! i"] by (simp add: binit_inv_def boot_bufs_def)
  then show ?thesis using binit_booted[OF b i y, of 1] t(1) by auto
qed

lemma zero_log: "log_wf 2 (\<lambda>_. replicate BSIZE 0)" "hdr_n 2 (\<lambda>_. replicate BSIZE 0) = 0"
proof -
  have "get32 (replicate BSIZE 0) 0 = 0" by (simp add: get32_def get_le_def BSIZE_def numeral_eq_Suc)
  then show "hdr_n 2 (\<lambda>_. replicate BSIZE 0) = 0" by (simp add: hdr_n_def)
  then show "log_wf 2 (\<lambda>_. replicate BSIZE 0)" by (simp add: log_wf_def log_at_def LOGBLOCKS_def MAXOPBLOCKS_def)
qed

definition sb0 :: superblock where
  "sb0 = \<lparr>sb_magic = 0x10203040, sb_size = 2000, sb_nblocks = 1954, sb_ninodes = 200, sb_nlog = 31, sb_logstart = 2,
     sb_inodestart = 33, sb_bmapstart = 46\<rparr>"

theorem commit_atomic_witness:
  "\<exists>(s :: logst) s' (t :: logst) t'. commit s = Ret () s' \<and> content s 1 100 = replicate BSIZE 9 \<and>
     disk t = disk s \<and> initlog 1 sb0 t = Ret () t' \<and> disk t' (sector 100) \<in> {replicate BSIZE 0, replicate BSIZE 9}"
proof -
  obtain t :: logst where t: "booted 0 1 t" "disk t = (\<lambda>_. replicate BSIZE 0)"
    "\<forall>i < NBUF. b_dev (bufs t ! i) = 0 \<and> b_refcnt (bufs t ! i) = 0 \<and> b_valid (bufs t ! i) = 0" using boot_log0 by blast
  have q: "quiet 0 1 t" using t(1) by (simp add: booted_def)
  let ?s = "in_log 1 t"
  have k: "1 \<le> NBUF" "1 \<le> LOGBLOCKS" "1 < NBUF" by (simp_all add: NBUF_def LOGBLOCKS_def MAXOPBLOCKS_def)
  note v = in_log_view[OF q t(3) k(1)]
  have c: "committable 0 (word_of_int 1) 2 1 blocks0 ?s"
    using v(1,2) v(3)[OF k(3)] in_log_lgst[OF k(2), of t] zero_log t(2) by (simp add: committable_def)
  have nth: "bufs ?s ! 0 = (bufs t ! 0)\<lparr>b_valid := 1, b_dev := 1, b_blockno := of_nat (100 + 0), b_refcnt := 1, b_data := replicate BSIZE 9\<rparr>"
    using nth_map[of 0 "[0..<Suc NBUF]"] by (simp add: in_log_def del: upt_Suc)
  have ct: "content ?s 1 100 = replicate BSIZE 9"
    using content_cached[of ?s 0 1 100] v(1) nth k(3) by (simp add: quiet_def binv_def is_blk_def)
  have st: "sint (sb_logstart sb0) = uint (2 :: u32)" by (simp add: sb0_def)
  have h: "home 2 100" using lgstD(8)[OF in_log_lgst[OF k(2), of t], of 0] k(2) by (simp add: blocks0_def)
  obtain s' ws where w: "commit ?s = Ret () s'" "\<And>k D q u. interrupted 1 sb0 (apply_writes (take k ws) (disk ?s)) D \<and>
      booted q (word_of_int 1) u \<and> disk (u :: logst) = D \<Longrightarrow> (\<exists>t'. initlog 1 sb0 u = Ret () t' \<and> hdr_n 2 (disk t') = 0 \<and>
          ((\<forall>m. home 2 m \<longrightarrow> disk t' (sector m) = content ?s (word_of_int 1) m) \<or>
           k < length ws \<and> (\<forall>m. home 2 m \<longrightarrow> disk t' (sector m) = disk ?s (sector m))))"
    using commit_atomic[OF c st] by blast
  have "interrupted 1 sb0 (apply_writes (take 0 ws) (disk ?s)) (disk t)" using interrupted.none[of 1 sb0 "disk t"] by simp
  then obtain t' where "initlog 1 sb0 t = Ret () t'"
    "(\<forall>m. home 2 m \<longrightarrow> disk t' (sector m) = content ?s (word_of_int 1) m) \<or> (\<forall>m. home 2 m \<longrightarrow> disk t' (sector m) = disk ?s (sector m))"
    using w(2)[of 0 "disk t" 0 t] t(1) by auto
  then show ?thesis using w(1) ct t(2) h by (intro exI[of _ ?s] exI[of _ s'] exI[of _ t] exI[of _ t']) auto
qed

theorem full_log_panics_witness: "\<exists>s :: logst. commit s = Panic ''bget: no buffers'' \<and> lg_n (lg s) = int LOGBLOCKS"
proof -
  obtain t :: logst where t: "booted 0 1 t" "\<forall>i < NBUF. b_dev (bufs t ! i) = 0 \<and> b_refcnt (bufs t ! i) = 0 \<and> b_valid (bufs t ! i) = 0"
    using boot_log0 by blast
  have q: "quiet 0 1 t" using t(1) by (simp add: booted_def)
  have NL: "LOGBLOCKS \<le> NBUF" by (simp add: NBUF_def LOGBLOCKS_def)
  note v = in_log_view[OF q t(2) NL] and l = in_log_lgst[OF le_refl, of t]
  have "\<forall>j < LOGBLOCKS. refs (in_log LOGBLOCKS t) 1 (blocks0 ! j) \<noteq> 0" by (simp add: v(2) blocks0_def)
  then show ?thesis using full_log_panics[OF v(1) l] lgstD(4)[OF l] by blast
qed

end
