(* ===== verification/Fs.thy ===== *)
theory Fs
  imports Log
begin

text \<open>
  The file system, \<open>kernel/fs.c\<close>: the free bit map, the inode table, the contents of inodes,
  directories and path names. The on-disk structures are read and written byte by byte in the
  layout of \<open>kernel/fs.h\<close>. A pointer to an inode is an index into the inode table, the null
  pointer is \<open>None\<close>.
\<close>

section \<open>Constants and state\<close>

definition ROOTINO :: u32 where "ROOTINO = 1"
definition ROOTDEV :: u32 where "ROOTDEV = 1"
definition NINODE :: nat where "NINODE = 50"
definition FSMAGIC :: u32 where "FSMAGIC = 0x10203040"
definition NDIRECT :: nat where "NDIRECT = 12"
definition NINDIRECT :: nat where "NINDIRECT = BSIZE div 4"
definition MAXFILE :: nat where "MAXFILE = NDIRECT + NINDIRECT"
definition DINODE_SIZE :: nat where "DINODE_SIZE = 64"
definition IPB :: nat where "IPB = BSIZE div DINODE_SIZE"
definition BPB :: nat where "BPB = BSIZE * 8"
definition DIRSIZ :: nat where "DIRSIZ = 14"
definition DIRENT_SIZE :: nat where "DIRENT_SIZE = 2 + DIRSIZ"
definition T_DIR :: u16 where "T_DIR = 1"
definition T_FILE :: u16 where "T_FILE = 2"
definition T_DEVICE :: u16 where "T_DEVICE = 3"

text \<open>The sleep lock of the inode \<open>i\<close> is \<open>Lk_inode_sleep i\<close>. Type \<open>short\<close> is a 16-bit word.\<close>

record inode =
  i_dev :: u32
  i_inum :: u32
  i_ref :: int
  i_valid :: int
  i_type :: u16
  i_major :: u16
  i_minor :: u16
  i_nlink :: u16
  i_size :: u32
  i_addrs :: "u32 list"

record stat =
  st_dev :: u32
  st_ino :: u32
  st_type :: u16
  st_nlink :: u16
  st_size :: u64

record fsst = logst +
  sb :: superblock
  inodes :: "inode list"

text \<open>Updates of different fields are kept in the order of the fields.\<close>

lemma fsst_order [simp]:
  "hw_update f0 (sb_update g0 s) = sb_update g0 (hw_update f0 s)"
  "hw_update f1 (inodes_update g1 s) = inodes_update g1 (hw_update f1 s)"
  "ticks_update f2 (sb_update g2 s) = sb_update g2 (ticks_update f2 s)"
  "ticks_update f3 (inodes_update g3 s) = inodes_update g3 (ticks_update f3 s)"
  "rooms_update f4 (sb_update g4 s) = sb_update g4 (rooms_update f4 s)"
  "rooms_update f5 (inodes_update g5 s) = inodes_update g5 (rooms_update f5 s)"
  "lighting_initialized_update f6 (sb_update g6 s) = sb_update g6 (lighting_initialized_update f6 s)"
  "lighting_initialized_update f7 (inodes_update g7 s) = inodes_update g7 (lighting_initialized_update f7 s)"
  "roomenv_room_update f8 (sb_update g8 s) = sb_update g8 (roomenv_room_update f8 s)"
  "roomenv_room_update f9 (inodes_update g9 s) = inodes_update g9 (roomenv_room_update f9 s)"
  "mem_update f10 (sb_update g10 s) = sb_update g10 (mem_update f10 s)"
  "mem_update f11 (inodes_update g11 s) = inodes_update g11 (mem_update f11 s)"
  "freelist_update f12 (sb_update g12 s) = sb_update g12 (freelist_update f12 s)"
  "freelist_update f13 (inodes_update g13 s) = inodes_update g13 (freelist_update f13 s)"
  "kend_update f14 (sb_update g14 s) = sb_update g14 (kend_update f14 s)"
  "kend_update f15 (inodes_update g15 s) = inodes_update g15 (kend_update f15 s)"
  "procs_update f16 (sb_update g16 s) = sb_update g16 (procs_update f16 s)"
  "procs_update f17 (inodes_update g17 s) = inodes_update g17 (procs_update f17 s)"
  "initproc_update f18 (sb_update g18 s) = sb_update g18 (initproc_update f18 s)"
  "initproc_update f19 (inodes_update g19 s) = inodes_update g19 (initproc_update f19 s)"
  "nextpid_update f20 (sb_update g20 s) = sb_update g20 (nextpid_update f20 s)"
  "nextpid_update f21 (inodes_update g21 s) = inodes_update g21 (nextpid_update f21 s)"
  "slocks_update f22 (sb_update g22 s) = sb_update g22 (slocks_update f22 s)"
  "slocks_update f23 (inodes_update g23 s) = inodes_update g23 (slocks_update f23 s)"
  "mtime_update f24 (sb_update g24 s) = sb_update g24 (mtime_update f24 s)"
  "mtime_update f25 (inodes_update g25 s) = inodes_update g25 (mtime_update f25 s)"
  "stimecmp_update f26 (sb_update g26 s) = sb_update g26 (stimecmp_update f26 s)"
  "stimecmp_update f27 (inodes_update g27 s) = inodes_update g27 (stimecmp_update f27 s)"
  "kernel_pagetable_update f28 (sb_update g28 s) = sb_update g28 (kernel_pagetable_update f28 s)"
  "kernel_pagetable_update f29 (inodes_update g29 s) = inodes_update g29 (kernel_pagetable_update f29 s)"
  "etext_update f30 (sb_update g30 s) = sb_update g30 (etext_update f30 s)"
  "etext_update f31 (inodes_update g31 s) = inodes_update g31 (etext_update f31 s)"
  "trampoline_update f32 (sb_update g32 s) = sb_update g32 (trampoline_update f32 s)"
  "trampoline_update f33 (inodes_update g33 s) = inodes_update g33 (trampoline_update f33 s)"
  "bufs_update f34 (sb_update g34 s) = sb_update g34 (bufs_update f34 s)"
  "bufs_update f35 (inodes_update g35 s) = inodes_update g35 (bufs_update f35 s)"
  "disk_update f36 (sb_update g36 s) = sb_update g36 (disk_update f36 s)"
  "disk_update f37 (inodes_update g37 s) = inodes_update g37 (disk_update f37 s)"
  "dtrace_update f38 (sb_update g38 s) = sb_update g38 (dtrace_update f38 s)"
  "dtrace_update f39 (inodes_update g39 s) = inodes_update g39 (dtrace_update f39 s)"
  "lg_update f40 (sb_update g40 s) = sb_update g40 (lg_update f40 s)"
  "lg_update f41 (inodes_update g41 s) = inodes_update g41 (lg_update f41 s)"
  "sb_update f42 (inodes_update g42 s) = inodes_update g42 (sb_update f42 s)"
  by (induct s; simp)+

definition IBLOCK :: "u32 \<Rightarrow> superblock \<Rightarrow> u32" where
  "IBLOCK i b = of_nat (unat i div IPB) + sb_inodestart b"

definition BBLOCK :: "u32 \<Rightarrow> superblock \<Rightarrow> u32" where
  "BBLOCK b x = of_nat (unat b div BPB) + sb_bmapstart x"

definition upd_inode :: "nat \<Rightarrow> (inode \<Rightarrow> inode) \<Rightarrow> 'z fsst_scheme \<Rightarrow> 'z fsst_scheme" where
  "upd_inode i f s = s\<lparr>inodes := (inodes s)[i := f (inodes s ! i)]\<rparr>"

abbreviation bdata :: "nat \<Rightarrow> 'z bufst_scheme \<Rightarrow> block" where
  "bdata b s \<equiv> b_data (bufs s ! b)"

abbreviation ino :: "nat \<Rightarrow> 'z fsst_scheme \<Rightarrow> inode" where
  "ino i s \<equiv> inodes s ! i"

section \<open>Copies to and from the current process\<close>

text \<open>
  \<open>either_copyout\<close> and \<open>either_copyin\<close> of \<open>kernel/proc.c\<close>. The other end of a copy is a user
  address, a kernel address, or a local variable of the caller. The value of a variable that
  is read into is part of the result of the caller; one that is written from is an argument.
\<close>

datatype dest = User_dst u64 | Kernel_dst u64 | Local_dst
datatype origin = User_src u64 | Kernel_src u64 | Local_src "u8 list"

definition either_copyout :: "dest \<Rightarrow> u8 list \<Rightarrow> 'z procst_scheme \<Rightarrow> (int, 'z procst_scheme) res" where
  "either_copyout dst src s =
     bindr (curproc s) (\<lambda>p s.
     case dst of
       User_dst va \<Rightarrow> copyout (p_pagetable (procs s ! p)) va src s
     | Kernel_dst a \<Rightarrow> Ret 0 (s\<lparr>mem := wr_bytes (mem s) a src\<rparr>)
     | Local_dst \<Rightarrow> Ret 0 s)"

definition either_copyin :: "origin \<Rightarrow> nat \<Rightarrow> 'z procst_scheme \<Rightarrow> (int \<times> u8 list, 'z procst_scheme) res" where
  "either_copyin src len s =
     bindr (curproc s) (\<lambda>p s.
     case src of
       User_src va \<Rightarrow> copyin (p_pagetable (procs s ! p)) va len s
     | Kernel_src a \<Rightarrow> Ret (0, rd_bytes (mem s) a len) s
     | Local_src bs \<Rightarrow> Ret (0, take len bs) s)"

fun dst_plus :: "dest \<Rightarrow> nat \<Rightarrow> dest" where
  "dst_plus (User_dst a) m = User_dst (a + of_nat m)"
| "dst_plus (Kernel_dst a) m = Kernel_dst (a + of_nat m)"
| "dst_plus Local_dst m = Local_dst"

fun src_plus :: "origin \<Rightarrow> nat \<Rightarrow> origin" where
  "src_plus (User_src a) m = User_src (a + of_nat m)"
| "src_plus (Kernel_src a) m = Kernel_src (a + of_nat m)"
| "src_plus (Local_src bs) m = Local_src (drop m bs)"

section \<open>Blocks\<close>

definition get_sb :: "block \<Rightarrow> superblock" where
  "get_sb d = \<lparr>sb_magic = get32 d 0, sb_size = get32 d 4, sb_nblocks = get32 d 8, sb_ninodes = get32 d 12,
     sb_nlog = get32 d 16, sb_logstart = get32 d 20, sb_inodestart = get32 d 24, sb_bmapstart = get32 d 28\<rparr>"

definition readsb :: "int \<Rightarrow> 'z fsst_scheme \<Rightarrow> (unit, 'z fsst_scheme) res" where
  "readsb dev s =
     bindr (bread (word_of_int dev) 1 s) (\<lambda>bp s.
     brelse bp (s\<lparr>sb := get_sb (bdata bp s)\<rparr>))"

definition bzero :: "u32 \<Rightarrow> u32 \<Rightarrow> 'z fsst_scheme \<Rightarrow> (unit, 'z fsst_scheme) res" where
  "bzero dev bno s =
     bindr (bread dev bno s) (\<lambda>bp s.
     let s = upd_data bp (\<lambda>_. replicate BSIZE 0) s in
     bindr (log_write bp s) (\<lambda>_ s.
     brelse bp s))"

text \<open>The bit of the block \<open>bi\<close> of a bit map block.\<close>

definition bmask :: "nat \<Rightarrow> u8" where "bmask bi = push_bit (bi mod 8) 1"

definition bfree_bit :: "block \<Rightarrow> nat \<Rightarrow> bool" where
  "bfree_bit d bi \<longleftrightarrow> d ! (bi div 8) AND bmask bi = 0"

text \<open>One turn of the outer loop of \<open>balloc\<close>, on the bit map block that starts at \<open>b\<close>.\<close>

definition balloc_in :: "u32 \<Rightarrow> nat \<Rightarrow> 'z fsst_scheme \<Rightarrow> (u32 option, 'z fsst_scheme) res" where
  "balloc_in dev k s =
     (let b = k * BPB in
      bindr (bread dev (BBLOCK (of_nat b) (sb s)) s) (\<lambda>bp s.
      case first_idx (bfree_bit (bdata bp s)) 0 (min BPB (unat (sb_size (sb s)) - b)) of
        Some bi \<Rightarrow>
          let s = upd_data bp (\<lambda>d. d[bi div 8 := d ! (bi div 8) OR bmask bi]) s in
          bindr (log_write bp s) (\<lambda>_ s.
          bindr (brelse bp s) (\<lambda>_ s.
          bindr (bzero dev (of_nat (b + bi)) s) (\<lambda>_ s.
          Ret (Some (of_nat (b + bi))) s)))
      | None \<Rightarrow> bindr (brelse bp s) (\<lambda>_ s. Ret None s)))"

definition balloc :: "u32 \<Rightarrow> 'z fsst_scheme \<Rightarrow> (u32, 'z fsst_scheme) res" where
  "balloc dev s =
     bindr (for_ret 0 ((unat (sb_size (sb s)) + BPB - 1) div BPB) (balloc_in dev) s) (\<lambda>r s.
     case r of
       Some b \<Rightarrow> Ret b s
     | None \<Rightarrow> bindr (kprintf (''balloc: out of blocks'' @ [CHR 0x0A]) [] s) (\<lambda>_ s. Ret 0 s))"

definition bfree :: "u32 \<Rightarrow> u32 \<Rightarrow> 'z fsst_scheme \<Rightarrow> (unit, 'z fsst_scheme) res" where
  "bfree dev b s =
     bindr (bread dev (BBLOCK b (sb s)) s) (\<lambda>bp s.
     let bi = unat b mod BPB in
     if bfree_bit (bdata bp s) bi then Panic ''freeing free block''
     else
       let s = upd_data bp (\<lambda>d. d[bi div 8 := d ! (bi div 8) AND NOT (bmask bi)]) s in
       bindr (log_write bp s) (\<lambda>_ s.
       brelse bp s))"

section \<open>Inodes on disk\<close>

definition dinode_off :: "u32 \<Rightarrow> nat" where
  "dinode_off inum = (unat inum mod IPB) * DINODE_SIZE"

definition put_dinode :: "inode \<Rightarrow> nat \<Rightarrow> block \<Rightarrow> block" where
  "put_dinode x off d =
     (let d = put16 d off (i_type x);
          d = put16 d (off + 2) (i_major x);
          d = put16 d (off + 4) (i_minor x);
          d = put16 d (off + 6) (i_nlink x);
          d = put32 d (off + 8) (i_size x)
      in fold (\<lambda>i d. put32 d (off + 12 + 4 * i) (i_addrs x ! i)) [0..<NDIRECT + 1] d)"

definition get_dinode :: "block \<Rightarrow> nat \<Rightarrow> inode \<Rightarrow> inode" where
  "get_dinode d off x =
     x\<lparr>i_type := get16 d off, i_major := get16 d (off + 2), i_minor := get16 d (off + 4),
       i_nlink := get16 d (off + 6), i_size := get32 d (off + 8),
       i_addrs := map (\<lambda>i. get32 d (off + 12 + 4 * i)) [0..<NDIRECT + 1]\<rparr>"

definition iinit :: "'z slst_scheme \<Rightarrow> (unit, 'z slst_scheme) res" where
  "iinit s =
     bindr (initlock Lk_itable ''itable'' s) (\<lambda>_ s.
     for_upto 0 NINODE (\<lambda>i s. initsleeplock (Lk_inode_sleep i) ''inode'' s) s)"

definition iget :: "u32 \<Rightarrow> u32 \<Rightarrow> 'z fsst_scheme \<Rightarrow> (nat, 'z fsst_scheme) res" where
  "iget dev inum s =
     bindr (acquire Lk_itable s) (\<lambda>_ s.
     case first_idx (\<lambda>i. i_ref (ino i s) > 0 \<and> i_dev (ino i s) = dev \<and> i_inum (ino i s) = inum) 0 NINODE of
       Some ip \<Rightarrow>
         let s = upd_inode ip (\<lambda>x. x\<lparr>i_ref := i_ref x + 1\<rparr>) s in
         bindr (release Lk_itable s) (\<lambda>_ s. Ret ip s)
     | None \<Rightarrow>
         (case first_idx (\<lambda>i. i_ref (ino i s) = 0) 0 NINODE of
            None \<Rightarrow> Panic ''iget: no inodes''
          | Some ip \<Rightarrow>
              let s = upd_inode ip (\<lambda>x. x\<lparr>i_dev := dev, i_inum := inum, i_ref := 1, i_valid := 0\<rparr>) s in
              bindr (release Lk_itable s) (\<lambda>_ s. Ret ip s)))"

definition ialloc_at :: "u32 \<Rightarrow> u16 \<Rightarrow> nat \<Rightarrow> 'z fsst_scheme \<Rightarrow> (nat option, 'z fsst_scheme) res" where
  "ialloc_at dev type k s =
     (let inum = of_nat k; off = dinode_off inum in
      bindr (bread dev (IBLOCK inum (sb s)) s) (\<lambda>bp s.
      if get16 (bdata bp s) off = 0 then
        let s = upd_data bp (\<lambda>d. take off d @ replicate DINODE_SIZE 0 @ drop (off + DINODE_SIZE) d) s;
            s = upd_data bp (\<lambda>d. put16 d off type) s in
        bindr (log_write bp s) (\<lambda>_ s.
        bindr (brelse bp s) (\<lambda>_ s.
        bindr (iget dev inum s) (\<lambda>ip s. Ret (Some ip) s)))
      else bindr (brelse bp s) (\<lambda>_ s. Ret None s)))"

definition ialloc :: "u32 \<Rightarrow> u16 \<Rightarrow> 'z fsst_scheme \<Rightarrow> (nat option, 'z fsst_scheme) res" where
  "ialloc dev type s =
     bindr (for_ret 1 (unat (sb_ninodes (sb s)) - 1) (ialloc_at dev type) s) (\<lambda>r s.
     case r of
       Some ip \<Rightarrow> Ret (Some ip) s
     | None \<Rightarrow> bindr (kprintf (''ialloc: no inodes'' @ [CHR 0x0A]) [] s) (\<lambda>_ s. Ret None s))"

definition iupdate :: "nat \<Rightarrow> 'z fsst_scheme \<Rightarrow> (unit, 'z fsst_scheme) res" where
  "iupdate ip s =
     bindr (bread (i_dev (ino ip s)) (IBLOCK (i_inum (ino ip s)) (sb s)) s) (\<lambda>bp s.
     let s = upd_data bp (put_dinode (ino ip s) (dinode_off (i_inum (ino ip s)))) s in
     bindr (log_write bp s) (\<lambda>_ s.
     brelse bp s))"

definition idup :: "nat \<Rightarrow> 'z fsst_scheme \<Rightarrow> (nat, 'z fsst_scheme) res" where
  "idup ip s =
     bindr (acquire Lk_itable s) (\<lambda>_ s.
     let s = upd_inode ip (\<lambda>x. x\<lparr>i_ref := i_ref x + 1\<rparr>) s in
     bindr (release Lk_itable s) (\<lambda>_ s. Ret ip s))"

definition ilock :: "nat option \<Rightarrow> 'z fsst_scheme \<Rightarrow> (unit, 'z fsst_scheme) res" where
  "ilock p s =
     (case p of
        None \<Rightarrow> Panic ''ilock''
      | Some ip \<Rightarrow>
          if i_ref (ino ip s) < 1 then Panic ''ilock''
          else
            bindr (acquiresleep (Lk_inode_sleep ip) s) (\<lambda>_ s.
            if i_valid (ino ip s) = 0 then
              bindr (bread (i_dev (ino ip s)) (IBLOCK (i_inum (ino ip s)) (sb s)) s) (\<lambda>bp s.
              let s = upd_inode ip (get_dinode (bdata bp s) (dinode_off (i_inum (ino ip s)))) s in
              bindr (brelse bp s) (\<lambda>_ s.
              let s = upd_inode ip (\<lambda>x. x\<lparr>i_valid := 1\<rparr>) s in
              if i_type (ino ip s) = 0 then Panic ''ilock: no type'' else Ret () s))
            else Ret () s))"

definition iunlock :: "nat option \<Rightarrow> 'z fsst_scheme \<Rightarrow> (unit, 'z fsst_scheme) res" where
  "iunlock p s =
     (case p of
        None \<Rightarrow> Panic ''iunlock''
      | Some ip \<Rightarrow>
          bindr (holdingsleep (Lk_inode_sleep ip) s) (\<lambda>h s.
          if \<not> h \<or> i_ref (ino ip s) < 1 then Panic ''iunlock''
          else releasesleep (Lk_inode_sleep ip) s))"

section \<open>Contents of inodes\<close>

text \<open>The block number at a place of an inode, allocated if there is none yet.\<close>

definition bmap_direct :: "nat \<Rightarrow> nat \<Rightarrow> 'z fsst_scheme \<Rightarrow> (u32, 'z fsst_scheme) res" where
  "bmap_direct ip k s =
     (let addr = i_addrs (ino ip s) ! k in
      if addr = 0 then
        bindr (balloc (i_dev (ino ip s)) s) (\<lambda>addr s.
        if addr = 0 then Ret 0 s
        else Ret addr (upd_inode ip (\<lambda>x. x\<lparr>i_addrs := (i_addrs x)[k := addr]\<rparr>) s))
      else Ret addr s)"

definition bmap :: "nat \<Rightarrow> u32 \<Rightarrow> 'z fsst_scheme \<Rightarrow> (u32, 'z fsst_scheme) res" where
  "bmap ip bn s =
     (if unat bn < NDIRECT then bmap_direct ip (unat bn) s
      else
        let j = unat bn - NDIRECT in
        if j < NINDIRECT then
          bindr (bmap_direct ip NDIRECT s) (\<lambda>addr s.
          if addr = 0 then Ret 0 s
          else
            bindr (bread (i_dev (ino ip s)) addr s) (\<lambda>bp s.
            let addr = get32 (bdata bp s) (4 * j) in
            bindr (if addr = 0 then
                     bindr (balloc (i_dev (ino ip s)) s) (\<lambda>addr s.
                     if addr \<noteq> 0 then
                       let s = upd_data bp (\<lambda>d. put32 d (4 * j) addr) s in
                       bindr (log_write bp s) (\<lambda>_ s. Ret addr s)
                     else Ret addr s)
                   else Ret addr s) (\<lambda>addr s.
            bindr (brelse bp s) (\<lambda>_ s. Ret addr s))))
        else Panic ''bmap: out of range'')"

definition itrunc :: "nat \<Rightarrow> 'z fsst_scheme \<Rightarrow> (unit, 'z fsst_scheme) res" where
  "itrunc ip s =
     bindr (for_upto 0 NDIRECT (\<lambda>i s.
       let a = i_addrs (ino ip s) ! i in
       if a \<noteq> 0 then
         bindr (bfree (i_dev (ino ip s)) a s) (\<lambda>_ s.
         Ret () (upd_inode ip (\<lambda>x. x\<lparr>i_addrs := (i_addrs x)[i := 0]\<rparr>) s))
       else Ret () s) s) (\<lambda>_ s.
     bindr (let a = i_addrs (ino ip s) ! NDIRECT in
       if a \<noteq> 0 then
         bindr (bread (i_dev (ino ip s)) a s) (\<lambda>bp s.
         bindr (for_upto 0 NINDIRECT (\<lambda>j s.
           let b = get32 (bdata bp s) (4 * j) in
           if b \<noteq> 0 then bfree (i_dev (ino ip s)) b s else Ret () s) s) (\<lambda>_ s.
         bindr (brelse bp s) (\<lambda>_ s.
         bindr (bfree (i_dev (ino ip s)) (i_addrs (ino ip s) ! NDIRECT) s) (\<lambda>_ s.
         Ret () (upd_inode ip (\<lambda>x. x\<lparr>i_addrs := (i_addrs x)[NDIRECT := 0]\<rparr>) s)))))
       else Ret () s) (\<lambda>_ s.
     let s = upd_inode ip (\<lambda>x. x\<lparr>i_size := 0\<rparr>) s in
     iupdate ip s))"

definition iput :: "nat \<Rightarrow> 'z fsst_scheme \<Rightarrow> (unit, 'z fsst_scheme) res" where
  "iput ip s =
     bindr (acquire Lk_itable s) (\<lambda>_ s.
     bindr (if i_ref (ino ip s) = 1 \<and> i_valid (ino ip s) \<noteq> 0 \<and> i_nlink (ino ip s) = 0 then
              bindr (acquiresleep (Lk_inode_sleep ip) s) (\<lambda>_ s.
              bindr (release Lk_itable s) (\<lambda>_ s.
              bindr (itrunc ip s) (\<lambda>_ s.
              let s = upd_inode ip (\<lambda>x. x\<lparr>i_type := 0\<rparr>) s in
              bindr (iupdate ip s) (\<lambda>_ s.
              let s = upd_inode ip (\<lambda>x. x\<lparr>i_valid := 0\<rparr>) s in
              bindr (releasesleep (Lk_inode_sleep ip) s) (\<lambda>_ s.
              acquire Lk_itable s)))))
            else Ret () s) (\<lambda>_ s.
     let s = upd_inode ip (\<lambda>x. x\<lparr>i_ref := i_ref x - 1\<rparr>) s in
     release Lk_itable s))"

definition iunlockput :: "nat \<Rightarrow> 'z fsst_scheme \<Rightarrow> (unit, 'z fsst_scheme) res" where
  "iunlockput ip s = bindr (iunlock (Some ip) s) (\<lambda>_ s. iput ip s)"

definition ireclaim_at :: "int \<Rightarrow> nat \<Rightarrow> 'z fsst_scheme \<Rightarrow> (unit, 'z fsst_scheme) res" where
  "ireclaim_at dev k s =
     (let inum = of_nat k; off = dinode_off inum in
      bindr (bread (word_of_int dev) (IBLOCK inum (sb s)) s) (\<lambda>bp s.
      bindr (if get16 (bdata bp s) off \<noteq> 0 \<and> get16 (bdata bp s) (off + 6) = 0 then
               bindr (kprintf (''ireclaim: orphaned inode %d'' @ [CHR 0x0A]) [VInt (of_nat k)] s) (\<lambda>_ s.
               bindr (iget (word_of_int dev) inum s) (\<lambda>ip s. Ret (Some ip) s))
             else Ret None s) (\<lambda>r s.
      bindr (brelse bp s) (\<lambda>_ s.
      case r of
        None \<Rightarrow> Ret () s
      | Some ip \<Rightarrow>
          bindr (begin_op s) (\<lambda>_ s.
          bindr (ilock (Some ip) s) (\<lambda>_ s.
          bindr (iunlock (Some ip) s) (\<lambda>_ s.
          bindr (iput ip s) (\<lambda>_ s.
          end_op s)))))))) "

definition ireclaim :: "int \<Rightarrow> 'z fsst_scheme \<Rightarrow> (unit, 'z fsst_scheme) res" where
  "ireclaim dev s = for_upto 1 (unat (sb_ninodes (sb s)) - 1) (ireclaim_at dev) s"

definition fsinit :: "int \<Rightarrow> 'z fsst_scheme \<Rightarrow> (unit, 'z fsst_scheme) res" where
  "fsinit dev s =
     bindr (readsb dev s) (\<lambda>_ s.
     if sb_magic (sb s) \<noteq> FSMAGIC then Panic ''invalid file system''
     else bindr (initlog dev (sb s) s) (\<lambda>_ s. ireclaim dev s))"

definition stati :: "nat \<Rightarrow> 'z fsst_scheme \<Rightarrow> stat" where
  "stati ip s = (let x = ino ip s in
     \<lparr>st_dev = i_dev x, st_ino = i_inum x, st_type = i_type x, st_nlink = i_nlink x, st_size = ucast (i_size x)\<rparr>)"

text \<open>The part of a block that one turn of the loops of \<open>readi\<close> and \<open>writei\<close> transfers.\<close>

definition chunk :: "u32 \<Rightarrow> nat \<Rightarrow> nat" where
  "chunk off rem = min rem (BSIZE - unat off mod BSIZE)"

lemma BSIZE_pos [simp]: "0 < BSIZE" "unat (off :: u32) mod BSIZE < BSIZE"
  by (simp_all add: BSIZE_def)

lemma chunk_pos: "0 < rem \<Longrightarrow> 0 < chunk off rem" "chunk off rem \<le> rem"
  by (simp_all add: chunk_def)

text \<open>
  The loop of \<open>readi\<close> with \<open>rem\<close> bytes to go. The result has the bytes read and whether a copy
  failed.
\<close>

function readi_loop :: "nat \<Rightarrow> dest \<Rightarrow> u32 \<Rightarrow> nat \<Rightarrow> 'z fsst_scheme \<Rightarrow> (u8 list \<times> bool, 'z fsst_scheme) res" where
  "readi_loop ip dst off rem s =
     (if rem = 0 then Ret ([], False) s
      else
        bindr (bmap ip (of_nat (unat off div BSIZE)) s) (\<lambda>addr s.
        if addr = 0 then Ret ([], False) s
        else
          bindr (bread (i_dev (ino ip s)) addr s) (\<lambda>bp s.
          let m = chunk off rem; bs = take m (drop (unat off mod BSIZE) (bdata bp s)) in
          bindr (either_copyout dst bs s) (\<lambda>r s.
          if r = -1 then bindr (brelse bp s) (\<lambda>_ s. Ret ([], True) s)
          else
            bindr (brelse bp s) (\<lambda>_ s.
            bindr (readi_loop ip (dst_plus dst m) (off + of_nat m) (rem - m) s) (\<lambda>(rest, failed) s.
            Ret (bs @ rest, failed) s))))))"
  by pat_completeness auto
termination
  by (relation "measure (\<lambda>(_, _, _, rem, _). rem)") (auto simp: chunk_pos)

declare readi_loop.simps [simp del]

definition readi :: "nat \<Rightarrow> dest \<Rightarrow> u32 \<Rightarrow> u32 \<Rightarrow> 'z fsst_scheme \<Rightarrow> (int \<times> u8 list, 'z fsst_scheme) res" where
  "readi ip dst off n s =
     (let size = i_size (ino ip s) in
      if off > size \<or> off + n < off then Ret (0, []) s
      else
        let n = (if off + n > size then size - off else n) in
        bindr (readi_loop ip dst off (unat n) s) (\<lambda>(bs, failed) s.
        Ret (if failed then -1 else int (length bs), bs) s))"

text \<open>The loop of \<open>writei\<close>; the result is the number of bytes written.\<close>

function writei_loop :: "nat \<Rightarrow> origin \<Rightarrow> u32 \<Rightarrow> nat \<Rightarrow> 'z fsst_scheme \<Rightarrow> (nat, 'z fsst_scheme) res" where
  "writei_loop ip src off rem s =
     (if rem = 0 then Ret 0 s
      else
        bindr (bmap ip (of_nat (unat off div BSIZE)) s) (\<lambda>addr s.
        if addr = 0 then Ret 0 s
        else
          bindr (bread (i_dev (ino ip s)) addr s) (\<lambda>bp s.
          let m = chunk off rem; o0 = unat off mod BSIZE in
          bindr (either_copyin src m s) (\<lambda>(r, bs) s.
          let s = upd_data bp (\<lambda>d. take o0 d @ bs @ drop (o0 + length bs) d) s in
          if r = -1 then bindr (brelse bp s) (\<lambda>_ s. Ret 0 s)
          else
            bindr (log_write bp s) (\<lambda>_ s.
            bindr (brelse bp s) (\<lambda>_ s.
            bindr (writei_loop ip (src_plus src m) (off + of_nat m) (rem - m) s) (\<lambda>k s.
            Ret (m + k) s)))))))"
  by pat_completeness auto
termination
  by (relation "measure (\<lambda>(_, _, _, rem, _). rem)") (auto simp: chunk_pos)

declare writei_loop.simps [simp del]

definition writei :: "nat \<Rightarrow> origin \<Rightarrow> u32 \<Rightarrow> u32 \<Rightarrow> 'z fsst_scheme \<Rightarrow> (int, 'z fsst_scheme) res" where
  "writei ip src off n s =
     (if off > i_size (ino ip s) \<or> off + n < off then Ret (-1) s
      else if unat (off + n) > MAXFILE * BSIZE then Ret (-1) s
      else
        bindr (writei_loop ip src off (unat n) s) (\<lambda>tot s.
        let off = off + of_nat tot;
            s = (if off > i_size (ino ip s) then upd_inode ip (\<lambda>x. x\<lparr>i_size := off\<rparr>) s else s) in
        bindr (iupdate ip s) (\<lambda>_ s. Ret (int tot) s)))"

section \<open>Directories\<close>

abbreviation chars :: "u8 list \<Rightarrow> bytes" where "chars \<equiv> map (\<lambda>b. char_of (unat b))"
abbreviation octets :: "bytes \<Rightarrow> u8 list" where "octets \<equiv> map (\<lambda>c. of_nat (of_char c))"

definition namecmp :: "bytes \<Rightarrow> bytes \<Rightarrow> int option" where
  "namecmp s t = strncmp s t DIRSIZ"

text \<open>A directory entry as it is in the directory: the inode number and the name.\<close>

definition de_inum :: "u8 list \<Rightarrow> u16" where "de_inum d = get16 d 0"
definition de_name :: "u8 list \<Rightarrow> bytes" where "de_name d = chars (drop 2 d)"

definition read_dirent :: "string \<Rightarrow> nat \<Rightarrow> nat \<Rightarrow> 'z fsst_scheme \<Rightarrow> (u8 list, 'z fsst_scheme) res" where
  "read_dirent msg dp k s =
     bindr (readi dp Local_dst (of_nat (k * DIRENT_SIZE)) (of_nat DIRENT_SIZE) s) (\<lambda>(r, de) s.
     if r \<noteq> int DIRENT_SIZE then Panic msg else Ret de s)"

definition dir_slots :: "nat \<Rightarrow> 'z fsst_scheme \<Rightarrow> nat" where
  "dir_slots dp s = (unat (i_size (ino dp s)) + DIRENT_SIZE - 1) div DIRENT_SIZE"

text \<open>The result is the inode and the offset of its entry.\<close>

definition dirlookup :: "nat \<Rightarrow> bytes \<Rightarrow> 'z fsst_scheme \<Rightarrow> ((nat \<times> u32) option, 'z fsst_scheme) res" where
  "dirlookup dp name s =
     (if i_type (ino dp s) \<noteq> T_DIR then Panic ''dirlookup not DIR''
      else for_ret 0 (dir_slots dp s) (\<lambda>k s.
        bindr (read_dirent ''dirlookup read'' dp k s) (\<lambda>de s.
        if de_inum de = 0 then Ret None s
        else
          bindr (in_object (namecmp name (de_name de)) s) (\<lambda>c s.
          if c = 0 then
            bindr (iget (i_dev (ino dp s)) (ucast (de_inum de)) s) (\<lambda>ip s.
            Ret (Some (ip, of_nat (k * DIRENT_SIZE))) s)
          else Ret None s))) s)"

definition dirlink :: "nat \<Rightarrow> bytes \<Rightarrow> u32 \<Rightarrow> 'z fsst_scheme \<Rightarrow> (int, 'z fsst_scheme) res" where
  "dirlink dp name inum s =
     bindr (dirlookup dp name s) (\<lambda>r s.
     case r of
       Some (ip, _) \<Rightarrow> bindr (iput ip s) (\<lambda>_ s. Ret (-1) s)
     | None \<Rightarrow>
         bindr (for_ret 0 (dir_slots dp s) (\<lambda>k s.
           bindr (read_dirent ''dirlink read'' dp k s) (\<lambda>de s.
           Ret (if de_inum de = 0 then Some k else None) s)) s) (\<lambda>r s.
         let k = (case r of Some k \<Rightarrow> k | None \<Rightarrow> dir_slots dp s) in
         bindr (in_object (strncpy (replicate DIRSIZ NUL) name DIRSIZ) s) (\<lambda>nm s.
         let de = put16 [0, 0] 0 (ucast inum) @ octets nm in
         bindr (writei dp (Local_src de) (of_nat (k * DIRENT_SIZE)) (of_nat DIRENT_SIZE) s) (\<lambda>r s.
         Ret (if r \<noteq> int DIRENT_SIZE then -1 else 0) s))))"

section \<open>Path names\<close>

text \<open>
  \<open>skipelem\<close> returns the rest of the path and the buffer for the name, or \<open>None\<close> when there is
  no element. The buffer is an array of \<open>DIRSIZ\<close> characters.
\<close>

definition skip_slashes :: "bytes \<Rightarrow> bytes" where
  "skip_slashes path = dropWhile (\<lambda>c. c = CHR ''/'') path"

definition skipelem :: "bytes \<Rightarrow> bytes \<Rightarrow> (bytes \<times> bytes) option" where
  "skipelem path name =
     (let s = skip_slashes path in
      if hd0 s = NUL then None
      else
        let path = dropWhile (\<lambda>c. c \<noteq> CHR ''/'' \<and> c \<noteq> NUL) s;
            elem = takeWhile (\<lambda>c. c \<noteq> CHR ''/'' \<and> c \<noteq> NUL) s;
            name = (if length elem \<ge> DIRSIZ then take DIRSIZ elem @ drop DIRSIZ name
                    else elem @ [NUL] @ drop (length elem + 1) name)
        in Some (skip_slashes path, name))"

lemma skipelem_shorter:
  assumes "skipelem path name = Some (path', name')"
  shows "length path' < length path"
proof -
  let ?s = "skip_slashes path"
  have s: "?s \<noteq> []" "hd ?s \<noteq> NUL"
    using assms by (auto simp: skipelem_def hd0_def Let_def split: list.splits if_splits)
  then have "hd ?s \<noteq> CHR ''/''"
    using hd_dropWhile[of "\<lambda>c. c = CHR ''/''" path] by (simp add: skip_slashes_def)
  then have "length (dropWhile (\<lambda>c. c \<noteq> CHR ''/'' \<and> c \<noteq> NUL) ?s) < length ?s"
    using s by (cases ?s) (auto simp: less_Suc_eq_le length_dropWhile_le)
  moreover have "path' = skip_slashes (dropWhile (\<lambda>c. c \<noteq> CHR ''/'' \<and> c \<noteq> NUL) ?s)"
    using assms s by (auto simp: skipelem_def Let_def split: if_splits)
  moreover have "length (skip_slashes q) \<le> length q" for q by (simp add: skip_slashes_def length_dropWhile_le)
  ultimately show ?thesis by (meson le_less_trans less_le_trans)
qed

function namex_loop :: "bool \<Rightarrow> bytes \<Rightarrow> bytes \<Rightarrow> nat \<Rightarrow> 'z fsst_scheme \<Rightarrow> ((nat \<times> bytes) option, 'z fsst_scheme) res" where
  "namex_loop parent path name ip s =
     (case skipelem path name of
        None \<Rightarrow>
          if parent then bindr (iput ip s) (\<lambda>_ s. Ret None s)
          else Ret (Some (ip, name)) s
      | Some (path, name) \<Rightarrow>
          bindr (ilock (Some ip) s) (\<lambda>_ s.
          if i_type (ino ip s) \<noteq> T_DIR then bindr (iunlockput ip s) (\<lambda>_ s. Ret None s)
          else if parent \<and> hd0 path = NUL then
            bindr (iunlock (Some ip) s) (\<lambda>_ s. Ret (Some (ip, name)) s)
          else
            bindr (dirlookup ip name s) (\<lambda>r s.
            case r of
              None \<Rightarrow> bindr (iunlockput ip s) (\<lambda>_ s. Ret None s)
            | Some (next, _) \<Rightarrow>
                bindr (iunlockput ip s) (\<lambda>_ s. namex_loop parent path name next s))))"
  by pat_completeness auto
termination
  by (relation "measure (\<lambda>(_, path, _). length path)") (auto dest: skipelem_shorter)

declare namex_loop.simps [simp del]

definition namex :: "bytes \<Rightarrow> bool \<Rightarrow> bytes \<Rightarrow> 'z fsst_scheme \<Rightarrow> ((nat \<times> bytes) option, 'z fsst_scheme) res" where
  "namex path parent name s =
     bindr (if hd0 path = CHR ''/'' then iget ROOTDEV ROOTINO s
            else
              bindr (curproc s) (\<lambda>p s.
              case p_cwd (procs s ! p) of
                None \<Rightarrow> Panic ''null dereference''
              | Some d \<Rightarrow> idup d s)) (\<lambda>ip s.
     namex_loop parent path name ip s)"

definition namei :: "bytes \<Rightarrow> 'z fsst_scheme \<Rightarrow> (nat option, 'z fsst_scheme) res" where
  "namei path s =
     bindr (namex path False (replicate DIRSIZ NUL) s) (\<lambda>r s. Ret (map_option fst r) s)"

definition nameiparent :: "bytes \<Rightarrow> bytes \<Rightarrow> 'z fsst_scheme \<Rightarrow> ((nat \<times> bytes) option, 'z fsst_scheme) res" where
  "nameiparent path name s = namex path True name s"

end
