(* ===== verification/Ring.thy ===== *)
theory Ring
  imports Prelude
begin

text \<open>
  Circular buffers indexed by free-running 32-bit counters, as pipes and the console use them:
  the counters wrap around at \<open>2 ^ 32\<close>, and the array is indexed by a counter modulo its size.
  The contents are those between the counter of the reader and the counter of the writer. A size
  that divides \<open>2 ^ 32\<close> is what makes the scheme work across the wrap-around.
\<close>

definition rb_ix :: "nat \<Rightarrow> u32 \<Rightarrow> nat" where
  "rb_ix N i = unat i mod N"

definition rb_list :: "nat \<Rightarrow> 'a list \<Rightarrow> u32 \<Rightarrow> u32 \<Rightarrow> 'a list" where
  "rb_list N d r w = map (\<lambda>k. d ! rb_ix N (r + of_nat k)) [0..<unat (w - r)]"

lemma length_rb_list [simp]: "length (rb_list N d r w) = unat (w - r)"
  by (simp add: rb_list_def)

lemma unat_counter:
  fixes r w :: u32
  assumes "w \<noteq> r"
  shows "unat (w - r) = Suc (unat (w - (r + 1)))"
  using assms unat_minus_one[of "w - r"] unat_eq_0[of "w - r"] by (simp add: algebra_simps)

lemma unat_counter_push:
  fixes r w :: u32
  assumes "unat (w - r) < n" and "n < 2 ^ 32"
  shows "unat (w + 1 - r) = Suc (unat (w - r))"
proof -
  have "w - r + 1 \<noteq> 0"
  proof
    assume "w - r + 1 = 0"
    then have "w - r = -1" by (simp add: eq_neg_iff_add_eq_0)
    then have "unat (w - r) = unat (-1 :: u32)" by simp
    also have "\<dots> = 2 ^ 32 - 1" by (simp add: unsigned_minus_1_eq_mask mask_eq_exp_minus_1)
    finally have "unat (w - r) = 2 ^ 32 - 1" .
    then show False using assms by simp
  qed
  then have "unat (w - r + 1) = Suc (unat (w - r))" using unatSuc[of "w - r"] by (simp add: add.commute)
  then show ?thesis by (simp add: algebra_simps)
qed

text \<open>Taking from the front.\<close>

lemma rb_list_pop:
  assumes "r \<noteq> w"
  shows "rb_list N d r w = d ! rb_ix N r # rb_list N d (r + 1) w"
proof -
  have n: "unat (w - r) = Suc (unat (w - (r + 1)))" using assms by (intro unat_counter) simp
  have "map (\<lambda>k. d ! rb_ix N (r + of_nat k)) [0..<Suc m] =
      d ! rb_ix N r # map (\<lambda>k. d ! rb_ix N (r + 1 + of_nat k)) [0..<m]" for m
    by (induction m) (simp_all add: algebra_simps)
  then show ?thesis by (simp only: rb_list_def n)
qed

lemma rb_list_empty: "rb_list N d r w = [] \<longleftrightarrow> r = w"
  using rb_list_pop[of r w N d] by (cases "r = w") (auto simp: rb_list_def)

text \<open>The laws of a buffer of a given size.\<close>

locale ring_buffer =
  fixes N :: nat
  assumes pos: "0 < N" and divides: "N dvd 2 ^ 32" and bounded: "N < 2 ^ 32"
begin

lemma ix_less: "rb_ix N i < N"
  using pos by (simp add: rb_ix_def)

lemma ix_shift: "rb_ix N (r + of_nat k) = (unat r + k) mod N"
proof -
  have "unat (r + of_nat k) = (unat r + k) mod 2 ^ 32"
    by (simp add: unat_word_ariths(1) unat_of_nat take_bit_eq_mod mod_add_right_eq)
  then show ?thesis using divides by (simp add: rb_ix_def mod_mod_cancel)
qed

lemma ix_distinct:
  assumes "i < N" and "k < N" and "rb_ix N (r + of_nat i) = rb_ix N (r + of_nat k)"
  shows "i = k"
proof -
  have *: "a = b" if "a \<le> b" "b < N" "(unat r + a) mod N = (unat r + b) mod N" for a b
  proof -
    have "N dvd b - a" using that(1,3) mod_eq_dvd_iff_nat[of "unat r + a" "unat r + b" N] by simp
    then show ?thesis using that(1,2) by (metis dvd_imp_le diff_is_0_eq le_antisym less_imp_diff_less not_le not_gr0)
  qed
  show ?thesis
    using assms(3) *[of i k] *[of k i] assms(1,2) unfolding ix_shift by (cases "i \<le> k") simp_all
qed

text \<open>Adding at the back, as long as there is room.\<close>

lemma rb_list_push:
  assumes "length d = N" and "unat (w - r) < N"
  shows "rb_list N (d[rb_ix N w := x]) r (w + 1) = rb_list N d r w @ [x]"
proof -
  have n: "unat (w + 1 - r) = Suc (unat (w - r))" using assms(2) bounded by (rule unat_counter_push)
  have w: "w = r + of_nat (unat (w - r))" by simp
  have "d[rb_ix N w := x] ! rb_ix N (r + of_nat k) = d ! rb_ix N (r + of_nat k)" if "k < unat (w - r)" for k
    using ix_distinct[of "unat (w - r)" k r] that assms(2) w by (intro nth_list_update_neq) auto
  moreover have "d[rb_ix N w := x] ! rb_ix N (r + of_nat (unat (w - r))) = x" using assms(1) ix_less w by simp
  ultimately show ?thesis by (simp add: rb_list_def n)
qed

end

text \<open>The last element, and its removal.\<close>

lemma rb_list_unpush:
  assumes "r \<noteq> w"
  shows "rb_list N d r w = rb_list N d r (w - 1) @ [d ! rb_ix N (w - 1)]"
proof -
  have "unat (w - r) = Suc (unat (w - 1 - r))" using unat_counter[OF assms[symmetric]] by (simp add: algebra_simps)
  then show ?thesis by (simp add: rb_list_def)
qed

lemma rb_list_split:
  assumes "unat (w - r) \<le> unat (e - r)"
  shows "rb_list N d r e = rb_list N d r w @ rb_list N d w e"
proof -
  have e: "e - w = (e - r) - (w - r)" by simp
  have n: "unat (e - w) = unat (e - r) - unat (w - r)"
    unfolding e using assms by (intro unat_sub) (simp add: word_le_nat_alt)
  have "map (\<lambda>k. d ! rb_ix N (r + of_nat k)) [a..<a + b] = map (\<lambda>k. d ! rb_ix N (r + of_nat a + of_nat k)) [0..<b]" for a b
    by (induction b) (simp_all add: algebra_simps)
  from this[of "unat (w - r)" "unat (e - w)"] show ?thesis
    using assms upt_add_eq_append[of 0 "unat (w - r)" "unat (e - w)"] n by (simp add: rb_list_def)
qed

end
