(* ===== verification/Console.thy ===== *)
theory Console
  imports Fs Ring
begin

text \<open>
  The console and the UART: \<open>kernel/console.c\<close>, the interrupt-driven half of \<open>kernel/uart.c\<close>,
  and \<open>procdump\<close> of \<open>kernel/proc.c\<close>. The device is seen through its registers: the bytes that
  wait in the receive register, the writes to the control registers, and those to the transmit
  register, which \<open>kernel/printf.c\<close> shares.
\<close>

section \<open>State\<close>

definition INPUT_BUF_SIZE :: nat where "INPUT_BUF_SIZE = 128"

record cons =
  c_buf :: "u8 list"
  c_r :: u32
  c_w :: u32
  c_e :: u32

record consst = fsst +
  cns :: cons
  tx_busy :: int
  rhr :: "u8 list"
  uregs :: "(nat \<times> u8) list"

text \<open>Updates of different fields are kept in the order of the fields.\<close>

lemma consst_order [simp]:
  "hw_update f0 (cns_update g0 s) = cns_update g0 (hw_update f0 s)"
  "hw_update f1 (tx_busy_update g1 s) = tx_busy_update g1 (hw_update f1 s)"
  "hw_update f2 (rhr_update g2 s) = rhr_update g2 (hw_update f2 s)"
  "hw_update f3 (uregs_update g3 s) = uregs_update g3 (hw_update f3 s)"
  "ticks_update f4 (cns_update g4 s) = cns_update g4 (ticks_update f4 s)"
  "ticks_update f5 (tx_busy_update g5 s) = tx_busy_update g5 (ticks_update f5 s)"
  "ticks_update f6 (rhr_update g6 s) = rhr_update g6 (ticks_update f6 s)"
  "ticks_update f7 (uregs_update g7 s) = uregs_update g7 (ticks_update f7 s)"
  "rooms_update f8 (cns_update g8 s) = cns_update g8 (rooms_update f8 s)"
  "rooms_update f9 (tx_busy_update g9 s) = tx_busy_update g9 (rooms_update f9 s)"
  "rooms_update f10 (rhr_update g10 s) = rhr_update g10 (rooms_update f10 s)"
  "rooms_update f11 (uregs_update g11 s) = uregs_update g11 (rooms_update f11 s)"
  "lighting_initialized_update f12 (cns_update g12 s) = cns_update g12 (lighting_initialized_update f12 s)"
  "lighting_initialized_update f13 (tx_busy_update g13 s) = tx_busy_update g13 (lighting_initialized_update f13 s)"
  "lighting_initialized_update f14 (rhr_update g14 s) = rhr_update g14 (lighting_initialized_update f14 s)"
  "lighting_initialized_update f15 (uregs_update g15 s) = uregs_update g15 (lighting_initialized_update f15 s)"
  "roomenv_room_update f16 (cns_update g16 s) = cns_update g16 (roomenv_room_update f16 s)"
  "roomenv_room_update f17 (tx_busy_update g17 s) = tx_busy_update g17 (roomenv_room_update f17 s)"
  "roomenv_room_update f18 (rhr_update g18 s) = rhr_update g18 (roomenv_room_update f18 s)"
  "roomenv_room_update f19 (uregs_update g19 s) = uregs_update g19 (roomenv_room_update f19 s)"
  "mem_update f20 (cns_update g20 s) = cns_update g20 (mem_update f20 s)"
  "mem_update f21 (tx_busy_update g21 s) = tx_busy_update g21 (mem_update f21 s)"
  "mem_update f22 (rhr_update g22 s) = rhr_update g22 (mem_update f22 s)"
  "mem_update f23 (uregs_update g23 s) = uregs_update g23 (mem_update f23 s)"
  "freelist_update f24 (cns_update g24 s) = cns_update g24 (freelist_update f24 s)"
  "freelist_update f25 (tx_busy_update g25 s) = tx_busy_update g25 (freelist_update f25 s)"
  "freelist_update f26 (rhr_update g26 s) = rhr_update g26 (freelist_update f26 s)"
  "freelist_update f27 (uregs_update g27 s) = uregs_update g27 (freelist_update f27 s)"
  "kend_update f28 (cns_update g28 s) = cns_update g28 (kend_update f28 s)"
  "kend_update f29 (tx_busy_update g29 s) = tx_busy_update g29 (kend_update f29 s)"
  "kend_update f30 (rhr_update g30 s) = rhr_update g30 (kend_update f30 s)"
  "kend_update f31 (uregs_update g31 s) = uregs_update g31 (kend_update f31 s)"
  "procs_update f32 (cns_update g32 s) = cns_update g32 (procs_update f32 s)"
  "procs_update f33 (tx_busy_update g33 s) = tx_busy_update g33 (procs_update f33 s)"
  "procs_update f34 (rhr_update g34 s) = rhr_update g34 (procs_update f34 s)"
  "procs_update f35 (uregs_update g35 s) = uregs_update g35 (procs_update f35 s)"
  "initproc_update f36 (cns_update g36 s) = cns_update g36 (initproc_update f36 s)"
  "initproc_update f37 (tx_busy_update g37 s) = tx_busy_update g37 (initproc_update f37 s)"
  "initproc_update f38 (rhr_update g38 s) = rhr_update g38 (initproc_update f38 s)"
  "initproc_update f39 (uregs_update g39 s) = uregs_update g39 (initproc_update f39 s)"
  "nextpid_update f40 (cns_update g40 s) = cns_update g40 (nextpid_update f40 s)"
  "nextpid_update f41 (tx_busy_update g41 s) = tx_busy_update g41 (nextpid_update f41 s)"
  "nextpid_update f42 (rhr_update g42 s) = rhr_update g42 (nextpid_update f42 s)"
  "nextpid_update f43 (uregs_update g43 s) = uregs_update g43 (nextpid_update f43 s)"
  "slocks_update f44 (cns_update g44 s) = cns_update g44 (slocks_update f44 s)"
  "slocks_update f45 (tx_busy_update g45 s) = tx_busy_update g45 (slocks_update f45 s)"
  "slocks_update f46 (rhr_update g46 s) = rhr_update g46 (slocks_update f46 s)"
  "slocks_update f47 (uregs_update g47 s) = uregs_update g47 (slocks_update f47 s)"
  "mtime_update f48 (cns_update g48 s) = cns_update g48 (mtime_update f48 s)"
  "mtime_update f49 (tx_busy_update g49 s) = tx_busy_update g49 (mtime_update f49 s)"
  "mtime_update f50 (rhr_update g50 s) = rhr_update g50 (mtime_update f50 s)"
  "mtime_update f51 (uregs_update g51 s) = uregs_update g51 (mtime_update f51 s)"
  "stimecmp_update f52 (cns_update g52 s) = cns_update g52 (stimecmp_update f52 s)"
  "stimecmp_update f53 (tx_busy_update g53 s) = tx_busy_update g53 (stimecmp_update f53 s)"
  "stimecmp_update f54 (rhr_update g54 s) = rhr_update g54 (stimecmp_update f54 s)"
  "stimecmp_update f55 (uregs_update g55 s) = uregs_update g55 (stimecmp_update f55 s)"
  "kernel_pagetable_update f56 (cns_update g56 s) = cns_update g56 (kernel_pagetable_update f56 s)"
  "kernel_pagetable_update f57 (tx_busy_update g57 s) = tx_busy_update g57 (kernel_pagetable_update f57 s)"
  "kernel_pagetable_update f58 (rhr_update g58 s) = rhr_update g58 (kernel_pagetable_update f58 s)"
  "kernel_pagetable_update f59 (uregs_update g59 s) = uregs_update g59 (kernel_pagetable_update f59 s)"
  "etext_update f60 (cns_update g60 s) = cns_update g60 (etext_update f60 s)"
  "etext_update f61 (tx_busy_update g61 s) = tx_busy_update g61 (etext_update f61 s)"
  "etext_update f62 (rhr_update g62 s) = rhr_update g62 (etext_update f62 s)"
  "etext_update f63 (uregs_update g63 s) = uregs_update g63 (etext_update f63 s)"
  "trampoline_update f64 (cns_update g64 s) = cns_update g64 (trampoline_update f64 s)"
  "trampoline_update f65 (tx_busy_update g65 s) = tx_busy_update g65 (trampoline_update f65 s)"
  "trampoline_update f66 (rhr_update g66 s) = rhr_update g66 (trampoline_update f66 s)"
  "trampoline_update f67 (uregs_update g67 s) = uregs_update g67 (trampoline_update f67 s)"
  "bufs_update f68 (cns_update g68 s) = cns_update g68 (bufs_update f68 s)"
  "bufs_update f69 (tx_busy_update g69 s) = tx_busy_update g69 (bufs_update f69 s)"
  "bufs_update f70 (rhr_update g70 s) = rhr_update g70 (bufs_update f70 s)"
  "bufs_update f71 (uregs_update g71 s) = uregs_update g71 (bufs_update f71 s)"
  "disk_update f72 (cns_update g72 s) = cns_update g72 (disk_update f72 s)"
  "disk_update f73 (tx_busy_update g73 s) = tx_busy_update g73 (disk_update f73 s)"
  "disk_update f74 (rhr_update g74 s) = rhr_update g74 (disk_update f74 s)"
  "disk_update f75 (uregs_update g75 s) = uregs_update g75 (disk_update f75 s)"
  "dtrace_update f76 (cns_update g76 s) = cns_update g76 (dtrace_update f76 s)"
  "dtrace_update f77 (tx_busy_update g77 s) = tx_busy_update g77 (dtrace_update f77 s)"
  "dtrace_update f78 (rhr_update g78 s) = rhr_update g78 (dtrace_update f78 s)"
  "dtrace_update f79 (uregs_update g79 s) = uregs_update g79 (dtrace_update f79 s)"
  "lg_update f80 (cns_update g80 s) = cns_update g80 (lg_update f80 s)"
  "lg_update f81 (tx_busy_update g81 s) = tx_busy_update g81 (lg_update f81 s)"
  "lg_update f82 (rhr_update g82 s) = rhr_update g82 (lg_update f82 s)"
  "lg_update f83 (uregs_update g83 s) = uregs_update g83 (lg_update f83 s)"
  "sb_update f84 (cns_update g84 s) = cns_update g84 (sb_update f84 s)"
  "sb_update f85 (tx_busy_update g85 s) = tx_busy_update g85 (sb_update f85 s)"
  "sb_update f86 (rhr_update g86 s) = rhr_update g86 (sb_update f86 s)"
  "sb_update f87 (uregs_update g87 s) = uregs_update g87 (sb_update f87 s)"
  "inodes_update f88 (cns_update g88 s) = cns_update g88 (inodes_update f88 s)"
  "inodes_update f89 (tx_busy_update g89 s) = tx_busy_update g89 (inodes_update f89 s)"
  "inodes_update f90 (rhr_update g90 s) = rhr_update g90 (inodes_update f90 s)"
  "inodes_update f91 (uregs_update g91 s) = uregs_update g91 (inodes_update f91 s)"
  "cns_update f92 (tx_busy_update g92 s) = tx_busy_update g92 (cns_update f92 s)"
  "cns_update f93 (rhr_update g93 s) = rhr_update g93 (cns_update f93 s)"
  "cns_update f94 (uregs_update g94 s) = uregs_update g94 (cns_update f94 s)"
  "tx_busy_update f95 (rhr_update g95 s) = rhr_update g95 (tx_busy_update f95 s)"
  "tx_busy_update f96 (uregs_update g96 s) = uregs_update g96 (tx_busy_update f96 s)"
  "rhr_update f97 (uregs_update g97 s) = uregs_update g97 (rhr_update f97 s)"
  by (induct s; simp)+

definition upd_cons :: "(cons \<Rightarrow> cons) \<Rightarrow> 'z consst_scheme \<Rightarrow> 'z consst_scheme" where
  "upd_cons f s = s\<lparr>cns := f (cns s)\<rparr>"

section \<open>The UART\<close>

definition IER_RX_ENABLE :: u8 where "IER_RX_ENABLE = 1"
definition IER_TX_ENABLE :: u8 where "IER_TX_ENABLE = 2"
definition FCR_FIFO_ENABLE :: u8 where "FCR_FIFO_ENABLE = 1"
definition FCR_FIFO_CLEAR :: u8 where "FCR_FIFO_CLEAR = 6"
definition LCR_EIGHT_BITS :: u8 where "LCR_EIGHT_BITS = 3"
definition LCR_BAUD_LATCH :: u8 where "LCR_BAUD_LATCH = 128"
definition LSR_RX_READY :: u8 where "LSR_RX_READY = 1"

definition WriteReg :: "nat \<Rightarrow> u8 \<Rightarrow> 'z consst_scheme \<Rightarrow> 'z consst_scheme" where
  "WriteReg r v s = s\<lparr>uregs := uregs s @ [(r, v)]\<rparr>"

text \<open>The line status register: bit 0 says whether input is waiting.\<close>

definition ReadLSR :: "'z consst_scheme \<Rightarrow> u8" where
  "ReadLSR s = (if rhr s = [] then lsr (hw s) AND NOT LSR_RX_READY else lsr (hw s) OR LSR_RX_READY)"

definition uartinit :: "'z consst_scheme \<Rightarrow> (unit, 'z consst_scheme) res" where
  "uartinit s =
     (let s = WriteReg 1 0x00 s;
          s = WriteReg 3 LCR_BAUD_LATCH s;
          s = WriteReg 0 0x03 s;
          s = WriteReg 1 0x00 s;
          s = WriteReg 3 LCR_EIGHT_BITS s;
          s = WriteReg 2 (FCR_FIFO_ENABLE OR FCR_FIFO_CLEAR) s;
          s = WriteReg 1 (IER_TX_ENABLE OR IER_RX_ENABLE) s
      in initlock Lk_tx ''uart'' s)"

text \<open>The loop of \<open>uartwrite\<close> with the bytes that are left; it is entered again after a sleep.\<close>

fun uartwrite_loop :: "u8 list \<Rightarrow> 'z consst_scheme \<Rightarrow> (unit, 'z consst_scheme) res" where
  "uartwrite_loop [] s = release Lk_tx s"
| "uartwrite_loop (c # cs) s =
     (if tx_busy s \<noteq> 0 then sleep_on Ch_tx_chan Lk_tx s
      else
        let s = s\<lparr>hw := (hw s)\<lparr>thr := thr (hw s) @ [char_of (unat c)]\<rparr>\<rparr>;
            s = s\<lparr>tx_busy := 1\<rparr>
        in uartwrite_loop cs s)"

definition uartwrite :: "u8 list \<Rightarrow> 'z consst_scheme \<Rightarrow> (unit, 'z consst_scheme) res" where
  "uartwrite buf s = bindr (acquire Lk_tx s) (\<lambda>_ s. uartwrite_loop buf s)"

definition uartwrite_resume :: "nat \<Rightarrow> bool \<Rightarrow> u8 list \<Rightarrow> 'z consst_scheme \<Rightarrow> (unit, 'z consst_scheme) res" where
  "uartwrite_resume p saved rest s =
     bindr (sleep_resume p saved Lk_tx s) (\<lambda>_ s. uartwrite_loop rest s)"

definition uartgetc :: "'z consst_scheme \<Rightarrow> int \<times> 'z consst_scheme" where
  "uartgetc s =
     (if ReadLSR s AND LSR_RX_READY \<noteq> 0 then (int (unat (hd (rhr s))), s\<lparr>rhr := tl (rhr s)\<rparr>)
      else (-1, s))"

section \<open>Printing the process table\<close>

fun state_name :: "procstate \<Rightarrow> bytes" where
  "state_name UNUSED = ''unused'' @ [NUL]"
| "state_name USED = ''used'' @ [NUL]"
| "state_name SLEEPING = ''sleep '' @ [NUL]"
| "state_name RUNNABLE = ''runble'' @ [NUL]"
| "state_name RUNNING = ''run   '' @ [NUL]"
| "state_name ZOMBIE = ''zombie'' @ [NUL]"

definition procdump :: "'z procst_scheme \<Rightarrow> (unit, 'z procst_scheme) res" where
  "procdump s =
     bindr (kprintf [CHR 0x0A] [] s) (\<lambda>_ s.
     for_upto 0 NPROC (\<lambda>i s.
       let p = procs s ! i in
       if p_state p = UNUSED then Ret () s
       else
         bindr (kprintf ''%d %s %s'' [VInt (word_of_int (p_pid p)), VStr (Some (state_name (p_state p))),
           VStr (Some (p_name p))] s) (\<lambda>_ s.
         bindr (kprintf [CHR 0x0A] [] s) (\<lambda>_ s. Ret () s))) s)"

section \<open>Console input\<close>

definition CtrlC :: "char \<Rightarrow> int" where "CtrlC c = of_char c - of_char CHR ''@''"

text \<open>The loop that erases the line, for at most the number of characters being edited.\<close>

fun kill_line :: "nat \<Rightarrow> 'z consst_scheme \<Rightarrow> (unit, 'z consst_scheme) res" where
  "kill_line 0 s = Ret () s"
| "kill_line (Suc n) s =
     (if c_e (cns s) \<noteq> c_w (cns s) \<and> c_buf (cns s) ! rb_ix INPUT_BUF_SIZE (c_e (cns s) - 1) \<noteq> 0x0A then
        let s = upd_cons (\<lambda>c. c\<lparr>c_e := c_e c - 1\<rparr>) s in
        bindr (consputc BACKSPACE s) (\<lambda>_ s. kill_line n s)
      else Ret () s)"

definition consoleintr :: "int \<Rightarrow> 'z consst_scheme \<Rightarrow> (unit, 'z consst_scheme) res" where
  "consoleintr c s =
     bindr (acquire Lk_cons s) (\<lambda>_ s.
     bindr
       (if c = CtrlC CHR ''P'' then procdump s
        else if c = CtrlC CHR ''U'' then kill_line (unat (c_e (cns s) - c_w (cns s))) s
        else if c = CtrlC CHR ''H'' \<or> c = 0x7F then
          if c_e (cns s) \<noteq> c_w (cns s) then
            let s = upd_cons (\<lambda>c. c\<lparr>c_e := c_e c - 1\<rparr>) s in consputc BACKSPACE s
          else Ret () s
        else if c \<noteq> 0 \<and> unat (c_e (cns s) - c_r (cns s)) < INPUT_BUF_SIZE then
          let c = (if c = 0x0D then 0x0A else c) in
          bindr (consputc c s) (\<lambda>_ s.
          let s = upd_cons (\<lambda>x. x\<lparr>c_buf := (c_buf x)[rb_ix INPUT_BUF_SIZE (c_e x) := word_of_int c], c_e := c_e x + 1\<rparr>) s in
          if c = 0x0A \<or> c = CtrlC CHR ''D'' \<or> unat (c_e (cns s) - c_r (cns s)) = INPUT_BUF_SIZE then
            let s = upd_cons (\<lambda>x. x\<lparr>c_w := c_e x\<rparr>) s in
            wakeup (Some Ch_cons_r) s
          else Ret () s)
        else Ret () s) (\<lambda>_ s.
     release Lk_cons s))"

text \<open>
  The loop of \<open>consoleread\<close> with the lock held and \<open>n\<close> bytes to go; \<open>None\<close> is the return value -1
  of a killed process. The bytes are those of a local destination.
\<close>

fun consoleread_loop :: "nat \<Rightarrow> nat \<Rightarrow> dest \<Rightarrow> 'z consst_scheme \<Rightarrow> ((nat \<times> u8 list) option, 'z consst_scheme) res" where
  "consoleread_loop target 0 dst s = Ret (Some (0, [])) s"
| "consoleread_loop target (Suc n) dst s =
     (if c_r (cns s) = c_w (cns s) then
        bindr (curproc s) (\<lambda>p s.
        bindr (killed p s) (\<lambda>k s.
        if k \<noteq> 0 then Ret None s
        else bindr (sleep_on Ch_cons_r Lk_cons s) (\<lambda>_ s. Ret None s)))
      else
        let c = c_buf (cns s) ! rb_ix INPUT_BUF_SIZE (c_r (cns s));
            s = upd_cons (\<lambda>x. x\<lparr>c_r := c_r x + 1\<rparr>) s in
        if int (unat c) = CtrlC CHR ''D'' then
          Ret (Some (Suc n, [])) (if Suc n < target then upd_cons (\<lambda>x. x\<lparr>c_r := c_r x - 1\<rparr>) s else s)
        else
          bindr (either_copyout dst [c] s) (\<lambda>r s.
          if r = -1 then Ret (Some (Suc n, [])) s
          else if c = 0x0A then Ret (Some (n, [c])) s
          else
            bindr (consoleread_loop target n (dst_plus dst 1) s) (\<lambda>r s.
            Ret (map_option (\<lambda>(left, bs). (left, c # bs)) r) s)))"

definition consoleread_finish :: "nat \<Rightarrow> (nat \<times> u8 list) option \<Rightarrow> 'z consst_scheme \<Rightarrow> (int \<times> u8 list, 'z consst_scheme) res" where
  "consoleread_finish target r s =
     bindr (release Lk_cons s) (\<lambda>_ s.
     case r of None \<Rightarrow> Ret (-1, []) s | Some (left, bs) \<Rightarrow> Ret (int target - int left, bs) s)"

definition consoleread :: "dest \<Rightarrow> int \<Rightarrow> 'z consst_scheme \<Rightarrow> (int \<times> u8 list, 'z consst_scheme) res" where
  "consoleread dst n s =
     bindr (acquire Lk_cons s) (\<lambda>_ s.
     bindr (consoleread_loop (nat n) (nat n) dst s) (\<lambda>r s.
     consoleread_finish (nat n) r s))"

definition consoleread_resume :: "nat \<Rightarrow> bool \<Rightarrow> nat \<Rightarrow> nat \<Rightarrow> dest \<Rightarrow> 'z consst_scheme \<Rightarrow> (int \<times> u8 list, 'z consst_scheme) res" where
  "consoleread_resume p saved target n dst s =
     bindr (sleep_resume p saved Lk_cons s) (\<lambda>_ s.
     bindr (consoleread_loop target n dst s) (\<lambda>r s.
     consoleread_finish target r s))"

text \<open>\<open>consolewrite\<close> sends batches of 32 bytes; the result counts the bytes sent.\<close>

function consolewrite_loop :: "origin \<Rightarrow> nat \<Rightarrow> 'z consst_scheme \<Rightarrow> (nat, 'z consst_scheme) res" where
  "consolewrite_loop src rem s =
     (if rem = 0 then Ret 0 s
      else
        let nn = min 32 rem in
        bindr (either_copyin src nn s) (\<lambda>(r, buf) s.
        if r = -1 then Ret 0 s
        else
          bindr (uartwrite buf s) (\<lambda>_ s.
          bindr (consolewrite_loop (src_plus src nn) (rem - nn) s) (\<lambda>k s. Ret (nn + k) s))))"
  by pat_completeness auto
termination
  by (relation "measure (\<lambda>(_, rem, _). rem)") auto

declare consolewrite_loop.simps [simp del]

definition consolewrite :: "origin \<Rightarrow> int \<Rightarrow> 'z consst_scheme \<Rightarrow> (int, 'z consst_scheme) res" where
  "consolewrite src n s = bindr (consolewrite_loop src (nat n) s) (\<lambda>k s. Ret (int k) s)"

section \<open>The interrupt\<close>

fun uart_drain :: "nat \<Rightarrow> 'z consst_scheme \<Rightarrow> (unit, 'z consst_scheme) res" where
  "uart_drain 0 s = Ret () s"
| "uart_drain (Suc n) s =
     (let (c, s) = uartgetc s in
      if c = -1 then Ret () s else bindr (consoleintr c s) (\<lambda>_ s. uart_drain n s))"

definition uartintr :: "'z consst_scheme \<Rightarrow> (unit, 'z consst_scheme) res" where
  "uartintr s =
     bindr (acquire Lk_tx s) (\<lambda>_ s.
     bindr (if ReadLSR s AND LSR_TX_IDLE \<noteq> 0
            then wakeup (Some Ch_tx_chan) (s\<lparr>tx_busy := 0\<rparr>)
            else Ret () s) (\<lambda>_ s.
     bindr (release Lk_tx s) (\<lambda>_ s.
     uart_drain (Suc (length (rhr s))) s)))"

end
