(* ===== verification/File.thy ===== *)
theory File
  imports Console
begin

text \<open>
  Open files and pipes, \<open>kernel/file.c\<close> and \<open>kernel/pipe.c\<close>. A pipe lives in a page of its own;
  the store \<open>pipes\<close> has the structure at each address. The device switch holds function pointers:
  the console is the only driver that is ever entered into it.
\<close>

section \<open>State\<close>

definition NFILE :: nat where "NFILE = 100"
definition NDEV :: nat where "NDEV = 10"
definition PIPESIZE :: nat where "PIPESIZE = 512"
definition CONSOLE :: nat where "CONSOLE = 1"

datatype ftype = FD_NONE | FD_PIPE | FD_INODE | FD_DEVICE

record filestruct =
  f_type :: ftype
  f_ref :: int
  f_readable :: u8
  f_writable :: u8
  f_pipe :: u64
  f_ip :: "nat option"
  f_off :: u32
  f_major :: u16

record pipe =
  pi_data :: "u8 list"
  pi_nread :: u32
  pi_nwrite :: u32
  pi_readopen :: int
  pi_writeopen :: int

datatype devfn = Dev_null | Dev_console

record filest = consst +
  files :: "filestruct list"
  pipes :: "u64 \<Rightarrow> pipe"
  dev_read :: "devfn list"
  dev_write :: "devfn list"

text \<open>Updates of different fields are kept in the order of the fields.\<close>

lemma filest_order [simp]:
  "hw_update f0 (files_update g0 s) = files_update g0 (hw_update f0 s)"
  "hw_update f1 (pipes_update g1 s) = pipes_update g1 (hw_update f1 s)"
  "hw_update f2 (dev_read_update g2 s) = dev_read_update g2 (hw_update f2 s)"
  "hw_update f3 (dev_write_update g3 s) = dev_write_update g3 (hw_update f3 s)"
  "ticks_update f4 (files_update g4 s) = files_update g4 (ticks_update f4 s)"
  "ticks_update f5 (pipes_update g5 s) = pipes_update g5 (ticks_update f5 s)"
  "ticks_update f6 (dev_read_update g6 s) = dev_read_update g6 (ticks_update f6 s)"
  "ticks_update f7 (dev_write_update g7 s) = dev_write_update g7 (ticks_update f7 s)"
  "rooms_update f8 (files_update g8 s) = files_update g8 (rooms_update f8 s)"
  "rooms_update f9 (pipes_update g9 s) = pipes_update g9 (rooms_update f9 s)"
  "rooms_update f10 (dev_read_update g10 s) = dev_read_update g10 (rooms_update f10 s)"
  "rooms_update f11 (dev_write_update g11 s) = dev_write_update g11 (rooms_update f11 s)"
  "lighting_initialized_update f12 (files_update g12 s) = files_update g12 (lighting_initialized_update f12 s)"
  "lighting_initialized_update f13 (pipes_update g13 s) = pipes_update g13 (lighting_initialized_update f13 s)"
  "lighting_initialized_update f14 (dev_read_update g14 s) = dev_read_update g14 (lighting_initialized_update f14 s)"
  "lighting_initialized_update f15 (dev_write_update g15 s) = dev_write_update g15 (lighting_initialized_update f15 s)"
  "roomenv_room_update f16 (files_update g16 s) = files_update g16 (roomenv_room_update f16 s)"
  "roomenv_room_update f17 (pipes_update g17 s) = pipes_update g17 (roomenv_room_update f17 s)"
  "roomenv_room_update f18 (dev_read_update g18 s) = dev_read_update g18 (roomenv_room_update f18 s)"
  "roomenv_room_update f19 (dev_write_update g19 s) = dev_write_update g19 (roomenv_room_update f19 s)"
  "mem_update f20 (files_update g20 s) = files_update g20 (mem_update f20 s)"
  "mem_update f21 (pipes_update g21 s) = pipes_update g21 (mem_update f21 s)"
  "mem_update f22 (dev_read_update g22 s) = dev_read_update g22 (mem_update f22 s)"
  "mem_update f23 (dev_write_update g23 s) = dev_write_update g23 (mem_update f23 s)"
  "freelist_update f24 (files_update g24 s) = files_update g24 (freelist_update f24 s)"
  "freelist_update f25 (pipes_update g25 s) = pipes_update g25 (freelist_update f25 s)"
  "freelist_update f26 (dev_read_update g26 s) = dev_read_update g26 (freelist_update f26 s)"
  "freelist_update f27 (dev_write_update g27 s) = dev_write_update g27 (freelist_update f27 s)"
  "kend_update f28 (files_update g28 s) = files_update g28 (kend_update f28 s)"
  "kend_update f29 (pipes_update g29 s) = pipes_update g29 (kend_update f29 s)"
  "kend_update f30 (dev_read_update g30 s) = dev_read_update g30 (kend_update f30 s)"
  "kend_update f31 (dev_write_update g31 s) = dev_write_update g31 (kend_update f31 s)"
  "procs_update f32 (files_update g32 s) = files_update g32 (procs_update f32 s)"
  "procs_update f33 (pipes_update g33 s) = pipes_update g33 (procs_update f33 s)"
  "procs_update f34 (dev_read_update g34 s) = dev_read_update g34 (procs_update f34 s)"
  "procs_update f35 (dev_write_update g35 s) = dev_write_update g35 (procs_update f35 s)"
  "initproc_update f36 (files_update g36 s) = files_update g36 (initproc_update f36 s)"
  "initproc_update f37 (pipes_update g37 s) = pipes_update g37 (initproc_update f37 s)"
  "initproc_update f38 (dev_read_update g38 s) = dev_read_update g38 (initproc_update f38 s)"
  "initproc_update f39 (dev_write_update g39 s) = dev_write_update g39 (initproc_update f39 s)"
  "nextpid_update f40 (files_update g40 s) = files_update g40 (nextpid_update f40 s)"
  "nextpid_update f41 (pipes_update g41 s) = pipes_update g41 (nextpid_update f41 s)"
  "nextpid_update f42 (dev_read_update g42 s) = dev_read_update g42 (nextpid_update f42 s)"
  "nextpid_update f43 (dev_write_update g43 s) = dev_write_update g43 (nextpid_update f43 s)"
  "slocks_update f44 (files_update g44 s) = files_update g44 (slocks_update f44 s)"
  "slocks_update f45 (pipes_update g45 s) = pipes_update g45 (slocks_update f45 s)"
  "slocks_update f46 (dev_read_update g46 s) = dev_read_update g46 (slocks_update f46 s)"
  "slocks_update f47 (dev_write_update g47 s) = dev_write_update g47 (slocks_update f47 s)"
  "mtime_update f48 (files_update g48 s) = files_update g48 (mtime_update f48 s)"
  "mtime_update f49 (pipes_update g49 s) = pipes_update g49 (mtime_update f49 s)"
  "mtime_update f50 (dev_read_update g50 s) = dev_read_update g50 (mtime_update f50 s)"
  "mtime_update f51 (dev_write_update g51 s) = dev_write_update g51 (mtime_update f51 s)"
  "stimecmp_update f52 (files_update g52 s) = files_update g52 (stimecmp_update f52 s)"
  "stimecmp_update f53 (pipes_update g53 s) = pipes_update g53 (stimecmp_update f53 s)"
  "stimecmp_update f54 (dev_read_update g54 s) = dev_read_update g54 (stimecmp_update f54 s)"
  "stimecmp_update f55 (dev_write_update g55 s) = dev_write_update g55 (stimecmp_update f55 s)"
  "kernel_pagetable_update f56 (files_update g56 s) = files_update g56 (kernel_pagetable_update f56 s)"
  "kernel_pagetable_update f57 (pipes_update g57 s) = pipes_update g57 (kernel_pagetable_update f57 s)"
  "kernel_pagetable_update f58 (dev_read_update g58 s) = dev_read_update g58 (kernel_pagetable_update f58 s)"
  "kernel_pagetable_update f59 (dev_write_update g59 s) = dev_write_update g59 (kernel_pagetable_update f59 s)"
  "etext_update f60 (files_update g60 s) = files_update g60 (etext_update f60 s)"
  "etext_update f61 (pipes_update g61 s) = pipes_update g61 (etext_update f61 s)"
  "etext_update f62 (dev_read_update g62 s) = dev_read_update g62 (etext_update f62 s)"
  "etext_update f63 (dev_write_update g63 s) = dev_write_update g63 (etext_update f63 s)"
  "trampoline_update f64 (files_update g64 s) = files_update g64 (trampoline_update f64 s)"
  "trampoline_update f65 (pipes_update g65 s) = pipes_update g65 (trampoline_update f65 s)"
  "trampoline_update f66 (dev_read_update g66 s) = dev_read_update g66 (trampoline_update f66 s)"
  "trampoline_update f67 (dev_write_update g67 s) = dev_write_update g67 (trampoline_update f67 s)"
  "bufs_update f68 (files_update g68 s) = files_update g68 (bufs_update f68 s)"
  "bufs_update f69 (pipes_update g69 s) = pipes_update g69 (bufs_update f69 s)"
  "bufs_update f70 (dev_read_update g70 s) = dev_read_update g70 (bufs_update f70 s)"
  "bufs_update f71 (dev_write_update g71 s) = dev_write_update g71 (bufs_update f71 s)"
  "disk_update f72 (files_update g72 s) = files_update g72 (disk_update f72 s)"
  "disk_update f73 (pipes_update g73 s) = pipes_update g73 (disk_update f73 s)"
  "disk_update f74 (dev_read_update g74 s) = dev_read_update g74 (disk_update f74 s)"
  "disk_update f75 (dev_write_update g75 s) = dev_write_update g75 (disk_update f75 s)"
  "dtrace_update f76 (files_update g76 s) = files_update g76 (dtrace_update f76 s)"
  "dtrace_update f77 (pipes_update g77 s) = pipes_update g77 (dtrace_update f77 s)"
  "dtrace_update f78 (dev_read_update g78 s) = dev_read_update g78 (dtrace_update f78 s)"
  "dtrace_update f79 (dev_write_update g79 s) = dev_write_update g79 (dtrace_update f79 s)"
  "lg_update f80 (files_update g80 s) = files_update g80 (lg_update f80 s)"
  "lg_update f81 (pipes_update g81 s) = pipes_update g81 (lg_update f81 s)"
  "lg_update f82 (dev_read_update g82 s) = dev_read_update g82 (lg_update f82 s)"
  "lg_update f83 (dev_write_update g83 s) = dev_write_update g83 (lg_update f83 s)"
  "sb_update f84 (files_update g84 s) = files_update g84 (sb_update f84 s)"
  "sb_update f85 (pipes_update g85 s) = pipes_update g85 (sb_update f85 s)"
  "sb_update f86 (dev_read_update g86 s) = dev_read_update g86 (sb_update f86 s)"
  "sb_update f87 (dev_write_update g87 s) = dev_write_update g87 (sb_update f87 s)"
  "inodes_update f88 (files_update g88 s) = files_update g88 (inodes_update f88 s)"
  "inodes_update f89 (pipes_update g89 s) = pipes_update g89 (inodes_update f89 s)"
  "inodes_update f90 (dev_read_update g90 s) = dev_read_update g90 (inodes_update f90 s)"
  "inodes_update f91 (dev_write_update g91 s) = dev_write_update g91 (inodes_update f91 s)"
  "cns_update f92 (files_update g92 s) = files_update g92 (cns_update f92 s)"
  "cns_update f93 (pipes_update g93 s) = pipes_update g93 (cns_update f93 s)"
  "cns_update f94 (dev_read_update g94 s) = dev_read_update g94 (cns_update f94 s)"
  "cns_update f95 (dev_write_update g95 s) = dev_write_update g95 (cns_update f95 s)"
  "tx_busy_update f96 (files_update g96 s) = files_update g96 (tx_busy_update f96 s)"
  "tx_busy_update f97 (pipes_update g97 s) = pipes_update g97 (tx_busy_update f97 s)"
  "tx_busy_update f98 (dev_read_update g98 s) = dev_read_update g98 (tx_busy_update f98 s)"
  "tx_busy_update f99 (dev_write_update g99 s) = dev_write_update g99 (tx_busy_update f99 s)"
  "rhr_update f100 (files_update g100 s) = files_update g100 (rhr_update f100 s)"
  "rhr_update f101 (pipes_update g101 s) = pipes_update g101 (rhr_update f101 s)"
  "rhr_update f102 (dev_read_update g102 s) = dev_read_update g102 (rhr_update f102 s)"
  "rhr_update f103 (dev_write_update g103 s) = dev_write_update g103 (rhr_update f103 s)"
  "uregs_update f104 (files_update g104 s) = files_update g104 (uregs_update f104 s)"
  "uregs_update f105 (pipes_update g105 s) = pipes_update g105 (uregs_update f105 s)"
  "uregs_update f106 (dev_read_update g106 s) = dev_read_update g106 (uregs_update f106 s)"
  "uregs_update f107 (dev_write_update g107 s) = dev_write_update g107 (uregs_update f107 s)"
  "files_update f108 (pipes_update g108 s) = pipes_update g108 (files_update f108 s)"
  "files_update f109 (dev_read_update g109 s) = dev_read_update g109 (files_update f109 s)"
  "files_update f110 (dev_write_update g110 s) = dev_write_update g110 (files_update f110 s)"
  "pipes_update f111 (dev_read_update g111 s) = dev_read_update g111 (pipes_update f111 s)"
  "pipes_update f112 (dev_write_update g112 s) = dev_write_update g112 (pipes_update f112 s)"
  "dev_read_update f113 (dev_write_update g113 s) = dev_write_update g113 (dev_read_update f113 s)"
  by (induct s; simp)+

definition upd_file :: "nat \<Rightarrow> (filestruct \<Rightarrow> filestruct) \<Rightarrow> 'z filest_scheme \<Rightarrow> 'z filest_scheme" where
  "upd_file i f s = s\<lparr>files := (files s)[i := f (files s ! i)]\<rparr>"

definition upd_pipe :: "u64 \<Rightarrow> (pipe \<Rightarrow> pipe) \<Rightarrow> 'z filest_scheme \<Rightarrow> 'z filest_scheme" where
  "upd_pipe a f s = s\<lparr>pipes := (pipes s)(a := f (pipes s a))\<rparr>"

definition consoleinit :: "'z filest_scheme \<Rightarrow> (unit, 'z filest_scheme) res" where
  "consoleinit s =
     bindr (initlock Lk_cons ''cons'' s) (\<lambda>_ s.
     bindr (uartinit s) (\<lambda>_ s.
     Ret () (s\<lparr>dev_read := (dev_read s)[CONSOLE := Dev_console], dev_write := (dev_write s)[CONSOLE := Dev_console]\<rparr>)))"

section \<open>The file table\<close>

definition fileinit :: "'z kst_scheme \<Rightarrow> (unit, 'z kst_scheme) res" where
  "fileinit s = initlock Lk_ftable ''ftable'' s"

definition filealloc :: "'z filest_scheme \<Rightarrow> (nat option, 'z filest_scheme) res" where
  "filealloc s =
     bindr (acquire Lk_ftable s) (\<lambda>_ s.
     case first_idx (\<lambda>i. f_ref (files s ! i) = 0) 0 NFILE of
       Some f \<Rightarrow>
         let s = upd_file f (\<lambda>x. x\<lparr>f_ref := 1\<rparr>) s in
         bindr (release Lk_ftable s) (\<lambda>_ s. Ret (Some f) s)
     | None \<Rightarrow> bindr (release Lk_ftable s) (\<lambda>_ s. Ret None s))"

definition filedup :: "nat \<Rightarrow> 'z filest_scheme \<Rightarrow> (nat, 'z filest_scheme) res" where
  "filedup f s =
     bindr (acquire Lk_ftable s) (\<lambda>_ s.
     if f_ref (files s ! f) < 1 then Panic ''filedup''
     else
       let s = upd_file f (\<lambda>x. x\<lparr>f_ref := f_ref x + 1\<rparr>) s in
       bindr (release Lk_ftable s) (\<lambda>_ s. Ret f s))"

section \<open>Pipes\<close>

definition pipeclose :: "u64 \<Rightarrow> bool \<Rightarrow> 'z filest_scheme \<Rightarrow> (unit, 'z filest_scheme) res" where
  "pipeclose pi writable s =
     bindr (acquire (Lk_pipe pi) s) (\<lambda>_ s.
     bindr (if writable
            then wakeup (Some (Ch_nread pi)) (upd_pipe pi (\<lambda>x. x\<lparr>pi_writeopen := 0\<rparr>) s)
            else wakeup (Some (Ch_nwrite pi)) (upd_pipe pi (\<lambda>x. x\<lparr>pi_readopen := 0\<rparr>) s)) (\<lambda>_ s.
     if pi_readopen (pipes s pi) = 0 \<and> pi_writeopen (pipes s pi) = 0 then
       bindr (release (Lk_pipe pi) s) (\<lambda>_ s. kfree pi s)
     else release (Lk_pipe pi) s))"

text \<open>
  The loop of \<open>pipewrite\<close> with the bytes from \<open>i\<close> on still to be written. \<open>None\<close> stands for the
  return from inside of the loop, with the lock released.
\<close>

function pipewrite_loop :: "nat \<Rightarrow> u64 \<Rightarrow> u64 \<Rightarrow> nat \<Rightarrow> nat \<Rightarrow> 'z filest_scheme \<Rightarrow> (nat option, 'z filest_scheme) res" where
  "pipewrite_loop pr pi addr n i s =
     (if i < n then
        bindr (if pi_readopen (pipes s pi) = 0 then Ret 1 s else killed pr s) (\<lambda>k s.
        if k \<noteq> 0 then bindr (release (Lk_pipe pi) s) (\<lambda>_ s. Ret None s)
        else if pi_nwrite (pipes s pi) = pi_nread (pipes s pi) + of_nat PIPESIZE then
          bindr (wakeup (Some (Ch_nread pi)) s) (\<lambda>_ s.
          bindr (sleep_on (Ch_nwrite pi) (Lk_pipe pi) s) (\<lambda>_ s. Ret None s))
        else
          bindr (copyin (p_pagetable (procs s ! pr)) (addr + of_nat i) 1 s) (\<lambda>(r, ch) s.
          if r = -1 then Ret (Some i) s
          else
            let s = upd_pipe pi (\<lambda>x. x\<lparr>pi_data := (pi_data x)[rb_ix PIPESIZE (pi_nwrite x) := hd ch],
                      pi_nwrite := pi_nwrite x + 1\<rparr>) s in
            pipewrite_loop pr pi addr n (Suc i) s))
      else Ret (Some i) s)"
  by pat_completeness auto
termination
  by (relation "measure (\<lambda>(_, _, _, n, i, _). n - i)") auto

declare pipewrite_loop.simps [simp del]

definition pipewrite_finish :: "u64 \<Rightarrow> nat option \<Rightarrow> 'z filest_scheme \<Rightarrow> (int, 'z filest_scheme) res" where
  "pipewrite_finish pi r s =
     (case r of
        None \<Rightarrow> Ret (-1) s
      | Some i \<Rightarrow>
          bindr (wakeup (Some (Ch_nread pi)) s) (\<lambda>_ s.
          bindr (release (Lk_pipe pi) s) (\<lambda>_ s. Ret (int i) s)))"

definition pipewrite :: "u64 \<Rightarrow> u64 \<Rightarrow> int \<Rightarrow> 'z filest_scheme \<Rightarrow> (int, 'z filest_scheme) res" where
  "pipewrite pi addr n s =
     bindr (curproc s) (\<lambda>pr s.
     bindr (acquire (Lk_pipe pi) s) (\<lambda>_ s.
     bindr (pipewrite_loop pr pi addr (nat n) 0 s) (\<lambda>r s.
     pipewrite_finish pi r s)))"

text \<open>The continuation after the sleep of a writer that had written \<open>i\<close> bytes.\<close>

definition pipewrite_resume :: "nat \<Rightarrow> bool \<Rightarrow> u64 \<Rightarrow> u64 \<Rightarrow> int \<Rightarrow> nat \<Rightarrow> 'z filest_scheme \<Rightarrow> (int, 'z filest_scheme) res" where
  "pipewrite_resume pr saved pi addr n i s =
     bindr (sleep_resume pr saved (Lk_pipe pi) s) (\<lambda>_ s.
     bindr (pipewrite_loop pr pi addr (nat n) i s) (\<lambda>r s.
     pipewrite_finish pi r s))"

text \<open>The second loop of \<open>piperead\<close>, with \<open>k\<close> bytes to go after the first \<open>i\<close>.\<close>

fun piperead_copy :: "nat \<Rightarrow> u64 \<Rightarrow> u64 \<Rightarrow> nat \<Rightarrow> nat \<Rightarrow> 'z filest_scheme \<Rightarrow> (int, 'z filest_scheme) res" where
  "piperead_copy pr pi addr i 0 s = Ret (int i) s"
| "piperead_copy pr pi addr i (Suc k) s =
     (if pi_nread (pipes s pi) = pi_nwrite (pipes s pi) then Ret (int i) s
      else
        let ch = pi_data (pipes s pi) ! rb_ix PIPESIZE (pi_nread (pipes s pi)) in
        bindr (copyout (p_pagetable (procs s ! pr)) (addr + of_nat i) [ch] s) (\<lambda>r s.
        if r = -1 then Ret (if i = 0 then -1 else int i) s
        else piperead_copy pr pi addr (Suc i) k (upd_pipe pi (\<lambda>x. x\<lparr>pi_nread := pi_nread x + 1\<rparr>) s)))"

text \<open>\<open>piperead\<close> with the lock held, from the test of the first loop on.\<close>

definition piperead_locked :: "nat \<Rightarrow> u64 \<Rightarrow> u64 \<Rightarrow> int \<Rightarrow> 'z filest_scheme \<Rightarrow> (int, 'z filest_scheme) res" where
  "piperead_locked pr pi addr n s =
     (if pi_nread (pipes s pi) = pi_nwrite (pipes s pi) \<and> pi_writeopen (pipes s pi) \<noteq> 0 then
        bindr (killed pr s) (\<lambda>k s.
        if k \<noteq> 0 then bindr (release (Lk_pipe pi) s) (\<lambda>_ s. Ret (-1) s)
        else bindr (sleep_on (Ch_nread pi) (Lk_pipe pi) s) (\<lambda>_ s. Ret (-1) s))
      else
        bindr (piperead_copy pr pi addr 0 (nat n) s) (\<lambda>i s.
        bindr (wakeup (Some (Ch_nwrite pi)) s) (\<lambda>_ s.
        bindr (release (Lk_pipe pi) s) (\<lambda>_ s. Ret i s))))"

definition piperead :: "u64 \<Rightarrow> u64 \<Rightarrow> int \<Rightarrow> 'z filest_scheme \<Rightarrow> (int, 'z filest_scheme) res" where
  "piperead pi addr n s =
     bindr (curproc s) (\<lambda>pr s.
     bindr (acquire (Lk_pipe pi) s) (\<lambda>_ s.
     piperead_locked pr pi addr n s))"

definition piperead_resume :: "nat \<Rightarrow> bool \<Rightarrow> u64 \<Rightarrow> u64 \<Rightarrow> int \<Rightarrow> 'z filest_scheme \<Rightarrow> (int, 'z filest_scheme) res" where
  "piperead_resume pr saved pi addr n s =
     bindr (sleep_resume pr saved (Lk_pipe pi) s) (\<lambda>_ s. piperead_locked pr pi addr n s)"

section \<open>Operations on open files\<close>

definition fileclose :: "nat \<Rightarrow> 'z filest_scheme \<Rightarrow> (unit, 'z filest_scheme) res" where
  "fileclose f s =
     bindr (acquire Lk_ftable s) (\<lambda>_ s.
     if f_ref (files s ! f) < 1 then Panic ''fileclose''
     else
       let s = upd_file f (\<lambda>x. x\<lparr>f_ref := f_ref x - 1\<rparr>) s in
       if f_ref (files s ! f) > 0 then release Lk_ftable s
       else
         let ff = files s ! f;
             s = upd_file f (\<lambda>x. x\<lparr>f_ref := 0, f_type := FD_NONE\<rparr>) s in
         bindr (release Lk_ftable s) (\<lambda>_ s.
         case f_type ff of
           FD_PIPE \<Rightarrow> pipeclose (f_pipe ff) (f_writable ff \<noteq> 0) s
         | FD_NONE \<Rightarrow> Ret () s
         | _ \<Rightarrow>
             bindr (begin_op s) (\<lambda>_ s.
             case f_ip ff of
               None \<Rightarrow> Panic ''null dereference''
             | Some ip \<Rightarrow> bindr (iput ip s) (\<lambda>_ s. end_op s))))"

definition pipealloc :: "'z filest_scheme \<Rightarrow> (int \<times> nat option \<times> nat option, 'z filest_scheme) res" where
  "pipealloc s =
     bindr (filealloc s) (\<lambda>f0 s.
     bindr (case f0 of None \<Rightarrow> Ret None s | Some _ \<Rightarrow> filealloc s) (\<lambda>f1 s.
     bindr (case f1 of None \<Rightarrow> Ret 0 s | Some _ \<Rightarrow> kalloc s) (\<lambda>pi s.
     case (f0, f1, pi \<noteq> 0) of
       (Some a, Some b, True) \<Rightarrow>
         let s = upd_pipe pi (\<lambda>x. x\<lparr>pi_readopen := 1, pi_writeopen := 1, pi_nwrite := 0, pi_nread := 0\<rparr>) s in
         bindr (initlock (Lk_pipe pi) ''pipe'' s) (\<lambda>_ s.
         let s = upd_file a (\<lambda>x. x\<lparr>f_type := FD_PIPE, f_readable := 1, f_writable := 0, f_pipe := pi\<rparr>) s;
             s = upd_file b (\<lambda>x. x\<lparr>f_type := FD_PIPE, f_readable := 0, f_writable := 1, f_pipe := pi\<rparr>) s
         in Ret (0, f0, f1) s)
     | _ \<Rightarrow>
         bindr (case f0 of None \<Rightarrow> Ret () s | Some a \<Rightarrow> fileclose a s) (\<lambda>_ s.
         bindr (case f1 of None \<Rightarrow> Ret () s | Some b \<Rightarrow> fileclose b s) (\<lambda>_ s.
         Ret (-1, f0, f1) s)))))"

text \<open>The bytes of a \<open>struct stat\<close>, with the padding the compiler puts after \<open>nlink\<close>.\<close>

definition stat_bytes :: "stat \<Rightarrow> u8 list" where
  "stat_bytes x = le_bytes 4 (unat (st_dev x)) @ le_bytes 4 (unat (st_ino x)) @ le_bytes 2 (unat (st_type x)) @
     le_bytes 2 (unat (st_nlink x)) @ replicate 4 0 @ le_bytes 8 (unat (st_size x))"

definition filestat :: "nat \<Rightarrow> u64 \<Rightarrow> 'z filest_scheme \<Rightarrow> (int, 'z filest_scheme) res" where
  "filestat f addr s =
     bindr (curproc s) (\<lambda>p s.
     if f_type (files s ! f) = FD_INODE \<or> f_type (files s ! f) = FD_DEVICE then
       bindr (ilock (f_ip (files s ! f)) s) (\<lambda>_ s.
       let st = stati (the (f_ip (files s ! f))) s in
       bindr (iunlock (f_ip (files s ! f)) s) (\<lambda>_ s.
       bindr (copyout (p_pagetable (procs s ! p)) addr (stat_bytes st) s) (\<lambda>r s.
       Ret (if r < 0 then -1 else 0) s)))
     else Ret (-1) s)"

text \<open>The entry of the device switch for a file, if it has one.\<close>

definition dev_entry :: "devfn list \<Rightarrow> u16 \<Rightarrow> devfn" where
  "dev_entry sw m = (if sint m < 0 \<or> sint m \<ge> int NDEV then Dev_null else sw ! unat m)"

definition fileread :: "nat \<Rightarrow> u64 \<Rightarrow> int \<Rightarrow> 'z filest_scheme \<Rightarrow> (int, 'z filest_scheme) res" where
  "fileread f addr n s =
     (if f_readable (files s ! f) = 0 then Ret (-1) s
      else
        case f_type (files s ! f) of
          FD_PIPE \<Rightarrow> piperead (f_pipe (files s ! f)) addr n s
        | FD_DEVICE \<Rightarrow>
            (case dev_entry (dev_read s) (f_major (files s ! f)) of
               Dev_null \<Rightarrow> Ret (-1) s
             | Dev_console \<Rightarrow> bindr (consoleread (User_dst addr) n s) (\<lambda>(r, _) s. Ret r s))
        | FD_INODE \<Rightarrow>
            bindr (ilock (f_ip (files s ! f)) s) (\<lambda>_ s.
            bindr (readi (the (f_ip (files s ! f))) (User_dst addr) (f_off (files s ! f)) (word_of_int n) s) (\<lambda>(r, _) s.
            let s = (if r > 0 then upd_file f (\<lambda>x. x\<lparr>f_off := f_off x + word_of_int r\<rparr>) s else s) in
            bindr (iunlock (f_ip (files s ! f)) s) (\<lambda>_ s. Ret r s)))
        | FD_NONE \<Rightarrow> Panic ''fileread'')"

text \<open>The bytes of an inode that one transaction of \<open>filewrite\<close> writes.\<close>

definition write_max :: nat where
  "write_max = ((MAXOPBLOCKS - 1 - 1 - 2) div 2) * BSIZE"

lemma write_max_pos: "0 < write_max"
  by (simp add: write_max_def MAXOPBLOCKS_def)

function filewrite_loop :: "nat \<Rightarrow> u64 \<Rightarrow> nat \<Rightarrow> nat \<Rightarrow> 'z filest_scheme \<Rightarrow> (nat, 'z filest_scheme) res" where
  "filewrite_loop f addr n i s =
     (if i < n then
        let n1 = min write_max (n - i) in
        bindr (begin_op s) (\<lambda>_ s.
        bindr (ilock (f_ip (files s ! f)) s) (\<lambda>_ s.
        bindr (writei (the (f_ip (files s ! f))) (User_src (addr + of_nat i)) (f_off (files s ! f)) (of_nat n1) s) (\<lambda>r s.
        let s = (if r > 0 then upd_file f (\<lambda>x. x\<lparr>f_off := f_off x + word_of_int r\<rparr>) s else s) in
        bindr (iunlock (f_ip (files s ! f)) s) (\<lambda>_ s.
        bindr (end_op s) (\<lambda>_ s.
        if r \<noteq> int n1 then Ret i s else filewrite_loop f addr n (i + n1) s)))))
      else Ret i s)"
  by pat_completeness auto
termination
  by (relation "measure (\<lambda>(_, _, n, i, _). n - i)") (use write_max_pos in \<open>auto simp: min_def\<close>)

declare filewrite_loop.simps [simp del]

definition filewrite :: "nat \<Rightarrow> u64 \<Rightarrow> int \<Rightarrow> 'z filest_scheme \<Rightarrow> (int, 'z filest_scheme) res" where
  "filewrite f addr n s =
     (if f_writable (files s ! f) = 0 then Ret (-1) s
      else
        case f_type (files s ! f) of
          FD_PIPE \<Rightarrow> pipewrite (f_pipe (files s ! f)) addr n s
        | FD_DEVICE \<Rightarrow>
            (case dev_entry (dev_write s) (f_major (files s ! f)) of
               Dev_null \<Rightarrow> Ret (-1) s
             | Dev_console \<Rightarrow> consolewrite (User_src addr) n s)
        | FD_INODE \<Rightarrow>
            bindr (filewrite_loop f addr (nat n) 0 s) (\<lambda>i s. Ret (if int i = n then n else -1) s)
        | FD_NONE \<Rightarrow> Panic ''filewrite'')"

end
