(* ===== verification/Virtio.thy ===== *)
theory Virtio
  imports File
begin

text \<open>
  The disk driver, \<open>kernel/virtio_disk.c\<close>: descriptors, the two rings and the interrupt. The
  queue memory that the driver shares with the device is a record of the three structures; an
  address in a descriptor names the object it points to. Registers are seen by the values that
  reads return and the sequence of writes.
\<close>

section \<open>State\<close>

definition NUM :: nat where "NUM = 8"
definition VRING_DESC_F_NEXT :: u16 where "VRING_DESC_F_NEXT = 1"
definition VRING_DESC_F_WRITE :: u16 where "VRING_DESC_F_WRITE = 2"
definition VIRTIO_BLK_T_IN :: u32 where "VIRTIO_BLK_T_IN = 0"
definition VIRTIO_BLK_T_OUT :: u32 where "VIRTIO_BLK_T_OUT = 1"

text \<open>What a descriptor can point to: a command header, the data of a buffer, a status byte.\<close>

datatype daddr = A_null | A_op nat | A_data nat | A_status nat

record virtq_desc =
  d_addr :: daddr
  d_len :: u32
  d_flags :: u16
  d_next :: u16

record virtio_blk_req =
  op_type :: u32
  op_reserved :: u32
  op_sector :: u64

record vdisk =
  vd_desc :: "virtq_desc list"
  vd_avail_idx :: u16
  vd_avail :: "u16 list"
  vd_dev_idx :: u16
  vd_used :: "u32 list"
  vd_free :: "u8 list"
  vd_used_idx :: u16
  vd_info_b :: "nat option list"
  vd_info_status :: "u8 list"
  vd_ops :: "virtio_blk_req list"
  vd_pages :: "u64 list"
  vd_mmio :: "nat \<Rightarrow> u32"
  vd_writes :: "(nat \<times> u32) list"

record vdst = filest +
  vd :: vdisk

text \<open>Updates of different fields are kept in the order of the fields.\<close>

lemma vdst_order [simp]:
  "hw_update f0 (vd_update g0 s) = vd_update g0 (hw_update f0 s)"
  "ticks_update f1 (vd_update g1 s) = vd_update g1 (ticks_update f1 s)"
  "rooms_update f2 (vd_update g2 s) = vd_update g2 (rooms_update f2 s)"
  "lighting_initialized_update f3 (vd_update g3 s) = vd_update g3 (lighting_initialized_update f3 s)"
  "roomenv_room_update f4 (vd_update g4 s) = vd_update g4 (roomenv_room_update f4 s)"
  "mem_update f5 (vd_update g5 s) = vd_update g5 (mem_update f5 s)"
  "freelist_update f6 (vd_update g6 s) = vd_update g6 (freelist_update f6 s)"
  "kend_update f7 (vd_update g7 s) = vd_update g7 (kend_update f7 s)"
  "procs_update f8 (vd_update g8 s) = vd_update g8 (procs_update f8 s)"
  "initproc_update f9 (vd_update g9 s) = vd_update g9 (initproc_update f9 s)"
  "nextpid_update f10 (vd_update g10 s) = vd_update g10 (nextpid_update f10 s)"
  "slocks_update f11 (vd_update g11 s) = vd_update g11 (slocks_update f11 s)"
  "mtime_update f12 (vd_update g12 s) = vd_update g12 (mtime_update f12 s)"
  "stimecmp_update f13 (vd_update g13 s) = vd_update g13 (stimecmp_update f13 s)"
  "kernel_pagetable_update f14 (vd_update g14 s) = vd_update g14 (kernel_pagetable_update f14 s)"
  "etext_update f15 (vd_update g15 s) = vd_update g15 (etext_update f15 s)"
  "trampoline_update f16 (vd_update g16 s) = vd_update g16 (trampoline_update f16 s)"
  "bufs_update f17 (vd_update g17 s) = vd_update g17 (bufs_update f17 s)"
  "disk_update f18 (vd_update g18 s) = vd_update g18 (disk_update f18 s)"
  "dtrace_update f19 (vd_update g19 s) = vd_update g19 (dtrace_update f19 s)"
  "lg_update f20 (vd_update g20 s) = vd_update g20 (lg_update f20 s)"
  "sb_update f21 (vd_update g21 s) = vd_update g21 (sb_update f21 s)"
  "inodes_update f22 (vd_update g22 s) = vd_update g22 (inodes_update f22 s)"
  "cns_update f23 (vd_update g23 s) = vd_update g23 (cns_update f23 s)"
  "tx_busy_update f24 (vd_update g24 s) = vd_update g24 (tx_busy_update f24 s)"
  "rhr_update f25 (vd_update g25 s) = vd_update g25 (rhr_update f25 s)"
  "uregs_update f26 (vd_update g26 s) = vd_update g26 (uregs_update f26 s)"
  "files_update f27 (vd_update g27 s) = vd_update g27 (files_update f27 s)"
  "pipes_update f28 (vd_update g28 s) = vd_update g28 (pipes_update f28 s)"
  "dev_read_update f29 (vd_update g29 s) = vd_update g29 (dev_read_update f29 s)"
  "dev_write_update f30 (vd_update g30 s) = vd_update g30 (dev_write_update f30 s)"
  by (induct s; simp)+

definition upd_vd :: "(vdisk \<Rightarrow> vdisk) \<Rightarrow> 'z vdst_scheme \<Rightarrow> 'z vdst_scheme" where
  "upd_vd f s = s\<lparr>vd := f (vd s)\<rparr>"

definition wreg :: "nat \<Rightarrow> u32 \<Rightarrow> 'z vdst_scheme \<Rightarrow> 'z vdst_scheme" where
  "wreg r v s = upd_vd (\<lambda>d. d\<lparr>vd_writes := vd_writes d @ [(r, v)]\<rparr>) s"

definition rreg :: "nat \<Rightarrow> 'z vdst_scheme \<Rightarrow> u32" where
  "rreg r s = vd_mmio (vd s) r"

definition upd_desc :: "nat \<Rightarrow> (virtq_desc \<Rightarrow> virtq_desc) \<Rightarrow> 'z vdst_scheme \<Rightarrow> 'z vdst_scheme" where
  "upd_desc i f s = upd_vd (\<lambda>d. d\<lparr>vd_desc := (vd_desc d)[i := f (vd_desc d ! i)]\<rparr>) s"

section \<open>Initialization\<close>

definition VIRTIO_MMIO_QUEUE_NOTIFY :: nat where "VIRTIO_MMIO_QUEUE_NOTIFY = 0x050"
definition VIRTIO_MMIO_INTERRUPT_STATUS :: nat where "VIRTIO_MMIO_INTERRUPT_STATUS = 0x060"
definition VIRTIO_MMIO_INTERRUPT_ACK :: nat where "VIRTIO_MMIO_INTERRUPT_ACK = 0x064"
definition VIRTIO_MMIO_STATUS :: nat where "VIRTIO_MMIO_STATUS = 0x070"

definition clear_bits :: "nat list \<Rightarrow> u64 \<Rightarrow> u64" where
  "clear_bits bs f = fold (\<lambda>b f. f AND NOT (push_bit b 1)) bs f"

definition virtio_disk_init :: "'z vdst_scheme \<Rightarrow> (unit, 'z vdst_scheme) res" where
  "virtio_disk_init s =
     bindr (initlock Lk_vdisk ''virtio_disk'' s) (\<lambda>_ s.
     if rreg 0x000 s \<noteq> 0x74726976 \<or> rreg 0x004 s \<noteq> 2 \<or> rreg 0x008 s \<noteq> 2 \<or> rreg 0x00c s \<noteq> 0x554d4551
     then Panic ''could not find virtio disk''
     else
       let s = wreg VIRTIO_MMIO_STATUS 0 s;
           s = wreg VIRTIO_MMIO_STATUS 1 s;
           s = wreg VIRTIO_MMIO_STATUS (1 OR 2) s;
           features = clear_bits [5, 7, 11, 12, 27, 29, 28] (ucast (rreg 0x010 s));
           s = wreg 0x020 (ucast features) s;
           s = wreg VIRTIO_MMIO_STATUS (1 OR 2 OR 8) s;
           status = rreg VIRTIO_MMIO_STATUS s in
       if status AND 8 = 0 then Panic ''virtio disk FEATURES_OK unset''
       else
         let s = wreg 0x030 0 s in
         if rreg 0x044 s \<noteq> 0 then Panic ''virtio disk should not be ready''
         else
           let mx = rreg 0x034 s in
           if mx = 0 then Panic ''virtio disk has no queue 0''
           else if unat mx < NUM then Panic ''virtio disk max queue too short''
           else
             bindr (kalloc s) (\<lambda>desc s.
             bindr (kalloc s) (\<lambda>avail s.
             bindr (kalloc s) (\<lambda>used s.
             if desc = 0 \<or> avail = 0 \<or> used = 0 then Panic ''virtio disk kalloc''
             else
               let s = upd_vd (\<lambda>d. d\<lparr>vd_desc := replicate NUM \<lparr>d_addr = A_null, d_len = 0, d_flags = 0, d_next = 0\<rparr>,
                         vd_avail_idx := 0, vd_avail := replicate NUM 0, vd_dev_idx := 0, vd_used := replicate NUM 0,
                         vd_pages := [desc, avail, used]\<rparr>) s;
                   s = wreg 0x038 (of_nat NUM) s;
                   s = wreg 0x080 (ucast desc) s;
                   s = wreg 0x084 (ucast (drop_bit 32 desc)) s;
                   s = wreg 0x090 (ucast avail) s;
                   s = wreg 0x094 (ucast (drop_bit 32 avail)) s;
                   s = wreg 0x0a0 (ucast used) s;
                   s = wreg 0x0a4 (ucast (drop_bit 32 used)) s;
                   s = wreg 0x044 1 s;
                   s = upd_vd (\<lambda>d. d\<lparr>vd_free := replicate NUM 1\<rparr>) s;
                   s = wreg VIRTIO_MMIO_STATUS (status OR 4) s
               in Ret () s))))"

section \<open>Descriptors\<close>

definition alloc_desc :: "'z vdst_scheme \<Rightarrow> int \<times> 'z vdst_scheme" where
  "alloc_desc s =
     (case first_idx (\<lambda>i. vd_free (vd s) ! i \<noteq> 0) 0 NUM of
        Some i \<Rightarrow> (int i, upd_vd (\<lambda>d. d\<lparr>vd_free := (vd_free d)[i := 0]\<rparr>) s)
      | None \<Rightarrow> (-1, s))"

definition free_desc :: "nat \<Rightarrow> 'z vdst_scheme \<Rightarrow> (unit, 'z vdst_scheme) res" where
  "free_desc i s =
     (if i \<ge> NUM then Panic ''free_desc 1''
      else if vd_free (vd s) ! i \<noteq> 0 then Panic ''free_desc 2''
      else
        let s = upd_desc i (\<lambda>d. d\<lparr>d_addr := A_null, d_len := 0, d_flags := 0, d_next := 0\<rparr>) s;
            s = upd_vd (\<lambda>d. d\<lparr>vd_free := (vd_free d)[i := 1]\<rparr>) s
        in wakeup (Some Ch_disk_free) s)"

text \<open>
  A chain has at most \<open>NUM\<close> descriptors: freeing one a second time panics, so \<open>NUM + 1\<close> turns
  are enough.
\<close>

fun free_chain_loop :: "nat \<Rightarrow> nat \<Rightarrow> 'z vdst_scheme \<Rightarrow> (unit, 'z vdst_scheme) res" where
  "free_chain_loop 0 i s = Spin s"
| "free_chain_loop (Suc n) i s =
     (let flag = d_flags (vd_desc (vd s) ! i); nxt = d_next (vd_desc (vd s) ! i) in
      bindr (free_desc i s) (\<lambda>_ s.
      if flag AND VRING_DESC_F_NEXT \<noteq> 0 then free_chain_loop n (unat nxt) s else Ret () s))"

definition free_chain :: "nat \<Rightarrow> 'z vdst_scheme \<Rightarrow> (unit, 'z vdst_scheme) res" where
  "free_chain i s = free_chain_loop (NUM + 1) i s"

definition alloc3_desc :: "'z vdst_scheme \<Rightarrow> ((nat \<times> nat \<times> nat) option, 'z vdst_scheme) res" where
  "alloc3_desc s =
     (let (a, s) = alloc_desc s in
      if a < 0 then Ret None s
      else
        let (b, s) = alloc_desc s in
        if b < 0 then bindr (free_desc (nat a) s) (\<lambda>_ s. Ret None s)
        else
          let (c, s) = alloc_desc s in
          if c < 0 then
            bindr (free_desc (nat a) s) (\<lambda>_ s.
            bindr (free_desc (nat b) s) (\<lambda>_ s. Ret None s))
          else Ret (Some (nat a, nat b, nat c)) s)"

section \<open>Requests\<close>

text \<open>Lines 235 to 281: format the descriptors and tell the device.\<close>

definition post_request :: "nat \<Rightarrow> bool \<Rightarrow> nat \<times> nat \<times> nat \<Rightarrow> 'z vdst_scheme \<Rightarrow> 'z vdst_scheme" where
  "post_request b write idx s =
     (let (i0, i1, i2) = idx;
          s = upd_vd (\<lambda>d. d\<lparr>vd_ops := (vd_ops d)[i0 := \<lparr>op_type = (if write then VIRTIO_BLK_T_OUT else VIRTIO_BLK_T_IN),
                op_reserved = 0, op_sector = ucast (sector (b_blockno (bufs s ! b)))\<rparr>]\<rparr>) s;
          s = upd_desc i0 (\<lambda>d. d\<lparr>d_addr := A_op i0, d_len := 16, d_flags := VRING_DESC_F_NEXT, d_next := of_nat i1\<rparr>) s;
          s = upd_desc i1 (\<lambda>d. d\<lparr>d_addr := A_data b, d_len := of_nat BSIZE, d_flags := (if write then 0 else VRING_DESC_F_WRITE)\<rparr>) s;
          s = upd_desc i1 (\<lambda>d. d\<lparr>d_flags := d_flags d OR VRING_DESC_F_NEXT, d_next := of_nat i2\<rparr>) s;
          s = upd_vd (\<lambda>d. d\<lparr>vd_info_status := (vd_info_status d)[i0 := 0xff]\<rparr>) s;
          s = upd_desc i2 (\<lambda>d. d\<lparr>d_addr := A_status i0, d_len := 1, d_flags := VRING_DESC_F_WRITE, d_next := 0\<rparr>) s;
          s = upd_buf b (\<lambda>x. x\<lparr>b_disk := 1\<rparr>) s;
          s = upd_vd (\<lambda>d. d\<lparr>vd_info_b := (vd_info_b d)[i0 := Some b]\<rparr>) s;
          s = upd_vd (\<lambda>d. d\<lparr>vd_avail := (vd_avail d)[unat (vd_avail_idx d) mod NUM := of_nat i0]\<rparr>) s;
          s = upd_vd (\<lambda>d. d\<lparr>vd_avail_idx := vd_avail_idx d + 1\<rparr>) s
      in wreg VIRTIO_MMIO_QUEUE_NOTIFY 0 s)"

text \<open>The wait for the interrupt and what follows it; entered again after each sleep.\<close>

definition await_request :: "nat \<Rightarrow> nat \<Rightarrow> 'z vdst_scheme \<Rightarrow> (unit, 'z vdst_scheme) res" where
  "await_request b i0 s =
     (if b_disk (bufs s ! b) = 1 then sleep_on (Ch_buf b) Lk_vdisk s
      else
        let s = upd_vd (\<lambda>d. d\<lparr>vd_info_b := (vd_info_b d)[i0 := None]\<rparr>) s in
        bindr (free_chain i0 s) (\<lambda>_ s.
        release Lk_vdisk s))"

text \<open>\<open>virtio_disk_rw\<close> with the lock held, from the loop that allocates descriptors on.\<close>

definition virtio_disk_locked :: "nat \<Rightarrow> bool \<Rightarrow> 'z vdst_scheme \<Rightarrow> (unit, 'z vdst_scheme) res" where
  "virtio_disk_locked b write s =
     bindr (alloc3_desc s) (\<lambda>r s.
     case r of
       None \<Rightarrow> sleep_on Ch_disk_free Lk_vdisk s
     | Some idx \<Rightarrow> await_request b (fst idx) (post_request b write idx s))"

definition virtio_disk_rw :: "nat \<Rightarrow> bool \<Rightarrow> 'z vdst_scheme \<Rightarrow> (unit, 'z vdst_scheme) res" where
  "virtio_disk_rw b write s = bindr (acquire Lk_vdisk s) (\<lambda>_ s. virtio_disk_locked b write s)"

text \<open>Continuations: after the sleep for descriptors, and after the sleep for the device.\<close>

definition virtio_disk_rw_resume_desc :: "nat \<Rightarrow> bool \<Rightarrow> nat \<Rightarrow> bool \<Rightarrow> 'z vdst_scheme \<Rightarrow> (unit, 'z vdst_scheme) res" where
  "virtio_disk_rw_resume_desc p saved b write s =
     bindr (sleep_resume p saved Lk_vdisk s) (\<lambda>_ s. virtio_disk_locked b write s)"

definition virtio_disk_rw_resume :: "nat \<Rightarrow> bool \<Rightarrow> nat \<Rightarrow> nat \<Rightarrow> 'z vdst_scheme \<Rightarrow> (unit, 'z vdst_scheme) res" where
  "virtio_disk_rw_resume p saved b i0 s =
     bindr (sleep_resume p saved Lk_vdisk s) (\<lambda>_ s. await_request b i0 s)"

section \<open>The interrupt\<close>

fun vdisk_drain :: "nat \<Rightarrow> 'z vdst_scheme \<Rightarrow> (unit, 'z vdst_scheme) res" where
  "vdisk_drain 0 s = Ret () s"
| "vdisk_drain (Suc n) s =
     (let id = unat (vd_used (vd s) ! (unat (vd_used_idx (vd s)) mod NUM)) in
      if id \<ge> NUM then Panic ''out of bounds''
      else if vd_info_status (vd s) ! id \<noteq> 0 then Panic ''virtio_disk_intr status''
      else
        case vd_info_b (vd s) ! id of
          None \<Rightarrow> Panic ''null dereference''
        | Some b \<Rightarrow>
            let s = upd_buf b (\<lambda>x. x\<lparr>b_disk := 0\<rparr>) s in
            bindr (wakeup (Some (Ch_buf b)) s) (\<lambda>_ s.
            vdisk_drain n (upd_vd (\<lambda>d. d\<lparr>vd_used_idx := vd_used_idx d + 1\<rparr>) s)))"

definition virtio_disk_intr :: "'z vdst_scheme \<Rightarrow> (unit, 'z vdst_scheme) res" where
  "virtio_disk_intr s =
     bindr (acquire Lk_vdisk s) (\<lambda>_ s.
     let s = wreg VIRTIO_MMIO_INTERRUPT_ACK (rreg VIRTIO_MMIO_INTERRUPT_STATUS s AND 3) s in
     bindr (vdisk_drain (unat (vd_dev_idx (vd s) - vd_used_idx (vd s))) s) (\<lambda>_ s.
     release Lk_vdisk s))"

end
