(* ===== verification/Process.thy ===== *)
theory Process
  imports Virtio
begin

text \<open>
  The life of processes: the part of \<open>kernel/proc.c\<close> that allocates, forks, ends, waits for and
  frees them, with the memory, the files and the directory each process holds. The trap frame is
  a page of memory; the registers of the harts and the addresses that the linker chooses are part
  of the state.
\<close>

section \<open>State\<close>

record csr =
  c_sepc :: u64
  c_scause :: u64
  c_stval :: u64
  c_sstatus :: u64
  c_stvec :: u64
  c_satp :: u64

record trapregs =
  csrs :: "nat \<Rightarrow> csr"
  sym_forkret :: u64
  sym_usertrap :: u64
  sym_uservec :: u64
  sym_userret :: u64
  sym_kernelvec :: u64
  first_proc :: int
  plic_irq :: "nat \<Rightarrow> int"
  plic_writes :: "(u64 \<times> u32) list"
  started :: int

record trapst = vdst +
  tr :: trapregs

text \<open>Updates of different fields are kept in the order of the fields.\<close>

lemma trapst_order [simp]:
  "hw_update f0 (tr_update g0 s) = tr_update g0 (hw_update f0 s)"
  "ticks_update f1 (tr_update g1 s) = tr_update g1 (ticks_update f1 s)"
  "rooms_update f2 (tr_update g2 s) = tr_update g2 (rooms_update f2 s)"
  "lighting_initialized_update f3 (tr_update g3 s) = tr_update g3 (lighting_initialized_update f3 s)"
  "roomenv_room_update f4 (tr_update g4 s) = tr_update g4 (roomenv_room_update f4 s)"
  "mem_update f5 (tr_update g5 s) = tr_update g5 (mem_update f5 s)"
  "freelist_update f6 (tr_update g6 s) = tr_update g6 (freelist_update f6 s)"
  "kend_update f7 (tr_update g7 s) = tr_update g7 (kend_update f7 s)"
  "procs_update f8 (tr_update g8 s) = tr_update g8 (procs_update f8 s)"
  "initproc_update f9 (tr_update g9 s) = tr_update g9 (initproc_update f9 s)"
  "nextpid_update f10 (tr_update g10 s) = tr_update g10 (nextpid_update f10 s)"
  "slocks_update f11 (tr_update g11 s) = tr_update g11 (slocks_update f11 s)"
  "mtime_update f12 (tr_update g12 s) = tr_update g12 (mtime_update f12 s)"
  "stimecmp_update f13 (tr_update g13 s) = tr_update g13 (stimecmp_update f13 s)"
  "kernel_pagetable_update f14 (tr_update g14 s) = tr_update g14 (kernel_pagetable_update f14 s)"
  "etext_update f15 (tr_update g15 s) = tr_update g15 (etext_update f15 s)"
  "trampoline_update f16 (tr_update g16 s) = tr_update g16 (trampoline_update f16 s)"
  "bufs_update f17 (tr_update g17 s) = tr_update g17 (bufs_update f17 s)"
  "disk_update f18 (tr_update g18 s) = tr_update g18 (disk_update f18 s)"
  "dtrace_update f19 (tr_update g19 s) = tr_update g19 (dtrace_update f19 s)"
  "lg_update f20 (tr_update g20 s) = tr_update g20 (lg_update f20 s)"
  "sb_update f21 (tr_update g21 s) = tr_update g21 (sb_update f21 s)"
  "inodes_update f22 (tr_update g22 s) = tr_update g22 (inodes_update f22 s)"
  "cns_update f23 (tr_update g23 s) = tr_update g23 (cns_update f23 s)"
  "tx_busy_update f24 (tr_update g24 s) = tr_update g24 (tx_busy_update f24 s)"
  "rhr_update f25 (tr_update g25 s) = tr_update g25 (rhr_update f25 s)"
  "uregs_update f26 (tr_update g26 s) = tr_update g26 (uregs_update f26 s)"
  "files_update f27 (tr_update g27 s) = tr_update g27 (files_update f27 s)"
  "pipes_update f28 (tr_update g28 s) = tr_update g28 (pipes_update f28 s)"
  "dev_read_update f29 (tr_update g29 s) = tr_update g29 (dev_read_update f29 s)"
  "dev_write_update f30 (tr_update g30 s) = tr_update g30 (dev_write_update f30 s)"
  "vd_update f31 (tr_update g31 s) = tr_update g31 (vd_update f31 s)"
  by (induct s; simp)+

section \<open>The trap frame\<close>

definition TF_kernel_satp :: u64 where "TF_kernel_satp = 0"
definition TF_kernel_sp :: u64 where "TF_kernel_sp = 8"
definition TF_kernel_trap :: u64 where "TF_kernel_trap = 16"
definition TF_epc :: u64 where "TF_epc = 24"
definition TF_kernel_hartid :: u64 where "TF_kernel_hartid = 32"
definition TF_sp :: u64 where "TF_sp = 48"
definition TF_a0 :: u64 where "TF_a0 = 112"
definition TF_a1 :: u64 where "TF_a1 = 120"
definition TF_a7 :: u64 where "TF_a7 = 168"
definition TF_SIZE :: nat where "TF_SIZE = 288"

definition tf_get :: "nat \<Rightarrow> u64 \<Rightarrow> 'z procst_scheme \<Rightarrow> u64" where
  "tf_get p off s = ld64 (mem s) (p_trapframe (procs s ! p) + off)"

definition tf_set :: "nat \<Rightarrow> u64 \<Rightarrow> u64 \<Rightarrow> 'z procst_scheme \<Rightarrow> 'z procst_scheme" where
  "tf_set p off v s = s\<lparr>mem := st64 (mem s) (p_trapframe (procs s ! p) + off) v\<rparr>"

section \<open>Page tables of processes\<close>

definition proc_pagetable :: "nat \<Rightarrow> 'z vmst_scheme \<Rightarrow> (u64, 'z vmst_scheme) res" where
  "proc_pagetable p s =
     bindr (uvmcreate s) (\<lambda>pagetable s.
     if pagetable = 0 then Ret 0 s
     else
       bindr (mappages pagetable TRAMPOLINE (of_nat PGSIZE) (trampoline s) (PTE_R OR PTE_X) s) (\<lambda>r s.
       if r < 0 then bindr (uvmfree pagetable 0 s) (\<lambda>_ s. Ret 0 s)
       else
         bindr (mappages pagetable TRAPFRAME (of_nat PGSIZE) (p_trapframe (procs s ! p)) (PTE_R OR PTE_W) s) (\<lambda>r s.
         if r < 0 then
           bindr (uvmunmap pagetable TRAMPOLINE 1 False s) (\<lambda>_ s.
           bindr (uvmfree pagetable 0 s) (\<lambda>_ s. Ret 0 s))
         else Ret pagetable s)))"

definition proc_freepagetable :: "u64 \<Rightarrow> u64 \<Rightarrow> 'z kmemst_scheme \<Rightarrow> (unit, 'z kmemst_scheme) res" where
  "proc_freepagetable pagetable sz s =
     bindr (uvmunmap pagetable TRAMPOLINE 1 False s) (\<lambda>_ s.
     bindr (uvmunmap pagetable TRAPFRAME 1 False s) (\<lambda>_ s.
     uvmfree pagetable sz s))"

section \<open>Allocation\<close>

definition freeproc :: "nat \<Rightarrow> 'z procst_scheme \<Rightarrow> (unit, 'z procst_scheme) res" where
  "freeproc p s =
     bindr (if p_trapframe (procs s ! p) \<noteq> 0 then kfree (p_trapframe (procs s ! p)) s else Ret () s) (\<lambda>_ s.
     let s = upd_proc p (\<lambda>q. q\<lparr>p_trapframe := 0\<rparr>) s in
     bindr (if p_pagetable (procs s ! p) \<noteq> 0
            then proc_freepagetable (p_pagetable (procs s ! p)) (p_sz (procs s ! p)) s else Ret () s) (\<lambda>_ s.
     Ret () (upd_proc p (\<lambda>q. q\<lparr>p_state := UNUSED, p_chan := None, p_killed := 0, p_xstate := 0, p_pid := 0,
       p_parent := None, p_sz := 0, p_pagetable := 0, p_name := (p_name q)[0 := NUL]\<rparr>) s)))"

text \<open>The scan for an unused entry; a found entry is returned with its lock held.\<close>

definition find_unused :: "'z procst_scheme \<Rightarrow> (nat option, 'z procst_scheme) res" where
  "find_unused s =
     for_ret 0 NPROC (\<lambda>i s.
       bindr (acquire (Lk_proc i) s) (\<lambda>_ s.
       if p_state (procs s ! i) = UNUSED then Ret (Some i) s
       else bindr (release (Lk_proc i) s) (\<lambda>_ s. Ret None s))) s"

definition allocproc_at :: "nat \<Rightarrow> 'z trapst_scheme \<Rightarrow> (nat option, 'z trapst_scheme) res" where
  "allocproc_at p s =
     bindr (allocpid s) (\<lambda>pid s.
     let s = upd_proc p (\<lambda>q. q\<lparr>p_pid := pid\<rparr>) s;
         s = upd_proc p (\<lambda>q. q\<lparr>p_state := USED\<rparr>) s in
     bindr (kalloc s) (\<lambda>tf s.
     let s = upd_proc p (\<lambda>q. q\<lparr>p_trapframe := tf\<rparr>) s in
     if tf = 0 then
       bindr (freeproc p s) (\<lambda>_ s.
       bindr (release (Lk_proc p) s) (\<lambda>_ s. Ret None s))
     else
       bindr (proc_pagetable p s) (\<lambda>pt s.
       let s = upd_proc p (\<lambda>q. q\<lparr>p_pagetable := pt\<rparr>) s in
       if pt = 0 then
         bindr (freeproc p s) (\<lambda>_ s.
         bindr (release (Lk_proc p) s) (\<lambda>_ s. Ret None s))
       else
         Ret (Some p) (upd_proc p (\<lambda>q. q\<lparr>p_context := \<lparr>ctx_ra = sym_forkret (tr s),
           ctx_sp = p_kstack q + of_nat PGSIZE, ctx_s = replicate 12 0\<rparr>\<rparr>) s))))"

definition allocproc :: "'z trapst_scheme \<Rightarrow> (nat option, 'z trapst_scheme) res" where
  "allocproc s =
     bindr (find_unused s) (\<lambda>r s.
     case r of None \<Rightarrow> Ret None s | Some p \<Rightarrow> allocproc_at p s)"

definition userinit :: "'z trapst_scheme \<Rightarrow> (unit, 'z trapst_scheme) res" where
  "userinit s =
     bindr (allocproc s) (\<lambda>r s.
     let s = s\<lparr>initproc := r\<rparr> in
     case r of
       None \<Rightarrow> Panic ''null dereference''
     | Some p \<Rightarrow>
         bindr (namei (''/'' @ [NUL]) s) (\<lambda>d s.
         let s = upd_proc p (\<lambda>q. q\<lparr>p_cwd := d\<rparr>) s;
             s = upd_proc p (\<lambda>q. q\<lparr>p_state := RUNNABLE\<rparr>) s in
         release (Lk_proc p) s))"

section \<open>Fork\<close>

text \<open>The loop that shares the open files with the child.\<close>

definition dup_files :: "nat \<Rightarrow> nat \<Rightarrow> 'z filest_scheme \<Rightarrow> (unit, 'z filest_scheme) res" where
  "dup_files p np s =
     for_upto 0 NOFILE (\<lambda>i s.
       case p_ofile (procs s ! p) ! i of
         None \<Rightarrow> Ret () s
       | Some f \<Rightarrow>
           bindr (filedup f s) (\<lambda>f s.
           Ret () (upd_proc np (\<lambda>q. q\<lparr>p_ofile := (p_ofile q)[i := Some f]\<rparr>) s))) s"

definition kfork :: "'z trapst_scheme \<Rightarrow> (int, 'z trapst_scheme) res" where
  "kfork s =
     bindr (curproc s) (\<lambda>p s.
     bindr (allocproc s) (\<lambda>r s.
     case r of
       None \<Rightarrow> Ret (-1) s
     | Some np \<Rightarrow>
         bindr (uvmcopy (p_pagetable (procs s ! p)) (p_pagetable (procs s ! np)) (p_sz (procs s ! p)) s) (\<lambda>e s.
         if e < 0 then
           bindr (freeproc np s) (\<lambda>_ s.
           bindr (release (Lk_proc np) s) (\<lambda>_ s. Ret (-1) s))
         else
           let s = upd_proc np (\<lambda>q. q\<lparr>p_sz := p_sz (procs s ! p)\<rparr>) s;
               s = s\<lparr>mem := wr_bytes (mem s) (p_trapframe (procs s ! np)) (rd_bytes (mem s) (p_trapframe (procs s ! p)) TF_SIZE)\<rparr>;
               s = tf_set np TF_a0 0 s in
           bindr (dup_files p np s) (\<lambda>_ s.
           case p_cwd (procs s ! p) of
             None \<Rightarrow> Panic ''null dereference''
           | Some d \<Rightarrow>
               bindr (idup d s) (\<lambda>d s.
               let s = upd_proc np (\<lambda>q. q\<lparr>p_cwd := Some d\<rparr>) s in
               bindr (in_object (safestrcpy (p_name (procs s ! np)) (p_name (procs s ! p)) 16) s) (\<lambda>nm s.
               let s = upd_proc np (\<lambda>q. q\<lparr>p_name := nm\<rparr>) s;
                   pid = p_pid (procs s ! np) in
               bindr (release (Lk_proc np) s) (\<lambda>_ s.
               bindr (acquire Lk_wait s) (\<lambda>_ s.
               let s = upd_proc np (\<lambda>q. q\<lparr>p_parent := Some p\<rparr>) s in
               bindr (release Lk_wait s) (\<lambda>_ s.
               bindr (acquire (Lk_proc np) s) (\<lambda>_ s.
               let s = upd_proc np (\<lambda>q. q\<lparr>p_state := RUNNABLE\<rparr>) s in
               bindr (release (Lk_proc np) s) (\<lambda>_ s. Ret pid s)))))))))))"

section \<open>Exit\<close>

definition close_files :: "nat \<Rightarrow> 'z filest_scheme \<Rightarrow> (unit, 'z filest_scheme) res" where
  "close_files p s =
     for_upto 0 NOFILE (\<lambda>fd s.
       case p_ofile (procs s ! p) ! fd of
         None \<Rightarrow> Ret () s
       | Some f \<Rightarrow>
           bindr (fileclose f s) (\<lambda>_ s.
           Ret () (upd_proc p (\<lambda>q. q\<lparr>p_ofile := (p_ofile q)[fd := None]\<rparr>) s))) s"

definition kexit :: "int \<Rightarrow> 'z filest_scheme \<Rightarrow> (unit, 'z filest_scheme) res" where
  "kexit status s =
     bindr (curproc s) (\<lambda>p s.
     if Some p = initproc s then Panic ''init exiting''
     else
       bindr (close_files p s) (\<lambda>_ s.
       bindr (begin_op s) (\<lambda>_ s.
       case p_cwd (procs s ! p) of
         None \<Rightarrow> Panic ''null dereference''
       | Some d \<Rightarrow>
           bindr (iput d s) (\<lambda>_ s.
           bindr (end_op s) (\<lambda>_ s.
           let s = upd_proc p (\<lambda>q. q\<lparr>p_cwd := None\<rparr>) s in
           bindr (acquire Lk_wait s) (\<lambda>_ s.
           bindr (reparent p s) (\<lambda>_ s.
           bindr (wakeup (map_option Ch_proc (p_parent (procs s ! p))) s) (\<lambda>_ s.
           bindr (acquire (Lk_proc p) s) (\<lambda>_ s.
           let s = upd_proc p (\<lambda>q. q\<lparr>p_xstate := status\<rparr>) s;
               s = upd_proc p (\<lambda>q. q\<lparr>p_state := ZOMBIE\<rparr>) s in
           bindr (release Lk_wait s) (\<lambda>_ s.
           bindr (sched s) (\<lambda>_ s. Panic ''zombie exit'')))))))))))"

section \<open>Wait\<close>

text \<open>One visit of the scan of \<open>kwait\<close>, with \<open>wait_lock\<close> held.\<close>

definition kwait_visit :: "nat \<Rightarrow> u64 \<Rightarrow> nat \<Rightarrow> 'z procst_scheme \<Rightarrow> (int option, 'z procst_scheme) res" where
  "kwait_visit p addr i s =
     (if p_parent (procs s ! i) = Some p then
        bindr (acquire (Lk_proc i) s) (\<lambda>_ s.
        if p_state (procs s ! i) = ZOMBIE then
          let pid = p_pid (procs s ! i) in
          bindr (if addr \<noteq> 0
                 then copyout (p_pagetable (procs s ! p)) addr (le_bytes 4 (nat (p_xstate (procs s ! i) mod 2 ^ 32))) s
                 else Ret 0 s) (\<lambda>r s.
          if r < 0 then
            bindr (release (Lk_proc i) s) (\<lambda>_ s.
            bindr (release Lk_wait s) (\<lambda>_ s. Ret (Some (-1)) s))
          else
            bindr (freeproc i s) (\<lambda>_ s.
            bindr (release (Lk_proc i) s) (\<lambda>_ s.
            bindr (release Lk_wait s) (\<lambda>_ s. Ret (Some pid) s))))
        else bindr (release (Lk_proc i) s) (\<lambda>_ s. Ret None s))
      else Ret None s)"

definition havekids :: "nat \<Rightarrow> 'z procst_scheme \<Rightarrow> bool" where
  "havekids p s \<longleftrightarrow> (\<exists>i \<in> set [0..<NPROC]. p_parent (procs s ! i) = Some p)"

text \<open>One turn of the endless loop, entered again after a sleep.\<close>

definition kwait_loop :: "nat \<Rightarrow> u64 \<Rightarrow> 'z procst_scheme \<Rightarrow> (int, 'z procst_scheme) res" where
  "kwait_loop p addr s =
     bindr (for_ret 0 NPROC (kwait_visit p addr) s) (\<lambda>r s.
     case r of
       Some v \<Rightarrow> Ret v s
     | None \<Rightarrow>
         bindr (if \<not> havekids p s then Ret 1 s else killed p s) (\<lambda>k s.
         if k \<noteq> 0 then bindr (release Lk_wait s) (\<lambda>_ s. Ret (-1) s)
         else bindr (sleep_on (Ch_proc p) Lk_wait s) (\<lambda>_ s. Ret (-1) s)))"

definition kwait :: "u64 \<Rightarrow> 'z procst_scheme \<Rightarrow> (int, 'z procst_scheme) res" where
  "kwait addr s =
     bindr (curproc s) (\<lambda>p s.
     bindr (acquire Lk_wait s) (\<lambda>_ s. kwait_loop p addr s))"

definition kwait_resume :: "nat \<Rightarrow> bool \<Rightarrow> u64 \<Rightarrow> 'z procst_scheme \<Rightarrow> (int, 'z procst_scheme) res" where
  "kwait_resume p saved addr s =
     bindr (sleep_resume p saved Lk_wait s) (\<lambda>_ s. kwait_loop p addr s)"

end
