(* ===== verification/Exec.thy ===== *)
theory Exec
  imports Process
begin

text \<open>
  \<open>kernel/exec.c\<close>: loading a program. The ELF headers are read from the bytes of the file in the
  layout of \<open>kernel/elf.h\<close>; the argument strings are C strings in kernel memory.
\<close>

section \<open>ELF headers\<close>

definition get64 :: "u8 list \<Rightarrow> nat \<Rightarrow> u64" where "get64 d off = of_nat (get_le 8 d off)"

definition ELF_MAGIC :: u32 where "ELF_MAGIC = 0x464C457F"
definition ELF_PROG_LOAD :: u32 where "ELF_PROG_LOAD = 1"
definition ELFHDR_SIZE :: nat where "ELFHDR_SIZE = 64"
definition PROGHDR_SIZE :: nat where "PROGHDR_SIZE = 56"
definition MAXARG :: nat where "MAXARG = 32"
definition USERSTACK :: nat where "USERSTACK = 1"

record elfhdr =
  e_magic :: u32
  e_entry :: u64
  e_phoff :: u64
  e_phnum :: u16

record proghdr =
  ph_type :: u32
  ph_flags :: u32
  ph_off :: u64
  ph_vaddr :: u64
  ph_filesz :: u64
  ph_memsz :: u64

definition get_elf :: "u8 list \<Rightarrow> elfhdr" where
  "get_elf d = \<lparr>e_magic = get32 d 0, e_entry = get64 d 24, e_phoff = get64 d 32, e_phnum = get16 d 56\<rparr>"

definition get_ph :: "u8 list \<Rightarrow> proghdr" where
  "get_ph d = \<lparr>ph_type = get32 d 0, ph_flags = get32 d 4, ph_off = get64 d 8, ph_vaddr = get64 d 16,
     ph_filesz = get64 d 32, ph_memsz = get64 d 40\<rparr>"

definition flags2perm :: "u32 \<Rightarrow> u64" where
  "flags2perm flags =
     (let perm = (if flags AND 1 \<noteq> 0 then PTE_X else 0)
      in if flags AND 2 \<noteq> 0 then perm OR PTE_W else perm)"

section \<open>Loading\<close>

definition loadseg :: "u64 \<Rightarrow> u64 \<Rightarrow> nat \<Rightarrow> u32 \<Rightarrow> u32 \<Rightarrow> 'z fsst_scheme \<Rightarrow> (int, 'z fsst_scheme) res" where
  "loadseg pagetable va ip offset sz s =
     bindr (for_ret 0 ((unat sz + PGSIZE - 1) div PGSIZE) (\<lambda>k s.
       let i = k * PGSIZE in
       bindr (walkaddr pagetable (va + of_nat i) s) (\<lambda>pa s.
       if pa = 0 then Panic ''loadseg: address should exist''
       else
         let n = min PGSIZE (unat sz - i) in
         bindr (readi ip (Kernel_dst pa) (offset + of_nat i) (of_nat n) s) (\<lambda>(r, _) s.
         Ret (if r \<noteq> int n then Some () else None) s))) s) (\<lambda>r s.
     Ret (if r = None then 0 else -1) s)"

text \<open>
  The loop over the program headers. The result says whether it succeeded, and the size of the
  new image so far.
\<close>

fun load_segments :: "nat \<Rightarrow> u64 \<Rightarrow> u32 \<Rightarrow> nat \<Rightarrow> u64 \<Rightarrow> 'z fsst_scheme \<Rightarrow> (bool \<times> u64, 'z fsst_scheme) res" where
  "load_segments ip pagetable off 0 sz s = Ret (True, sz) s"
| "load_segments ip pagetable off (Suc n) sz s =
     bindr (readi ip Local_dst off (of_nat PROGHDR_SIZE) s) (\<lambda>(r, bs) s.
     let ph = get_ph bs in
     if r \<noteq> int PROGHDR_SIZE then Ret (False, sz) s
     else if ph_type ph \<noteq> ELF_PROG_LOAD then load_segments ip pagetable (off + of_nat PROGHDR_SIZE) n sz s
     else if ph_memsz ph < ph_filesz ph then Ret (False, sz) s
     else if ph_vaddr ph + ph_memsz ph < ph_vaddr ph then Ret (False, sz) s
     else if ph_vaddr ph mod of_nat PGSIZE \<noteq> 0 then Ret (False, sz) s
     else
       bindr (uvmalloc pagetable sz (ph_vaddr ph + ph_memsz ph) (flags2perm (ph_flags ph)) s) (\<lambda>sz1 s.
       if sz1 = 0 then Ret (False, sz) s
       else
         bindr (loadseg pagetable (ph_vaddr ph) ip (ucast (ph_off ph)) (ucast (ph_filesz ph)) s) (\<lambda>r s.
         if r < 0 then Ret (False, sz1) s
         else load_segments ip pagetable (off + of_nat PROGHDR_SIZE) n sz1 s)))"

text \<open>The label \<open>bad\<close>.\<close>

definition exec_bad :: "u64 \<Rightarrow> u64 \<Rightarrow> nat option \<Rightarrow> 'z fsst_scheme \<Rightarrow> (int, 'z fsst_scheme) res" where
  "exec_bad pagetable sz ip s =
     bindr (if pagetable \<noteq> 0 then proc_freepagetable pagetable sz s else Ret () s) (\<lambda>_ s.
     case ip of
       None \<Rightarrow> Ret (-1) s
     | Some i \<Rightarrow>
         bindr (iunlockput i s) (\<lambda>_ s.
         bindr (end_op s) (\<lambda>_ s. Ret (-1) s)))"

text \<open>The loop that copies the argument strings; \<open>us\<close> are the addresses so far.\<close>

fun push_args :: "u64 \<Rightarrow> u64 \<Rightarrow> bytes list \<Rightarrow> u64 list \<Rightarrow> u64 \<Rightarrow> 'z procst_scheme \<Rightarrow> ((u64 \<times> u64 list) option, 'z procst_scheme) res" where
  "push_args pagetable stackbase [] us sp s = Ret (Some (sp, us)) s"
| "push_args pagetable stackbase (a # as) us sp s =
     (if length us \<ge> MAXARG then Ret None s
      else
        bindr (in_object (strlen a) s) (\<lambda>len s.
        let sp = sp - of_nat (len + 1);
            sp = sp - sp mod 16 in
        if sp < stackbase then Ret None s
        else
          bindr (copyout pagetable sp (octets (take (len + 1) a)) s) (\<lambda>r s.
          if r < 0 then Ret None s
          else push_args pagetable stackbase as (us @ [sp]) sp s)))"

text \<open>The part of the path after the last slash.\<close>

fun last_elem :: "bytes \<Rightarrow> bytes \<Rightarrow> bytes" where
  "last_elem lst [] = lst"
| "last_elem lst (c # s) =
     (if c = NUL then lst else if c = CHR ''/'' then last_elem s s else last_elem lst s)"

text \<open>
  \<open>kexec\<close> after the program is loaded and the file is closed. The array \<open>ustack\<close> has
  \<open>MAXARG\<close> entries: with exactly that many arguments the terminating 0 is written beyond its end,
  which C leaves undefined. \<open>sys_exec\<close> never passes so many.
\<close>

definition exec_stack :: "bytes \<Rightarrow> bytes list \<Rightarrow> elfhdr \<Rightarrow> u64 \<Rightarrow> u64 \<Rightarrow> 'z fsst_scheme \<Rightarrow> (int, 'z fsst_scheme) res" where
  "exec_stack path argv elf pagetable sz s =
     bindr (curproc s) (\<lambda>p s.
     let oldsz = p_sz (procs s ! p); sz = PGROUNDUP sz in
     bindr (uvmalloc pagetable sz (sz + of_nat ((USERSTACK + 1) * PGSIZE)) PTE_W s) (\<lambda>sz1 s.
     if sz1 = 0 then exec_bad pagetable sz None s
     else
       let sz = sz1 in
       bindr (uvmclear pagetable (sz - of_nat ((USERSTACK + 1) * PGSIZE)) s) (\<lambda>_ s.
       let stackbase = sz - of_nat (USERSTACK * PGSIZE) in
       bindr (push_args pagetable stackbase argv [] sz s) (\<lambda>r s.
       case r of
         None \<Rightarrow> exec_bad pagetable sz None s
       | Some (sp, us) \<Rightarrow>
           let argc = length us;
               sp = sp - of_nat ((argc + 1) * 8);
               sp = sp - sp mod 16 in
           if argc \<ge> MAXARG then Panic ''undefined: ustack''
           else if sp < stackbase then exec_bad pagetable sz None s
           else
             bindr (copyout pagetable sp (concat (map (\<lambda>a. le_bytes 8 (unat a)) (us @ [0]))) s) (\<lambda>r s.
             if r < 0 then exec_bad pagetable sz None s
             else
               let s = tf_set p TF_a1 sp s in
               bindr (in_object (safestrcpy (p_name (procs s ! p)) (last_elem path path) 16) s) (\<lambda>nm s.
               let oldpagetable = p_pagetable (procs s ! p);
                   s = upd_proc p (\<lambda>q. q\<lparr>p_name := nm, p_pagetable := pagetable, p_sz := sz\<rparr>) s;
                   s = tf_set p TF_epc (e_entry elf) s;
                   s = tf_set p TF_sp sp s in
               bindr (proc_freepagetable oldpagetable oldsz s) (\<lambda>_ s.
               Ret (int argc) s)))))))"

definition kexec :: "bytes \<Rightarrow> bytes list \<Rightarrow> 'z fsst_scheme \<Rightarrow> (int, 'z fsst_scheme) res" where
  "kexec path argv s =
     bindr (curproc s) (\<lambda>p s.
     bindr (begin_op s) (\<lambda>_ s.
     bindr (namei path s) (\<lambda>r s.
     case r of
       None \<Rightarrow> bindr (end_op s) (\<lambda>_ s. Ret (-1) s)
     | Some ip \<Rightarrow>
         bindr (ilock (Some ip) s) (\<lambda>_ s.
         bindr (readi ip Local_dst 0 (of_nat ELFHDR_SIZE) s) (\<lambda>(r, bs) s.
         let elf = get_elf bs in
         if r \<noteq> int ELFHDR_SIZE then exec_bad 0 0 (Some ip) s
         else if e_magic elf \<noteq> ELF_MAGIC then exec_bad 0 0 (Some ip) s
         else
           bindr (proc_pagetable p s) (\<lambda>pagetable s.
           if pagetable = 0 then exec_bad 0 0 (Some ip) s
           else
             bindr (load_segments ip pagetable (ucast (e_phoff elf)) (unat (e_phnum elf)) 0 s) (\<lambda>(ok, sz) s.
             if \<not> ok then exec_bad pagetable sz (Some ip) s
             else
               bindr (iunlockput ip s) (\<lambda>_ s.
               bindr (end_op s) (\<lambda>_ s.
               exec_stack path argv elf pagetable sz s)))))))))"

end
