(* ===== verification/Sysproc.thy ===== *)
theory Sysproc
  imports Exec
begin

text \<open>
  System call arguments (\<open>kernel/syscall.c\<close>), the process system calls (\<open>kernel/sysproc.c\<close>) and
  the lighting system calls (\<open>kernel/syslighting.c\<close>). A handler returns the 64-bit value that goes
  into the register \<open>a0\<close> of the caller.
\<close>

section \<open>Arguments\<close>

definition fetchaddr :: "u64 \<Rightarrow> 'z procst_scheme \<Rightarrow> (u64 option, 'z procst_scheme) res" where
  "fetchaddr addr s =
     bindr (curproc s) (\<lambda>p s.
     if addr \<ge> p_sz (procs s ! p) \<or> addr + 8 > p_sz (procs s ! p) then Ret None s
     else
       bindr (copyin (p_pagetable (procs s ! p)) addr 8 s) (\<lambda>(r, bs) s.
       Ret (if r \<noteq> 0 then None else Some (get64 bs 0)) s))"

text \<open>The result is the length and the string in the buffer, or \<open>None\<close> for -1.\<close>

definition fetchstr :: "u64 \<Rightarrow> nat \<Rightarrow> 'z procst_scheme \<Rightarrow> ((nat \<times> bytes) option, 'z procst_scheme) res" where
  "fetchstr addr mx s =
     bindr (curproc s) (\<lambda>p s.
     bindr (copyinstr (p_pagetable (procs s ! p)) addr mx s) (\<lambda>(r, bs) s.
     if r < 0 then Ret None s
     else bindr (in_object (strlen (chars bs)) s) (\<lambda>n s. Ret (Some (n, chars bs)) s)))"

definition argraw :: "nat \<Rightarrow> 'z procst_scheme \<Rightarrow> (u64, 'z procst_scheme) res" where
  "argraw n s =
     bindr (curproc s) (\<lambda>p s.
     if n < 6 then Ret (tf_get p (TF_a0 + 8 * of_nat n) s) s else Panic ''argraw'')"

definition argint :: "nat \<Rightarrow> 'z procst_scheme \<Rightarrow> (int, 'z procst_scheme) res" where
  "argint n s = bindr (argraw n s) (\<lambda>x s. Ret (sint (ucast x :: u32)) s)"

definition argaddr :: "nat \<Rightarrow> 'z procst_scheme \<Rightarrow> (u64, 'z procst_scheme) res" where
  "argaddr n s = argraw n s"

definition argstr :: "nat \<Rightarrow> nat \<Rightarrow> 'z procst_scheme \<Rightarrow> ((nat \<times> bytes) option, 'z procst_scheme) res" where
  "argstr n mx s = bindr (argaddr n s) (\<lambda>addr s. fetchstr addr mx s)"

abbreviation ret64 :: "int \<Rightarrow> 's \<Rightarrow> (u64, 's) res" where "ret64 r s \<equiv> Ret (word_of_int r) s"

section \<open>sysproc.c\<close>

definition sys_exit :: "'z trapst_scheme \<Rightarrow> (u64, 'z trapst_scheme) res" where
  "sys_exit s = bindr (argint 0 s) (\<lambda>n s. bindr (kexit n s) (\<lambda>_ s. ret64 0 s))"

definition sys_getpid :: "'z procst_scheme \<Rightarrow> (u64, 'z procst_scheme) res" where
  "sys_getpid s = bindr (curproc s) (\<lambda>p s. ret64 (p_pid (procs s ! p)) s)"

definition sys_fork :: "'z trapst_scheme \<Rightarrow> (u64, 'z trapst_scheme) res" where
  "sys_fork s = bindr (kfork s) (\<lambda>r s. ret64 r s)"

definition sys_wait :: "'z procst_scheme \<Rightarrow> (u64, 'z procst_scheme) res" where
  "sys_wait s = bindr (argaddr 0 s) (\<lambda>p s. bindr (kwait p s) (\<lambda>r s. ret64 r s))"

definition SBRK_EAGER :: int where "SBRK_EAGER = 1"

definition sys_sbrk :: "'z procst_scheme \<Rightarrow> (u64, 'z procst_scheme) res" where
  "sys_sbrk s =
     bindr (argint 0 s) (\<lambda>n s.
     bindr (argint 1 s) (\<lambda>t s.
     bindr (curproc s) (\<lambda>p s.
     let addr = p_sz (procs s ! p) in
     if t = SBRK_EAGER \<or> n < 0 then
       bindr (growproc n s) (\<lambda>r s. if r < 0 then ret64 (-1) s else Ret addr s)
     else if addr + word_of_int n < addr then ret64 (-1) s
     else if addr + word_of_int n > TRAPFRAME then ret64 (-1) s
     else
       bindr (curproc s) (\<lambda>p s.
       Ret addr (upd_proc p (\<lambda>q. q\<lparr>p_sz := p_sz q + word_of_int n\<rparr>) s)))))"

text \<open>The loop of \<open>sys_pause\<close>, with the lock held.\<close>

definition pause_loop :: "u32 \<Rightarrow> int \<Rightarrow> 'z procst_scheme \<Rightarrow> (u64, 'z procst_scheme) res" where
  "pause_loop ticks0 n s =
     (if ticks s - ticks0 < word_of_int n then
        bindr (curproc s) (\<lambda>p s.
        bindr (killed p s) (\<lambda>k s.
        if k \<noteq> 0 then bindr (release Lk_tickslock s) (\<lambda>_ s. ret64 (-1) s)
        else bindr (sleep_on Ch_ticks Lk_tickslock s) (\<lambda>_ s. ret64 (-1) s)))
      else bindr (release Lk_tickslock s) (\<lambda>_ s. ret64 0 s))"

definition sys_pause :: "'z procst_scheme \<Rightarrow> (u64, 'z procst_scheme) res" where
  "sys_pause s =
     bindr (argint 0 s) (\<lambda>n s.
     let n = (if n < 0 then 0 else n) in
     bindr (acquire Lk_tickslock s) (\<lambda>_ s.
     pause_loop (ticks s) n s))"

definition sys_pause_resume :: "nat \<Rightarrow> bool \<Rightarrow> u32 \<Rightarrow> int \<Rightarrow> 'z procst_scheme \<Rightarrow> (u64, 'z procst_scheme) res" where
  "sys_pause_resume p saved ticks0 n s =
     bindr (sleep_resume p saved Lk_tickslock s) (\<lambda>_ s. pause_loop ticks0 n s)"

definition sys_kill :: "'z procst_scheme \<Rightarrow> (u64, 'z procst_scheme) res" where
  "sys_kill s = bindr (argint 0 s) (\<lambda>pid s. bindr (kkill pid s) (\<lambda>r s. ret64 r s))"

definition sys_uptime :: "'z lightst_scheme \<Rightarrow> (u64, 'z lightst_scheme) res" where
  "sys_uptime s =
     bindr (acquire Lk_tickslock s) (\<lambda>_ s.
     let xticks = ticks s in
     bindr (release Lk_tickslock s) (\<lambda>_ s. Ret (ucast xticks) s))"

section \<open>syslighting.c\<close>

definition sys_lighting_init :: "'z lightst_scheme \<Rightarrow> (u64, 'z lightst_scheme) res" where
  "sys_lighting_init s = bindr (lighting_init s) (\<lambda>_ s. ret64 0 s)"

text \<open>The bytes of a \<open>struct roomstat\<close>.\<close>

definition roomstat_bytes :: "roomstat \<Rightarrow> u8 list" where
  "roomstat_bytes x = octets (rs_name x) @ le_bytes 4 (nat (rs_light_on x mod 2 ^ 32)) @
     le_bytes 4 (nat (rs_occupied x mod 2 ^ 32)) @ le_bytes 4 (unat (rs_usage_ticks x))"

definition roomstat0 :: roomstat where
  "roomstat0 = \<lparr>rs_name = replicate ROOM_NAME_MAX NUL, rs_light_on = 0, rs_occupied = 0, rs_usage_ticks = 0\<rparr>"

definition sys_room_status :: "'z procst_scheme \<Rightarrow> (u64, 'z procst_scheme) res" where
  "sys_room_status s =
     bindr (argint 0 s) (\<lambda>roomid s.
     bindr (argaddr 1 s) (\<lambda>uaddr s.
     bindr (room_status roomid (Some roomstat0) s) (\<lambda>(r, rs) s.
     if r < 0 then ret64 (-1) s
     else
       bindr (curproc s) (\<lambda>p s.
       bindr (copyout (p_pagetable (procs s ! p)) uaddr (roomstat_bytes (the rs)) s) (\<lambda>e s.
       if e < 0 then ret64 (-1) s else ret64 0 s)))))"

definition sys_set_occupied :: "'z procst_scheme \<Rightarrow> (u64, 'z procst_scheme) res" where
  "sys_set_occupied s = bindr (argint 0 s) (\<lambda>roomid s. bindr (set_room_occupied roomid s) (\<lambda>r s. ret64 r s))"

definition sys_set_empty :: "'z procst_scheme \<Rightarrow> (u64, 'z procst_scheme) res" where
  "sys_set_empty s = bindr (argint 0 s) (\<lambda>roomid s. bindr (set_room_empty roomid s) (\<lambda>r s. ret64 r s))"

definition sys_get_usage :: "'z procst_scheme \<Rightarrow> (u64, 'z procst_scheme) res" where
  "sys_get_usage s =
     bindr (argint 0 s) (\<lambda>roomid s.
     if roomid = -1 then bindr (get_total_usage s) (\<lambda>u s. Ret (ucast u) s)
     else bindr (get_room_usage roomid s) (\<lambda>u s. Ret (ucast u) s))"

definition sys_auto_shutoff :: "'z procst_scheme \<Rightarrow> (u64, 'z procst_scheme) res" where
  "sys_auto_shutoff s = bindr (argint 0 s) (\<lambda>timeout s. bindr (auto_shutoff timeout s) (\<lambda>r s. ret64 r s))"

end
