(* ===== verification/Sysfile.thy ===== *)
theory Sysfile
  imports Sysproc
begin

text \<open>
  The file system calls, \<open>kernel/sysfile.c\<close>. Every handler opens a transaction, and leaves it on
  every path.
\<close>

section \<open>File descriptors\<close>

definition MAXPATH :: nat where "MAXPATH = 128"
definition O_RDONLY :: int where "O_RDONLY = 0x000"
definition O_WRONLY :: u32 where "O_WRONLY = 0x001"
definition O_RDWR :: u32 where "O_RDWR = 0x002"
definition O_CREATE :: u32 where "O_CREATE = 0x200"
definition O_TRUNC :: u32 where "O_TRUNC = 0x400"

text \<open>The descriptor and the file, or \<open>None\<close> for -1.\<close>

definition argfd :: "nat \<Rightarrow> 'z procst_scheme \<Rightarrow> ((nat \<times> nat) option, 'z procst_scheme) res" where
  "argfd n s =
     bindr (argint n s) (\<lambda>fd s.
     if fd < 0 \<or> fd \<ge> int NOFILE then Ret None s
     else
       bindr (curproc s) (\<lambda>p s.
       Ret (map_option (\<lambda>f. (nat fd, f)) (p_ofile (procs s ! p) ! nat fd)) s))"

definition fdalloc :: "nat \<Rightarrow> 'z procst_scheme \<Rightarrow> (int, 'z procst_scheme) res" where
  "fdalloc f s =
     bindr (curproc s) (\<lambda>p s.
     case first_idx (\<lambda>fd. p_ofile (procs s ! p) ! fd = None) 0 NOFILE of
       Some fd \<Rightarrow> Ret (int fd) (upd_proc p (\<lambda>q. q\<lparr>p_ofile := (p_ofile q)[fd := Some f]\<rparr>) s)
     | None \<Rightarrow> Ret (-1) s)"

definition sys_dup :: "'z filest_scheme \<Rightarrow> (u64, 'z filest_scheme) res" where
  "sys_dup s =
     bindr (argfd 0 s) (\<lambda>r s.
     case r of
       None \<Rightarrow> ret64 (-1) s
     | Some (_, f) \<Rightarrow>
         bindr (fdalloc f s) (\<lambda>fd s.
         if fd < 0 then ret64 (-1) s
         else bindr (filedup f s) (\<lambda>_ s. ret64 fd s)))"

definition sys_read :: "'z filest_scheme \<Rightarrow> (u64, 'z filest_scheme) res" where
  "sys_read s =
     bindr (argaddr 1 s) (\<lambda>p s.
     bindr (argint 2 s) (\<lambda>n s.
     bindr (argfd 0 s) (\<lambda>r s.
     case r of
       None \<Rightarrow> ret64 (-1) s
     | Some (_, f) \<Rightarrow> bindr (fileread f p n s) (\<lambda>r s. ret64 r s))))"

definition sys_write :: "'z filest_scheme \<Rightarrow> (u64, 'z filest_scheme) res" where
  "sys_write s =
     bindr (argaddr 1 s) (\<lambda>p s.
     bindr (argint 2 s) (\<lambda>n s.
     bindr (argfd 0 s) (\<lambda>r s.
     case r of
       None \<Rightarrow> ret64 (-1) s
     | Some (_, f) \<Rightarrow> bindr (filewrite f p n s) (\<lambda>r s. ret64 r s))))"

definition sys_close :: "'z filest_scheme \<Rightarrow> (u64, 'z filest_scheme) res" where
  "sys_close s =
     bindr (argfd 0 s) (\<lambda>r s.
     case r of
       None \<Rightarrow> ret64 (-1) s
     | Some (fd, f) \<Rightarrow>
         bindr (curproc s) (\<lambda>p s.
         let s = upd_proc p (\<lambda>q. q\<lparr>p_ofile := (p_ofile q)[fd := None]\<rparr>) s in
         bindr (fileclose f s) (\<lambda>_ s. ret64 0 s)))"

definition sys_fstat :: "'z filest_scheme \<Rightarrow> (u64, 'z filest_scheme) res" where
  "sys_fstat s =
     bindr (argaddr 1 s) (\<lambda>st s.
     bindr (argfd 0 s) (\<lambda>r s.
     case r of
       None \<Rightarrow> ret64 (-1) s
     | Some (_, f) \<Rightarrow> bindr (filestat f st s) (\<lambda>r s. ret64 r s)))"

section \<open>Links\<close>

abbreviation name0 :: bytes where "name0 \<equiv> replicate DIRSIZ NUL"

text \<open>Ends of transactions that fail.\<close>

definition end_fail :: "'z fsst_scheme \<Rightarrow> (u64, 'z fsst_scheme) res" where
  "end_fail s = bindr (end_op s) (\<lambda>_ s. ret64 (-1) s)"

definition put_fail :: "nat \<Rightarrow> 'z fsst_scheme \<Rightarrow> (u64, 'z fsst_scheme) res" where
  "put_fail ip s = bindr (iunlockput ip s) (\<lambda>_ s. end_fail s)"

definition link_bad :: "nat \<Rightarrow> 'z fsst_scheme \<Rightarrow> (u64, 'z fsst_scheme) res" where
  "link_bad ip s =
     bindr (ilock (Some ip) s) (\<lambda>_ s.
     let s = upd_inode ip (\<lambda>x. x\<lparr>i_nlink := i_nlink x - 1\<rparr>) s in
     bindr (iupdate ip s) (\<lambda>_ s. put_fail ip s))"

definition sys_link :: "'z fsst_scheme \<Rightarrow> (u64, 'z fsst_scheme) res" where
  "sys_link s =
     bindr (argstr 0 MAXPATH s) (\<lambda>a s.
     case a of None \<Rightarrow> ret64 (-1) s | Some (_, old) \<Rightarrow>
     bindr (argstr 1 MAXPATH s) (\<lambda>b s.
     case b of None \<Rightarrow> ret64 (-1) s | Some (_, new) \<Rightarrow>
     bindr (begin_op s) (\<lambda>_ s.
     bindr (namei old s) (\<lambda>r s.
     case r of None \<Rightarrow> end_fail s | Some ip \<Rightarrow>
     bindr (ilock (Some ip) s) (\<lambda>_ s.
     if i_type (ino ip s) = T_DIR then put_fail ip s
     else
       let s = upd_inode ip (\<lambda>x. x\<lparr>i_nlink := i_nlink x + 1\<rparr>) s in
       bindr (iupdate ip s) (\<lambda>_ s.
       bindr (iunlock (Some ip) s) (\<lambda>_ s.
       bindr (nameiparent new name0 s) (\<lambda>r s.
       case r of None \<Rightarrow> link_bad ip s | Some (dp, name) \<Rightarrow>
       bindr (ilock (Some dp) s) (\<lambda>_ s.
       bindr (if i_dev (ino dp s) \<noteq> i_dev (ino ip s) then Ret (-1) s
              else dirlink dp name (i_inum (ino ip s)) s) (\<lambda>e s.
       if e < 0 then bindr (iunlockput dp s) (\<lambda>_ s. link_bad ip s)
       else
         bindr (iunlockput dp s) (\<lambda>_ s.
         bindr (iput ip s) (\<lambda>_ s.
         bindr (end_op s) (\<lambda>_ s. ret64 0 s)))))))))))))"

definition isdirempty :: "nat \<Rightarrow> 'z fsst_scheme \<Rightarrow> (bool, 'z fsst_scheme) res" where
  "isdirempty dp s =
     bindr (for_ret 2 (dir_slots dp s - 2) (\<lambda>k s.
       bindr (read_dirent ''isdirempty: readi'' dp k s) (\<lambda>de s.
       Ret (if de_inum de \<noteq> 0 then Some () else None) s)) s) (\<lambda>r s.
     Ret (r = None) s)"

text \<open>\<open>sys_unlink\<close> once the entry and its inode are found and both inodes are locked.\<close>

definition unlink_entry :: "nat \<Rightarrow> nat \<Rightarrow> u32 \<Rightarrow> 'z fsst_scheme \<Rightarrow> (u64, 'z fsst_scheme) res" where
  "unlink_entry dp ip off s =
     bindr (writei dp (Local_src (replicate DIRENT_SIZE 0)) off (of_nat DIRENT_SIZE) s) (\<lambda>r s.
     if r \<noteq> int DIRENT_SIZE then Panic ''unlink: writei''
     else
       bindr (if i_type (ino ip s) = T_DIR
              then iupdate dp (upd_inode dp (\<lambda>x. x\<lparr>i_nlink := i_nlink x - 1\<rparr>) s)
              else Ret () s) (\<lambda>_ s.
       bindr (iunlockput dp s) (\<lambda>_ s.
       let s = upd_inode ip (\<lambda>x. x\<lparr>i_nlink := i_nlink x - 1\<rparr>) s in
       bindr (iupdate ip s) (\<lambda>_ s.
       bindr (iunlockput ip s) (\<lambda>_ s.
       bindr (end_op s) (\<lambda>_ s. ret64 0 s))))))"

definition sys_unlink :: "'z fsst_scheme \<Rightarrow> (u64, 'z fsst_scheme) res" where
  "sys_unlink s =
     bindr (argstr 0 MAXPATH s) (\<lambda>a s.
     case a of None \<Rightarrow> ret64 (-1) s | Some (_, path) \<Rightarrow>
     bindr (begin_op s) (\<lambda>_ s.
     bindr (nameiparent path name0 s) (\<lambda>r s.
     case r of None \<Rightarrow> end_fail s | Some (dp, name) \<Rightarrow>
     bindr (ilock (Some dp) s) (\<lambda>_ s.
     bindr (in_object (namecmp name (''.'' @ [NUL])) s) (\<lambda>c1 s.
     bindr (if c1 = 0 then Ret 0 s else in_object (namecmp name (''..'' @ [NUL])) s) (\<lambda>c2 s.
     if c2 = 0 then put_fail dp s
     else
       bindr (dirlookup dp name s) (\<lambda>r s.
       case r of None \<Rightarrow> put_fail dp s | Some (ip, off) \<Rightarrow>
       bindr (ilock (Some ip) s) (\<lambda>_ s.
       if sint (i_nlink (ino ip s)) < 1 then Panic ''unlink: nlink < 1''
       else
         bindr (if i_type (ino ip s) = T_DIR then isdirempty ip s else Ret True s) (\<lambda>empty s.
         if \<not> empty then bindr (iunlockput ip s) (\<lambda>_ s. put_fail dp s)
         else unlink_entry dp ip off s)))))))))"

section \<open>Creation\<close>

definition create_fail :: "nat \<Rightarrow> nat \<Rightarrow> 'z fsst_scheme \<Rightarrow> (nat option, 'z fsst_scheme) res" where
  "create_fail ip dp s =
     (let s = upd_inode ip (\<lambda>x. x\<lparr>i_nlink := 0\<rparr>) s in
      bindr (iupdate ip s) (\<lambda>_ s.
      bindr (iunlockput ip s) (\<lambda>_ s.
      bindr (iunlockput dp s) (\<lambda>_ s. Ret None s))))"

text \<open>\<open>create\<close> once the new inode is allocated.\<close>

definition create_new :: "nat \<Rightarrow> nat \<Rightarrow> bytes \<Rightarrow> u16 \<Rightarrow> u16 \<Rightarrow> u16 \<Rightarrow> 'z fsst_scheme \<Rightarrow> (nat option, 'z fsst_scheme) res" where
  "create_new ip dp name type major minor s =
     bindr (ilock (Some ip) s) (\<lambda>_ s.
     let s = upd_inode ip (\<lambda>x. x\<lparr>i_major := major, i_minor := minor, i_nlink := 1\<rparr>) s in
     bindr (iupdate ip s) (\<lambda>_ s.
     bindr (if type = T_DIR then
              bindr (dirlink ip (''.'' @ [NUL]) (i_inum (ino ip s)) s) (\<lambda>e s.
              if e < 0 then Ret e s else dirlink ip (''..'' @ [NUL]) (i_inum (ino dp s)) s)
            else Ret 0 s) (\<lambda>e s.
     if e < 0 then create_fail ip dp s
     else
       bindr (dirlink dp name (i_inum (ino ip s)) s) (\<lambda>e s.
       if e < 0 then create_fail ip dp s
       else
         bindr (if type = T_DIR
                then iupdate dp (upd_inode dp (\<lambda>x. x\<lparr>i_nlink := i_nlink x + 1\<rparr>) s)
                else Ret () s) (\<lambda>_ s.
         bindr (iunlockput dp s) (\<lambda>_ s. Ret (Some ip) s))))))"

definition create :: "bytes \<Rightarrow> u16 \<Rightarrow> u16 \<Rightarrow> u16 \<Rightarrow> 'z fsst_scheme \<Rightarrow> (nat option, 'z fsst_scheme) res" where
  "create path type major minor s =
     bindr (nameiparent path name0 s) (\<lambda>r s.
     case r of None \<Rightarrow> Ret None s | Some (dp, name) \<Rightarrow>
     bindr (ilock (Some dp) s) (\<lambda>_ s.
     bindr (dirlookup dp name s) (\<lambda>r s.
     case r of
       Some (ip, _) \<Rightarrow>
         bindr (iunlockput dp s) (\<lambda>_ s.
         bindr (ilock (Some ip) s) (\<lambda>_ s.
         if type = T_FILE \<and> (i_type (ino ip s) = T_FILE \<or> i_type (ino ip s) = T_DEVICE) then Ret (Some ip) s
         else bindr (iunlockput ip s) (\<lambda>_ s. Ret None s)))
     | None \<Rightarrow>
         bindr (ialloc (i_dev (ino dp s)) type s) (\<lambda>r s.
         case r of
           None \<Rightarrow> bindr (iunlockput dp s) (\<lambda>_ s. Ret None s)
         | Some ip \<Rightarrow> create_new ip dp name type major minor s))))"

section \<open>Opening\<close>

text \<open>\<open>sys_open\<close> once the inode is found and locked.\<close>

definition open_inode :: "nat \<Rightarrow> u32 \<Rightarrow> 'z filest_scheme \<Rightarrow> (u64, 'z filest_scheme) res" where
  "open_inode ip omode s =
     (if i_type (ino ip s) = T_DEVICE \<and> (sint (i_major (ino ip s)) < 0 \<or> sint (i_major (ino ip s)) \<ge> int NDEV)
      then put_fail ip s
      else
        bindr (filealloc s) (\<lambda>r s.
        case r of None \<Rightarrow> put_fail ip s | Some f \<Rightarrow>
        bindr (fdalloc f s) (\<lambda>fd s.
        if fd < 0 then bindr (fileclose f s) (\<lambda>_ s. put_fail ip s)
        else
          let s = (if i_type (ino ip s) = T_DEVICE
                   then upd_file f (\<lambda>x. x\<lparr>f_type := FD_DEVICE, f_major := i_major (ino ip s)\<rparr>) s
                   else upd_file f (\<lambda>x. x\<lparr>f_type := FD_INODE, f_off := 0\<rparr>) s);
              s = upd_file f (\<lambda>x. x\<lparr>f_ip := Some ip, f_readable := (if omode AND O_WRONLY = 0 then 1 else 0),
                    f_writable := (if omode AND O_WRONLY \<noteq> 0 \<or> omode AND O_RDWR \<noteq> 0 then 1 else 0)\<rparr>) s in
          bindr (if omode AND O_TRUNC \<noteq> 0 \<and> i_type (ino ip s) = T_FILE then itrunc ip s else Ret () s) (\<lambda>_ s.
          bindr (iunlock (Some ip) s) (\<lambda>_ s.
          bindr (end_op s) (\<lambda>_ s. ret64 fd s))))))"

definition sys_open :: "'z filest_scheme \<Rightarrow> (u64, 'z filest_scheme) res" where
  "sys_open s =
     bindr (argint 1 s) (\<lambda>om s.
     let omode = word_of_int om :: u32 in
     bindr (argstr 0 MAXPATH s) (\<lambda>a s.
     case a of None \<Rightarrow> ret64 (-1) s | Some (_, path) \<Rightarrow>
     bindr (begin_op s) (\<lambda>_ s.
     if omode AND O_CREATE \<noteq> 0 then
       bindr (create path T_FILE 0 0 s) (\<lambda>r s.
       case r of None \<Rightarrow> end_fail s | Some ip \<Rightarrow> open_inode ip omode s)
     else
       bindr (namei path s) (\<lambda>r s.
       case r of None \<Rightarrow> end_fail s | Some ip \<Rightarrow>
       bindr (ilock (Some ip) s) (\<lambda>_ s.
       if i_type (ino ip s) = T_DIR \<and> om \<noteq> O_RDONLY then put_fail ip s
       else open_inode ip omode s)))))"

definition sys_mkdir :: "'z fsst_scheme \<Rightarrow> (u64, 'z fsst_scheme) res" where
  "sys_mkdir s =
     bindr (begin_op s) (\<lambda>_ s.
     bindr (argstr 0 MAXPATH s) (\<lambda>a s.
     case a of None \<Rightarrow> end_fail s | Some (_, path) \<Rightarrow>
     bindr (create path T_DIR 0 0 s) (\<lambda>r s.
     case r of None \<Rightarrow> end_fail s | Some ip \<Rightarrow>
     bindr (iunlockput ip s) (\<lambda>_ s.
     bindr (end_op s) (\<lambda>_ s. ret64 0 s)))))"

definition sys_mknod :: "'z fsst_scheme \<Rightarrow> (u64, 'z fsst_scheme) res" where
  "sys_mknod s =
     bindr (begin_op s) (\<lambda>_ s.
     bindr (argint 1 s) (\<lambda>major s.
     bindr (argint 2 s) (\<lambda>minor s.
     bindr (argstr 0 MAXPATH s) (\<lambda>a s.
     case a of None \<Rightarrow> end_fail s | Some (_, path) \<Rightarrow>
     bindr (create path T_DEVICE (word_of_int major) (word_of_int minor) s) (\<lambda>r s.
     case r of None \<Rightarrow> end_fail s | Some ip \<Rightarrow>
     bindr (iunlockput ip s) (\<lambda>_ s.
     bindr (end_op s) (\<lambda>_ s. ret64 0 s)))))))"

definition sys_chdir :: "'z fsst_scheme \<Rightarrow> (u64, 'z fsst_scheme) res" where
  "sys_chdir s =
     bindr (curproc s) (\<lambda>p s.
     bindr (begin_op s) (\<lambda>_ s.
     bindr (argstr 0 MAXPATH s) (\<lambda>a s.
     case a of None \<Rightarrow> end_fail s | Some (_, path) \<Rightarrow>
     bindr (namei path s) (\<lambda>r s.
     case r of None \<Rightarrow> end_fail s | Some ip \<Rightarrow>
     bindr (ilock (Some ip) s) (\<lambda>_ s.
     if i_type (ino ip s) \<noteq> T_DIR then put_fail ip s
     else
       bindr (iunlock (Some ip) s) (\<lambda>_ s.
       case p_cwd (procs s ! p) of
         None \<Rightarrow> Panic ''null dereference''
       | Some d \<Rightarrow>
           bindr (iput d s) (\<lambda>_ s.
           bindr (end_op s) (\<lambda>_ s.
           ret64 0 (upd_proc p (\<lambda>q. q\<lparr>p_cwd := Some ip\<rparr>) s)))))))))"

section \<open>exec and pipe\<close>

text \<open>
  The loop of \<open>sys_exec\<close> that fetches the arguments, at most \<open>n\<close> more; it returns the pages
  allocated so far, and the strings in them when it reached the end of the vector.
\<close>

fun fetch_args :: "u64 \<Rightarrow> nat \<Rightarrow> nat \<Rightarrow> 'z procst_scheme \<Rightarrow> (u64 list \<times> bytes list option, 'z procst_scheme) res" where
  "fetch_args uargv i 0 s = Ret ([], None) s"
| "fetch_args uargv i (Suc n) s =
     bindr (fetchaddr (uargv + 8 * of_nat i) s) (\<lambda>r s.
     case r of
       None \<Rightarrow> Ret ([], None) s
     | Some uarg \<Rightarrow>
         if uarg = 0 then Ret ([], Some []) s
         else
           bindr (kalloc s) (\<lambda>page s.
           if page = 0 then Ret ([], None) s
           else
             bindr (fetchstr uarg PGSIZE s) (\<lambda>r s.
             case r of
               None \<Rightarrow> Ret ([page], None) s
             | Some (_, str) \<Rightarrow>
                 let s = s\<lparr>mem := wr_bytes (mem s) page (octets str)\<rparr> in
                 bindr (fetch_args uargv (Suc i) n s) (\<lambda>(pages, strs) s.
                 Ret (page # pages, map_option ((#) str) strs) s))))"

fun free_pages :: "u64 list \<Rightarrow> 'z kmemst_scheme \<Rightarrow> (unit, 'z kmemst_scheme) res" where
  "free_pages [] s = Ret () s"
| "free_pages (a # as) s = bindr (kfree a s) (\<lambda>_ s. free_pages as s)"

definition sys_exec :: "'z fsst_scheme \<Rightarrow> (u64, 'z fsst_scheme) res" where
  "sys_exec s =
     bindr (argaddr 1 s) (\<lambda>uargv s.
     bindr (argstr 0 MAXPATH s) (\<lambda>a s.
     case a of None \<Rightarrow> ret64 (-1) s | Some (_, path) \<Rightarrow>
     bindr (fetch_args uargv 0 MAXARG s) (\<lambda>(pages, strs) s.
     case strs of
       None \<Rightarrow> bindr (free_pages pages s) (\<lambda>_ s. ret64 (-1) s)
     | Some argv \<Rightarrow>
         bindr (kexec path argv s) (\<lambda>ret s.
         bindr (free_pages pages s) (\<lambda>_ s. ret64 ret s)))))"

definition clear_fd :: "nat \<Rightarrow> int \<Rightarrow> 'z procst_scheme \<Rightarrow> 'z procst_scheme" where
  "clear_fd p fd s = (if fd \<ge> 0 then upd_proc p (\<lambda>q. q\<lparr>p_ofile := (p_ofile q)[nat fd := None]\<rparr>) s else s)"

definition close_both :: "nat \<Rightarrow> nat \<Rightarrow> 'z filest_scheme \<Rightarrow> (u64, 'z filest_scheme) res" where
  "close_both rf wrf s =
     bindr (fileclose rf s) (\<lambda>_ s.
     bindr (fileclose wrf s) (\<lambda>_ s. ret64 (-1) s))"

definition sys_pipe :: "'z filest_scheme \<Rightarrow> (u64, 'z filest_scheme) res" where
  "sys_pipe s =
     bindr (curproc s) (\<lambda>p s.
     bindr (argaddr 0 s) (\<lambda>fdarray s.
     bindr (pipealloc s) (\<lambda>(r, f0, f1) s.
     if r < 0 then ret64 (-1) s
     else
       let rf = the f0; wrf = the f1 in
       bindr (fdalloc rf s) (\<lambda>fd0 s.
       bindr (if fd0 < 0 then Ret (-1) s else fdalloc wrf s) (\<lambda>fd1 s.
       if fd1 < 0 then close_both rf wrf (clear_fd p fd0 s)
       else
         bindr (copyout (p_pagetable (procs s ! p)) fdarray (le_bytes 4 (nat fd0)) s) (\<lambda>e s.
         bindr (if e < 0 then Ret (-1) s
                else copyout (p_pagetable (procs s ! p)) (fdarray + 4) (le_bytes 4 (nat fd1)) s) (\<lambda>e s.
         if e < 0 then close_both rf wrf (clear_fd p fd1 (clear_fd p fd0 s))
         else ret64 0 s)))))))"

end
