(* ===== verification/Trap.thy ===== *)
theory Trap
  imports Sysfile
begin

text \<open>
  The system call table (\<open>kernel/syscall.c\<close>), traps from user and kernel mode
  (\<open>kernel/trap.c\<close>), the interrupt controller (\<open>kernel/plic.c\<close>) and the first run of a process,
  \<open>forkret\<close> (\<open>kernel/proc.c\<close>). The assembly of \<open>kernel/trampoline.S\<close> and \<open>kernel/kernelvec.S\<close> is
  outside: a trap starts with the trap frame filled, and ends with the value handed back to it.
\<close>

section \<open>Control registers\<close>

definition SSTATUS_SPP :: u64 where "SSTATUS_SPP = 0x100"
definition SSTATUS_SPIE :: u64 where "SSTATUS_SPIE = 0x20"
definition SSTATUS_SIE :: u64 where "SSTATUS_SIE = 0x2"

definition mycsr :: "'z trapst_scheme \<Rightarrow> csr" where
  "mycsr s = csrs (tr s) (tp (hw s))"

definition upd_csr :: "(csr \<Rightarrow> csr) \<Rightarrow> 'z trapst_scheme \<Rightarrow> 'z trapst_scheme" where
  "upd_csr f s = s\<lparr>tr := (tr s)\<lparr>csrs := (csrs (tr s))(tp (hw s) := f (mycsr s))\<rparr>\<rparr>"

text \<open>The bit \<open>SIE\<close> of \<open>sstatus\<close> is kept with the harts; the other bits are in \<open>c_sstatus\<close>.\<close>

definition r_sstatus :: "'z trapst_scheme \<Rightarrow> u64" where
  "r_sstatus s = (c_sstatus (mycsr s) AND NOT SSTATUS_SIE) OR (if intr_get (hw s) then SSTATUS_SIE else 0)"

definition w_sstatus :: "u64 \<Rightarrow> 'z trapst_scheme \<Rightarrow> 'z trapst_scheme" where
  "w_sstatus x s =
     (let s = upd_csr (\<lambda>c. c\<lparr>c_sstatus := x\<rparr>) s in
      s\<lparr>hw := (if x AND SSTATUS_SIE \<noteq> 0 then intr_on (hw s) else intr_off (hw s))\<rparr>)"

definition w_stvec :: "u64 \<Rightarrow> 'z trapst_scheme \<Rightarrow> 'z trapst_scheme" where
  "w_stvec x s = upd_csr (\<lambda>c. c\<lparr>c_stvec := x\<rparr>) s"

definition w_sepc :: "u64 \<Rightarrow> 'z trapst_scheme \<Rightarrow> 'z trapst_scheme" where
  "w_sepc x s = upd_csr (\<lambda>c. c\<lparr>c_sepc := x\<rparr>) s"

definition MAKE_SATP :: "u64 \<Rightarrow> u64" where
  "MAKE_SATP pagetable = push_bit 60 8 OR drop_bit 12 pagetable"

definition kvminithart :: "'z trapst_scheme \<Rightarrow> (unit, 'z trapst_scheme) res" where
  "kvminithart s = Ret () (upd_csr (\<lambda>c. c\<lparr>c_satp := MAKE_SATP (kernel_pagetable s)\<rparr>) s)"

definition trapinithart :: "'z trapst_scheme \<Rightarrow> (unit, 'z trapst_scheme) res" where
  "trapinithart s = Ret () (w_stvec (sym_kernelvec (tr s)) s)"

section \<open>The interrupt controller\<close>

definition UART0_IRQ :: int where "UART0_IRQ = 10"
definition VIRTIO0_IRQ :: int where "VIRTIO0_IRQ = 1"

definition PLIC_SENABLE :: "nat \<Rightarrow> u64" where "PLIC_SENABLE hart = PLIC + 0x2080 + of_nat hart * 0x100"
definition PLIC_SPRIORITY :: "nat \<Rightarrow> u64" where "PLIC_SPRIORITY hart = PLIC + 0x201000 + of_nat hart * 0x2000"
definition PLIC_SCLAIM :: "nat \<Rightarrow> u64" where "PLIC_SCLAIM hart = PLIC + 0x201004 + of_nat hart * 0x2000"

definition plic_w :: "u64 \<Rightarrow> u32 \<Rightarrow> 'z trapst_scheme \<Rightarrow> 'z trapst_scheme" where
  "plic_w a v s = s\<lparr>tr := (tr s)\<lparr>plic_writes := plic_writes (tr s) @ [(a, v)]\<rparr>\<rparr>"

definition plicinit :: "'z trapst_scheme \<Rightarrow> (unit, 'z trapst_scheme) res" where
  "plicinit s = Ret () (plic_w (PLIC + word_of_int VIRTIO0_IRQ * 4) 1 (plic_w (PLIC + word_of_int UART0_IRQ * 4) 1 s))"

definition plicinithart :: "'z trapst_scheme \<Rightarrow> (unit, 'z trapst_scheme) res" where
  "plicinithart s =
     (let hart = tp (hw s);
          s = plic_w (PLIC_SENABLE hart) (push_bit (nat UART0_IRQ) 1 OR push_bit (nat VIRTIO0_IRQ) 1) s in
      Ret () (plic_w (PLIC_SPRIORITY hart) 0 s))"

text \<open>The controller answers a claim with the number it offers to the hart.\<close>

definition plic_claim :: "'z trapst_scheme \<Rightarrow> int" where
  "plic_claim s = plic_irq (tr s) (tp (hw s))"

definition plic_complete :: "int \<Rightarrow> 'z trapst_scheme \<Rightarrow> (unit, 'z trapst_scheme) res" where
  "plic_complete irq s = Ret () (plic_w (PLIC_SCLAIM (tp (hw s))) (word_of_int irq) s)"

section \<open>System calls\<close>

definition syscalls :: "int \<Rightarrow> ('z trapst_scheme \<Rightarrow> (u64, 'z trapst_scheme) res) option" where
  "syscalls num =
     (if num = 1 then Some sys_fork else if num = 2 then Some sys_exit
      else if num = 3 then Some sys_wait else if num = 4 then Some sys_pipe
      else if num = 5 then Some sys_read else if num = 6 then Some sys_kill
      else if num = 7 then Some sys_exec else if num = 8 then Some sys_fstat
      else if num = 9 then Some sys_chdir else if num = 10 then Some sys_dup
      else if num = 11 then Some sys_getpid else if num = 12 then Some sys_sbrk
      else if num = 13 then Some sys_pause else if num = 14 then Some sys_uptime
      else if num = 15 then Some sys_open else if num = 16 then Some sys_write
      else if num = 17 then Some sys_mknod else if num = 18 then Some sys_unlink
      else if num = 19 then Some sys_link else if num = 20 then Some sys_mkdir
      else if num = 21 then Some sys_close else if num = 22 then Some sys_lighting_init
      else if num = 23 then Some sys_room_status else if num = 24 then Some sys_set_occupied
      else if num = 25 then Some sys_set_empty else if num = 26 then Some sys_get_usage
      else if num = 27 then Some sys_auto_shutoff else None)"

definition syscall :: "'z trapst_scheme \<Rightarrow> (unit, 'z trapst_scheme) res" where
  "syscall s =
     bindr (curproc s) (\<lambda>p s.
     let num = sint (ucast (tf_get p TF_a7 s) :: u32) in
     case (if num > 0 then syscalls num else None) of
       Some f \<Rightarrow> bindr (f s) (\<lambda>r s. Ret () (tf_set p TF_a0 r s))
     | None \<Rightarrow>
         bindr (kprintf (''%d %s: unknown sys call %d'' @ [CHR 0x0A])
           [VInt (word_of_int (p_pid (procs s ! p))), VStr (Some (p_name (procs s ! p))), VInt (word_of_int num)] s) (\<lambda>_ s.
         Ret () (tf_set p TF_a0 (- 1) s)))"

section \<open>Device interrupts\<close>

definition devintr :: "'z trapst_scheme \<Rightarrow> (int, 'z trapst_scheme) res" where
  "devintr s =
     (let scause = c_scause (mycsr s) in
      if scause = 0x8000000000000009 then
        let irq = plic_claim s in
        bindr (if irq = UART0_IRQ then uartintr s
               else if irq = VIRTIO0_IRQ then virtio_disk_intr s
               else if irq \<noteq> 0 then
                 bindr (kprintf (''unexpected interrupt irq=%d'' @ [CHR 0x0A]) [VInt (word_of_int irq)] s) (\<lambda>_ s. Ret () s)
               else Ret () s) (\<lambda>_ s.
        bindr (if irq \<noteq> 0 then plic_complete irq s else Ret () s) (\<lambda>_ s. Ret 1 s))
      else if scause = 0x8000000000000005 then bindr (clockintr s) (\<lambda>_ s. Ret 2 s)
      else Ret 0 s)"

section \<open>Traps\<close>

definition prepare_return :: "'z trapst_scheme \<Rightarrow> (unit, 'z trapst_scheme) res" where
  "prepare_return s =
     bindr (curproc s) (\<lambda>p s.
     let s = s\<lparr>hw := intr_off (hw s)\<rparr>;
         s = w_stvec (TRAMPOLINE + (sym_uservec (tr s) - trampoline s)) s;
         s = tf_set p TF_kernel_satp (c_satp (mycsr s)) s;
         s = tf_set p TF_kernel_sp (p_kstack (procs s ! p) + of_nat PGSIZE) s;
         s = tf_set p TF_kernel_trap (sym_usertrap (tr s)) s;
         s = tf_set p TF_kernel_hartid (of_nat (tp (hw s))) s;
         x = r_sstatus s;
         x = x AND NOT SSTATUS_SPP;
         x = x OR SSTATUS_SPIE;
         s = w_sstatus x s in
     Ret () (w_sepc (tf_get p TF_epc s) s))"

text \<open>The end of a trap from user mode: the value is the page table that the trampoline installs.\<close>

definition usertrap_return :: "nat \<Rightarrow> 'z trapst_scheme \<Rightarrow> (u64, 'z trapst_scheme) res" where
  "usertrap_return p s =
     bindr (prepare_return s) (\<lambda>_ s. Ret (MAKE_SATP (p_pagetable (procs s ! p))) s)"

definition usertrap_finish :: "nat \<Rightarrow> int \<Rightarrow> 'z trapst_scheme \<Rightarrow> (u64, 'z trapst_scheme) res" where
  "usertrap_finish p which_dev s =
     bindr (killed p s) (\<lambda>k s.
     bindr (if k \<noteq> 0 then kexit (-1) s else Ret () s) (\<lambda>_ s.
     bindr (if which_dev = 2 then yield s else Ret () s) (\<lambda>_ s. usertrap_return p s)))"

definition usertrap_syscall :: "nat \<Rightarrow> 'z trapst_scheme \<Rightarrow> (u64, 'z trapst_scheme) res" where
  "usertrap_syscall p s =
     bindr (killed p s) (\<lambda>k s.
     bindr (if k \<noteq> 0 then kexit (-1) s else Ret () s) (\<lambda>_ s.
     let s = tf_set p TF_epc (tf_get p TF_epc s + 4) s;
         s = s\<lparr>hw := intr_on (hw s)\<rparr> in
     bindr (syscall s) (\<lambda>_ s. usertrap_finish p 0 s)))"

definition usertrap_fault :: "nat \<Rightarrow> 'z trapst_scheme \<Rightarrow> (unit, 'z trapst_scheme) res" where
  "usertrap_fault p s =
     (let scause = c_scause (mycsr s) in
      bindr (if scause = 15 \<or> scause = 13
             then vmfault (p_pagetable (procs s ! p)) (c_stval (mycsr s)) (scause = 13) s
             else Ret 0 s) (\<lambda>r s.
      if r \<noteq> 0 then Ret () s
      else
        bindr (kprintf (''usertrap(): unexpected scause 0x%lx pid=%d'' @ [CHR 0x0A])
          [VInt (c_scause (mycsr s)), VInt (word_of_int (p_pid (procs s ! p)))] s) (\<lambda>_ s.
        bindr (kprintf (''            sepc=0x%lx stval=0x%lx'' @ [CHR 0x0A])
          [VInt (c_sepc (mycsr s)), VInt (c_stval (mycsr s))] s) (\<lambda>_ s.
        setkilled p s))))"

definition usertrap :: "'z trapst_scheme \<Rightarrow> (u64, 'z trapst_scheme) res" where
  "usertrap s =
     (if r_sstatus s AND SSTATUS_SPP \<noteq> 0 then Panic ''usertrap: not from user mode''
      else
        let s = w_stvec (sym_kernelvec (tr s)) s in
        bindr (curproc s) (\<lambda>p s.
        let s = tf_set p TF_epc (c_sepc (mycsr s)) s in
        if c_scause (mycsr s) = 8 then usertrap_syscall p s
        else
          bindr (devintr s) (\<lambda>which_dev s.
          if which_dev \<noteq> 0 then usertrap_finish p which_dev s
          else bindr (usertrap_fault p s) (\<lambda>_ s. usertrap_finish p 0 s))))"

text \<open>After the process was scheduled again.\<close>

definition usertrap_resume :: "nat \<Rightarrow> bool \<Rightarrow> 'z trapst_scheme \<Rightarrow> (u64, 'z trapst_scheme) res" where
  "usertrap_resume p saved s = bindr (yield_resume p saved s) (\<lambda>_ s. usertrap_return p s)"

definition kerneltrap :: "'z trapst_scheme \<Rightarrow> (unit, 'z trapst_scheme) res" where
  "kerneltrap s =
     (let sepc = c_sepc (mycsr s);
          sstatus = r_sstatus s;
          scause = c_scause (mycsr s) in
      if sstatus AND SSTATUS_SPP = 0 then Panic ''kerneltrap: not from supervisor mode''
      else if intr_get (hw s) then Panic ''kerneltrap: interrupts enabled''
      else
        bindr (devintr s) (\<lambda>which_dev s.
        if which_dev = 0 then
          bindr (kprintf (''scause=0x%lx sepc=0x%lx stval=0x%lx'' @ [CHR 0x0A])
            [VInt scause, VInt (c_sepc (mycsr s)), VInt (c_stval (mycsr s))] s) (\<lambda>_ s. Panic ''kerneltrap'')
        else
          bindr (if which_dev = 2 then
                   bindr (myproc s) (\<lambda>p s. if p \<noteq> None then yield s else Ret () s)
                 else Ret () s) (\<lambda>_ s.
          Ret () (w_sstatus sstatus (w_sepc sepc s)))))"

definition kerneltrap_resume :: "nat \<Rightarrow> bool \<Rightarrow> u64 \<Rightarrow> u64 \<Rightarrow> 'z trapst_scheme \<Rightarrow> (unit, 'z trapst_scheme) res" where
  "kerneltrap_resume p saved sepc sstatus s =
     bindr (yield_resume p saved s) (\<lambda>_ s. Ret () (w_sstatus sstatus (w_sepc sepc s)))"

section \<open>The first run of a process\<close>

text \<open>The result is the address that \<open>forkret\<close> jumps to, and the page table it passes there.\<close>

definition forkret :: "'z trapst_scheme \<Rightarrow> (u64 \<times> u64, 'z trapst_scheme) res" where
  "forkret s =
     bindr (curproc s) (\<lambda>p s.
     bindr (release (Lk_proc p) s) (\<lambda>_ s.
     bindr (if first_proc (tr s) \<noteq> 0 then
              bindr (fsinit (sint ROOTDEV) s) (\<lambda>_ s.
              let s = s\<lparr>tr := (tr s)\<lparr>first_proc := 0\<rparr>\<rparr> in
              bindr (kexec (''/init'' @ [NUL]) [''/init'' @ [NUL]] s) (\<lambda>r s.
              let s = tf_set p TF_a0 (word_of_int r) s in
              if tf_get p TF_a0 s = - 1 then Panic ''exec'' else Ret () s))
            else Ret () s) (\<lambda>_ s.
     bindr (prepare_return s) (\<lambda>_ s.
     let satp = MAKE_SATP (p_pagetable (procs s ! p));
         trampoline_userret = TRAMPOLINE + (sym_userret (tr s) - trampoline s) in
     Ret (trampoline_userret, satp) s))))"

end
