(* ===== verification/Boot.thy ===== *)
theory Boot
  imports Trap
begin

text \<open>
  The way from reset to the scheduler: \<open>kernel/start.c\<close>, which runs in machine mode, and
  \<open>kernel/main.c\<close>. \<open>entry.S\<close> only sets the stack pointer.
\<close>

section \<open>start.c\<close>

text \<open>The registers of a hart in machine mode; \<open>m_priv\<close> is the mode after \<open>mret\<close>.\<close>

record mregs =
  m_mstatus :: u64
  m_mepc :: u64
  m_satp :: u64
  m_medeleg :: u64
  m_mideleg :: u64
  m_sie :: u64
  m_pmpaddr0 :: u64
  m_pmpcfg0 :: u64
  m_mie :: u64
  m_menvcfg :: u64
  m_mcounteren :: u64
  m_stimecmp :: u64
  m_tp :: u64
  m_pc :: u64
  m_priv :: u64

definition MSTATUS_MPP_MASK :: u64 where "MSTATUS_MPP_MASK = push_bit 11 3"
definition MSTATUS_MPP_S :: u64 where "MSTATUS_MPP_S = push_bit 11 1"
definition SIE_SEIE :: u64 where "SIE_SEIE = push_bit 9 1"
definition SIE_STIE :: u64 where "SIE_STIE = push_bit 5 1"
definition MIE_STIE :: u64 where "MIE_STIE = push_bit 5 1"

definition timerinit :: "u64 \<Rightarrow> mregs \<Rightarrow> mregs" where
  "timerinit time m =
     (let m = m\<lparr>m_mie := m_mie m OR MIE_STIE\<rparr>;
          m = m\<lparr>m_menvcfg := m_menvcfg m OR push_bit 63 1\<rparr>;
          m = m\<lparr>m_mcounteren := m_mcounteren m OR 2\<rparr> in
      m\<lparr>m_stimecmp := time + 1000000\<rparr>)"

text \<open>\<open>mret\<close> jumps to \<open>mepc\<close> in the mode that \<open>mstatus\<close> names.\<close>

definition mret :: "mregs \<Rightarrow> mregs" where
  "mret m = m\<lparr>m_pc := m_mepc m, m_priv := drop_bit 11 (m_mstatus m AND MSTATUS_MPP_MASK)\<rparr>"

definition start :: "u64 \<Rightarrow> u64 \<Rightarrow> u64 \<Rightarrow> mregs \<Rightarrow> mregs" where
  "start main_addr hartid time m =
     (let x = m_mstatus m;
          x = x AND NOT MSTATUS_MPP_MASK;
          x = x OR MSTATUS_MPP_S;
          m = m\<lparr>m_mstatus := x\<rparr>;
          m = m\<lparr>m_mepc := main_addr\<rparr>;
          m = m\<lparr>m_satp := 0\<rparr>;
          m = m\<lparr>m_medeleg := 0xffff\<rparr>;
          m = m\<lparr>m_mideleg := 0xffff\<rparr>;
          m = m\<lparr>m_sie := m_sie m OR SIE_SEIE OR SIE_STIE\<rparr>;
          m = m\<lparr>m_pmpaddr0 := 0x3fffffffffffff\<rparr>;
          m = m\<lparr>m_pmpcfg0 := 0xf\<rparr>;
          m = timerinit time m;
          m = m\<lparr>m_tp := scast (ucast hartid :: u32)\<rparr> in
      mret m)"

section \<open>main.c\<close>

definition main_boot :: "'z trapst_scheme \<Rightarrow> (unit, 'z trapst_scheme) res" where
  "main_boot s =
     bindr (consoleinit s) (\<lambda>_ s.
     bindr (printfinit s) (\<lambda>_ s.
     bindr (kprintf [CHR 0x0A] [] s) (\<lambda>_ s.
     bindr (kprintf (''xv6 kernel is booting'' @ [CHR 0x0A]) [] s) (\<lambda>_ s.
     bindr (kprintf [CHR 0x0A] [] s) (\<lambda>_ s.
     bindr (kinit s) (\<lambda>_ s.
     bindr (kvminit s) (\<lambda>_ s.
     bindr (kvminithart s) (\<lambda>_ s.
     bindr (procinit s) (\<lambda>_ s.
     bindr (trapinit s) (\<lambda>_ s.
     bindr (trapinithart s) (\<lambda>_ s.
     bindr (plicinit s) (\<lambda>_ s.
     bindr (plicinithart s) (\<lambda>_ s.
     bindr (binit s) (\<lambda>_ s.
     bindr (iinit s) (\<lambda>_ s.
     bindr (fileinit s) (\<lambda>_ s.
     bindr (lighting_init s) (\<lambda>_ s.
     bindr (virtio_disk_init s) (\<lambda>_ s.
     bindr (userinit s) (\<lambda>_ s.
     Ret () (s\<lparr>tr := (tr s)\<lparr>started := 1\<rparr>\<rparr>))))))))))))))))))))"

definition main :: "'z trapst_scheme \<Rightarrow> (unit, 'z trapst_scheme) res" where
  "main s =
     bindr (if tp (hw s) = 0 then main_boot s
            else if started (tr s) = 0 then Spin s
            else
              bindr (kprintf (''hart %d starting'' @ [CHR 0x0A]) [VInt (of_nat (tp (hw s)))] s) (\<lambda>_ s.
              bindr (kvminithart s) (\<lambda>_ s.
              bindr (trapinithart s) (\<lambda>_ s.
              plicinithart s)))) (\<lambda>_ s.
     scheduler_start (s\<lparr>hw := with_proc None (hw s)\<rparr>))"

end
