(* ===== verification/States.thy ===== *)
theory States
  imports Boot LogCrash UserMem
begin

text \<open>
  A concrete state of the whole kernel, on which the properties of the components are exercised:
  one process runs on hart 0, no lock is held, tables are empty and the disk is blank.
\<close>

definition sb0 :: superblock where
  "sb0 = \<lparr>sb_magic = FSMAGIC, sb_size = 2000, sb_nblocks = 1954, sb_ninodes = 200, sb_nlog = 31,
     sb_logstart = 2, sb_inodestart = 33, sb_bmapstart = 45\<rparr>"

definition inode0 :: inode where
  "inode0 = \<lparr>i_dev = 0, i_inum = 0, i_ref = 0, i_valid = 0, i_type = 0, i_major = 0, i_minor = 0, i_nlink = 0,
     i_size = 0, i_addrs = replicate 13 0\<rparr>"

definition cons0 :: cons where
  "cons0 = \<lparr>c_buf = replicate INPUT_BUF_SIZE 0, c_r = 0, c_w = 0, c_e = 0\<rparr>"

definition filestruct0 :: filestruct where
  "filestruct0 = \<lparr>f_type = FD_NONE, f_ref = 0, f_readable = 0, f_writable = 0, f_pipe = 0, f_ip = None, f_off = 0, f_major = 0\<rparr>"

definition pipe0 :: pipe where
  "pipe0 = \<lparr>pi_data = replicate PIPESIZE 0, pi_nread = 0, pi_nwrite = 0, pi_readopen = 1, pi_writeopen = 1\<rparr>"

definition vdisk0 :: vdisk where
  "vdisk0 = \<lparr>vd_desc = replicate NUM \<lparr>d_addr = A_null, d_len = 0, d_flags = 0, d_next = 0\<rparr>, vd_avail_idx = 0,
     vd_avail = replicate NUM 0, vd_dev_idx = 0, vd_used = replicate NUM 0, vd_free = replicate NUM 1, vd_used_idx = 0,
     vd_info_b = replicate NUM None, vd_info_status = replicate NUM 0,
     vd_ops = replicate NUM \<lparr>op_type = 0, op_reserved = 0, op_sector = 0\<rparr>, vd_pages = [], vd_mmio = (\<lambda>_. 0), vd_writes = []\<rparr>"

definition trapregs0 :: trapregs where
  "trapregs0 = \<lparr>csrs = (\<lambda>_. \<lparr>c_sepc = 0, c_scause = 8, c_stval = 0, c_sstatus = 0, c_stvec = 0, c_satp = 0\<rparr>),
     sym_forkret = 0, sym_usertrap = 0, sym_uservec = 0, sym_userret = 0, sym_kernelvec = 0, first_proc = 0,
     plic_irq = (\<lambda>_. 0), plic_writes = [], started = 1\<rparr>"

definition kern0 :: trapst where
  "kern0 = vdst.extend (filest.extend (consst.extend (fsst.extend (logst.extend log0
     (fsst.fields sb0 (replicate NINODE inode0))) (consst.fields cons0 0 [] []))
     (filest.fields (replicate NFILE filestruct0) (\<lambda>_. pipe0) (replicate NDEV Dev_null) (replicate NDEV Dev_null)))
     (vdst.fields vdisk0)) (trapst.fields trapregs0)"

lemma kern0_simps [simp]:
  "hw kern0 = with_proc (Some 0) hw0" "procs kern0 = procs proc0" "bufs kern0 = bufs bio0"
  "disk kern0 = (\<lambda>_. replicate BSIZE 0)" "dtrace kern0 = []" "sb kern0 = sb0" "inodes kern0 = replicate NINODE inode0"
  "cns kern0 = cons0" "tx_busy kern0 = 0" "rhr kern0 = []" "uregs kern0 = []"
  "files kern0 = replicate NFILE filestruct0" "pipes kern0 = (\<lambda>_. pipe0)" "vd kern0 = vdisk0" "tr kern0 = trapregs0"
  by (simp_all add: kern0_def vdst.defs trapst.defs filest.defs consst.defs fsst.defs logst.defs)

lemma proc0_nth:
  "procs proc0 ! 0 = unused_proc\<lparr>p_state := RUNNING, p_pid := 1\<rparr>"
  "i < NPROC \<Longrightarrow> i \<noteq> 0 \<Longrightarrow> procs proc0 ! i = unused_proc"
  by (simp_all add: proc0_def procst.defs kmemst.defs NPROC_def del: replicate.simps)

lemma kern0_thread: "(\<forall>i. lk \<noteq> Lk_proc i) \<Longrightarrow> thread_ok 0 lk (hw kern0)"
  by (simp add: thread_ok_def NPROC_def)

end
