(* ===== verification/PipeSpec.thy ===== *)
theory PipeSpec
  imports States
begin

text \<open>
  A pipe is a queue of at most \<open>PIPESIZE\<close> bytes: \<open>pipewrite\<close> appends bytes of user memory to it and
  \<open>piperead\<close> takes them from its front, also when the 32-bit counters wrap around.
\<close>

interpretation prb: ring_buffer PIPESIZE
  by unfold_locales (simp_all add: PIPESIZE_def)

section \<open>The queue\<close>

definition pqueue :: "pipe \<Rightarrow> u8 list" where
  "pqueue p = rb_list PIPESIZE (pi_data p) (pi_nread p) (pi_nwrite p)"

definition pipe_ok :: "pipe \<Rightarrow> bool" where
  "pipe_ok p \<longleftrightarrow> length (pi_data p) = PIPESIZE \<and> length (pqueue p) \<le> PIPESIZE"

definition pput :: "u8 \<Rightarrow> pipe \<Rightarrow> pipe" where
  "pput b p = p\<lparr>pi_data := (pi_data p)[rb_ix PIPESIZE (pi_nwrite p) := b], pi_nwrite := pi_nwrite p + 1\<rparr>"

definition pget :: "pipe \<Rightarrow> pipe" where
  "pget p = p\<lparr>pi_nread := pi_nread p + 1\<rparr>"

lemma pqueue_put:
  assumes "pipe_ok p" and "length (pqueue p) < PIPESIZE"
  shows "pqueue (pput b p) = pqueue p @ [b]" and "pipe_ok (pput b p)"
    and "pi_readopen (pput b p) = pi_readopen p" "pi_writeopen (pput b p) = pi_writeopen p"
proof -
  show q: "pqueue (pput b p) = pqueue p @ [b]"
    using assms prb.rb_list_push[of "pi_data p"] by (simp add: pqueue_def pput_def pipe_ok_def)
  show "pipe_ok (pput b p)" using assms unfolding pipe_ok_def q by (simp add: pput_def)
qed (simp_all add: pput_def)

lemma pqueue_puts:
  assumes "pipe_ok p" and "length (pqueue p) + length bs \<le> PIPESIZE"
  shows "pqueue (fold pput bs p) = pqueue p @ bs \<and> pipe_ok (fold pput bs p) \<and>
    pi_readopen (fold pput bs p) = pi_readopen p \<and> pi_writeopen (fold pput bs p) = pi_writeopen p"
  using assms
proof (induction bs arbitrary: p)
  case (Cons b bs)
  have r: "length (pqueue p) < PIPESIZE" using Cons.prems(2) by simp
  note p = pqueue_put[OF Cons.prems(1) r, of b]
  show ?case using Cons.IH[OF p(2)] Cons.prems(2) p by simp
qed simp

lemma pqueue_empty: "pi_nread p = pi_nwrite p \<longleftrightarrow> pqueue p = []"
  by (simp add: pqueue_def rb_list_empty)

lemma pqueue_get:
  assumes "pqueue p \<noteq> []"
  shows "pqueue p = pi_data p ! rb_ix PIPESIZE (pi_nread p) # pqueue (pget p)"
  using assms rb_list_pop[of "pi_nread p" "pi_nwrite p" PIPESIZE "pi_data p"]
  by (simp add: pqueue_def pget_def rb_list_empty)

lemma pget_open: "pi_readopen (pget p) = pi_readopen p" "pi_writeopen (pget p) = pi_writeopen p"
  by (simp_all add: pget_def)

lemma pipe_ok_get: "pipe_ok p \<Longrightarrow> pqueue p \<noteq> [] \<Longrightarrow> pipe_ok (pget p)"
  using pqueue_get[of p] by (simp add: pipe_ok_def) (simp add: pget_def)

text \<open>The test for a full pipe.\<close>

lemma pipe_full:
  assumes "pipe_ok p"
  shows "pi_nwrite p = pi_nread p + of_nat PIPESIZE \<longleftrightarrow> length (pqueue p) = PIPESIZE"
proof -
  have "pi_nwrite p = pi_nread p + of_nat PIPESIZE \<longleftrightarrow> pi_nwrite p - pi_nread p = of_nat PIPESIZE"
    by (auto simp: algebra_simps)
  also have "\<dots> \<longleftrightarrow> unat (pi_nwrite p - pi_nread p) = PIPESIZE"
    by (auto simp: word_unat_eq_iff PIPESIZE_def)
  finally show ?thesis by (simp add: pqueue_def)
qed

section \<open>Writing\<close>

lemma urange_take:
  assumes "urange e m pt va n" and "j \<le> n"
  shows "urange e m pt va j"
  using assms by (simp add: urange_def)

lemma ubytes_1: "ubytes m pt va (Suc 0) = [m (phys m pt va)]"
  by (simp add: ubytes_def)

lemma ubytes_Cons: "i < n \<Longrightarrow> drop i (ubytes m pt va n) = m (phys m pt (va + of_nat i)) # drop (Suc i) (ubytes m pt va n)"
  by (subst Cons_nth_drop_Suc[symmetric]) (simp_all add: ubytes_def)

lemma length_ubytes [simp]: "length (ubytes m pt va n) = n"
  by (simp add: ubytes_def)

text \<open>A process that holds the lock of the pipe.\<close>

definition in_pipe :: "nat \<Rightarrow> u64 \<Rightarrow> machine \<Rightarrow> 'z filest_scheme \<Rightarrow> bool" where
  "in_pipe pr pi h0 s \<longleftrightarrow> thread_ok pr (Lk_pipe pi) h0 \<and> hw s = enter (Lk_pipe pi) h0 \<and>
     length (procs s) = NPROC \<and> pipe_ok (pipes s pi)"

lemma in_pipeD:
  assumes "in_pipe pr pi h0 s"
  shows "cpu_ok (hw s)" "settle (hw s) = hw s" "lk_free (Lk_proc pr) (hw s)"
    "others_free s" "cpu_proc (mycpu (hw s)) = Some pr" "held (Lk_pipe pi) (hw s)" "leave (Lk_pipe pi) (hw s) = settle h0"
    "sole_lock (Lk_pipe pi) pr h0 (hw s)" "length (procs s) = NPROC" "pipe_ok (pipes s pi)" "pr < NPROC"
proof -
  have t: "thread_ok pr (Lk_pipe pi) h0" and h: "hw s = enter (Lk_pipe pi) h0" using assms by (simp_all add: in_pipe_def)
  note h0 = thread_okD[OF t]
  show "cpu_ok (hw s)" "settle (hw s) = hw s" "lk_free (Lk_proc pr) (hw s)"
    "cpu_proc (mycpu (hw s)) = Some pr" "held (Lk_pipe pi) (hw s)" "leave (Lk_pipe pi) (hw s) = settle h0"
    "length (procs s) = NPROC" "pipe_ok (pipes s pi)" "others_free s" "pr < NPROC"
    using assms h0 by (simp_all add: in_pipe_def h lock_simps others_free_def)
  show "sole_lock (Lk_pipe pi) pr h0 (hw s)" unfolding h by (rule thread_ok_sole[OF t])
qed

definition blocked_on :: "chan \<Rightarrow> nat \<Rightarrow> machine \<Rightarrow> chan option \<Rightarrow> 'z filest_scheme \<Rightarrow> 'z filest_scheme" where
  "blocked_on ch pr h0 wk s =
     (let ps = (case wk of None \<Rightarrow> procs s | Some c \<Rightarrow> wake (Some c) (Some pr) (procs s)) in
      s\<lparr>hw := enter (Lk_proc pr) h0, procs := ps[pr := (ps ! pr)\<lparr>p_chan := Some ch, p_state := SLEEPING\<rparr>]\<rparr>)"

lemma pipewrite_loop_ok:
  fixes s :: "'z filest_scheme"
  assumes "in_pipe pr pi h0 s" and "p_killed (procs s ! pr) = 0" and "pi_readopen (pipes s pi) \<noteq> 0"
    and "urange e (mem s) (p_pagetable (procs s ! pr)) addr n" and "i \<le> n"
  shows "pipewrite_loop pr pi addr n i s =
    (let k = PIPESIZE - length (pqueue (pipes s pi));
         bs = drop i (ubytes (mem s) (p_pagetable (procs s ! pr)) addr n);
         t = s\<lparr>pipes := (pipes s)(pi := fold pput (take k bs) (pipes s pi))\<rparr>
     in if n - i \<le> k then Ret (Some n) t else Blocked (blocked_on (Ch_nwrite pi) pr h0 (Some (Ch_nread pi)) t))"
  using assms
proof (induction "n - i" arbitrary: i s)
  case 0
  then show ?case by (subst pipewrite_loop.simps) simp
next
  case (Suc m)
  note d = in_pipeD[OF Suc.prems(1)]
  let ?q = "pqueue (pipes s pi)" and ?pt = "p_pagetable (procs s ! pr)"
  let ?b = "mem s (phys (mem s) ?pt (addr + of_nat i))"
  have i: "i < n" using Suc.hyps(2) by simp
  have k: "killed pr s = Ret 0 s" using killed_ok[OF d(1,3)] d(2) Suc.prems(2) by simp
  show ?case
  proof (cases "length ?q = PIPESIZE")
    case True
    have w: "wakeup (Some (Ch_nread pi)) s = Ret () (s\<lparr>procs := wake (Some (Ch_nread pi)) (Some pr) (procs s)\<rparr>)"
      using wakeup_ok[OF d(4,9)] d(2,5) by simp
    have "sleep_on (Ch_nwrite pi) (Lk_pipe pi) (s\<lparr>procs := wake (Some (Ch_nread pi)) (Some pr) (procs s)\<rparr>) =
        Blocked (blocked_on (Ch_nwrite pi) pr h0 (Some (Ch_nread pi)) s)"
      using sleep_on_ok[of "Lk_pipe pi" pr h0 "s\<lparr>procs := wake (Some (Ch_nread pi)) (Some pr) (procs s)\<rparr>"] d(8)
      by (simp add: blocked_on_def Let_def)
    then show ?thesis
      using True i k w Suc.prems(3) pipe_full[OF d(10)] by (subst pipewrite_loop.simps) simp
  next
    case False
    then have r: "length ?q < PIPESIZE" using d(10) by (simp add: pipe_ok_def)
    then have room: "PIPESIZE - length ?q = Suc (PIPESIZE - Suc (length ?q))" by simp
    note p = pqueue_put[OF d(10) r, of ?b]
    let ?s = "s\<lparr>pipes := (pipes s)(pi := pput ?b (pipes s pi))\<rparr>"
    have "urange e (mem s) ?pt (addr + of_nat i) (Suc 0)"
      using urange_take[OF urange_drop[OF Suc.prems(4), of i], of "Suc 0"] i by simp
    then have c: "copyin ?pt (addr + of_nat i) (Suc 0) s = Ret (0, [?b]) s"
      using copyin_ok[of e s ?pt "addr + of_nat i" "Suc 0"] by (simp add: ubytes_1)
    have in': "in_pipe pr pi h0 ?s" using Suc.prems(1) p(2) by (simp add: in_pipe_def)
    have "pipewrite_loop pr pi addr n i s = pipewrite_loop pr pi addr n (Suc i) ?s"
      using False i k c Suc.prems(3) pipe_full[OF d(10)]
      by (subst pipewrite_loop.simps) (simp add: Let_def upd_pipe_def pput_def)
    also have "\<dots> = (let k = PIPESIZE - length (pqueue (pipes ?s pi));
         bs = drop (Suc i) (ubytes (mem s) ?pt addr n);
         t = ?s\<lparr>pipes := (pipes ?s)(pi := fold pput (take k bs) (pipes ?s pi))\<rparr>
     in if n - Suc i \<le> k then Ret (Some n) t else Blocked (blocked_on (Ch_nwrite pi) pr h0 (Some (Ch_nread pi)) t))"
      using Suc.hyps(1)[of "Suc i" ?s] Suc.hyps(2) in' Suc.prems p by simp
    also have "\<dots> = (let k = PIPESIZE - length ?q; bs = drop i (ubytes (mem s) ?pt addr n);
         t = s\<lparr>pipes := (pipes s)(pi := fold pput (take k bs) (pipes s pi))\<rparr>
     in if n - i \<le> k then Ret (Some n) t else Blocked (blocked_on (Ch_nwrite pi) pr h0 (Some (Ch_nread pi)) t))"
      unfolding ubytes_Cons[OF i] using room p(1) i by (auto simp: Let_def)
    finally show ?thesis .
  qed
qed

lemma wake_awake:
  "i < NPROC \<Longrightarrow> i \<noteq> pr \<Longrightarrow> p_state (ps ! i) = SLEEPING \<Longrightarrow> p_chan (ps ! i) = Some ch \<Longrightarrow>
    p_state (wake (Some ch) (Some pr) ps ! i) = RUNNABLE"
  by (simp add: wake_nth)

lemma pipe_enter:
  assumes "thread_ok pr (Lk_pipe pi) (hw s)" and "length (procs s) = NPROC" and "pipe_ok (pipes s pi)"
  shows "in_pipe pr pi (hw s) (s\<lparr>hw := enter (Lk_pipe pi) (hw s)\<rparr>)"
    and "bindr (curproc s) (\<lambda>p s. bindr (acquire (Lk_pipe pi) s) (\<lambda>_ s. f p s)) = f pr (s\<lparr>hw := enter (Lk_pipe pi) (hw s)\<rparr>)"
  using assms thread_okD[OF assms(1)] by (simp_all add: in_pipe_def curproc_ok lock_simps enter_settle)

text \<open>Every process asleep on the channel has been made runnable.\<close>

definition all_awake :: "chan \<Rightarrow> nat \<Rightarrow> 'z procst_scheme \<Rightarrow> 'z procst_scheme \<Rightarrow> bool" where
  "all_awake ch pr s t \<longleftrightarrow> (\<forall>i < NPROC. i \<noteq> pr \<and> p_state (procs s ! i) = SLEEPING \<and> p_chan (procs s ! i) = Some ch \<longrightarrow>
     p_state (procs t ! i) = RUNNABLE)"

definition asleep :: "chan \<Rightarrow> nat \<Rightarrow> 'z procst_scheme \<Rightarrow> bool" where
  "asleep ch pr t \<longleftrightarrow> p_state (procs t ! pr) = SLEEPING \<and> p_chan (procs t ! pr) = Some ch"

section \<open>Reading\<close>

lemma piperead_copy_ok:
  fixes s :: "'z filest_scheme"
  assumes "pipe_ok (pipes s pi)"
    and "urange e (mem s) (p_pagetable (procs s ! pr)) (addr + of_nat i) (min k (length (pqueue (pipes s pi))))"
  shows "\<exists>m' p'. piperead_copy pr pi addr i k s = Ret (int (i + min k (length (pqueue (pipes s pi)))))
      (s\<lparr>mem := m', pipes := (pipes s)(pi := p')\<rparr>) \<and>
    pqueue p' = drop k (pqueue (pipes s pi)) \<and> pipe_ok p' \<and>
    pi_readopen p' = pi_readopen (pipes s pi) \<and> pi_writeopen p' = pi_writeopen (pipes s pi) \<and>
    uwritten (mem s) (p_pagetable (procs s ! pr)) (addr + of_nat i) (take k (pqueue (pipes s pi))) m'"
  using assms
proof (induction k arbitrary: i s)
  case 0
  show ?case by (rule exI[of _ "mem s"], rule exI[of _ "pipes s pi"]) (use 0 in \<open>simp add: uwritten_def\<close>)
next
  case (Suc k)
  let ?p = "pipes s pi" and ?pt = "p_pagetable (procs s ! pr)" and ?a = "addr + of_nat i"
  show ?case
  proof (cases "pqueue ?p = []")
    case True
    show ?thesis
      by (rule exI[of _ "mem s"], rule exI[of _ ?p]) (use True Suc.prems in \<open>simp add: uwritten_def pqueue_empty\<close>)
  next
    case False
    define ch where "ch = pi_data ?p ! rb_ix PIPESIZE (pi_nread ?p)"
    have q: "pqueue ?p = ch # pqueue (pget ?p)" using pqueue_get[OF False] by (simp add: ch_def)
    let ?j = "min k (length (pqueue (pget ?p)))"
    have u: "urange e (mem s) ?pt ?a (Suc ?j)" using Suc.prems(2) by (simp add: q)
    have u1: "urange e (mem s) ?pt ?a (length [ch])" using urange_take[OF u] by simp
    obtain m1 where c: "copyout ?pt ?a [ch] s = Ret 0 (s\<lparr>mem := m1\<rparr>)" and w1: "uwritten (mem s) ?pt ?a [ch] m1"
      using copyout_ok[OF u1] by blast
    let ?s = "s\<lparr>mem := m1, pipes := (pipes s)(pi := pget ?p)\<rparr>"
    have st: "?s\<lparr>mem := m', pipes := (pipes ?s)(pi := p')\<rparr> = s\<lparr>mem := m', pipes := (pipes s)(pi := p')\<rparr>" for m' p'
      by simp
    have eq: "page_eq (mem s) m1 x" if "x \<in> tabs (mem s) 2 ?pt" for x
      using uwritten_tabs[OF u w1 _ that] by simp
    have a: "?a + of_nat (Suc 0) = addr + of_nat (Suc i)" by (simp add: algebra_simps)
    have "urange e m1 ?pt (addr + of_nat (Suc i)) ?j"
      using urange_cong(1)[OF urange_drop[OF u, of "Suc 0"] eq] unfolding a by simp
    then have "\<exists>m' p'. piperead_copy pr pi addr (Suc i) k ?s = Ret (int (Suc i + ?j)) (s\<lparr>mem := m', pipes := (pipes s)(pi := p')\<rparr>) \<and>
        pqueue p' = drop k (pqueue (pget ?p)) \<and> pipe_ok p' \<and> pi_readopen p' = pi_readopen ?p \<and> pi_writeopen p' = pi_writeopen ?p \<and>
        uwritten m1 ?pt (addr + of_nat (Suc i)) (take k (pqueue (pget ?p))) m'"
      using Suc.IH[of ?s "Suc i"] pipe_ok_get[OF Suc.prems(1) False] unfolding st by (simp add: pget_open)
    then obtain m2 p' where r: "piperead_copy pr pi addr (Suc i) k ?s = Ret (int (Suc i + ?j)) (s\<lparr>mem := m2, pipes := (pipes s)(pi := p')\<rparr>)"
      and p': "pqueue p' = drop k (pqueue (pget ?p))" "pipe_ok p'" "pi_readopen p' = pi_readopen ?p" "pi_writeopen p' = pi_writeopen ?p"
      and w2: "uwritten m1 ?pt (addr + of_nat (Suc i)) (take k (pqueue (pget ?p))) m2" by blast
    have "uwritten (mem s) ?pt ?a ([ch] @ take k (pqueue (pget ?p))) m2"
      by (rule uwritten_append[OF u w1]) (use w2 in \<open>simp_all add: algebra_simps\<close>)
    moreover have "piperead_copy pr pi addr i (Suc k) s = piperead_copy pr pi addr (Suc i) k ?s"
      using False c by (simp add: pqueue_empty Let_def ch_def[symmetric] upd_pipe_def pget_def)
    ultimately show ?thesis using r p' by (intro exI[of _ m2] exI[of _ p']) (simp add: q del: fun_upd_apply piperead_copy.simps)
  qed
qed

section \<open>Properties\<close>

text \<open>
  C29: \<open>pipewrite\<close> appends to the queue of the pipe. When the bytes fit, it returns their number,
  the queue is extended by exactly these bytes of user memory in their order, and every reader
  that waits is made runnable. When they do not fit, the pipe is filled up with the first of them,
  waiting readers are made runnable and the writer sleeps, without the lock, until there is room.
  The counters may have wrapped around any number of times.
\<close>

theorem pipewrite_appends:
  fixes s :: "'z filest_scheme"
  assumes "thread_ok pr (Lk_pipe pi) (hw s)" and "length (procs s) = NPROC" and "pipe_ok (pipes s pi)"
    and "p_killed (procs s ! pr) = 0" and "pi_readopen (pipes s pi) \<noteq> 0" and "0 \<le> n"
    and "urange e (mem s) (p_pagetable (procs s ! pr)) addr (nat n)"
  shows "let q = pqueue (pipes s pi); bs = ubytes (mem s) (p_pagetable (procs s ! pr)) addr (nat n);
      room = PIPESIZE - length q in
    if nat n \<le> room
    then \<exists>t. pipewrite pi addr n s = Ret n t \<and> pqueue (pipes t pi) = q @ bs \<and> pipe_ok (pipes t pi) \<and>
      all_awake (Ch_nread pi) pr s t \<and> hw t = settle (hw s) \<and> mem t = mem s \<and> (\<forall>a. a \<noteq> pi \<longrightarrow> pipes t a = pipes s a)
    else \<exists>t. pipewrite pi addr n s = Blocked t \<and> pqueue (pipes t pi) = q @ take room bs \<and> pipe_ok (pipes t pi) \<and>
      all_awake (Ch_nread pi) pr s t \<and> asleep (Ch_nwrite pi) pr t \<and> lk_free (Lk_pipe pi) (hw t) \<and>
      mem t = mem s \<and> (\<forall>a. a \<noteq> pi \<longrightarrow> pipes t a = pipes s a)"
proof -
  define bs where "bs = ubytes (mem s) (p_pagetable (procs s ! pr)) addr (nat n)"
  define room where "room = PIPESIZE - length (pqueue (pipes s pi))"
  define p' where "p' = fold pput (take room bs) (pipes s pi)"
  note h = thread_okD[OF assms(1)]
  note d = in_pipeD[OF pipe_enter(1)[OF assms(1-3)]]
  have fits: "length (pqueue (pipes s pi)) + length (take room bs) \<le> PIPESIZE"
    using assms(3) unfolding room_def pipe_ok_def length_take by linarith
  have p': "pqueue p' = pqueue (pipes s pi) @ take room bs" "pipe_ok p'"
    using pqueue_puts[OF assms(3), of "take room bs"] fits by (simp_all add: p'_def)
  have run: "pipewrite pi addr n s = bindr (pipewrite_loop pr pi addr (nat n) 0 (s\<lparr>hw := enter (Lk_pipe pi) (hw s)\<rparr>)) (pipewrite_finish pi)"
    unfolding pipewrite_def by (rule pipe_enter(2)[OF assms(1-3)])
  have loop: "pipewrite_loop pr pi addr (nat n) 0 (s\<lparr>hw := enter (Lk_pipe pi) (hw s)\<rparr>) =
      (let t = s\<lparr>hw := enter (Lk_pipe pi) (hw s), pipes := (pipes s)(pi := p')\<rparr>
       in if nat n \<le> room then Ret (Some (nat n)) t
          else Blocked (blocked_on (Ch_nwrite pi) pr (hw s) (Some (Ch_nread pi)) t))"
    using pipewrite_loop_ok[OF pipe_enter(1)[OF assms(1-3)], of e addr "nat n" 0] assms(4,5,7)
    by (simp add: bs_def room_def p'_def Let_def)
  show ?thesis
  proof (cases "nat n \<le> room")
    case True
    let ?t = "s\<lparr>hw := enter (Lk_pipe pi) (hw s), pipes := (pipes s)(pi := p')\<rparr>"
    have "others_free ?t" using d(4) by (simp add: others_free_def)
    then have "pipewrite_finish pi (Some (nat n)) ?t = Ret n (s\<lparr>hw := settle (hw s),
        procs := wake (Some (Ch_nread pi)) (Some pr) (procs s), pipes := (pipes s)(pi := p')\<rparr>)"
      using wakeup_ok[of ?t "Some (Ch_nread pi)"] h assms(2,6) by (simp add: pipewrite_finish_def lock_simps)
    moreover have "take room bs = bs" using True by (simp add: bs_def)
    ultimately show ?thesis
      using True p' run loop by (simp add: bs_def[symmetric] room_def[symmetric] all_awake_def wake_awake)
  next
    case False
    then show ?thesis
      using p' run loop h assms(2) h(6)[symmetric]
      by (simp add: bs_def[symmetric] room_def[symmetric] blocked_on_def asleep_def all_awake_def wake_awake Let_def lock_simps)
  qed
qed

text \<open>
  C30: \<open>piperead\<close> takes from the front of the queue. From an empty pipe that still has a writer the
  reader sleeps, without the lock and without any change to the pipe. Otherwise it returns the
  number of bytes it took, at most the number asked for; user memory holds exactly the first bytes
  of the queue, in their order, and no other byte of memory has changed; the queue has lost exactly
  these bytes; and every writer that waits for room is made runnable.
\<close>

theorem piperead_takes:
  fixes s :: "'z filest_scheme"
  assumes "thread_ok pr (Lk_pipe pi) (hw s)" and "length (procs s) = NPROC" and "pipe_ok (pipes s pi)"
    and "p_killed (procs s ! pr) = 0" and "0 \<le> n"
    and "urange e (mem s) (p_pagetable (procs s ! pr)) addr (min (nat n) (length (pqueue (pipes s pi))))"
  shows "let q = pqueue (pipes s pi) in
    if q = [] \<and> pi_writeopen (pipes s pi) \<noteq> 0
    then \<exists>t. piperead pi addr n s = Blocked t \<and> pipes t = pipes s \<and> mem t = mem s \<and>
      asleep (Ch_nread pi) pr t \<and> lk_free (Lk_pipe pi) (hw t)
    else \<exists>t. piperead pi addr n s = Ret (int (min (nat n) (length q))) t \<and>
      uwritten (mem s) (p_pagetable (procs s ! pr)) addr (take (nat n) q) (mem t) \<and>
      pqueue (pipes t pi) = drop (nat n) q \<and> pipe_ok (pipes t pi) \<and> all_awake (Ch_nwrite pi) pr s t \<and>
      hw t = settle (hw s) \<and> (\<forall>a. a \<noteq> pi \<longrightarrow> pipes t a = pipes s a)"
proof -
  let ?s = "s\<lparr>hw := enter (Lk_pipe pi) (hw s)\<rparr>" and ?q = "pqueue (pipes s pi)"
  note h = thread_okD[OF assms(1)]
  note d = in_pipeD[OF pipe_enter(1)[OF assms(1-3)]]
  have run: "piperead pi addr n s = piperead_locked pr pi addr n ?s"
    unfolding piperead_def by (rule pipe_enter(2)[OF assms(1-3)])
  show ?thesis
  proof (cases "?q = [] \<and> pi_writeopen (pipes s pi) \<noteq> 0")
    case True
    have "sleep_on (Ch_nread pi) (Lk_pipe pi) ?s = Blocked (blocked_on (Ch_nread pi) pr (hw s) None s)"
      using sleep_on_ok[OF d(8,9)] by (simp add: blocked_on_def Let_def)
    then have "piperead pi addr n s = Blocked (blocked_on (Ch_nread pi) pr (hw s) None s)"
      using True killed_ok[OF d(1,3)] d(2) assms(4) by (simp add: run piperead_locked_def pqueue_empty)
    then show ?thesis
      using True h h(6)[symmetric] assms(2) by (simp add: blocked_on_def Let_def asleep_def lock_simps)
  next
    case False
    obtain m' p' where c: "piperead_copy pr pi addr 0 (nat n) ?s = Ret (int (0 + min (nat n) (length ?q)))
        (?s\<lparr>mem := m', pipes := (pipes ?s)(pi := p')\<rparr>)"
      and p': "pqueue p' = drop (nat n) ?q" "pipe_ok p'"
      and w: "uwritten (mem s) (p_pagetable (procs s ! pr)) addr (take (nat n) ?q) m'"
      using piperead_copy_ok[of ?s pi e pr addr 0 "nat n"] assms(3,6) by (auto simp del: fun_upd_apply)
    let ?t = "s\<lparr>hw := enter (Lk_pipe pi) (hw s), mem := m', pipes := (pipes s)(pi := p')\<rparr>"
    have "others_free ?t" using d(4) by (simp add: others_free_def)
    then have "wakeup (Some (Ch_nwrite pi)) ?t = Ret () (?t\<lparr>procs := wake (Some (Ch_nwrite pi)) (Some pr) (procs s)\<rparr>)"
      using wakeup_ok[of ?t "Some (Ch_nwrite pi)"] h assms(2) by (simp add: lock_simps)
    then have "piperead pi addr n s = Ret (int (min (nat n) (length ?q))) (s\<lparr>hw := settle (hw s), mem := m',
        procs := wake (Some (Ch_nwrite pi)) (Some pr) (procs s), pipes := (pipes s)(pi := p')\<rparr>)"
      using c h unfolding run piperead_locked_def by (subst if_not_P) (use False in \<open>simp_all add: pqueue_empty lock_simps del: fun_upd_apply\<close>)
    then show ?thesis using False p' w by (simp add: all_awake_def wake_awake)
  qed
qed

text \<open>A process with a page of user memory, and a pipe whose counters are about to wrap around.\<close>

definition piped :: "u32 \<Rightarrow> trapst" where
  "piped w = kern0\<lparr>mem := um3, procs := (procs proc0)[0 := (procs proc0 ! 0)\<lparr>p_pagetable := 0x80001000\<rparr>],
     pipes := (\<lambda>_. pipe0\<lparr>pi_nread := -1, pi_nwrite := w\<rparr>)\<rparr>"

lemma piped_simps [simp]:
  "hw (piped w) = hw kern0" "length (procs (piped w)) = NPROC" "mem (piped w) = um3"
  "p_pagetable (procs (piped w) ! 0) = 0x80001000" "p_killed (procs (piped w) ! 0) = 0"
  "pipes (piped w) a = pipe0\<lparr>pi_nread := -1, pi_nwrite := w\<rparr>"
  by (simp_all add: piped_def NPROC_def) (simp add: proc0_nth unused_proc_def)

lemma piped_range: "urange 0x80000000 um3 0x80001000 0x5FFE 2"
proof -
  have "PGROUNDDOWN (0x5FFE + of_nat k) = 0x5000" if "k < 2" for k
    using that by (auto simp: less_2_cases_iff PGROUNDDOWN_def PGSIZE_def)
  then show ?thesis by (intro um3_urange) (simp_all add: MAXVA_def)
qed

lemma piped_queue:
  "pqueue (pipe0\<lparr>pi_nread := -1, pi_nwrite := -1\<rparr>) = []" "pqueue (pipe0\<lparr>pi_nread := -1, pi_nwrite := 1\<rparr>) = [0, 0]"
  by (simp_all add: pqueue_def rb_list_def pipe0_def rb_ix_def PIPESIZE_def unsigned_minus_1_eq_mask mask_eq_exp_minus_1 upt_rec)

lemma piped_ok: "length (pqueue (pipe0\<lparr>pi_nread := r, pi_nwrite := w\<rparr>)) \<le> PIPESIZE \<Longrightarrow> pipe_ok (pipe0\<lparr>pi_nread := r, pi_nwrite := w\<rparr>)"
  by (simp add: pipe_ok_def pipe0_def)

theorem pipewrite_appends_witness:
  "\<exists>t. pipewrite 0x87000000 0x5FFE 2 (piped (-1)) = Ret 2 t \<and>
    pqueue (pipes t 0x87000000) = ubytes um3 0x80001000 0x5FFE 2"
  using pipewrite_appends[of 0 "0x87000000" "piped (-1)" 2 "0x80000000" "0x5FFE"] piped_range
    kern0_thread[of "Lk_pipe 0x87000000"]
  by (auto simp: piped_queue piped_ok PIPESIZE_def Let_def pipe0_def[THEN arg_cong, of pi_readopen])

theorem piperead_takes_witness:
  "\<exists>t. piperead 0x87000000 0x5FFE 10 (piped 1) = Ret 2 t \<and> pqueue (pipes t 0x87000000) = []"
  using piperead_takes[of 0 "0x87000000" "piped 1" 10 "0x80000000" "0x5FFE"] piped_range
    kern0_thread[of "Lk_pipe 0x87000000"]
  by (auto simp: piped_queue piped_ok PIPESIZE_def Let_def numeral_2_eq_2)

end
