(* ===== verification/ConsoleSpec.thy ===== *)
theory ConsoleSpec
  imports States
begin

text \<open>
  The line discipline of the console. The circular buffer holds the input that readers may take
  and, after it, the line that is being edited; the reference \<open>discipline\<close> says on plain lists
  what a character does to the two.
\<close>

interpretation crb: ring_buffer INPUT_BUF_SIZE
  by unfold_locales (simp_all add: INPUT_BUF_SIZE_def)

section \<open>Reference\<close>

type_synonym lines = "u8 list \<times> u8 list"

definition commits :: "int \<Rightarrow> bool" where
  "commits c \<longleftrightarrow> c = 0x0A \<or> c = CtrlC CHR ''D''"

definition cooked :: "int \<Rightarrow> int" where
  "cooked c = (if c = 0x0D then 0x0A else c)"

definition discipline :: "int \<Rightarrow> lines \<Rightarrow> lines" where
  "discipline c l =
     (let (ready, edit) = l in
      if c = CtrlC CHR ''P'' then l
      else if c = CtrlC CHR ''U'' then (ready, [])
      else if c = CtrlC CHR ''H'' \<or> c = 0x7F then (ready, butlast edit)
      else if c \<noteq> 0 \<and> length ready + length edit < INPUT_BUF_SIZE then
        let edit = edit @ [word_of_int (cooked c)] in
        if commits (cooked c) \<or> length ready + length edit = INPUT_BUF_SIZE then (ready @ edit, []) else (ready, edit)
      else l)"

text \<open>What the terminal shows for the character; the list of processes is left open.\<close>

definition rubout :: bytes where "rubout = [CHR 0x08, CHR '' '', CHR 0x08]"

definition echo :: "int \<Rightarrow> lines \<Rightarrow> bytes" where
  "echo c l =
     (let (ready, edit) = l in
      if c = CtrlC CHR ''U'' then concat (replicate (length edit) rubout)
      else if c = CtrlC CHR ''H'' \<or> c = 0x7F then (if edit = [] then [] else rubout)
      else if c \<noteq> 0 \<and> length ready + length edit < INPUT_BUF_SIZE then [char_of (cooked c)]
      else [])"

section \<open>The buffer\<close>

definition ready :: "cons \<Rightarrow> u8 list" where
  "ready c = rb_list INPUT_BUF_SIZE (c_buf c) (c_r c) (c_w c)"

definition editing :: "cons \<Rightarrow> u8 list" where
  "editing c = rb_list INPUT_BUF_SIZE (c_buf c) (c_w c) (c_e c)"

definition cons_ok :: "cons \<Rightarrow> bool" where
  "cons_ok c \<longleftrightarrow> length (c_buf c) = INPUT_BUF_SIZE \<and> unat (c_w c - c_r c) \<le> unat (c_e c - c_r c) \<and>
     unat (c_e c - c_r c) \<le> INPUT_BUF_SIZE \<and> 0x0A \<notin> set (editing c)"

lemma cons_split:
  assumes "cons_ok c"
  shows "rb_list INPUT_BUF_SIZE (c_buf c) (c_r c) (c_e c) = ready c @ editing c"
    and "unat (c_e c - c_r c) = length (ready c) + length (editing c)"
proof -
  show *: "rb_list INPUT_BUF_SIZE (c_buf c) (c_r c) (c_e c) = ready c @ editing c"
    unfolding ready_def editing_def using assms by (intro rb_list_split) (simp add: cons_ok_def)
  show "unat (c_e c - c_r c) = length (ready c) + length (editing c)"
    using arg_cong[OF *, of length] by simp
qed

text \<open>The two changes of the edited line.\<close>

definition unput :: "cons \<Rightarrow> cons" where
  "unput c = c\<lparr>c_e := c_e c - 1\<rparr>"

definition put :: "u8 \<Rightarrow> cons \<Rightarrow> cons" where
  "put b c = c\<lparr>c_buf := (c_buf c)[rb_ix INPUT_BUF_SIZE (c_e c) := b], c_e := c_e c + 1\<rparr>"

lemma unput_ok:
  assumes "cons_ok c" and "editing c \<noteq> []"
  shows "ready (unput c) = ready c" and "editing (unput c) = butlast (editing c)" and "cons_ok (unput c)"
    and "c_buf c ! rb_ix INPUT_BUF_SIZE (c_e c - 1) = last (editing c)"
proof -
  have ne: "c_w c \<noteq> c_e c" using assms(2) by (simp add: editing_def rb_list_empty)
  have e: "editing c = editing (unput c) @ [c_buf c ! rb_ix INPUT_BUF_SIZE (c_e c - 1)]"
    unfolding editing_def using rb_list_unpush[OF ne] by (simp add: unput_def)
  show r: "ready (unput c) = ready c" by (simp add: ready_def unput_def)
  show b: "editing (unput c) = butlast (editing c)" "c_buf c ! rb_ix INPUT_BUF_SIZE (c_e c - 1) = last (editing c)"
    by (simp_all add: e)
  have n: "unat (c_e c - c_r c) = length (ready c) + Suc (length (editing (unput c)))"
    using cons_split(2)[OF assms(1)] e by simp
  then have "c_e c \<noteq> c_r c" by auto
  then have "unat (c_e c - 1 - c_r c) = length (ready c) + length (editing (unput c))"
    using unat_minus_one[of "c_e c - c_r c"] n by (simp add: algebra_simps)
  then show "cons_ok (unput c)"
    using assms(1) n e unfolding cons_ok_def by (simp add: unput_def ready_def)
qed

lemma put_ok:
  assumes "cons_ok c" and "length (ready c) + length (editing c) < INPUT_BUF_SIZE"
  shows "ready (put b c) = ready c" and "editing (put b c) = editing c @ [b]"
    and "unat (c_e (put b c) - c_r c) = length (ready c) + length (editing c) + 1"
proof -
  let ?N = INPUT_BUF_SIZE and ?d = "(c_buf c)[rb_ix INPUT_BUF_SIZE (c_e c) := b]"
  have len: "length (c_buf c) = ?N" and lt: "unat (c_e c - c_r c) < ?N"
    using assms cons_split(2)[OF assms(1)] by (simp_all add: cons_ok_def)
  have all: "rb_list ?N ?d (c_r c) (c_e c + 1) = ready c @ editing c @ [b]"
    using crb.rb_list_push[OF len lt] cons_split(1)[OF assms(1)] by simp
  have n: "unat (c_e c + 1 - c_r c) = Suc (length (ready c) + length (editing c))"
    using arg_cong[OF all, of length] by simp
  then show "unat (c_e (put b c) - c_r c) = length (ready c) + length (editing c) + 1" by (simp add: put_def)
  have "unat (c_w c - c_r c) = length (ready c)" by (simp add: ready_def)
  then have s: "rb_list ?N ?d (c_r c) (c_e c + 1) = rb_list ?N ?d (c_r c) (c_w c) @ rb_list ?N ?d (c_w c) (c_e c + 1)"
    using n by (intro rb_list_split) simp
  have l: "length (rb_list ?N ?d (c_r c) (c_w c)) = length (ready c)" by (simp add: ready_def)
  have "rb_list ?N ?d (c_r c) (c_w c) = ready c \<and> rb_list ?N ?d (c_w c) (c_e c + 1) = editing c @ [b]"
    by (rule append_eq_append_conv[THEN iffD1, OF disjI1[OF l] trans[OF s[symmetric] all]])
  then show "ready (put b c) = ready c" "editing (put b c) = editing c @ [b]"
    by (simp_all add: ready_def editing_def put_def)
qed

lemma put_cons_ok:
  assumes "cons_ok c" and "length (ready c) + length (editing c) < INPUT_BUF_SIZE" and "b \<noteq> 0x0A"
  shows "cons_ok (put b c)"
proof -
  note p = put_ok[OF assms(1,2), of b]
  have r: "unat (c_w c - c_r c) = length (ready c)" by (simp add: ready_def)
  show ?thesis
    using assms p r by (simp add: cons_ok_def) (simp add: put_def)
qed

definition commit_line :: "cons \<Rightarrow> cons" where
  "commit_line c = c\<lparr>c_w := c_e c\<rparr>"

lemma line_commit_ok:
  assumes "cons_ok c" and "length (ready c) + length (editing c) < INPUT_BUF_SIZE"
  shows "ready (commit_line (put b c)) = ready c @ editing c @ [b]" and "editing (commit_line (put b c)) = []"
    and "cons_ok (commit_line (put b c))"
proof -
  note p = put_ok[OF assms, of b]
  have len: "length (c_buf c) = INPUT_BUF_SIZE" and lt: "unat (c_e c - c_r c) < INPUT_BUF_SIZE"
    using assms cons_split(2)[OF assms(1)] by (simp_all add: cons_ok_def)
  show r: "ready (commit_line (put b c)) = ready c @ editing c @ [b]"
    using crb.rb_list_push[OF len lt, of b] cons_split(1)[OF assms(1)] by (simp add: ready_def commit_line_def put_def)
  show e: "editing (commit_line (put b c)) = []" by (simp add: editing_def commit_line_def rb_list_empty)
  show "cons_ok (commit_line (put b c))"
    using len p(3) assms(2) e unfolding cons_ok_def by (simp add: commit_line_def put_def)
qed

section \<open>Output\<close>

lemma consputc_ok:
  assumes "cpu_ok (hw s)" and "tty_ok (hw s)"
  shows "c \<noteq> BACKSPACE \<Longrightarrow> consputc c s = Ret () (s\<lparr>hw := emit [char_of c] (settle (hw s))\<rparr>)"
    and "consputc BACKSPACE s = Ret () (s\<lparr>hw := emit rubout (settle (hw s))\<rparr>)"
  using assms by (simp_all add: consputc_def uartputc_sync_ok emit_ops rubout_def) 
    (simp add: char_of_def)

lemma printf_newline: "printf_chars [CHR 0x0A] [] = Some [CHR 0x0A]"
  by simp

lemma procdump_ok:
  fixes s :: "'z procst_scheme"
  assumes "cpu_ok (hw s)" and "tty_ok (hw s)" and "lk_free Lk_pr (hw s)"
  shows "\<exists>out. procdump s = Ret () (s\<lparr>hw := emit out (settle (hw s))\<rparr>)"
proof -
  let ?I = "\<lambda>(i :: nat) t. \<exists>out. t = s\<lparr>hw := emit out (settle (hw s))\<rparr>"
  let ?body = "\<lambda>i s. let p = procs s ! i in
       if p_state p = UNUSED then Ret () s
       else
         bindr (kprintf ''%d %s %s'' [VInt (word_of_int (p_pid p)), VStr (Some (state_name (p_state p))),
           VStr (Some (p_name p))] s) (\<lambda>_ s.
         bindr (kprintf [CHR 0x0A] [] s) (\<lambda>_ s. Ret () s))"
  have first: "kprintf [CHR 0x0A] [] s = Ret 0 (s\<lparr>hw := emit [CHR 0x0A] (settle (hw s))\<rparr>)"
    by (rule kprintf_ok[OF assms printf_newline])
  have "\<exists>t. for_upto 0 NPROC ?body (s\<lparr>hw := emit [CHR 0x0A] (settle (hw s))\<rparr>) = Ret () t \<and> ?I (0 + NPROC) t"
  proof (rule for_upto_rule[where I = ?I])
    fix i and t :: "'z procst_scheme" assume "?I i t"
    then obtain out where t: "t = s\<lparr>hw := emit out (settle (hw s))\<rparr>" by blast
    have h: "cpu_ok (hw t)" "tty_ok (hw t)" "lk_free Lk_pr (hw t)" "settle (hw t) = hw t"
      using assms by (simp_all add: t emit_ops)
    let ?p = "procs t ! i"
    obtain o1 where "printf_chars ''%d %s %s'' [VInt (word_of_int (p_pid ?p)), VStr (Some (state_name (p_state ?p))), VStr (Some (p_name ?p))] = Some o1"
      by (simp add: printf_conv_def hd0_def)
    then have "kprintf ''%d %s %s'' [VInt (word_of_int (p_pid ?p)), VStr (Some (state_name (p_state ?p))), VStr (Some (p_name ?p))] t =
        Ret 0 (t\<lparr>hw := emit o1 (hw t)\<rparr>)"
      using kprintf_ok[OF h(1-3)] h(4) by simp
    moreover have "kprintf [CHR 0x0A] [] (t\<lparr>hw := emit o1 (hw t)\<rparr>) = Ret 0 (t\<lparr>hw := emit (o1 @ [CHR 0x0A]) (hw t)\<rparr>)"
      using kprintf_ok[OF _ _ _ printf_newline, of "t\<lparr>hw := emit o1 (hw t)\<rparr>"] h by (simp add: emit_ops)
    ultimately show "\<exists>t'. ?body i t = Ret () t' \<and> ?I (Suc i) t'"
      using t by (auto simp: Let_def)
  qed blast
  then show ?thesis using first by (auto simp: procdump_def)
qed

section \<open>The handler\<close>

abbreviation lines_of :: "cons \<Rightarrow> lines" where "lines_of c \<equiv> (ready c, editing c)"

lemma kill_line_ok:
  fixes s :: "'z consst_scheme"
  assumes "cons_ok (cns s)" and "n = length (editing (cns s))"
    and "cpu_ok (hw s)" and "tty_ok (hw s)" and "settle (hw s) = hw s"
  shows "\<exists>c. kill_line n s = Ret () (s\<lparr>hw := emit (concat (replicate n rubout)) (hw s), cns := c\<rparr>) \<and>
    lines_of c = (ready (cns s), []) \<and> cons_ok c"
  using assms
proof (induction n arbitrary: s)
  case 0
  show ?case by (rule exI[of _ "cns s"]) (use 0 in simp)
next
  case (Suc n)
  have ne: "editing (cns s) \<noteq> []" using Suc.prems(2) by auto
  note u = unput_ok[OF Suc.prems(1) ne]
  have "c_w (cns s) \<noteq> c_e (cns s)" using ne by (simp add: editing_def rb_list_empty)
  moreover have "last (editing (cns s)) \<noteq> 0x0A"
    using Suc.prems(1) last_in_set[OF ne] by (auto simp: cons_ok_def)
  ultimately have run: "kill_line (Suc n) s = kill_line n (s\<lparr>hw := emit rubout (hw s), cns := unput (cns s)\<rparr>)"
    using u(4) consputc_ok(2)[of "s\<lparr>cns := unput (cns s)\<rparr>"] Suc.prems(3-5) by (simp add: upd_cons_def unput_def Let_def)
  have n: "length (editing (cns s)) - Suc 0 = n" using Suc.prems(2) by simp
  let ?s = "s\<lparr>hw := emit rubout (hw s), cns := unput (cns s)\<rparr>"
  have "\<exists>c. kill_line n ?s = Ret () (?s\<lparr>hw := emit (concat (replicate n rubout)) (hw ?s), cns := c\<rparr>) \<and>
      lines_of c = (ready (cns ?s), []) \<and> cons_ok c"
    by (rule Suc.IH) (use u(2,3) n Suc.prems in \<open>simp_all add: emit_ops\<close>)
  then obtain c where "kill_line n ?s = Ret () (s\<lparr>hw := emit (rubout @ concat (replicate n rubout)) (hw s), cns := c\<rparr>)"
    "lines_of c = (ready (cns s), [])" "cons_ok c" using u(1) by auto
  then show ?case using run by (intro exI[of _ c]) (simp del: kill_line.simps)
qed

text \<open>A hart that may take the locks the handler needs.\<close>

definition con_hw :: "machine \<Rightarrow> bool" where
  "con_hw h \<longleftrightarrow> cpu_ok h \<and> tty_ok h \<and> lk_free Lk_cons h \<and> lk_free Lk_pr h \<and> (\<forall>i < NPROC. lk_free (Lk_proc i) h)"

text \<open>What is left of the state by the handler.\<close>

definition con_post :: "bytes \<Rightarrow> lines \<Rightarrow> 'z consst_scheme \<Rightarrow> 'z consst_scheme \<Rightarrow> bool" where
  "con_post out l s t \<longleftrightarrow> (\<exists>ps c. t = s\<lparr>hw := emit out (settle (hw s)), procs := ps, cns := c\<rparr> \<and> length ps = NPROC \<and>
     lines_of c = l \<and> cons_ok c)"

lemma consoleintr_unlock:
  fixes s :: "'z consst_scheme"
  assumes "con_hw (hw s)" and "length ps = NPROC" and "cons_ok c" and "lines_of c = l"
    and "body (s\<lparr>hw := enter Lk_cons (hw s)\<rparr>) = Ret () (s\<lparr>hw := emit out (enter Lk_cons (hw s)), procs := ps, cns := c\<rparr>)"
  shows "\<exists>t. bindr (acquire Lk_cons s) (\<lambda>_ s. bindr (body s) (\<lambda>_ s. release Lk_cons s)) = Ret () t \<and> con_post out l s t"
  using assms by (auto simp: con_hw_def con_post_def lock_simps emit_ops)

lemma ctrl_codes [simp]:
  "CtrlC CHR ''P'' = 0x10" "CtrlC CHR ''U'' = 0x15" "CtrlC CHR ''H'' = 8" "CtrlC CHR ''D'' = 4"
  by (simp_all add: CtrlC_def)

lemma consoleintr_store:
  fixes s :: "'z consst_scheme"
  assumes "con_hw (hw s)" and "length (procs s) = NPROC" and "cons_ok (cns s)" and "0 < c" and "c < 256"
    and "c \<notin> {0x10, 0x15, 8, 0x7F}"
    and "length (ready (cns s)) + length (editing (cns s)) < INPUT_BUF_SIZE"
  shows "\<exists>t. consoleintr c s = Ret () t \<and> con_post [char_of (cooked c)] (discipline c (lines_of (cns s))) s t"
proof -
  let ?c = "cooked c" and ?s = "s\<lparr>hw := enter Lk_cons (hw s)\<rparr>" and ?x = "put (word_of_int (cooked c)) (cns s)"
  note p = put_ok[OF assms(3,7), of "word_of_int ?c"] and k = line_commit_ok[OF assms(3,7), of "word_of_int ?c"]
  have h: "cpu_ok (hw s)" "tty_ok (hw s)" "lk_free Lk_cons (hw s)" using assms(1) by (simp_all add: con_hw_def)
  have c: "consputc ?c ?s = Ret () (s\<lparr>hw := emit [char_of ?c] (enter Lk_cons (hw s))\<rparr>)"
    using consputc_ok(1)[of ?s ?c] h assms(5) by (simp add: lock_simps BACKSPACE_def cooked_def)
  have n: "unat (c_e ?x - c_r (cns s)) = length (ready (cns s)) + length (editing (cns s)) + 1" by (rule p(3))
  have r: "c_r ?x = c_r (cns s)" by (simp add: put_def)
  define full where "full \<longleftrightarrow> commits ?c \<or> length (ready (cns s)) + length (editing (cns s)) + 1 = INPUT_BUF_SIZE"
  define ps where "ps = (if full then wake (Some Ch_cons_r) (cpu_proc (mycpu (hw s))) (procs s) else procs s)"
  define x where "x = (if full then commit_line ?x else ?x)"
  have "others_free (s\<lparr>hw := emit o' (enter Lk_cons (hw s)), cns := y\<rparr>)" for o' y
    using assms(1) by (simp add: con_hw_def others_free_def lock_simps)
  then have w: "wakeup (Some Ch_cons_r) (s\<lparr>hw := emit o' (enter Lk_cons (hw s)), cns := y\<rparr>) =
      Ret () (s\<lparr>hw := emit o' (enter Lk_cons (hw s)), procs := wake (Some Ch_cons_r) (cpu_proc (mycpu (hw s))) (procs s), cns := y\<rparr>)" for o' y
    using wakeup_ok[of "s\<lparr>hw := emit o' (enter Lk_cons (hw s)), cns := y\<rparr>"] assms(2) h by (simp add: lock_simps emit_ops)
  have nl: "word_of_int ?c \<noteq> (0x0A :: u8)" if "?c \<noteq> 0x0A"
  proof
    assume "word_of_int ?c = (0x0A :: u8)"
    then have "uint (word_of_int ?c :: u8) = uint (0x0A :: u8)" by simp
    then show False using that assms(4,5) by (simp add: uint_word_of_int cooked_def split: if_splits)
  qed
  have x: "lines_of x = discipline c (lines_of (cns s))" "cons_ok x"
    using p k put_cons_ok[OF assms(3,7) nl] assms(4,6,7)
    by (auto simp: x_def full_def discipline_def Let_def commits_def cooked_def)
  show ?thesis
    unfolding consoleintr_def
  proof (rule consoleintr_unlock[OF assms(1) _ x(2,1)])
    show "length ps = NPROC" using assms(2) by (simp add: ps_def)
  qed (use assms(4,6,7) c w n r cons_split(2)[OF assms(3)] in
    \<open>auto simp: Let_def upd_cons_def x_def ps_def full_def commits_def cooked_def put_def commit_line_def\<close>)
qed

lemma consoleintr_same:
  fixes s :: "'z consst_scheme"
  assumes "con_hw (hw s)" and "length (procs s) = NPROC" and "cons_ok (cns s)"
    and "body (s\<lparr>hw := enter Lk_cons (hw s)\<rparr>) = Ret () (s\<lparr>hw := emit out (enter Lk_cons (hw s))\<rparr>)"
  shows "\<exists>t. bindr (acquire Lk_cons s) (\<lambda>_ s. bindr (body s) (\<lambda>_ s. release Lk_cons s)) = Ret () t \<and>
    con_post out (lines_of (cns s)) s t"
  by (rule consoleintr_unlock[OF assms(1,2,3) refl]) (use assms(4) in simp)

lemma consoleintr_ok:
  fixes s :: "'z consst_scheme"
  assumes "con_hw (hw s)" and "length (procs s) = NPROC" and "cons_ok (cns s)" and "0 \<le> c" and "c < 256"
  shows "\<exists>t out. consoleintr c s = Ret () t \<and> con_post out (discipline c (lines_of (cns s))) s t \<and>
    (c \<noteq> CtrlC CHR ''P'' \<longrightarrow> out = echo c (lines_of (cns s)))"
proof -
  let ?s = "s\<lparr>hw := enter Lk_cons (hw s)\<rparr>" and ?x = "cns s"
  have h: "cpu_ok (hw s)" "tty_ok (hw s)" "lk_free Lk_cons (hw s)" "lk_free Lk_pr (hw s)"
    using assms(1) by (simp_all add: con_hw_def)
  then have h': "cpu_ok (hw ?s)" "tty_ok (hw ?s)" "lk_free Lk_pr (hw ?s)" "settle (hw ?s) = hw ?s"
    by (simp_all add: lock_simps)
  have emp: "c_e ?x = c_w ?x \<longleftrightarrow> editing ?x = []" by (auto simp: editing_def rb_list_empty)
  consider "c = 0x10" | "c = 0x15" | "c \<in> {8, 0x7F}" "editing ?x = []" | "c \<in> {8, 0x7F}" "editing ?x \<noteq> []"
    | "c \<notin> {0x10, 0x15, 8, 0x7F}" "c = 0 \<or> \<not> length (ready ?x) + length (editing ?x) < INPUT_BUF_SIZE"
    | "c \<notin> {0x10, 0x15, 8, 0x7F}" "0 < c" "length (ready ?x) + length (editing ?x) < INPUT_BUF_SIZE"
    using assms(4) by fastforce
  then show ?thesis
  proof cases
    case 1
    obtain out where "procdump ?s = Ret () (s\<lparr>hw := emit out (enter Lk_cons (hw s))\<rparr>)"
      using procdump_ok[OF h'(1-3)] h'(4) by auto
    then have "\<exists>t. consoleintr c s = Ret () t \<and> con_post out (lines_of ?x) s t"
      unfolding consoleintr_def using 1 by (intro consoleintr_same[OF assms(1-3)]) simp
    then show ?thesis using 1 by (auto simp: discipline_def)
  next
    case 2
    have n: "unat (c_e ?x - c_w ?x) = length (editing ?x)" by (simp add: editing_def)
    obtain y where y: "kill_line (length (editing ?x)) ?s =
        Ret () (s\<lparr>hw := emit (concat (replicate (length (editing ?x)) rubout)) (enter Lk_cons (hw s)), cns := y\<rparr>)"
      "lines_of y = (ready ?x, [])" "cons_ok y"
      using kill_line_ok[of ?s "length (editing ?x)"] assms(3) h' by auto
    have "\<exists>t. consoleintr c s = Ret () t \<and> con_post (concat (replicate (length (editing ?x)) rubout)) (ready ?x, []) s t"
      unfolding consoleintr_def
      by (rule consoleintr_unlock[OF assms(1,2) y(3,2)]) (use 2 y(1) n in simp)
    then show ?thesis using 2 by (auto simp: discipline_def echo_def)
  next
    case 3
    then have "\<exists>t. consoleintr c s = Ret () t \<and> con_post [] (lines_of ?x) s t"
      unfolding consoleintr_def using emp by (intro consoleintr_same[OF assms(1-3)]) auto
    then show ?thesis using 3 by (auto simp: discipline_def echo_def)
  next
    case 4
    note u = unput_ok[OF assms(3) 4(2)]
    have "consputc BACKSPACE (s\<lparr>hw := enter Lk_cons (hw s), cns := unput ?x\<rparr>) =
        Ret () (s\<lparr>hw := emit rubout (enter Lk_cons (hw s)), cns := unput ?x\<rparr>)"
      using consputc_ok(2)[of "s\<lparr>hw := enter Lk_cons (hw s), cns := unput ?x\<rparr>"] h by (simp add: lock_simps)
    then have "\<exists>t. consoleintr c s = Ret () t \<and> con_post rubout (ready ?x, butlast (editing ?x)) s t"
      unfolding consoleintr_def
      by (intro consoleintr_unlock[OF assms(1,2) u(3)]) (use 4 emp u in \<open>auto simp: upd_cons_def unput_def Let_def\<close>)
    then show ?thesis using 4 by (auto simp: discipline_def echo_def)
  next
    case 5
    then have "\<exists>t. consoleintr c s = Ret () t \<and> con_post [] (lines_of ?x) s t"
      unfolding consoleintr_def using cons_split(2)[OF assms(3)] by (intro consoleintr_same[OF assms(1-3)]) auto
    moreover have "discipline c (lines_of ?x) = lines_of ?x" "echo c (lines_of ?x) = []"
      using 5 by (auto simp: discipline_def echo_def)
    ultimately show ?thesis by metis
  next
    case 6
    have "echo c (lines_of ?x) = [char_of (cooked c)]" using 6 by (auto simp: echo_def)
    then show ?thesis using consoleintr_store[OF assms(1-3) 6(2) assms(5) 6(1,3)] by metis
  qed
qed

section \<open>The receive queue\<close>

lemma con_hw_emit [simp]: "con_hw (emit out (settle h)) = con_hw h" "con_hw (settle h) = con_hw h"
  by (simp_all add: con_hw_def)

definition received :: "u8 list \<Rightarrow> lines \<Rightarrow> lines" where
  "received bs l = fold (\<lambda>b. discipline (int (unat b))) bs l"

lemma uartgetc_cases:
  "rhr s = [] \<Longrightarrow> uartgetc s = (-1, s)"
  "rhr s = b # bs \<Longrightarrow> uartgetc s = (int (unat b), s\<lparr>rhr := bs\<rparr>)"
proof -
  have "(x AND NOT 1) AND (1 :: u8) = 0" for x :: u8 by (simp add: and.assoc)
  moreover have "(x OR 1) AND (1 :: u8) \<noteq> 0" for x :: u8 
  proof
    assume "(x OR 1) AND (1 :: u8) = 0"
    then have "bit ((x OR 1) AND (1 :: u8)) 0 = bit (0 :: u8) 0" by simp
    then show False by (simp add: bit_simps)
  qed
  ultimately show "rhr s = [] \<Longrightarrow> uartgetc s = (-1, s)" "rhr s = b # bs \<Longrightarrow> uartgetc s = (int (unat b), s\<lparr>rhr := bs\<rparr>)"
    by (simp_all add: uartgetc_def ReadLSR_def LSR_RX_READY_def)
qed

lemma uart_drain_ok:
  fixes s :: "'z consst_scheme"
  assumes "con_hw (hw s)" and "length (procs s) = NPROC" and "cons_ok (cns s)" and "length (rhr s) < n"
  shows "\<exists>t out. uart_drain n s = Ret () t \<and> rhr t = [] \<and> lines_of (cns t) = received (rhr s) (lines_of (cns s)) \<and>
    cons_ok (cns t) \<and> hw t \<in> {hw s, emit out (settle (hw s))} \<and> length (procs t) = NPROC \<and> tx_busy t = tx_busy s"
  using assms
proof (induction n arbitrary: s)
  case (Suc n)
  show ?case
  proof (cases "rhr s")
    case Nil
    then show ?thesis using Suc.prems by (auto simp: uartgetc_cases received_def)
  next
    case (Cons b bs)
    let ?s = "s\<lparr>rhr := bs\<rparr>"
    have "(0 :: int) \<le> int (unat b)" "int (unat b) < 256" using unsigned_less[of b] by simp_all
    then obtain t out where t: "consoleintr (int (unat b)) ?s = Ret () t"
      "con_post out (discipline (int (unat b)) (lines_of (cns s))) ?s t"
      using consoleintr_ok[of ?s "int (unat b)"] Suc.prems(1-3) by auto
    then have f: "hw t = emit out (settle (hw s))" "length (procs t) = NPROC" "cons_ok (cns t)" "rhr t = bs" "tx_busy t = tx_busy s"
      "lines_of (cns t) = discipline (int (unat b)) (lines_of (cns s))"
      by (auto simp: con_post_def)
    obtain u out' where u: "uart_drain n t = Ret () u" "rhr u = []" "lines_of (cns u) = received bs (lines_of (cns t))"
      "cons_ok (cns u)" "hw u \<in> {hw t, emit out' (settle (hw t))}" "length (procs u) = NPROC" "tx_busy u = tx_busy t"
      using Suc.IH[of t] f Suc.prems(1,4) Cons by auto
    have "int (unat b) \<noteq> -1" using of_nat_0_le_iff[of "unat b"] by linarith
    then have "uart_drain (Suc n) s = Ret () u"
      using t(1) u(1) unfolding uart_drain.simps uartgetc_cases(2)[OF Cons] by (simp only: Let_def prod.case if_False bindr.simps)
    moreover have "hw u \<in> {hw s, emit out (settle (hw s))} \<or> hw u \<in> {hw s, emit (out @ out') (settle (hw s))}"
      using u(5) f(1) by (auto simp: emit_ops)
    ultimately show ?thesis using u f by (auto simp: received_def Cons)
  qed
qed simp

section \<open>Properties\<close>

text \<open>
  C31: the interrupt handler of the UART returns after it has taken every byte that was received,
  and nothing is left in the receive queue. The input that readers may take and the line being
  edited are then those that the line discipline gives for these bytes, in their order: lines are
  made available by newline, end-of-file or a full buffer, backspace and line kill only reach
  the line being edited, and bytes that find the buffer full are dropped. All locks are as before.
\<close>

theorem uartintr_feeds_discipline:
  fixes s :: "'z consst_scheme"
  assumes "con_hw (hw s)" and "lk_free Lk_tx (hw s)" and "length (procs s) = NPROC" and "cons_ok (cns s)"
  shows "\<exists>t. uartintr s = Ret () t \<and> rhr t = [] \<and>
    lines_of (cns t) = fold (\<lambda>b. discipline (int (unat b))) (rhr s) (lines_of (cns s)) \<and>
    cons_ok (cns t) \<and> locks (hw t) = locks (hw s) \<and> tx_busy t = 0"
proof -
  have h: "cpu_ok (hw s)" "lsr (hw s) AND LSR_TX_IDLE \<noteq> 0" using assms(1) by (simp_all add: con_hw_def tty_ok_def)
  have "(x AND NOT LSR_RX_READY) AND LSR_TX_IDLE = x AND LSR_TX_IDLE" "(x OR LSR_RX_READY) AND LSR_TX_IDLE = x AND LSR_TX_IDLE" for x
    by (simp_all add: LSR_RX_READY_def LSR_TX_IDLE_def and.assoc bit.conj_disj_distrib2)
  then have idle: "ReadLSR (s\<lparr>hw := enter Lk_tx (hw s)\<rparr>) AND LSR_TX_IDLE \<noteq> 0" using h(2) by (simp add: ReadLSR_def)
  let ?u = "s\<lparr>hw := enter Lk_tx (hw s), tx_busy := 0\<rparr>"
  let ?t = "s\<lparr>hw := settle (hw s), procs := wake (Some Ch_tx_chan) (cpu_proc (mycpu (hw s))) (procs s), tx_busy := 0\<rparr>"
  have "others_free ?u" using assms(1) by (simp add: others_free_def con_hw_def lock_simps)
  then have "wakeup (Some Ch_tx_chan) ?u = Ret () (?t\<lparr>hw := enter Lk_tx (hw s)\<rparr>)"
    using wakeup_ok[of ?u] h assms(3) by (simp add: lock_simps)
  then have "uartintr s = uart_drain (Suc (length (rhr s))) ?t"
    using idle h assms(2) by (simp add: uartintr_def lock_simps del: uart_drain.simps)
  moreover obtain t out where "uart_drain (Suc (length (rhr s))) ?t = Ret () t" "rhr t = []" "cons_ok (cns t)"
    "lines_of (cns t) = received (rhr s) (lines_of (cns s))" "hw t \<in> {settle (hw s), emit out (settle (hw s))}" "tx_busy t = 0"
    using uart_drain_ok[of ?t "Suc (length (rhr s))"] assms(1,4) by (auto simp del: uart_drain.simps)
  ultimately show ?thesis by (auto simp: received_def)
qed

lemma kern0_con: "con_hw (hw kern0)" "lines_of (cns kern0) = ([], [])" "cons_ok (cns kern0)"
proof -
  have "tty_ok (with_proc (Some 0) hw0)" by (simp add: tty_ok_def hw0_def with_proc_def set_mycpu_def LSR_TX_IDLE_def)
  then show "con_hw (hw kern0)" by (simp add: con_hw_def)
  have e: "ready cons0 = []" "editing cons0 = []" by (simp_all add: ready_def editing_def rb_list_empty) (simp_all add: cons0_def)
  then show "lines_of (cns kern0) = ([], [])" by simp
  show "cons_ok (cns kern0)" using e by (simp add: cons_ok_def) (simp add: cons0_def)
qed

text \<open>The keys \<open>a\<close>, \<open>x\<close>, backspace, \<open>b\<close>, return, \<open>c\<close>.\<close>

theorem uartintr_feeds_discipline_witness:
  "\<exists>t. uartintr (kern0\<lparr>rhr := [0x61, 0x78, 0x08, 0x62, 0x0D, 0x63]\<rparr>) = Ret () t \<and> rhr t = [] \<and>
    lines_of (cns t) = ([0x61, 0x62, 0x0A], [0x63])"
proof -
  have "fold (\<lambda>b. discipline (int (unat b))) [0x61 :: u8, 0x78, 0x08, 0x62, 0x0D, 0x63] ([], []) = ([0x61, 0x62, 0x0A], [0x63])"
    by code_simp
  then show ?thesis
    using uartintr_feeds_discipline[of "kern0\<lparr>rhr := [0x61, 0x78, 0x08, 0x62, 0x0D, 0x63]\<rparr>"] kern0_con by auto
qed

end
