(* ===== verification/VirtioSpec.thy ===== *)
theory VirtioSpec
  imports States
begin

text \<open>
  The disk driver with the device. \<open>Bio\<close> takes a disk request as one step, \<open>disk_rw\<close>; here the
  driver's code, the interrupt and the scheduler are put together with any device that serves
  requests as the virtio specification demands, and the whole is shown to have that effect.
\<close>

section \<open>The device\<close>

text \<open>
  The documented behaviour for a queue with one new request: the device takes the head of the
  chain from the available ring, finds the header, the data and the status byte by the
  descriptors, transfers a block, sets the status to 0 and puts the head into the used ring.
\<close>

definition chain :: "vdisk \<Rightarrow> nat \<Rightarrow> nat \<Rightarrow> bool \<Rightarrow> u64 \<Rightarrow> bool" where
  "chain d h b write sec \<longleftrightarrow> h < NUM \<and> d_addr (vd_desc d ! h) = A_op h \<and> d_len (vd_desc d ! h) = 16 \<and>
     d_flags (vd_desc d ! h) = VRING_DESC_F_NEXT \<and>
     (let i = unat (d_next (vd_desc d ! h)); j = unat (d_next (vd_desc d ! i)) in
      i < NUM \<and> j < NUM \<and> d_addr (vd_desc d ! i) = A_data b \<and> d_len (vd_desc d ! i) = of_nat BSIZE \<and>
      d_flags (vd_desc d ! i) = VRING_DESC_F_NEXT OR (if write then 0 else VRING_DESC_F_WRITE) \<and>
      d_addr (vd_desc d ! j) = A_status h \<and> d_len (vd_desc d ! j) = 1 \<and> d_flags (vd_desc d ! j) = VRING_DESC_F_WRITE) \<and>
     op_type (vd_ops d ! h) = (if write then VIRTIO_BLK_T_OUT else VIRTIO_BLK_T_IN) \<and> op_sector (vd_ops d ! h) = sec"

definition served :: "nat \<Rightarrow> nat \<Rightarrow> bool \<Rightarrow> u32 \<Rightarrow> 'z vdst_scheme \<Rightarrow> 'z vdst_scheme" where
  "served h b write sec s =
     (let s = (if write then s\<lparr>disk := (disk s)(sec := b_data (bufs s ! b)), dtrace := dtrace s @ [(sec, b_data (bufs s ! b))]\<rparr>
               else upd_buf b (\<lambda>x. x\<lparr>b_data := disk s sec\<rparr>) s) in
      upd_vd (\<lambda>d. d\<lparr>vd_info_status := (vd_info_status d)[h := 0],
        vd_used := (vd_used d)[unat (vd_dev_idx d) mod NUM := of_nat h], vd_dev_idx := vd_dev_idx d + 1\<rparr>) s)"

definition virtio_device :: "('z vdst_scheme \<Rightarrow> 'z vdst_scheme) \<Rightarrow> bool" where
  "virtio_device dev \<longleftrightarrow> (\<forall>s b write sec h. vd_avail_idx (vd s) = vd_dev_idx (vd s) + 1 \<longrightarrow>
     unat (vd_avail (vd s) ! (unat (vd_dev_idx (vd s)) mod NUM)) = h \<longrightarrow> chain (vd s) h b write (ucast sec) \<longrightarrow>
     dev s = served h b write sec s)"

section \<open>The driver\<close>

text \<open>A driver with nothing in flight.\<close>

definition vd_idle :: "vdisk \<Rightarrow> bool" where
  "vd_idle d \<longleftrightarrow> length (vd_desc d) = NUM \<and> length (vd_avail d) = NUM \<and> length (vd_used d) = NUM \<and> length (vd_free d) = NUM \<and>
     length (vd_info_b d) = NUM \<and> length (vd_info_status d) = NUM \<and> length (vd_ops d) = NUM \<and>
     vd_avail_idx d = vd_dev_idx d \<and> vd_used_idx d = vd_dev_idx d \<and> (\<forall>i < NUM. vd_free d ! i \<noteq> 0)"

text \<open>The state of the driver after it has posted a request with descriptors 0, 1 and 2.\<close>

definition posted :: "nat \<Rightarrow> bool \<Rightarrow> u32 \<Rightarrow> vdisk \<Rightarrow> vdisk" where
  "posted b write bno d = d\<lparr>
     vd_desc := (vd_desc d)[0 := \<lparr>d_addr = A_op 0, d_len = 16, d_flags = VRING_DESC_F_NEXT, d_next = 1\<rparr>,
       1 := \<lparr>d_addr = A_data b, d_len = of_nat BSIZE,
          d_flags = (if write then 0 else VRING_DESC_F_WRITE) OR VRING_DESC_F_NEXT, d_next = 2\<rparr>,
       2 := \<lparr>d_addr = A_status 0, d_len = 1, d_flags = VRING_DESC_F_WRITE, d_next = 0\<rparr>],
     vd_avail_idx := vd_avail_idx d + 1,
     vd_avail := (vd_avail d)[unat (vd_avail_idx d) mod NUM := 0],
     vd_free := (vd_free d)[0 := 0, 1 := 0, 2 := 0],
     vd_info_b := (vd_info_b d)[0 := Some b],
     vd_info_status := (vd_info_status d)[0 := 0xff],
     vd_ops := (vd_ops d)[0 := \<lparr>op_type = (if write then VIRTIO_BLK_T_OUT else VIRTIO_BLK_T_IN), op_reserved = 0,
        op_sector = ucast (sector bno)\<rparr>],
     vd_writes := vd_writes d @ [(VIRTIO_MMIO_QUEUE_NOTIFY, 0)]\<rparr>"

lemma alloc3_ok:
  fixes s :: "'z vdst_scheme"
  assumes "vd_idle (vd s)"
  shows "alloc3_desc s = Ret (Some (0, 1, 2)) (s\<lparr>vd := (vd s)\<lparr>vd_free := (vd_free (vd s))[0 := 0, 1 := 0, 2 := 0]\<rparr>\<rparr>)"
proof -
  have n: "vd_free (vd s) ! i \<noteq> 0" if "i < 8" for i using assms that by (simp add: vd_idle_def NUM_def)
  have "length (vd_free (vd s)) = 8" using assms by (simp add: vd_idle_def NUM_def)
  then show ?thesis
    using n[of 0] n[of 1] n[of 2]
    by (simp add: alloc3_desc_def alloc_desc_def upd_vd_def NUM_def numeral_eq_Suc)
qed

lemma desc_full [simp]:
  "(x :: virtq_desc)\<lparr>d_addr := a, d_len := l, d_flags := f, d_next := n\<rparr> = \<lparr>d_addr = a, d_len = l, d_flags = f, d_next = n\<rparr>"
  by (cases x) simp

lemma post_ok:
  fixes s :: "'z vdst_scheme"
  assumes "vd_idle (vd s)"
  shows "post_request b write (0, 1, 2) (s\<lparr>vd := (vd s)\<lparr>vd_free := (vd_free (vd s))[0 := 0, 1 := 0, 2 := 0]\<rparr>\<rparr>) =
    upd_buf b (\<lambda>x. x\<lparr>b_disk := 1\<rparr>) (s\<lparr>vd := posted b write (b_blockno (bufs s ! b)) (vd s)\<rparr>)"
proof -
  have "length (vd_desc (vd s)) = 8" using assms by (simp add: vd_idle_def NUM_def)
  then show ?thesis
    by (cases "vd s") (simp add: post_request_def upd_vd_def upd_desc_def wreg_def upd_buf_def posted_def list_update_swap)
qed

text \<open>Once posted, the request is the only one in the queue, and the device finds its chain.\<close>

lemma posted_chain:
  assumes "vd_idle d"
  shows "chain (posted b write bno d) 0 b write (ucast (sector bno))"
    and "vd_avail_idx (posted b write bno d) = vd_dev_idx (posted b write bno d) + 1"
    and "vd_avail (posted b write bno d) ! (unat (vd_dev_idx (posted b write bno d)) mod NUM) = 0"
proof -
  have l: "length (vd_desc d) = 8" "length (vd_avail d) = 8" "length (vd_ops d) = 8" "vd_avail_idx d = vd_dev_idx d"
    using assms by (simp_all add: vd_idle_def NUM_def)
  then show "chain (posted b write bno d) 0 b write (ucast (sector bno))"
    by (simp add: chain_def posted_def NUM_def Let_def or.commute)
  show "vd_avail_idx (posted b write bno d) = vd_dev_idx (posted b write bno d) + 1"
    using l by (simp add: posted_def)
  have "unat (vd_dev_idx d) mod 8 < 8" by simp
  then show "vd_avail (posted b write bno d) ! (unat (vd_dev_idx (posted b write bno d)) mod NUM) = 0"
    using l by (simp add: posted_def NUM_def)
qed

text \<open>The state of the driver after the device has served the request.\<close>

definition answered :: "nat \<Rightarrow> bool \<Rightarrow> u32 \<Rightarrow> vdisk \<Rightarrow> vdisk" where
  "answered b write bno d = (let d = posted b write bno d in
     d\<lparr>vd_info_status := (vd_info_status d)[0 := 0],
       vd_used := (vd_used d)[unat (vd_dev_idx d) mod NUM := 0], vd_dev_idx := vd_dev_idx d + 1\<rparr>)"

lemma served_answered:
  fixes s :: "'z vdst_scheme"
  assumes "vd s = posted b write bno d"
  shows "served 0 b write sec s =
    (if write then s\<lparr>disk := (disk s)(sec := b_data (bufs s ! b)), dtrace := dtrace s @ [(sec, b_data (bufs s ! b))], vd := answered b write bno d\<rparr>
     else s\<lparr>bufs := (bufs s)[b := (bufs s ! b)\<lparr>b_data := disk s sec\<rparr>], vd := answered b write bno d\<rparr>)"
  using assms by (simp add: served_def upd_vd_def upd_buf_def answered_def Let_def)

definition seen :: "u32 \<Rightarrow> vdisk \<Rightarrow> vdisk" where
  "seen x d = d\<lparr>vd_used_idx := vd_used_idx d + 1, vd_writes := vd_writes d @ [(VIRTIO_MMIO_INTERRUPT_ACK, x)]\<rparr>"

lemma intr_ok:
  fixes s :: "'z vdst_scheme"
  assumes "others_free s" and "lk_free Lk_vdisk (hw s)" and "length (procs s) = NPROC"
    and "vd_idle d" and "vd s = answered b write bno d"
  shows "virtio_disk_intr s = Ret () (s\<lparr>hw := settle (hw s), procs := wake (Some (Ch_buf b)) (cpu_proc (mycpu (hw s))) (procs s),
    bufs := (bufs s)[b := (bufs s ! b)\<lparr>b_disk := 0\<rparr>], vd := seen (rreg VIRTIO_MMIO_INTERRUPT_STATUS s AND 3) (vd s)\<rparr>)"
proof -
  let ?x = "rreg VIRTIO_MMIO_INTERRUPT_STATUS s AND 3"
  let ?s = "s\<lparr>hw := enter Lk_vdisk (hw s)\<rparr>" and ?d = "(vd s)\<lparr>vd_writes := vd_writes (vd s) @ [(VIRTIO_MMIO_INTERRUPT_ACK, ?x)]\<rparr>"
  have ok: "cpu_ok (hw s)" using assms(1) by (simp add: others_free_def)
  have l: "length (vd_used d) = 8" "length (vd_info_status d) = 8" "length (vd_info_b d) = 8" "vd_used_idx d = vd_dev_idx d"
    using assms(4) by (simp_all add: vd_idle_def NUM_def)
  have a: "vd_dev_idx (vd s) - vd_used_idx (vd s) = 1" "vd_used (vd s) ! (unat (vd_used_idx (vd s)) mod NUM) = 0"
    "vd_info_status (vd s) ! 0 = 0" "vd_info_b (vd s) ! 0 = Some b"
    using l by (simp_all add: assms(5) answered_def posted_def Let_def NUM_def)
  let ?t = "s\<lparr>hw := enter Lk_vdisk (hw s), bufs := (bufs s)[b := (bufs s ! b)\<lparr>b_disk := 0\<rparr>], vd := ?d\<rparr>"
  have "others_free ?t" using assms(1) by (simp add: others_free_def lock_simps)
  then have "wakeup (Some (Ch_buf b)) ?t = Ret () (?t\<lparr>procs := wake (Some (Ch_buf b)) (cpu_proc (mycpu (hw s))) (procs s)\<rparr>)"
    using wakeup_ok[of ?t] assms(3) ok by (simp add: lock_simps)
  then show ?thesis
    using a assms(2) ok
    by (simp add: virtio_disk_intr_def lock_simps wreg_def rreg_def upd_vd_def upd_buf_def NUM_def Let_def seen_def)
qed

definition freed :: "nat \<Rightarrow> vdisk \<Rightarrow> vdisk" where
  "freed i d = d\<lparr>vd_desc := (vd_desc d)[i := \<lparr>d_addr = A_null, d_len = 0, d_flags = 0, d_next = 0\<rparr>], vd_free := (vd_free d)[i := 1]\<rparr>"

lemma free_desc_ok:
  fixes s :: "'z vdst_scheme"
  assumes "others_free s" and "settle (hw s) = hw s" and "length (procs s) = NPROC" and "i < NUM" and "vd_free (vd s) ! i = 0"
  shows "free_desc i s = Ret () (s\<lparr>procs := wake (Some Ch_disk_free) (cpu_proc (mycpu (hw s))) (procs s), vd := freed i (vd s)\<rparr>)"
proof -
  have "others_free (s\<lparr>vd := freed i (vd s)\<rparr>)" using assms(1) by (simp add: others_free_def)
  then show ?thesis
    using assms wakeup_ok[of "s\<lparr>vd := freed i (vd s)\<rparr>" "Some Ch_disk_free"]
    by (simp add: free_desc_def upd_desc_def upd_vd_def freed_def)
qed

lemma wake_wake [simp]: "wake ch me (wake ch me ps) = wake ch me ps"
  by (rule nth_equalityI) (simp_all add: wake_nth)

lemma free_chain_ok:
  fixes s :: "'z vdst_scheme"
  assumes "others_free s" and "settle (hw s) = hw s" and "length (procs s) = NPROC"
    and "chain (vd s) 0 b write sec" and "d_next (vd_desc (vd s) ! 0) = 1" and "d_next (vd_desc (vd s) ! 1) = 2"
    and "\<forall>i < 3. vd_free (vd s) ! i = 0"
  shows "free_chain 0 s = Ret () (s\<lparr>procs := wake (Some Ch_disk_free) (cpu_proc (mycpu (hw s))) (procs s),
    vd := freed 2 (freed 1 (freed 0 (vd s)))\<rparr>)"
proof -
  have f: "d_flags (vd_desc (vd s) ! 0) AND VRING_DESC_F_NEXT \<noteq> 0" "d_flags (vd_desc (vd s) ! 1) AND VRING_DESC_F_NEXT \<noteq> 0"
    "d_flags (vd_desc (vd s) ! 2) AND VRING_DESC_F_NEXT = 0"
    using assms(4-6) by (auto simp: chain_def VRING_DESC_F_NEXT_def VRING_DESC_F_WRITE_def Let_def)
  have n: "NUM + 1 = Suc (Suc (Suc 6))" by (simp add: NUM_def)
  have z: "vd_free (vd s) ! 0 = 0" "vd_free (vd s) ! 1 = 0" "vd_free (vd s) ! 2 = 0" using assms(7) by simp_all
  let ?ps = "wake (Some Ch_disk_free) (cpu_proc (mycpu (hw s))) (procs s)"
  have o: "others_free (s\<lparr>procs := ?ps, vd := d\<rparr>)" for d using assms(1) by (simp add: others_free_def)
  note fd = free_desc_ok[OF assms(1-3)] free_desc_ok[of "s\<lparr>procs := ?ps, vd := d\<rparr>" for d]
  have "free_desc 0 s = Ret () (s\<lparr>procs := ?ps, vd := freed 0 (vd s)\<rparr>)"
    by (rule fd(1)) (simp_all add: NUM_def z)
  moreover have "free_desc 1 (s\<lparr>procs := ?ps, vd := freed 0 (vd s)\<rparr>) = Ret () (s\<lparr>procs := ?ps, vd := freed 1 (freed 0 (vd s))\<rparr>)"
    using fd(2)[of "freed 0 (vd s)" 1] o assms(2) z by (simp add: NUM_def freed_def)
  moreover have "free_desc 2 (s\<lparr>procs := ?ps, vd := freed 1 (freed 0 (vd s))\<rparr>) = Ret () (s\<lparr>procs := ?ps, vd := freed 2 (freed 1 (freed 0 (vd s)))\<rparr>)"
    using fd(2)[of "freed 1 (freed 0 (vd s))" 2] o assms(2) z by (simp add: NUM_def freed_def)
  moreover have "vd_desc (freed 0 (vd s)) ! 1 = vd_desc (vd s) ! 1" "vd_desc (freed 1 (freed 0 (vd s))) ! 2 = vd_desc (vd s) ! 2"
    by (simp_all add: freed_def)
  ultimately show ?thesis
    unfolding free_chain_def n free_chain_loop.simps(2) using f assms(5,6) by (simp add: Let_def)
qed

text \<open>The driver is idle again after the request.\<close>

definition finished :: "nat \<Rightarrow> bool \<Rightarrow> u32 \<Rightarrow> u32 \<Rightarrow> vdisk \<Rightarrow> vdisk" where
  "finished b write bno x d = (let d = seen x (answered b write bno d) in
     freed 2 (freed 1 (freed 0 (d\<lparr>vd_info_b := (vd_info_b d)[0 := None]\<rparr>))))"

lemma finished_idle:
  assumes "vd_idle d"
  shows "vd_idle (finished b write bno x d)"
proof -
  have "vd_free (finished b write bno x d) ! i \<noteq> 0" if "i < NUM" for i
    using that assms by (auto simp: finished_def freed_def seen_def answered_def posted_def vd_idle_def Let_def nth_list_update NUM_def)
  then show ?thesis
    using assms by (simp add: vd_idle_def) (simp add: finished_def freed_def seen_def answered_def posted_def Let_def)
qed

lemma await_done:
  fixes s :: "'z vdst_scheme"
  assumes "thread_ok p Lk_vdisk h" and "hw s = enter Lk_vdisk h" and "length (procs s) = NPROC"
    and "b_disk (bufs s ! b) \<noteq> 1" and "vd_idle d" and "vd s = seen x (answered b write bno d)"
  shows "await_request b 0 s = Ret () (s\<lparr>hw := settle h, procs := wake (Some Ch_disk_free) (Some p) (procs s),
    vd := finished b write bno x d\<rparr>)"
proof -
  note h = thread_okD[OF assms(1)]
  let ?d = "(vd s)\<lparr>vd_info_b := (vd_info_b (vd s))[0 := None]\<rparr>"
  let ?s = "s\<lparr>vd := ?d\<rparr>"
  have oth: "others_free ?s" "settle (hw ?s) = hw ?s" "cpu_proc (mycpu (hw ?s)) = Some p"
    using h h(6)[symmetric] assms(2) by (simp_all add: others_free_def lock_simps)
  have l: "length (vd_free d) = 8" "length (vd_desc d) = 8" using assms(5) by (simp_all add: vd_idle_def NUM_def)
  have same: "vd_desc ?d = vd_desc (posted b write bno d)" "vd_ops ?d = vd_ops (posted b write bno d)" "vd_free ?d = vd_free (posted b write bno d)"
    by (simp_all add: assms(6) seen_def answered_def Let_def)
  have "free_chain 0 ?s = Ret () (?s\<lparr>procs := wake (Some Ch_disk_free) (cpu_proc (mycpu (hw ?s))) (procs ?s),
      vd := freed 2 (freed 1 (freed 0 (vd ?s)))\<rparr>)"
  proof (rule free_chain_ok[OF oth(1,2), of b "write" "ucast (sector bno)"])
    show "chain (vd ?s) 0 b write (ucast (sector bno))"
      using posted_chain(1)[OF assms(5), of b "write" bno] same by (simp add: chain_def)
    show "\<forall>i < 3. vd_free (vd ?s) ! i = 0"
      using l by (auto simp: same posted_def nth_list_update numeral_eq_Suc less_Suc_eq)
  qed (use assms(3) l same in \<open>simp_all add: posted_def\<close>)
  then show ?thesis
    using assms(2,4) h oth(3) by (simp add: await_request_def upd_vd_def lock_simps finished_def assms(6) Let_def)
qed

section \<open>Properties\<close>

text \<open>
  C32: with any device that serves requests as specified, a disk request has the effect of
  \<open>disk_rw\<close>. The driver posts the request and sleeps without the lock; the device transfers the
  block; the interrupt makes the process runnable; when the scheduler resumes it,
  \<open>virtio_disk_rw\<close> returns with the buffer, the disk and the order of writes exactly as \<open>disk_rw\<close>
  leaves them, every descriptor free, no request in flight and every lock as before.
\<close>

theorem virtio_refines_disk_rw:
  fixes s :: "'z vdst_scheme"
  assumes "virtio_device dev" and "thread_ok p Lk_vdisk (hw s)" and "length (procs s) = NPROC"
    and "vd_idle (vd s)" and "b < length (bufs s)" and "b_disk (bufs s ! b) = 0"
  shows "\<exists>s1 s2 s3 s4 s5 s'. virtio_disk_rw b write s = Blocked s1 \<and> scheduler_resume p s1 = Ret () s2 \<and>
    lk_free Lk_vdisk (hw s2) \<and> p_state (procs s2 ! p) = SLEEPING \<and>
    virtio_disk_intr (dev s2) = Ret () s3 \<and> p_state (procs s3 ! p) = RUNNABLE \<and>
    scheduler_visit p s3 = Blocked s4 \<and> virtio_disk_rw_resume p v b 0 s4 = Ret () s5 \<and>
    disk_rw b write s = Ret () s' \<and> bufs s5 = bufs s' \<and> disk s5 = disk s' \<and> dtrace s5 = dtrace s' \<and>
    vd_idle (vd s5) \<and> locks (hw s5) = locks (hw s) \<and> p_state (procs s5 ! p) = RUNNING"
proof -
  note h = thread_okD[OF assms(2)]
  define bno where "bno = b_blockno (bufs s ! b)"
  define B where "B = (bufs s)[b := (bufs s ! b)\<lparr>b_disk := 1\<rparr>]"
  define B' where "B' = (if write then B else B[b := (B ! b)\<lparr>b_data := disk s (sector bno)\<rparr>])"
  define D where "D = (if write then (disk s)(sector bno := b_data (bufs s ! b)) else disk s)"
  define T where "T = (if write then dtrace s @ [(sector bno, b_data (bufs s ! b))] else dtrace s)"
  define P where "P = (procs s)[p := (procs s ! p)\<lparr>p_chan := Some (Ch_buf b), p_state := SLEEPING\<rparr>]"
  have lenP: "length P = NPROC" using assms(3) by (simp add: P_def)
  let ?h2 = "settle (with_proc None (hw s))"
  let ?h4 = "with_proc (Some p) ?h2"
  have s1: "virtio_disk_rw b write s = Blocked (s\<lparr>hw := enter (Lk_proc p) (hw s), procs := P, bufs := B, vd := posted b write bno (vd s)\<rparr>)"
    using sleep_on_ok[of Lk_vdisk p "hw s" "s\<lparr>hw := enter Lk_vdisk (hw s), bufs := B, vd := posted b write bno (vd s)\<rparr>" "Ch_buf b"]
      thread_ok_sole[OF assms(2)] h assms(3,5) alloc3_ok[of "s\<lparr>hw := enter Lk_vdisk (hw s)\<rparr>"]
      post_ok[of "s\<lparr>hw := enter Lk_vdisk (hw s)\<rparr>" b "write"] assms(4)
    by (simp add: virtio_disk_rw_def virtio_disk_locked_def lock_simps await_request_def upd_buf_def B_def P_def bno_def)
  let ?s2 = "s\<lparr>hw := ?h2, procs := P, bufs := B, vd := posted b write bno (vd s)\<rparr>"
  have s2: "scheduler_resume p (s\<lparr>hw := enter (Lk_proc p) (hw s), procs := P, bufs := B, vd := posted b write bno (vd s)\<rparr>) = Ret () ?s2"
    using scheduler_resume_ok[of "s\<lparr>hw := enter (Lk_proc p) (hw s), procs := P, bufs := B, vd := posted b write bno (vd s)\<rparr>" p "hw s"] h by simp
  have "dev ?s2 = served 0 b write (sector bno) ?s2"
    using assms(1) posted_chain[OF assms(4), of b "write" bno] unfolding virtio_device_def by simp
  then have dev: "dev ?s2 = s\<lparr>hw := ?h2, procs := P, bufs := B', disk := D, dtrace := T, vd := answered b write bno (vd s)\<rparr>"
    using served_answered[of ?s2 b "write" bno "vd s" "sector bno"] assms(5) by (simp add: B'_def D_def T_def B_def)
  have clear: "(bufs s ! b)\<lparr>b_disk := 0\<rparr> = bufs s ! b" "(bufs s ! b)\<lparr>b_data := y, b_disk := 0\<rparr> = (bufs s ! b)\<lparr>b_data := y\<rparr>"
    "(bufs s ! b)\<lparr>b_disk := 0, b_data := y\<rparr> = (bufs s ! b)\<lparr>b_data := y\<rparr>" for y
    using assms(6) by (cases "bufs s ! b"; simp)+
  have eff: "disk_rw b write s = Ret () (s\<lparr>bufs := B'[b := (B' ! b)\<lparr>b_disk := 0\<rparr>], disk := D, dtrace := T\<rparr>)"
    using assms(5) clear by (simp add: disk_rw_def bno_def B_def B'_def D_def T_def upd_buf_def Let_def)
  let ?B = "B'[b := (B' ! b)\<lparr>b_disk := 0\<rparr>]" and ?P3 = "wake (Some (Ch_buf b)) None P"
  let ?x = "rreg VIRTIO_MMIO_INTERRUPT_STATUS (dev ?s2) AND 3"
  let ?d = "seen ?x (answered b write bno (vd s))"
  let ?s3 = "s\<lparr>hw := ?h2, procs := ?P3, bufs := ?B, disk := D, dtrace := T, vd := ?d\<rparr>"
  have s3: "virtio_disk_intr (dev ?s2) = Ret () ?s3"
    using intr_ok[of "dev ?s2" "vd s" b "write" bno] h assms(4) lenP by (simp add: dev others_free_def)
  have st: "p_state (?P3 ! p) = RUNNABLE" using h(4) assms(3) by (simp add: wake_nth P_def)
  let ?P4 = "?P3[p := (?P3 ! p)\<lparr>p_state := RUNNING\<rparr>]"
  let ?s4 = "s\<lparr>hw := enter (Lk_proc p) ?h4, procs := ?P4, bufs := ?B, disk := D, dtrace := T, vd := ?d\<rparr>"
  have s4: "scheduler_visit p ?s3 = Blocked ?s4"
    using scheduler_visit_ok[of ?s3 p] h st by simp
  let ?P5 = "?P4[p := (?P4 ! p)\<lparr>p_chan := None\<rparr>]"
  have "sleep_resume p v Lk_vdisk ?s4 = Ret () (?s4\<lparr>hw := enter Lk_vdisk (restored v ?h4), procs := ?P5\<rparr>)"
    using sleep_resume_ok[of ?s4 p ?h4 Lk_vdisk v] h by simp
  moreover have "thread_ok p Lk_vdisk (restored v ?h4)" using h by (simp add: thread_ok_def)
  moreover have "b_disk (?B ! b) \<noteq> 1"
    using assms(5) by (simp add: B'_def B_def)
  ultimately have s5: "virtio_disk_rw_resume p v b 0 ?s4 = Ret () (?s4\<lparr>hw := settle (restored v ?h4),
      procs := wake (Some Ch_disk_free) (Some p) ?P5, vd := finished b write bno ?x (vd s)\<rparr>)"
    using await_done[of p "restored v ?h4" "?s4\<lparr>hw := enter Lk_vdisk (restored v ?h4), procs := ?P5\<rparr>" b "vd s" ?x "write" bno]
      assms(4) by (simp add: virtio_disk_rw_resume_def)
  show ?thesis
    using s1 s2 s3 st s4 s5 eff finished_idle[OF assms(4)] h assms(3) by (simp add: wake_nth P_def)
qed

text \<open>A device that follows the descriptors.\<close>

definition disk_dev :: "'z vdst_scheme \<Rightarrow> 'z vdst_scheme" where
  "disk_dev s = (let d = vd s; h = unat (vd_avail d ! (unat (vd_dev_idx d) mod NUM)) in
     case d_addr (vd_desc d ! unat (d_next (vd_desc d ! h))) of
       A_data b \<Rightarrow> served h b (op_type (vd_ops d ! h) = VIRTIO_BLK_T_OUT) (ucast (op_sector (vd_ops d ! h))) s
     | _ \<Rightarrow> s)"

lemma disk_dev_device: "virtio_device disk_dev"
proof -
  have "ucast (ucast x :: u64) = x" for x :: u32 by (rule bit_word_eqI) (simp add: bit_simps)
  then show ?thesis
    by (auto simp: virtio_device_def disk_dev_def chain_def Let_def VIRTIO_BLK_T_OUT_def VIRTIO_BLK_T_IN_def)
qed

theorem virtio_refines_disk_rw_witness:
  "\<exists>s1 s2 s3 s4 s5. virtio_disk_rw 3 True kern0 = Blocked s1 \<and> scheduler_resume 0 s1 = Ret () s2 \<and>
    virtio_disk_intr (disk_dev s2) = Ret () s3 \<and> scheduler_visit 0 s3 = Blocked s4 \<and>
    virtio_disk_rw_resume 0 True 3 0 s4 = Ret () s5 \<and> dtrace s5 = [(0, replicate BSIZE 0)]"
proof -
  have "vd_idle (vd kern0)" by (simp add: vd_idle_def vdisk0_def NUM_def del: replicate.simps)
  moreover have "bufs kern0 ! 3 = buf0" "3 < length (bufs kern0)" by (simp_all add: NBUF_def MAXOPBLOCKS_def del: replicate.simps)
  moreover have "disk_rw 3 True kern0 = Ret () s' \<Longrightarrow> bufs kern0 ! 3 = buf0 \<Longrightarrow> dtrace s' = [(0, replicate BSIZE 0)]" for s'
    by (auto simp: disk_rw_def Let_def buf0_def sector_def simp del: kern0_simps(3))
  ultimately show ?thesis
    using virtio_refines_disk_rw[OF disk_dev_device kern0_thread[of Lk_vdisk], of 3 True True]
    by (simp add: buf0_def del: kern0_simps(3) replicate.simps) metis
qed

end
