(* ===== verification/PathSpec.thy ===== *)
theory PathSpec
  imports States
begin

text \<open>
  Path names. The reference splits the string of a path at the slashes and drops empty parts;
  the elements that \<open>skipelem\<close> hands to \<open>namex\<close>, one after the other, are these parts, cut to
  the length of a directory entry.
\<close>

section \<open>Reference\<close>

fun split_on :: "char \<Rightarrow> bytes \<Rightarrow> bytes list" where
  "split_on c [] = [[]]"
| "split_on c (x # xs) = (if x = c then [] # split_on c xs else let r = split_on c xs in (x # hd r) # tl r)"

definition path_elems :: "bytes \<Rightarrow> bytes list" where
  "path_elems path = filter (\<lambda>e. e \<noteq> []) (split_on CHR ''/'' (cstr path))"

text \<open>The names that the loop of \<open>namex\<close> gets from \<open>skipelem\<close>.\<close>

function names_seen :: "bytes \<Rightarrow> bytes \<Rightarrow> bytes list" where
  "names_seen path name =
     (case skipelem path name of None \<Rightarrow> [] | Some (path, name) \<Rightarrow> name # names_seen path name)"
  by pat_completeness auto
termination
  by (relation "measure (\<lambda>(path, _). length path)") (auto dest: skipelem_shorter)

declare names_seen.simps [simp del]

section \<open>Splitting\<close>

lemma split_on_ne [simp]: "split_on c xs \<noteq> []"
  by (cases xs) (auto simp: Let_def)

lemma split_on_plain: "c \<notin> set e \<Longrightarrow> split_on c (e @ r) = (e @ hd (split_on c r)) # tl (split_on c r)"
  by (induction e) (auto simp: Let_def)

lemma elems_slash [simp]: "path_elems (CHR ''/'' # p) = path_elems p"
  by (simp add: path_elems_def cstr_def)

lemma elems_skip: "path_elems (skip_slashes p) = path_elems p"
  by (induction p) (auto simp: skip_slashes_def)

lemma elems_end: "hd0 p = NUL \<Longrightarrow> path_elems p = []"
  by (cases p) (simp_all add: path_elems_def cstr_def hd0_def)

definition plain :: "char \<Rightarrow> bool" where
  "plain c \<longleftrightarrow> c \<noteq> CHR ''/'' \<and> c \<noteq> NUL"

lemma cstr_append: "NUL \<notin> set e \<Longrightarrow> cstr (e @ r) = e @ cstr r"
  by (induction e) (auto simp: cstr_def)

lemma split_on_boundary:
  "r = [] \<or> hd r = CHR ''/'' \<or> hd r = NUL \<Longrightarrow> hd (split_on CHR ''/'' (cstr r)) = []"
  "r = [] \<or> hd r = CHR ''/'' \<or> hd r = NUL \<Longrightarrow> path_elems r = filter (\<lambda>e. e \<noteq> []) (tl (split_on CHR ''/'' (cstr r)))"
  by (cases r; auto simp: cstr_def path_elems_def)+

lemma elems_first:
  assumes "takeWhile plain s \<noteq> []"
  shows "path_elems s = takeWhile plain s # path_elems (dropWhile plain s)"
proof -
  let ?e = "takeWhile plain s" and ?r = "dropWhile plain s"
  have e: "NUL \<notin> set ?e" "CHR ''/'' \<notin> set ?e" by (auto simp: plain_def dest: set_takeWhileD)
  have r: "?r = [] \<or> hd ?r = CHR ''/'' \<or> hd ?r = NUL" using hd_dropWhile[of plain s] by (auto simp: plain_def)
  note split_on_boundary[OF r]
  moreover have "path_elems s = filter (\<lambda>e. e \<noteq> []) (split_on CHR ''/'' (?e @ cstr ?r))"
    unfolding path_elems_def by (metis cstr_append e(1) takeWhile_dropWhile_id)
  ultimately show ?thesis using split_on_plain[OF e(2)] assms by simp
qed

section \<open>Elements\<close>

lemma skipelem_none: "skipelem path name = None \<longleftrightarrow> hd0 (skip_slashes path) = NUL"
  by (simp add: skipelem_def Let_def)

lemma skipelem_some:
  assumes "skipelem path name = Some (path', name')" and "length name = DIRSIZ"
  shows "path_elems path = takeWhile plain (skip_slashes path) # path_elems path'"
    and "cstr name' = take DIRSIZ (takeWhile plain (skip_slashes path))" and "length name' = DIRSIZ"
proof -
  let ?s = "skip_slashes path"
  let ?e = "takeWhile plain ?s"
  have p: "(\<lambda>c. c \<noteq> CHR ''/'' \<and> c \<noteq> NUL) = plain" by (simp add: plain_def fun_eq_iff)
  have s: "?s \<noteq> []" "hd ?s \<noteq> NUL"
    using assms(1) by (auto simp: skipelem_def hd0_def Let_def split: list.splits if_splits)
  then have "hd ?s \<noteq> CHR ''/''"
    using hd_dropWhile[of "\<lambda>c. c = CHR ''/''" path] by (simp add: skip_slashes_def)
  then have ne: "?e \<noteq> []" using s by (cases ?s) (auto simp: plain_def)
  have r: "path' = skip_slashes (dropWhile plain ?s)"
    and n: "name' = (if length ?e \<ge> DIRSIZ then take DIRSIZ ?e @ drop DIRSIZ name else ?e @ [NUL] @ drop (length ?e + 1) name)"
    using assms(1) by (auto simp: skipelem_def Let_def p split: if_splits)
  show "path_elems path = ?e # path_elems path'"
    using elems_first[OF ne] by (simp add: r elems_skip)
  have "NUL \<notin> set ?e" by (auto simp: plain_def dest: set_takeWhileD)
  then have "NUL \<notin> set (take DIRSIZ ?e)" by (auto dest: in_set_takeD)
  with \<open>NUL \<notin> set ?e\<close> show "cstr name' = take DIRSIZ ?e"
    using assms(2) by (auto simp: n cstr_append) (auto simp: cstr_def)
  show "length name' = DIRSIZ" using assms(2) by (auto simp: n min_def)
qed

section \<open>Properties\<close>

text \<open>
  C33: walking a path element by element with \<open>skipelem\<close> ends, and yields exactly the non-empty
  parts between the slashes, in their order, each cut to its first \<open>DIRSIZ\<close> characters, whatever
  leading, repeated or trailing slashes there are. No element ever leaves the buffer of
  \<open>DIRSIZ\<close> characters.
\<close>

theorem skipelem_splits_path:
  assumes "length name = DIRSIZ"
  shows "map cstr (names_seen path name) = map (take DIRSIZ) (path_elems path) \<and>
    (\<forall>n. n \<in> set (names_seen path name) \<longrightarrow> length n = DIRSIZ)"
  using assms
proof (induction path name rule: names_seen.induct)
  case (1 path name)
  show ?case
  proof (cases "skipelem path name")
    case None
    then have "path_elems path = []" using elems_end elems_skip by (metis skipelem_none)
    then show ?thesis using None by (subst names_seen.simps, subst (2) names_seen.simps) simp
  next
    case (Some r)
    obtain path' name' where r: "r = (path', name')" by (cases r)
    note e = skipelem_some[OF Some[unfolded r] 1(2)]
    note ih = 1(1)[OF Some r[symmetric] e(3)]
    have "names_seen path name = name' # names_seen path' name'"
      by (subst names_seen.simps) (simp add: Some r)
    then show ?thesis using ih e by auto
  qed
qed

theorem skipelem_splits_path_witness:
  "map cstr (names_seen (''//usr/bin///a_very_long_file_name/'' @ [NUL]) (replicate DIRSIZ NUL)) =
    [''usr'', ''bin'', ''a_very_long_fi'']"
proof -
  have "path_elems (''//usr/bin///a_very_long_file_name/'' @ [NUL]) = [''usr'', ''bin'', ''a_very_long_file_name'']"
    by code_simp
  then show ?thesis
    using skipelem_splits_path[of "replicate DIRSIZ NUL" "''//usr/bin///a_very_long_file_name/'' @ [NUL]"]
    by (simp add: DIRSIZ_def)
qed

end
