(* ===== verification/TrapSpec.thy ===== *)
theory TrapSpec
  imports States
begin

text \<open>
  System calls from end to end: a trap from user mode, the dispatch by number, the handler, and
  the return to the instruction after the call.
\<close>

section \<open>The trap frame\<close>

lemma st64_ld64_fields:
  fixes a o1 o2 :: u64
  assumes "unat a + 4096 < 2 ^ 64" and "unat o1 mod 8 = 0" and "unat o2 mod 8 = 0" and "unat o1 < 4096 - 8"
    and "unat o2 < 4096 - 8" and "o1 \<noteq> o2"
  shows "ld64 (st64 m (a + o1) v) (a + o2) = ld64 m (a + o2)"
proof -
  have u: "unat (a + o1) = unat a + unat o1" "unat (a + o2) = unat a + unat o2"
    using assms unat_add_of_nat[of a "unat o1"] unat_add_of_nat[of a "unat o2"] by simp_all
  have "unat o1 \<noteq> unat o2" using assms(6) by (simp add: word_unat_eq_iff)
  then have "unat o1 + 8 \<le> unat o2 \<or> unat o2 + 8 \<le> unat o1" using assms(2,3) by presburger
  then show ?thesis using assms(1,4,5) u by (intro ld64_st64_apart) (auto simp: apart_def)
qed

definition tf_field :: "u64 \<Rightarrow> bool" where
  "tf_field x \<longleftrightarrow> unat x mod 8 = 0 \<and> unat x < 288"

lemma tf_fields [simp]:
  "tf_field TF_kernel_satp" "tf_field TF_kernel_sp" "tf_field TF_kernel_trap" "tf_field TF_epc"
  "tf_field TF_kernel_hartid" "tf_field TF_a0" "tf_field TF_a7"
  by (simp_all add: tf_field_def TF_kernel_satp_def TF_kernel_sp_def TF_kernel_trap_def TF_epc_def TF_kernel_hartid_def TF_a0_def TF_a7_def)

lemma tf_distinct [simp]:
  "TF_kernel_satp \<noteq> TF_epc" "TF_kernel_sp \<noteq> TF_epc" "TF_kernel_trap \<noteq> TF_epc" "TF_kernel_hartid \<noteq> TF_epc" "TF_a0 \<noteq> TF_epc"
  "TF_kernel_satp \<noteq> TF_a0" "TF_kernel_sp \<noteq> TF_a0" "TF_kernel_trap \<noteq> TF_a0" "TF_kernel_hartid \<noteq> TF_a0" "TF_epc \<noteq> TF_a0"
  "TF_epc \<noteq> TF_a7" "TF_a0 \<noteq> TF_a7" "TF_kernel_hartid \<noteq> TF_kernel_trap"
  by (simp_all add: TF_kernel_satp_def TF_kernel_sp_def TF_kernel_trap_def TF_epc_def TF_kernel_hartid_def TF_a0_def TF_a7_def)

definition tf_ok :: "nat \<Rightarrow> 'z procst_scheme \<Rightarrow> bool" where
  "tf_ok p s \<longleftrightarrow> unat (p_trapframe (procs s ! p)) + 4096 < 2 ^ 64"

lemma tf_get_set:
  "tf_get p x (tf_set p x v s) = v"
  "tf_ok p s \<Longrightarrow> tf_field x \<Longrightarrow> tf_field y \<Longrightarrow> x \<noteq> y \<Longrightarrow> tf_get p y (tf_set p x v s) = tf_get p y s"
  by (simp_all add: tf_get_def tf_set_def tf_ok_def tf_field_def st64_ld64_fields)

lemma tf_set_frame [simp]:
  "hw (tf_set p x v s) = hw s" "procs (tf_set p x v s) = procs s"
  "rooms (tf_set p x v s) = rooms s" "ticks (tf_set p x v s) = ticks s" "tf_ok q (tf_set p x v s) = tf_ok q s"
  "tf_get q y (s\<lparr>hw := h\<rparr>) = tf_get q y s" "tf_ok q (s\<lparr>hw := h\<rparr>) = tf_ok q s"
  by (simp_all add: tf_set_def tf_get_def tf_ok_def)

lemma tf_set_hw: "tf_set p x v (s\<lparr>hw := h\<rparr>) = (tf_set p x v s)\<lparr>hw := h\<rparr>"
  by (simp add: tf_set_def)

section \<open>Control registers\<close>

lemma tf_set_trap [simp]: "tr (tf_set p x v s) = tr s" "trampoline (tf_set p x v s) = trampoline s"
  "lighting_initialized (tf_set p x v s) = lighting_initialized s"
  by (simp_all add: tf_set_def)

lemma tf_rooms [simp]:
  "tf_ok p (s\<lparr>rooms := rs\<rparr>) = tf_ok p s" "tf_get p x (s\<lparr>rooms := rs\<rparr>) = tf_get p x s"
  by (simp_all add: tf_ok_def tf_get_def)

lemma mycsr_frame [simp]:
  "mycsr (tf_set p x v s) = mycsr s" "tp h = tp (hw s) \<Longrightarrow> mycsr (s\<lparr>hw := h\<rparr>) = mycsr s"
  "mycsr (upd_csr f s) = f (mycsr s)"
  by (simp_all add: mycsr_def tf_set_def upd_csr_def)

lemma upd_csr_frame [simp]:
  "hw (upd_csr f s) = hw s" "procs (upd_csr f s) = procs s" "mem (upd_csr f s) = mem s" "rooms (upd_csr f s) = rooms s"
  "ticks (upd_csr f s) = ticks s" "trampoline (upd_csr f s) = trampoline s" "tf_get p x (upd_csr f s) = tf_get p x s"
  "tf_ok p (upd_csr f s) = tf_ok p s" "sym_usertrap (tr (upd_csr f s)) = sym_usertrap (tr s)"
  "sym_uservec (tr (upd_csr f s)) = sym_uservec (tr s)" "lighting_initialized (upd_csr f s) = lighting_initialized s"
  by (simp_all add: upd_csr_def tf_get_def tf_ok_def)

lemma intr_frame [simp]:
  "tp (intr_on h) = tp h" "tp (intr_off h) = tp h" "locks (intr_on h) = locks h" "locks (intr_off h) = locks h"
  "mycpu (intr_on h) = mycpu h" "mycpu (intr_off h) = mycpu h" "lk_free l (intr_on h) = lk_free l h" "lk_free l (intr_off h) = lk_free l h"
  "intr_get (intr_on h)" "\<not> intr_get (intr_off h)" "cpu_ok h \<Longrightarrow> cpu_ok (intr_off h)"
  "noff (mycpu h) = 0 \<Longrightarrow> cpu_ok (intr_on h)"
  by (simp_all add: intr_on_def intr_off_def mycpu_def lk_free_def intr_get_def cpu_ok_def)

lemma intr_tty [simp]: "tty_ok (intr_on h) = tty_ok h"
  by (simp add: tty_ok_def intr_on_def)

lemma sstatus_bits:
  fixes c :: u64
  defines "y \<equiv> (c AND NOT SSTATUS_SIE) AND NOT SSTATUS_SPP OR SSTATUS_SPIE"
  shows "y AND SSTATUS_SIE = 0" "y AND SSTATUS_SPP = 0" "y AND SSTATUS_SPIE \<noteq> 0"
  by (simp_all add: y_def SSTATUS_SIE_def SSTATUS_SPP_def SSTATUS_SPIE_def and.assoc bit.conj_disj_distrib2)

section \<open>What a trap may write\<close>

text \<open>
  \<open>trap_writes p out s u\<close>: from \<open>s\<close> to \<open>u\<close> the console has printed \<open>out\<close>, the running hart
  may have changed its own record, its interrupt bit and its control registers, and in memory only
  the first 40 bytes of the trap frame of process \<open>p\<close> (the words of the kernel and the saved program
  counter) and its register \<open>a0\<close> (bytes 112 to 119) may differ. Everything else is the same.
\<close>

definition trap_writes :: "nat \<Rightarrow> bytes \<Rightarrow> 'z trapst_scheme \<Rightarrow> 'z trapst_scheme \<Rightarrow> bool" where
  "trap_writes p out s u \<longleftrightarrow> (\<exists>c i m r.
     u = s\<lparr>hw := (hw s)\<lparr>cpus := c, sie := i, thr := thr (hw s) @ out\<rparr>, mem := m, tr := (tr s)\<lparr>csrs := r\<rparr>\<rparr> \<and>
     (\<forall>j. j \<noteq> tp (hw s) \<longrightarrow> c j = cpus (hw s) j \<and> i j = sie (hw s) j \<and> r j = csrs (tr s) j) \<and>
     (\<forall>a. let k = unat (a - p_trapframe (procs s ! p)) in 40 \<le> k \<and> (k < 112 \<or> 120 \<le> k) \<longrightarrow> m a = mem s a))"

lemma tw_trans:
  assumes "trap_writes p a s t" and "trap_writes p b t u"
  shows "trap_writes p (a @ b) s u"
proof -
  obtain c i m r where t: "t = s\<lparr>hw := (hw s)\<lparr>cpus := c, sie := i, thr := thr (hw s) @ a\<rparr>, mem := m, tr := (tr s)\<lparr>csrs := r\<rparr>\<rparr>"
    and t': "\<forall>j. j \<noteq> tp (hw s) \<longrightarrow> c j = cpus (hw s) j \<and> i j = sie (hw s) j \<and> r j = csrs (tr s) j"
      "\<forall>a. let k = unat (a - p_trapframe (procs s ! p)) in 40 \<le> k \<and> (k < 112 \<or> 120 \<le> k) \<longrightarrow> m a = mem s a"
    using assms(1) unfolding trap_writes_def by blast
  obtain c' i' m' r' where u: "u = t\<lparr>hw := (hw t)\<lparr>cpus := c', sie := i', thr := thr (hw t) @ b\<rparr>, mem := m', tr := (tr t)\<lparr>csrs := r'\<rparr>\<rparr>"
    and u': "\<forall>j. j \<noteq> tp (hw t) \<longrightarrow> c' j = cpus (hw t) j \<and> i' j = sie (hw t) j \<and> r' j = csrs (tr t) j"
      "\<forall>a. let k = unat (a - p_trapframe (procs t ! p)) in 40 \<le> k \<and> (k < 112 \<or> 120 \<le> k) \<longrightarrow> m' a = mem t a"
    using assms(2) unfolding trap_writes_def by blast
  show ?thesis
    unfolding trap_writes_def
    using t' u' by (intro exI[of _ c'] exI[of _ i'] exI[of _ m'] exI[of _ r']) (simp add: t u Let_def)
qed

lemma tw_hw:
  assumes "h = (hw s)\<lparr>cpus := c, sie := i, thr := thr (hw s) @ out\<rparr>"
    and "\<And>j. j \<noteq> tp (hw s) \<Longrightarrow> c j = cpus (hw s) j \<and> i j = sie (hw s) j"
  shows "trap_writes p out s (s\<lparr>hw := h\<rparr>)"
  unfolding trap_writes_def
  using assms by (intro exI[of _ c] exI[of _ i] exI[of _ "mem s"] exI[of _ "csrs (tr s)"]) simp

lemma tw_machine:
  "trap_writes p [] s (s\<lparr>hw := settle (hw s)\<rparr>)" "trap_writes p [] s (s\<lparr>hw := intr_on (hw s)\<rparr>)"
  "trap_writes p [] s (s\<lparr>hw := intr_off (hw s)\<rparr>)" "trap_writes p out s (s\<lparr>hw := emit out (hw s)\<rparr>)"
proof -
  show "trap_writes p [] s (s\<lparr>hw := settle (hw s)\<rparr>)"
    by (rule tw_hw[where c = "cpus (settle (hw s))" and i = "sie (hw s)"]) (simp_all add: settle_def hw_defs)
  show "trap_writes p [] s (s\<lparr>hw := intr_on (hw s)\<rparr>)"
    by (rule tw_hw[where c = "cpus (hw s)" and i = "sie (intr_on (hw s))"]) (simp_all add: intr_on_def)
  show "trap_writes p [] s (s\<lparr>hw := intr_off (hw s)\<rparr>)"
    by (rule tw_hw[where c = "cpus (hw s)" and i = "sie (intr_off (hw s))"]) (simp_all add: intr_off_def)
  show "trap_writes p out s (s\<lparr>hw := emit out (hw s)\<rparr>)"
    by (rule tw_hw[where c = "cpus (hw s)" and i = "sie (hw s)"]) (simp_all add: emit_def)
qed

lemma tw_csr: "trap_writes p [] s (upd_csr f s)"
  unfolding trap_writes_def upd_csr_def
  by (intro exI[of _ "cpus (hw s)"] exI[of _ "sie (hw s)"] exI[of _ "mem s"]
      exI[of _ "(csrs (tr s))(tp (hw s) := f (mycsr s))"]) simp

lemma st64_outside:
  assumes "unat x + 8 \<le> 120" and "unat x + 8 \<le> unat (a - b) \<or> unat (a - b) < unat x"
  shows "st64 m (b + x) v a = m a"
proof -
  have "\<not> unat (a - (b + x)) < 8"
  proof
    assume l: "unat (a - (b + x)) < 8"
    have "a - b = x + of_nat (unat (a - (b + x)))" by simp
    moreover have "unat (x + of_nat (unat (a - (b + x)))) = unat x + unat (a - (b + x))"
      using l assms(1) by (intro unat_add_of_nat) simp
    ultimately show False using assms l by simp
  qed
  then show ?thesis by (simp add: st64_def st_def)
qed

lemma tw_tf:
  assumes "unat x + 8 \<le> 40 \<or> x = TF_a0"
  shows "trap_writes p [] s (tf_set p x v s)"
proof -
  have "st64 (mem s) (p_trapframe (procs s ! p) + x) v a = mem s a"
    if "40 \<le> unat (a - p_trapframe (procs s ! p))"
      "unat (a - p_trapframe (procs s ! p)) < 112 \<or> 120 \<le> unat (a - p_trapframe (procs s ! p))" for a
    using assms that by (auto intro!: st64_outside simp: TF_a0_def)
  then show ?thesis
    unfolding trap_writes_def tf_set_def
    by (intro exI[of _ "cpus (hw s)"] exI[of _ "sie (hw s)"] exI[of _ "st64 (mem s) (p_trapframe (procs s ! p) + x) v"]
        exI[of _ "csrs (tr s)"]) (simp add: Let_def)
qed

text \<open>Steps that print nothing, one after the other.\<close>

lemma tw_silent: "trap_writes p [] s t \<Longrightarrow> trap_writes p out t u \<Longrightarrow> trap_writes p out s u"
  using tw_trans[of p "[]" s t out u] by simp

lemma tw_after: "trap_writes p out s t \<Longrightarrow> trap_writes p [] t u \<Longrightarrow> trap_writes p out s u"
  using tw_trans[of p out s t "[]" u] by simp

lemma tw_rooms: "trap_writes p out s u \<Longrightarrow> trap_writes p out (s\<lparr>rooms := rs\<rparr>) (u\<lparr>rooms := rs\<rparr>)"
proof -
  assume "trap_writes p out s u"
  then obtain c i m r where "u = s\<lparr>hw := (hw s)\<lparr>cpus := c, sie := i, thr := thr (hw s) @ out\<rparr>, mem := m, tr := (tr s)\<lparr>csrs := r\<rparr>\<rparr>"
    "\<forall>j. j \<noteq> tp (hw s) \<longrightarrow> c j = cpus (hw s) j \<and> i j = sie (hw s) j \<and> r j = csrs (tr s) j"
    "\<forall>a. let k = unat (a - p_trapframe (procs s ! p)) in 40 \<le> k \<and> (k < 112 \<or> 120 \<le> k) \<longrightarrow> m a = mem s a"
    unfolding trap_writes_def by blast
  then show ?thesis
    unfolding trap_writes_def by (intro exI[of _ c] exI[of _ i] exI[of _ m] exI[of _ r]) simp
qed

lemma tw_words:
  "trap_writes p [] s (tf_set p TF_kernel_satp v s)" "trap_writes p [] s (tf_set p TF_kernel_sp v s)"
  "trap_writes p [] s (tf_set p TF_kernel_trap v s)" "trap_writes p [] s (tf_set p TF_kernel_hartid v s)"
  "trap_writes p [] s (tf_set p TF_epc v s)" "trap_writes p [] s (tf_set p TF_a0 v s)"
  by (rule tw_tf; simp add: TF_kernel_satp_def TF_kernel_sp_def TF_kernel_trap_def TF_kernel_hartid_def TF_epc_def)+

lemma tw_w:
  "trap_writes p [] s (w_stvec v s)" "trap_writes p [] s (w_sepc v s)" "trap_writes p [] s (w_sstatus v s)"
proof -
  show "trap_writes p [] s (w_stvec v s)" "trap_writes p [] s (w_sepc v s)"
    by (simp_all only: w_stvec_def w_sepc_def tw_csr)
  show "trap_writes p [] s (w_sstatus v s)"
    unfolding w_sstatus_def Let_def
    by (cases "v AND SSTATUS_SIE \<noteq> 0") (simp_all only: if_True if_False not_True_eq_False not_False_eq_True tw_silent[OF tw_csr tw_machine(2)] tw_silent[OF tw_csr tw_machine(3)])
qed

text \<open>What \<open>prepare_return\<close> leaves for \<open>sret\<close>: where user code continues, in which mode, with which interrupts.\<close>

definition returns_to :: "u64 \<Rightarrow> 'z trapst_scheme \<Rightarrow> bool" where
  "returns_to pc u \<longleftrightarrow> c_sepc (mycsr u) = pc \<and> c_sstatus (mycsr u) AND SSTATUS_SPP = 0 \<and>
     c_sstatus (mycsr u) AND SSTATUS_SPIE \<noteq> 0 \<and> \<not> intr_get (hw u) \<and>
     c_stvec (mycsr u) = TRAMPOLINE + (sym_uservec (tr u) - trampoline u)"

lemma prepare_return_ok:
  fixes s :: "'z trapst_scheme"
  assumes "cpu_ok (hw s)" and "cpu_proc (mycpu (hw s)) = Some p" and "tf_ok p s"
  shows "\<exists>u. prepare_return s = Ret () u \<and> returns_to (tf_get p TF_epc s) u \<and> locks (hw u) = locks (hw s) \<and>
    procs u = procs s \<and> rooms u = rooms s \<and> ticks u = ticks s \<and> tf_get p TF_a0 u = tf_get p TF_a0 s \<and>
    tf_get p TF_kernel_trap u = sym_usertrap (tr s) \<and> trap_writes p [] s u"
proof -
  let ?h = "intr_off (settle (hw s))"
  have cur: "curproc s = Ret p (s\<lparr>hw := settle (hw s)\<rparr>)" by (rule curproc_ok[OF assms(1,2)])
  have "r_sstatus t = c_sstatus (mycsr t) AND NOT SSTATUS_SIE" if "hw t = ?h" for t :: "'z trapst_scheme"
    using that by (simp add: r_sstatus_def)
  then have "\<exists>u. prepare_return s = Ret () u \<and> returns_to (tf_get p TF_epc s) u \<and> locks (hw u) = locks (hw s) \<and>
    procs u = procs s \<and> rooms u = rooms s \<and> ticks u = ticks s \<and> tf_get p TF_a0 u = tf_get p TF_a0 s \<and>
    tf_get p TF_kernel_trap u = sym_usertrap (tr s)"
    using assms(3) sstatus_bits
    by (simp add: prepare_return_def cur Let_def w_sstatus_def w_stvec_def w_sepc_def returns_to_def tf_get_set)
  moreover have "trap_writes p [] s u" if "prepare_return s = Ret () u" for u
  proof -
    have "trap_writes p [] (s\<lparr>hw := settle (hw s)\<rparr>) u"
      using that unfolding prepare_return_def cur bindr.simps Let_def res.inject
      by (elim conjE, hypsubst) (rule tw_after[OF _ tw_w(2)], rule tw_after[OF _ tw_w(3)], rule tw_after[OF _ tw_words(4)],
        rule tw_after[OF _ tw_words(3)], rule tw_after[OF _ tw_words(2)], rule tw_after[OF _ tw_words(1)],
        rule tw_after[OF _ tw_w(1)], rule tw_machine(3))
    then show ?thesis by (rule tw_silent[OF tw_machine(1)])
  qed
  ultimately show ?thesis by blast
qed

section \<open>A system call\<close>

text \<open>A process that has just executed \<open>ecall\<close> at address \<open>pc\<close> in user mode, on a hart that holds no lock.\<close>

definition user_entry :: "nat \<Rightarrow> u64 \<Rightarrow> 'z trapst_scheme \<Rightarrow> bool" where
  "user_entry p pc s \<longleftrightarrow> cpu_ok (hw s) \<and> noff (mycpu (hw s)) = 0 \<and> cpu_proc (mycpu (hw s)) = Some p \<and>
     lk_free (Lk_proc p) (hw s) \<and> p_killed (procs s ! p) = 0 \<and> tf_ok p s \<and>
     c_scause (mycsr s) = 8 \<and> r_sstatus s AND SSTATUS_SPP = 0 \<and> c_sepc (mycsr s) = pc"

text \<open>The state in which \<open>syscall\<close> is called.\<close>

definition at_call :: "nat \<Rightarrow> 'z trapst_scheme \<Rightarrow> 'z trapst_scheme" where
  "at_call p s =
     (let s = w_stvec (sym_kernelvec (tr s)) s;
          s = tf_set p TF_epc (c_sepc (mycsr s)) s;
          s = tf_set p TF_epc (tf_get p TF_epc s + 4) s in
      s\<lparr>hw := intr_on (settle (hw s))\<rparr>)"

lemma at_call_frame [simp]:
  "hw (at_call p s) = intr_on (settle (hw s))" "procs (at_call p s) = procs s" "rooms (at_call p s) = rooms s"
  "ticks (at_call p s) = ticks s" "lighting_initialized (at_call p s) = lighting_initialized s"
  "tf_get p TF_epc (at_call p s) = c_sepc (mycsr s) + 4" "tf_ok p (at_call p s) = tf_ok p s"
  by (simp_all add: at_call_def Let_def w_stvec_def tf_get_set)

lemma at_call_writes: "trap_writes p [] s (at_call p s)"
proof -
  let ?s = "w_stvec (sym_kernelvec (tr s)) s"
  let ?t = "tf_set p TF_epc (c_sepc (mycsr ?s)) ?s"
  let ?u = "tf_set p TF_epc (tf_get p TF_epc ?t + 4) ?t"
  have "trap_writes p [] s ?u"
    by (rule tw_silent[OF tw_w(1)], rule tw_silent[OF tw_words(5)], rule tw_words(5))
  then have "trap_writes p [] s (?u\<lparr>hw := settle (hw ?u)\<rparr>)" by (rule tw_after[OF _ tw_machine(1)])
  then show ?thesis
    using tw_after[OF _ tw_machine(2), of p "[]" s "?u\<lparr>hw := settle (hw ?u)\<rparr>"] by (simp add: at_call_def Let_def)
qed

lemma at_call_args [simp]:
  assumes "tf_ok p s"
  shows "tf_get p TF_a0 (at_call p s) = tf_get p TF_a0 s" "tf_get p TF_a7 (at_call p s) = tf_get p TF_a7 s"
  using assms by (simp_all add: at_call_def Let_def w_stvec_def tf_get_set)

lemma usertrap_via:
  fixes s :: "'z trapst_scheme"
  assumes "user_entry p pc s" and "syscall (at_call p s) = Ret () t"
    and "cpu_ok (hw t)" and "cpu_proc (mycpu (hw t)) = Some p" and "lk_free (Lk_proc p) (hw t)"
    and "procs t = procs s" and "tf_get p TF_epc t = pc + 4"
  shows "\<exists>u. usertrap s = Ret (MAKE_SATP (p_pagetable (procs s ! p))) u \<and> returns_to (pc + 4) u \<and>
    tf_get p TF_a0 u = tf_get p TF_a0 t \<and> rooms u = rooms t \<and> ticks u = ticks t \<and> procs u = procs s \<and>
    locks (hw u) = locks (hw t) \<and> trap_writes p [] t u"
proof -
  have e: "cpu_ok (hw s)" "noff (mycpu (hw s)) = 0" "cpu_proc (mycpu (hw s)) = Some p" "lk_free (Lk_proc p) (hw s)"
    "p_killed (procs s ! p) = 0" "tf_ok p s" "c_scause (mycsr s) = 8" "r_sstatus s AND SSTATUS_SPP = 0" "c_sepc (mycsr s) = pc"
    using assms(1) by (simp_all add: user_entry_def)
  define s1 where "s1 = tf_set p TF_epc (c_sepc (mycsr s)) (w_stvec (sym_kernelvec (tr s)) s)"
  have h1: "hw s1 = hw s" "procs s1 = procs s" by (simp_all add: s1_def w_stvec_def)
  have cur: "curproc (w_stvec (sym_kernelvec (tr s)) s) = Ret p ((w_stvec (sym_kernelvec (tr s)) s)\<lparr>hw := settle (hw s)\<rparr>)"
    using curproc_ok[of "w_stvec (sym_kernelvec (tr s)) s" p] e by (simp add: w_stvec_def)
  have k: "killed p (s1\<lparr>hw := settle (hw s)\<rparr>) = Ret 0 (s1\<lparr>hw := settle (hw s)\<rparr>)"
    using killed_ok[of "s1\<lparr>hw := settle (hw s)\<rparr>" p] e h1 by simp
  have call: "at_call p s = (tf_set p TF_epc (tf_get p TF_epc s1 + 4) s1)\<lparr>hw := intr_on (settle (hw s))\<rparr>"
    by (simp add: at_call_def s1_def Let_def w_stvec_def)
  have "usertrap s = bindr (syscall (at_call p s)) (\<lambda>_ s. usertrap_finish p 0 s)"
    using e k by (simp add: usertrap_def Let_def cur tf_set_hw s1_def[symmetric] usertrap_syscall_def call)
      (simp add: s1_def w_stvec_def tf_set_hw)
  also have "\<dots> = usertrap_return p (t\<lparr>hw := settle (hw t)\<rparr>)"
    using assms(2) killed_ok[OF assms(3,5)] assms(6) e(5) by (simp add: usertrap_finish_def)
  finally have run: "usertrap s = usertrap_return p (t\<lparr>hw := settle (hw t)\<rparr>)" .
  have "tf_ok p t" using e(6) assms(6) by (simp add: tf_ok_def)
  then show ?thesis
    using prepare_return_ok[of "t\<lparr>hw := settle (hw t)\<rparr>" p] assms(3-7) tw_silent[OF tw_machine(1)[of p t]]
    by (auto simp: run usertrap_return_def)
qed

lemma syscall_known:
  fixes s :: "'z trapst_scheme"
  assumes "cpu_ok (hw s)" and "cpu_proc (mycpu (hw s)) = Some p"
    and "sint (ucast (tf_get p TF_a7 s) :: u32) = num" and "num > 0" and "syscalls num = Some f"
    and "f (s\<lparr>hw := settle (hw s)\<rparr>) = Ret r t"
  shows "syscall s = Ret () (tf_set p TF_a0 r t)"
  using assms by (simp add: syscall_def curproc_ok Let_def)

text \<open>The message for an unknown number, with the process it names.\<close>

definition unknown_call :: "proc \<Rightarrow> int \<Rightarrow> bytes \<Rightarrow> bool" where
  "unknown_call q num t \<longleftrightarrow> formats (''%d %s: unknown sys call %d'' @ [CHR 0x0A])
     [VInt (word_of_int (p_pid q)), VStr (Some (p_name q)), VInt (word_of_int num)] t"

lemma formats_plain:
  "CHR ''%'' \<notin> set xs \<Longrightarrow> NUL \<notin> set xs \<Longrightarrow> formats f ap t \<Longrightarrow> formats (xs @ f) ap (xs @ t)"
  by (induction xs) (auto intro!: fm_char)

lemma unknown_call_ex: "\<exists>t. unknown_call q num t"
proof -
  let ?d = "\<lambda>x :: int. int_numeral 10 (sint (ucast (word_of_int x :: u64) :: u32))"
  let ?b = "takeWhile (\<lambda>c. c \<noteq> NUL) (p_name q)" and ?r = "dropWhile (\<lambda>c. c \<noteq> NUL) (p_name q)"
  have "formats [CHR 0x0A] [] [CHR 0x0A]" using formats_plain[of "[CHR 0x0A]" "[]" "[]" "[]"] fm_end by simp
  then have 1: "formats (''%d'' @ [CHR 0x0A]) [VInt (word_of_int num)] (?d num @ [CHR 0x0A])" by (rule fm_d)
  have 2: "formats ('': unknown sys call '' @ ''%d'' @ [CHR 0x0A]) [VInt (word_of_int num)] ('': unknown sys call '' @ ?d num @ [CHR 0x0A])"
    by (rule formats_plain[OF _ _ 1]) simp_all
  have n: "NUL \<notin> set ?b" "?r = [] \<or> hd ?r = NUL" using hd_dropWhile[of "\<lambda>c. c \<noteq> NUL" "p_name q"] by (auto dest: set_takeWhileD)
  have 3: "formats (''%s'' @ '': unknown sys call '' @ ''%d'' @ [CHR 0x0A]) [VStr (Some (p_name q)), VInt (word_of_int num)]
      (?b @ '': unknown sys call '' @ ?d num @ [CHR 0x0A])"
    using fm_s[OF n 2] by simp
  have "formats ('' '' @ ''%s'' @ '': unknown sys call '' @ ''%d'' @ [CHR 0x0A]) [VStr (Some (p_name q)), VInt (word_of_int num)]
      ('' '' @ ?b @ '': unknown sys call '' @ ?d num @ [CHR 0x0A])"
    by (rule formats_plain[OF _ _ 3]) simp_all
  from fm_d[OF this] show ?thesis unfolding unknown_call_def by auto
qed

lemma syscall_unknown:
  fixes s :: "'z trapst_scheme"
  assumes "cpu_ok (hw s)" and "cpu_proc (mycpu (hw s)) = Some p" and "tty_ok (hw s)" and "lk_free Lk_pr (hw s)"
    and "sint (ucast (tf_get p TF_a7 s) :: u32) = num" and "num \<le> 0 \<or> num > 27" and "unknown_call (procs s ! p) num out"
  shows "syscall s = Ret () (tf_set p TF_a0 (-1) (s\<lparr>hw := emit out (settle (hw s))\<rparr>))"
proof -
  have none: "(if num > 0 then syscalls num else None) = (None :: ('z trapst_scheme \<Rightarrow> (u64, 'z trapst_scheme) res) option)"
    using assms(6) by (auto simp: syscalls_def)
  let ?ap = "[VInt (word_of_int (p_pid (procs s ! p))), VStr (Some (p_name (procs s ! p))), VInt (word_of_int num)]"
  have "printf_chars (''%d %s: unknown sys call %d'' @ [CHR 0x0A]) ?ap = Some out"
    using formats_chars assms(7) unfolding unknown_call_def by blast
  then have "kprintf (''%d %s: unknown sys call %d'' @ [CHR 0x0A]) ?ap (s\<lparr>hw := settle (hw s)\<rparr>) = Ret 0 (s\<lparr>hw := emit out (settle (hw s))\<rparr>)"
    using kprintf_ok[of "s\<lparr>hw := settle (hw s)\<rparr>" "''%d %s: unknown sys call %d'' @ [CHR 0x0A]" ?ap out] assms(1,3,4) by simp
  then show ?thesis
    using assms(1,2,5) none by (auto simp: syscall_def curproc_ok Let_def simp del: if_split)
qed

lemma set_occupied_call:
  fixes s :: "'z trapst_scheme"
  assumes "light_ready s" and "cpu_proc (mycpu (hw s)) = Some p"
    and "sint (ucast (tf_get p TF_a0 s) :: u32) = int r" and "r < NUM_ROOMS"
  shows "sys_set_occupied s = Ret 0 (s\<lparr>hw := settle (hw s), rooms := (rooms s)[r := (rooms s ! r)\<lparr>occupied := ROOM_OCCUPIED,
    light_on := LIGHT_ON, light_on_since := ticks s\<rparr>]\<rparr>)"
proof -
  have ok: "cpu_ok (hw s)" using assms(1) by (simp add: light_ready_def)
  have a: "argint 0 s = Ret (int r) (s\<lparr>hw := settle (hw s)\<rparr>)"
    using curproc_ok[OF ok assms(2)] assms(3) by (simp add: argint_def argraw_def tf_get_def)
  have "light_ready (s\<lparr>hw := settle (hw s)\<rparr>)" using assms(1) by (simp add: light_ready_def)
  then show ?thesis
    using set_room_occupied_ok[of "s\<lparr>hw := settle (hw s)\<rparr>" "int r"] assms(4)
    by (simp add: sys_set_occupied_def a bad_room_def)
qed

lemma argint_a0:
  fixes s :: "'z trapst_scheme"
  assumes "cpu_ok (hw s)" and "cpu_proc (mycpu (hw s)) = Some p" and "sint (ucast (tf_get p TF_a0 s) :: u32) = n"
  shows "argint 0 s = Ret n (s\<lparr>hw := settle (hw s)\<rparr>)"
  using curproc_ok[OF assms(1,2)] assms(3) by (simp add: argint_def argraw_def tf_get_def)

lemma light_inv_rooms: "light_inv s \<Longrightarrow> length (rooms s) = NUM_ROOMS"
  by (simp add: light_inv_def)

section \<open>Properties\<close>

text \<open>
  C34: the system call that marks a room occupied, from end to end. When a process executes
  \<open>ecall\<close> with number 24 and a valid room, the trap returns to user mode: the room is occupied, its
  light is on since the current tick, every other room is unchanged, the process finds 0 in
  register \<open>a0\<close> and continues at the instruction after the call, with interrupts enabled, traps
  directed to the trampoline, and all locks free as before.
\<close>

theorem ecall_set_occupied:
  fixes s :: "'z trapst_scheme"
  assumes "user_entry p pc s" and "light_ready s"
    and "sint (ucast (tf_get p TF_a7 s) :: u32) = 24" and "sint (ucast (tf_get p TF_a0 s) :: u32) = int r" and "r < NUM_ROOMS"
  shows "\<exists>u. usertrap s = Ret (MAKE_SATP (p_pagetable (procs s ! p))) u \<and> returns_to (pc + 4) u \<and>
    tf_get p TF_a0 u = 0 \<and> locks (hw u) = locks (hw s) \<and>
    rooms u = (rooms s)[r := (rooms s ! r)\<lparr>occupied := ROOM_OCCUPIED, light_on := LIGHT_ON, light_on_since := ticks s\<rparr>]"
proof -
  have e: "cpu_ok (hw s)" "noff (mycpu (hw s)) = 0" "cpu_proc (mycpu (hw s)) = Some p" "lk_free (Lk_proc p) (hw s)"
    "tf_ok p s" "c_sepc (mycsr s) = pc" using assms(1) by (simp_all add: user_entry_def)
  let ?c = "at_call p s" and ?h = "settle (intr_on (settle (hw s)))"
  let ?c' = "?c\<lparr>hw := ?h\<rparr>"
  have ok: "cpu_ok ?h" "cpu_proc (mycpu ?h) = Some p" "lk_free (Lk_proc p) ?h" "lk_free Lk_lighting ?h" "locks ?h = locks (hw s)"
    using e assms(2) by (simp_all add: light_ready_def)
  then have "light_ready ?c'" using assms(2) by (simp add: light_ready_def)
  then have f: "sys_set_occupied ?c' = Ret 0 (?c'\<lparr>rooms := (rooms s)[r := (rooms s ! r)\<lparr>occupied := ROOM_OCCUPIED,
      light_on := LIGHT_ON, light_on_since := ticks s\<rparr>]\<rparr>)"
    using set_occupied_call[of ?c' p r] ok(2) e(5) assms(4,5) by simp
  let ?t = "tf_set p TF_a0 0 (?c'\<lparr>rooms := (rooms s)[r := (rooms s ! r)\<lparr>occupied := ROOM_OCCUPIED,
      light_on := LIGHT_ON, light_on_since := ticks s\<rparr>]\<rparr>)"
  have call: "syscall ?c = Ret () ?t"
    using syscall_known[of ?c p 24 sys_set_occupied 0] e assms(3) f by (simp add: syscalls_def)
  have "tf_get p TF_epc ?t = pc + 4"
    using e(5,6) by (simp add: tf_get_set(2))
  then show ?thesis
    using usertrap_via[OF assms(1) call] ok by (simp add: tf_get_set(1)) blast
qed

text \<open>
  C35: a system call number outside the table does no harm. The trap returns to the instruction
  after the call with -1 in \<open>a0\<close>. The console has printed the line that names the process and the
  number; of the whole memory only the kernel's words, the program counter and \<open>a0\<close> in the trap
  frame of the process have changed, and apart from the running hart's own registers the rest of
  the state is as it was: every other process, user memory, rooms, ticks, locks, files, pipes and disk.
\<close>

theorem ecall_unknown:
  fixes s :: "'z trapst_scheme"
  assumes "user_entry p pc s" and "tty_ok (hw s)" and "lk_free Lk_pr (hw s)"
    and "sint (ucast (tf_get p TF_a7 s) :: u32) = num" and "num \<le> 0 \<or> num > 27"
  shows "\<exists>u out. usertrap s = Ret (MAKE_SATP (p_pagetable (procs s ! p))) u \<and> returns_to (pc + 4) u \<and>
    tf_get p TF_a0 u = -1 \<and> unknown_call (procs s ! p) num out \<and> trap_writes p out s u"
proof -
  have e: "cpu_ok (hw s)" "noff (mycpu (hw s)) = 0" "cpu_proc (mycpu (hw s)) = Some p" "lk_free (Lk_proc p) (hw s)"
    "tf_ok p s" "c_sepc (mycsr s) = pc" using assms(1) by (simp_all add: user_entry_def)
  let ?c = "at_call p s" and ?h = "intr_on (settle (hw s))"
  have ok: "cpu_ok ?h" "cpu_proc (mycpu ?h) = Some p" "lk_free (Lk_proc p) ?h" "tty_ok ?h"
    using e assms(2) by simp_all
  obtain out where out: "unknown_call (procs s ! p) num out" using unknown_call_ex by blast
  let ?t = "tf_set p TF_a0 (-1) (?c\<lparr>hw := emit out (settle ?h)\<rparr>)"
  have call: "syscall ?c = Ret () ?t"
    using syscall_unknown[of ?c p num out] ok e(5) assms(3-5) out by simp
  have "trap_writes p out ?c (?c\<lparr>hw := emit out (settle ?h)\<rparr>)"
    using tw_silent[OF tw_machine(1) tw_machine(4), of p out ?c] by simp
  then have w: "trap_writes p out s ?t"
    by (rule tw_silent[OF at_call_writes tw_after[OF _ tw_words(6)]])
  have "tf_get p TF_epc ?t = pc + 4" using e(5,6) by (simp add: tf_get_set(2))
  then obtain u where "usertrap s = Ret (MAKE_SATP (p_pagetable (procs s ! p))) u" "returns_to (pc + 4) u"
      "tf_get p TF_a0 u = -1" "trap_writes p [] ?t u"
    using usertrap_via[OF assms(1) call] ok by (simp add: tf_get_set(1)) blast
  then show ?thesis using out tw_after[OF w] by blast
qed

text \<open>
  C5: the system call \<open>auto_shutoff\<close> from end to end. When a process executes \<open>ecall\<close> with number
  27, the trap returns to the instruction after the call. The limit is the argument in \<open>a0\<close>, or 100
  ticks when it is not positive. The lights that were on, with a nonzero start tick the limit or
  more ago, are off and their start ticks are cleared; \<open>a0\<close> holds how many they are. Every other
  room, and everything but the registers a trap writes, is as it was, and nothing is printed.
\<close>

theorem ecall_auto_shutoff:
  fixes s :: "'z trapst_scheme"
  assumes "user_entry p pc s" and "light_inv s" and "lighting_initialized s \<noteq> 0"
    and "sint (ucast (tf_get p TF_a7 s) :: u32) = 27" and "sint (ucast (tf_get p TF_a0 s) :: u32) = arg"
    and "limit = (if 0 < arg then nat arg else 100)"
  shows "\<exists>u. usertrap s = Ret (MAKE_SATP (p_pagetable (procs s ! p))) u \<and> returns_to (pc + 4) u \<and>
    tf_get p TF_a0 u = of_nat (card {i. i < NUM_ROOMS \<and> light_on (rooms s ! i) = LIGHT_ON \<and>
      light_on_since (rooms s ! i) \<noteq> 0 \<and> limit \<le> unat (ticks s - light_on_since (rooms s ! i))}) \<and>
    trap_writes p [] (s\<lparr>rooms := map (\<lambda>r. if light_on r = LIGHT_ON \<and> light_on_since r \<noteq> 0 \<and>
          limit \<le> unat (ticks s - light_on_since r)
        then r\<lparr>light_on := LIGHT_OFF, light_on_since := 0\<rparr> else r) (rooms s)\<rparr>) u"
proof -
  have e: "cpu_ok (hw s)" "noff (mycpu (hw s)) = 0" "cpu_proc (mycpu (hw s)) = Some p" "lk_free (Lk_proc p) (hw s)"
    "tf_ok p s" "c_sepc (mycsr s) = pc" using assms(1) by (simp_all add: user_entry_def)
  let ?c = "at_call p s" and ?h = "settle (intr_on (settle (hw s)))"
  let ?over = "overdue (ticks s) (limit_of arg)"
  let ?rs = "map (\<lambda>r. if ?over r then turn_off r else r) (rooms s)" and ?n = "length (filter ?over (rooms s))"
  let ?t = "tf_set p TF_a0 (of_nat ?n) (?c\<lparr>hw := ?h, rooms := ?rs\<rparr>)"
  have ok: "cpu_ok ?h" "cpu_proc (mycpu ?h) = Some p" "lk_free (Lk_proc p) ?h" "locks ?h = locks (hw s)"
    using e by simp_all
  have "light_inv (?c\<lparr>hw := ?h\<rparr>)" using assms(2) e ok(1) by (simp add: light_inv_def light_env_def)
  then have "auto_shutoff arg (?c\<lparr>hw := ?h\<rparr>) = Ret (int ?n) (?c\<lparr>hw := ?h, rooms := ?rs\<rparr>)"
    using auto_shutoff_overdue[of "?c\<lparr>hw := ?h\<rparr>" arg] assms(3) by simp
  then have f: "sys_auto_shutoff (?c\<lparr>hw := ?h\<rparr>) = Ret (of_nat ?n) (?c\<lparr>hw := ?h, rooms := ?rs\<rparr>)"
    using argint_a0[of "?c\<lparr>hw := ?h\<rparr>" p arg] ok e(5) assms(5) by (simp add: sys_auto_shutoff_def)
  have call: "syscall ?c = Ret () ?t"
    using syscall_known[of ?c p 27 sys_auto_shutoff "of_nat ?n"] e assms(4) f by (simp add: syscalls_def)
  have "trap_writes p [] s (?c\<lparr>hw := ?h\<rparr>)"
    using tw_after[OF at_call_writes tw_machine(1), of p s] by simp
  then have w: "trap_writes p [] (s\<lparr>rooms := ?rs\<rparr>) ?t"
    by (rule tw_after[OF tw_rooms tw_words(6)])
  have "tf_get p TF_epc ?t = pc + 4" using e(5,6) by (simp add: tf_get_set(2))
  then obtain u where u: "usertrap s = Ret (MAKE_SATP (p_pagetable (procs s ! p))) u" "returns_to (pc + 4) u"
      "tf_get p TF_a0 u = of_nat ?n" "trap_writes p [] ?t u"
    using usertrap_via[OF assms(1) call] ok by (simp add: tf_get_set(1)) blast
  have "arg < 2 ^ 31" using sint_less[of "ucast (tf_get p TF_a0 s) :: u32"] assms(5) by simp
  note over = overdue_ticks[OF this] and len = light_inv_rooms[OF assms(2)]
  have "trap_writes p [] (s\<lparr>rooms := ?rs\<rparr>) u" by (rule tw_after[OF w u(4)])
  with u(1-3) show ?thesis
    unfolding over turn_off_def assms(6)[symmetric] length_filter_conv_card len by blast
qed

section \<open>Witnesses\<close>

text \<open>Process 0 executes \<open>ecall\<close> at address 0 with number \<open>num\<close> and argument \<open>arg\<close>.\<close>

definition calling :: "u64 \<Rightarrow> u64 \<Rightarrow> trapst" where
  "calling num arg = tf_set 0 TF_a0 arg (tf_set 0 TF_a7 num (kern0\<lparr>rooms := rooms light1, lighting_initialized := 1\<rparr>))"

lemma calling_args: "tf_get 0 TF_a0 (calling num arg) = arg" "tf_get 0 TF_a7 (calling num arg) = num"
  by (simp_all add: calling_def tf_get_set tf_ok_def proc0_nth unused_proc_def)

lemma calling_entry: "user_entry 0 0 (calling num arg)"
  by (simp add: user_entry_def calling_def tf_ok_def proc0_nth unused_proc_def r_sstatus_def mycsr_def trapregs0_def SSTATUS_SIE_def SSTATUS_SPP_def)

theorem ecall_set_occupied_witness:
  "\<exists>u. usertrap (calling 24 2) = Ret (MAKE_SATP (p_pagetable (procs kern0 ! 0))) u \<and> returns_to 4 u \<and>
    tf_get 0 TF_a0 u = 0 \<and> light_on (rooms u ! 2) = LIGHT_ON"
proof -
  have "light_ready (calling 24 2)" using light1_ready by (simp add: light_ready_def calling_def)
  then show ?thesis
    using ecall_set_occupied[OF calling_entry, of 24 2 2] calling_args
    by (auto simp: calling_def light_ready_def)
qed

theorem ecall_unknown_witness:
  "\<exists>u out. usertrap (calling 99 2) = Ret (MAKE_SATP (p_pagetable (procs kern0 ! 0))) u \<and> returns_to 4 u \<and>
    tf_get 0 TF_a0 u = -1 \<and> trap_writes 0 out (calling 99 2) u"
proof -
  have "tty_ok (hw (calling 99 2))"
    by (simp add: calling_def tty_ok_def hw0_def with_proc_def set_mycpu_def LSR_TX_IDLE_def)
  then have "\<exists>u out. usertrap (calling 99 2) = Ret (MAKE_SATP (p_pagetable (procs (calling 99 2) ! 0))) u \<and>
      returns_to (0 + 4) u \<and> tf_get 0 TF_a0 u = -1 \<and> unknown_call (procs (calling 99 2) ! 0) 99 out \<and>
      trap_writes 0 out (calling 99 2) u"
    by (intro ecall_unknown[OF calling_entry]) (simp_all add: calling_args, simp add: calling_def)
  then show ?thesis by (auto simp: calling_def)
qed

text \<open>One tick after the kitchen was lit, the call with the limit 1 turns the light off.\<close>

definition shutting :: trapst where
  "shutting = (calling 27 1)\<lparr>ticks := 8, rooms := rooms light2\<rparr>"

lemma shutting_ready: "user_entry 0 0 shutting" "light_inv shutting" "lighting_initialized shutting \<noteq> 0"
proof -
  show "user_entry 0 0 shutting"
    using calling_entry[of 27 1]
    by (simp add: shutting_def user_entry_def tf_ok_def r_sstatus_def mycsr_def)
  have "light_inv light2" using light2_reach by (rule light_sys.reach_inv)
  moreover have "light_env (with_proc q hw0)" for q
    using light_env_hw0 by (simp add: light_env_def tty_ok_def) (simp add: with_proc_def hw_defs)
  ultimately show "light_inv shutting"
    by (simp add: shutting_def calling_def light_inv_def)
  show "lighting_initialized shutting \<noteq> 0" by (simp add: shutting_def calling_def)
qed

theorem ecall_auto_shutoff_witness:
  "\<exists>u. usertrap shutting = Ret (MAKE_SATP (p_pagetable (procs shutting ! 0))) u \<and> returns_to 4 u \<and>
    light_on (rooms u ! 1) = LIGHT_OFF"
proof -
  have a: "sint (ucast (tf_get 0 TF_a7 shutting) :: u32) = 27" "sint (ucast (tf_get 0 TF_a0 shutting) :: u32) = 1"
    using calling_args[of 27 1] by (simp_all add: shutting_def tf_get_def)
  obtain u where u: "usertrap shutting = Ret (MAKE_SATP (p_pagetable (procs shutting ! 0))) u" "returns_to (0 + 4) u"
    "trap_writes 0 [] (shutting\<lparr>rooms := map (\<lambda>r. if light_on r = LIGHT_ON \<and> light_on_since r \<noteq> 0 \<and>
        1 \<le> unat (ticks shutting - light_on_since r)
        then r\<lparr>light_on := LIGHT_OFF, light_on_since := 0\<rparr> else r) (rooms shutting)\<rparr>) u"
    using ecall_auto_shutoff[OF shutting_ready a, of 1] by auto
  have "light_on (rooms u ! 1) = LIGHT_OFF"
    using u(3) by (auto simp: trap_writes_def shutting_def light2_def light1_def light0_def upt_rec init_room_def)
  with u(1,2) show ?thesis by simp
qed

end
