(* ===== verification/ArgSpec.thy ===== *)
theory ArgSpec
  imports States
begin

text \<open>
  What \<open>argstr\<close> gives to the system call handlers: a terminated string inside the handler's
  buffer, whatever user memory holds.
\<close>

section \<open>Strings from user memory\<close>

lemma copystr_loop_null:
  "copystr_loop xs = (bs, True) \<Longrightarrow> (\<exists>us. bs = us @ [0] \<and> 0 \<notin> set us) \<and> length bs \<le> length xs"
  by (induction xs arbitrary: bs) (fastforce simp: Cons_eq_append_conv split: if_splits prod.splits)+

lemma copystr_loop_none: "copystr_loop xs = (bs, False) \<Longrightarrow> bs = xs \<and> 0 \<notin> set xs"
  by (induction xs arbitrary: bs) (auto split: if_splits prod.splits)

lemma rd_bytes_length [simp]: "length (rd_bytes m a n) = n"
  by (simp add: rd_bytes_def)

lemma copyinstr_string:
  "copyinstr pt va mx s = Ret (r, bs) t \<Longrightarrow>
    r = -1 \<or> r = 0 \<and> (\<exists>us. bs = us @ [0] \<and> 0 \<notin> set us) \<and> length bs \<le> mx"
proof (induction pt va mx s arbitrary: r bs t rule: copyinstr.induct)
  case (1 pt va mx s)
  show ?case
  proof (cases "mx = 0")
    case True
    then show ?thesis using "1.prems" by (simp add: copyinstr.simps)
  next
    case False
    obtain pa0 u where w: "walkaddr pt (PGROUNDDOWN va) s = Ret pa0 u"
      using "1.prems" False by (cases "walkaddr pt (PGROUNDDOWN va) s") (auto simp: copyinstr.simps[of _ _ mx] Let_def)
    let ?n = "min (page_room va) mx"
    obtain cs nul where c: "copystr_loop (rd_bytes (mem u) (pa0 + (va - PGROUNDDOWN va)) ?n) = (cs, nul)" by fastforce
    show ?thesis
    proof (cases "pa0 = 0 \<or> nul")
      case True
      then show ?thesis
        using "1.prems" False w c copystr_loop_null[of _ cs] by (fastforce simp: copyinstr.simps[of _ _ mx] Let_def split: if_splits)
    next
      case nn: False
      then obtain rest v where rec: "copyinstr pt (PGROUNDDOWN va + of_nat PGSIZE) (mx - ?n) u = Ret (r, rest) v" and bs: "bs = cs @ rest"
        using "1.prems" False w c
        by (cases "copyinstr pt (PGROUNDDOWN va + of_nat PGSIZE) (mx - ?n) u") (auto simp: copyinstr.simps[of _ _ mx] Let_def)
      have "cs = rd_bytes (mem u) (pa0 + (va - PGROUNDDOWN va)) ?n" "0 \<notin> set cs"
        using copystr_loop_none[of _ cs] c nn by auto
      moreover from this(1) have "length cs = ?n" by simp
      ultimately show ?thesis
        using "1.IH"[OF False refl w _ refl c[symmetric] refl _ rec] nn bs by fastforce
    qed
  qed
qed

lemma walkaddr_returns: "\<exists>r. walkaddr pt va s = Ret r s"
proof -
  have "\<exists>r. walk_loop l q va False s = Ret r s" for l q
    by (induction l arbitrary: q) (simp_all add: Let_def)
  then obtain r where "walk_loop 2 pt va False s = Ret r s" by blast
  then show ?thesis by (simp add: walkaddr_def walk_def)
qed

lemma copyinstr_returns: "\<exists>r bs. copyinstr pt va mx s = Ret (r, bs) s"
proof (induction pt va mx s rule: copyinstr.induct)
  case (1 pt va mx s)
  show ?case
  proof (cases "mx = 0")
    case True
    then show ?thesis by (simp add: copyinstr.simps)
  next
    case False
    obtain pa0 where w: "walkaddr pt (PGROUNDDOWN va) s = Ret pa0 s" using walkaddr_returns by blast
    let ?n = "min (page_room va) mx"
    obtain cs nul where c: "copystr_loop (rd_bytes (mem s) (pa0 + (va - PGROUNDDOWN va)) ?n) = (cs, nul)" by fastforce
    have "\<exists>r bs. copyinstr pt (PGROUNDDOWN va + of_nat PGSIZE) (mx - ?n) s = Ret (r, bs) s" if "pa0 \<noteq> 0" "\<not> nul"
      using "1.IH"[OF False refl w that(1) refl c[symmetric] refl that(2)] .
    then show ?thesis
      using False w c by (cases "pa0 = 0 \<or> nul") (auto simp: copyinstr.simps[of _ _ mx] Let_def)
  qed
qed

text \<open>A string that fills the first bytes of a buffer of \<open>mx\<close> bytes, with its length.\<close>

definition string_in :: "nat \<Rightarrow> nat \<Rightarrow> bytes \<Rightarrow> bool" where
  "string_in mx len bs \<longleftrightarrow> len < mx \<and> bs = cstr bs @ [NUL] \<and> length (cstr bs) = len"

lemma char_of_u8: "char_of (unat (b :: u8)) = NUL \<longleftrightarrow> b = 0"
proof -
  have "unat b < 256" using unsigned_less[of b, where 'a = nat] by simp
  then have "unat b mod 256 = unat b" by simp
  moreover have "char_of (unat b) = NUL \<longleftrightarrow> unat b mod 256 = 0"
    using of_char_eq_iff[of "char_of (unat b)" NUL, where 'a = nat] by simp
  ultimately show ?thesis by (simp add: unat_eq_0)
qed

lemma char_of_zero [simp]: "char_of (0 :: nat) = NUL"
  using char_of_u8[of 0] by simp

lemma string_in_chars:
  assumes "bs = us @ [0]" and "0 \<notin> set us" and "length bs \<le> mx"
  shows "strlen (chars bs) = Some (length us)" "string_in mx (length us) (chars bs)"
proof -
  have "\<forall>c\<in>set (chars us). c \<noteq> NUL" using assms(2) by (auto simp: char_of_u8)
  then have "cstr (chars bs) = chars us" by (simp add: cstr_def assms(1) takeWhile_append)
  moreover have "NUL \<in> set (chars bs)" by (simp add: assms(1))
  ultimately show "strlen (chars bs) = Some (length us)" "string_in mx (length us) (chars bs)"
    using assms(1,3) by (simp_all add: strlen_eq string_in_def)
qed

lemma fetchstr_ok:
  assumes "cpu_ok (hw s)" and "cpu_proc (mycpu (hw s)) = Some p"
  shows "\<exists>r. fetchstr addr mx s = Ret r (s\<lparr>hw := settle (hw s)\<rparr>) \<and>
    (case r of None \<Rightarrow> True | Some (len, bs) \<Rightarrow> string_in mx len bs)"
proof -
  let ?s = "s\<lparr>hw := settle (hw s)\<rparr>"
  obtain r bs where c: "copyinstr (p_pagetable (procs s ! p)) addr mx ?s = Ret (r, bs) ?s"
    using copyinstr_returns by blast
  consider "r = -1" | us where "r = 0" "bs = us @ [0]" "0 \<notin> set us" "length bs \<le> mx"
    using copyinstr_string[OF c] by blast
  then show ?thesis
  proof cases
    case 1
    then show ?thesis using c by (simp add: fetchstr_def curproc_ok[OF assms])
  next
    case 2
    then show ?thesis using c string_in_chars[OF 2(2-4)] by (simp add: fetchstr_def curproc_ok[OF assms] in_object_def)
  qed
qed

section \<open>Property\<close>

text \<open>
  C36: a system call handler that takes a string argument gets a well-formed one. For every
  process, whatever its page table and memory hold, \<open>argstr\<close> returns without a panic, either
  the error value or a string that is terminated inside the handler's buffer together with its
  length, so the string routines applied to it stay inside the buffer.
\<close>

theorem argstr_well_formed:
  fixes s :: "'z procst_scheme"
  assumes "cpu_ok (hw s)" and "cpu_proc (mycpu (hw s)) = Some p" and "n < 6"
  shows "\<exists>r. argstr n mx s = Ret r (s\<lparr>hw := settle (hw s)\<rparr>) \<and>
    (case r of None \<Rightarrow> True | Some (len, bs) \<Rightarrow> string_in mx len bs)"
proof -
  have "argaddr n s = Ret (tf_get p (TF_a0 + 8 * of_nat n) (s\<lparr>hw := settle (hw s)\<rparr>)) (s\<lparr>hw := settle (hw s)\<rparr>)"
    using assms(3) by (simp add: argaddr_def argraw_def curproc_ok[OF assms(1,2)])
  then show ?thesis
    using fetchstr_ok[of "s\<lparr>hw := settle (hw s)\<rparr>" p] assms by (simp add: argstr_def)
qed

text \<open>Process 0 passes the address of a page of zeros, the empty string.\<close>

definition amem :: memory where
  "amem = st64 um3 (slot 0x80007000 14) 0x5000"

definition arg0 :: trapst where
  "arg0 = kern0\<lparr>mem := amem, procs := (procs proc0)[0 := (procs proc0 ! 0)
     \<lparr>p_pagetable := 0x80001000, p_trapframe := 0x80007000\<rparr>]\<rparr>"

lemma arg0_simps [simp]: "hw arg0 = hw kern0" "mem arg0 = amem" "p_pagetable (procs arg0 ! 0) = 0x80001000"
  "p_trapframe (procs arg0 ! 0) = 0x80007000"
  by (simp_all add: arg0_def proc0_def procst.defs kmemst.defs NPROC_def del: replicate.simps)

lemma amem_zero: "amem 0x80006000 = 0"
  by (simp add: amem_def um3_def um2_def um1_def st64_def st_def slot_def)

lemma amem_walk: "mem s = amem \<Longrightarrow> walkaddr 0x80001000 0x5000 s = Ret 0x80006000 s"
proof -
  assume m: "mem s = amem"
  have "page_ok 0x80000000 0x80007000" by (simp add: page_ok_def PGSIZE_def PHYSTOP_def KERNBASE_def)
  then have eq: "page_eq um3 amem p" if "p \<in> tabs um3 2 0x80001000" for p
    unfolding amem_def using that vm0_pages by (intro page_eq_st64) (auto simp: um3_tabs)
  have "tree 0x80000000 amem 2 0x80001000" using tree_cong[OF eq] um3_tree by blast
  then show ?thesis
    using walkaddr_ok[of _ s "0x80001000" "0x5000"] m um3_upa(1)
    by (simp add: leaf_cong[OF eq] um3_leaf MAXVA_def upa_def)
      (simp add: PA2PTE_def PTE_R_def PTE_W_def PTE_U_def PTE_V_def)
qed

theorem argstr_well_formed_witness:
  "argstr 0 MAXPATH arg0 = Ret (Some (0, [NUL])) (arg0\<lparr>hw := settle (hw arg0)\<rparr>) \<and> string_in MAXPATH 0 [NUL]"
proof -
  have "\<exists>r. argstr 0 MAXPATH arg0 = Ret r (arg0\<lparr>hw := settle (hw arg0)\<rparr>) \<and>
    (case r of None \<Rightarrow> True | Some (len, bs) \<Rightarrow> string_in MAXPATH len bs)"
    by (rule argstr_well_formed[of arg0 0 0]) simp_all
  then obtain r where r: "argstr 0 MAXPATH arg0 = Ret r (arg0\<lparr>hw := settle (hw arg0)\<rparr>)"
      "case r of None \<Rightarrow> True | Some (len, bs) \<Rightarrow> string_in MAXPATH len bs" by blast
  let ?s = "arg0\<lparr>hw := settle (hw arg0)\<rparr>"
  have "tf_get 0 TF_a0 arg0 = ent amem 0x80007000 14" by (simp add: tf_get_def ent_def slot_def TF_a0_def)
  then have a: "tf_get 0 TF_a0 arg0 = 0x5000" by (simp add: amem_def ent_def)
  have d: "PGROUNDDOWN 0x5000 = 0x5000" by (simp add: PGROUNDDOWN_def PGSIZE_def)
  have "min (page_room 0x5000) MAXPATH = Suc 127" by (simp add: page_room_def d MAXPATH_def PGSIZE_def)
  then have "copystr_loop (rd_bytes amem 0x80006000 (min (page_room 0x5000) MAXPATH)) = ([0], True)"
    by (simp only:) (simp add: rd_bytes_def upt_conv_Cons amem_zero del: upt_Suc)
  then have "copyinstr 0x80001000 0x5000 MAXPATH ?s = Ret (0, [0]) ?s"
    using amem_walk[of ?s] by (subst copyinstr.simps) (simp add: Let_def d, simp add: MAXPATH_def)
  then have "argstr 0 MAXPATH arg0 = Ret (Some (0, [NUL])) ?s"
    using a by (simp add: argstr_def argaddr_def argraw_def fetchstr_def curproc_ok) (simp add: tf_get_def in_object_def)
  then show ?thesis using r by simp
qed

end
