(* ===== verification/Ulib.thy ===== *)
theory Ulib
  imports Sysfile
begin

text \<open>
  User programs and their library: the system calls of \<open>user/user.h\<close>, \<open>user/ulib.c\<close> and
  \<open>user/printf.c\<close>. A program is a function on the answers that the kernel gives to its system
  calls. It runs until it returns, until it calls \<open>exit\<close>, or until a call has no answer yet; the
  last two are blocked outcomes. The log lists the answered calls in order, so a program that
  never ends is described by its runs on ever longer lists of answers. A string that a program
  only reads is the list of its characters before the terminator.
\<close>

section \<open>System calls\<close>

datatype (plugins only: code size) ucall =
    Uc_fork
  | Uc_exit int
  | Uc_wait
  | Uc_pipe
  | Uc_write int "u8 list"
  | Uc_read int int
  | Uc_close int
  | Uc_kill int
  | Uc_exec bytes "bytes list"
  | Uc_open bytes int
  | Uc_mknod bytes int int
  | Uc_unlink bytes
  | Uc_fstat int
  | Uc_link bytes bytes
  | Uc_mkdir bytes
  | Uc_chdir bytes
  | Uc_dup int
  | Uc_getpid
  | Uc_sbrk int int
  | Uc_pause int
  | Uc_uptime
  | Uc_lighting_init
  | Uc_room_status int
  | Uc_set_occupied int
  | Uc_set_empty int
  | Uc_get_usage int
  | Uc_auto_shutoff int

text \<open>An answer is the value of the call and the bytes the kernel stored at the pointer argument.\<close>

datatype uresp = Rs (rs_val: int) (rs_data: "u8 list")

record ust =
  u_resp :: "uresp list"
  u_log :: "(ucall \<times> uresp) list"
  u_pend :: "ucall option"

definition sys :: "ucall \<Rightarrow> 'z ust_scheme \<Rightarrow> (int \<times> u8 list, 'z ust_scheme) res" where
  "sys c s =
     (case u_resp s of
        [] \<Rightarrow> Blocked (s\<lparr>u_pend := Some c\<rparr>)
      | r # rs \<Rightarrow> Ret (rs_val r, rs_data r) (s\<lparr>u_resp := rs, u_log := u_log s @ [(c, r)]\<rparr>))"

definition sysv :: "ucall \<Rightarrow> 'z ust_scheme \<Rightarrow> (int, 'z ust_scheme) res" where
  "sysv c s = bindr (sys c s) (\<lambda>(r, _) s. Ret r s)"

text \<open>\<open>exit\<close> does not return.\<close>

definition u_exit :: "int \<Rightarrow> 'z ust_scheme \<Rightarrow> ('a, 'z ust_scheme) res" where
  "u_exit n s = Blocked (s\<lparr>u_pend := Some (Uc_exit n)\<rparr>)"

section \<open>ulib.c\<close>

definition u_start :: "('z ust_scheme \<Rightarrow> (int, 'z ust_scheme) res) \<Rightarrow> 'z ust_scheme \<Rightarrow> (unit, 'z ust_scheme) res" where
  "u_start main s = bindr (main s) (\<lambda>r s. u_exit r s)"

text \<open>The arrays are written up to their end; \<open>None\<close> is an access outside of one.\<close>

fun u_strcpy :: "bytes \<Rightarrow> bytes \<Rightarrow> bytes option" where
  "u_strcpy [] t = None"
| "u_strcpy (x # s) [] = Some (NUL # s)"
| "u_strcpy (x # s) (c # t) = map_option ((#) c) (u_strcpy s t)"

fun u_strcmp :: "bytes \<Rightarrow> bytes \<Rightarrow> int" where
  "u_strcmp (c # p) (d # q) = (if c = d then u_strcmp p q else of_char c - of_char d)"
| "u_strcmp p q = of_char (hd0 p) - of_char (hd0 q)"

fun u_strlen :: "bytes \<Rightarrow> nat" where
  "u_strlen [] = 0"
| "u_strlen (c # s) = Suc (u_strlen s)"

fun u_memset :: "u8 list \<Rightarrow> u8 \<Rightarrow> nat \<Rightarrow> u8 list option" where
  "u_memset d c 0 = Some d"
| "u_memset [] c (Suc n) = None"
| "u_memset (x # d) c (Suc n) = map_option ((#) c) (u_memset d c n)"

text \<open>The rest of the string from the first occurrence of a character on.\<close>

fun u_strchr :: "bytes \<Rightarrow> char \<Rightarrow> bytes option" where
  "u_strchr [] c = None"
| "u_strchr (d # s) c = (if d = c then Some (d # s) else u_strchr s c)"

text \<open>\<open>gets\<close> with room for \<open>n\<close> characters more before the terminator.\<close>

fun gets_loop :: "nat \<Rightarrow> 'z ust_scheme \<Rightarrow> (bytes, 'z ust_scheme) res" where
  "gets_loop 0 s = Ret [] s"
| "gets_loop (Suc n) s =
     bindr (sys (Uc_read 0 1) s) (\<lambda>(cc, d) s.
     if cc < 1 then Ret [] s
     else
       bindr (in_object (case d of [] \<Rightarrow> None | b # _ \<Rightarrow> Some (char_of (unat b))) s) (\<lambda>c s.
       if c = CHR 0x0A \<or> c = CHR 0x0D then Ret [c] s
       else bindr (gets_loop n s) (\<lambda>cs s. Ret (c # cs) s)))"

text \<open>The array of \<open>max\<close> characters after the call.\<close>

definition gets :: "bytes \<Rightarrow> 'z ust_scheme \<Rightarrow> (bytes, 'z ust_scheme) res" where
  "gets buf s =
     bindr (gets_loop (length buf - 1) s) (\<lambda>cs s.
     bindr (in_object (if length cs < length buf then Some (cs @ NUL # drop (Suc (length cs)) buf) else None) s) (\<lambda>buf s.
     Ret buf s))"

definition u_stat :: "bytes \<Rightarrow> 'z ust_scheme \<Rightarrow> (int \<times> u8 list, 'z ust_scheme) res" where
  "u_stat n s =
     bindr (sysv (Uc_open n O_RDONLY) s) (\<lambda>fd s.
     if fd < 0 then Ret (-1, []) s
     else
       bindr (sys (Uc_fstat fd) s) (\<lambda>(r, d) s.
       bindr (sysv (Uc_close fd) s) (\<lambda>_ s.
       Ret (r, d) s)))"

text \<open>C \<open>int\<close> arithmetic of the decimal digits, at its 32 bits.\<close>

definition is_digit :: "char \<Rightarrow> bool" where
  "is_digit c \<longleftrightarrow> (of_char CHR ''0'' :: nat) \<le> of_char c \<and> (of_char c :: nat) \<le> of_char CHR ''9''"

fun atoi_loop :: "u32 \<Rightarrow> bytes \<Rightarrow> u32" where
  "atoi_loop n [] = n"
| "atoi_loop n (c # s) =
     (if is_digit c then atoi_loop (n * 10 + of_nat (of_char c) - of_nat (of_char CHR ''0'')) s else n)"

definition atoi :: "bytes \<Rightarrow> int" where
  "atoi s = sint (atoi_loop 0 s)"

definition u_memmove :: "memory \<Rightarrow> u64 \<Rightarrow> u64 \<Rightarrow> nat \<Rightarrow> memory" where
  "u_memmove m dst src n =
     (if src > dst then copy_fwd m dst src n
      else copy_bwd m (dst + of_nat n) (src + of_nat n) n)"

fun u_memcmp :: "u8 list \<Rightarrow> u8 list \<Rightarrow> nat \<Rightarrow> int option" where
  "u_memcmp s1 s2 0 = Some 0"
| "u_memcmp (a # s1) (b # s2) (Suc n) = (if a \<noteq> b then Some (int (unat a) - int (unat b)) else u_memcmp s1 s2 n)"
| "u_memcmp _ _ (Suc n) = None"

definition u_memcpy :: "memory \<Rightarrow> u64 \<Rightarrow> u64 \<Rightarrow> nat \<Rightarrow> memory" where
  "u_memcpy m dst src n = u_memmove m dst src n"

definition SBRK_LAZY :: int where "SBRK_LAZY = 2"

definition u_sbrk :: "int \<Rightarrow> 'z ust_scheme \<Rightarrow> (u64, 'z ust_scheme) res" where
  "u_sbrk n s = bindr (sysv (Uc_sbrk n SBRK_EAGER) s) (\<lambda>r s. Ret (word_of_int r) s)"

definition u_sbrklazy :: "int \<Rightarrow> 'z ust_scheme \<Rightarrow> (u64, 'z ust_scheme) res" where
  "u_sbrklazy n s = bindr (sysv (Uc_sbrk n SBRK_LAZY) s) (\<lambda>r s. Ret (word_of_int r) s)"

section \<open>printf.c\<close>

definition u_digits :: bytes where
  "u_digits = ''0123456789ABCDEF''"

definition u_putc :: "int \<Rightarrow> char \<Rightarrow> 'z ust_scheme \<Rightarrow> (unit, 'z ust_scheme) res" where
  "u_putc fd c s = bindr (sysv (Uc_write fd (octets [c])) s) (\<lambda>_ s. Ret () s)"

fun u_puts :: "int \<Rightarrow> bytes \<Rightarrow> 'z ust_scheme \<Rightarrow> (unit, 'z ust_scheme) res" where
  "u_puts fd [] s = Ret () s"
| "u_puts fd (c # cs) s = bindr (u_putc fd c s) (\<lambda>_ s. u_puts fd cs s)"

text \<open>The array \<open>buf\<close> of \<open>printint\<close>, least significant digit first.\<close>

function u_printint_buf :: "nat \<Rightarrow> nat \<Rightarrow> bytes" where
  "u_printint_buf base x =
     u_digits ! (x mod base) # (if x div base \<noteq> 0 \<and> 2 \<le> base then u_printint_buf base (x div base) else [])"
  by pat_completeness auto
termination
  by (relation "measure snd") (auto intro!: div_less_dividend gr0I)

declare u_printint_buf.simps [simp del]

definition u_printint :: "u64 \<Rightarrow> nat \<Rightarrow> bool \<Rightarrow> bytes" where
  "u_printint xx base sg =
     (let neg = (sg \<and> sint xx < 0);
          x = (if neg then - xx else xx)
      in rev (u_printint_buf base (unat x) @ (if neg then [CHR ''-''] else [])))"

fun u_printptr_loop :: "nat \<Rightarrow> u64 \<Rightarrow> bytes" where
  "u_printptr_loop 0 x = []"
| "u_printptr_loop (Suc n) x = u_digits ! unat (drop_bit 60 x) # u_printptr_loop n (push_bit 4 x)"

definition u_printptr :: "u64 \<Rightarrow> bytes" where
  "u_printptr x = [CHR ''0'', CHR ''x''] @ u_printptr_loop 16 x"

text \<open>One conversion: what it prints, the format characters it uses, the arguments left.\<close>

definition vprintf_conv :: "char \<Rightarrow> char \<Rightarrow> char \<Rightarrow> varg list \<Rightarrow> (bytes \<times> nat \<times> varg list) option" where
  "vprintf_conv c0 c1 c2 ap =
     (let num = (\<lambda>cast base sg n. map_option (\<lambda>(x, ap). (u_printint (cast x) base sg, n, ap)) (va_word ap)) in
      if c0 = CHR ''d'' then num va_int 10 True 1
      else if c0 = CHR ''l'' \<and> c1 = CHR ''d'' then num id 10 True 2
      else if c0 = CHR ''l'' \<and> c1 = CHR ''l'' \<and> c2 = CHR ''d'' then num id 10 True 3
      else if c0 = CHR ''u'' then num va_uint32 10 False 1
      else if c0 = CHR ''l'' \<and> c1 = CHR ''u'' then num id 10 False 2
      else if c0 = CHR ''l'' \<and> c1 = CHR ''l'' \<and> c2 = CHR ''u'' then num id 10 False 3
      else if c0 = CHR ''x'' then num va_uint32 16 False 1
      else if c0 = CHR ''l'' \<and> c1 = CHR ''x'' then num id 16 False 2
      else if c0 = CHR ''l'' \<and> c1 = CHR ''l'' \<and> c2 = CHR ''x'' then num id 16 False 3
      else if c0 = CHR ''p'' then map_option (\<lambda>(x, ap). (u_printptr x, 1, ap)) (va_word ap)
      else if c0 = CHR ''c'' then map_option (\<lambda>(x, ap). ([char_of (uint x)], 1, ap)) (va_word ap)
      else if c0 = CHR ''s'' then map_option (\<lambda>(t, ap). (t, 1, ap)) (va_str ap)
      else if c0 = CHR ''%'' then Some (''%'', 1, ap)
      else Some ([CHR ''%'', c0], 1, ap))"

text \<open>The characters of one call; \<open>None\<close> is an argument that is missing or of the wrong kind.\<close>

function vprintf_chars :: "bytes \<Rightarrow> varg list \<Rightarrow> bytes option" where
  "vprintf_chars [] ap = Some []"
| "vprintf_chars (c # f) ap =
     (if c \<noteq> CHR ''%'' then map_option ((#) c) (vprintf_chars f ap)
      else if f = [] then Some []
      else case vprintf_conv (hd0 f) (hd0 (drop 1 f)) (hd0 (drop 2 f)) ap of
             None \<Rightarrow> None
           | Some (out, n, ap) \<Rightarrow> map_option ((@) out) (vprintf_chars (drop n f) ap))"
  by pat_completeness auto
termination
  by (relation "measure (\<lambda>(f, ap). length f)") auto

definition u_vprintf :: "int \<Rightarrow> bytes \<Rightarrow> varg list \<Rightarrow> 'z ust_scheme \<Rightarrow> (unit, 'z ust_scheme) res" where
  "u_vprintf fd fmt ap s =
     (case vprintf_chars fmt ap of
        None \<Rightarrow> Panic ''undefined: va_arg''
      | Some out \<Rightarrow> u_puts fd out s)"

definition u_fprintf :: "int \<Rightarrow> bytes \<Rightarrow> varg list \<Rightarrow> 'z ust_scheme \<Rightarrow> (unit, 'z ust_scheme) res" where
  "u_fprintf fd fmt ap s = u_vprintf fd fmt ap s"

definition u_printf :: "bytes \<Rightarrow> varg list \<Rightarrow> 'z ust_scheme \<Rightarrow> (unit, 'z ust_scheme) res" where
  "u_printf fmt ap s = u_vprintf 1 fmt ap s"

section \<open>Runs\<close>

definition logged :: "'z ust_scheme \<Rightarrow> 'z ust_scheme \<Rightarrow> (ucall \<times> uresp) list" where
  "logged s t = drop (length (u_log s)) (u_log t)"

end
