(* ===== verification/Uprogs.thy ===== *)
theory Uprogs
  imports Ulib
begin

text \<open>
  The user programs on the library: \<open>user/cat.c\<close>, \<open>wc.c\<close>, \<open>echo.c\<close>, \<open>grep.c\<close>, \<open>kill.c\<close>, \<open>ln.c\<close>,
  \<open>mkdir.c\<close>, \<open>rm.c\<close>, \<open>ls.c\<close> and \<open>init.c\<close>. A loop of system calls ends because each turn uses an
  answer. Global arrays are passed along.
\<close>

section \<open>Answers are used up\<close>

lemma sys_shrinks: "sys c s = Ret r t \<Longrightarrow> length (u_resp t) < length (u_resp s)"
  by (auto simp: sys_def split: list.splits)

lemma sysv_shrinks: "sysv c s = Ret r t \<Longrightarrow> length (u_resp t) < length (u_resp s)"
  by (auto simp: sysv_def bindr_Ret_iff dest: sys_shrinks)

lemma u_puts_shrinks: "u_puts fd cs s = Ret r t \<Longrightarrow> length (u_resp t) \<le> length (u_resp s)"
  by (induction cs arbitrary: s) (fastforce simp: u_putc_def bindr_Ret_iff dest: sysv_shrinks)+

lemma u_printf_shrinks: "u_printf f ap s = Ret r t \<Longrightarrow> length (u_resp t) \<le> length (u_resp s)"
  by (auto simp: u_printf_def u_vprintf_def dest: u_puts_shrinks split: option.splits)

lemma in_object_resp: "in_object x s = Ret r t \<Longrightarrow> length (u_resp t) = length (u_resp s)"
  by (auto simp: in_object_def split: option.splits)

abbreviation NL :: char where "NL \<equiv> CHR 0x0A"

text \<open>An array after bytes were stored at an offset, and the first bytes of an array.\<close>

definition fill :: "'a list \<Rightarrow> nat \<Rightarrow> 'a list \<Rightarrow> 'a list" where
  "fill buf off d = take off buf @ d @ drop (off + length d) buf"

definition first :: "'a list \<Rightarrow> int \<Rightarrow> 'a list option" where
  "first buf n = (if nat n \<le> length buf then Some (take (nat n) buf) else None)"

section \<open>cat\<close>

function cat_loop :: "int \<Rightarrow> u8 list \<Rightarrow> 'z ust_scheme \<Rightarrow> (int \<times> u8 list, 'z ust_scheme) res" where
  "cat_loop fd buf s =
     bindr (sys (Uc_read fd 512) s) (\<lambda>x s.
     let n = fst x; buf = fill buf 0 (snd x) in
     if n > 0 then
       bindr (in_object (first buf n) s) (\<lambda>w s.
       bindr (sysv (Uc_write 1 w) s) (\<lambda>m s.
       if m \<noteq> n then bindr (u_fprintf 2 (''cat: write error'' @ [NL]) [] s) (\<lambda>_ s. u_exit 1 s)
       else cat_loop fd buf s))
     else Ret (n, buf) s)"
  by pat_completeness auto
termination
  by (relation "measure (\<lambda>(_, _, s). length (u_resp s))") (auto dest!: sys_shrinks sysv_shrinks in_object_resp)

declare cat_loop.simps [simp del]

definition cat :: "int \<Rightarrow> u8 list \<Rightarrow> 'z ust_scheme \<Rightarrow> (u8 list, 'z ust_scheme) res" where
  "cat fd buf s =
     bindr (cat_loop fd buf s) (\<lambda>(n, buf) s.
     if n < 0 then bindr (u_fprintf 2 (''cat: read error'' @ [NL]) [] s) (\<lambda>_ s. u_exit 1 s)
     else Ret buf s)"

fun cat_files :: "bytes list \<Rightarrow> u8 list \<Rightarrow> 'z ust_scheme \<Rightarrow> (unit, 'z ust_scheme) res" where
  "cat_files [] buf s = u_exit 0 s"
| "cat_files (a # args) buf s =
     bindr (sysv (Uc_open a O_RDONLY) s) (\<lambda>fd s.
     if fd < 0 then
       bindr (u_fprintf 2 (''cat: cannot open %s'' @ [NL]) [VStr (Some a)] s) (\<lambda>_ s. u_exit 1 s)
     else
       bindr (cat fd buf s) (\<lambda>buf s.
       bindr (sysv (Uc_close fd) s) (\<lambda>_ s. cat_files args buf s)))"

definition cat_main :: "bytes list \<Rightarrow> 'z ust_scheme \<Rightarrow> (unit, 'z ust_scheme) res" where
  "cat_main argv s =
     (if length argv \<le> 1 then bindr (cat 0 (replicate 512 0) s) (\<lambda>_ s. u_exit 0 s)
      else cat_files (tl argv) (replicate 512 0) s)"

section \<open>wc\<close>

text \<open>The counters of lines, words and characters, and whether a word is open.\<close>

fun wc_count :: "u8 list \<Rightarrow> u32 \<times> u32 \<times> u32 \<times> bool \<Rightarrow> u32 \<times> u32 \<times> u32 \<times> bool" where
  "wc_count [] x = x"
| "wc_count (b # bs) (l, w, c, inword) =
     (let ch = char_of (unat b);
          c = c + 1;
          l = (if ch = NL then l + 1 else l) in
      if u_strchr [CHR '' '', CHR 0x0D, CHR 0x09, NL, CHR 0x0B] ch \<noteq> None then wc_count bs (l, w, c, False)
      else if \<not> inword then wc_count bs (l, w + 1, c, True)
      else wc_count bs (l, w, c, inword))"

function wc_loop :: "int \<Rightarrow> u8 list \<Rightarrow> u32 \<times> u32 \<times> u32 \<times> bool \<Rightarrow> 'z ust_scheme \<Rightarrow>
    (int \<times> u8 list \<times> (u32 \<times> u32 \<times> u32 \<times> bool), 'z ust_scheme) res" where
  "wc_loop fd buf x s =
     bindr (sys (Uc_read fd 512) s) (\<lambda>r s.
     let n = fst r; buf = fill buf 0 (snd r) in
     if n > 0 then bindr (in_object (first buf n) s) (\<lambda>w s. wc_loop fd buf (wc_count w x) s)
     else Ret (n, buf, x) s)"
  by pat_completeness auto
termination
  by (relation "measure (\<lambda>(_, _, _, s). length (u_resp s))") (auto dest!: sys_shrinks in_object_resp)

declare wc_loop.simps [simp del]

definition wc :: "int \<Rightarrow> bytes \<Rightarrow> u8 list \<Rightarrow> 'z ust_scheme \<Rightarrow> (u8 list, 'z ust_scheme) res" where
  "wc fd name buf s =
     bindr (wc_loop fd buf (0, 0, 0, False) s) (\<lambda>(n, buf, l, w, c, _) s.
     if n < 0 then bindr (u_printf (''wc: read error'' @ [NL]) [] s) (\<lambda>_ s. u_exit 1 s)
     else
       bindr (u_printf (''%d %d %d %s'' @ [NL]) [VInt (ucast l), VInt (ucast w), VInt (ucast c), VStr (Some name)] s) (\<lambda>_ s.
       Ret buf s))"

fun wc_files :: "bytes list \<Rightarrow> u8 list \<Rightarrow> 'z ust_scheme \<Rightarrow> (unit, 'z ust_scheme) res" where
  "wc_files [] buf s = u_exit 0 s"
| "wc_files (a # args) buf s =
     bindr (sysv (Uc_open a O_RDONLY) s) (\<lambda>fd s.
     if fd < 0 then bindr (u_printf (''wc: cannot open %s'' @ [NL]) [VStr (Some a)] s) (\<lambda>_ s. u_exit 1 s)
     else
       bindr (wc fd a buf s) (\<lambda>buf s.
       bindr (sysv (Uc_close fd) s) (\<lambda>_ s. wc_files args buf s)))"

definition wc_main :: "bytes list \<Rightarrow> 'z ust_scheme \<Rightarrow> (unit, 'z ust_scheme) res" where
  "wc_main argv s =
     (if length argv \<le> 1 then bindr (wc 0 [] (replicate 512 0) s) (\<lambda>_ s. u_exit 0 s)
      else wc_files (tl argv) (replicate 512 0) s)"

section \<open>echo, kill, ln, mkdir, rm\<close>

fun echo_args :: "bytes list \<Rightarrow> 'z ust_scheme \<Rightarrow> (unit, 'z ust_scheme) res" where
  "echo_args [] s = u_exit 0 s"
| "echo_args (a # args) s =
     bindr (sysv (Uc_write 1 (octets (take (u_strlen a) a))) s) (\<lambda>_ s.
     bindr (if args \<noteq> [] then sysv (Uc_write 1 (octets '' '')) s else sysv (Uc_write 1 (octets [NL])) s) (\<lambda>_ s.
     echo_args args s))"

definition echo_main :: "bytes list \<Rightarrow> 'z ust_scheme \<Rightarrow> (unit, 'z ust_scheme) res" where
  "echo_main argv s = echo_args (tl argv) s"

fun kill_args :: "bytes list \<Rightarrow> 'z ust_scheme \<Rightarrow> (unit, 'z ust_scheme) res" where
  "kill_args [] s = u_exit 0 s"
| "kill_args (a # args) s = bindr (sysv (Uc_kill (atoi a)) s) (\<lambda>_ s. kill_args args s)"

definition kill_main :: "bytes list \<Rightarrow> 'z ust_scheme \<Rightarrow> (unit, 'z ust_scheme) res" where
  "kill_main argv s =
     (if length argv < 2 then bindr (u_fprintf 2 (''usage: kill pid...'' @ [NL]) [] s) (\<lambda>_ s. u_exit 1 s)
      else kill_args (tl argv) s)"

definition ln_main :: "bytes list \<Rightarrow> 'z ust_scheme \<Rightarrow> (unit, 'z ust_scheme) res" where
  "ln_main argv s =
     (if length argv \<noteq> 3 then bindr (u_fprintf 2 (''Usage: ln old new'' @ [NL]) [] s) (\<lambda>_ s. u_exit 1 s)
      else
        bindr (sysv (Uc_link (argv ! 1) (argv ! 2)) s) (\<lambda>r s.
        bindr (if r < 0
               then u_fprintf 2 (''link %s %s: failed'' @ [NL]) [VStr (Some (argv ! 1)), VStr (Some (argv ! 2))] s
               else Ret () s) (\<lambda>_ s.
        u_exit 0 s)))"

fun mkdir_args :: "bytes list \<Rightarrow> 'z ust_scheme \<Rightarrow> (unit, 'z ust_scheme) res" where
  "mkdir_args [] s = u_exit 0 s"
| "mkdir_args (a # args) s =
     bindr (sysv (Uc_mkdir a) s) (\<lambda>r s.
     if r < 0 then bindr (u_fprintf 2 (''mkdir: %s failed to create'' @ [NL]) [VStr (Some a)] s) (\<lambda>_ s. u_exit 0 s)
     else mkdir_args args s)"

definition mkdir_main :: "bytes list \<Rightarrow> 'z ust_scheme \<Rightarrow> (unit, 'z ust_scheme) res" where
  "mkdir_main argv s =
     (if length argv < 2 then bindr (u_fprintf 2 (''Usage: mkdir files...'' @ [NL]) [] s) (\<lambda>_ s. u_exit 1 s)
      else mkdir_args (tl argv) s)"

fun rm_args :: "bytes list \<Rightarrow> 'z ust_scheme \<Rightarrow> (unit, 'z ust_scheme) res" where
  "rm_args [] s = u_exit 0 s"
| "rm_args (a # args) s =
     bindr (sysv (Uc_unlink a) s) (\<lambda>r s.
     if r < 0 then bindr (u_fprintf 2 (''rm: %s failed to delete'' @ [NL]) [VStr (Some a)] s) (\<lambda>_ s. u_exit 0 s)
     else rm_args args s)"

definition rm_main :: "bytes list \<Rightarrow> 'z ust_scheme \<Rightarrow> (unit, 'z ust_scheme) res" where
  "rm_main argv s =
     (if length argv < 2 then bindr (u_fprintf 2 (''Usage: rm files...'' @ [NL]) [] s) (\<lambda>_ s. u_exit 1 s)
      else rm_args (tl argv) s)"

section \<open>grep\<close>

text \<open>The matcher, on a pattern and a text that end at their last character.\<close>

function (sequential) matchhere :: "bytes \<Rightarrow> bytes \<Rightarrow> bool" and matchstar :: "char \<Rightarrow> bytes \<Rightarrow> bytes \<Rightarrow> bool" where
  "matchhere re text =
     (if re = [] then True
      else if hd0 (tl re) = CHR ''*'' then matchstar (hd re) (tl (tl re)) text
      else if hd re = CHR ''$'' \<and> tl re = [] then text = []
      else if text \<noteq> [] \<and> (hd re = CHR ''.'' \<or> hd re = hd text) then matchhere (tl re) (tl text)
      else False)"
| "matchstar c re text =
     (if matchhere re text then True
      else if text \<noteq> [] \<and> (hd text = c \<or> c = CHR ''.'') then matchstar c re (tl text)
      else False)"
  by pat_completeness auto
termination
proof (relation "measures [\<lambda>x. case x of Inl (re, _) \<Rightarrow> 2 * length re | Inr (_, re, _) \<Rightarrow> 2 * length re + 1,
    \<lambda>x. case x of Inl (_, text) \<Rightarrow> length text | Inr (_, _, text) \<Rightarrow> length text]", goal_cases)
  case (2 re t)
  then show ?case by (cases re; cases "tl re") (auto simp: hd0_def)
qed (auto simp: neq_Nil_conv)

declare matchhere.simps [simp del] matchstar.simps [simp del]

fun match_any :: "bytes \<Rightarrow> bytes \<Rightarrow> bool" where
  "match_any re [] = matchhere re []"
| "match_any re (c # text) = (if matchhere re (c # text) then True else match_any re text)"

definition match :: "bytes \<Rightarrow> bytes \<Rightarrow> bool" where
  "match re text = (if hd0 re = CHR ''^'' then matchhere (tl re) text else match_any re text)"

text \<open>
  The lines of the buffer from offset \<open>p\<close> on. The buffer is the array of 1024 characters; the
  terminator after the bytes read ends the search for a newline. The result is the buffer and
  the offset of the first character after the last newline.
\<close>

fun strchr_at :: "bytes \<Rightarrow> char \<Rightarrow> nat \<Rightarrow> nat option option" where
  "strchr_at [] c i = None"
| "strchr_at (d # s) c i = (if d = NUL then Some None else if d = c then Some (Some i) else strchr_at s c (Suc i))"

definition find_nl :: "bytes \<Rightarrow> nat \<Rightarrow> nat option option" where
  "find_nl buf p = strchr_at (drop p buf) NL p"

lemma strchr_at_bounds: "strchr_at s c i = Some (Some q) \<Longrightarrow> i \<le> q \<and> q < i + length s"
  by (induction s c i rule: strchr_at.induct) (auto split: if_splits)

lemma find_nl_bounds: "find_nl buf p = Some (Some q) \<Longrightarrow> p \<le> q \<and> q < length buf"
  by (auto simp: find_nl_def dest!: strchr_at_bounds)

function grep_lines :: "bytes \<Rightarrow> bytes \<Rightarrow> nat \<Rightarrow> 'z ust_scheme \<Rightarrow> (bytes \<times> nat, 'z ust_scheme) res" where
  "grep_lines pattern buf p s =
     (case find_nl buf p of
        None \<Rightarrow> Panic ''out of bounds''
      | Some None \<Rightarrow> Ret (buf, p) s
      | Some (Some q) \<Rightarrow>
          let buf = buf[q := NUL] in
          if match pattern (cstr (drop p buf)) then
            let buf = buf[q := NL] in
            bindr (sysv (Uc_write 1 (octets (take (q + 1 - p) (drop p buf)))) s) (\<lambda>_ s.
            grep_lines pattern buf (q + 1) s)
          else grep_lines pattern buf (q + 1) s)"
  by pat_completeness auto
termination
  by (relation "measure (\<lambda>(_, buf, p, _). length buf - p)") (auto dest: find_nl_bounds)

declare grep_lines.simps [simp del]

lemma grep_lines_shrinks: "grep_lines pattern buf p s = Ret r t \<Longrightarrow> length (u_resp t) \<le> length (u_resp s)"
proof (induction pattern buf p s arbitrary: r t rule: grep_lines.induct)
  case (1 pattern buf p s)
  then show ?case
    by (subst (asm) (3) grep_lines.simps)
      (fastforce simp: Let_def bindr_Ret_iff dest: sysv_shrinks split: option.splits if_splits)
qed

function grep_loop :: "bytes \<Rightarrow> int \<Rightarrow> bytes \<Rightarrow> nat \<Rightarrow> 'z ust_scheme \<Rightarrow> (bytes, 'z ust_scheme) res" where
  "grep_loop pattern fd buf m s =
     bindr (sys (Uc_read fd (int 1024 - int m - 1)) s) (\<lambda>x s.
     let n = fst x; buf = fill buf m (chars (snd x)) in
     if n > 0 then
       let m = m + nat n in
       if m \<ge> length buf then Panic ''out of bounds''
       else
         bindr (grep_lines pattern (buf[m := NUL]) 0 s) (\<lambda>y s.
         let buf = fst y; p = snd y in
         if m > 0 then grep_loop pattern fd (fill buf 0 (take (m - p) (drop p buf))) (m - p) s
         else grep_loop pattern fd buf m s)
     else Ret buf s)"
  by pat_completeness auto
termination
  by (relation "measure (\<lambda>(_, _, _, _, s). length (u_resp s))") (auto dest!: sys_shrinks grep_lines_shrinks)

declare grep_loop.simps [simp del]

definition grep :: "bytes \<Rightarrow> int \<Rightarrow> bytes \<Rightarrow> 'z ust_scheme \<Rightarrow> (bytes, 'z ust_scheme) res" where
  "grep pattern fd buf s = grep_loop pattern fd buf 0 s"

fun grep_files :: "bytes \<Rightarrow> bytes list \<Rightarrow> bytes \<Rightarrow> 'z ust_scheme \<Rightarrow> (unit, 'z ust_scheme) res" where
  "grep_files pattern [] buf s = u_exit 0 s"
| "grep_files pattern (a # args) buf s =
     bindr (sysv (Uc_open a O_RDONLY) s) (\<lambda>fd s.
     if fd < 0 then bindr (u_printf (''grep: cannot open %s'' @ [NL]) [VStr (Some a)] s) (\<lambda>_ s. u_exit 1 s)
     else
       bindr (grep pattern fd buf s) (\<lambda>buf s.
       bindr (sysv (Uc_close fd) s) (\<lambda>_ s. grep_files pattern args buf s)))"

definition grep_main :: "bytes list \<Rightarrow> 'z ust_scheme \<Rightarrow> (unit, 'z ust_scheme) res" where
  "grep_main argv s =
     (if length argv \<le> 1 then bindr (u_fprintf 2 (''usage: grep pattern [file ...]'' @ [NL]) [] s) (\<lambda>_ s. u_exit 1 s)
      else if length argv \<le> 2 then bindr (grep (argv ! 1) 0 (replicate 1024 NUL) s) (\<lambda>_ s. u_exit 0 s)
      else grep_files (argv ! 1) (drop 2 argv) (replicate 1024 NUL) s)"

section \<open>ls\<close>

text \<open>The characters after the last slash, and the name padded with blanks to \<open>DIRSIZ\<close>.\<close>

definition after_slash :: "bytes \<Rightarrow> bytes" where
  "after_slash path = rev (takeWhile (\<lambda>c. c \<noteq> CHR ''/'') (rev path))"

definition fmtname :: "bytes \<Rightarrow> bytes" where
  "fmtname path =
     (let p = after_slash path in
      if u_strlen p \<ge> DIRSIZ then p else p @ replicate (DIRSIZ - u_strlen p) CHR '' '')"

text \<open>The fields of the structure that \<open>fstat\<close> fills: type, inode number, size.\<close>

definition stat_fields :: "u8 list \<Rightarrow> (u16 \<times> u32 \<times> u64) option" where
  "stat_fields d = (if length d = 24 then Some (get16 d 8, get32 d 4, get64 d 16) else None)"

definition ls_line :: "bytes \<Rightarrow> u16 \<times> u32 \<times> u64 \<Rightarrow> 'z ust_scheme \<Rightarrow> (unit, 'z ust_scheme) res" where
  "ls_line path x s =
     (case x of (ty, inum, sz) \<Rightarrow>
        u_printf (''%s %d %d %d'' @ [NL]) [VStr (Some (fmtname path)), VInt (scast ty), VInt (ucast inum), VInt sz] s)"

lemma u_stat_shrinks: "u_stat n s = Ret r t \<Longrightarrow> length (u_resp t) < length (u_resp s)"
  by (fastforce simp: u_stat_def bindr_Ret_iff dest: sys_shrinks sysv_shrinks split: if_splits prod.splits)

lemma ls_line_shrinks: "ls_line p x s = Ret r t \<Longrightarrow> length (u_resp t) \<le> length (u_resp s)"
  by (auto simp: ls_line_def split: prod.splits dest: u_printf_shrinks)

text \<open>The loop over the entries of a directory; \<open>path\<close> is the prefix with its slash.\<close>

function ls_entries :: "int \<Rightarrow> bytes \<Rightarrow> 'z ust_scheme \<Rightarrow> (unit, 'z ust_scheme) res" where
  "ls_entries fd path s =
     bindr (sys (Uc_read fd (int DIRENT_SIZE)) s) (\<lambda>x s.
     if fst x \<noteq> int DIRENT_SIZE then Ret () s
     else
       bindr (in_object (if length (snd x) = DIRENT_SIZE then Some (get16 (snd x) 0, cstr (chars (drop 2 (snd x)))) else None) s) (\<lambda>de s.
       if fst de = 0 then ls_entries fd path s
       else
         let file = path @ snd de in
         bindr (u_stat file s) (\<lambda>st s.
         bindr (if fst st < 0 then u_printf (''ls: cannot stat %s'' @ [NL]) [VStr (Some file)] s
                else bindr (in_object (stat_fields (snd st)) s) (\<lambda>x s. ls_line file x s)) (\<lambda>_ s.
         ls_entries fd path s))))"
  by pat_completeness auto
termination
  by (relation "measure (\<lambda>(_, _, s). length (u_resp s))")
    (auto dest!: sys_shrinks in_object_resp u_stat_shrinks simp: bindr_Ret_iff split: if_splits dest: u_printf_shrinks ls_line_shrinks)

declare ls_entries.simps [simp del]

definition ls :: "bytes \<Rightarrow> 'z ust_scheme \<Rightarrow> (unit, 'z ust_scheme) res" where
  "ls path s =
     bindr (sysv (Uc_open path O_RDONLY) s) (\<lambda>fd s.
     if fd < 0 then u_fprintf 2 (''ls: cannot open %s'' @ [NL]) [VStr (Some path)] s
     else
       bindr (sys (Uc_fstat fd) s) (\<lambda>(r, d) s.
       if r < 0 then
         bindr (u_fprintf 2 (''ls: cannot stat %s'' @ [NL]) [VStr (Some path)] s) (\<lambda>_ s.
         bindr (sysv (Uc_close fd) s) (\<lambda>_ s. Ret () s))
       else
         bindr (in_object (stat_fields d) s) (\<lambda>(ty, inum, sz) s.
         bindr (if ty = T_DEVICE \<or> ty = T_FILE then ls_line path (ty, inum, sz) s
                else if ty = T_DIR then
                  if u_strlen path + 1 + DIRSIZ + 1 > 512 then u_printf (''ls: path too long'' @ [NL]) [] s
                  else ls_entries fd (path @ ''/'') s
                else Ret () s) (\<lambda>_ s.
         bindr (sysv (Uc_close fd) s) (\<lambda>_ s. Ret () s)))))"

fun ls_args :: "bytes list \<Rightarrow> 'z ust_scheme \<Rightarrow> (unit, 'z ust_scheme) res" where
  "ls_args [] s = u_exit 0 s"
| "ls_args (a # args) s = bindr (ls a s) (\<lambda>_ s. ls_args args s)"

definition ls_main :: "bytes list \<Rightarrow> 'z ust_scheme \<Rightarrow> (unit, 'z ust_scheme) res" where
  "ls_main argv s =
     (if length argv < 2 then bindr (ls ''.'' s) (\<lambda>_ s. u_exit 0 s)
      else ls_args (tl argv) s)"

section \<open>init\<close>

text \<open>The inner loop: wait until the shell has exited.\<close>

function init_wait :: "int \<Rightarrow> 'z ust_scheme \<Rightarrow> (unit, 'z ust_scheme) res" where
  "init_wait pid s =
     bindr (sysv Uc_wait s) (\<lambda>wpid s.
     if wpid = pid then Ret () s
     else if wpid < 0 then bindr (u_printf (''init: wait returned an error'' @ [NL]) [] s) (\<lambda>_ s. u_exit 1 s)
     else init_wait pid s)"
  by pat_completeness auto
termination
  by (relation "measure (\<lambda>(_, s). length (u_resp s))") (auto dest!: sysv_shrinks)

declare init_wait.simps [simp del]

lemma init_wait_shrinks: "init_wait pid s = Ret r t \<Longrightarrow> length (u_resp t) < length (u_resp s)"
proof (induction pid s arbitrary: r t rule: init_wait.induct)
  case (1 pid s)
  then show ?case
    by (subst (asm) (2) init_wait.simps) (fastforce simp: bindr_Ret_iff u_exit_def dest: sysv_shrinks split: if_splits)
qed

function init_loop :: "'z ust_scheme \<Rightarrow> (unit, 'z ust_scheme) res" where
  "init_loop s =
     bindr (u_printf (''init: starting sh'' @ [NL]) [] s) (\<lambda>_ s.
     bindr (sysv Uc_fork s) (\<lambda>pid s.
     if pid < 0 then bindr (u_printf (''init: fork failed'' @ [NL]) [] s) (\<lambda>_ s. u_exit 1 s)
     else if pid = 0 then
       bindr (sysv (Uc_exec ''sh'' [''sh'']) s) (\<lambda>_ s.
       bindr (u_printf (''init: exec sh failed'' @ [NL]) [] s) (\<lambda>_ s. u_exit 1 s))
     else bindr (init_wait pid s) (\<lambda>_ s. init_loop s)))"
  by pat_completeness auto
termination
  by (relation "measure (\<lambda>s. length (u_resp s))") (auto dest!: sysv_shrinks u_printf_shrinks init_wait_shrinks)

declare init_loop.simps [simp del]

definition init_main :: "'z ust_scheme \<Rightarrow> (unit, 'z ust_scheme) res" where
  "init_main s =
     bindr (sysv (Uc_open ''console'' (uint O_RDWR)) s) (\<lambda>fd s.
     bindr (if fd < 0 then
              bindr (sysv (Uc_mknod ''console'' (int CONSOLE) 0) s) (\<lambda>_ s.
              bindr (sysv (Uc_open ''console'' (uint O_RDWR)) s) (\<lambda>_ s. Ret () s))
            else Ret () s) (\<lambda>_ s.
     bindr (sysv (Uc_dup 0) s) (\<lambda>_ s.
     bindr (sysv (Uc_dup 0) s) (\<lambda>_ s.
     init_loop s))))"

end
