(* ===== verification/Ulights.thy ===== *)
theory Ulights
  imports Uprogs
begin

text \<open>
  The programs of the smart lighting system: \<open>user/lightctl.c\<close>, \<open>user/roomctl.c\<close>,
  \<open>user/energymon.c\<close> and \<open>user/autoshutoff.c\<close>. Each program has its own static copy of
  \<open>streq\<close> and \<open>myatoi\<close>, and two of them of \<open>print_header\<close> and \<open>print_room\<close>; the copies are
  the same text and are defined once here.
\<close>

section \<open>Helpers\<close>

fun streq :: "bytes \<Rightarrow> bytes \<Rightarrow> bool" where
  "streq (a # as) (b # bs) = (if a = b then streq as bs else False)"
| "streq as bs = (as = [] \<and> bs = [])"

fun myatoi_loop :: "u32 \<Rightarrow> bytes \<Rightarrow> u32" where
  "myatoi_loop n [] = n"
| "myatoi_loop n (c # s) =
     (if is_digit c then myatoi_loop (n * 10 + (of_nat (of_char c) - of_nat (of_char CHR ''0''))) s else n)"

definition myatoi :: "bytes \<Rightarrow> int" where
  "myatoi s = sint (myatoi_loop 0 s)"

text \<open>The structure that \<open>room_status\<close> fills, read from its bytes; the name ends inside of it.\<close>

record uroom =
  ur_name :: bytes
  ur_light_on :: u32
  ur_occupied :: u32
  ur_usage :: u32

definition room_fields :: "u8 list \<Rightarrow> uroom option" where
  "room_fields d =
     (if length d \<noteq> ROOM_NAME_MAX + 12 then None
      else map_option (\<lambda>n. \<lparr>ur_name = take n (chars d), ur_light_on = get32 d ROOM_NAME_MAX,
             ur_occupied = get32 d (ROOM_NAME_MAX + 4), ur_usage = get32 d (ROOM_NAME_MAX + 8)\<rparr>) (strlen (chars d)))"

definition emdash :: bytes where
  "emdash = [CHR 0xE2, CHR 0x80, CHR 0x94]"

definition light_word :: "uroom \<Rightarrow> bytes" where
  "light_word x = (if sint (ur_light_on x) = LIGHT_ON then ''ON'' else ''OFF'')"

section \<open>lightctl\<close>

definition print_header :: "'z ust_scheme \<Rightarrow> (unit, 'z ust_scheme) res" where
  "print_header s =
     bindr (u_printf (''  ID  Room            Light  Occupancy   Usage (ticks)'' @ [NL]) [] s) (\<lambda>_ s.
     u_printf (''  -------------------------------------------------------'' @ [NL]) [] s)"

definition print_room :: "int \<Rightarrow> uroom \<Rightarrow> 'z ust_scheme \<Rightarrow> (unit, 'z ust_scheme) res" where
  "print_room i rs s =
     u_printf (''  %d   %s: %s, %s, %u ticks'' @ [NL])
       [VInt (word_of_int i), VStr (Some (ur_name rs)), VStr (Some (light_word rs)),
        VStr (Some (if sint (ur_occupied rs) = ROOM_OCCUPIED then ''OCCUPIED'' else ''EMPTY'')),
        VInt (ucast (ur_usage rs))] s"

text \<open>The rooms for which \<open>room_status\<close> succeeds.\<close>

definition list_room :: "nat \<Rightarrow> 'z ust_scheme \<Rightarrow> (unit, 'z ust_scheme) res" where
  "list_room i s =
     bindr (sys (Uc_room_status (int i)) s) (\<lambda>(r, d) s.
     if r = 0 then bindr (in_object (room_fields d) s) (\<lambda>rs s. print_room (int i) rs s)
     else Ret () s)"

definition lightctl_status :: "bytes list \<Rightarrow> 'z ust_scheme \<Rightarrow> (unit, 'z ust_scheme) res" where
  "lightctl_status argv s =
     bindr (u_printf ([NL] @ ''=== Smart Lighting System '' @ emdash @ '' Room Overview ==='' @ [NL]) [] s) (\<lambda>_ s.
     bindr (print_header s) (\<lambda>_ s.
     bindr (if length argv \<ge> 3 then
              let i = myatoi (argv ! 2) in
              bindr (sys (Uc_room_status i) s) (\<lambda>(r, d) s.
              if r < 0 then
                bindr (u_printf (''lightctl: invalid room id %d'' @ [NL]) [VInt (word_of_int i)] s) (\<lambda>_ s. u_exit 1 s)
              else bindr (in_object (room_fields d) s) (\<lambda>rs s. print_room i rs s))
            else for_upto 0 NUM_ROOMS list_room s) (\<lambda>_ s.
     u_printf (''  ====================================================='' @ [NL, NL]) [] s)))"

definition lightctl_main :: "bytes list \<Rightarrow> 'z ust_scheme \<Rightarrow> (unit, 'z ust_scheme) res" where
  "lightctl_main argv s =
     bindr (if length argv < 2 \<or> streq (argv ! 1) ''status'' then lightctl_status argv s
            else if streq (argv ! 1) ''init'' then
              bindr (sysv Uc_lighting_init s) (\<lambda>_ s.
              u_printf (''lightctl: lighting system initialized (%d rooms).'' @ [NL]) [VInt (of_nat NUM_ROOMS)] s)
            else
              bindr (u_printf (''lightctl: unknown command '' @ [CHR 0x27] @ ''%s'' @ [CHR 0x27] @ [NL]) [VStr (Some (argv ! 1))] s) (\<lambda>_ s.
              bindr (u_printf (''Usage: lightctl [init | status [roomid]]'' @ [NL]) [] s) (\<lambda>_ s.
              u_exit 1 s))) (\<lambda>_ s.
     u_exit 0 s)"

section \<open>roomctl\<close>

definition cmd_list :: "'z ust_scheme \<Rightarrow> (unit, 'z ust_scheme) res" where
  "cmd_list s =
     bindr (u_printf ([NL] @ ''=== Smart Lighting '' @ emdash @ '' Room Status ==='' @ [NL]) [] s) (\<lambda>_ s.
     bindr (print_header s) (\<lambda>_ s.
     bindr (for_upto 0 NUM_ROOMS list_room s) (\<lambda>_ s.
     u_printf (''  ====================================================='' @ [NL, NL]) [] s)))"

text \<open>
  The two commands that change a room. The second call is not checked: when it fails the name
  printed is that of an uninitialised structure.
\<close>

definition bad_id :: "int \<Rightarrow> 'z ust_scheme \<Rightarrow> (unit, 'z ust_scheme) res" where
  "bad_id roomid s =
     bindr (u_printf (''roomctl: invalid room id %d  (valid: 0-%d)'' @ [NL])
       [VInt (word_of_int roomid), VInt (of_nat (NUM_ROOMS - 1))] s) (\<lambda>_ s. u_exit 1 s)"

definition cmd_occupied :: "int \<Rightarrow> 'z ust_scheme \<Rightarrow> (unit, 'z ust_scheme) res" where
  "cmd_occupied roomid s =
     bindr (sysv (Uc_set_occupied roomid) s) (\<lambda>r s.
     if r < 0 then bad_id roomid s
     else
       bindr (sys (Uc_room_status roomid) s) (\<lambda>(_, d) s.
       bindr (in_object (room_fields d) s) (\<lambda>rs s.
       u_printf (''roomctl: room '' @ [CHR 0x27] @ ''%s'' @ [CHR 0x27] @ '' is now OCCUPIED '' @ emdash @ '' light turned ON.'' @ [NL])
         [VStr (Some (ur_name rs))] s)))"

definition cmd_empty :: "int \<Rightarrow> 'z ust_scheme \<Rightarrow> (unit, 'z ust_scheme) res" where
  "cmd_empty roomid s =
     bindr (sysv (Uc_set_empty roomid) s) (\<lambda>r s.
     if r < 0 then bad_id roomid s
     else
       bindr (sys (Uc_room_status roomid) s) (\<lambda>(_, d) s.
       bindr (in_object (room_fields d) s) (\<lambda>rs s.
       u_printf (''roomctl: room '' @ [CHR 0x27] @ ''%s'' @ [CHR 0x27] @ '' is now EMPTY '' @ emdash @ '' light turned OFF.'' @ [NL])
         [VStr (Some (ur_name rs))] s)))"

definition roomctl_usage :: "'z ust_scheme \<Rightarrow> (unit, 'z ust_scheme) res" where
  "roomctl_usage s =
     bindr (u_printf (''Usage:'' @ [NL]) [] s) (\<lambda>_ s.
     bindr (u_printf (''  roomctl                    show all room statuses'' @ [NL]) [] s) (\<lambda>_ s.
     bindr (u_printf (''  roomctl list               show all room statuses'' @ [NL]) [] s) (\<lambda>_ s.
     bindr (u_printf (''  roomctl occupied <id>      mark room occupied  (light ON)'' @ [NL]) [] s) (\<lambda>_ s.
     bindr (u_printf (''  roomctl empty    <id>      mark room empty     (light OFF)'' @ [NL]) [] s) (\<lambda>_ s.
     u_printf ([NL] @ ''Room IDs: 0=Living Room  1=Kitchen  2=Bedroom  3=Bathroom  4=Office'' @ [NL]) [] s)))))"

definition roomctl_main :: "bytes list \<Rightarrow> 'z ust_scheme \<Rightarrow> (unit, 'z ust_scheme) res" where
  "roomctl_main argv s =
     (let needs_id = (\<lambda>word s.
            bindr (u_printf (''roomctl: '' @ [CHR 0x27] @ word @ [CHR 0x27] @ '' requires a room id'' @ [NL]) [] s) (\<lambda>_ s.
            bindr (roomctl_usage s) (\<lambda>_ s. u_exit 1 s))) in
      bindr (if length argv < 2 \<or> streq (argv ! 1) ''list'' then cmd_list s
             else if streq (argv ! 1) ''occupied'' then
               if length argv < 3 then needs_id ''occupied'' s else cmd_occupied (myatoi (argv ! 2)) s
             else if streq (argv ! 1) ''empty'' then
               if length argv < 3 then needs_id ''empty'' s else cmd_empty (myatoi (argv ! 2)) s
             else if streq (argv ! 1) ''help'' \<or> streq (argv ! 1) ''-h'' then roomctl_usage s
             else
               bindr (u_printf (''roomctl: unknown command '' @ [CHR 0x27] @ ''%s'' @ [CHR 0x27] @ [NL]) [VStr (Some (argv ! 1))] s) (\<lambda>_ s.
               bindr (roomctl_usage s) (\<lambda>_ s. u_exit 1 s))) (\<lambda>_ s.
      u_exit 0 s))"

section \<open>energymon\<close>

fun energymon_rooms :: "nat \<Rightarrow> nat \<Rightarrow> u32 \<Rightarrow> 'z ust_scheme \<Rightarrow> (u32, 'z ust_scheme) res" where
  "energymon_rooms i 0 tot s = Ret tot s"
| "energymon_rooms i (Suc n) tot s =
     bindr (sys (Uc_room_status (int i)) s) (\<lambda>(r, d) s.
     if r = 0 then
       bindr (in_object (room_fields d) s) (\<lambda>rs s.
       bindr (u_printf (''  %d   %s: %u ticks (%s)'' @ [NL])
         [VInt (of_nat i), VStr (Some (ur_name rs)), VInt (ucast (ur_usage rs)), VStr (Some (light_word rs))] s) (\<lambda>_ s.
       energymon_rooms (Suc i) n (tot + ur_usage rs) s))
     else energymon_rooms (Suc i) n tot s)"

definition energymon_all :: "'z ust_scheme \<Rightarrow> (unit, 'z ust_scheme) res" where
  "energymon_all s =
     bindr (u_printf ([NL] @ ''=== Energy Usage Report ==='' @ [NL]) [] s) (\<lambda>_ s.
     bindr (u_printf (''  ID  Room            Usage (ticks)  Light'' @ [NL]) [] s) (\<lambda>_ s.
     bindr (u_printf (''  ------------------------------------------'' @ [NL]) [] s) (\<lambda>_ s.
     bindr (energymon_rooms 0 NUM_ROOMS 0 s) (\<lambda>tot s.
     bindr (u_printf (''  ------------------------------------------'' @ [NL]) [] s) (\<lambda>_ s.
     bindr (u_printf (''  TOTAL HOUSE USAGE: %u ticks'' @ [NL]) [VInt (ucast tot)] s) (\<lambda>_ s.
     u_printf (''  =========================================='' @ [NL, NL]) [] s))))))"

definition energymon_main :: "bytes list \<Rightarrow> 'z ust_scheme \<Rightarrow> (unit, 'z ust_scheme) res" where
  "energymon_main argv s =
     bindr (if length argv \<ge> 2 \<and> streq (argv ! 1) ''total'' then
              bindr (sysv (Uc_get_usage (-1)) s) (\<lambda>tot s.
              u_printf (''Total house energy usage: %u ticks'' @ [NL]) [VInt (ucast (word_of_int tot :: u32))] s)
            else if length argv \<ge> 2 \<and> is_digit (hd0 (argv ! 1)) then
              let roomid = myatoi (argv ! 1) in
              bindr (sys (Uc_room_status roomid) s) (\<lambda>(r, d) s.
              if r < 0 then
                bindr (u_printf (''energymon: invalid room id %d'' @ [NL]) [VInt (word_of_int roomid)] s) (\<lambda>_ s. u_exit 1 s)
              else
                bindr (in_object (room_fields d) s) (\<lambda>rs s.
                u_printf (''Room '' @ [CHR 0x27] @ ''%s'' @ [CHR 0x27] @ '' energy usage: %u ticks (light is %s)'' @ [NL])
                  [VStr (Some (ur_name rs)), VInt (ucast (ur_usage rs)), VStr (Some (light_word rs))] s))
            else energymon_all s) (\<lambda>_ s.
     u_exit 0 s)"

section \<open>autoshutoff\<close>

definition autoshutoff_main :: "bytes list \<Rightarrow> 'z ust_scheme \<Rightarrow> (unit, 'z ust_scheme) res" where
  "autoshutoff_main argv s =
     (let timeout = (if length argv \<ge> 2 then myatoi (argv ! 1) else 0) in
      bindr (u_printf (''autoshutoff: applying max-on-time policy (MAX_LIGHT_ON_TICKS=%d)...'' @ [NL])
        [VInt (word_of_int MAX_LIGHT_ON_TICKS)] s) (\<lambda>_ s.
      bindr (sysv (Uc_auto_shutoff timeout) s) (\<lambda>count s.
      bindr (if count = 0
             then u_printf (''autoshutoff: no action needed '' @ emdash @ '' system is already efficient!'' @ [NL]) [] s
             else u_printf (''autoshutoff: turned off lights in %d room(s) '' @ emdash @ '' energy saved!'' @ [NL])
                    [VInt (word_of_int count)] s) (\<lambda>_ s.
      u_exit 0 s))))"

end
