(* ===== verification/Umalloc.thy ===== *)
theory Umalloc
  imports Ulib
begin

text \<open>
  The storage allocator of user programs, \<open>user/umalloc.c\<close>: a circular list of free blocks in
  address order, in the memory of the process. A header is 16 bytes: the link, then the size of
  the block in units of a header. A loop over a list that does not close is a loop that runs
  forever, the outcome \<open>Spin\<close>.
\<close>

section \<open>Headers\<close>

record umst = ust +
  umem :: memory
  u_base :: u64
  u_freep :: u64

definition HDR :: nat where "HDR = 16"

definition h_ptr :: "memory \<Rightarrow> u64 \<Rightarrow> u64" where
  "h_ptr m p = ld64 m p"

definition h_size :: "memory \<Rightarrow> u64 \<Rightarrow> u32" where
  "h_size m p = of_nat (ld 4 m (p + 8))"

definition set_ptr :: "u64 \<Rightarrow> u64 \<Rightarrow> memory \<Rightarrow> memory" where
  "set_ptr p v m = st64 m p v"

definition set_size :: "u64 \<Rightarrow> u32 \<Rightarrow> memory \<Rightarrow> memory" where
  "set_size p v m = st 4 m (p + 8) (unat v)"

definition h_add :: "u64 \<Rightarrow> u32 \<Rightarrow> u64" where
  "h_add p n = p + of_nat HDR * ucast n"

section \<open>Operations\<close>

text \<open>The loop of \<open>free\<close> that finds the block to insert after.\<close>

partial_function (option) free_find :: "memory \<Rightarrow> u64 \<Rightarrow> u64 \<Rightarrow> u64 option" where
  "free_find m bp p =
     (if bp > p \<and> bp < h_ptr m p then Some p
      else if p \<ge> h_ptr m p \<and> (bp > p \<or> bp < h_ptr m p) then Some p
      else free_find m bp (h_ptr m p))"

definition free_link :: "u64 \<Rightarrow> u64 \<Rightarrow> memory \<Rightarrow> memory" where
  "free_link bp p m =
     (let m = (if h_add bp (h_size m bp) = h_ptr m p then
                 let m = set_size bp (h_size m bp + h_size m (h_ptr m p)) m in
                 set_ptr bp (h_ptr m (h_ptr m p)) m
               else set_ptr bp (h_ptr m p) m) in
      if h_add p (h_size m p) = bp then
        let m = set_size p (h_size m p + h_size m bp) m in
        set_ptr p (h_ptr m bp) m
      else set_ptr p bp m)"

definition u_free :: "u64 \<Rightarrow> 'z umst_scheme \<Rightarrow> (unit, 'z umst_scheme) res" where
  "u_free ap s =
     (let bp = ap - of_nat HDR in
      case free_find (umem s) bp (u_freep s) of
        None \<Rightarrow> Spin s
      | Some p \<Rightarrow> Ret () (s\<lparr>umem := free_link bp p (umem s), u_freep := p\<rparr>))"

text \<open>The argument of \<open>sbrk\<close> is the product converted to \<open>int\<close>.\<close>

definition morecore :: "u32 \<Rightarrow> 'z umst_scheme \<Rightarrow> (u64, 'z umst_scheme) res" where
  "morecore nu s =
     (let nu = (if nu < 4096 then 4096 else nu) in
      bindr (u_sbrk (sint (ucast (ucast nu * of_nat HDR :: u64) :: u32)) s) (\<lambda>p s.
      if p = -1 then Ret 0 s
      else
        let s = s\<lparr>umem := set_size p nu (umem s)\<rparr> in
        bindr (u_free (p + of_nat HDR) s) (\<lambda>_ s. Ret (u_freep s) s)))"

text \<open>
  The loop of \<open>malloc\<close> up to a block that is large enough, or up to the block where the last
  search ended; the result says which, with the block before.
\<close>

partial_function (option) malloc_scan :: "memory \<Rightarrow> u64 \<Rightarrow> u32 \<Rightarrow> u64 \<Rightarrow> u64 \<Rightarrow> (bool \<times> u64 \<times> u64) option" where
  "malloc_scan m freep nunits prevp p =
     (if h_size m p \<ge> nunits then Some (True, prevp, p)
      else if p = freep then Some (False, prevp, p)
      else malloc_scan m freep nunits p (h_ptr m p))"

definition malloc_take :: "u32 \<Rightarrow> u64 \<Rightarrow> u64 \<Rightarrow> 'z umst_scheme \<Rightarrow> (u64, 'z umst_scheme) res" where
  "malloc_take nunits prevp p s =
     (let m = umem s;
          (p, m) = (if h_size m p = nunits then (p, set_ptr prevp (h_ptr m p) m)
                    else
                      let m = set_size p (h_size m p - nunits) m;
                          p = h_add p (h_size m p)
                      in (p, set_size p nunits m))
      in Ret (p + of_nat HDR) (s\<lparr>umem := m, u_freep := prevp\<rparr>))"

lemma morecore_resp:
  "morecore nu s = Ret r t \<Longrightarrow> length (u_resp t) < length (u_resp s)"
  by (auto simp: morecore_def u_sbrk_def sysv_def sys_def u_free_def Let_def bindr_Ret_iff split: list.splits if_splits option.splits)

function malloc_loop :: "u32 \<Rightarrow> u64 \<Rightarrow> 'z umst_scheme \<Rightarrow> (u64, 'z umst_scheme) res" where
  "malloc_loop nunits prevp s =
     (case malloc_scan (umem s) (u_freep s) nunits prevp (h_ptr (umem s) prevp) of
        None \<Rightarrow> Spin s
      | Some (True, prevp, p) \<Rightarrow> malloc_take nunits prevp p s
      | Some (False, _, _) \<Rightarrow>
          bindr (morecore nunits s) (\<lambda>p s. if p = 0 then Ret 0 s else malloc_loop nunits p s))"
  by pat_completeness auto
termination
  by (relation "measure (\<lambda>(_, _, s). length (u_resp s))") (auto dest: morecore_resp)

declare malloc_loop.simps [simp del]

definition nunits_of :: "u32 \<Rightarrow> u32" where
  "nunits_of nbytes = ucast ((ucast nbytes + of_nat HDR - 1) div of_nat HDR + 1 :: u64)"

definition u_malloc :: "u32 \<Rightarrow> 'z umst_scheme \<Rightarrow> (u64, 'z umst_scheme) res" where
  "u_malloc nbytes s =
     (let s = (if u_freep s = 0
               then s\<lparr>umem := set_size (u_base s) 0 (set_ptr (u_base s) (u_base s) (umem s)), u_freep := u_base s\<rparr>
               else s)
      in malloc_loop (nunits_of nbytes) (u_freep s) s)"

end
