(* ===== verification/Sh.thy ===== *)
theory Sh
  imports Umalloc Uprogs
begin

text \<open>
  The shell, \<open>user/sh.c\<close>. Commands are objects that \<open>malloc\<close> gave memory to, kept in a store by
  their address: a command that redirections already point to gets its arguments later. A pointer
  into the line is an index of the buffer. The parser does not write the buffer, which is an
  argument of it; \<open>nulterminate\<close> does. A dereference of an address without an object is a fault.
\<close>

unbundle bit_operations_syntax

section \<open>Commands\<close>

definition MAXARGS :: nat where "MAXARGS = 10"

datatype cnode =
    Execcmd "nat option list" "nat option list"
  | Redircmd u64 nat nat int int
  | Pipecmd u64 u64
  | Listcmd u64 u64
  | Backcmd u64

record shst = umst +
  sh_buf :: bytes
  sh_cmds :: "u64 \<rightharpoonup> cnode"

definition sh_panic :: "bytes \<Rightarrow> 'z ust_scheme \<Rightarrow> ('a, 'z ust_scheme) res" where
  "sh_panic m s = bindr (u_fprintf 2 (''%s'' @ [NL]) [VStr (Some m)] s) (\<lambda>_ s. u_exit 1 s)"

definition fork1 :: "'z ust_scheme \<Rightarrow> (int, 'z ust_scheme) res" where
  "fork1 s = bindr (sysv Uc_fork s) (\<lambda>pid s. if pid = -1 then sh_panic ''fork'' s else Ret pid s)"

text \<open>
  What the constructors share: memory for the object, which is cleared and filled. The result of
  \<open>malloc\<close> is not checked, so that a null pointer faults when it is cleared.
\<close>

definition newcmd :: "u32 \<Rightarrow> cnode \<Rightarrow> 'z shst_scheme \<Rightarrow> (u64, 'z shst_scheme) res" where
  "newcmd n c s =
     bindr (u_malloc n s) (\<lambda>p s.
     if p = 0 then Panic ''page fault'' else Ret p (s\<lparr>sh_cmds := (sh_cmds s)(p \<mapsto> c)\<rparr>))"

definition execcmd :: "'z shst_scheme \<Rightarrow> (u64, 'z shst_scheme) res" where
  "execcmd s = newcmd 168 (Execcmd (replicate MAXARGS None) (replicate MAXARGS None)) s"

definition redircmd :: "u64 \<Rightarrow> nat \<Rightarrow> nat \<Rightarrow> int \<Rightarrow> int \<Rightarrow> 'z shst_scheme \<Rightarrow> (u64, 'z shst_scheme) res" where
  "redircmd subcmd q eq mode fd s = newcmd 40 (Redircmd subcmd q eq mode fd) s"

definition pipecmd :: "u64 \<Rightarrow> u64 \<Rightarrow> 'z shst_scheme \<Rightarrow> (u64, 'z shst_scheme) res" where
  "pipecmd left right s = newcmd 24 (Pipecmd left right) s"

definition listcmd :: "u64 \<Rightarrow> u64 \<Rightarrow> 'z shst_scheme \<Rightarrow> (u64, 'z shst_scheme) res" where
  "listcmd left right s = newcmd 24 (Listcmd left right) s"

definition backcmd :: "u64 \<Rightarrow> 'z shst_scheme \<Rightarrow> (u64, 'z shst_scheme) res" where
  "backcmd subcmd s = newcmd 16 (Backcmd subcmd) s"

section \<open>Tokens\<close>

definition whitespace :: bytes where
  "whitespace = [CHR '' '', CHR 0x09, CHR 0x0D, CHR 0x0A, CHR 0x0B]"

definition symbols :: bytes where
  "symbols = ''<|>&;()''"

text \<open>The character at an index; the parser stays at or before the terminator.\<close>

definition char_at :: "bytes \<Rightarrow> nat \<Rightarrow> char" where
  "char_at b i = (if i < length b then b ! i else NUL)"

function skip_ws :: "bytes \<Rightarrow> nat \<Rightarrow> nat \<Rightarrow> nat" where
  "skip_ws b es s = (if s < es \<and> u_strchr whitespace (char_at b s) \<noteq> None then skip_ws b es (s + 1) else s)"
  by pat_completeness auto
termination
  by (relation "measure (\<lambda>(_, es, s). es - s)") auto

function word_end :: "bytes \<Rightarrow> nat \<Rightarrow> nat \<Rightarrow> nat" where
  "word_end b es s =
     (if s < es \<and> u_strchr whitespace (char_at b s) = None \<and> u_strchr symbols (char_at b s) = None
      then word_end b es (s + 1) else s)"
  by pat_completeness auto
termination
  by (relation "measure (\<lambda>(_, es, s). es - s)") auto

declare skip_ws.simps [simp del] word_end.simps [simp del]

text \<open>The kind of the token, its start and its end, and the index after it.\<close>

definition gettoken :: "bytes \<Rightarrow> nat \<Rightarrow> nat \<Rightarrow> char \<times> nat \<times> nat \<times> nat" where
  "gettoken b es s =
     (let q = skip_ws b es s;
          c = char_at b q;
          (ret, eq) =
            (if c = NUL then (c, q)
             else if c \<in> {CHR ''|'', CHR ''('', CHR '')'', CHR '';'', CHR ''&'', CHR ''<''} then (c, q + 1)
             else if c = CHR ''>'' then
               if char_at b (q + 1) = CHR ''>'' then (CHR ''+'', q + 2) else (c, q + 1)
             else (CHR ''a'', word_end b es q))
      in (ret, q, eq, skip_ws b es eq))"

definition peek :: "bytes \<Rightarrow> nat \<Rightarrow> bytes \<Rightarrow> nat \<Rightarrow> bool \<times> nat" where
  "peek b es toks s =
     (let s = skip_ws b es s in (char_at b s \<noteq> NUL \<and> u_strchr toks (char_at b s) \<noteq> None, s))"

lemma skip_ws_ge: "s \<le> skip_ws b es s"
proof (induction b es s rule: skip_ws.induct)
  case (1 b es s)
  then show ?case by (auto simp: skip_ws.simps[of b es s])
qed

lemma word_end_ge: "s \<le> word_end b es s"
proof (induction b es s rule: word_end.induct)
  case (1 b es s)
  then show ?case by (auto simp: word_end.simps[of b es s])
qed

lemma gettoken_ge: "gettoken b es s = (c, q, eq, s') \<Longrightarrow> s \<le> q \<and> q \<le> eq \<and> eq \<le> s'"
  using skip_ws_ge[of s b es] skip_ws_ge[of eq b es] word_end_ge[of "skip_ws b es s" b es]
  by (auto simp: gettoken_def Let_def split: if_splits)

section \<open>Parsing\<close>

lemma skip_ws_twice: "skip_ws b es (skip_ws b es s) = skip_ws b es s"
proof (induction b es s rule: skip_ws.induct)
  case (1 b es s)
  then show ?case by (cases "s < es \<and> u_strchr whitespace (char_at b s) \<noteq> None") (auto simp: skip_ws.simps[of b es s])
qed

lemma peek_ge: "peek b es toks s = (r, s') \<Longrightarrow> s \<le> s'"
  using skip_ws_ge[of s b es] by (auto simp: peek_def Let_def)

lemma char_at_length: "char_at b s \<noteq> NUL \<Longrightarrow> s < length b"
  by (auto simp: char_at_def split: if_splits)

text \<open>A token of one of the symbols takes at least one character.\<close>

lemma peek_gettoken:
  assumes "peek b es toks s = (True, s1)" and "set toks \<subseteq> set symbols" and "gettoken b es s1 = (c, q, eq, s2)"
  shows "s < s2" "s < length b"
proof -
  have s1: "s1 = skip_ws b es s" "char_at b s1 \<noteq> NUL" "u_strchr toks (char_at b s1) \<noteq> None"
    using assms(1) by (auto simp: peek_def Let_def)
  have "char_at b s1 \<in> set toks" using s1(3) by (induction toks) (auto split: if_splits)
  then have "char_at b s1 \<in> set symbols" using assms(2) by auto
  moreover have "skip_ws b es s1 = s1" using s1(1) skip_ws_twice by simp
  ultimately have "s1 < eq" using assms(3) s1(2) by (auto simp: gettoken_def Let_def symbols_def split: if_splits)
  then show "s < s2" "s < length b"
    using gettoken_ge[OF assms(3)] skip_ws_ge[of s b es] s1 char_at_length[of b s1] by auto
qed

lemma parse_steps:
  assumes "peek b es toks s = (True, s1)" and "set toks \<subseteq> set symbols" and "gettoken b es s1 = (c, q, eq, s2)"
  shows "length b - s2 < length b - s" and "gettoken b es s2 = (c', q', eq', s3) \<Longrightarrow> length b - s3 < length b - s"
  using peek_gettoken[OF assms] gettoken_ge[of b es s2 c' q' eq' s3] by auto

function parseredirs :: "bytes \<Rightarrow> nat \<Rightarrow> u64 \<Rightarrow> nat \<Rightarrow> 'z shst_scheme \<Rightarrow> (u64 \<times> nat, 'z shst_scheme) res" where
  "parseredirs b es cmd ps s =
     (case peek b es ''<>'' ps of
        (False, ps) \<Rightarrow> Ret (cmd, ps) s
      | (True, ps) \<Rightarrow>
          case gettoken b es ps of (tok, _, _, ps) \<Rightarrow>
          case gettoken b es ps of (tok2, q, eq, ps) \<Rightarrow>
          if tok2 \<noteq> CHR ''a'' then sh_panic ''missing file for redirection'' s
          else
            bindr (if tok = CHR ''<'' then redircmd cmd q eq O_RDONLY 0 s
                   else if tok = CHR ''>'' then redircmd cmd q eq (uint (O_WRONLY OR O_CREATE OR O_TRUNC)) 1 s
                   else if tok = CHR ''+'' then redircmd cmd q eq (uint (O_WRONLY OR O_CREATE)) 1 s
                   else Ret cmd s) (\<lambda>cmd s.
            parseredirs b es cmd ps s))"
  by pat_completeness auto
termination
proof (relation "measure (\<lambda>(b, _, _, ps, _). length b - ps)", goal_cases)
  case 2
  then show ?case
    by (auto dest!: sym[of _ "peek _ _ _ _"] sym[of _ "gettoken _ _ _"] intro!: parse_steps(2) simp: symbols_def)
qed simp

declare parseredirs.simps [simp del]

text \<open>The loop of \<open>parseline\<close> over ampersands.\<close>

function parseamps :: "bytes \<Rightarrow> nat \<Rightarrow> u64 \<Rightarrow> nat \<Rightarrow> 'z shst_scheme \<Rightarrow> (u64 \<times> nat, 'z shst_scheme) res" where
  "parseamps b es cmd ps s =
     (case peek b es ''&'' ps of
        (False, ps) \<Rightarrow> Ret (cmd, ps) s
      | (True, ps) \<Rightarrow>
          case gettoken b es ps of (_, _, _, ps) \<Rightarrow>
          bindr (backcmd cmd s) (\<lambda>cmd s. parseamps b es cmd ps s))"
  by pat_completeness auto
termination
proof (relation "measure (\<lambda>(b, _, _, ps, _). length b - ps)", goal_cases)
  case 2
  then show ?case
    by (auto dest!: sym[of _ "peek _ _ _ _"] sym[of _ "gettoken _ _ _"] intro!: parse_steps(1) simp: symbols_def)
qed simp

declare parseamps.simps [simp del]

text \<open>The loop of \<open>parseexec\<close> over the arguments of the command \<open>c\<close>.\<close>

definition set_arg :: "u64 \<Rightarrow> nat \<Rightarrow> nat option \<Rightarrow> nat option \<Rightarrow> 'z shst_scheme \<Rightarrow> (unit, 'z shst_scheme) res" where
  "set_arg c i q eq s =
     (case sh_cmds s c of
        Some (Execcmd argv eargv) \<Rightarrow> Ret () (s\<lparr>sh_cmds := (sh_cmds s)(c \<mapsto> Execcmd (argv[i := q]) (eargv[i := eq]))\<rparr>)
      | _ \<Rightarrow> Panic ''page fault'')"

function parseargs :: "bytes \<Rightarrow> nat \<Rightarrow> u64 \<Rightarrow> nat \<Rightarrow> u64 \<Rightarrow> nat \<Rightarrow> 'z shst_scheme \<Rightarrow> (u64 \<times> nat \<times> nat, 'z shst_scheme) res" where
  "parseargs b es c argc ret ps s =
     (case peek b es ''|)&;'' ps of
        (True, ps) \<Rightarrow> Ret (ret, argc, ps) s
      | (False, ps) \<Rightarrow>
          case gettoken b es ps of (tok, q, eq, ps) \<Rightarrow>
          if tok = NUL then Ret (ret, argc, ps) s
          else if tok \<noteq> CHR ''a'' then sh_panic ''syntax'' s
          else
            bindr (set_arg c argc (Some q) (Some eq) s) (\<lambda>_ s.
            if argc + 1 \<ge> MAXARGS then sh_panic ''too many args'' s
            else bindr (parseredirs b es ret ps s) (\<lambda>x s. parseargs b es c (argc + 1) (fst x) (snd x) s)))"
  by pat_completeness auto
termination
  by (relation "measure (\<lambda>(_, _, _, argc, _). MAXARGS - argc)") auto

declare parseargs.simps [simp del]

text \<open>
  The functions of the grammar, each on the functions that it calls.
\<close>

type_synonym 's parser = "nat \<Rightarrow> 's \<Rightarrow> (u64 \<times> nat, 's) res"

definition parseline_body :: "'z shst_scheme parser \<Rightarrow> 'z shst_scheme parser \<Rightarrow> bytes \<Rightarrow> nat \<Rightarrow> 'z shst_scheme parser" where
  "parseline_body parsepipe parseline b es ps s =
     bindr (parsepipe ps s) (\<lambda>(cmd, ps) s.
     bindr (parseamps b es cmd ps s) (\<lambda>(cmd, ps) s.
     case peek b es '';'' ps of
       (False, ps) \<Rightarrow> Ret (cmd, ps) s
     | (True, ps) \<Rightarrow>
         case gettoken b es ps of (_, _, _, ps) \<Rightarrow>
         bindr (parseline ps s) (\<lambda>(right, ps) s.
         bindr (listcmd cmd right s) (\<lambda>cmd s. Ret (cmd, ps) s))))"

definition parsepipe_body :: "'z shst_scheme parser \<Rightarrow> 'z shst_scheme parser \<Rightarrow> bytes \<Rightarrow> nat \<Rightarrow> 'z shst_scheme parser" where
  "parsepipe_body parseexec parsepipe b es ps s =
     bindr (parseexec ps s) (\<lambda>(cmd, ps) s.
     case peek b es ''|'' ps of
       (False, ps) \<Rightarrow> Ret (cmd, ps) s
     | (True, ps) \<Rightarrow>
         case gettoken b es ps of (_, _, _, ps) \<Rightarrow>
         bindr (parsepipe ps s) (\<lambda>(right, ps) s.
         bindr (pipecmd cmd right s) (\<lambda>cmd s. Ret (cmd, ps) s)))"

definition parseexec_body :: "'z shst_scheme parser \<Rightarrow> bytes \<Rightarrow> nat \<Rightarrow> 'z shst_scheme parser" where
  "parseexec_body parseblock b es ps s =
     (case peek b es ''('' ps of
        (True, ps) \<Rightarrow> parseblock ps s
      | (False, ps) \<Rightarrow>
          bindr (execcmd s) (\<lambda>c s.
          bindr (parseredirs b es c ps s) (\<lambda>(ret, ps) s.
          bindr (parseargs b es c 0 ret ps s) (\<lambda>(ret, argc, ps) s.
          bindr (set_arg c argc None None s) (\<lambda>_ s.
          Ret (ret, ps) s)))))"

definition parseblock_body :: "'z shst_scheme parser \<Rightarrow> bytes \<Rightarrow> nat \<Rightarrow> 'z shst_scheme parser" where
  "parseblock_body parseline b es ps s =
     (case peek b es ''('' ps of
        (False, ps) \<Rightarrow> sh_panic ''parseblock'' s
      | (True, ps) \<Rightarrow>
          case gettoken b es ps of (_, _, _, ps) \<Rightarrow>
          bindr (parseline ps s) (\<lambda>(cmd, ps) s.
          case peek b es '')'' ps of
            (False, ps) \<Rightarrow> sh_panic ''syntax - missing )'' s
          | (True, ps) \<Rightarrow>
              case gettoken b es ps of (_, _, _, ps) \<Rightarrow> parseredirs b es cmd ps s))"

text \<open>
  They call each other; the first argument bounds the depth of the calls, and its end is the
  outcome of a call that never returns.
\<close>

fun parseline :: "nat \<Rightarrow> bytes \<Rightarrow> nat \<Rightarrow> 'z shst_scheme parser"
  and parsepipe :: "nat \<Rightarrow> bytes \<Rightarrow> nat \<Rightarrow> 'z shst_scheme parser"
  and parseexec :: "nat \<Rightarrow> bytes \<Rightarrow> nat \<Rightarrow> 'z shst_scheme parser"
  and parseblock :: "nat \<Rightarrow> bytes \<Rightarrow> nat \<Rightarrow> 'z shst_scheme parser" where
  "parseline 0 b es = (\<lambda>ps. Spin)"
| "parseline (Suc n) b es = parseline_body (parsepipe n b es) (parseline n b es) b es"
| "parsepipe 0 b es = (\<lambda>ps. Spin)"
| "parsepipe (Suc n) b es = parsepipe_body (parseexec n b es) (parsepipe n b es) b es"
| "parseexec 0 b es = (\<lambda>ps. Spin)"
| "parseexec (Suc n) b es = parseexec_body (parseblock n b es) b es"
| "parseblock 0 b es = (\<lambda>ps. Spin)"
| "parseblock (Suc n) b es = parseblock_body (parseline n b es) b es"

text \<open>
  The buffer after the ends of the strings are overwritten. The outer \<open>None\<close> is a walk that does
  not end, the inner one an access outside of an object.
\<close>

fun nul_args :: "nat option list \<Rightarrow> nat option list \<Rightarrow> bytes \<Rightarrow> bytes option" where
  "nul_args (Some q # argv) (Some eq # eargv) b = (if eq < length b then nul_args argv eargv (b[eq := NUL]) else None)"
| "nul_args (None # argv) eargv b = Some b"
| "nul_args argv eargv b = None"

partial_function (option) nulterminate :: "(u64 \<rightharpoonup> cnode) \<Rightarrow> u64 \<Rightarrow> bytes \<Rightarrow> bytes option option" where
  "nulterminate h cmd b =
     (if cmd = 0 then Some (Some b)
      else
        case h cmd of
          None \<Rightarrow> Some None
        | Some (Execcmd argv eargv) \<Rightarrow> Some (nul_args argv eargv b)
        | Some (Redircmd c q eq mode fd) \<Rightarrow>
            Option.bind (nulterminate h c b) (\<lambda>r.
            case r of None \<Rightarrow> Some None | Some b \<Rightarrow> Some (if eq < length b then Some (b[eq := NUL]) else None))
        | Some (Pipecmd l r) \<Rightarrow>
            Option.bind (nulterminate h l b) (\<lambda>x. case x of None \<Rightarrow> Some None | Some b \<Rightarrow> nulterminate h r b)
        | Some (Listcmd l r) \<Rightarrow>
            Option.bind (nulterminate h l b) (\<lambda>x. case x of None \<Rightarrow> Some None | Some b \<Rightarrow> nulterminate h r b)
        | Some (Backcmd c) \<Rightarrow> nulterminate h c b)"

definition parse_fuel :: "bytes \<Rightarrow> nat" where
  "parse_fuel b = 4 * length b + 4"

definition parsecmd :: "nat \<Rightarrow> 'z shst_scheme \<Rightarrow> (u64, 'z shst_scheme) res" where
  "parsecmd ps s =
     (let b = sh_buf s; es = ps + u_strlen (cstr (drop ps b)) in
      bindr (parseline (parse_fuel b) b es ps s) (\<lambda>(cmd, ps) s.
      case peek b es [] ps of (_, ps) \<Rightarrow>
      if ps \<noteq> es then
        bindr (u_fprintf 2 (''leftovers: %s'' @ [NL]) [VStr (Some (cstr (drop ps b)))] s) (\<lambda>_ s.
        sh_panic ''syntax'' s)
      else
        case nulterminate (sh_cmds s) cmd b of
          None \<Rightarrow> Spin s
        | Some r \<Rightarrow> bindr (in_object r s) (\<lambda>b s. Ret cmd (s\<lparr>sh_buf := b\<rparr>))))"

section \<open>Running\<close>

definition str_at :: "bytes \<Rightarrow> nat \<Rightarrow> bytes" where
  "str_at b q = cstr (drop q b)"

text \<open>The strings before the null pointer that ends an array of arguments.\<close>

fun arg_strs :: "bytes \<Rightarrow> nat option list \<Rightarrow> bytes list" where
  "arg_strs b (Some q # argv) = str_at b q # arg_strs b argv"
| "arg_strs b argv = []"

definition pipe_fds :: "u8 list \<Rightarrow> (int \<times> int) option" where
  "pipe_fds d = (if length d = 8 then Some (sint (get32 d 0), sint (get32 d 4)) else None)"

lemma fork1_shrinks: "fork1 s = Ret r t \<Longrightarrow> length (u_resp t) < length (u_resp s)"
  by (auto simp: fork1_def sh_panic_def u_exit_def bindr_Ret_iff dest: sysv_shrinks split: if_splits)

text \<open>\<open>runcmd\<close> does not return, so that nothing follows its calls.\<close>

function runcmd :: "u64 \<Rightarrow> 'z shst_scheme \<Rightarrow> (unit, 'z shst_scheme) res" where
  "runcmd cmd s =
     (if cmd = 0 then u_exit 1 s
      else
        case sh_cmds s cmd of
          None \<Rightarrow> Panic ''page fault''
        | Some (Execcmd argv eargv) \<Rightarrow>
            (case argv ! 0 of
               None \<Rightarrow> u_exit 1 s
             | Some q \<Rightarrow>
                 bindr (sysv (Uc_exec (str_at (sh_buf s) q) (arg_strs (sh_buf s) argv)) s) (\<lambda>_ s.
                 bindr (u_fprintf 2 (''exec %s failed'' @ [NL]) [VStr (Some (str_at (sh_buf s) q))] s) (\<lambda>_ s.
                 u_exit 0 s)))
        | Some (Redircmd c q eq mode fd) \<Rightarrow>
            bindr (sysv (Uc_close fd) s) (\<lambda>_ s.
            bindr (sysv (Uc_open (str_at (sh_buf s) q) mode) s) (\<lambda>r s.
            if r < 0 then
              bindr (u_fprintf 2 (''open %s failed'' @ [NL]) [VStr (Some (str_at (sh_buf s) q))] s) (\<lambda>_ s. u_exit 1 s)
            else runcmd c s))
        | Some (Listcmd left right) \<Rightarrow>
            bindr (fork1 s) (\<lambda>pid s.
            if pid = 0 then runcmd left s
            else bindr (sysv Uc_wait s) (\<lambda>_ s. runcmd right s))
        | Some (Pipecmd left right) \<Rightarrow>
            bindr (sys Uc_pipe s) (\<lambda>x s.
            if fst x < 0 then sh_panic ''pipe'' s
            else
              bindr (in_object (pipe_fds (snd x)) s) (\<lambda>p s.
              bindr (fork1 s) (\<lambda>pid s.
              if pid = 0 then
                bindr (sysv (Uc_close 1) s) (\<lambda>_ s.
                bindr (sysv (Uc_dup (snd p)) s) (\<lambda>_ s.
                bindr (sysv (Uc_close (fst p)) s) (\<lambda>_ s.
                bindr (sysv (Uc_close (snd p)) s) (\<lambda>_ s.
                runcmd left s))))
              else
                bindr (fork1 s) (\<lambda>pid s.
                if pid = 0 then
                  bindr (sysv (Uc_close 0) s) (\<lambda>_ s.
                  bindr (sysv (Uc_dup (fst p)) s) (\<lambda>_ s.
                  bindr (sysv (Uc_close (fst p)) s) (\<lambda>_ s.
                  bindr (sysv (Uc_close (snd p)) s) (\<lambda>_ s.
                  runcmd right s))))
                else
                  bindr (sysv (Uc_close (fst p)) s) (\<lambda>_ s.
                  bindr (sysv (Uc_close (snd p)) s) (\<lambda>_ s.
                  bindr (sysv Uc_wait s) (\<lambda>_ s.
                  bindr (sysv Uc_wait s) (\<lambda>_ s.
                  u_exit 0 s))))))))
        | Some (Backcmd c) \<Rightarrow>
            bindr (fork1 s) (\<lambda>pid s. if pid = 0 then runcmd c s else u_exit 0 s))"
  by pat_completeness auto
termination
  by (relation "measure (\<lambda>(_, s). length (u_resp s))")
    (auto dest!: sys_shrinks sysv_shrinks fork1_shrinks in_object_resp)

declare runcmd.simps [simp del]

definition getcmd :: "'z shst_scheme \<Rightarrow> (int, 'z shst_scheme) res" where
  "getcmd s =
     bindr (sysv (Uc_write 2 (octets ''$ '')) s) (\<lambda>_ s.
     bindr (gets (replicate (length (sh_buf s)) NUL) s) (\<lambda>b s.
     bindr (in_object (if b = [] then None else Some (b ! 0)) s) (\<lambda>c s.
     Ret (if c = NUL then -1 else 0) (s\<lparr>sh_buf := b\<rparr>))))"

text \<open>The loop that opens the console until three descriptors are open.\<close>

function open_console :: "'z shst_scheme \<Rightarrow> (unit, 'z shst_scheme) res" where
  "open_console s =
     bindr (sysv (Uc_open ''console'' (uint O_RDWR)) s) (\<lambda>fd s.
     if fd < 0 then Ret () s
     else if fd \<ge> 3 then bindr (sysv (Uc_close fd) s) (\<lambda>_ s. Ret () s)
     else open_console s)"
  by pat_completeness auto
termination
  by (relation "measure (\<lambda>s. length (u_resp s))") (auto dest!: sysv_shrinks)

declare open_console.simps [simp del]

text \<open>The index of the first character that is neither blank nor tab.\<close>

function skip_blank :: "bytes \<Rightarrow> nat \<Rightarrow> nat" where
  "skip_blank b i = (if char_at b i = CHR '' '' \<or> char_at b i = CHR 0x09 then skip_blank b (i + 1) else i)"
  by pat_completeness auto
termination
  by (relation "measure (\<lambda>(b, i). length b - i)") (auto simp: char_at_def split: if_splits)

declare skip_blank.simps [simp del]

text \<open>One command line, after blanks, run by the shell itself or by a child.\<close>

definition run_line :: "nat \<Rightarrow> 'z shst_scheme \<Rightarrow> (unit, 'z shst_scheme) res" where
  "run_line cmd s =
     (let b = sh_buf s in
      if char_at b cmd = CHR ''c'' \<and> char_at b (cmd + 1) = CHR ''d'' \<and> char_at b (cmd + 2) = CHR '' '' then
        let s = s\<lparr>sh_buf := b[cmd + u_strlen (str_at b cmd) - 1 := NUL]\<rparr>;
            dir = str_at (sh_buf s) (cmd + 3) in
        bindr (sysv (Uc_chdir dir) s) (\<lambda>r s.
        if r < 0 then u_fprintf 2 (''cannot cd %s'' @ [NL]) [VStr (Some dir)] s else Ret () s)
      else
        bindr (fork1 s) (\<lambda>pid s.
        if pid = 0 then bindr (parsecmd cmd s) (\<lambda>c s. runcmd c s)
        else bindr (sysv Uc_wait s) (\<lambda>_ s. Ret () s)))"

lemma gets_loop_shrinks: "gets_loop n s = Ret r t \<Longrightarrow> length (u_resp t) \<le> length (u_resp s)"
proof (induction n arbitrary: s r t)
  case (Suc n)
  from Suc.prems show ?case
    by (auto elim!: bindr_RetE split: if_splits prod.splits dest!: sys_shrinks in_object_resp Suc.IH)
qed simp

lemma getcmd_shrinks: "getcmd s = Ret r t \<Longrightarrow> length (u_resp t) < length (u_resp s)"
  by (auto simp: getcmd_def gets_def elim!: bindr_RetE dest!: sysv_shrinks in_object_resp gets_loop_shrinks)

lemma u_fprintf_shrinks: "u_fprintf fd f ap s = Ret r t \<Longrightarrow> length (u_resp t) \<le> length (u_resp s)"
  by (auto simp: u_fprintf_def u_vprintf_def dest: u_puts_shrinks split: option.splits)

text \<open>\<open>runcmd\<close> never returns.\<close>

lemma runcmd_no_return: "runcmd c s \<noteq> Ret r t"
proof (induction "length (u_resp s)" arbitrary: c s rule: less_induct)
  case less
  have IH: False if "runcmd c' s' = Ret () t" and "length (u_resp s') < length (u_resp s)" for c' s'
    using less that by simp
  show ?case
    by (subst runcmd.simps) (auto simp: u_exit_def sh_panic_def elim!: bindr_RetE split: if_splits option.splits cnode.splits
      dest!: sys_shrinks sysv_shrinks fork1_shrinks in_object_resp elim!: IH)
qed

lemma run_line_shrinks: "run_line c s = Ret r t \<Longrightarrow> length (u_resp t) \<le> length (u_resp s)"
  by (auto simp: run_line_def Let_def runcmd_no_return elim!: bindr_RetE split: if_splits
    dest!: sysv_shrinks fork1_shrinks u_fprintf_shrinks)

function sh_loop :: "'z shst_scheme \<Rightarrow> (unit, 'z shst_scheme) res" where
  "sh_loop s =
     bindr (getcmd s) (\<lambda>r s.
     if r < 0 then u_exit 0 s
     else
       let cmd = skip_blank (sh_buf s) 0 in
       if char_at (sh_buf s) cmd = NL then sh_loop s
       else bindr (run_line cmd s) (\<lambda>_ s. sh_loop s))"
  by pat_completeness auto
termination
  by (relation "measure (\<lambda>s. length (u_resp s))") (auto dest!: getcmd_shrinks run_line_shrinks)

declare sh_loop.simps [simp del]

definition sh_main :: "'z shst_scheme \<Rightarrow> (unit, 'z shst_scheme) res" where
  "sh_main s = bindr (open_console s) (\<lambda>_ s. sh_loop s)"

end
