(* ===== verification/UmallocHeap.thy ===== *)
theory UmallocHeap
  imports Umalloc
begin

text \<open>
  The heap of the storage allocator: how the blocks of the free list and those in use lie in
  memory, and that the searches of the list end.
\<close>

section \<open>Header cells\<close>

text \<open>Room for a header at an address, and two headers that do not meet.\<close>

definition hdr_ok :: "u64 \<Rightarrow> bool" where
  "hdr_ok a \<longleftrightarrow> unat a + HDR < 2 ^ 63"

definition hsep :: "u64 \<Rightarrow> u64 \<Rightarrow> bool" where
  "hsep a b \<longleftrightarrow> hdr_ok a \<and> hdr_ok b \<and> (unat a + HDR \<le> unat b \<or> unat b + HDR \<le> unat a)"

lemma unat_plus8: "hdr_ok a \<Longrightarrow> unat (a + 8) = unat a + 8"
  using unat_add_of_nat[of a 8] by (simp add: hdr_ok_def HDR_def)

lemma h_same [simp]:
  "h_ptr (set_ptr a v m) a = v" "h_size (set_size a n m) a = n"
proof -
  have "unat n mod 256 ^ 4 = unat n" using unsigned_less[of n, where 'a = nat] by simp
  then show "h_size (set_size a n m) a = n" by (simp add: h_size_def set_size_def ld_st_same)
qed (simp add: h_ptr_def set_ptr_def)

lemma h_cross [simp]:
  assumes "hdr_ok a"
  shows "h_ptr (set_size a n m) a = h_ptr m a" "h_size (set_ptr a v m) a = h_size m a"
  using assms unat_plus8[OF assms]
  by (simp_all add: h_ptr_def h_size_def set_ptr_def set_size_def ld64_def st64_def apart_def hdr_ok_def HDR_def ld_st_apart)

lemma h_other [simp]:
  assumes "hsep a b"
  shows "h_ptr (set_ptr a v m) b = h_ptr m b" "h_size (set_ptr a v m) b = h_size m b"
    "h_ptr (set_size a n m) b = h_ptr m b" "h_size (set_size a n m) b = h_size m b"
proof -
  have "hdr_ok a" "hdr_ok b" using assms by (simp_all add: hsep_def)
  then show "h_ptr (set_ptr a v m) b = h_ptr m b" "h_size (set_ptr a v m) b = h_size m b"
    "h_ptr (set_size a n m) b = h_ptr m b" "h_size (set_size a n m) b = h_size m b"
    using assms unat_plus8[of a] unat_plus8[of b]
    by (auto simp: h_ptr_def h_size_def set_ptr_def set_size_def ld64_def st64_def apart_def hsep_def hdr_ok_def HDR_def
        intro!: arg_cong[where f = of_nat] ld_st_apart)
qed

lemma hsep_sym: "hsep a b = hsep b a"
  by (auto simp: hsep_def)

text \<open>The bytes outside of a header are not touched by a change of its fields.\<close>

lemma set_frame:
  assumes "hdr_ok a" and "unat x < unat a \<or> unat a + HDR \<le> unat x"
  shows "set_ptr a v m x = m x" "set_size a n m x = m x"
proof -
  have out: "\<not> unat (x - b) < k" if "unat b + k \<le> unat a + HDR" "unat a \<le> unat b" for b k
  proof
    assume less: "unat (x - b) < k"
    have "unat (b + of_nat (unat (x - b))) = unat b + unat (x - b)"
      using less that assms(1) by (intro unat_add_of_nat) (simp add: hdr_ok_def HDR_def)
    then show False using less that assms(2) by simp
  qed
  show "set_ptr a v m x = m x" using out[of a 8] by (simp add: set_ptr_def st64_def st_def HDR_def)
  show "set_size a n m x = m x" using out[of "a + 8" 4] unat_plus8[OF assms(1)] by (simp add: set_size_def st_def HDR_def)
qed

section \<open>The circular list\<close>

fun links :: "memory \<Rightarrow> u64 list \<Rightarrow> u64 \<Rightarrow> bool" where
  "links m [] y = True"
| "links m (x # xs) y \<longleftrightarrow> h_ptr m x = hd (xs @ [y]) \<and> links m xs y"

lemma links_append: "links m (xs @ ys) y \<longleftrightarrow> links m xs (hd (ys @ [y])) \<and> links m ys y"
  by (induction xs) (auto simp: hd_append)

lemma links_cong: "(\<And>x. x \<in> set xs \<Longrightarrow> h_ptr m' x = h_ptr m x) \<Longrightarrow> links m' xs y = links m xs y"
  by (induction xs) auto

lemma links_rotate:
  assumes "links m (ps @ f # qs) (hd (ps @ f # qs))"
  shows "links m (f # qs @ ps) f"
  using assms by (cases ps) (auto simp: links_append hd_append)

lemma free_find_walk:
  assumes "links m (xs @ [q]) y"
    and "\<And>x. x \<in> set xs \<Longrightarrow> \<not> (bp > x \<and> bp < h_ptr m x) \<and> \<not> (x \<ge> h_ptr m x \<and> (bp > x \<or> bp < h_ptr m x))"
  shows "free_find m bp (hd (xs @ [q])) = free_find m bp q"
  using assms
proof (induction xs)
  case (Cons x xs)
  then have "free_find m bp (hd (xs @ [q])) = free_find m bp q" by simp
  moreover have "h_ptr m x = hd (xs @ [q])" using Cons.prems(1) by (cases xs) auto
  ultimately show ?case using Cons.prems(2)[of x] by (subst free_find.simps) auto
qed simp

text \<open>On a circular list in address order the search returns the last block below the given one.\<close>

lemma free_find_pred:
  assumes ring: "links m (ps @ q # qs) (hd (ps @ [q]))" and sorted: "sorted_wrt (<) (ps @ q # qs)"
    and below: "q < bp" and above: "\<And>x. x \<in> set qs \<Longrightarrow> bp < x" and p: "p \<in> set (ps @ q # qs)"
  shows "free_find m bp p = Some q"
proof -
  have l: "links m (ps @ [q]) (hd (qs @ [hd (ps @ [q])]))" "links m qs (hd (ps @ [q]))" "h_ptr m q = hd (qs @ [hd (ps @ [q])])"
    using ring by (auto simp: links_append hd_append)
  have lo: "x < q" if "x \<in> set ps" for x using sorted that by (auto simp: sorted_wrt_append)
  have b: "hd (ps @ [q]) \<le> q" using lo by (cases ps) (auto simp: less_imp_le)
  have q: "free_find m bp q = Some q"
    using l(3) below above b by (subst free_find.simps) (cases qs; auto)
  have next_ps: "x < h_ptr m x \<and> h_ptr m x \<le> q" if "x \<in> set ps" for x
  proof -
    obtain us vs where ps: "ps = us @ x # vs" using split_list[OF \<open>x \<in> set ps\<close>] by blast
    then have "h_ptr m x = hd (vs @ [q])" using l(1) by (cases vs) (auto simp: links_append)
    then show ?thesis using sorted lo unfolding ps by (cases vs) (auto simp: sorted_wrt_append less_imp_le)
  qed
  have up: "free_find m bp p = Some q" if "p \<in> set (ps @ [q])" for p
  proof -
    obtain us vs where "ps @ [q] = us @ vs @ [q]" "hd (vs @ [q]) = p"
    proof (cases "p = q")
      case True
      then show ?thesis using that[of ps "[]"] by simp
    next
      case False
      then have "p \<in> set ps" using \<open>p \<in> set (ps @ [q])\<close> by simp
      then obtain us vs where "ps = us @ p # vs" using split_list by metis
      then show ?thesis using that[of us "p # vs"] by simp
    qed
    moreover have "links m (vs @ [q]) (hd (qs @ [hd (ps @ [q])]))" using l(1) calculation(1) by (auto simp: links_append)
    moreover have "set vs \<subseteq> set ps" using calculation(1) by (metis Un_upper2 append_assoc append_same_eq set_append)
    ultimately show ?thesis
      using free_find_walk[of m vs q _ bp] next_ps below q by force
  qed
  show ?thesis
  proof (cases "p \<in> set qs")
    case True
    then obtain us vs where qs: "qs = us @ p # vs" by (meson split_list)
    have "links m ((p # vs) @ [hd (ps @ [q])]) (h_ptr m (hd (ps @ [q])))" using l(2) by (auto simp: qs links_append hd_append)
    moreover have "\<not> (bp > x \<and> bp < h_ptr m x) \<and> \<not> (x \<ge> h_ptr m x \<and> (bp > x \<or> bp < h_ptr m x))" if "x \<in> set (p # vs)" for x
    proof -
      have "x \<in> set qs" using that qs by auto
      then obtain us vs where qs': "qs = us @ x # vs" using split_list by metis
      then have "h_ptr m x = hd (vs @ [hd (ps @ [q])])" using l(2) by (auto simp: links_append)
      moreover have "\<not> x < bp" using above \<open>x \<in> set qs\<close> by (simp add: not_less less_imp_le)
      moreover have "\<not> bp < hd (ps @ [q])" using b below by (simp add: not_less order.trans less_imp_le)
      ultimately show ?thesis using sorted unfolding qs' by (cases vs) (auto simp: sorted_wrt_append not_le)
    qed
    ultimately have "free_find m bp p = free_find m bp (hd (ps @ [q]))"
      using free_find_walk[of m "p # vs" "hd (ps @ [q])" "h_ptr m (hd (ps @ [q]))" bp] by simp
    then show ?thesis using up[of "hd (ps @ [q])"] by (cases ps) auto
  next
    case False
    then show ?thesis using p up by simp
  qed
qed

text \<open>
  The search of \<open>malloc\<close> from the block after \<open>x\<close> up to \<open>fp\<close>: a block that is large enough with the
  block before it, or none.
\<close>

lemma malloc_scan_walk:
  assumes "links m (x # ys) fp" and "fp \<notin> set ys"
  shows "(\<exists>q. malloc_scan m fp n x (h_ptr m x) = Some (True, q, h_ptr m q) \<and> q \<in> set (x # ys) \<and> n \<le> h_size m (h_ptr m q)) \<or>
    (\<exists>q. malloc_scan m fp n x (h_ptr m x) = Some (False, q, fp) \<and> (\<forall>y \<in> insert fp (set ys). h_size m y < n))"
  using assms
proof (induction ys arbitrary: x)
  case Nil
  then show ?case by (subst (1 2) malloc_scan.simps) auto
next
  case (Cons y ys)
  have y: "h_ptr m x = y" "y \<noteq> fp" "links m (y # ys) fp" "fp \<notin> set ys" using Cons.prems by auto
  show ?case
  proof (cases "n \<le> h_size m y")
    case True
    then show ?thesis using y(1) by (subst (1) malloc_scan.simps) auto
  next
    case False
    then have "malloc_scan m fp n x (h_ptr m x) = malloc_scan m fp n y (h_ptr m y)"
      using y(1,2) by (subst malloc_scan.simps) auto
    then show ?thesis using Cons.IH[OF y(3,4)] False by (auto simp: not_le)
  qed
qed

lemma malloc_scan_ring:
  assumes ring: "links m as (hd as)" and "distinct as" and "fp \<in> set as"
  shows "(\<exists>q \<in> set as. malloc_scan m fp n fp (h_ptr m fp) = Some (True, q, h_ptr m q) \<and> n \<le> h_size m (h_ptr m q)) \<or>
    (\<exists>q. malloc_scan m fp n fp (h_ptr m fp) = Some (False, q, fp) \<and> (\<forall>y \<in> set as. h_size m y < n))"
proof -
  obtain ps qs where as: "as = ps @ fp # qs" using split_list[OF assms(3)] by blast
  have "links m (fp # qs @ ps) fp" by (rule links_rotate) (use ring as in simp)
  moreover have "fp \<notin> set (qs @ ps)" using assms(2) as by auto
  ultimately show ?thesis using malloc_scan_walk[of m fp "qs @ ps" fp n] as by auto
qed

section \<open>Links of the list\<close>

text \<open>\<open>free_link\<close> at its place: the merged or inserted list, and the sizes it leaves.\<close>

lemma free_link_list:
  fixes m :: memory and a q :: u64
  defines "R \<equiv> h_add a (h_size m a) = h_ptr m q" and "L \<equiv> h_add q (h_size m q) = a"
  assumes ring: "links m (ps @ q # qs) b" and hd: "hd (ps @ [q]) = b"
    and apart: "\<forall>x \<in> set (ps @ q # a # qs). \<forall>y \<in> set (ps @ q # a # qs). x \<noteq> y \<longrightarrow> hsep x y"
    and dist: "distinct (ps @ q # a # qs)" and ok: "hdr_ok q" "hdr_ok a"
    and right: "R \<Longrightarrow> qs \<noteq> []"
  shows "links (free_link a q m) (ps @ q # (if L then [] else [a]) @ (if R then tl qs else qs)) b"
    and "h_size (free_link a q m) q =
      (if L then h_size m q + (h_size m a + (if R then h_size m (hd qs) else 0)) else h_size m q)"
    and "\<not> L \<Longrightarrow> h_size (free_link a q m) a = h_size m a + (if R then h_size m (hd qs) else 0)"
    and "\<And>x. hsep x q \<Longrightarrow> hsep x a \<Longrightarrow> h_size (free_link a q m) x = h_size m x"
    and "\<And>x. unat x < unat a \<or> unat a + HDR \<le> unat x \<Longrightarrow> unat x < unat q \<or> unat q + HDR \<le> unat x \<Longrightarrow>
      free_link a q m x = m x"
proof -
  have sep: "x \<in> set (ps @ q # a # qs) \<Longrightarrow> y \<in> set (ps @ q # a # qs) \<Longrightarrow> x \<noteq> y \<Longrightarrow> hsep x y" for x y
    using apart by blast
  let ?qs = "if R then tl qs else qs" and ?k = "h_size m a + (if R then h_size m (hd qs) else 0)"
  have l: "links m ps q" "h_ptr m q = hd (qs @ [b])" "links m qs b" using ring by (auto simp: links_append)
  have aq: "hsep a q" "hsep q a" using sep dist by auto
  define m1 where "m1 = (if R then let m = set_size a (h_size m a + h_size m (h_ptr m q)) m in set_ptr a (h_ptr m (h_ptr m q)) m
      else set_ptr a (h_ptr m q) m)"
  have r: "h_ptr m q = hd qs" "hsep a (hd qs)" "h_ptr m (hd qs) = hd (tl qs @ [b])" if R
    using right[OF that] l(2,3) sep dist by (cases qs; auto)+
  have a1: "h_ptr m1 a = hd (?qs @ [b])" "h_size m1 a = ?k"
    using r l(2) ok aq by (auto simp: m1_def Let_def)
  have o1: "h_ptr m1 x = h_ptr m x" "h_size m1 x = h_size m x" if "hsep a x" for x
    using that by (auto simp: m1_def Let_def)
  have f1: "m1 x = m x" if "unat x < unat a \<or> unat a + HDR \<le> unat x" for x
    using set_frame[OF ok(2) that] by (auto simp: m1_def Let_def)
  let ?m2 = "free_link a q m"
  have m2: "?m2 = (if L then let m = set_size q (h_size m1 q + h_size m1 a) m1 in set_ptr q (h_ptr m a) m else set_ptr q a m1)"
    using o1(2)[OF aq(1)] by (auto simp: free_link_def Let_def m1_def R_def L_def)
  have q2: "h_ptr ?m2 q = hd ((if L then [] else [a]) @ ?qs @ [b])"
    "h_size ?m2 q = (if L then h_size m q + ?k else h_size m q)"
    using a1 o1[OF aq(1)] aq ok by (auto simp: m2 Let_def)
  have o2: "h_ptr ?m2 x = h_ptr m1 x" "h_size ?m2 x = h_size m1 x" if "hsep q x" for x
    using that by (auto simp: m2 Let_def)
  have o3: "h_ptr ?m2 x = h_ptr m x" if "x \<in> set ps \<union> set qs" for x
  proof -
    have "x \<noteq> q" "x \<noteq> a" using that dist by auto
    then have "hsep q x" "hsep a x" using that sep[of q x] sep[of a x] by auto
    then show ?thesis by (simp add: o2 o1)
  qed
  have "links ?m2 ps q" using l(1) o3 by (subst links_cong[of ps _ m]) auto
  moreover have "links ?m2 ?qs b"
  proof -
    have "links m ?qs b" using l(3) by (cases qs) auto
    moreover have "x \<in> set qs" if "x \<in> set ?qs" for x using that by (cases qs) (auto split: if_splits)
    ultimately show ?thesis using o3 by (subst links_cong[of _ _ m]) auto
  qed
  moreover have "h_ptr ?m2 a = hd (?qs @ [b])" using o2[OF aq(2)] a1 by simp
  ultimately show "links ?m2 (ps @ q # (if L then [] else [a]) @ ?qs) b"
    using q2(1) by (auto simp: links_append)
  show "h_size ?m2 q = (if L then h_size m q + ?k else h_size m q)" by (rule q2(2))
  show "\<not> L \<Longrightarrow> h_size ?m2 a = ?k" using o2[OF aq(2)] a1 by simp
  show "h_size ?m2 x = h_size m x" if "hsep x q" "hsep x a" for x
    using o2(2)[of x] o1(2)[of x] that hsep_sym by metis
  show "?m2 x = m x" if "unat x < unat a \<or> unat a + HDR \<le> unat x" "unat x < unat q \<or> unat q + HDR \<le> unat x" for x
    using set_frame[OF ok(1) that(2)] f1[OF that(1)] by (simp add: m2 Let_def)
qed

section \<open>Blocks\<close>

type_synonym block = "u64 \<times> nat"

definition bend :: "block \<Rightarrow> nat" where
  "bend x = unat (fst x) + HDR * snd x"

text \<open>Blocks below a limit that do not meet each other.\<close>

definition lay :: "nat \<Rightarrow> block set \<Rightarrow> bool" where
  "lay hi B \<longleftrightarrow> (\<forall>x \<in> B. 1 \<le> snd x \<and> bend x \<le> hi) \<and>
     (\<forall>x \<in> B. \<forall>y \<in> B. x \<noteq> y \<longrightarrow> bend x \<le> unat (fst y) \<or> bend y \<le> unat (fst x))"

lemma layD: "lay hi B \<Longrightarrow> x \<in> B \<Longrightarrow> 1 \<le> snd x \<and> unat (fst x) + HDR \<le> bend x \<and> bend x \<le> hi"
  by (auto simp: lay_def bend_def)

lemma lay_disj:
  "lay hi B \<Longrightarrow> x \<in> B \<Longrightarrow> y \<in> B \<Longrightarrow> x \<noteq> y \<Longrightarrow> bend x \<le> unat (fst y) \<or> bend y \<le> unat (fst x)"
  unfolding lay_def by blast

lemma lay_mono: "lay hi B \<Longrightarrow> C \<subseteq> B \<Longrightarrow> hi \<le> hi' \<Longrightarrow> lay hi' C"
  unfolding lay_def by (meson order.trans subsetD)

lemma lay_insert:
  "lay hi B \<Longrightarrow> 1 \<le> snd x \<Longrightarrow> bend x \<le> hi \<Longrightarrow> (\<And>y. y \<in> B \<Longrightarrow> y \<noteq> x \<Longrightarrow> bend x \<le> unat (fst y) \<or> bend y \<le> unat (fst x)) \<Longrightarrow>
    lay hi (insert x B)"
  unfolding lay_def by (auto simp: disj_commute)

lemma lay_merge:
  assumes l: "lay hi (insert (a, n) (insert (c, k) B))" and "(a, n) \<notin> B" and "(c, k) \<notin> B" and adj: "bend (a, n) = unat c"
  shows "lay hi (insert (a, n + k) B)"
proof (rule lay_insert)
  show "lay hi B" using l by (rule lay_mono) auto
  have e: "bend (a, n + k) = bend (c, k)" using adj by (simp add: bend_def add_mult_distrib2)
  show "1 \<le> snd (a, n + k)" using layD[OF l, of "(a, n)"] by simp
  show "bend (a, n + k) \<le> hi" using layD[OF l, of "(c, k)"] e by simp
  fix y assume y: "y \<in> B" "y \<noteq> (a, n + k)"
  have "1 \<le> snd y \<and> unat (fst y) + HDR \<le> bend y" using layD[OF l, of y] y(1) by simp
  moreover have "bend (a, n) \<le> unat (fst y) \<or> bend y \<le> unat a" "bend (c, k) \<le> unat (fst y) \<or> bend y \<le> unat c"
    using lay_disj[OF l, of "(a, n)" y] lay_disj[OF l, of "(c, k)" y] y(1) assms(2,3) by auto
  ultimately show "bend (a, n + k) \<le> unat (fst y) \<or> bend y \<le> unat (fst (a, n + k))"
    using e adj by (auto simp: HDR_def)
qed

lemma lay_split:
  assumes l: "lay hi (insert (a, n + k) B)" and "(a, n + k) \<notin> B" and "1 \<le> n" and "1 \<le> k" and adj: "bend (a, n) = unat c"
  shows "lay hi (insert (a, n) (insert (c, k) B))"
proof -
  have e: "bend (a, n + k) = bend (c, k)" using adj by (simp add: bend_def add_mult_distrib2)
  have le: "bend (a, n) \<le> bend (a, n + k)" "bend (c, k) \<le> hi" "unat a \<le> unat c"
    using layD[OF l, of "(a, n + k)"] e adj by (auto simp: bend_def)
  have d: "bend (a, n + k) \<le> unat (fst y) \<or> bend y \<le> unat a" if "y \<in> B" for y
    using lay_disj[OF l, of "(a, n + k)" y] that assms(2) by auto
  have "lay hi (insert (c, k) B)"
  proof (rule lay_insert)
    show "lay hi B" using l by (rule lay_mono) auto
    show "bend (c, k) \<le> unat (fst y) \<or> bend y \<le> unat (fst (c, k))" if "y \<in> B" for y using d[OF that] e le by auto
  qed (use assms le in auto)
  then show ?thesis
  proof (rule lay_insert)
    show "bend (a, n) \<le> unat (fst y) \<or> bend y \<le> unat (fst (a, n))" if "y \<in> insert (c, k) B" for y
      using that d[of y] e le adj by auto
    show "bend (a, n) \<le> hi" using le layD[OF l, of "(a, n + k)"] by simp
  qed (use assms in auto)
qed

text \<open>
  The free list as a list of blocks, the block of \<open>base\<close> with size 0 first: in address order with
  no two blocks adjacent, and apart from the blocks in use.
\<close>

definition cell :: "block \<Rightarrow> block" where
  "cell x = (fst x, max 1 (snd x))"

definition good :: "nat \<Rightarrow> block list \<Rightarrow> block set \<Rightarrow> bool" where
  "good hi bl al \<longleftrightarrow> bl \<noteq> [] \<and> snd (hd bl) = 0 \<and> 0 < unat (fst (hd bl)) \<and> (\<forall>x \<in> set (tl bl). 1 \<le> snd x) \<and>
     sorted_wrt (\<lambda>x y. bend x < unat (fst y)) bl \<and> lay hi (cell ` set bl \<union> al) \<and>
     fst ` al \<inter> fst ` set bl = {} \<and> (\<forall>x \<in> al. unat (fst (hd bl)) < unat (fst x))"

lemma cell_pos [simp]: "1 \<le> snd x \<Longrightarrow> cell x = x" "fst (cell x) = fst x"
  by (auto simp: cell_def prod_eq_iff)

lemma cell_bend: "bend x \<le> bend (cell x)" "unat (fst x) \<le> bend x"
  by (auto simp: bend_def cell_def)

lemma good_hd: "hd (pre @ q # post) = (if pre = [] then q else hd pre)"
  by (cases pre) auto

lemma good_tl: "set (tl (pre @ q # post)) = (if pre = [] then {} else insert q (set (tl pre))) \<union> set post"
  by (cases pre) auto

lemma good_pos: "good hi (pre @ q # post) al \<Longrightarrow> x \<in> set post \<Longrightarrow> 1 \<le> snd x"
  by (auto simp: good_def good_tl)

lemma good_distinct: "good hi bl al \<Longrightarrow> sorted_wrt (\<lambda>x y. unat (fst x) < unat (fst y)) bl"
  unfolding good_def by (elim conjE, erule sorted_wrt_mono_rel[rotated]) (simp add: bend_def)

lemma good_merge_right:
  assumes g: "good hi (pre @ q # (r, nr) # post) (insert (a, k) al)" and a: "a \<notin> fst ` al" and adj: "bend (a, k) = unat r"
  shows "good hi (pre @ q # post) (insert (a, k + nr) al)"
proof -
  let ?B = "cell ` set (pre @ q # post) \<union> al"
  have r: "1 \<le> nr" using good_pos[OF g, of "(r, nr)"] by simp
  have fr: "r \<notin> fst ` set (pre @ q # post)" "r \<notin> fst ` al" "a \<notin> fst ` set (pre @ q # post)"
    using g good_distinct[OF g] by (auto simp: good_def sorted_wrt_append)
  then have n: "(a, k) \<notin> ?B" "(r, nr) \<notin> ?B" using a by (force simp: cell_def)+
  have "cell ` set (pre @ q # (r, nr) # post) \<union> insert (a, k) al = insert (a, k) (insert (r, nr) ?B)"
    using r by auto
  then have "lay hi (insert (a, k) (insert (r, nr) ?B))" using g by (simp add: good_def)
  then have "lay hi (insert (a, k + nr) ?B)" using lay_merge n adj by blast
  then show ?thesis
    using g fr(3) by (simp add: good_def good_hd good_tl sorted_wrt_append) 
qed

lemma good_insert:
  assumes g: "good hi (pre @ q # post) (insert (a, k) al)" and a: "a \<notin> fst ` al" and lo: "bend q < unat a"
    and up: "\<And>x. x \<in> set post \<Longrightarrow> bend (a, k) < unat (fst x)"
  shows "good hi (pre @ q # (a, k) # post) al"
proof -
  have k: "1 \<le> k" using g layD[of hi _ "(a, k)"] by (auto simp: good_def)
  have "cell ` set (pre @ q # (a, k) # post) \<union> al = cell ` set (pre @ q # post) \<union> insert (a, k) al" using k by auto
  then have l: "lay hi (cell ` set (pre @ q # (a, k) # post) \<union> al)" using g by (simp add: good_def)
  have "bend x < unat a" if "x \<in> set pre" for x
    using g that lo by (auto simp: good_def sorted_wrt_append bend_def) 
  then show ?thesis
    using g a lo up k l by (auto simp: good_def good_hd good_tl sorted_wrt_append)
qed

lemma good_merge_left:
  assumes g: "good hi (pre @ (q, nq) # post) (insert (a, k) al)" and a: "a \<notin> fst ` al" and adj: "bend (q, nq) = unat a"
    and q: "pre \<noteq> []" and up: "\<And>x. x \<in> set post \<Longrightarrow> bend (a, k) < unat (fst x)"
  shows "good hi (pre @ (q, nq + k) # post) al"
proof -
  let ?B = "cell ` set (pre @ post) \<union> al"
  have nq: "1 \<le> nq" using g q by (cases pre) (auto simp: good_def)
  have fr: "q \<notin> fst ` set (pre @ post)" "q \<notin> fst ` al" "a \<notin> fst ` set (pre @ post)"
    using g good_distinct[OF g] by (auto simp: good_def sorted_wrt_append)
  then have n: "(a, k) \<notin> ?B" "(q, nq) \<notin> ?B" using a by (force simp: cell_def)+
  have "cell ` set (pre @ (q, nq) # post) \<union> insert (a, k) al = insert (q, nq) (insert (a, k) ?B)" using nq by auto
  then have "lay hi (insert (q, nq) (insert (a, k) ?B))" using g by (simp add: good_def)
  then have "lay hi (insert (q, nq + k) ?B)" using lay_merge n adj by blast
  moreover have "cell ` set (pre @ (q, nq + k) # post) \<union> al = insert (q, nq + k) ?B" using nq by auto
  moreover have "bend (q, nq + k) = bend (a, k)" using adj by (simp add: bend_def add_mult_distrib2)
  ultimately show ?thesis
    using g q up nq fr by (cases pre) (auto simp: good_def sorted_wrt_append)
qed

section \<open>The heap\<close>

text \<open>The limit keeps every size in its 32 bits; the memory of the machine is far smaller.\<close>

definition HEAPMAX :: nat where "HEAPMAX = 2 ^ 36"

definition heap :: "memory \<Rightarrow> u64 \<Rightarrow> nat \<Rightarrow> block list \<Rightarrow> block set \<Rightarrow> bool" where
  "heap m fp hi bl al \<longleftrightarrow> good hi bl al \<and> hi \<le> HEAPMAX \<and> fp \<in> fst ` set bl \<and>
     links m (map fst bl) (fst (hd bl)) \<and> (\<forall>x \<in> set bl \<union> al. unat (h_size m (fst x)) = snd x)"

lemma good_lay: "good hi bl al \<Longrightarrow> lay hi (cell ` set bl \<union> al)"
  by (simp add: good_def)

lemma good_cell: "good hi bl al \<Longrightarrow> x \<in> set bl \<union> al \<Longrightarrow> cell x \<in> cell ` set bl \<union> al"
  using layD[of hi "cell ` set bl \<union> al" x] by (auto simp: good_def)

lemma good_bounds:
  assumes g: "good hi bl al" and hi: "hi \<le> HEAPMAX" and x: "x \<in> set bl \<union> al"
  shows "hdr_ok (fst x)" "bend x \<le> hi" "snd x < 2 ^ 32" "0 < unat (fst x)"
proof -
  have l: "unat (fst x) + HDR \<le> bend (cell x)" "bend (cell x) \<le> hi" "bend x \<le> bend (cell x)"
    using layD[OF good_lay[OF g] good_cell[OF g x]] by (auto simp: bend_def cell_def)
  show "hdr_ok (fst x)" "bend x \<le> hi" using l hi by (auto simp: hdr_ok_def HEAPMAX_def)
  have "unat (fst (hd bl)) \<le> unat (fst x)"
  proof (cases "x \<in> set bl")
    case True
    then show ?thesis using good_distinct[OF g] by (cases bl) (auto simp: less_imp_le)
  next
    case False
    then show ?thesis using g x by (auto simp: good_def less_imp_le)
  qed
  then show pos: "0 < unat (fst x)" using g by (auto simp: good_def)
  then show "snd x < 2 ^ 32" using l hi by (auto simp: HEAPMAX_def bend_def HDR_def)
qed

lemma good_hsep:
  assumes g: "good hi bl al" and hi: "hi \<le> HEAPMAX" and x: "x \<in> set bl \<union> al" and y: "y \<in> set bl \<union> al" and "fst x \<noteq> fst y"
  shows "hsep (fst x) (fst y)"
proof -
  have "cell x \<noteq> cell y" using assms(5) by (auto simp: cell_def)
  then have "bend (cell x) \<le> unat (fst y) \<or> bend (cell y) \<le> unat (fst x)"
    using lay_disj[OF good_lay[OF g] good_cell[OF g x] good_cell[OF g y]] by simp
  then show ?thesis
    using good_bounds(1)[OF g hi x] good_bounds(1)[OF g hi y] layD[OF good_lay[OF g] good_cell[OF g x]]
      layD[OF good_lay[OF g] good_cell[OF g y]]
    by (auto simp: hsep_def)
qed

lemma unat_h_add:
  assumes "unat n = snd x" and "bend x \<le> HEAPMAX"
  shows "unat (h_add (fst x) n) = bend x"
proof -
  have "h_add (fst x) n = fst x + of_nat (HDR * snd x)" by (simp add: h_add_def assms(1)[symmetric])
  then show ?thesis using assms(2) unat_add_of_nat[of "fst x" "HDR * snd x"] by (simp add: bend_def HEAPMAX_def)
qed

text \<open>The place of a block in the list.\<close>

lemma good_place:
  assumes g: "good hi bl (insert (a, k) al)" and a: "a \<notin> fst ` al"
  obtains pre q post where "bl = pre @ q # post" "bend q \<le> unat a" "fst q \<noteq> a" "snd q = 0 \<Longrightarrow> bend q < unat a"
    "pre = [] \<longleftrightarrow> snd q = 0" "\<And>x. x \<in> set post \<Longrightarrow> bend (a, k) \<le> unat (fst x)"
proof -
  let ?P = "\<lambda>x. unat (fst x) < unat a"
  have s: "sorted_wrt (\<lambda>x y. unat (fst x) < unat (fst y)) bl" by (rule good_distinct[OF g])
  have "?P (hd bl)" "bl \<noteq> []" using g by (auto simp: good_def)
  then have "takeWhile ?P bl \<noteq> []" by (cases bl) auto
  then obtain pre q where pre: "takeWhile ?P bl = pre @ [q]" by (metis rev_exhaust)
  define post where "post = dropWhile ?P bl"
  have bl: "bl = pre @ q # post" using takeWhile_dropWhile_id[of ?P bl] pre by (simp add: post_def)
  have q: "unat (fst q) < unat a" using pre set_takeWhileD[of q ?P bl] by auto
  have na: "a \<notin> fst ` set bl" using g by (auto simp: good_def)
  have up: "unat a < unat (fst x)" if "x \<in> set post" for x
  proof -
    obtain y ys where post: "post = y # ys" using \<open>x \<in> set post\<close> by (cases post) auto
    have "dropWhile ?P bl \<noteq> []" unfolding post_def[symmetric] post by simp
    then have "\<not> ?P (hd post)" unfolding post_def by (rule hd_dropWhile)
    then have "\<not> ?P y" by (simp add: post)
    moreover have "unat (fst y) \<le> unat (fst x)" using s that unfolding bl post by (auto simp: sorted_wrt_append less_imp_le)
    moreover have "fst x \<in> fst ` set bl" using that bl by auto
    then have "unat (fst x) \<noteq> unat a" using na by (metis word_unat_eq_iff)
    ultimately show ?thesis by simp
  qed
  have d: "bend (cell x) \<le> unat a \<or> bend (a, k) \<le> unat (fst x)" if "x \<in> set bl" for x
    using lay_disj[OF good_lay[OF g], of "cell x" "(a, k)"] that na by (auto simp: cell_def)
  have k: "unat a < bend (a, k)" using layD[OF good_lay[OF g], of "(a, k)"] by (auto simp: HDR_def)
  show ?thesis
  proof (rule that[OF bl])
    show "bend q \<le> unat a" using d[of q] bl q k cell_bend[of q] by auto
    show "snd q = 0 \<Longrightarrow> bend q < unat a" using q by (simp add: bend_def)
    show "fst q \<noteq> a" using q by auto
    show "pre = [] \<longleftrightarrow> snd q = 0" using g unfolding bl by (cases pre) (auto simp: good_def)
    show "bend (a, k) \<le> unat (fst x)" if "x \<in> set post" for x
      using d[of x] up[OF that] that bl cell_bend[of x] by auto
  qed
qed

end
