(* ===== verification/UmallocOps.thy ===== *)
theory UmallocOps
  imports UmallocHeap
begin

text \<open>
  The steps of \<open>free\<close>, \<open>malloc\<close> and \<open>morecore\<close> on a heap: linking a block back with its neighbours,
  taking all or the tail of a free block, and adding new memory.
\<close>

section \<open>Freeing a block\<close>

definition inside :: "block \<Rightarrow> u64 \<Rightarrow> bool" where
  "inside x y \<longleftrightarrow> unat (fst x) \<le> unat y \<and> unat y < bend x"

lemma heapD:
  assumes "heap m fp hi bl al"
  shows "good hi bl al" "hi \<le> HEAPMAX" "fp \<in> fst ` set bl" "links m (map fst bl) (fst (hd bl))"
    "x \<in> set bl \<union> al \<Longrightarrow> unat (h_size m (fst x)) = snd x"
  using assms by (auto simp: heap_def)

text \<open>The first half of \<open>free_link\<close>: the block grows over its right neighbour.\<close>

lemma grow_right:
  assumes g: "good hi (pre @ q # post) (insert (a, k) al)" and a: "a \<notin> fst ` al"
    and up: "\<And>x. x \<in> set post \<Longrightarrow> bend (a, k) \<le> unat (fst x)"
  defines "R \<equiv> post \<noteq> [] \<and> bend (a, k) = unat (fst (hd post))"
  shows "good hi (pre @ q # (if R then tl post else post)) (insert (a, k + (if R then snd (hd post) else 0)) al)"
    and "\<And>x. x \<in> set (if R then tl post else post) \<Longrightarrow> bend (a, k + (if R then snd (hd post) else 0)) < unat (fst x)"
proof -
  have s: "sorted_wrt (\<lambda>x y. bend x < unat (fst y)) post" using g by (auto simp: good_def sorted_wrt_append)
  show "good hi (pre @ q # (if R then tl post else post)) (insert (a, k + (if R then snd (hd post) else 0)) al)"
  proof (cases R)
    case True
    then obtain r nr rest where "post = (r, nr) # rest" "bend (a, k) = unat r" by (cases post) (auto simp: R_def)
    then show ?thesis using good_merge_right[of hi pre q r nr rest a k al] g a True by simp
  qed (use g in simp)
  fix x assume x: "x \<in> set (if R then tl post else post)"
  show "bend (a, k + (if R then snd (hd post) else 0)) < unat (fst x)"
  proof (cases post)
    case (Cons y ys)
    show ?thesis
    proof (cases R)
      case True
      then have "bend (a, k + snd y) = bend y" using Cons by (simp add: R_def bend_def add_mult_distrib2)
      then show ?thesis using x True s Cons by simp
    next
      case False
      then have "bend (a, k) < unat (fst y)" using up[of y] Cons by (auto simp: R_def)
      then show ?thesis using x False s Cons cell_bend(2)[of y] by auto
    qed
  qed (use x in auto)
qed

lemma unat_add_u32: "unat (x :: u32) + unat y < 2 ^ 32 \<Longrightarrow> unat (x + y) = unat x + unat y"
  by (simp add: unat_word_ariths)

lemma inside_apart:
  assumes g: "good hi bl al" and x: "x \<in> al" and y: "y \<in> set bl \<union> al" and "fst x \<noteq> fst y" and "inside x z"
  shows "unat z < unat (fst y) \<or> unat (fst y) + HDR \<le> unat z"
proof -
  have "x \<noteq> cell y" using assms(4) by auto
  then have "bend x \<le> unat (fst y) \<or> bend (cell y) \<le> unat (fst x)"
    using lay_disj[OF good_lay[OF g] _ good_cell[OF g y], of x] x by auto
  then show ?thesis
    using layD[OF good_lay[OF g] good_cell[OF g y]] assms(5) by (auto simp: inside_def)
qed

lemma good_map:
  assumes "good hi bl al"
  shows "sorted_wrt (<) (map fst bl)" "distinct (map fst bl)"
proof -
  show "sorted_wrt (<) (map fst bl)" using good_distinct[OF assms] by (simp add: sorted_wrt_map word_less_nat_alt)
  then show "distinct (map fst bl)" by (simp add: strict_sorted_iff)
qed

text \<open>Where \<open>free\<close> finds the block to insert after, and what its two tests of adjacency mean.\<close>

lemma free_place:
  assumes h: "heap m fp hi bl (insert (a, k) al)" and a: "a \<notin> fst ` al"
  obtains pre q nq post where "bl = pre @ (q, nq) # post" "free_find m a fp = Some q" "bend (q, nq) \<le> unat a"
    "nq = 0 \<Longrightarrow> bend (q, nq) < unat a" "pre = [] \<longleftrightarrow> nq = 0" "\<And>x. x \<in> set post \<Longrightarrow> bend (a, k) \<le> unat (fst x)"
    "h_add a (h_size m a) = h_ptr m q \<longleftrightarrow> post \<noteq> [] \<and> bend (a, k) = unat (fst (hd post))"
    "h_add q (h_size m q) = a \<longleftrightarrow> bend (q, nq) = unat a" "distinct (map fst pre @ q # a # map fst post)"
    "\<forall>x \<in> set (map fst pre @ q # a # map fst post). \<forall>y \<in> set (map fst pre @ q # a # map fst post). x \<noteq> y \<longrightarrow> hsep x y"
    "links m (map fst pre @ q # map fst post) (fst (hd bl))" "hd (map fst pre @ [q]) = fst (hd bl)"
proof -
  note hd = heapD[OF h]
  obtain pre q nq post where bl: "bl = pre @ (q, nq) # post" and q: "bend (q, nq) \<le> unat a" "q \<noteq> a"
      "nq = 0 \<Longrightarrow> bend (q, nq) < unat a" "pre = [] \<longleftrightarrow> nq = 0"
      and up: "\<And>x. x \<in> set post \<Longrightarrow> bend (a, k) \<le> unat (fst x)"
    using good_place[OF hd(1) a] by (metis prod.collapse fst_conv snd_conv)
  let ?ps = "map fst pre" and ?qs = "map fst post" and ?b = "fst (hd bl)"
  have hb: "hd (?ps @ [q]) = ?b" by (cases pre) (auto simp: bl)
  have mem: "\<exists>z \<in> set bl \<union> insert (a, k) al. fst z = x" if "x \<in> set (?ps @ q # a # ?qs)" for x
    using that bl by auto
  have sep: "\<forall>x \<in> set (?ps @ q # a # ?qs). \<forall>y \<in> set (?ps @ q # a # ?qs). x \<noteq> y \<longrightarrow> hsep x y"
    using good_hsep[OF hd(1,2)] mem by metis
  have na: "a \<notin> fst ` set bl" using hd(1) by (auto simp: good_def)
  note sw = good_map(1)[OF hd(1)]
  have dist: "distinct (?ps @ q # a # ?qs)" using good_map(2)[OF hd(1)] na by (auto simp: bl)
  have ka: "unat a < bend (a, k)" using layD[OF good_lay[OF hd(1)], of "(a, k)"] by (auto simp: HDR_def)
  have qa: "unat q < unat a" using q(1,3) by (cases "nq = 0") (auto simp: bend_def HDR_def)
  have ring: "links m (?ps @ q # ?qs) ?b" using hd(4) by (simp add: bl)
  have find: "free_find m a fp = Some q"
  proof (rule free_find_pred[of m ?ps q ?qs])
    show "a < x" if "x \<in> set ?qs" for x using that up ka by (fastforce simp: word_less_nat_alt)
  qed (use ring hb sw qa hd(3) in \<open>auto simp: word_less_nat_alt bl\<close>)
  have addr: "h_add (fst x) (h_size m (fst x)) = y \<longleftrightarrow> bend x = unat y" if "x \<in> set bl \<union> insert (a, k) al" for x y
    using unat_h_add[OF hd(5)[OF that] order.trans[OF good_bounds(2)[OF hd(1,2) that] hd(2)]] by (metis word_unat_eq_iff)
  have pq: "h_ptr m q = hd (?qs @ [?b])" using ring by (simp add: links_append)
  have "unat ?b < unat a" using hd(1) by (auto simp: good_def)
  then have R: "h_add a (h_size m a) = h_ptr m q \<longleftrightarrow> post \<noteq> [] \<and> bend (a, k) = unat (fst (hd post))"
    using addr[of "(a, k)"] ka pq by (cases post) auto
  have L: "h_add q (h_size m q) = a \<longleftrightarrow> bend (q, nq) = unat a"
    using addr[of "(q, nq)" a] by (simp add: bl)
  show ?thesis by (rule that[OF bl find q(1,3,4) up R L dist sep ring hb])
qed

lemma heap_free:
  assumes h: "heap m fp hi bl (insert (a, k) al)" and a: "a \<notin> fst ` al"
  shows "\<exists>q bl'. free_find m a fp = Some q \<and> heap (free_link a q m) q hi bl' al \<and> (\<exists>x \<in> set bl'. k \<le> snd x) \<and>
    fst (hd bl') = fst (hd bl) \<and> (\<forall>x \<in> al. \<forall>y. inside x y \<longrightarrow> free_link a q m y = m y)"
proof (rule free_place[OF h a], goal_cases)
  case (1 pre q nq post)
  note hd = heapD[OF h] and bl = 1(1) and up = 1(6)
  let ?ps = "map fst pre" and ?qs = "map fst post" and ?b = "fst (hd bl)" and ?m = "free_link a q m"
  define R where "R \<longleftrightarrow> post \<noteq> [] \<and> bend (a, k) = unat (fst (hd post))"
  define k1 where "k1 = k + (if R then snd (hd post) else 0)"
  define post1 where "post1 = (if R then tl post else post)"
  let ?L = "bend (q, nq) = unat a"
  have gr: "good hi (pre @ (q, nq) # post1) (insert (a, k1) al)" "\<And>x. x \<in> set post1 \<Longrightarrow> bend (a, k1) < unat (fst x)"
    using grow_right[of hi pre "(q, nq)" post a k al] hd(1) a up unfolding bl R_def k1_def post1_def by auto
  have hok: "hdr_ok q" "hdr_ok a" using good_bounds(1)[OF hd(1,2), of "(q, nq)"] good_bounds(1)[OF hd(1,2), of "(a, k)"] by (auto simp: bl)
  have "?qs \<noteq> []" if R using that by (simp add: R_def)
  note fl = free_link_list[of m ?ps q ?qs ?b a, OF 1(11,12,10,9) hok, unfolded 1(7,8) R_def[symmetric], OF this]
  define bl' where "bl' = pre @ (if ?L then (q, nq + k1) # post1 else (q, nq) # (a, k1) # post1)"
  have "pre \<noteq> []" if ?L using that 1(4,5) by auto
  then have g': "good hi bl' al"
    using good_merge_left[OF gr(1) a _ _ gr(2)] good_insert[OF gr(1) a _ gr(2)] 1(3) by (auto simp: bl'_def)
  have mf: "map fst bl' = ?ps @ q # (if ?L then [] else [a]) @ (if R then tl ?qs else ?qs)"
    by (auto simp: bl'_def post1_def map_tl)
  have hb': "fst (hd bl') = ?b" by (cases pre) (auto simp: bl'_def bl)
  have sz: "unat (h_size ?m (fst x)) = snd x" if x: "x \<in> set bl' \<union> al" for x
  proof -
    have k1: "unat (h_size m a + (if R then h_size m (hd ?qs) else 0)) = k1"
      using good_bounds(3)[OF gr(1) hd(2), of "(a, k1)"] hd(5)[of "hd post"] hd(5)[of "(a, k)"]
      by (auto simp: k1_def R_def bl hd_map unat_add_u32)
    have nq: "unat (h_size m q) = nq" using hd(5)[of "(q, nq)"] by (simp add: bl)
    have "nq + k1 < 2 ^ 32" if ?L using good_bounds(3)[OF g' hd(2), of "(q, nq + k1)"] that by (simp add: bl'_def)
    then have q': "unat (h_size ?m q) = (if ?L then nq + k1 else nq)" using fl(2) nq k1 by (simp add: unat_add_u32)
    have ss: "set post1 \<subseteq> set post" by (cases post) (auto simp: post1_def)
    have o: "unat (h_size ?m (fst x)) = snd x" if "x \<in> set pre \<union> set post1 \<union> al"
    proof -
      have m: "x \<in> set bl \<union> insert (a, k) al" using that ss by (auto simp: bl)
      have "fst x \<noteq> q" "fst x \<noteq> a" using that a hd(1) 1(9) ss by (auto simp: good_def bl)
      then show ?thesis
        using fl(4)[of "fst x"] good_hsep[OF hd(1,2) m, of "(q, nq)"] good_hsep[OF hd(1,2) m, of "(a, k)"] hd(5)[OF m] by (auto simp: bl)
    qed
    show ?thesis using x q' fl(3) k1 o by (cases ?L) (auto simp: bl'_def)
  qed
  have "heap ?m q hi bl' al"
    using g' hd(2) fl(1) hb' sz by (simp add: heap_def mf) (auto simp: bl'_def)
  moreover have "\<exists>x \<in> set bl'. k \<le> snd x" by (auto simp: bl'_def k1_def)
  moreover have "?m y = m y" if "x \<in> al" "inside x y" for x y
  proof -
    have "fst x \<noteq> q" "fst x \<noteq> a" using that(1) a hd(1) by (auto simp: good_def bl)
    then show ?thesis
      using fl(5)[of y] inside_apart[OF hd(1) _ _ _ that(2), of "(q, nq)"] inside_apart[OF hd(1) _ _ _ that(2), of "(a, k)"] that(1)
      by (auto simp: bl)
  qed
  ultimately show ?thesis using 1(2) hb' by blast
qed

section \<open>Taking a block\<close>

lemma good_take:
  assumes g: "good hi (pre @ q # p # post) al"
  shows "good hi (pre @ q # post) (insert p al)"
proof -
  have p: "1 \<le> snd p" using good_pos[OF g, of p] by simp
  then have "cell ` set (pre @ q # post) \<union> insert p al = cell ` set (pre @ q # p # post) \<union> al" by auto
  then have "lay hi (cell ` set (pre @ q # post) \<union> insert p al)" using good_lay[OF g] by simp
  moreover have "fst p \<notin> fst ` set (pre @ q # post)" using good_distinct[OF g] by (auto simp: sorted_wrt_append)
  moreover have "unat (fst (hd (pre @ [q]))) < unat (fst p)" using good_distinct[OF g] by (cases pre) auto
  ultimately show ?thesis
    using g by (auto simp: good_def good_hd good_tl sorted_wrt_append)
qed

lemma good_cut:
  assumes g: "good hi (pre @ q # (p, n + k) # post) al" and nk: "1 \<le> n" "1 \<le> k" and c: "unat c = bend (p, n)"
  shows "good hi (pre @ q # (p, n) # post) (insert (c, k) al)" "c \<notin> fst ` al"
proof -
  let ?B = "cell ` set (pre @ q # post) \<union> al"
  have n: "p \<notin> fst ` set (pre @ q # post)" "p \<notin> fst ` al" using g good_distinct[OF g] by (auto simp: good_def sorted_wrt_append)
  then have nB: "(p, n + k) \<notin> ?B" by (force simp: cell_def)
  have "cell ` set (pre @ q # (p, n + k) # post) \<union> al = insert (p, n + k) ?B" using nk by auto
  then have l0: "lay hi (insert (p, n + k) ?B)" using good_lay[OF g] by simp
  then have l: "lay hi (insert (p, n) (insert (c, k) ?B))" using lay_split nB nk c by metis
  have c': "c \<notin> fst ` ?B \<and> c \<noteq> p"
  proof -
    have "unat c \<noteq> unat (fst x)" if x: "x \<in> ?B" for x
    proof -
      have xB: "x \<in> insert (p, n + k) ?B" using x by (rule insertI2)
      have "(p, n + k) \<noteq> x" using nB x by metis
      then have "bend (p, n + k) \<le> unat (fst x) \<or> bend x \<le> unat p" using lay_disj[OF l0 insertI1 xB] by simp
      moreover have "unat (fst x) + HDR \<le> bend x" using layD[OF l0 xB] by simp
      moreover have "bend (p, n + k) = unat c + HDR * k" "unat p \<le> unat c" using c by (simp_all add: bend_def add_mult_distrib2)
      ultimately show ?thesis using nk by (auto simp: HDR_def)
    qed
    then have "c \<notin> fst ` ?B" by (intro notI, elim imageE) metis
    moreover have "unat c \<noteq> unat p" using c nk by (auto simp: bend_def HDR_def)
    ultimately show ?thesis by blast
  qed
  then have c2: "c \<notin> fst ` set (pre @ q # post)" by (simp add: image_Un image_image)
  show "c \<notin> fst ` al" using c' by auto
  have "unat (fst (hd (pre @ [q]))) < unat p" using good_distinct[OF g] by (cases pre) auto
  moreover have "unat p \<le> unat c" "bend (p, n) \<le> bend (p, n + k)" using c by (auto simp: bend_def)
  moreover have "cell ` set (pre @ q # (p, n) # post) \<union> insert (c, k) al = insert (p, n) (insert (c, k) ?B)" using nk by auto
  ultimately show "good hi (pre @ q # (p, n) # post) (insert (c, k) al)"
    using g l nk c' c2 by (simp add: good_def good_hd good_tl sorted_wrt_append) (meson le_less_trans)
qed

text \<open>The two ways of \<open>malloc\<close> to take a block: the whole of it, or its tail.\<close>

lemma take_whole:
  assumes h: "heap m fp hi (pre @ (q, nq) # (p, n) # post) al"
  shows "heap (set_ptr q (h_ptr m p) m) q hi (pre @ (q, nq) # post) (insert (p, n) al)"
proof -
  let ?bl = "pre @ (q, nq) # (p, n) # post" and ?m = "set_ptr q (h_ptr m p) m"
  note hd = heapD[OF h]
  have g: "good hi (pre @ (q, nq) # post) (insert (p, n) al)" by (rule good_take[OF hd(1)])
  note dist = good_map(2)[OF hd(1)]
  have hok: "hdr_ok q" using good_bounds(1)[OF hd(1,2), of "(q, nq)"] by simp
  have o: "hsep q (fst x)" if "x \<in> set ?bl \<union> al" "fst x \<noteq> q" for x
    using good_hsep[OF hd(1,2) _ that(1), of "(q, nq)"] that(2) by simp
  have l: "links m (map fst pre) q" "h_ptr m p = hd (map fst post @ [fst (hd ?bl)])" "links m (map fst post) (fst (hd ?bl))"
    using hd(4) by (auto simp: links_append)
  have ptr: "h_ptr ?m (fst x) = h_ptr m (fst x)" if "x \<in> set pre \<union> set post" for x
  proof -
    have "x \<in> set ?bl \<union> al" "fst x \<noteq> q" using that dist by auto
    then show ?thesis using o by simp
  qed
  have "links ?m (map fst pre) q" using l(1) ptr by (subst links_cong[of "map fst pre" _ m]) auto
  moreover have "links ?m (map fst post) (fst (hd ?bl))" using l(3) ptr by (subst links_cong[of "map fst post" _ m]) auto
  ultimately have "links ?m (map fst (pre @ (q, nq) # post)) (fst (hd ?bl))" using l(2) by (simp add: links_append)
  moreover have "hd (pre @ (q, nq) # post) = hd ?bl" by (cases pre) auto
  moreover have "unat (h_size ?m (fst x)) = snd x" if "x \<in> set ?bl \<union> al" for x
    using o[OF that] hd(5)[OF that] hok by (cases "fst x = q") auto
  ultimately show ?thesis using g hd(2) by (auto simp: heap_def)
qed

lemma take_tail:
  assumes h: "heap m fp hi (pre @ (q, nq) # (p, n + unat k) # post) al" and nk: "1 \<le> n" "0 < k"
  defines "m1 \<equiv> set_size p (h_size m p - k) m"
  defines "c \<equiv> h_add p (h_size m1 p)"
  shows "heap (set_size c k m1) q hi (pre @ (q, nq) # (p, n) # post) (insert (c, unat k) al)" and "c \<notin> fst ` al"
    and "unat c = bend (p, n)"
proof -
  let ?bl = "pre @ (q, nq) # (p, n + unat k) # post" and ?bl' = "pre @ (q, nq) # (p, n) # post" and ?m = "set_size c k m1"
  note hd = heapD[OF h]
  have "unat (h_size m p) = n + unat k" using hd(5)[of "(p, n + unat k)"] by simp
  then have sz: "unat (h_size m1 p) = n" by (simp add: m1_def unat_sub word_le_nat_alt)
  have "bend (p, n) \<le> HEAPMAX" using good_bounds(2)[OF hd(1,2), of "(p, n + unat k)"] hd(2) by (simp add: bend_def add_mult_distrib2)
  then show c: "unat c = bend (p, n)" using unat_h_add[of "h_size m1 p" "(p, n)"] sz by (simp add: c_def)
  have "1 \<le> unat k" using nk(2) by (simp add: word_less_nat_alt)
  note g = good_cut[OF hd(1) nk(1) this c]
  show "c \<notin> fst ` al" by (rule g(2))
  have hok: "hdr_ok p" "hdr_ok c" "hsep p c"
    using good_bounds(1)[OF g(1) hd(2), of "(p, n)"] good_bounds(1)[OF g(1) hd(2), of "(c, unat k)"]
      good_hsep[OF g(1) hd(2), of "(p, n)" "(c, unat k)"] g(1) by (auto simp: good_def)
  have o: "fst x \<noteq> p \<Longrightarrow> hsep p (fst x)" "hsep c (fst x)" if "x \<in> set ?bl' \<union> al" for x
    using good_hsep[OF g(1) hd(2), of "(p, n)" x] good_hsep[OF g(1) hd(2), of "(c, unat k)" x] that g by (auto simp: good_def)
  have "h_ptr ?m y = h_ptr m y" if "y \<in> set (map fst ?bl')" for y
  proof -
    have "y \<in> fst ` set ?bl'" using that by (simp only: list.set_map)
    then obtain x where "x \<in> set ?bl'" "y = fst x" by blast
    then show ?thesis using o[of x] hok by (cases "fst x = p") (auto simp: m1_def simp del: set_append)
  qed
  then have "links ?m (map fst ?bl') (fst (hd ?bl))" using hd(4) by (subst links_cong[of _ _ m]) auto
  moreover have "fst (hd ?bl') = fst (hd ?bl)" by (cases pre) auto
  moreover have "unat (h_size ?m (fst x)) = snd x" if x: "x \<in> set ?bl' \<union> al" for x
  proof (cases "fst x = p")
    case True
    have "p \<notin> fst ` (set pre \<union> set post \<union> al)" "p \<noteq> q"
      using hd(1) good_map(2)[OF g(1)] by (auto simp: good_def image_Un)
    then have "x = (p, n)" using x True by force
    then show ?thesis using sz hok by (simp add: hsep_sym)
  next
    case False
    then have "x \<in> set ?bl \<union> al" using x by auto
    then show ?thesis using o[OF x] False hd(5)[of x] by (simp add: m1_def)
  qed
  moreover have "unat (h_size ?m c) = unat k" by simp
  ultimately show "heap ?m q hi ?bl' (insert (c, unat k) al)" using g(1) hd(2) by (auto simp: heap_def)
qed

lemma heap_take:
  assumes h: "heap (umem s) fp hi bl al" and q: "q \<in> fst ` set bl" and fits: "n \<le> h_size (umem s) (h_ptr (umem s) q)" and n: "0 < n"
  shows "\<exists>p m' bl'. malloc_take n q (h_ptr (umem s) q) s = Ret (p + of_nat HDR) (s\<lparr>umem := m', u_freep := q\<rparr>) \<and>
    heap m' q hi bl' (insert (p, unat n) al) \<and> fst (hd bl') = fst (hd bl) \<and> p \<notin> fst ` al \<and>
    (\<forall>x \<in> al. \<forall>y. inside x y \<longrightarrow> m' y = umem s y)"
proof -
  let ?m = "umem s" and ?b = "fst (hd bl)"
  note hd = heapD[OF h]
  obtain pre nq rest where bl: "bl = pre @ (q, nq) # rest" using q split_list by fastforce
  have pq: "h_ptr ?m q = hd (map fst rest @ [?b])" using hd(4) by (simp add: bl links_append)
  have "unat (h_size ?m ?b) = 0" using hd(5)[of "hd bl"] hd(1) by (auto simp: good_def)
  then have "h_ptr ?m q \<noteq> ?b" using fits n by (auto simp: word_le_nat_alt word_less_nat_alt)
  then obtain p np post where rest: "rest = (p, np) # post" and p: "h_ptr ?m q = p" using pq by (cases rest) auto
  have hp: "unat (h_size ?m p) = np" using hd(5)[of "(p, np)"] by (simp add: bl rest)
  have np: "unat n \<le> np" using fits hp p by (simp add: word_le_nat_alt)
  have qp: "fst x \<noteq> q" "fst x \<noteq> p" if "x \<in> al" for x using that hd(1) by (auto simp: good_def bl rest)
  have hok: "hdr_ok q" "hdr_ok p" using good_bounds(1)[OF hd(1,2), of "(q, nq)"] good_bounds(1)[OF hd(1,2), of "(p, np)"] by (auto simp: bl rest)
  show ?thesis
  proof (cases "np = unat n")
    case True
    then have "h_size ?m p = n" using hp by (simp add: word_unat_eq_iff)
    then have run: "malloc_take n q (h_ptr ?m q) s = Ret (p + of_nat HDR) (s\<lparr>umem := set_ptr q (h_ptr ?m p) ?m, u_freep := q\<rparr>)"
      by (simp add: malloc_take_def Let_def p)
    have "set_ptr q (h_ptr ?m p) ?m y = ?m y" if "x \<in> al" "inside x y" for x y
      using set_frame(1)[OF hok(1)] inside_apart[OF hd(1) that(1) _ _ that(2), of "(q, nq)"] qp[OF that(1)] by (auto simp: bl)
    moreover have "fst (hd (pre @ (q, nq) # post)) = ?b" "p \<notin> fst ` al" using qp by (cases pre; auto simp: bl)+
    ultimately show ?thesis using run take_whole[of ?m fp hi pre q nq p np post al] h True unfolding bl rest by blast
  next
    case False
    define k where "k = np - unat n"
    define c where "c = h_add p (h_size (set_size p (h_size ?m p - n) ?m) p)"
    have np': "np = k + unat n" "1 \<le> k" using np False by (auto simp: k_def)
    have "h_size ?m p \<noteq> n" using hp False by auto
    then have run: "malloc_take n q (h_ptr ?m q) s =
        Ret (c + of_nat HDR) (s\<lparr>umem := set_size c n (set_size p (h_size ?m p - n) ?m), u_freep := q\<rparr>)"
      by (simp add: malloc_take_def Let_def p c_def)
    have "heap ?m fp hi (pre @ (q, nq) # (p, k + unat n) # post) al" using h by (simp add: bl rest np'(1))
    note tt = take_tail[OF this np'(2) n, folded c_def]
    note g = heapD(1)[OF tt(1)]
    have cok: "hdr_ok c" using good_bounds(1)[OF g hd(2), of "(c, unat n)"] by simp
    have "set_size c n (set_size p (h_size ?m p - n) ?m) y = ?m y" if x: "x \<in> al" "inside x y" for x y
    proof -
      have "fst x \<noteq> c" using x(1) tt(2) by auto
      then show ?thesis
        using set_frame(2)[OF cok] set_frame(2)[OF hok(2)] inside_apart[OF hd(1) x(1) _ _ x(2), of "(p, np)"] qp[OF x(1)]
          inside_apart[OF g _ _ _ x(2), of "(c, unat n)"] x(1) by (auto simp: bl rest)
    qed
    moreover have "fst (hd (pre @ (q, nq) # (p, k) # post)) = ?b" by (cases pre; auto simp: bl)
    ultimately show ?thesis using run tt(1,2) by blast
  qed
qed

lemma heap_grow:
  assumes h: "heap m fp hi bl al" and a: "hi \<le> unat a" "1 \<le> unat n" "unat a + HDR * unat n \<le> HEAPMAX"
  shows "heap (set_size a n m) fp (unat a + HDR * unat n) bl (insert (a, unat n) al)" "a \<notin> fst ` al"
    and "\<forall>x \<in> al. \<forall>y. inside x y \<longrightarrow> set_size a n m y = m y"
proof -
  let ?hi = "unat a + HDR * unat n"
  note hd = heapD[OF h]
  have below: "unat (fst x) + HDR \<le> hi" if "x \<in> set bl \<union> al" for x
    using layD[OF good_lay[OF hd(1)] good_cell[OF hd(1) that]] by simp
  have na: "a \<notin> fst ` (set bl \<union> al)" using below a(1) by (fastforce simp: HDR_def)
  then show "a \<notin> fst ` al" by auto
  have "lay ?hi (insert (a, unat n) (cell ` set bl \<union> al))"
  proof (rule lay_insert)
    show "lay ?hi (cell ` set bl \<union> al)" using good_lay[OF hd(1)] a(1) by (auto elim: lay_mono)
    show "bend (a, unat n) \<le> unat (fst y) \<or> bend y \<le> unat (fst (a, unat n))" if "y \<in> cell ` set bl \<union> al" for y
      using layD[OF good_lay[OF hd(1)] that] a(1) by simp
  qed (use a in \<open>auto simp: bend_def\<close>)
  moreover have "unat (fst (hd bl)) < unat a" using below[of "hd bl"] hd(1) a(1) by (auto simp: good_def HDR_def)
  ultimately have g: "good ?hi bl (insert (a, unat n) al)" using hd(1) na by (auto simp: good_def)
  have o: "hsep a (fst x)" if "x \<in> set bl \<union> al" for x
    using good_hsep[OF g a(3), of "(a, unat n)" x] that na by auto
  have hok: "hdr_ok a" using good_bounds(1)[OF g a(3), of "(a, unat n)"] by simp
  have "h_ptr (set_size a n m) y = h_ptr m y" if "y \<in> set (map fst bl)" for y
    using that o by (metis UnI1 h_other(3) imageE list.set_map)
  then have "links (set_size a n m) (map fst bl) (fst (hd bl))" using hd(4) by (subst links_cong[of _ _ m]) auto
  moreover have "unat (h_size (set_size a n m) (fst x)) = snd x" if "x \<in> set bl \<union> al" for x
    using o[OF that] hd(5)[OF that] by simp
  ultimately show "heap (set_size a n m) fp ?hi bl (insert (a, unat n) al)" using g hd(3) a(3) by (auto simp: heap_def)
  show "\<forall>x \<in> al. \<forall>y. inside x y \<longrightarrow> set_size a n m y = m y"
  proof (intro ballI allI impI)
    fix x y assume x: "x \<in> al" "inside x y"
    then have "fst x \<noteq> a" using na by auto
    then show "set_size a n m y = m y" using set_frame(2)[OF hok] inside_apart[OF g _ _ _ x(2), of "(a, unat n)"] x(1) by auto
  qed
qed

section \<open>The operations on the state\<close>

text \<open>
  A program that has the blocks \<open>al\<close> and whose memory ends at \<open>hi\<close>. Before the first call of
  \<open>malloc\<close> there is no list.
\<close>

definition heap_ok :: "nat \<Rightarrow> 'z umst_scheme \<Rightarrow> block set \<Rightarrow> bool" where
  "heap_ok hi s al \<longleftrightarrow>
     (if u_freep s = 0 then al = {} \<and> 0 < unat (u_base s) \<and> unat (u_base s) + HDR \<le> hi \<and> hi \<le> HEAPMAX
      else \<exists>bl. heap (umem s) (u_freep s) hi bl al \<and> fst (hd bl) = u_base s)"

text \<open>The kernel's answer to \<open>sbrk\<close>: an error, or new memory of \<open>n\<close> bytes above the old.\<close>

definition sbrk_answer :: "nat \<Rightarrow> nat \<Rightarrow> uresp \<Rightarrow> bool" where
  "sbrk_answer hi n r \<longleftrightarrow> rs_val r = -1 \<or> int hi \<le> rs_val r \<and> nat (rs_val r) + n \<le> HEAPMAX"

definition units_asked :: "u32 \<Rightarrow> nat" where
  "units_asked n = max 4096 (unat n)"

definition untouched :: "block set \<Rightarrow> 'z umst_scheme \<Rightarrow> 'z umst_scheme \<Rightarrow> bool" where
  "untouched al s t \<longleftrightarrow> u_base t = u_base s \<and> (\<forall>x \<in> al. \<forall>y. inside x y \<longrightarrow> umem t y = umem s y)"

lemma heap_fp: "heap m fp hi bl al \<Longrightarrow> fp \<noteq> 0"
  using heapD(3) good_bounds(4)[OF heapD(1,2)] by fastforce

lemma sint_small:
  assumes "HDR * k < 2 ^ 31" and "unat n = k"
  shows "sint (ucast (ucast (n :: u32) * of_nat HDR :: u64) :: u32) = int (HDR * k)"
proof -
  define w :: u64 where "w = ucast n * of_nat HDR"
  have w: "w = of_nat (HDR * k)" using assms(2) by (auto simp: w_def)
  have uw: "unat w = HDR * k" unfolding w using assms(1) by (intro unat_of_nat_u64) simp
  have "unat (ucast w :: u32) = take_bit 32 (unat w)" by (simp add: unsigned_ucast_eq)
  also have "\<dots> = HDR * k" unfolding uw using assms(1) by (intro take_bit_nat_eq_self) simp
  finally have "uint (ucast w :: u32) = int (HDR * k)" by (metis uint_nat)
  then have "sint (ucast w :: u32) = signed_take_bit 31 (int (HDR * k))" by (simp add: sint_uint)
  also have "\<dots> = int (HDR * k)" using assms(1) by (intro signed_take_bit_int_eq_self) (simp_all add: HDR_def)
  finally have "sint (ucast w :: u32) = int (HDR * k)" .
  then show ?thesis by (simp add: w_def)
qed

lemma morecore_ok:
  assumes h: "heap (umem s) (u_freep s) hi bl al" and r: "u_resp s = r # rs" "sbrk_answer hi (HDR * units_asked n) r"
    and n: "HDR * units_asked n < 2 ^ 31"
  shows "rs_val r = -1 \<Longrightarrow> \<exists>t. morecore n s = Ret 0 t \<and> u_resp t = rs \<and> umem t = umem s \<and> u_freep t = u_freep s \<and> u_base t = u_base s"
    and "rs_val r \<noteq> -1 \<Longrightarrow> \<exists>t bl'. morecore n s = Ret (u_freep t) t \<and> u_resp t = rs \<and> u_freep t \<noteq> 0 \<and>
      heap (umem t) (u_freep t) (nat (rs_val r) + HDR * units_asked n) bl' al \<and> fst (hd bl') = fst (hd bl) \<and>
      (\<exists>x \<in> set bl'. unat n \<le> snd x) \<and> untouched al s t"
proof -
  let ?nu = "if n < 4096 then 4096 else n" and ?s = "s\<lparr>u_resp := rs, u_log := u_log s @ [(Uc_sbrk (int (HDR * units_asked n)) SBRK_EAGER, r)]\<rparr>"
  have nu: "unat ?nu = units_asked n" by (auto simp: units_asked_def word_less_nat_alt)
  have "sint (ucast (ucast ?nu * of_nat HDR :: u64) :: u32) = int (HDR * units_asked n)"
    using sint_small[OF n nu] .
  then have sb: "u_sbrk (sint (ucast (ucast ?nu * of_nat HDR :: u64) :: u32)) s = Ret (word_of_int (rs_val r)) ?s"
    by (simp add: u_sbrk_def sysv_def sys_def r(1))
  show "\<exists>t. morecore n s = Ret 0 t \<and> u_resp t = rs \<and> umem t = umem s \<and> u_freep t = u_freep s \<and> u_base t = u_base s" if "rs_val r = -1"
    using sb that by (simp add: morecore_def Let_def)
  show "\<exists>t bl'. morecore n s = Ret (u_freep t) t \<and> u_resp t = rs \<and> u_freep t \<noteq> 0 \<and>
      heap (umem t) (u_freep t) (nat (rs_val r) + HDR * units_asked n) bl' al \<and> fst (hd bl') = fst (hd bl) \<and>
      (\<exists>x \<in> set bl'. unat n \<le> snd x) \<and> untouched al s t" if "rs_val r \<noteq> -1"
  proof -
    define a :: u64 where "a = word_of_int (rs_val r)"
    have v: "int hi \<le> rs_val r" "nat (rs_val r) + HDR * units_asked n \<le> HEAPMAX" using r(2) that by (auto simp: sbrk_answer_def)
    have a: "unat a = nat (rs_val r)"
      using v unat_of_nat_u64[of "nat (rs_val r)"] by (simp add: a_def HEAPMAX_def flip: of_nat_nat)
    have ge: "hi \<le> unat a" "1 \<le> unat ?nu" "unat a + HDR * unat ?nu \<le> HEAPMAX"
      using v a nu by (auto simp: units_asked_def)
    note g = heap_grow[OF h ge]
    obtain q bl' where q: "free_find (set_size a ?nu (umem s)) a (u_freep s) = Some q"
      "heap (free_link a q (set_size a ?nu (umem s))) q (unat a + HDR * unat ?nu) bl' al" "\<exists>x \<in> set bl'. unat ?nu \<le> snd x"
      "fst (hd bl') = fst (hd bl)"
      "\<forall>x \<in> al. \<forall>y. inside x y \<longrightarrow> free_link a q (set_size a ?nu (umem s)) y = set_size a ?nu (umem s) y"
      using heap_free[OF g(1,2)] by blast
    have "unat (-1 :: u64) = 2 ^ 64 - 1" by (simp add: unsigned_minus_1_eq_mask mask_eq_exp_minus_1)
    then have "a \<noteq> -1" using ge(3) by (auto simp: HEAPMAX_def)
    then have "morecore n s = Ret q (?s\<lparr>umem := free_link a q (set_size a ?nu (umem s)), u_freep := q\<rparr>)"
      using sb q(1) by (simp add: morecore_def Let_def u_free_def a_def[symmetric])
    moreover note heap_fp[OF q(2)]
    moreover have "unat n \<le> unat ?nu" by (simp add: word_less_nat_alt)
    ultimately show ?thesis
      using q g(3) a nu by (intro exI[of _ "?s\<lparr>umem := free_link a q (set_size a ?nu (umem s)), u_freep := q\<rparr>"] exI[of _ bl'])
        (auto simp: untouched_def intro: order.trans)
  qed
qed

end
