(* ===== verification/UmallocSpec.thy ===== *)
theory UmallocSpec
  imports UmallocOps
begin

text \<open>
  The storage allocator of user programs against its contract: the blocks handed out are large
  enough and do not meet each other or the free list, their contents are left alone, and every
  call returns.
\<close>

section \<open>The calls\<close>

lemma heap_okI: "heap (umem s) (u_freep s) hi bl al \<Longrightarrow> fst (hd bl) = u_base s \<Longrightarrow> heap_ok hi s al"
  using heap_fp by (auto simp: heap_ok_def)

text \<open>A search that starts where the last one ended, and takes what it finds.\<close>

lemma malloc_loop_found:
  assumes h: "heap (umem s) (u_freep s) hi bl al" and b: "fst (hd bl) = u_base s" and n: "0 < n"
    and big: "\<exists>x \<in> set bl. unat n \<le> snd x"
  shows "\<exists>p t. malloc_loop n (u_freep s) s = Ret (p + of_nat HDR) t \<and> heap_ok hi t (insert (p, unat n) al) \<and>
    p \<notin> fst ` al \<and> untouched al s t \<and> u_resp t = u_resp s"
proof -
  note hd = heapD[OF h]
  have "links (umem s) (map fst bl) (hd (map fst bl))" using hd(1,4) by (cases bl) (auto simp: good_def)
  moreover have "u_freep s \<in> set (map fst bl)" using hd(3) by simp
  moreover obtain x where "x \<in> set bl" "n \<le> h_size (umem s) (fst x)" using big hd(5) by (auto simp: word_le_nat_alt)
  ultimately obtain q where q: "q \<in> fst ` set bl" "n \<le> h_size (umem s) (h_ptr (umem s) q)"
      "malloc_scan (umem s) (u_freep s) n (u_freep s) (h_ptr (umem s) (u_freep s)) = Some (True, q, h_ptr (umem s) q)"
    using malloc_scan_ring[OF _ good_map(2)[OF hd(1)], of "umem s" "u_freep s" n] by force
  obtain p m' bl' where t: "malloc_take n q (h_ptr (umem s) q) s = Ret (p + of_nat HDR) (s\<lparr>umem := m', u_freep := q\<rparr>)"
      "heap m' q hi bl' (insert (p, unat n) al)" "fst (hd bl') = fst (hd bl)" "p \<notin> fst ` al"
      "\<forall>x \<in> al. \<forall>y. inside x y \<longrightarrow> m' y = umem s y"
    using heap_take[OF h q(1,2) n] by blast
  have "heap_ok hi (s\<lparr>umem := m', u_freep := q\<rparr>) (insert (p, unat n) al)" using t(2,3) b by (intro heap_okI) auto
  then show ?thesis using t q(3) by (subst malloc_loop.simps) (auto simp: untouched_def)
qed

lemma links_closed: "links m xs y \<Longrightarrow> x \<in> set xs \<Longrightarrow> h_ptr m x \<in> insert y (set xs)"
  by (induction xs) (auto simp: hd_append split: if_splits)

text \<open>A call uses an answer to \<open>sbrk\<close>, and the memory grows, or leaves it.\<close>

definition grown :: "nat \<Rightarrow> u32 \<Rightarrow> uresp \<Rightarrow> uresp list \<Rightarrow> 'z umst_scheme \<Rightarrow> block set \<Rightarrow> bool" where
  "grown hi n r rs t al \<longleftrightarrow> u_resp t = r # rs \<and> heap_ok hi t al \<or>
     u_resp t = rs \<and> rs_val r \<noteq> -1 \<and> heap_ok (nat (rs_val r) + HDR * units_asked n) t al"

lemma malloc_loop_grow:
  assumes h: "heap (umem s) (u_freep s) hi bl al" and none: "\<not> (\<exists>x \<in> set bl. unat n \<le> snd x)"
  shows "malloc_loop n (u_freep s) s = bindr (morecore n s) (\<lambda>p s. if p = 0 then Ret 0 s else malloc_loop n p s)"
proof -
  note hd = heapD[OF h]
  have "links (umem s) (map fst bl) (hd (map fst bl))" using hd(1,4) by (cases bl) (auto simp: good_def)
  moreover have "u_freep s \<in> set (map fst bl)" using hd(3) by simp
  moreover have "\<not> n \<le> h_size (umem s) (h_ptr (umem s) q)" if "q \<in> fst ` set bl" for q
  proof -
    have "h_ptr (umem s) q \<in> fst ` set bl" using links_closed[OF hd(4), of q] that hd(1) by (auto simp: good_def)
    then obtain x where "x \<in> set bl" "h_ptr (umem s) q = fst x" by auto
    then show ?thesis using none hd(5)[of x] by (auto simp: word_le_nat_alt)
  qed
  ultimately obtain q where q: "malloc_scan (umem s) (u_freep s) n (u_freep s) (h_ptr (umem s) (u_freep s)) = Some (False, q, u_freep s)"
    using malloc_scan_ring[OF _ good_map(2)[OF hd(1)], of "umem s" "u_freep s" n] by force
  then show ?thesis
    by (subst malloc_loop.simps) simp
qed

lemma malloc_loop_ok:
  assumes h: "heap (umem s) (u_freep s) hi bl al" and b: "fst (hd bl) = u_base s" and n: "0 < n"
    and r: "u_resp s = r # rs" "sbrk_answer hi (HDR * units_asked n) r" and small: "HDR * units_asked n < 2 ^ 31"
  shows "(\<exists>t. malloc_loop n (u_freep s) s = Ret 0 t \<and> rs_val r = -1 \<and> heap_ok hi t al \<and> untouched al s t) \<or>
    (\<exists>p t. malloc_loop n (u_freep s) s = Ret (p + of_nat HDR) t \<and>
      grown hi n r rs t (insert (p, unat n) al) \<and> p \<notin> fst ` al \<and> untouched al s t)"
proof (cases "\<exists>x \<in> set bl. unat n \<le> snd x")
  case True
  then obtain p t where "malloc_loop n (u_freep s) s = Ret (p + of_nat HDR) t" "heap_ok hi t (insert (p, unat n) al)"
      "p \<notin> fst ` al" "untouched al s t" "u_resp t = r # rs"
    using malloc_loop_found[OF h b n] r(1) by metis
  then show ?thesis unfolding grown_def by metis
next
  case False
  note run = malloc_loop_grow[OF h False]
  show ?thesis
  proof (cases "rs_val r = -1")
    case True
    then obtain t where t: "morecore n s = Ret 0 t" "umem t = umem s" "u_freep t = u_freep s" "u_base t = u_base s"
      using morecore_ok(1)[OF h r small] by blast
    then have "heap_ok hi t al" using h b by (intro heap_okI) auto
    then show ?thesis using run t True by (auto simp: untouched_def)
  next
    case False
    then obtain t bl' where t: "morecore n s = Ret (u_freep t) t" "u_freep t \<noteq> 0" "u_resp t = rs"
        "heap (umem t) (u_freep t) (nat (rs_val r) + HDR * units_asked n) bl' al" "fst (hd bl') = fst (hd bl)"
        "\<exists>x \<in> set bl'. unat n \<le> snd x" "untouched al s t"
      using morecore_ok(2)[OF h r small] by blast
    then have "fst (hd bl') = u_base t" using b by (simp add: untouched_def)
    then obtain p u where "malloc_loop n (u_freep t) t = Ret (p + of_nat HDR) u" "p \<notin> fst ` al" "untouched al t u"
        "heap_ok (nat (rs_val r) + HDR * units_asked n) u (insert (p, unat n) al)" "u_resp u = rs"
      using malloc_loop_found[OF t(4) _ n t(6)] t(3) by metis
    moreover have "untouched al s u" using t(7) calculation(3) by (auto simp: untouched_def)
    ultimately show ?thesis using run t(1,2) False unfolding grown_def by auto
  qed
qed

text \<open>The first call makes the list of one empty block.\<close>

lemma heap_start:
  assumes "0 < unat b" and "unat b + HDR \<le> hi" and "hi \<le> HEAPMAX"
  shows "heap (set_size b 0 (set_ptr b b m)) b hi [(b, 0)] {}"
proof -
  have "hdr_ok b" using assms by (simp add: hdr_ok_def HEAPMAX_def)
  then show ?thesis using assms by (simp add: heap_def good_def lay_def cell_def bend_def)
qed

lemma unat_nunits: "unat (nunits_of nbytes) = (unat nbytes + HDR - 1) div HDR + 1"
proof -
  have nb: "unat nbytes < 2 ^ 32" using unsigned_less[of nbytes, where 'a = nat] by simp
  define y :: u64 where "y = ucast nbytes + of_nat HDR - 1"
  define x where "x = y div of_nat HDR + 1"
  have u: "unat (ucast nbytes :: u64) = unat nbytes" by (simp add: unsigned_ucast_eq take_bit_nat_eq_self nb less_trans[OF nb])
  have "y = ucast nbytes + of_nat 15" by (simp add: y_def HDR_def)
  then have y: "unat y = unat nbytes + 15" using nb unat_add_of_nat[of "ucast nbytes" 15] u by simp
  have "unat x = (unat nbytes + 15) div 16 + 1" using nb y by (simp add: x_def HDR_def unat_word_ariths)
  then have "unat (ucast x :: u32) = (unat nbytes + 15) div 16 + 1"
    using nb by (simp add: unsigned_ucast_eq take_bit_nat_eq_self)
  then show ?thesis by (simp add: nunits_of_def x_def y_def HDR_def)
qed

lemma u_malloc_grown:
  assumes h: "heap_ok hi s al" and r: "u_resp s = r # rs" "sbrk_answer hi (HDR * units_asked (nunits_of nbytes)) r"
    and small: "HDR * units_asked (nunits_of nbytes) < 2 ^ 31"
  shows "(\<exists>t. u_malloc nbytes s = Ret 0 t \<and> rs_val r = -1 \<and> heap_ok hi t al \<and> untouched al s t) \<or>
    (\<exists>p t. u_malloc nbytes s = Ret (p + of_nat HDR) t \<and>
      grown hi (nunits_of nbytes) r rs t (insert (p, unat (nunits_of nbytes)) al) \<and> p \<notin> fst ` al \<and> untouched al s t)"
proof -
  define s0 where "s0 = (if u_freep s = 0
     then s\<lparr>umem := set_size (u_base s) 0 (set_ptr (u_base s) (u_base s) (umem s)), u_freep := u_base s\<rparr> else s)"
  have n: "0 < nunits_of nbytes" by (simp add: word_less_nat_alt unat_nunits)
  obtain bl where bl: "heap (umem s0) (u_freep s0) hi bl al" "fst (hd bl) = u_base s0"
    using h heap_start[of "u_base s" hi "umem s"] by (auto simp: s0_def heap_ok_def split: if_splits)
  have "u_resp s0 = r # rs" using r(1) by (simp add: s0_def)
  note loop = malloc_loop_ok[OF bl n this r(2) small]
  have "untouched al s s0" using h by (auto simp: s0_def untouched_def heap_ok_def)
  then have "untouched al s t" if "untouched al s0 t" for t using that by (auto simp: untouched_def)
  then show ?thesis using loop by (auto simp: u_malloc_def Let_def s0_def[symmetric])
qed

text \<open>Without an answer the call takes a block of the list or waits for \<open>sbrk\<close>.\<close>

lemma morecore_waits: "u_resp s = [] \<Longrightarrow> \<exists>t. morecore n s = Blocked t"
  by (simp add: morecore_def Let_def u_sbrk_def sysv_def sys_def)

lemma u_malloc_waits:
  assumes h: "heap_ok hi s al" and r: "u_resp s = []"
  shows "(\<exists>t. u_malloc nbytes s = Blocked t) \<or>
    (\<exists>p t. u_malloc nbytes s = Ret (p + of_nat HDR) t \<and> heap_ok hi t (insert (p, unat (nunits_of nbytes)) al) \<and>
      p \<notin> fst ` al \<and> u_resp t = [])"
proof -
  define s0 where "s0 = (if u_freep s = 0
     then s\<lparr>umem := set_size (u_base s) 0 (set_ptr (u_base s) (u_base s) (umem s)), u_freep := u_base s\<rparr> else s)"
  have n: "0 < nunits_of nbytes" by (simp add: word_less_nat_alt unat_nunits)
  obtain bl where bl: "heap (umem s0) (u_freep s0) hi bl al" "fst (hd bl) = u_base s0"
    using h heap_start[of "u_base s" hi "umem s"] by (auto simp: s0_def heap_ok_def split: if_splits)
  have r0: "u_resp s0 = []" using r by (simp add: s0_def)
  have run: "u_malloc nbytes s = malloc_loop (nunits_of nbytes) (u_freep s0) s0" by (simp add: u_malloc_def Let_def s0_def)
  show ?thesis
  proof (cases "\<exists>x \<in> set bl. unat (nunits_of nbytes) \<le> snd x")
    case True
    then show ?thesis using malloc_loop_found[OF bl n True] r0 run by fastforce
  next
    case False
    then show ?thesis using malloc_loop_grow[OF bl(1) False] morecore_waits[OF r0, of "nunits_of nbytes"] run by auto
  qed
qed

text \<open>The end of the memory after a call: the call uses the answer to \<open>sbrk\<close> or leaves it.\<close>

definition hi_after :: "nat \<Rightarrow> u32 \<Rightarrow> uresp \<Rightarrow> 'z umst_scheme \<Rightarrow> nat" where
  "hi_after hi n r t = (if u_resp t = [] \<and> rs_val r \<noteq> -1 then nat (rs_val r) + HDR * units_asked n else hi)"

lemma u_malloc_ok:
  assumes h: "heap_ok hi s al" and r: "u_resp s = [r]" "sbrk_answer hi (HDR * units_asked (nunits_of nbytes)) r"
    and small: "HDR * units_asked (nunits_of nbytes) < 2 ^ 31"
  shows "(\<exists>t. u_malloc nbytes s = Ret 0 t \<and> rs_val r = -1 \<and> heap_ok hi t al \<and> untouched al s t) \<or>
    (\<exists>p t. u_malloc nbytes s = Ret (p + of_nat HDR) t \<and>
      heap_ok (hi_after hi (nunits_of nbytes) r t) t (insert (p, unat (nunits_of nbytes)) al) \<and> p \<notin> fst ` al \<and> untouched al s t)"
  using u_malloc_grown[OF h r small] by (force simp: grown_def hi_after_def)

lemma u_free_ok:
  assumes h: "heap_ok hi s al" and a: "(a, k) \<in> al"
  shows "\<exists>t. u_free (a + of_nat HDR) s = Ret () t \<and> heap_ok hi t (al - {(a, k)}) \<and> untouched (al - {(a, k)}) s t"
proof -
  obtain bl where bl: "heap (umem s) (u_freep s) hi bl al" "fst (hd bl) = u_base s"
    using h a by (auto simp: heap_ok_def split: if_splits)
  have al: "insert (a, k) (al - {(a, k)}) = al" using a by auto
  have "x = (a, k)" if "x \<in> al" "fst x = a" for x
    using heapD(5)[OF bl(1), of x] heapD(5)[OF bl(1), of "(a, k)"] that a by (cases x) auto
  then have "a \<notin> fst ` (al - {(a, k)})" by blast
  then obtain q bl' where q: "free_find (umem s) a (u_freep s) = Some q" "heap (free_link a q (umem s)) q hi bl' (al - {(a, k)})"
      "fst (hd bl') = fst (hd bl)" "\<forall>x \<in> al - {(a, k)}. \<forall>y. inside x y \<longrightarrow> free_link a q (umem s) y = umem s y"
    using heap_free[of "umem s" "u_freep s" hi bl a k "al - {(a, k)}"] bl(1) al by auto
  have "heap_ok hi (s\<lparr>umem := free_link a q (umem s), u_freep := q\<rparr>) (al - {(a, k)})"
    using q(2,3) bl(2) by (intro heap_okI) auto
  then show ?thesis using q by (simp add: u_free_def untouched_def)
qed

section \<open>A program that uses the allocator\<close>

text \<open>
  The program calls \<open>malloc\<close> with whatever answer the kernel has for \<open>sbrk\<close>, frees blocks it has,
  writes anywhere in the bytes it was given, and may call \<open>sbrk\<close> itself.
\<close>

record msys =
  ms :: umst
  m_hi :: nat
  m_al :: "block set"

definition client_part :: "block \<Rightarrow> u64 \<Rightarrow> bool" where
  "client_part x y \<longleftrightarrow> unat (fst x) + HDR \<le> unat y \<and> unat y < bend x"

definition malloc_fits :: "nat \<Rightarrow> u32 \<Rightarrow> uresp \<Rightarrow> bool" where
  "malloc_fits hi nbytes r \<longleftrightarrow> sbrk_answer hi (HDR * units_asked (nunits_of nbytes)) r \<and>
     HDR * units_asked (nunits_of nbytes) < 2 ^ 31"

inductive ms_step :: "msys \<Rightarrow> msys \<Rightarrow> bool" where
  ms_malloc: "malloc_fits (m_hi x) nbytes r \<Longrightarrow> u_malloc nbytes ((ms x)\<lparr>u_resp := [r]\<rparr>) = Ret p t \<Longrightarrow>
    ms_step x \<lparr>ms = t, m_hi = hi_after (m_hi x) (nunits_of nbytes) r t,
      m_al = (if p = 0 then m_al x else insert (p - of_nat HDR, unat (nunits_of nbytes)) (m_al x))\<rparr>"
| ms_free: "(a, k) \<in> m_al x \<Longrightarrow> u_free (a + of_nat HDR) (ms x) = Ret () t \<Longrightarrow>
    ms_step x (x\<lparr>ms := t, m_al := m_al x - {(a, k)}\<rparr>)"
| ms_write: "(\<And>y. m y \<noteq> umem (ms x) y \<Longrightarrow> \<exists>z \<in> m_al x. client_part z y) \<Longrightarrow> ms_step x (x\<lparr>ms := (ms x)\<lparr>umem := m\<rparr>\<rparr>)"
| ms_sbrk: "m_hi x \<le> hi \<Longrightarrow> hi \<le> HEAPMAX \<Longrightarrow> ms_step x (x\<lparr>m_hi := hi\<rparr>)"

definition ms_init :: "msys \<Rightarrow> bool" where
  "ms_init x \<longleftrightarrow> u_freep (ms x) = 0 \<and> m_al x = {} \<and> 0 < unat (u_base (ms x)) \<and> unat (u_base (ms x)) + HDR \<le> m_hi x \<and>
     m_hi x \<le> HEAPMAX"

definition ms_inv :: "msys \<Rightarrow> bool" where
  "ms_inv x \<longleftrightarrow> heap_ok (m_hi x) (ms x) (m_al x)"

lemma heap_mono: "heap m fp hi bl al \<Longrightarrow> hi \<le> hi' \<Longrightarrow> hi' \<le> HEAPMAX \<Longrightarrow> heap m fp hi' bl al"
  unfolding heap_def good_def by (auto elim: lay_mono)

lemma heap_ok_mono: "heap_ok hi s al \<Longrightarrow> hi \<le> hi' \<Longrightarrow> hi' \<le> HEAPMAX \<Longrightarrow> heap_ok hi' s al"
  unfolding heap_ok_def by (cases "u_freep s = 0") (auto, metis heap_mono)

lemma heap_write:
  assumes h: "heap m fp hi bl al" and w: "\<And>y. m' y \<noteq> m y \<Longrightarrow> \<exists>z \<in> al. client_part z y"
  shows "heap m' fp hi bl al"
proof -
  note hd = heapD[OF h]
  have same: "m' y = m y" if x: "x \<in> set bl \<union> al" and y: "unat (fst x) \<le> unat y" "unat y < unat (fst x) + HDR" for x y
  proof (rule ccontr)
    assume "m' y \<noteq> m y"
    then obtain z where z: "z \<in> al" "client_part z y" using w by blast
    then have "inside z y" "\<not> (unat (fst z) \<le> unat y \<and> unat y < unat (fst z) + HDR)" by (auto simp: client_part_def inside_def)
    then show False using inside_apart[OF hd(1) z(1) x, of y] y by (cases "fst z = fst x") auto
  qed
  have cells: "h_ptr m' (fst x) = h_ptr m (fst x)" "h_size m' (fst x) = h_size m (fst x)" if x: "x \<in> set bl \<union> al" for x
  proof -
    have ok: "hdr_ok (fst x)" by (rule good_bounds(1)[OF hd(1,2) x])
    have "unat (fst x + of_nat k) = unat (fst x) + k" if "k < HDR" for k
      using ok that by (intro unat_add_of_nat) (simp add: hdr_ok_def HDR_def)
    then have b: "m' (fst x + of_nat k) = m (fst x + of_nat k)" if "k < HDR" for k using same[OF x] that by simp
    show "h_ptr m' (fst x) = h_ptr m (fst x)" using b by (auto simp: h_ptr_def ld64_def HDR_def intro!: arg_cong[where f = of_nat] ld_cong)
    have "m' (fst x + 8 + of_nat k) = m (fst x + 8 + of_nat k)" if "k < 4" for k
      using b[of "8 + k"] that by (simp add: HDR_def add.assoc)
    then show "h_size m' (fst x) = h_size m (fst x)" by (auto simp: h_size_def intro!: arg_cong[where f = of_nat] ld_cong)
  qed
  have "links m' (map fst bl) (fst (hd bl))" using hd(4) cells(1) by (subst links_cong[of _ _ m]) force+
  then show ?thesis using hd cells(2) by (auto simp: heap_def)
qed

lemma block_addr:
  assumes "heap_ok hi t (insert (p, n) al)"
  shows "p + of_nat HDR \<noteq> 0" "unat (p + of_nat HDR) = unat p + HDR" "bend (p, n) \<le> hi"
proof -
  obtain bl where h: "heap (umem t) (u_freep t) hi bl (insert (p, n) al)" using assms by (auto simp: heap_ok_def split: if_splits)
  show "bend (p, n) \<le> hi" using good_bounds(2)[OF heapD(1,2)[OF h], of "(p, n)"] by simp
  have "hdr_ok p" using good_bounds(1)[OF heapD(1,2)[OF h], of "(p, n)"] by simp
  then show "unat (p + of_nat HDR) = unat p + HDR" by (intro unat_add_of_nat) (simp add: hdr_ok_def)
  then show "p + of_nat HDR \<noteq> 0" by (auto simp: HDR_def)
qed

interpretation ums: inv_system ms_init ms_step ms_inv
proof
  show "ms_inv s" if "ms_init s" for s using that by (simp add: ms_init_def ms_inv_def heap_ok_def)
  show "ms_inv t" if "ms_inv s" "ms_step s t" for s t
    using that(2,1)
  proof cases
    case (ms_malloc nbytes r p u)
    have "heap_ok (m_hi s) ((ms s)\<lparr>u_resp := [r]\<rparr>) (m_al s)" using \<open>ms_inv s\<close> by (simp add: ms_inv_def heap_ok_def)
    from u_malloc_ok[OF this, of r nbytes] show ?thesis
      using ms_malloc by (auto simp: ms_inv_def malloc_fits_def hi_after_def dest: block_addr)
  next
    case (ms_free a k u)
    then show ?thesis using u_free_ok[of "m_hi s" "ms s" "m_al s" a k] \<open>ms_inv s\<close> by (auto simp: ms_inv_def)
  next
    case (ms_write m)
    show ?thesis
    proof (cases "u_freep (ms s) = 0")
      case False
      then obtain bl where bl: "heap (umem (ms s)) (u_freep (ms s)) (m_hi s) bl (m_al s)" "fst (hd bl) = u_base (ms s)"
        using \<open>ms_inv s\<close> by (auto simp: ms_inv_def heap_ok_def)
      have "heap m (u_freep (ms s)) (m_hi s) bl (m_al s)" by (rule heap_write[OF bl(1) ms_write(2)])
      then show ?thesis using bl(2) ms_write(1) by (simp add: ms_inv_def heap_okI)
    qed (use \<open>ms_inv s\<close> ms_write(1) in \<open>simp add: ms_inv_def heap_ok_def\<close>)
  next
    case (ms_sbrk hi)
    then show ?thesis using \<open>ms_inv s\<close> by (simp add: ms_inv_def heap_ok_mono)
  qed
qed

section \<open>Property\<close>

lemma heap_ok_disj:
  assumes "heap_ok hi s al" and "x \<in> al" and "y \<in> al" and "x \<noteq> y"
  shows "bend x \<le> unat (fst y) \<or> bend y \<le> unat (fst x)"
proof -
  obtain bl where "heap (umem s) (u_freep s) hi bl al" using assms(1,2) by (auto simp: heap_ok_def split: if_splits)
  then show ?thesis using lay_disj[OF good_lay[OF heapD(1)], of _ _ hi bl al x y] assms(2-4) by auto
qed

text \<open>
  C37: the allocator keeps its contract however a program uses it. In every state reached by calls
  of \<open>malloc\<close> for less than two gigabytes and \<open>free\<close>, by writes into the bytes handed out and by upward
  moves of the break, the blocks in use do not meet. A call of \<open>malloc\<close> for less than two gigabytes returns: a null pointer only when
  \<open>sbrk\<close> failed, otherwise the address of the requested number of bytes, which lie inside the memory
  of the process and meet no block in use. A call of \<open>free\<close> on a block in use returns. Neither changes a byte of the blocks that
  stay in use.
\<close>

theorem malloc_sound:
  assumes "reach ms_init ms_step x"
  shows "(\<forall>a \<in> m_al x. \<forall>b \<in> m_al x. a \<noteq> b \<longrightarrow> bend a \<le> unat (fst b) \<or> bend b \<le> unat (fst a)) \<and>
    (\<forall>nbytes r. malloc_fits (m_hi x) nbytes r \<longrightarrow> (\<exists>p t. u_malloc nbytes ((ms x)\<lparr>u_resp := [r]\<rparr>) = Ret p t \<and>
      untouched (m_al x) (ms x) t \<and>
      (if p = 0 then rs_val r = -1
       else unat p + unat nbytes \<le> hi_after (m_hi x) (nunits_of nbytes) r t \<and>
         (\<forall>a \<in> m_al x. bend a \<le> unat p \<or> unat p + unat nbytes \<le> unat (fst a))))) \<and>
    (\<forall>a \<in> m_al x. \<exists>t. u_free (fst a + of_nat HDR) (ms x) = Ret () t \<and> untouched (m_al x - {a}) (ms x) t)"
proof (intro conjI allI impI)
  have inv: "heap_ok (m_hi x) (ms x) (m_al x)" using ums.reach_inv[OF assms] by (simp add: ms_inv_def)
  then show "\<forall>a \<in> m_al x. \<forall>b \<in> m_al x. a \<noteq> b \<longrightarrow> bend a \<le> unat (fst b) \<or> bend b \<le> unat (fst a)"
    using heap_ok_disj by blast
  show "\<forall>a \<in> m_al x. \<exists>t. u_free (fst a + of_nat HDR) (ms x) = Ret () t \<and> untouched (m_al x - {a}) (ms x) t"
    using u_free_ok[OF inv] by fastforce
  fix nbytes r assume fits: "malloc_fits (m_hi x) nbytes r"
  let ?s = "(ms x)\<lparr>u_resp := [r]\<rparr>"
  have u: "untouched (m_al x) (ms x) t" if "untouched (m_al x) ?s t" for t :: umst using that by (simp add: untouched_def)
  have "heap_ok (m_hi x) ?s (m_al x)" using inv by (simp add: heap_ok_def)
  then consider t where "u_malloc nbytes ?s = Ret 0 t" "rs_val r = -1" "untouched (m_al x) ?s t"
    | p t where "u_malloc nbytes ?s = Ret (p + of_nat HDR) t" "heap_ok (hi_after (m_hi x) (nunits_of nbytes) r t) t (insert (p, unat (nunits_of nbytes)) (m_al x))"
        "p \<notin> fst ` m_al x" "untouched (m_al x) ?s t"
    using u_malloc_ok[of "m_hi x" ?s "m_al x" r nbytes] fits by (auto simp: malloc_fits_def)
  then show "\<exists>p t. u_malloc nbytes ?s = Ret p t \<and> untouched (m_al x) (ms x) t \<and>
      (if p = 0 then rs_val r = -1
       else unat p + unat nbytes \<le> hi_after (m_hi x) (nunits_of nbytes) r t \<and>
         (\<forall>a \<in> m_al x. bend a \<le> unat p \<or> unat p + unat nbytes \<le> unat (fst a)))"
  proof cases
    case 2
    have "unat nbytes \<le> HDR * unat (nunits_of nbytes) - HDR" by (simp add: unat_nunits HDR_def)
    then have "bend a \<le> unat (p + of_nat HDR) \<or> unat (p + of_nat HDR) + unat nbytes \<le> unat (fst a)" if a: "a \<in> m_al x" for a
    proof -
      have "(p, unat (nunits_of nbytes)) \<noteq> a" using a 2(3) by force
      then show ?thesis
        using heap_ok_disj[OF 2(2), of "(p, unat (nunits_of nbytes))" a] a block_addr[OF 2(2)] \<open>unat nbytes \<le> _\<close>
        by (auto simp: bend_def unat_nunits HDR_def)
    qed
    moreover have "unat (p + of_nat HDR) + unat nbytes \<le> hi_after (m_hi x) (nunits_of nbytes) r t"
      using block_addr[OF 2(2)] \<open>unat nbytes \<le> _\<close> by (simp add: bend_def unat_nunits HDR_def)
    ultimately show ?thesis using 2 u block_addr(1)[OF 2(2)] by auto
  qed (use u in auto)
qed

text \<open>
  Beyond two gigabytes the size passed to \<open>sbrk\<close> no longer fits its \<open>int\<close>: for the largest request
  the kernel is asked for 16 bytes, and the block entered into the list claims 4 gigabytes.
\<close>

lemma malloc_size_wraps:
  fixes s :: "'z umst_scheme"
  shows "morecore (nunits_of 0xFFFFFFFF) s = bindr (u_sbrk 16 s) (\<lambda>p s.
    if p = -1 then Ret 0 s
    else bindr (u_free (p + of_nat HDR) (s\<lparr>umem := set_size p 0x10000001 (umem s)\<rparr>)) (\<lambda>_ s. Ret (u_freep s) s))"
proof -
  have n: "nunits_of 0xFFFFFFFF = 0x10000001" by (simp add: nunits_of_def HDR_def)
  have "sint (ucast (ucast (0x10000001 :: u32) * of_nat HDR :: u64) :: u32) = 16" by (simp add: HDR_def)
  then show ?thesis unfolding morecore_def n Let_def by simp
qed

text \<open>A program at its start, and the first allocation of 100 bytes.\<close>

definition ms0 :: msys where
  "ms0 = \<lparr>ms = \<lparr>u_resp = [], u_log = [], u_pend = None, umem = (\<lambda>_. 0), u_base = 0x3000, u_freep = 0\<rparr>, m_hi = 0x4000, m_al = {}\<rparr>"

theorem malloc_sound_witness:
  "\<exists>p t. u_malloc 100 ((ms ms0)\<lparr>u_resp := [Rs 0x4000 []]\<rparr>) = Ret p t \<and> p \<noteq> 0"
proof -
  have "ms_init ms0" by (simp add: ms_init_def ms0_def HDR_def HEAPMAX_def)
  then have "reach ms_init ms_step ms0" by (rule reach_start)
  moreover have "malloc_fits (m_hi ms0) 100 (Rs 0x4000 [])"
    by (simp add: malloc_fits_def sbrk_answer_def ms0_def units_asked_def unat_nunits HDR_def HEAPMAX_def)
  ultimately show ?thesis using malloc_sound[of ms0] by (metis uresp.sel(1) zero_neq_neg_one  numeral_neq_neg_one)
qed

end
