(* ===== verification/ShLex.thy ===== *)
theory ShLex
  imports Sh UmallocSpec
begin

text \<open>
  What the parser of the shell rests on: memory for its commands, as long as the kernel gives it,
  and the tokens of a line, for every text that spells them.
\<close>

section \<open>Memory for the commands\<close>

text \<open>The kernel gives memory whenever \<open>malloc\<close> asks for it; every request is 64 kilobytes.\<close>

fun sbrks :: "nat \<Rightarrow> uresp list \<Rightarrow> bool" where
  "sbrks hi [] \<longleftrightarrow> True"
| "sbrks hi (r # rs) \<longleftrightarrow>
     int hi \<le> rs_val r \<and> nat (rs_val r) + 65536 \<le> HEAPMAX \<and> sbrks (nat (rs_val r) + 65536) rs"

definition room_for :: "nat \<Rightarrow> 'z shst_scheme \<Rightarrow> bool" where
  "room_for n s \<longleftrightarrow> n \<le> length (u_resp s) \<and>
     (\<exists>hi al. heap_ok hi s al \<and> sbrks hi (u_resp s) \<and> (\<forall>a \<in> dom (sh_cmds s). a - of_nat HDR \<in> fst ` al))"

lemma u_sbrk_more: "u_sbrk n s = Ret p t \<Longrightarrow> umst.more t = umst.more s"
  by (auto simp: u_sbrk_def sysv_def sys_def elim!: bindr_RetE split: list.splits)

lemma morecore_more: "morecore nu s = Ret p t \<Longrightarrow> umst.more t = umst.more s"
  by (auto simp: morecore_def Let_def u_free_def elim!: bindr_RetE split: if_splits option.splits dest!: u_sbrk_more)

lemma malloc_loop_more: "malloc_loop n prevp s = Ret p t \<Longrightarrow> umst.more t = umst.more s"
proof (induction "length (u_resp s)" arbitrary: prevp s rule: less_induct)
  case less
  have IH: "umst.more t = umst.more s" if "malloc_loop n q s' = Ret p t" and "morecore n s = Ret q s'" for q s'
    using less.hyps[of s' q] that morecore_resp[of n s q s'] morecore_more[of n s q s'] by simp
  from less.prems show ?case
    by (subst (asm) malloc_loop.simps)
      (auto simp: malloc_take_def Let_def elim!: bindr_RetE split: option.splits prod.splits bool.splits if_splits
        intro: IH dest: morecore_more)
qed

lemma u_malloc_more:
  fixes s :: "'z shst_scheme"
  assumes "u_malloc n s = Ret p t"
  shows "sh_buf t = sh_buf s" "sh_cmds t = sh_cmds s"
proof -
  have "umst.more t = umst.more s"
    using assms by (auto simp: u_malloc_def Let_def split: if_splits dest!: malloc_loop_more)
  then show "sh_buf t = sh_buf s" "sh_cmds t = sh_cmds s" by (cases s; cases t; simp)+
qed

lemma newcmd_ok:
  fixes s :: "'z shst_scheme"
  assumes room: "room_for (Suc n) s" and nb: "unat nb \<le> 1000"
  shows "\<exists>p t. newcmd nb c s = Ret p t \<and> p \<noteq> 0 \<and> sh_cmds s p = None \<and> sh_cmds t = (sh_cmds s)(p \<mapsto> c) \<and>
    sh_buf t = sh_buf s \<and> room_for n t"
proof -
  obtain hi al r rs where h: "heap_ok hi s al" "sbrks hi (r # rs)" "u_resp s = r # rs" "n \<le> length rs"
      and dom: "\<forall>a \<in> dom (sh_cmds s). a - of_nat HDR \<in> fst ` al"
    using room by (auto simp: room_for_def Suc_le_length_iff)
  have units: "units_asked (nunits_of nb) = 4096" using nb by (simp add: units_asked_def unat_nunits HDR_def)
  have r: "rs_val r \<noteq> -1" "sbrk_answer hi (HDR * units_asked (nunits_of nb)) r" "HDR * units_asked (nunits_of nb) < 2 ^ 31"
    using h(2) by (auto simp: units sbrk_answer_def HDR_def)
  obtain p t where t: "u_malloc nb s = Ret (p + of_nat HDR) t" "grown hi (nunits_of nb) r rs t (insert (p, unat (nunits_of nb)) al)"
      "p \<notin> fst ` al"
    using u_malloc_grown[OF h(1,3) r(2,3)] r(1) by blast
  obtain hi' where hi': "heap_ok hi' t (insert (p, unat (nunits_of nb)) al)" "sbrks hi' (u_resp t)" "n \<le> length (u_resp t)"
    using t(2) h(2,4) by (auto simp: grown_def units HDR_def)
  let ?t = "t\<lparr>sh_cmds := (sh_cmds t)(p + of_nat HDR \<mapsto> c)\<rparr>"
  note more = u_malloc_more[OF t(1)]
  have fresh: "sh_cmds s (p + of_nat HDR) = None" using dom t(3) by (force simp: domIff)
  have "heap_ok hi' ?t (insert (p, unat (nunits_of nb)) al)" using hi'(1) by (simp add: heap_ok_def)
  then have "room_for n ?t" using hi'(2,3) dom more(2) by (fastforce simp: room_for_def)
  then show ?thesis using t(1) block_addr(1)[OF hi'(1)] fresh more by (auto simp: newcmd_def)
qed

section \<open>Tokens\<close>

datatype tok = T_word bytes | T_sym char | T_app

definition is_ws :: "char \<Rightarrow> bool" where
  "is_ws c \<longleftrightarrow> c \<in> set whitespace"

definition word_char :: "char \<Rightarrow> bool" where
  "word_char c \<longleftrightarrow> c \<noteq> NUL \<and> \<not> is_ws c \<and> c \<notin> set symbols"

fun tok_chars :: "tok \<Rightarrow> bytes" where
  "tok_chars (T_word w) = w"
| "tok_chars (T_sym c) = [c]"
| "tok_chars T_app = ''>>''"

text \<open>A token is followed by something that does not extend it.\<close>

fun tok_ok :: "tok \<Rightarrow> bytes \<Rightarrow> bool" where
  "tok_ok (T_word w) rest \<longleftrightarrow> w \<noteq> [] \<and> (\<forall>c \<in> set w. word_char c) \<and> (rest = [] \<or> \<not> word_char (hd rest))"
| "tok_ok (T_sym c) rest \<longleftrightarrow> c \<in> set symbols \<and> (c = CHR ''>'' \<longrightarrow> rest = [] \<or> hd rest \<noteq> CHR ''>'')"
| "tok_ok T_app rest \<longleftrightarrow> True"

inductive spells :: "tok list \<Rightarrow> bytes \<Rightarrow> bool" where
  spells_end: "(\<forall>c \<in> set ws. is_ws c) \<Longrightarrow> spells [] ws"
| spells_tok: "(\<forall>c \<in> set ws. is_ws c) \<Longrightarrow> tok_ok t rest \<Longrightarrow> spells ts rest \<Longrightarrow> spells (t # ts) (ws @ tok_chars t @ rest)"

inductive_cases spells_NilE: "spells [] x"
inductive_cases spells_ConsE: "spells (t # ts) x"

lemma strchr_set: "u_strchr xs c \<noteq> None \<longleftrightarrow> c \<in> set xs"
  by (induction xs) auto

lemma ws_not_NUL: "\<not> is_ws NUL" "NUL \<notin> set symbols" "c \<in> set symbols \<Longrightarrow> \<not> is_ws c"
  by (auto simp: is_ws_def whitespace_def symbols_def)

lemma tok_chars_hd: "tok_ok t rest \<Longrightarrow> tok_chars t \<noteq> [] \<and> \<not> is_ws (hd (tok_chars t)) \<and> hd (tok_chars t) \<noteq> NUL"
proof (cases t)
  case (T_word w)
  assume "tok_ok t rest"
  then show ?thesis using T_word by (cases w) (auto simp: word_char_def)
qed (use ws_not_NUL in \<open>auto simp: is_ws_def whitespace_def symbols_def\<close>)

lemma tok_chars_NUL: "tok_ok t rest \<Longrightarrow> NUL \<notin> set (tok_chars t)"
  by (cases t) (auto simp: word_char_def symbols_def)

lemma spells_no_NUL: "spells ts x \<Longrightarrow> NUL \<notin> set x"
  by (induction rule: spells.induct) (auto simp: ws_not_NUL dest: tok_chars_NUL)

lemma spells_length: "spells ts x \<Longrightarrow> length ts \<le> length x"
proof (induction rule: spells.induct)
  case (spells_tok ws t rest ts)
  then show ?case using tok_chars_hd[of t rest] by (cases "tok_chars t") auto
qed simp

text \<open>The text from an index to the terminator.\<close>

definition text_at :: "bytes \<Rightarrow> nat \<Rightarrow> nat \<Rightarrow> bytes \<Rightarrow> bool" where
  "text_at b es s x \<longleftrightarrow> s + length x = es \<and> es < length b \<and> b ! es = NUL \<and> take (length x) (drop s b) = x"

definition lex_at :: "bytes \<Rightarrow> nat \<Rightarrow> nat \<Rightarrow> tok list \<Rightarrow> bool" where
  "lex_at b es s ts \<longleftrightarrow> (\<exists>x. text_at b es s x \<and> spells ts x)"

lemma text_at_append: "text_at b es s (x @ y) \<Longrightarrow> text_at b es (s + length x) y"
  by (auto simp: text_at_def take_add add.commute)

lemma text_at_char: "text_at b es s (c # x) \<Longrightarrow> char_at b s = c"
  by (cases "drop s b") (auto simp: text_at_def char_at_def drop_eq_Nil nth_via_drop)

lemma text_at_Nil: "text_at b es s [] \<Longrightarrow> s = es \<and> char_at b s = NUL"
  by (auto simp: text_at_def char_at_def)

lemma text_at_Suc: "text_at b es s (c # x) \<Longrightarrow> text_at b es (Suc s) x \<and> s < es"
  using text_at_append[of b es s "[c]" x] by (auto simp: text_at_def)

lemma skip_ws_eq: "skip_ws b es s = (if s < es \<and> is_ws (char_at b s) then skip_ws b es (Suc s) else s)"
  by (subst skip_ws.simps) (simp only: strchr_set is_ws_def Suc_eq_plus1)

lemma word_end_eq:
  "word_end b es s = (if s < es \<and> \<not> is_ws (char_at b s) \<and> char_at b s \<notin> set symbols then word_end b es (Suc s) else s)"
  by (subst word_end.simps) (simp only: strchr_set[symmetric] is_ws_def Suc_eq_plus1 not_not)

lemma skip_ws_text:
  "text_at b es s (ws @ x) \<Longrightarrow> \<forall>c \<in> set ws. is_ws c \<Longrightarrow> x = [] \<or> \<not> is_ws (hd x) \<Longrightarrow> skip_ws b es s = s + length ws"
proof (induction ws arbitrary: s)
  case Nil
  then show ?case by (cases x) (auto simp: skip_ws_eq[of b es s] dest: text_at_char text_at_Nil)
next
  case (Cons c ws)
  then have "s < es" "char_at b s = c" "text_at b es (Suc s) (ws @ x)" by (auto dest: text_at_char text_at_Suc)
  then show ?case using Cons by (simp add: skip_ws_eq[of b es s])
qed

lemma word_end_text:
  "text_at b es s (w @ x) \<Longrightarrow> \<forall>c \<in> set w. word_char c \<Longrightarrow> x = [] \<or> \<not> word_char (hd x) \<Longrightarrow> NUL \<notin> set x \<Longrightarrow>
    word_end b es s = s + length w"
proof (induction w arbitrary: s)
  case Nil
  then show ?case
    by (cases x) (auto simp: word_end_eq[of b es s] word_char_def dest: text_at_char text_at_Nil)
next
  case (Cons c w)
  then have "s < es" "char_at b s = c" "text_at b es (Suc s) (w @ x)" by (auto dest: text_at_char text_at_Suc)
  then show ?case using Cons by (simp add: word_end_eq[of b es s] word_char_def)
qed

text \<open>Before a token the blanks are skipped.\<close>

lemma lex_at_skip:
  assumes "lex_at b es s ts"
  shows "lex_at b es (skip_ws b es s) ts"
    "ts = [] \<Longrightarrow> skip_ws b es s = es"
    "ts = t # ts' \<Longrightarrow> \<exists>rest. text_at b es (skip_ws b es s) (tok_chars t @ rest) \<and> tok_ok t rest \<and> spells ts' rest"
proof -
  obtain x where x: "text_at b es s x" "spells ts x" using assms by (auto simp: lex_at_def)
  have "lex_at b es (skip_ws b es s) ts \<and> (ts = [] \<longrightarrow> skip_ws b es s = es) \<and> (ts = t # ts' \<longrightarrow>
    (\<exists>rest. text_at b es (skip_ws b es s) (tok_chars t @ rest) \<and> tok_ok t rest \<and> spells ts' rest))"
    using x(2)
  proof cases
    case spells_end
    then have "skip_ws b es s = es" using skip_ws_text[of b es s x "[]"] x(1) by (auto simp: text_at_def)
    moreover have "text_at b es es []" using x(1) by (auto simp: text_at_def)
    ultimately show ?thesis using spells_end spells.spells_end[of "[]"] by (auto simp: lex_at_def)
  next
    case (spells_tok ws u rest us)
    then have "skip_ws b es s = s + length ws"
      using skip_ws_text[of b es s ws "tok_chars u @ rest"] x(1) tok_chars_hd[of u rest] by auto
    moreover have "text_at b es (s + length ws) (tok_chars u @ rest)" using x(1) spells_tok(2) by (auto dest: text_at_append)
    moreover have "spells (u # us) (tok_chars u @ rest)" using spells.spells_tok[of "[]" u rest us] spells_tok by simp
    ultimately show ?thesis using spells_tok by (auto simp: lex_at_def)
  qed
  then show "lex_at b es (skip_ws b es s) ts" "ts = [] \<Longrightarrow> skip_ws b es s = es"
    "ts = t # ts' \<Longrightarrow> \<exists>rest. text_at b es (skip_ws b es s) (tok_chars t @ rest) \<and> tok_ok t rest \<and> spells ts' rest"
    by blast+
qed

definition word_at :: "bytes \<Rightarrow> nat \<Rightarrow> nat \<Rightarrow> bytes \<Rightarrow> bool" where
  "word_at b q eq w \<longleftrightarrow> q + length w = eq \<and> eq < length b \<and> take (length w) (drop q b) = w \<and>
     (\<forall>c \<in> set w. word_char c) \<and> \<not> word_char (b ! eq)"

fun tok_kind :: "tok \<Rightarrow> char" where
  "tok_kind (T_word w) = CHR ''a''"
| "tok_kind (T_sym c) = c"
| "tok_kind T_app = CHR ''+''"

lemma text_at_lex: "text_at b es s rest \<Longrightarrow> spells ts rest \<Longrightarrow> lex_at b es (skip_ws b es s) ts"
  by (rule lex_at_skip(1)) (auto simp: lex_at_def)

lemma gettoken_lex:
  assumes "lex_at b es s (t # ts)"
  shows "\<exists>q eq s'. gettoken b es s = (tok_kind t, q, eq, s') \<and> lex_at b es s' ts \<and> (\<forall>w. t = T_word w \<longrightarrow> word_at b q eq w)"
proof -
  define q where "q = skip_ws b es s"
  obtain rest where r: "text_at b es q (tok_chars t @ rest)" "tok_ok t rest" "spells ts rest"
    using lex_at_skip(3)[OF assms refl] by (auto simp: q_def)
  have next_lex: "lex_at b es (skip_ws b es (q + length (tok_chars t))) ts"
    by (rule text_at_lex[OF text_at_append[OF r(1)] r(3)])
  show ?thesis
  proof (cases t)
    case (T_word w)
    have w: "w \<noteq> []" "\<forall>c \<in> set w. word_char c" "rest = [] \<or> \<not> word_char (hd rest)" using r(2) T_word by auto
    have e: "word_end b es q = q + length w"
      using word_end_text[of b es q w rest] r(1) w spells_no_NUL[OF r(3)] T_word by simp
    have c: "word_char (char_at b q)" using r(1) w(1,2) T_word by (cases w) (auto dest: text_at_char)
    have "word_at b q (q + length w) w"
    proof -
      have x: "text_at b es (q + length w) rest" using text_at_append r(1) T_word by auto
      then have "q + length w < length b" by (auto simp: text_at_def)
      moreover have "\<not> word_char (b ! (q + length w))"
        using x w(3) \<open>q + length w < length b\<close>
        by (cases rest) (auto dest!: text_at_Nil text_at_char simp: char_at_def word_char_def)
      moreover have "take (length w) (drop q b) = w"
        using r(1) T_word by (auto simp: text_at_def take_add)
      ultimately show ?thesis using w(2) by (simp add: word_at_def)
    qed
    then show ?thesis using c e next_lex T_word
      by (auto simp: gettoken_def Let_def q_def[symmetric] word_char_def symbols_def)
  next
    case (T_sym c)
    have c: "char_at b q = c" using r(1) T_sym by (auto dest: text_at_char)
    have "char_at b (Suc q) \<noteq> CHR ''>''" if "c = CHR ''>''"
    proof -
      have "text_at b es (Suc q) rest" using text_at_Suc[of b es q c rest] r(1) T_sym by simp
      then show ?thesis using r(2) T_sym that by (cases rest) (auto dest!: text_at_Nil text_at_char)
    qed
    then show ?thesis using c next_lex T_sym r(2)
      by (auto simp: gettoken_def Let_def q_def[symmetric] symbols_def)
  next
    case T_app
    have "char_at b q = CHR ''>''" "char_at b (Suc q) = CHR ''>''"
      using r(1) T_app text_at_Suc[of b es q "CHR ''>''" "CHR ''>'' # rest"] by (auto dest: text_at_char)
    then show ?thesis using next_lex T_app by (auto simp: gettoken_def Let_def q_def[symmetric] numeral_2_eq_2)
  qed
qed

lemma gettoken_end: "lex_at b es s [] \<Longrightarrow> gettoken b es s = (NUL, es, es, es)"
proof -
  assume l: "lex_at b es s []"
  then have "skip_ws b es s = es" "skip_ws b es es = es" "char_at b es = NUL"
    using lex_at_skip(1,2)[OF l] lex_at_skip(2)[of b es es "[]"] by (auto simp: lex_at_def text_at_def char_at_def)
  then show ?thesis by (simp add: gettoken_def Let_def)
qed

text \<open>\<open>peek\<close> looks at the first character of the next token.\<close>

fun starts :: "bytes \<Rightarrow> tok list \<Rightarrow> bool" where
  "starts cs (T_sym c # ts) \<longleftrightarrow> c \<in> set cs"
| "starts cs (T_app # ts) \<longleftrightarrow> CHR ''>'' \<in> set cs"
| "starts cs ts \<longleftrightarrow> False"

lemma peek_lex:
  assumes "lex_at b es s ts" and "set cs \<subseteq> set symbols"
  shows "\<exists>s'. peek b es cs s = (starts cs ts, s') \<and> lex_at b es s' ts"
proof -
  define q where "q = skip_ws b es s"
  have "(char_at b q \<noteq> NUL \<and> u_strchr cs (char_at b q) \<noteq> None) = starts cs ts"
  proof (cases ts)
    case Nil
    then have "q = es" "char_at b es = NUL" using lex_at_skip(2)[OF assms(1)] assms(1) by (auto simp: q_def lex_at_def text_at_def char_at_def)
    then show ?thesis using Nil by simp
  next
    case (Cons t ts')
    obtain rest where r: "text_at b es q (tok_chars t @ rest)" "tok_ok t rest"
      using lex_at_skip(3)[OF assms(1) Cons] by (auto simp: q_def)
    have h: "tok_chars t \<noteq> []" "hd (tok_chars t) \<noteq> NUL" using tok_chars_hd[OF r(2)] by auto
    then have c: "char_at b q = hd (tok_chars t)" using r(1) by (cases "tok_chars t") (auto dest: text_at_char)
    have "hd (tok_chars t) \<in> set cs \<longleftrightarrow> starts cs (t # ts')"
    proof (cases t)
      case (T_word w)
      then have "word_char (hd w)" using h(1) r(2) by simp
      then show ?thesis using T_word assms(2) by (auto simp: word_char_def)
    qed simp_all
    then show ?thesis using c h(2) Cons by (simp only: strchr_set) simp
  qed
  then show ?thesis using lex_at_skip(1)[OF assms(1)] by (simp add: peek_def Let_def q_def[symmetric])
qed

end
