(* ===== verification/ShSpec.thy ===== *)
theory ShSpec
  imports ShLex
begin

text \<open>
  The parser of the shell against its grammar. A syntax tree of the grammar has a list of tokens
  and a meaning; whatever text spells the tokens, \<open>parsecmd\<close> builds the meaning in memory.
\<close>

section \<open>The grammar\<close>

datatype redir = R_in bytes | R_out bytes | R_app bytes

text \<open>
  A command is simple, with redirections before the first argument and after each, or a line in
  parentheses with redirections. Commands are joined by pipes, and pipes to a line by semicolons;
  before a semicolon or the end may stand ampersands.
\<close>

datatype scmd = S_simple "redir list" "(bytes \<times> redir list) list" | S_block sline "redir list"
  and spipe = P_one scmd | P_pipe scmd spipe
  and sline = L_one spipe nat | L_seq spipe nat sline

fun redir_toks :: "redir \<Rightarrow> tok list" where
  "redir_toks (R_in f) = [T_sym CHR ''<'', T_word f]"
| "redir_toks (R_out f) = [T_sym CHR ''>'', T_word f]"
| "redir_toks (R_app f) = [T_app, T_word f]"

definition redirs_toks :: "redir list \<Rightarrow> tok list" where
  "redirs_toks rs = concat (map redir_toks rs)"

definition args_toks :: "(bytes \<times> redir list) list \<Rightarrow> tok list" where
  "args_toks as = concat (map (\<lambda>(w, rs). T_word w # redirs_toks rs) as)"

primrec scmd_toks :: "scmd \<Rightarrow> tok list" and spipe_toks :: "spipe \<Rightarrow> tok list" and sline_toks :: "sline \<Rightarrow> tok list" where
  "scmd_toks (S_simple rs as) = redirs_toks rs @ args_toks as"
| "scmd_toks (S_block l rs) = T_sym CHR ''('' # sline_toks l @ T_sym CHR '')'' # redirs_toks rs"
| "spipe_toks (P_one c) = scmd_toks c"
| "spipe_toks (P_pipe c p) = scmd_toks c @ T_sym CHR ''|'' # spipe_toks p"
| "sline_toks (L_one p n) = spipe_toks p @ replicate n (T_sym CHR ''&'')"
| "sline_toks (L_seq p n l) = spipe_toks p @ replicate n (T_sym CHR ''&'') @ T_sym CHR '';'' # sline_toks l"

text \<open>What a line means.\<close>

datatype ast =
    A_exec "bytes list"
  | A_redir ast bytes int int
  | A_pipe ast ast
  | A_list ast ast
  | A_back ast

fun redir_file :: "redir \<Rightarrow> bytes" where
  "redir_file (R_in f) = f"
| "redir_file (R_out f) = f"
| "redir_file (R_app f) = f"

fun redir_mode :: "redir \<Rightarrow> int" where
  "redir_mode (R_in f) = 0"
| "redir_mode (R_out f) = 0x601"
| "redir_mode (R_app f) = 0x201"

fun redir_fd :: "redir \<Rightarrow> int" where
  "redir_fd (R_in f) = 0"
| "redir_fd (R_out f) = 1"
| "redir_fd (R_app f) = 1"

definition redir_ast :: "redir \<Rightarrow> ast \<Rightarrow> ast" where
  "redir_ast r a = A_redir a (redir_file r) (redir_mode r) (redir_fd r)"

definition args_redirs :: "(bytes \<times> redir list) list \<Rightarrow> redir list" where
  "args_redirs as = concat (map snd as)"

primrec scmd_ast :: "scmd \<Rightarrow> ast" and spipe_ast :: "spipe \<Rightarrow> ast" and sline_ast :: "sline \<Rightarrow> ast" where
  "scmd_ast (S_simple rs as) = fold redir_ast (rs @ args_redirs as) (A_exec (map fst as))"
| "scmd_ast (S_block l rs) = fold redir_ast rs (sline_ast l)"
| "spipe_ast (P_one c) = scmd_ast c"
| "spipe_ast (P_pipe c p) = A_pipe (scmd_ast c) (spipe_ast p)"
| "sline_ast (L_one p n) = (A_back ^^ n) (spipe_ast p)"
| "sline_ast (L_seq p n l) = A_list ((A_back ^^ n) (spipe_ast p)) (sline_ast l)"

text \<open>No command has more arguments than the array holds with its null pointer.\<close>

primrec scmd_fits :: "scmd \<Rightarrow> bool" and spipe_fits :: "spipe \<Rightarrow> bool" and sline_fits :: "sline \<Rightarrow> bool" where
  "scmd_fits (S_simple rs as) \<longleftrightarrow> length as < MAXARGS"
| "scmd_fits (S_block l rs) \<longleftrightarrow> sline_fits l"
| "spipe_fits (P_one c) \<longleftrightarrow> scmd_fits c"
| "spipe_fits (P_pipe c p) \<longleftrightarrow> scmd_fits c \<and> spipe_fits p"
| "sline_fits (L_one p n) \<longleftrightarrow> spipe_fits p"
| "sline_fits (L_seq p n l) \<longleftrightarrow> spipe_fits p \<and> sline_fits l"

primrec nodes :: "ast \<Rightarrow> nat" where
  "nodes (A_exec ws) = 1"
| "nodes (A_redir a f m d) = Suc (nodes a)"
| "nodes (A_pipe a b) = Suc (nodes a + nodes b)"
| "nodes (A_list a b) = Suc (nodes a + nodes b)"
| "nodes (A_back a) = Suc (nodes a)"

lemma nodes_redirs [simp]: "nodes (fold redir_ast rs a) = nodes a + length rs"
  by (induction rs arbitrary: a) (auto simp: redir_ast_def)

lemma nodes_backs [simp]: "nodes ((A_back ^^ n) a) = nodes a + n"
  by (induction n) auto

section \<open>Commands in memory\<close>

text \<open>
  An address has the command of a tree, where \<open>R\<close> says which word the start and the end of a string
  stand for.
\<close>

definition argv_of :: "nat list \<Rightarrow> nat option list" where
  "argv_of qs = map Some qs @ replicate (MAXARGS - length qs) None"

primrec rep :: "(u64 \<rightharpoonup> cnode) \<Rightarrow> (nat \<Rightarrow> nat \<Rightarrow> bytes \<Rightarrow> bool) \<Rightarrow> ast \<Rightarrow> u64 \<Rightarrow> bool" where
  "rep h R (A_exec ws) p \<longleftrightarrow> p \<noteq> 0 \<and> length ws < MAXARGS \<and>
     (\<exists>qs es. h p = Some (Execcmd (argv_of qs) (argv_of es)) \<and> length qs = length ws \<and> length es = length ws \<and>
       (\<forall>i < length ws. R (qs ! i) (es ! i) (ws ! i)))"
| "rep h R (A_redir a f m d) p \<longleftrightarrow> p \<noteq> 0 \<and> (\<exists>c q e. h p = Some (Redircmd c q e m d) \<and> R q e f \<and> rep h R a c)"
| "rep h R (A_pipe a b) p \<longleftrightarrow> p \<noteq> 0 \<and> (\<exists>l r. h p = Some (Pipecmd l r) \<and> rep h R a l \<and> rep h R b r)"
| "rep h R (A_list a b) p \<longleftrightarrow> p \<noteq> 0 \<and> (\<exists>l r. h p = Some (Listcmd l r) \<and> rep h R a l \<and> rep h R b r)"
| "rep h R (A_back a) p \<longleftrightarrow> p \<noteq> 0 \<and> (\<exists>c. h p = Some (Backcmd c) \<and> rep h R a c)"

lemma map_le_Some: "h \<subseteq>\<^sub>m h' \<Longrightarrow> h p = Some v \<Longrightarrow> h' p = Some v"
  by (auto simp: map_le_def dom_def)

lemma rep_mono: "rep h R a p \<Longrightarrow> h \<subseteq>\<^sub>m h' \<Longrightarrow> \<forall>q e w. R q e w \<longrightarrow> R' q e w \<Longrightarrow> rep h' R' a p"
proof (induction a arbitrary: p)
  case (A_exec ws)
  then obtain qs es where "h p = Some (Execcmd (argv_of qs) (argv_of es))" "length qs = length ws" "length es = length ws"
      "\<forall>i < length ws. R' (qs ! i) (es ! i) (ws ! i)" by auto
  moreover have "h' p = Some (Execcmd (argv_of qs) (argv_of es))" using calculation(1) A_exec(2) by (rule map_le_Some[rotated])
  ultimately show ?case using A_exec(1) by auto
next
  case (A_redir a f m d)
  then show ?case by simp (metis map_le_Some)
next
  case (A_pipe a b)
  then show ?case by simp (metis map_le_Some)
next
  case (A_list a b)
  then show ?case by simp (metis map_le_Some)
next
  case (A_back a)
  then show ?case by simp (metis map_le_Some)
qed

text \<open>Redirections around a command at an address, from the outermost on.\<close>

fun wrapped :: "(u64 \<rightharpoonup> cnode) \<Rightarrow> (nat \<Rightarrow> nat \<Rightarrow> bytes \<Rightarrow> bool) \<Rightarrow> redir list \<Rightarrow> u64 \<Rightarrow> u64 \<Rightarrow> bool" where
  "wrapped h R [] c p \<longleftrightarrow> p = c"
| "wrapped h R (r # rs) c p \<longleftrightarrow> p \<noteq> 0 \<and>
     (\<exists>p' q e. h p = Some (Redircmd p' q e (redir_mode r) (redir_fd r)) \<and> R q e (redir_file r) \<and> wrapped h R rs c p')"

lemma wrapped_append: "wrapped h R xs c p \<Longrightarrow> wrapped h R ys d c \<Longrightarrow> wrapped h R (xs @ ys) d p"
  by (induction xs arbitrary: p) auto

lemma wrapped_mono: "wrapped h R rs c p \<Longrightarrow> h \<subseteq>\<^sub>m h' \<Longrightarrow> wrapped h' R rs c p"
proof (induction rs arbitrary: p)
  case (Cons r rs)
  then show ?case by simp (metis map_le_Some)
qed simp

text \<open>The command inside may get its arguments later.\<close>

lemma wrapped_upd: "wrapped h R rs c p \<Longrightarrow> h d = Some (Execcmd xs ys) \<Longrightarrow> wrapped (h(d \<mapsto> n)) R rs c p"
proof (induction rs arbitrary: p)
  case (Cons r rs)
  then show ?case by auto
qed simp

lemma wrapped_rep: "wrapped h R (rev rs) c p \<Longrightarrow> rep h R a c \<Longrightarrow> rep h R (fold redir_ast rs a) p"
  by (induction rs arbitrary: p rule: rev_induct) (auto simp: redir_ast_def)

section \<open>The parser\<close>

text \<open>What a parsing function does to the state: it adds commands, within the memory there is.\<close>

definition adds :: "nat \<Rightarrow> 'z shst_scheme \<Rightarrow> 'z shst_scheme \<Rightarrow> bool" where
  "adds n s t \<longleftrightarrow> room_for n t \<and> sh_buf t = sh_buf s \<and> sh_cmds s \<subseteq>\<^sub>m sh_cmds t"

lemma adds_trans: "adds m s t \<Longrightarrow> adds n t u \<Longrightarrow> adds n s u"
  by (auto simp: adds_def intro: map_le_trans)

lemma addsD: "adds n s t \<Longrightarrow> room_for n t" "adds n s t \<Longrightarrow> sh_cmds s \<subseteq>\<^sub>m sh_cmds t"
  by (simp_all add: adds_def)

lemma newcmd_adds:
  assumes "room_for (Suc n) s" and "unat nb \<le> 1000"
  shows "\<exists>p t. newcmd nb c s = Ret p t \<and> p \<noteq> 0 \<and> sh_cmds s p = None \<and> sh_cmds t = (sh_cmds s)(p \<mapsto> c) \<and> adds n s t"
  using newcmd_ok[OF assms, of c] by (auto simp: adds_def map_le_def)

lemma redirs_toks_simps [simp]: "redirs_toks [] = []" "redirs_toks (r # rs) = redir_toks r @ redirs_toks rs"
  by (simp_all add: redirs_toks_def)

lemma open_modes: "uint (O_WRONLY OR O_CREATE OR O_TRUNC) = 0x601" "uint (O_WRONLY OR O_CREATE) = 0x201" "O_RDONLY = 0"
  by (simp_all add: O_WRONLY_def O_CREATE_def O_TRUNC_def O_RDONLY_def)

fun redir_tok :: "redir \<Rightarrow> tok" where
  "redir_tok (R_in f) = T_sym CHR ''<''"
| "redir_tok (R_out f) = T_sym CHR ''>''"
| "redir_tok (R_app f) = T_app"

lemma redir_toks_eq: "redir_toks r = [redir_tok r, T_word (redir_file r)]"
  by (cases r) auto

text \<open>One turn of the loop over redirections.\<close>

lemma parseredirs_step:
  assumes l: "lex_at b es s (redir_toks r @ ts)" and room: "room_for (Suc n) sa"
  shows "\<exists>p' s' t. parseredirs b es p s sa = parseredirs b es p' s' t \<and> wrapped (sh_cmds t) (word_at b) [r] p p' \<and>
    lex_at b es s' ts \<and> adds n sa t"
proof -
  obtain s1 where s1: "peek b es ''<>'' s = (True, s1)" "lex_at b es s1 (redir_tok r # T_word (redir_file r) # ts)"
    using peek_lex[OF l, of "''<>''"] by (cases r) (auto simp: redir_toks_eq symbols_def)
  obtain q2 e2 s2 where s2: "gettoken b es s1 = (tok_kind (redir_tok r), q2, e2, s2)" "lex_at b es s2 (T_word (redir_file r) # ts)"
    using gettoken_lex[OF s1(2)] by blast
  obtain q e s3 where s3: "gettoken b es s2 = (CHR ''a'', q, e, s3)" "lex_at b es s3 ts" "word_at b q e (redir_file r)"
    using gettoken_lex[OF s2(2)] by auto
  obtain p' t where t: "redircmd p q e (redir_mode r) (redir_fd r) sa = Ret p' t" "p' \<noteq> 0"
      "sh_cmds t p' = Some (Redircmd p q e (redir_mode r) (redir_fd r))" "adds n sa t"
    using newcmd_adds[OF room, of 40 "Redircmd p q e (redir_mode r) (redir_fd r)"] by (auto simp: redircmd_def)
  have "parseredirs b es p s sa = parseredirs b es p' s3 t"
    using t(1) by (subst parseredirs.simps) (cases r; simp add: s1(1) s2(1) s3(1) open_modes)
  then show ?thesis using t s3 by (intro exI[of _ p'] exI[of _ s3] exI[of _ t]) auto
qed

lemma parseredirs_ok:
  "lex_at b es s (redirs_toks rs @ ts) \<Longrightarrow> \<not> starts ''<>'' ts \<Longrightarrow> room_for (length rs + n) sa \<Longrightarrow>
    \<exists>p' s' t. parseredirs b es p s sa = Ret (p', s') t \<and> wrapped (sh_cmds t) (word_at b) (rev rs) p p' \<and>
      lex_at b es s' ts \<and> adds n sa t"
proof (induction rs arbitrary: p s sa)
  case Nil
  then obtain s1 where "peek b es ''<>'' s = (False, s1)" "lex_at b es s1 ts"
    using peek_lex[of b es s ts "''<>''"] by (auto simp: symbols_def)
  then show ?case using Nil(3) by (subst parseredirs.simps) (auto simp: adds_def)
next
  case (Cons r rs)
  then obtain p1 s1 t1 where 1: "parseredirs b es p s sa = parseredirs b es p1 s1 t1" "wrapped (sh_cmds t1) (word_at b) [r] p p1"
      "lex_at b es s1 (redirs_toks rs @ ts)" "adds (length rs + n) sa t1"
    using parseredirs_step[of b es s r "redirs_toks rs @ ts" "length rs + n" sa p] by auto
  obtain p' s' t where t: "parseredirs b es p1 s1 t1 = Ret (p', s') t" "wrapped (sh_cmds t) (word_at b) (rev rs) p1 p'"
      "lex_at b es s' ts" "adds n t1 t"
    using Cons.IH[OF 1(3) Cons.prems(2) addsD(1)[OF 1(4)]] by blast
  have "wrapped (sh_cmds t) (word_at b) (rev rs @ [r]) p p'"
    by (rule wrapped_append[OF t(2) wrapped_mono[OF 1(2) addsD(2)[OF t(4)]]])
  then show ?case using t 1 adds_trans[OF 1(4) t(4)] by auto
qed

text \<open>A command that gets its arguments, with the redirections around it.\<close>

definition exec_in :: "bytes \<Rightarrow> (u64 \<rightharpoonup> cnode) \<Rightarrow> u64 \<Rightarrow> bytes list \<Rightarrow> bool" where
  "exec_in b h c ws \<longleftrightarrow>
     (\<exists>qs es. h c = Some (Execcmd (argv_of qs) (argv_of es)) \<and> length qs = length ws \<and> length es = length ws \<and>
       (\<forall>i < length ws. word_at b (qs ! i) (es ! i) (ws ! i)))"

lemma exec_in_mono: "exec_in b h c ws \<Longrightarrow> h \<subseteq>\<^sub>m h' \<Longrightarrow> exec_in b h' c ws"
  unfolding exec_in_def by (metis map_le_Some)

definition built :: "bytes \<Rightarrow> nat \<Rightarrow> (u64 \<rightharpoonup> cnode) \<Rightarrow> u64 \<Rightarrow> bytes list \<Rightarrow> redir list \<Rightarrow> u64 \<Rightarrow> 'z shst_scheme \<Rightarrow> bool" where
  "built b n h c ws rs p s \<longleftrightarrow> room_for n s \<and> h \<subseteq>\<^sub>m sh_cmds s \<and> h c = None \<and> c \<noteq> 0 \<and> exec_in b (sh_cmds s) c ws \<and>
     wrapped (sh_cmds s) (word_at b) (rev rs) c p"

lemma argv_of_upd:
  "length qs < MAXARGS \<Longrightarrow> (argv_of qs)[length qs := Some q] = argv_of (qs @ [q])"
  "(argv_of qs)[length qs := None] = argv_of qs"
proof -
  show "(argv_of qs)[length qs := None] = argv_of qs"
    by (cases "MAXARGS - length qs") (auto simp: argv_of_def list_update_append list_update_beyond)
  assume "length qs < MAXARGS"
  then obtain k where "MAXARGS - length qs = Suc k" "MAXARGS - Suc (length qs) = k"
    by (metis Suc_diff_Suc)
  then show "(argv_of qs)[length qs := Some q] = argv_of (qs @ [q])" by (simp add: argv_of_def list_update_append)
qed

lemma room_for_upd: "room_for n s \<Longrightarrow> sh_cmds s c \<noteq> None \<Longrightarrow> room_for n (s\<lparr>sh_cmds := (sh_cmds s)(c \<mapsto> x)\<rparr>)"
  by (auto simp: room_for_def heap_ok_def split: if_splits) blast+

lemma built_set_arg:
  assumes bu: "built b n h c ws rs p s" and w: "word_at b q e w" and l: "length ws < MAXARGS"
  shows "\<exists>t. set_arg c (length ws) (Some q) (Some e) s = Ret () t \<and> built b n h c (ws @ [w]) rs p t \<and> sh_buf t = sh_buf s"
proof -
  obtain qs es where e: "sh_cmds s c = Some (Execcmd (argv_of qs) (argv_of es))" "length qs = length ws" "length es = length ws"
      "\<forall>i < length ws. word_at b (qs ! i) (es ! i) (ws ! i)"
    using bu by (auto simp: built_def exec_in_def)
  let ?t = "s\<lparr>sh_cmds := (sh_cmds s)(c \<mapsto> Execcmd (argv_of (qs @ [q])) (argv_of (es @ [e])))\<rparr>"
  have "set_arg c (length ws) (Some q) (Some e) s = Ret () ?t"
    using e l argv_of_upd(1)[of qs q] argv_of_upd(1)[of es e] by (simp add: set_arg_def)
  moreover have "exec_in b (sh_cmds ?t) c (ws @ [w])"
    unfolding exec_in_def
    by (rule exI[of _ "qs @ [q]"], rule exI[of _ "es @ [e]"]) (use e w in \<open>auto simp: nth_append less_Suc_eq\<close>)
  moreover have "h \<subseteq>\<^sub>m sh_cmds ?t" using bu by (auto simp: built_def map_le_def)
  ultimately show ?thesis
    using bu e(1) by (auto simp: built_def intro: room_for_upd wrapped_upd)
qed

lemma built_end:
  assumes bu: "built b n h c ws rs p s"
  shows "\<exists>t. set_arg c (length ws) None None s = Ret () t \<and> built b n h c ws rs p t \<and> sh_buf t = sh_buf s"
proof -
  obtain qs es where e: "sh_cmds s c = Some (Execcmd (argv_of qs) (argv_of es))" "length qs = length ws" "length es = length ws"
    using bu by (auto simp: built_def exec_in_def)
  have "set_arg c (length ws) None None s = Ret () s"
    using e argv_of_upd(2)[of qs] argv_of_upd(2)[of es] by (simp add: set_arg_def fun_upd_idem)
  then show ?thesis using bu by blast
qed

lemma built_redirs:
  assumes bu: "built b (length rs' + n) h c ws rs p s" and l: "lex_at b es i (redirs_toks rs' @ ts)" "\<not> starts ''<>'' ts"
  shows "\<exists>p' i' t. parseredirs b es p i s = Ret (p', i') t \<and> built b n h c ws (rs @ rs') p' t \<and> lex_at b es i' ts \<and> sh_buf t = sh_buf s"
proof -
  obtain p' i' t where t: "parseredirs b es p i s = Ret (p', i') t" "wrapped (sh_cmds t) (word_at b) (rev rs') p p'"
      "lex_at b es i' ts" "adds n s t"
    using parseredirs_ok[OF l, of n s p] bu by (auto simp: built_def)
  have m: "sh_cmds s \<subseteq>\<^sub>m sh_cmds t" by (rule addsD(2)[OF t(4)])
  have "wrapped (sh_cmds t) (word_at b) (rev rs' @ rev rs) c p'"
    using bu by (intro wrapped_append[OF t(2)] wrapped_mono[OF _ m]) (simp add: built_def)
  moreover have "exec_in b (sh_cmds t) c ws" using bu by (intro exec_in_mono[OF _ m]) (simp add: built_def)
  ultimately show ?thesis using bu t m by (auto simp: built_def adds_def intro: map_le_trans)
qed

lemma built_rep:
  assumes "built b n h c ws rs p t" and "length ws < MAXARGS"
  shows "rep (sh_cmds t) (word_at b) (fold redir_ast rs (A_exec ws)) p"
proof (rule wrapped_rep)
  show "wrapped (sh_cmds t) (word_at b) (rev rs) c p" using assms by (simp add: built_def)
  show "rep (sh_cmds t) (word_at b) (A_exec ws) c" using assms by (simp add: built_def exec_in_def)
qed

text \<open>What may follow: the end, or one of some symbols.\<close>

definition follows :: "bytes \<Rightarrow> tok list \<Rightarrow> bool" where
  "follows cs ts \<longleftrightarrow> ts = [] \<or> starts cs ts"

lemma starts_sub: "starts cs ts \<Longrightarrow> set cs \<inter> set ds = {} \<Longrightarrow> \<not> starts ds ts"
  by (cases "(cs, ts)" rule: starts.cases) auto

lemma follows_not: "follows cs ts \<Longrightarrow> set cs \<inter> set ds = {} \<Longrightarrow> \<not> starts ds ts"
  by (auto simp: follows_def dest: starts_sub)

lemma args_toks_simps [simp]:
  "args_toks [] = []" "args_toks ((w, rs) # as) = T_word w # redirs_toks rs @ args_toks as"
  "args_redirs [] = []" "args_redirs ((w, rs) # as) = rs @ args_redirs as"
  by (simp_all add: args_toks_def args_redirs_def)

lemma args_not_redir: "follows ''|)&;'' ts \<Longrightarrow> \<not> starts ''<>'' (args_toks as @ ts)"
  using follows_not[of "''|)&;''" ts "''<>''"] by (cases as) auto

lemma parseargs_ok:
  "lex_at b es i (args_toks as @ ts) \<Longrightarrow> follows ''|)&;'' ts \<Longrightarrow> built b (length (args_redirs as) + n) h c ws rs p s \<Longrightarrow>
    length ws + length as < MAXARGS \<Longrightarrow>
    \<exists>p' i' t. parseargs b es c (length ws) p i s = Ret (p', length ws + length as, i') t \<and>
      built b n h c (ws @ map fst as) (rs @ args_redirs as) p' t \<and> lex_at b es i' ts \<and> sh_buf t = sh_buf s"
proof (induction as arbitrary: ws rs p i s)
  case Nil
  obtain i1 where i1: "peek b es ''|)&;'' i = (starts ''|)&;'' ts, i1)" "lex_at b es i1 ts"
    using peek_lex[of b es i ts "''|)&;''"] Nil(1) by (auto simp: symbols_def)
  show ?case
  proof (cases "ts = []")
    case True
    then have "gettoken b es i1 = (NUL, es, es, es)" "lex_at b es es []"
      using i1(2) gettoken_end lex_at_skip(1,2)[of b es i1 "[]"] by auto
    then show ?thesis using i1(1) Nil(3) True by (subst parseargs.simps) simp
  next
    case False
    then show ?thesis using i1 Nil(2,3) by (subst parseargs.simps) (simp add: follows_def)
  qed
next
  case (Cons a as)
  obtain w rs' where a: "a = (w, rs')" by (cases a)
  obtain i1 where i1: "peek b es ''|)&;'' i = (False, i1)" "lex_at b es i1 (T_word w # redirs_toks rs' @ args_toks as @ ts)"
    using peek_lex[OF Cons.prems(1), of "''|)&;''"] by (auto simp: symbols_def a)
  obtain q e i2 where i2: "gettoken b es i1 = (CHR ''a'', q, e, i2)" "lex_at b es i2 (redirs_toks rs' @ args_toks as @ ts)" "word_at b q e w"
    using gettoken_lex[OF i1(2)] by auto
  obtain s1 where s1: "set_arg c (length ws) (Some q) (Some e) s = Ret () s1"
      "built b (length rs' + (length (args_redirs as) + n)) h c (ws @ [w]) rs p s1" "sh_buf s1 = sh_buf s"
    using built_set_arg[OF Cons.prems(3) i2(3)] Cons.prems(4) by (auto simp: a add.assoc)
  obtain p2 i3 s2 where s2: "parseredirs b es p i2 s1 = Ret (p2, i3) s2" "built b (length (args_redirs as) + n) h c (ws @ [w]) (rs @ rs') p2 s2"
      "lex_at b es i3 (args_toks as @ ts)" "sh_buf s2 = sh_buf s1"
    using built_redirs[OF s1(2) i2(2) args_not_redir[OF Cons.prems(2)]] by blast
  have "parseargs b es c (length ws) p i s = parseargs b es c (length (ws @ [w])) p2 i3 s2"
    using Cons.prems(4) s1(1) s2(1) by (subst parseargs.simps) (simp add: i1(1) i2(1))
  then show ?case using Cons.IH[OF s2(3) Cons.prems(2) s2(2)] Cons.prems(4) s1(3) s2(4) by (auto simp: a)
qed

section \<open>The functions of the grammar\<close>

text \<open>
  A parsing function reads the given tokens, when a follower comes after them, and leaves their
  meaning in memory.
\<close>

definition parses :: "bytes \<Rightarrow> nat \<Rightarrow> 'z shst_scheme parser \<Rightarrow> tok list \<Rightarrow> bytes \<Rightarrow> ast \<Rightarrow> bool" where
  "parses b es f toks fol a \<longleftrightarrow>
     (\<forall>ts i s n. lex_at b es i (toks @ ts) \<longrightarrow> follows fol ts \<longrightarrow> room_for (nodes a + n) s \<longrightarrow>
       (\<exists>p i' t. f i s = Ret (p, i') t \<and> rep (sh_cmds t) (word_at b) a p \<and> lex_at b es i' ts \<and> adds n s t))"

lemma parsesD:
  assumes "parses b es f toks fol a" and "lex_at b es i (toks @ ts)" and "follows fol ts" and "room_for (nodes a + n) s"
  obtains p i' t where "f i s = Ret (p, i') t" and "rep (sh_cmds t) (word_at b) a p" and "lex_at b es i' ts" and "adds n s t"
  using assms unfolding parses_def by blast

lemma peek_sym:
  assumes "lex_at b es i ts" and "set cs \<subseteq> set symbols"
  obtains i' where "peek b es cs i = (starts cs ts, i')" and "lex_at b es i' ts"
  using peek_lex[OF assms] by blast

lemma gettoken_sym:
  assumes "lex_at b es i (T_sym c # ts)"
  obtains q e i' where "gettoken b es i = (c, q, e, i')" and "lex_at b es i' ts"
  using gettoken_lex[OF assms] by auto

lemma rep_adds: "rep (sh_cmds s) R a p \<Longrightarrow> adds n s t \<Longrightarrow> rep (sh_cmds t) R a p"
  by (rule rep_mono[OF _ addsD(2)]) auto

lemma parses_simple:
  assumes "length as < MAXARGS"
  shows "parses b es (parseexec_body pb b es) (redirs_toks rs @ args_toks as) ''|)&;'' (scmd_ast (S_simple rs as))"
  unfolding parses_def
proof (intro allI impI)
  fix ts i n and s :: "'a shst_scheme"
  assume l: "lex_at b es i ((redirs_toks rs @ args_toks as) @ ts)" and f: "follows ''|)&;'' ts"
    and room: "room_for (nodes (scmd_ast (S_simple rs as)) + n) s"
  have "\<not> starts ''('' ((redirs_toks rs @ args_toks as) @ ts)"
  proof (cases rs)
    case Nil
    then show ?thesis using follows_not[OF f, of "''(''"] by (cases as) auto
  next
    case (Cons r rs')
    then show ?thesis by (cases r) auto
  qed
  then obtain i1 where i1: "peek b es ''('' i = (False, i1)" "lex_at b es i1 (redirs_toks rs @ args_toks as @ ts)"
    using peek_sym[OF l, of "''(''"] by (auto simp: symbols_def)
  have "room_for (Suc (length rs + (length (args_redirs as) + n))) s" using room by (simp add: add.assoc)
  from newcmd_adds[OF this, of 168 "Execcmd (replicate MAXARGS None) (replicate MAXARGS None)"]
  obtain c s1 where s1: "execcmd s = Ret c s1" "c \<noteq> 0" "sh_cmds s c = None"
      "sh_cmds s1 = (sh_cmds s)(c \<mapsto> Execcmd (replicate MAXARGS None) (replicate MAXARGS None))"
      "adds (length rs + (length (args_redirs as) + n)) s s1"
    by (auto simp: execcmd_def)
  have "exec_in b (sh_cmds s1) c []" by (simp add: exec_in_def s1(4) argv_of_def)
  then have "built b (length rs + (length (args_redirs as) + n)) (sh_cmds s) c [] [] c s1"
    using s1 by (auto simp: built_def adds_def)
  then obtain p2 i2 s2 where s2: "parseredirs b es c i1 s1 = Ret (p2, i2) s2"
      "built b (length (args_redirs as) + n) (sh_cmds s) c [] rs p2 s2" "lex_at b es i2 (args_toks as @ ts)" "sh_buf s2 = sh_buf s1"
    using built_redirs[OF _ i1(2) args_not_redir[OF f]] by fastforce
  obtain p3 i3 s3 where s3: "parseargs b es c 0 p2 i2 s2 = Ret (p3, length as, i3) s3"
      "built b n (sh_cmds s) c (map fst as) (rs @ args_redirs as) p3 s3" "lex_at b es i3 ts" "sh_buf s3 = sh_buf s2"
    using parseargs_ok[OF s2(3) f s2(2)] assms by auto
  obtain t where t: "set_arg c (length as) None None s3 = Ret () t" "built b n (sh_cmds s) c (map fst as) (rs @ args_redirs as) p3 t"
      "sh_buf t = sh_buf s3"
    using built_end[OF s3(2)] by auto
  have "rep (sh_cmds t) (word_at b) (scmd_ast (S_simple rs as)) p3" using built_rep[OF t(2)] assms by simp
  moreover have "adds n s t" using t(2,3) s3(4) s2(4) s1(5) by (simp add: adds_def built_def)
  ultimately show "\<exists>p i' t. parseexec_body pb b es i s = Ret (p, i') t \<and>
      rep (sh_cmds t) (word_at b) (scmd_ast (S_simple rs as)) p \<and> lex_at b es i' ts \<and> adds n s t"
    using i1(1) s1(1) s2(1) s3(1,3) t(1) by (simp add: parseexec_body_def)
qed

lemma parses_block:
  assumes "parses b es pl toks '')'' a"
  shows "parses b es (parseblock_body pl b es) (T_sym CHR ''('' # toks @ T_sym CHR '')'' # redirs_toks rs) ''|)&;'' (fold redir_ast rs a)"
  unfolding parses_def
proof (intro allI impI)
  fix ts i n and s :: "'a shst_scheme"
  assume l: "lex_at b es i ((T_sym CHR ''('' # toks @ T_sym CHR '')'' # redirs_toks rs) @ ts)" and f: "follows ''|)&;'' ts"
    and room: "room_for (nodes (fold redir_ast rs a) + n) s"
  obtain i1 where i1: "peek b es ''('' i = (True, i1)" "lex_at b es i1 (T_sym CHR ''('' # toks @ T_sym CHR '')'' # redirs_toks rs @ ts)"
    using peek_sym[OF l, of "''(''"] by (auto simp: symbols_def)
  obtain q2 e2 i2 where i2: "gettoken b es i1 = (CHR ''('', q2, e2, i2)" "lex_at b es i2 (toks @ T_sym CHR '')'' # redirs_toks rs @ ts)"
    by (rule gettoken_sym[OF i1(2)])
  have r: "room_for (nodes a + (length rs + n)) s" using room by (simp add: add.assoc)
  obtain p3 i3 s3 where s3: "pl i2 s = Ret (p3, i3) s3" "rep (sh_cmds s3) (word_at b) a p3"
      "lex_at b es i3 (T_sym CHR '')'' # redirs_toks rs @ ts)" "adds (length rs + n) s s3"
    by (rule parsesD[OF assms i2(2) _ r]) (auto simp: follows_def)
  obtain i4 where i4: "peek b es '')'' i3 = (True, i4)" "lex_at b es i4 (T_sym CHR '')'' # redirs_toks rs @ ts)"
    using peek_sym[OF s3(3), of "'')''"] by (auto simp: symbols_def)
  obtain q5 e5 i5 where i5: "gettoken b es i4 = (CHR '')'', q5, e5, i5)" "lex_at b es i5 (redirs_toks rs @ ts)"
    by (rule gettoken_sym[OF i4(2)])
  obtain p' i' t where t: "parseredirs b es p3 i5 s3 = Ret (p', i') t" "wrapped (sh_cmds t) (word_at b) (rev rs) p3 p'"
      "lex_at b es i' ts" "adds n s3 t"
    using parseredirs_ok[OF i5(2) _ addsD(1)[OF s3(4)], of p3] follows_not[OF f, of "''<>''"] by auto
  have "rep (sh_cmds t) (word_at b) (fold redir_ast rs a) p'" by (rule wrapped_rep[OF t(2) rep_adds[OF s3(2) t(4)]])
  then show "\<exists>p i' t. parseblock_body pl b es i s = Ret (p, i') t \<and>
      rep (sh_cmds t) (word_at b) (fold redir_ast rs a) p \<and> lex_at b es i' ts \<and> adds n s t"
    using i1(1) i2(1) s3(1) i4(1) i5(1) t(1,3) adds_trans[OF s3(4) t(4)] by (simp add: parseblock_body_def)
qed

lemma parses_exec_block:
  assumes "parses b es pb (T_sym CHR ''('' # toks) fol a"
  shows "parses b es (parseexec_body pb b es) (T_sym CHR ''('' # toks) fol a"
  unfolding parses_def
proof (intro allI impI)
  fix ts i n and s :: "'a shst_scheme"
  assume l: "lex_at b es i ((T_sym CHR ''('' # toks) @ ts)" and f: "follows fol ts" and room: "room_for (nodes a + n) s"
  obtain i1 where i1: "peek b es ''('' i = (True, i1)" "lex_at b es i1 ((T_sym CHR ''('' # toks) @ ts)"
    using peek_sym[OF l, of "''(''"] by (auto simp: symbols_def)
  show "\<exists>p i' t. parseexec_body pb b es i s = Ret (p, i') t \<and> rep (sh_cmds t) (word_at b) a p \<and> lex_at b es i' ts \<and> adds n s t"
    using parsesD[OF assms i1(2) f room] i1(1) by (fastforce simp: parseexec_body_def)
qed

lemma follows_mono: "follows cs ts \<Longrightarrow> set cs \<subseteq> set ds \<Longrightarrow> follows ds ts"
  by (cases "(cs, ts)" rule: starts.cases) (auto simp: follows_def)

lemma parses_pipe_one:
  assumes "parses b es pe toks ''|)&;'' a"
  shows "parses b es (parsepipe_body pe pp b es) toks '')&;'' a"
  unfolding parses_def
proof (intro allI impI)
  fix ts i n and s :: "'a shst_scheme"
  assume l: "lex_at b es i (toks @ ts)" and f: "follows '')&;'' ts" and room: "room_for (nodes a + n) s"
  have f': "follows ''|)&;'' ts" by (rule follows_mono[OF f]) auto
  obtain p i1 t where t: "pe i s = Ret (p, i1) t" "rep (sh_cmds t) (word_at b) a p" "lex_at b es i1 ts" "adds n s t"
    by (rule parsesD[OF assms l f' room])
  obtain i2 where "peek b es ''|'' i1 = (False, i2)" "lex_at b es i2 ts"
    using peek_sym[OF t(3), of "''|''"] follows_not[OF f, of "''|''"] by (auto simp: symbols_def)
  then show "\<exists>p i' t. parsepipe_body pe pp b es i s = Ret (p, i') t \<and> rep (sh_cmds t) (word_at b) a p \<and> lex_at b es i' ts \<and> adds n s t"
    using t by (simp add: parsepipe_body_def)
qed

lemma parses_pipe_two:
  assumes "parses b es pe toks ''|)&;'' a" and "parses b es pp toks' '')&;'' a'"
  shows "parses b es (parsepipe_body pe pp b es) (toks @ T_sym CHR ''|'' # toks') '')&;'' (A_pipe a a')"
  unfolding parses_def
proof (intro allI impI)
  fix ts i n and s :: "'a shst_scheme"
  assume l: "lex_at b es i ((toks @ T_sym CHR ''|'' # toks') @ ts)" and f: "follows '')&;'' ts"
    and room: "room_for (nodes (A_pipe a a') + n) s"
  have l': "lex_at b es i (toks @ T_sym CHR ''|'' # toks' @ ts)" using l by simp
  have r: "room_for (nodes a + (nodes a' + Suc n)) s" using room by (simp add: algebra_simps)
  obtain p1 i1 s1 where s1: "pe i s = Ret (p1, i1) s1" "rep (sh_cmds s1) (word_at b) a p1"
      "lex_at b es i1 (T_sym CHR ''|'' # toks' @ ts)" "adds (nodes a' + Suc n) s s1"
    by (rule parsesD[OF assms(1) l' _ r]) (auto simp: follows_def)
  obtain i2 where i2: "peek b es ''|'' i1 = (True, i2)" "lex_at b es i2 (T_sym CHR ''|'' # toks' @ ts)"
    using peek_sym[OF s1(3), of "''|''"] by (auto simp: symbols_def)
  obtain q3 e3 i3 where i3: "gettoken b es i2 = (CHR ''|'', q3, e3, i3)" "lex_at b es i3 (toks' @ ts)"
    by (rule gettoken_sym[OF i2(2)])
  obtain p4 i4 s4 where s4: "pp i3 s1 = Ret (p4, i4) s4" "rep (sh_cmds s4) (word_at b) a' p4" "lex_at b es i4 ts" "adds (Suc n) s1 s4"
    by (rule parsesD[OF assms(2) i3(2) f addsD(1)[OF s1(4)]])
  obtain p t where t: "pipecmd p1 p4 s4 = Ret p t" "p \<noteq> 0" "sh_cmds t p = Some (Pipecmd p1 p4)" "adds n s4 t"
    using newcmd_adds[OF addsD(1)[OF s4(4)], of 24 "Pipecmd p1 p4"] by (auto simp: pipecmd_def)
  have "rep (sh_cmds t) (word_at b) (A_pipe a a') p"
    using t rep_adds[OF rep_adds[OF s1(2) s4(4)] t(4)] rep_adds[OF s4(2) t(4)] by auto
  then show "\<exists>p i' t. parsepipe_body pe pp b es i s = Ret (p, i') t \<and> rep (sh_cmds t) (word_at b) (A_pipe a a') p \<and>
      lex_at b es i' ts \<and> adds n s t"
    using s1(1) i2(1) i3(1) s4(1,3) t(1) adds_trans[OF s1(4) adds_trans[OF s4(4) t(4)]] by (simp add: parsepipe_body_def)
qed

lemma parseamps_ok:
  "lex_at b es i (replicate k (T_sym CHR ''&'') @ ts) \<Longrightarrow> \<not> starts ''&'' ts \<Longrightarrow> room_for (k + n) s \<Longrightarrow>
    rep (sh_cmds s) (word_at b) a p \<Longrightarrow>
    \<exists>p' i' t. parseamps b es p i s = Ret (p', i') t \<and> rep (sh_cmds t) (word_at b) ((A_back ^^ k) a) p' \<and>
      lex_at b es i' ts \<and> adds n s t"
proof (induction k arbitrary: i s a p)
  case 0
  then obtain i1 where "peek b es ''&'' i = (False, i1)" "lex_at b es i1 ts"
    using peek_lex[of b es i ts "''&''"] by (auto simp: symbols_def)
  then show ?case using 0 by (subst parseamps.simps) (auto simp: adds_def)
next
  case (Suc k)
  obtain i1 where i1: "peek b es ''&'' i = (True, i1)" "lex_at b es i1 (T_sym CHR ''&'' # replicate k (T_sym CHR ''&'') @ ts)"
    using peek_lex[OF Suc.prems(1), of "''&''"] by (auto simp: symbols_def)
  obtain q2 e2 i2 where i2: "gettoken b es i1 = (CHR ''&'', q2, e2, i2)" "lex_at b es i2 (replicate k (T_sym CHR ''&'') @ ts)"
    by (rule gettoken_sym[OF i1(2)])
  obtain p3 s3 where s3: "backcmd p s = Ret p3 s3" "p3 \<noteq> 0" "sh_cmds s3 p3 = Some (Backcmd p)" "adds (k + n) s s3"
    using newcmd_adds[of "k + n" s 16 "Backcmd p"] Suc.prems(3) by (auto simp: backcmd_def)
  have "rep (sh_cmds s3) (word_at b) (A_back a) p3" using s3(2,3) rep_adds[OF Suc.prems(4) s3(4)] by simp
  then obtain p' i' t where "parseamps b es p3 i2 s3 = Ret (p', i') t" "rep (sh_cmds t) (word_at b) ((A_back ^^ k) (A_back a)) p'"
      "lex_at b es i' ts" "adds n s3 t"
    using Suc.IH[OF i2(2) Suc.prems(2) addsD(1)[OF s3(4)]] by blast
  then show ?case using i1(1) i2(1) s3(1) adds_trans[OF s3(4)]
    by (subst parseamps.simps) (auto simp: funpow_swap1)
qed

text \<open>The part of a line before its semicolon or its end.\<close>

lemma parse_pipe_amps:
  assumes "parses b es pp toks '')&;'' a" and l: "lex_at b es i (toks @ replicate k (T_sym CHR ''&'') @ ts)"
    and f: "follows '');'' ts" and room: "room_for (nodes ((A_back ^^ k) a) + n) s"
  shows "\<exists>p i' t. bindr (pp i s) (\<lambda>(cmd, ps) s. parseamps b es cmd ps s) = Ret (p, i') t \<and>
    rep (sh_cmds t) (word_at b) ((A_back ^^ k) a) p \<and> lex_at b es i' ts \<and> adds n s t"
proof -
  have r: "room_for (nodes a + (k + n)) s" using room by (simp add: add.assoc)
  have "follows '')&;'' (replicate k (T_sym CHR ''&'') @ ts)"
    using follows_mono[OF f, of "'')&;''"] by (cases k) (auto simp: follows_def)
  from parsesD[OF assms(1) l this r] obtain p1 i1 s1 where s1: "pp i s = Ret (p1, i1) s1" "rep (sh_cmds s1) (word_at b) a p1"
      "lex_at b es i1 (replicate k (T_sym CHR ''&'') @ ts)" "adds (k + n) s s1" by blast
  show ?thesis
    using parseamps_ok[OF s1(3) _ addsD(1)[OF s1(4)] s1(2)] follows_not[OF f, of "''&''"] s1(1) adds_trans[OF s1(4)] by fastforce
qed

lemma parses_line_one:
  assumes "parses b es pp toks '')&;'' a"
  shows "parses b es (parseline_body pp pl b es) (toks @ replicate k (T_sym CHR ''&'')) '')'' ((A_back ^^ k) a)"
  unfolding parses_def
proof (intro allI impI)
  fix ts i n and s :: "'a shst_scheme"
  assume l: "lex_at b es i ((toks @ replicate k (T_sym CHR ''&'')) @ ts)" and f: "follows '')'' ts"
    and room: "room_for (nodes ((A_back ^^ k) a) + n) s"
  have f': "follows '');'' ts" by (rule follows_mono[OF f]) auto
  obtain p i1 t where t: "bindr (pp i s) (\<lambda>(cmd, ps) s. parseamps b es cmd ps s) = Ret (p, i1) t"
      "rep (sh_cmds t) (word_at b) ((A_back ^^ k) a) p" "lex_at b es i1 ts" "adds n s t"
    using parse_pipe_amps[OF assms _ f' room, of i] l by auto
  obtain i2 where "peek b es '';'' i1 = (False, i2)" "lex_at b es i2 ts"
    using peek_sym[OF t(3), of "'';''"] follows_not[OF f, of "'';''"] by (auto simp: symbols_def)
  then show "\<exists>p i' t. parseline_body pp pl b es i s = Ret (p, i') t \<and> rep (sh_cmds t) (word_at b) ((A_back ^^ k) a) p \<and>
      lex_at b es i' ts \<and> adds n s t"
    using t by (auto simp: parseline_body_def elim!: bindr_RetE)
qed

lemma parses_line_seq:
  assumes "parses b es pp toks '')&;'' a" and "parses b es pl toks' '')'' a'"
  shows "parses b es (parseline_body pp pl b es) (toks @ replicate k (T_sym CHR ''&'') @ T_sym CHR '';'' # toks') '')''
    (A_list ((A_back ^^ k) a) a')"
  unfolding parses_def
proof (intro allI impI)
  fix ts i n and s :: "'a shst_scheme"
  assume l: "lex_at b es i ((toks @ replicate k (T_sym CHR ''&'') @ T_sym CHR '';'' # toks') @ ts)" and f: "follows '')'' ts"
    and room: "room_for (nodes (A_list ((A_back ^^ k) a) a') + n) s"
  have r: "room_for (nodes ((A_back ^^ k) a) + (nodes a' + Suc n)) s" using room by (simp add: algebra_simps)
  obtain p1 i1 s1 where s1: "bindr (pp i s) (\<lambda>(cmd, ps) s. parseamps b es cmd ps s) = Ret (p1, i1) s1"
      "rep (sh_cmds s1) (word_at b) ((A_back ^^ k) a) p1" "lex_at b es i1 (T_sym CHR '';'' # toks' @ ts)" "adds (nodes a' + Suc n) s s1"
    using parse_pipe_amps[OF assms(1) _ _ r, of i "T_sym CHR '';'' # toks' @ ts"] l by (auto simp: follows_def)
  obtain i2 where i2: "peek b es '';'' i1 = (True, i2)" "lex_at b es i2 (T_sym CHR '';'' # toks' @ ts)"
    using peek_sym[OF s1(3), of "'';''"] by (auto simp: symbols_def)
  obtain q3 e3 i3 where i3: "gettoken b es i2 = (CHR '';'', q3, e3, i3)" "lex_at b es i3 (toks' @ ts)"
    by (rule gettoken_sym[OF i2(2)])
  obtain p4 i4 s4 where s4: "pl i3 s1 = Ret (p4, i4) s4" "rep (sh_cmds s4) (word_at b) a' p4" "lex_at b es i4 ts" "adds (Suc n) s1 s4"
    by (rule parsesD[OF assms(2) i3(2) f addsD(1)[OF s1(4)]])
  obtain p t where t: "listcmd p1 p4 s4 = Ret p t" "p \<noteq> 0" "sh_cmds t p = Some (Listcmd p1 p4)" "adds n s4 t"
    using newcmd_adds[OF addsD(1)[OF s4(4)], of 24 "Listcmd p1 p4"] by (auto simp: listcmd_def)
  have "rep (sh_cmds t) (word_at b) (A_list ((A_back ^^ k) a) a') p"
    using t rep_adds[OF rep_adds[OF s1(2) s4(4)] t(4)] rep_adds[OF s4(2) t(4)] by auto
  moreover have "parseline_body pp pl b es i s = Ret (p, i4) t"
    using s1(1) i2(1) i3(1) s4(1) t(1) by (auto simp: parseline_body_def elim!: bindr_RetE)
  ultimately show "\<exists>p i' t. parseline_body pp pl b es i s = Ret (p, i') t \<and>
      rep (sh_cmds t) (word_at b) (A_list ((A_back ^^ k) a) a') p \<and> lex_at b es i' ts \<and> adds n s t"
    using s4(3) adds_trans[OF s1(4) adds_trans[OF s4(4) t(4)]] by blast
qed

text \<open>Every tree of the grammar, with enough fuel for its tokens.\<close>

lemma parses_tree:
  "scmd_fits c \<Longrightarrow> 4 * length (scmd_toks c) + 2 \<le> f \<Longrightarrow> parses b es (parseexec f b es :: 'z shst_scheme parser) (scmd_toks c) ''|)&;'' (scmd_ast c)"
  "spipe_fits p \<Longrightarrow> 4 * length (spipe_toks p) + 3 \<le> f \<Longrightarrow> parses b es (parsepipe f b es :: 'z shst_scheme parser) (spipe_toks p) '')&;'' (spipe_ast p)"
  "sline_fits l \<Longrightarrow> 4 * length (sline_toks l) + 4 \<le> f \<Longrightarrow> parses b es (parseline f b es :: 'z shst_scheme parser) (sline_toks l) '')'' (sline_ast l)"
proof (induction c and p and l arbitrary: f and f and f)
  case (S_simple rs as)
  then show ?case using parses_simple[of as b es _ rs] by (cases f) auto
next
  case (S_block l rs)
  then obtain m where m: "f = Suc (Suc m)" "4 * length (sline_toks l) + 4 \<le> m"
    by (cases f; cases "f - 1") auto
  have "parses b es (parseline m b es :: 'z shst_scheme parser) (sline_toks l) '')'' (sline_ast l)" using S_block.IH[OF _ m(2)] S_block.prems(1) by simp
  from parses_exec_block[OF parses_block[OF this, of rs]] show ?case using m(1) by simp
next
  case (P_one c)
  then show ?case by (cases f) (auto intro!: parses_pipe_one)
next
  case (P_pipe c p)
  then show ?case by (cases f) (auto intro!: parses_pipe_two)
next
  case (L_one p n)
  then show ?case by (cases f) (auto intro!: parses_line_one)
next
  case (L_seq p n l)
  then show ?case by (cases f) (auto intro!: parses_line_seq)
qed

section \<open>The strings\<close>

text \<open>The buffer with some characters overwritten; only ends of words are.\<close>

definition nulls :: "bytes \<Rightarrow> nat set \<Rightarrow> bytes" where
  "nulls b E = map (\<lambda>i. if i \<in> E then NUL else b ! i) [0..<length b]"

definition ends_ok :: "bytes \<Rightarrow> nat set \<Rightarrow> bool" where
  "ends_ok b E \<longleftrightarrow> (\<forall>e \<in> E. e < length b \<and> \<not> word_char (b ! e))"

definition ended :: "bytes \<Rightarrow> nat set \<Rightarrow> nat \<Rightarrow> nat \<Rightarrow> bytes \<Rightarrow> bool" where
  "ended b E q e w \<longleftrightarrow> word_at b q e w \<and> e \<in> E"

lemma length_nulls [simp]: "length (nulls b E) = length b"
  by (simp add: nulls_def)

lemma nulls_empty: "nulls b {} = b"
  by (simp add: nulls_def map_nth)

lemma nulls_upd: "e < length b \<Longrightarrow> (nulls b E)[e := NUL] = nulls b (insert e E)"
  by (rule nth_equalityI) (auto simp: nulls_def nth_list_update)

lemma str_at_nulls:
  assumes "ended b E q e w" and "ends_ok b E"
  shows "str_at (nulls b E) q = w"
proof -
  have w: "q + length w = e" "e < length b" "take (length w) (drop q b) = w" "\<forall>c \<in> set w. word_char c" "e \<in> E"
    using assms(1) by (auto simp: ended_def word_at_def)
  have "nulls b E ! (q + i) = w ! i" if i: "i < length w" for i
  proof -
    have "take (length w) (drop q b) ! i = b ! (q + i)" using w(1,2) i by simp
    then have "b ! (q + i) = w ! i" by (simp only: w(3))
    moreover have "word_char (w ! i)" using w(4) i by simp
    ultimately show ?thesis using assms(2) w(1,2) i by (auto simp: nulls_def ends_ok_def)
  qed
  then have "take (length w) (drop q (nulls b E)) = w" using w(1,2) by (intro nth_equalityI) auto
  moreover have "drop q (nulls b E) = take (length w) (drop q (nulls b E)) @ NUL # drop (Suc e) (nulls b E)"
  proof -
    have "drop q (nulls b E) ! length w = NUL" using w(1,2,5) by (simp add: nulls_def)
    moreover have "drop (Suc (length w)) (drop q (nulls b E)) = drop (Suc e) (nulls b E)" using w(1) by (simp add: add.commute)
    ultimately show ?thesis using w(1,2) id_take_nth_drop[of "length w" "drop q (nulls b E)"] by simp
  qed
  ultimately have d: "drop q (nulls b E) = w @ NUL # drop (Suc e) (nulls b E)" by simp
  have "\<forall>c \<in> set w. c \<noteq> NUL" using w(4) by (auto simp: word_char_def)
  then show ?thesis by (simp add: str_at_def cstr_def d)
qed

lemma nul_args_ok:
  "length qs = length es \<Longrightarrow> \<forall>e \<in> set es. e < length b \<Longrightarrow>
    nul_args (map Some qs @ None # xs) (map Some es @ ys) (nulls b E) = Some (nulls b (E \<union> set es))"
proof (induction qs es arbitrary: E rule: list_induct2)
  case (Cons q qs e es)
  then show ?case by (simp add: nulls_upd)
qed simp

lemma ended_mono: "E \<subseteq> E' \<Longrightarrow> rep h (ended b E) a p \<Longrightarrow> rep h (ended b E') a p"
  by (rule rep_mono) (auto simp: ended_def)

lemma argv_of_None: "length qs < MAXARGS \<Longrightarrow> argv_of qs = map Some qs @ None # replicate (MAXARGS - Suc (length qs)) None"
  by (simp add: argv_of_def replicate_Suc[symmetric] Suc_diff_Suc del: replicate_Suc)

lemma nulterminate_ok:
  "rep h (word_at b) a p \<Longrightarrow> ends_ok b E \<Longrightarrow>
    \<exists>E'. nulterminate h p (nulls b E) = Some (Some (nulls b E')) \<and> E \<subseteq> E' \<and> ends_ok b E' \<and> rep h (ended b E') a p"
proof (induction a arbitrary: p E)
  case (A_exec ws)
  then obtain qs es where e: "h p = Some (Execcmd (argv_of qs) (argv_of es))" "length qs = length ws" "length es = length ws"
      "\<forall>i < length ws. word_at b (qs ! i) (es ! i) (ws ! i)" and p: "p \<noteq> 0" "length ws < MAXARGS" by auto
  have es: "e < length b \<and> \<not> word_char (b ! e)" if "e \<in> set es" for e
    using that e(3,4) by (auto simp: in_set_conv_nth word_at_def)
  have "nul_args (argv_of qs) (argv_of es) (nulls b E) = Some (nulls b (E \<union> set es))"
    using nul_args_ok[of qs es b] es e(2,3) p(2) by (simp add: argv_of_None)
  moreover have "ends_ok b (E \<union> set es)" using A_exec(2) es by (auto simp: ends_ok_def)
  moreover have "rep h (ended b (E \<union> set es)) (A_exec ws) p"
    unfolding rep.simps
    by (intro conjI p, rule exI[of _ qs], rule exI[of _ es]) (use e in \<open>auto simp: ended_def\<close>)
  ultimately show ?case using e(1) p(1) by (subst nulterminate.simps) auto
next
  case (A_redir a f m d)
  then obtain c q e where e: "h p = Some (Redircmd c q e m d)" "word_at b q e f" "rep h (word_at b) a c" "p \<noteq> 0" by auto
  obtain E1 where E1: "nulterminate h c (nulls b E) = Some (Some (nulls b E1))" "E \<subseteq> E1" "ends_ok b E1" "rep h (ended b E1) a c"
    using A_redir.IH[OF e(3) A_redir.prems(2)] by blast
  have b: "e < length b" "\<not> word_char (b ! e)" using e(2) by (auto simp: word_at_def)
  have "nulterminate h p (nulls b E) = Some (Some (nulls b (insert e E1)))"
    using e(1,4) E1(1) b(1) by (subst nulterminate.simps) (simp add: nulls_upd)
  moreover have "rep h (ended b (insert e E1)) (A_redir a f m d) p"
    using e ended_mono[OF _ E1(4), of "insert e E1"] by (auto simp: ended_def)
  ultimately show ?case using E1(2,3) b by (intro exI[of _ "insert e E1"]) (auto simp: ends_ok_def)
next
  case (A_pipe a a')
  then obtain l r where e: "h p = Some (Pipecmd l r)" "rep h (word_at b) a l" "rep h (word_at b) a' r" "p \<noteq> 0" by auto
  obtain E1 where E1: "nulterminate h l (nulls b E) = Some (Some (nulls b E1))" "E \<subseteq> E1" "ends_ok b E1" "rep h (ended b E1) a l"
    using A_pipe.IH(1)[OF e(2) A_pipe.prems(2)] by blast
  obtain E2 where E2: "nulterminate h r (nulls b E1) = Some (Some (nulls b E2))" "E1 \<subseteq> E2" "ends_ok b E2" "rep h (ended b E2) a' r"
    using A_pipe.IH(2)[OF e(3) E1(3)] by blast
  show ?case using e E1 E2 ended_mono[OF E2(2) E1(4)] by (subst nulterminate.simps) auto
next
  case (A_list a a')
  then obtain l r where e: "h p = Some (Listcmd l r)" "rep h (word_at b) a l" "rep h (word_at b) a' r" "p \<noteq> 0" by auto
  obtain E1 where E1: "nulterminate h l (nulls b E) = Some (Some (nulls b E1))" "E \<subseteq> E1" "ends_ok b E1" "rep h (ended b E1) a l"
    using A_list.IH(1)[OF e(2) A_list.prems(2)] by blast
  obtain E2 where E2: "nulterminate h r (nulls b E1) = Some (Some (nulls b E2))" "E1 \<subseteq> E2" "ends_ok b E2" "rep h (ended b E2) a' r"
    using A_list.IH(2)[OF e(3) E1(3)] by blast
  show ?case using e E1 E2 ended_mono[OF E2(2) E1(4)] by (subst nulterminate.simps) auto
next
  case (A_back a)
  then obtain c where e: "h p = Some (Backcmd c)" "rep h (word_at b) a c" "p \<noteq> 0" by auto
  show ?case using e A_back.IH[OF e(2) A_back.prems(2)] by (subst nulterminate.simps) auto
qed

section \<open>Property\<close>

lemma u_strlen_length: "u_strlen xs = length xs"
  by (induction xs) auto

lemma parsecmd_text:
  assumes "spells ts x" and "sh_buf s = pre @ x @ NUL # post"
  shows "lex_at (sh_buf s) (length pre + length x) (length pre) ts"
    "length pre + u_strlen (cstr (drop (length pre) (sh_buf s))) = length pre + length x" "length ts \<le> length (sh_buf s)"
proof -
  show "lex_at (sh_buf s) (length pre + length x) (length pre) ts"
    using assms by (auto simp: lex_at_def text_at_def nth_append intro!: exI[of _ x])
  have "\<forall>c \<in> set x. c \<noteq> NUL" using spells_no_NUL[OF assms(1)] by auto
  then show "length pre + u_strlen (cstr (drop (length pre) (sh_buf s))) = length pre + length x"
    by (simp add: assms(2) cstr_def u_strlen_length)
  show "length ts \<le> length (sh_buf s)" using spells_length[OF assms(1)] assms(2) by simp
qed

text \<open>
  C38: the parser of the shell and the grammar agree. For every line of the grammar whose commands
  have fewer than \<open>MAXARGS\<close> words and every text that spells its tokens, with any blanks between them, \<open>parsecmd\<close> returns, as long as the kernel
  gives memory. At the address it returns stand the commands that the line means, each with the
  words of the line as its strings: the characters that \<open>nulterminate\<close> overwrites are none of a
  word.
\<close>

theorem parsecmd_correct:
  assumes "spells (sline_toks l) x" and "sline_fits l" and "sh_buf s = pre @ x @ NUL # post"
    and "room_for (nodes (sline_ast l)) s"
  shows "\<exists>p t. parsecmd (length pre) s = Ret p t \<and> rep (sh_cmds t) (\<lambda>q e w. str_at (sh_buf t) q = w) (sline_ast l) p"
proof -
  let ?b = "sh_buf s" and ?es = "length pre + length x"
  note line = parsecmd_text[OF assms(1,3)]
  have lex: "lex_at ?b ?es (length pre) (sline_toks l @ [])" using line(1) by simp
  have fuel: "4 * length (sline_toks l) + 4 \<le> parse_fuel ?b" using line(3) by (simp add: parse_fuel_def)
  have room: "room_for (nodes (sline_ast l) + 0) s" using assms(4) by simp
  obtain p i t where t: "parseline (parse_fuel ?b) ?b ?es (length pre) s = Ret (p, i) t"
      "rep (sh_cmds t) (word_at ?b) (sline_ast l) p" "lex_at ?b ?es i []" "adds 0 s t"
    by (rule parsesD[OF parses_tree(3)[OF assms(2) fuel] lex _ room]) (simp add: follows_def)
  have pk: "snd (peek ?b ?es [] i) = ?es" using lex_at_skip(2)[OF t(3)] by (simp add: peek_def Let_def)
  obtain E where E: "nulterminate (sh_cmds t) p ?b = Some (Some (nulls ?b E))" "ends_ok ?b E"
      "rep (sh_cmds t) (ended ?b E) (sline_ast l) p"
    using nulterminate_ok[OF t(2), of "{}"] by (auto simp: nulls_empty ends_ok_def)
  have "parsecmd (length pre) s = Ret p (t\<lparr>sh_buf := nulls ?b E\<rparr>)"
    using t(1) pk E(1) by (simp add: parsecmd_def Let_def line(2) in_object_def split_beta)
  moreover have "rep (sh_cmds t) (\<lambda>q e w. str_at (nulls ?b E) q = w) (sline_ast l) p"
    using E(3) str_at_nulls[OF _ E(2)] by (intro rep_mono[OF E(3)]) auto
  ultimately show ?thesis by auto
qed

text \<open>A line with every construct, and a shell at its first command.\<close>

definition line0 :: sline where
  "line0 = L_seq (P_pipe (S_simple [] [(''ls'', [R_out ''f''])]) (P_one (S_simple [] [(''wc'', [])]))) 1
     (L_one (P_one (S_block (L_one (P_one (S_simple [] [(''a'', [])])) 0) [])) 0)"

definition sh0 :: shst where
  "sh0 = \<lparr>u_resp = map (\<lambda>i. Rs (0x4000 + 65536 * int i) []) [0..<7], u_log = [], u_pend = None,
     umem = (\<lambda>_. 0), u_base = 0x3000, u_freep = 0,
     sh_buf = ''ls >f | wc& ;(a)'' @ [NL] @ replicate 83 NUL, sh_cmds = Map.empty\<rparr>"

lemma line0_spelled: "spells (sline_toks line0) (''ls >f | wc& ;(a)'' @ [NL])"
proof -
  have "spells [T_word ''ls'', T_sym CHR ''>'', T_word ''f'', T_sym CHR ''|'', T_word ''wc'', T_sym CHR ''&'', T_sym CHR '';'',
      T_sym CHR ''('', T_word ''a'', T_sym CHR '')'']
    ([] @ tok_chars (T_word ''ls'') @ '' '' @ tok_chars (T_sym CHR ''>'') @ [] @ tok_chars (T_word ''f'') @
     '' '' @ tok_chars (T_sym CHR ''|'') @ '' '' @ tok_chars (T_word ''wc'') @ [] @ tok_chars (T_sym CHR ''&'') @
     '' '' @ tok_chars (T_sym CHR '';'') @ [] @ tok_chars (T_sym CHR ''('') @ [] @ tok_chars (T_word ''a'') @
     [] @ tok_chars (T_sym CHR '')'') @ [NL])"
    by (intro spells_tok spells_end) (auto simp: is_ws_def word_char_def whitespace_def symbols_def)
  then show ?thesis by (simp add: line0_def)
qed

theorem parsecmd_correct_witness:
  "\<exists>p t. parsecmd 0 sh0 = Ret p t \<and> rep (sh_cmds t) (\<lambda>q e w. str_at (sh_buf t) q = w)
    (A_list (A_back (A_pipe (A_redir (A_exec [''ls'']) ''f'' 0x601 1) (A_exec [''wc'']))) (A_exec [''a''])) p"
proof -
  have ast: "sline_ast line0 =
      A_list (A_back (A_pipe (A_redir (A_exec [''ls'']) ''f'' 0x601 1) (A_exec [''wc'']))) (A_exec [''a''])"
    by (simp add: line0_def redir_ast_def)
  have "sline_fits line0" by (simp add: line0_def MAXARGS_def)
  moreover have "sh_buf sh0 = [] @ (''ls >f | wc& ;(a)'' @ [NL]) @ NUL # replicate 82 NUL"
    by (simp add: sh0_def eval_nat_numeral)
  moreover have "room_for (nodes (sline_ast line0)) sh0"
    unfolding ast room_for_def
    by (intro conjI exI[of _ "0x4000"] exI[of _ "{}"]) (simp_all add: sh0_def heap_ok_def HDR_def HEAPMAX_def upt_rec)
  ultimately show ?thesis
    using parsecmd_correct[of line0 "''ls >f | wc& ;(a)'' @ [NL]" sh0 "[]" "replicate 82 NUL"] line0_spelled ast by simp
qed

end
