(* ===== verification/ShTerm.thy ===== *)
theory ShTerm
  imports ShLex
begin

text \<open>
  The parser of the shell ends on every input: whatever the buffer holds and whatever the kernel
  answers, no call of it runs forever, and its bound on the depth of calls is never reached.
\<close>

section \<open>Sound heaps\<close>

text \<open>Answers to \<open>sbrk\<close>, of which some may be errors.\<close>

fun sbrk_seq :: "nat \<Rightarrow> uresp list \<Rightarrow> bool" where
  "sbrk_seq hi [] \<longleftrightarrow> True"
| "sbrk_seq hi (r # rs) \<longleftrightarrow>
     (if rs_val r = -1 then sbrk_seq hi rs
      else int hi \<le> rs_val r \<and> nat (rs_val r) + 65536 \<le> HEAPMAX \<and> sbrk_seq (nat (rs_val r) + 65536) rs)"

definition heap_sound :: "'z shst_scheme \<Rightarrow> bool" where
  "heap_sound s \<longleftrightarrow>
     (\<exists>hi al. heap_ok hi s al \<and> sbrk_seq hi (u_resp s) \<and> (\<forall>a \<in> dom (sh_cmds s). a - of_nat HDR \<in> fst ` al))"

text \<open>
  Commands that hang together: those reachable from an address form a tree. What is stored later
  are new commands, or other arguments of old ones.
\<close>

inductive tree :: "(u64 \<rightharpoonup> cnode) \<Rightarrow> u64 \<Rightarrow> bool" for h where
  tree_exec: "h p = Some (Execcmd argv eargv) \<Longrightarrow> tree h p"
| tree_redir: "h p = Some (Redircmd c q e m d) \<Longrightarrow> tree h c \<Longrightarrow> tree h p"
| tree_pipe: "h p = Some (Pipecmd l r) \<Longrightarrow> tree h l \<Longrightarrow> tree h r \<Longrightarrow> tree h p"
| tree_list: "h p = Some (Listcmd l r) \<Longrightarrow> tree h l \<Longrightarrow> tree h r \<Longrightarrow> tree h p"
| tree_back: "h p = Some (Backcmd c) \<Longrightarrow> tree h c \<Longrightarrow> tree h p"

fun same_kind :: "cnode \<Rightarrow> cnode \<Rightarrow> bool" where
  "same_kind (Execcmd _ _) (Execcmd _ _) \<longleftrightarrow> True"
| "same_kind m n \<longleftrightarrow> m = n"

definition later :: "(u64 \<rightharpoonup> cnode) \<Rightarrow> (u64 \<rightharpoonup> cnode) \<Rightarrow> bool" where
  "later h h' \<longleftrightarrow> (\<forall>p n. h p = Some n \<longrightarrow> (\<exists>n'. h' p = Some n' \<and> same_kind n n'))"

lemma same_kind_refl [simp]: "same_kind n n"
  by (cases n) auto

lemma same_kind_trans: "same_kind a b \<Longrightarrow> same_kind b c \<Longrightarrow> same_kind a c"
  by (cases a; cases b; cases c) auto

lemma later_refl [simp]: "later h h"
  by (auto simp: later_def)

lemma later_trans: "later h h' \<Longrightarrow> later h' h'' \<Longrightarrow> later h h''"
  unfolding later_def by (metis same_kind_trans)

lemma later_Some:
  assumes "later h h'" and "h p = Some n"
  obtains n' where "h' p = Some n'" and "same_kind n n'"
  using assms by (auto simp: later_def)

lemma tree_later: "tree h p \<Longrightarrow> later h h' \<Longrightarrow> tree h' p"
proof (induction rule: tree.induct)
  case (tree_exec p argv eargv)
  then obtain n' where "h' p = Some n'" "same_kind (Execcmd argv eargv) n'" by (blast elim: later_Some)
  then show ?case by (cases n') (auto intro: tree.tree_exec)
qed (force elim!: later_Some intro: tree.intros)+

lemma nulterminate_ends: "tree h p \<Longrightarrow> nulterminate h p b \<noteq> None"
proof (induction arbitrary: b rule: tree.induct)
  case (tree_exec p argv eargv)
  then show ?case by (subst nulterminate.simps) simp
next
  case (tree_redir p c q e m d)
  obtain y where "nulterminate h c b = Some y" using tree_redir.IH[of b] by auto
  then show ?case using tree_redir.hyps by (subst nulterminate.simps) (cases y; simp)
next
  case (tree_pipe p l r)
  obtain y where "nulterminate h l b = Some y" using tree_pipe.IH(1)[of b] by auto
  then show ?case using tree_pipe.hyps tree_pipe.IH(2) by (subst nulterminate.simps) (cases y; simp)
next
  case (tree_list p l r)
  obtain y where "nulterminate h l b = Some y" using tree_list.IH(1)[of b] by auto
  then show ?case using tree_list.hyps tree_list.IH(2) by (subst nulterminate.simps) (cases y; simp)
next
  case (tree_back p c)
  then show ?case by (subst nulterminate.simps) auto
qed

section \<open>Calls that end\<close>

text \<open>A call that does not run forever, and whose return satisfies a condition.\<close>

definition ends :: "('a, 's) res \<Rightarrow> ('a \<Rightarrow> 's \<Rightarrow> bool) \<Rightarrow> bool" where
  "ends r Q \<longleftrightarrow> (case r of Ret a t \<Rightarrow> Q a t | Spin _ \<Rightarrow> False | _ \<Rightarrow> True)"

lemma ends_simps [simp]: "ends (Ret a t) Q \<longleftrightarrow> Q a t" "ends (Panic m) Q" "ends (Blocked t) Q" "\<not> ends (Spin t) Q"
  by (simp_all add: ends_def)

lemma ends_bindr: "ends r P \<Longrightarrow> (\<And>a t. P a t \<Longrightarrow> ends (f a t) Q) \<Longrightarrow> ends (bindr r f) Q"
  by (cases r) auto

lemma ends_mono: "ends r P \<Longrightarrow> (\<And>a t. P a t \<Longrightarrow> Q a t) \<Longrightarrow> ends r Q"
  by (cases r) auto

lemma sys_ends: "ends (sys c s) (\<lambda>_ _. True)"
  by (simp add: sys_def split: list.splits)

lemma u_puts_ends: "ends (u_puts fd cs s) (\<lambda>_ _. True)"
  by (induction cs arbitrary: s) (auto simp: u_putc_def sysv_def intro!: ends_bindr[where P = "\<lambda>_ _. True"] sys_ends)

lemma sh_panic_ends: "ends (sh_panic m s) Q"
proof -
  have "ends (u_fprintf 2 (''%s'' @ [NL]) [VStr (Some m)] s) (\<lambda>_ _. True)"
    by (auto simp: u_fprintf_def u_vprintf_def u_puts_ends split: option.splits)
  then show ?thesis unfolding sh_panic_def by (rule ends_bindr) (simp add: u_exit_def)
qed

lemma newcmd_ends:
  fixes s :: "'z shst_scheme"
  assumes sound: "heap_sound s" and nb: "unat nb \<le> 1000"
  shows "ends (newcmd nb c s) (\<lambda>p t. p \<noteq> 0 \<and> sh_cmds t p = Some c \<and> later (sh_cmds s) (sh_cmds t) \<and> heap_sound t)"
proof -
  obtain hi al where h: "heap_ok hi s al" "sbrk_seq hi (u_resp s)" and dom: "\<forall>a \<in> dom (sh_cmds s). a - of_nat HDR \<in> fst ` al"
    using sound by (auto simp: heap_sound_def)
  have units: "units_asked (nunits_of nb) = 4096" using nb by (simp add: units_asked_def unat_nunits HDR_def)
  have ok: ?thesis if t: "u_malloc nb s = Ret (p + of_nat HDR) t" "heap_ok hi' t (insert (p, k) al)" "p \<notin> fst ` al"
      "sbrk_seq hi' (u_resp t)" for p t hi' k
  proof -
    let ?t = "t\<lparr>sh_cmds := (sh_cmds t)(p + of_nat HDR \<mapsto> c)\<rparr>"
    note more = u_malloc_more[OF t(1)]
    have "sh_cmds s (p + of_nat HDR) = None" using dom t(3) by (force simp: domIff)
    moreover have "heap_ok hi' ?t (insert (p, k) al)" using t(2) by (simp add: heap_ok_def)
    then have "heap_sound ?t" using t(4) dom more(2) by (fastforce simp: heap_sound_def)
    ultimately show ?thesis using t(1) block_addr(1)[OF t(2)] more by (auto simp: newcmd_def later_def)
  qed
  show ?thesis
  proof (cases "u_resp s")
    case Nil
    then show ?thesis using u_malloc_waits[OF h(1) Nil, of nb] ok by (auto simp: newcmd_def)
  next
    case (Cons r rs)
    have r: "sbrk_answer hi (HDR * units_asked (nunits_of nb)) r" "HDR * units_asked (nunits_of nb) < 2 ^ 31"
      using h(2) by (auto simp: units sbrk_answer_def HDR_def Cons split: if_splits)
    show ?thesis using u_malloc_grown[OF h(1) Cons r]
    proof (elim disjE exE conjE)
      fix p t assume t: "u_malloc nb s = Ret (p + of_nat HDR) t" "grown hi (nunits_of nb) r rs t (insert (p, unat (nunits_of nb)) al)"
        "p \<notin> fst ` al"
      then show ?thesis using ok[OF t(1) _ t(3)] h(2) Cons by (auto simp: grown_def units HDR_def)
    qed (simp add: newcmd_def)
  qed
qed

section \<open>The parser\<close>

text \<open>A call returns a tree of commands, and an index that is not before its own.\<close>

definition stored :: "'z shst_scheme \<Rightarrow> u64 \<Rightarrow> 'z shst_scheme \<Rightarrow> bool" where
  "stored s p t \<longleftrightarrow> tree (sh_cmds t) p \<and> later (sh_cmds s) (sh_cmds t) \<and> heap_sound t"

definition parsed :: "nat \<Rightarrow> 'z shst_scheme \<Rightarrow> u64 \<times> nat \<Rightarrow> 'z shst_scheme \<Rightarrow> bool" where
  "parsed i s x t \<longleftrightarrow> i \<le> snd x \<and> stored s (fst x) t"

lemma storedD: "stored s p t \<Longrightarrow> tree (sh_cmds t) p" "stored s p t \<Longrightarrow> later (sh_cmds s) (sh_cmds t)" "stored s p t \<Longrightarrow> heap_sound t"
  by (simp_all add: stored_def)

lemma stored_trans: "later (sh_cmds s) (sh_cmds t) \<Longrightarrow> stored t p u \<Longrightarrow> stored s p u"
  by (auto simp: stored_def intro: later_trans)

lemma parsed_trans: "later (sh_cmds s) (sh_cmds t) \<Longrightarrow> i \<le> j \<Longrightarrow> parsed j t x u \<Longrightarrow> parsed i s x u"
  by (auto simp: parsed_def intro: stored_trans)

lemma ends_later:
  "ends r (parsed j t) \<Longrightarrow> later (sh_cmds s) (sh_cmds t) \<Longrightarrow> i \<le> j \<Longrightarrow> ends r (parsed i s)"
  by (erule ends_mono) (rule parsed_trans)

text \<open>The constructors on trees.\<close>

lemma newcmd_stored:
  assumes "heap_sound s" and "unat nb \<le> 1000" and "\<And>h p. later (sh_cmds s) h \<Longrightarrow> h p = Some c \<Longrightarrow> tree h p"
  shows "ends (newcmd nb c s) (stored s)"
  by (rule ends_mono[OF newcmd_ends[OF assms(1,2)]]) (auto simp: stored_def intro: assms(3))

lemma constructors_end:
  assumes "heap_sound s"
  shows "ends (execcmd s) (stored s)"
    "tree (sh_cmds s) c \<Longrightarrow> ends (redircmd c q e m d s) (stored s)"
    "tree (sh_cmds s) c \<Longrightarrow> ends (backcmd c s) (stored s)"
    "tree (sh_cmds s) c \<Longrightarrow> tree (sh_cmds s) c' \<Longrightarrow> ends (pipecmd c c' s) (stored s)"
    "tree (sh_cmds s) c \<Longrightarrow> tree (sh_cmds s) c' \<Longrightarrow> ends (listcmd c c' s) (stored s)"
  unfolding execcmd_def redircmd_def backcmd_def pipecmd_def listcmd_def
  using assms by (auto intro!: newcmd_stored intro: tree.intros tree_later)

lemma set_arg_ends:
  assumes "heap_sound s"
  shows "ends (set_arg c i q e s) (\<lambda>_ t. later (sh_cmds s) (sh_cmds t) \<and> heap_sound t)"
proof (cases "\<exists>av ev. sh_cmds s c = Some (Execcmd av ev)")
  case True
  then obtain av ev where c: "sh_cmds s c = Some (Execcmd av ev)" by blast
  let ?t = "s\<lparr>sh_cmds := (sh_cmds s)(c \<mapsto> Execcmd (av[i := q]) (ev[i := e]))\<rparr>"
  obtain hi al where h: "heap_ok hi s al" "sbrk_seq hi (u_resp s)" "\<forall>a \<in> dom (sh_cmds s). a - of_nat HDR \<in> fst ` al"
    using assms by (auto simp: heap_sound_def)
  have "heap_ok hi ?t al" using h(1) by (simp add: heap_ok_def)
  moreover have "dom (sh_cmds ?t) = dom (sh_cmds s)" using c by auto
  ultimately have "heap_sound ?t" using h(2,3) unfolding heap_sound_def by (intro exI[of _ hi] exI[of _ al]) simp
  then show ?thesis using c by (auto simp: set_arg_def later_def)
next
  case False
  then show ?thesis by (simp add: set_arg_def split: option.splits cnode.splits)
qed

lemma parseredirs_ends:
  "heap_sound s \<Longrightarrow> tree (sh_cmds s) p \<Longrightarrow> ends (parseredirs b es p i s) (parsed i s)"
proof (induction "length b - i" arbitrary: p i s rule: less_induct)
  case less
  show ?case
  proof (cases "peek b es ''<>'' i")
    case (Pair found i1)
    show ?thesis
    proof (cases found)
      case False
      then show ?thesis using Pair less.prems peek_ge[OF Pair] by (subst parseredirs.simps) (simp add: parsed_def stored_def)
    next
      case True
      obtain c2 q2 e2 i2 where g2: "gettoken b es i1 = (c2, q2, e2, i2)" by (cases "gettoken b es i1")
      obtain c3 q3 e3 i3 where g3: "gettoken b es i2 = (c3, q3, e3, i3)" by (cases "gettoken b es i2")
      have dec: "length b - i3 < length b - i" "i \<le> i3"
        using parse_steps(2)[OF _ _ g2 g3, of "''<>''" i] peek_ge[OF Pair] gettoken_ge[OF g2] gettoken_ge[OF g3] Pair True
        by (auto simp: symbols_def)
      have step: "ends (parseredirs b es p' i3 t) (parsed i s)" if "stored s p' t" for p' t
        using less.hyps[OF dec(1) storedD(3,1)[OF that]] storedD(2)[OF that] dec(2) by (rule ends_later)
      have "stored s p s" using less.prems by (simp add: stored_def)
      then show ?thesis using Pair True g2 g3 less.prems
        by (subst parseredirs.simps) (auto simp: sh_panic_ends intro!: ends_bindr[where P = "stored s"] constructors_end step)
    qed
  qed
qed

lemma parseamps_ends:
  "heap_sound s \<Longrightarrow> tree (sh_cmds s) p \<Longrightarrow> ends (parseamps b es p i s) (parsed i s)"
proof (induction "length b - i" arbitrary: p i s rule: less_induct)
  case less
  show ?case
  proof (cases "peek b es ''&'' i")
    case (Pair found i1)
    show ?thesis
    proof (cases found)
      case False
      then show ?thesis using Pair less.prems peek_ge[OF Pair] by (subst parseamps.simps) (simp add: parsed_def stored_def)
    next
      case True
      obtain c2 q2 e2 i2 where g2: "gettoken b es i1 = (c2, q2, e2, i2)" by (cases "gettoken b es i1")
      have dec: "length b - i2 < length b - i" "i \<le> i2"
        using parse_steps(1)[OF _ _ g2, of "''&''" i] peek_ge[OF Pair] gettoken_ge[OF g2] Pair True by (auto simp: symbols_def)
      have "ends (parseamps b es p' i2 t) (parsed i s)" if "stored s p' t" for p' t
        using less.hyps[OF dec(1) storedD(3,1)[OF that]] storedD(2)[OF that] dec(2) by (rule ends_later)
      then show ?thesis using Pair True g2 less.prems
        by (subst parseamps.simps) (auto intro!: ends_bindr[where P = "stored s"] constructors_end)
    qed
  qed
qed

lemma parseargs_ends:
  "heap_sound s \<Longrightarrow> tree (sh_cmds s) p \<Longrightarrow>
    ends (parseargs b es c n p i s) (\<lambda>x t. parsed i s (fst x, snd (snd x)) t)"
proof (induction "MAXARGS - n" arbitrary: n p i s rule: less_induct)
  case less
  obtain found i1 where p1: "peek b es ''|)&;'' i = (found, i1)" by (cases "peek b es ''|)&;'' i")
  obtain tok q e i2 where g2: "gettoken b es i1 = (tok, q, e, i2)" by (cases "gettoken b es i1")
  have i: "i \<le> i1" "i \<le> i2" using peek_ge[OF p1] gettoken_ge[OF g2] by auto
  have here: "parsed i s (p, j) s" if "i \<le> j" for j using that less.prems by (simp add: parsed_def stored_def)
  have step: "ends (if n + 1 \<ge> MAXARGS then sh_panic ''too many args'' t
      else bindr (parseredirs b es p i2 t) (\<lambda>x s. parseargs b es c (n + 1) (fst x) (snd x) s))
      (\<lambda>x t. parsed i s (fst x, snd (snd x)) t)" if t: "later (sh_cmds s) (sh_cmds t) \<and> heap_sound t" for t
  proof (cases "n + 1 \<ge> MAXARGS")
    case False
    have "ends (parseredirs b es p i2 t) (parsed i2 t)" using t less.prems by (intro parseredirs_ends) (auto intro: tree_later)
    then have "ends (bindr (parseredirs b es p i2 t) (\<lambda>x s. parseargs b es c (n + 1) (fst x) (snd x) s))
        (\<lambda>x t. parsed i s (fst x, snd (snd x)) t)"
    proof (rule ends_bindr)
      fix x u assume u: "parsed i2 t x u"
      then have st: "stored t (fst x) u" "i \<le> snd x" using i(2) by (auto simp: parsed_def)
      have "ends (parseargs b es c (n + 1) (fst x) (snd x) u) (\<lambda>y v. parsed (snd x) u (fst y, snd (snd y)) v)"
        using False by (intro less.hyps storedD(3,1)[OF st(1)]) simp
      moreover have "later (sh_cmds s) (sh_cmds u)" using t storedD(2)[OF st(1)] by (blast intro: later_trans)
      ultimately show "ends (parseargs b es c (n + 1) (fst x) (snd x) u) (\<lambda>y v. parsed i s (fst y, snd (snd y)) v)"
        using st(2) by (elim ends_mono) (rule parsed_trans)
    qed
    then show ?thesis using False by simp
  qed (simp add: sh_panic_ends)
  show ?case
    using p1 g2 i here less.prems(1)
    by (subst parseargs.simps) (auto simp: sh_panic_ends split: bool.splits intro!: ends_bindr[OF set_arg_ends] step[simplified])
qed

text \<open>
  A parsing function ends on every index for which \<open>n\<close> calls are enough, \<open>k\<close> of them before it reads a
  character.
\<close>

definition all_end :: "bytes \<Rightarrow> nat \<Rightarrow> nat \<Rightarrow> 'z shst_scheme parser \<Rightarrow> bool" where
  "all_end b n k f \<longleftrightarrow> (\<forall>i s. heap_sound s \<longrightarrow> 4 * (length b - i) + k \<le> n \<longrightarrow> ends (f i s) (parsed i s))"

lemma all_endD:
  assumes "all_end b n k f" and "stored s p t" and "i \<le> j" and "4 * (length b - j) + k \<le> n"
  shows "ends (f j t) (\<lambda>x u. parsed i s x u \<and> stored t (fst x) u)"
proof -
  have "ends (f j t) (parsed j t)" using assms storedD(3)[OF assms(2)] by (simp add: all_end_def)
  then show ?thesis
    by (rule ends_mono) (use parsed_trans[OF storedD(2)[OF assms(2)] assms(3)] in \<open>auto simp: parsed_def\<close>)
qed

text \<open>After a symbol that was looked for, there is less to read.\<close>

lemma symbol_step:
  assumes "peek b es cs i = (True, j)" and "set cs \<subseteq> set symbols" and "gettoken b es j = (c, q, e, k)"
  shows "i \<le> k" "4 * (length b - k) + 4 \<le> 4 * (length b - i)"
  using parse_steps(1)[OF assms] peek_ge[OF assms(1)] gettoken_ge[OF assms(3)] by auto

lemma parseblock_all:
  assumes "all_end b n 4 pl"
  shows "all_end b (Suc n) 1 (parseblock_body pl b es)"
  unfolding all_end_def
proof (intro allI impI)
  fix i and s :: "'a shst_scheme" assume s: "heap_sound s" and n: "4 * (length b - i) + 1 \<le> Suc n"
  obtain found i1 where p1: "peek b es ''('' i = (found, i1)" by (cases "peek b es ''('' i")
  obtain c2 q2 e2 i2 where g2: "gettoken b es i1 = (c2, q2, e2, i2)" by (cases "gettoken b es i1")
  show "ends (parseblock_body pl b es i s) (parsed i s)"
  proof (cases found)
    case True
    have d: "i \<le> i2" "4 * (length b - i2) + 4 \<le> n" using symbol_step[OF _ _ g2, of "''(''" i] p1 True n by (auto simp: symbols_def)
    have "ends (pl i2 s) (parsed i2 s)" using assms s d(2) by (simp add: all_end_def)
    moreover have "ends (case peek b es '')'' (snd x) of (False, ps) \<Rightarrow> sh_panic ''syntax - missing )'' t
        | (True, ps) \<Rightarrow> case gettoken b es ps of (_, _, _, ps) \<Rightarrow> parseredirs b es (fst x) ps t) (parsed i s)"
      if x: "parsed i2 s x t" for x t
    proof -
      obtain f3 i3 where p3: "peek b es '')'' (snd x) = (f3, i3)" by (cases "peek b es '')'' (snd x)")
      obtain c4 q4 e4 i4 where g4: "gettoken b es i3 = (c4, q4, e4, i4)" by (cases "gettoken b es i3")
      have st: "stored s (fst x) t" "i \<le> i4" using x d(1) peek_ge[OF p3] gettoken_ge[OF g4] by (auto simp: parsed_def)
      have "ends (parseredirs b es (fst x) i4 t) (parsed i s)"
        using parseredirs_ends[OF storedD(3,1)[OF st(1)]] storedD(2)[OF st(1)] st(2) by (rule ends_later)
      then show ?thesis using p3 g4 by (auto simp: sh_panic_ends split: bool.splits)
    qed
    ultimately have "ends (bindr (pl i2 s) (\<lambda>x t. case peek b es '')'' (snd x) of (False, ps) \<Rightarrow> sh_panic ''syntax - missing )'' t
        | (True, ps) \<Rightarrow> case gettoken b es ps of (_, _, _, ps) \<Rightarrow> parseredirs b es (fst x) ps t)) (parsed i s)"
      by (rule ends_bindr)
    then show ?thesis using p1 g2 True by (simp add: parseblock_body_def case_prod_unfold)
  qed (use p1 in \<open>simp add: parseblock_body_def sh_panic_ends\<close>)
qed

lemma parseexec_all:
  assumes "all_end b n 1 pb"
  shows "all_end b (Suc n) 2 (parseexec_body pb b es)"
  unfolding all_end_def
proof (intro allI impI)
  fix i and s :: "'a shst_scheme" assume s: "heap_sound s" and n: "4 * (length b - i) + 2 \<le> Suc n"
  obtain found i1 where p1: "peek b es ''('' i = (found, i1)" by (cases "peek b es ''('' i")
  have i1: "i \<le> i1" by (rule peek_ge[OF p1])
  show "ends (parseexec_body pb b es i s) (parsed i s)"
  proof (cases found)
    case True
    have "ends (pb i1 s) (parsed i1 s)" using assms s n i1 by (simp add: all_end_def)
    then have "ends (pb i1 s) (parsed i s)" using later_refl i1 by (rule ends_later)
    then show ?thesis using p1 True by (simp add: parseexec_body_def)
  next
    case False
    have args: "ends (bindr (parseargs b es c 0 (fst x) (snd x) u) (\<lambda>y v. bindr (set_arg c (fst (snd y)) None None v) (\<lambda>_ v.
        Ret (fst y, snd (snd y)) v))) (parsed i s)" if u: "parsed i s x u" for c x u
    proof (rule ends_bindr)
      show "ends (parseargs b es c 0 (fst x) (snd x) u) (\<lambda>y v. parsed (snd x) u (fst y, snd (snd y)) v)"
        using u by (intro parseargs_ends) (auto simp: parsed_def dest: storedD)
      fix y :: "u64 \<times> nat \<times> nat" and v assume "parsed (snd x) u (fst y, snd (snd y)) v"
      then have v: "parsed i s (fst y, snd (snd y)) v" using u by (auto simp: parsed_def intro: stored_trans dest: storedD)
      then have "heap_sound v" by (auto simp: parsed_def dest: storedD)
      from set_arg_ends[OF this] show "ends (bindr (set_arg c (fst (snd y)) None None v) (\<lambda>_ v. Ret (fst y, snd (snd y)) v)) (parsed i s)"
        by (rule ends_bindr) (use v in \<open>auto simp: parsed_def stored_def intro: tree_later later_trans\<close>)
    qed
    have "ends (bindr (parseredirs b es c i1 t) (\<lambda>x u. bindr (parseargs b es c 0 (fst x) (snd x) u) (\<lambda>y v.
        bindr (set_arg c (fst (snd y)) None None v) (\<lambda>_ v. Ret (fst y, snd (snd y)) v)))) (parsed i s)" if t: "stored s c t" for c t
      using ends_later[OF parseredirs_ends[OF storedD(3,1)[OF t]] storedD(2)[OF t] i1] args by (rule ends_bindr)
    then have "ends (bindr (execcmd s) (\<lambda>c t. bindr (parseredirs b es c i1 t) (\<lambda>x u. bindr (parseargs b es c 0 (fst x) (snd x) u) (\<lambda>y v.
        bindr (set_arg c (fst (snd y)) None None v) (\<lambda>_ v. Ret (fst y, snd (snd y)) v))))) (parsed i s)"
      by (rule ends_bindr[OF constructors_end(1)[OF s]])
    then show ?thesis using p1 False by (simp add: parseexec_body_def case_prod_unfold)
  qed
qed

text \<open>A second command after a symbol, joined to the first by a constructor.\<close>

lemma join_ends:
  assumes f: "all_end b n k f" and k: "k \<le> 4" and x: "parsed i s x t" and n: "4 * (length b - i) \<le> n"
    and cs: "set cs \<subseteq> set symbols"
    and mk: "\<And>c c' u. heap_sound u \<Longrightarrow> tree (sh_cmds u) c \<Longrightarrow> tree (sh_cmds u) c' \<Longrightarrow> ends (mk c c' u) (stored u)"
  shows "ends (case peek b es cs (snd x) of (False, ps) \<Rightarrow> Ret (fst x, ps) t
      | (True, ps) \<Rightarrow> case gettoken b es ps of (_, _, _, ps) \<Rightarrow>
          bindr (f ps t) (\<lambda>y u. bindr (mk (fst x) (fst y) u) (\<lambda>c v. Ret (c, snd y) v))) (parsed i s)"
proof -
  obtain found i1 where p1: "peek b es cs (snd x) = (found, i1)" by (cases "peek b es cs (snd x)")
  obtain c2 q2 e2 i2 where g2: "gettoken b es i1 = (c2, q2, e2, i2)" by (cases "gettoken b es i1")
  have st: "stored s (fst x) t" "i \<le> snd x" using x by (auto simp: parsed_def)
  show ?thesis
  proof (cases found)
    case False
    then show ?thesis using p1 x peek_ge[OF p1] by (auto simp: parsed_def)
  next
    case True
    have d: "snd x \<le> i2" "4 * (length b - i2) + k \<le> n"
      using symbol_step[OF _ cs g2, of "snd x"] p1 True k n st(2) by (auto intro: order.trans)
    have "ends (bindr (f i2 t) (\<lambda>y u. bindr (mk (fst x) (fst y) u) (\<lambda>c v. Ret (c, snd y) v))) (parsed i s)"
    proof (rule ends_bindr[OF all_endD[OF f st(1) _ d(2)]])
      show "i \<le> i2" using st(2) d(1) by simp
      fix y u assume y: "parsed i s y u \<and> stored t (fst y) u"
      then have u: "heap_sound u" "tree (sh_cmds u) (fst y)" "tree (sh_cmds u) (fst x)" "later (sh_cmds s) (sh_cmds u)" "i \<le> snd y"
        using storedD[OF st(1)] by (auto simp: parsed_def stored_def intro: tree_later)
      show "ends (bindr (mk (fst x) (fst y) u) (\<lambda>c v. Ret (c, snd y) v)) (parsed i s)"
        by (rule ends_bindr[OF mk[OF u(1,3,2)]]) (use u(4,5) in \<open>auto simp: parsed_def intro: stored_trans\<close>)
    qed
    then show ?thesis using p1 g2 True by simp
  qed
qed

lemma parsepipe_all:
  assumes pe: "all_end b n 2 pe" and pp: "all_end b n 3 pp"
  shows "all_end b (Suc n) 3 (parsepipe_body pe pp b es)"
  unfolding all_end_def
proof (intro allI impI)
  fix i and s :: "'a shst_scheme" assume s: "heap_sound s" and n: "4 * (length b - i) + 3 \<le> Suc n"
  have "ends (pe i s) (parsed i s)" using pe s n by (simp add: all_end_def)
  then have "ends (bindr (pe i s) (\<lambda>x t. case peek b es ''|'' (snd x) of (False, ps) \<Rightarrow> Ret (fst x, ps) t
      | (True, ps) \<Rightarrow> case gettoken b es ps of (_, _, _, ps) \<Rightarrow>
          bindr (pp ps t) (\<lambda>y u. bindr (pipecmd (fst x) (fst y) u) (\<lambda>c v. Ret (c, snd y) v)))) (parsed i s)"
    by (rule ends_bindr, intro join_ends[OF pp]) (use n in \<open>auto simp: symbols_def intro: constructors_end(4)\<close>)
  then show "ends (parsepipe_body pe pp b es i s) (parsed i s)" unfolding parsepipe_body_def case_prod_unfold .
qed

lemma parseline_all:
  assumes pp: "all_end b n 3 pp" and pl: "all_end b n 4 pl"
  shows "all_end b (Suc n) 4 (parseline_body pp pl b es)"
  unfolding all_end_def
proof (intro allI impI)
  fix i and s :: "'a shst_scheme" assume s: "heap_sound s" and n: "4 * (length b - i) + 4 \<le> Suc n"
  have amps: "ends (parseamps b es (fst x) (snd x) t) (parsed i s)" if "parsed i s x t" for x t
  proof -
    have st: "stored s (fst x) t" "i \<le> snd x" using that by (auto simp: parsed_def)
    show ?thesis using parseamps_ends[OF storedD(3,1)[OF st(1)]] storedD(2)[OF st(1)] st(2) by (rule ends_later)
  qed
  have "ends (bindr (parseamps b es (fst x) (snd x) t) (\<lambda>x t. case peek b es '';'' (snd x) of (False, ps) \<Rightarrow> Ret (fst x, ps) t
      | (True, ps) \<Rightarrow> case gettoken b es ps of (_, _, _, ps) \<Rightarrow>
          bindr (pl ps t) (\<lambda>y u. bindr (listcmd (fst x) (fst y) u) (\<lambda>c v. Ret (c, snd y) v)))) (parsed i s)"
    if "parsed i s x t" for x t
    by (rule ends_bindr[OF amps[OF that]], intro join_ends[OF pl]) (use n in \<open>auto simp: symbols_def intro: constructors_end(5)\<close>)
  moreover have "ends (pp i s) (parsed i s)" using pp s n by (simp add: all_end_def)
  ultimately have "ends (bindr (pp i s) (\<lambda>x t. bindr (parseamps b es (fst x) (snd x) t) (\<lambda>x t. case peek b es '';'' (snd x) of
        (False, ps) \<Rightarrow> Ret (fst x, ps) t
      | (True, ps) \<Rightarrow> case gettoken b es ps of (_, _, _, ps) \<Rightarrow>
          bindr (pl ps t) (\<lambda>y u. bindr (listcmd (fst x) (fst y) u) (\<lambda>c v. Ret (c, snd y) v))))) (parsed i s)"
    by (rule ends_bindr[rotated])
  then show "ends (parseline_body pp pl b es i s) (parsed i s)" unfolding parseline_body_def case_prod_unfold .
qed

lemma parser_all:
  "all_end b n 4 (parseline n b es :: 'z shst_scheme parser) \<and> all_end b n 3 (parsepipe n b es :: 'z shst_scheme parser) \<and>
    all_end b n 2 (parseexec n b es :: 'z shst_scheme parser) \<and> all_end b n 1 (parseblock n b es :: 'z shst_scheme parser)"
proof (induction n)
  case 0
  then show ?case by (simp add: all_end_def)
next
  case (Suc n)
  then show ?case
    unfolding parseline.simps parsepipe.simps parseexec.simps parseblock.simps
    by (intro conjI parseline_all parsepipe_all parseexec_all parseblock_all) blast+
qed

section \<open>Property\<close>

text \<open>
  C40: the parser of the shell ends on every input. Whatever the buffer holds, from any index on,
  and whatever the kernel answers to \<open>sbrk\<close>, errors included, \<open>parsecmd\<close> does not run forever: it
  returns a tree of commands, exits with a message, faults for want of memory, or waits for an
  answer. The bound on the depth of calls is never reached.
\<close>

theorem parsecmd_ends:
  fixes s :: "'z shst_scheme"
  assumes "heap_sound s"
  shows "(\<forall>t. parsecmd ps s \<noteq> Spin t) \<and> (\<forall>p t. parsecmd ps s = Ret p t \<longrightarrow> tree (sh_cmds t) p)"
proof -
  let ?b = "sh_buf s" and ?es = "ps + u_strlen (cstr (drop ps (sh_buf s)))"
  have "all_end ?b (parse_fuel ?b) 4 (parseline (parse_fuel ?b) ?b ?es :: 'z shst_scheme parser)" using parser_all by blast
  then have "ends (parseline (parse_fuel ?b) ?b ?es ps s) (parsed ps s)" using assms by (simp add: all_end_def parse_fuel_def)
  moreover have "ends (case peek ?b ?es [] (snd x) of (_, ps) \<Rightarrow>
      if ps \<noteq> ?es then bindr (u_fprintf 2 (''leftovers: %s'' @ [NL]) [VStr (Some (cstr (drop ps ?b)))] t) (\<lambda>_ s. sh_panic ''syntax'' s)
      else case nulterminate (sh_cmds t) (fst x) ?b of None \<Rightarrow> Spin t
        | Some r \<Rightarrow> bindr (in_object r t) (\<lambda>b s. Ret (fst x) (s\<lparr>sh_buf := b\<rparr>))) (\<lambda>p t. tree (sh_cmds t) p)"
    if x: "parsed ps s x t" for x t
  proof -
    have tr: "tree (sh_cmds t) (fst x)" using x by (auto simp: parsed_def dest: storedD)
    then obtain r where r: "nulterminate (sh_cmds t) (fst x) ?b = Some r" using nulterminate_ends by blast
    have "ends (u_fprintf 2 m ap t) (\<lambda>_ _. True)" for m ap
      by (auto simp: u_fprintf_def u_vprintf_def u_puts_ends split: option.splits)
    then have "ends (bindr (u_fprintf 2 m ap t) (\<lambda>_ s. sh_panic ''syntax'' s)) Q" for m ap Q
      by (rule ends_bindr) (rule sh_panic_ends)
    then show ?thesis using tr r by (auto simp: in_object_def split: prod.splits option.splits)
  qed
  ultimately have "ends (parsecmd ps s) (\<lambda>p t. tree (sh_cmds t) p)"
    unfolding parsecmd_def Let_def case_prod_unfold by (rule ends_bindr) (simp add: case_prod_unfold)
  then show ?thesis by (auto simp: ends_def split: res.splits)
qed

text \<open>A line with an open parenthesis, and a kernel that has no memory.\<close>

definition sh1 :: shst where
  "sh1 = \<lparr>u_resp = [Rs (-1) []], u_log = [], u_pend = None, umem = (\<lambda>_. 0), u_base = 0x3000, u_freep = 0,
     sh_buf = ''ls | (wc'' @ replicate 92 NUL, sh_cmds = Map.empty\<rparr>"

theorem parsecmd_ends_witness: "\<forall>t. parsecmd 0 sh1 \<noteq> Spin t"
proof -
  have "heap_sound sh1"
    unfolding heap_sound_def
    by (intro conjI exI[of _ "0x4000"] exI[of _ "{}"]) (simp_all add: sh1_def heap_ok_def HDR_def HEAPMAX_def)
  then show ?thesis using parsecmd_ends[of sh1 0] by blast
qed

end
