(* ===== verification/GrepSpec.thy ===== *)
theory GrepSpec
  imports Uprogs
begin

text \<open>
  The pattern matcher of \<open>grep\<close> against the language of a pattern.
\<close>

section \<open>Patterns\<close>

text \<open>A pattern is a list of characters, plain or starred, and may end in a dollar sign.\<close>

datatype item = One char | Star char

fun parse_re :: "bytes \<Rightarrow> item list \<times> bool" where
  "parse_re [] = ([], False)"
| "parse_re [c] = (if c = CHR ''$'' then ([], True) else ([One c], False))"
| "parse_re (c # d # re) =
     (if d = CHR ''*'' then case parse_re re of (is, e) \<Rightarrow> (Star c # is, e)
      else case parse_re (d # re) of (is, e) \<Rightarrow> (One c # is, e))"

definition fits :: "char \<Rightarrow> char \<Rightarrow> bool" where
  "fits c d \<longleftrightarrow> c = CHR ''.'' \<or> c = d"

inductive in_lang :: "item list \<Rightarrow> bytes \<Rightarrow> bool" where
  lang_nil: "in_lang [] []"
| lang_one: "fits c d \<Longrightarrow> in_lang is x \<Longrightarrow> in_lang (One c # is) (d # x)"
| lang_star: "\<forall>d \<in> set ds. fits c d \<Longrightarrow> in_lang is x \<Longrightarrow> in_lang (Star c # is) (ds @ x)"

inductive_simps in_lang_simps: "in_lang [] x" "in_lang (One c # is) x" "in_lang (Star c # is) x"

definition begins :: "item list \<times> bool \<Rightarrow> bytes \<Rightarrow> bool" where
  "begins r t \<longleftrightarrow> (\<exists>x y. t = x @ y \<and> in_lang (fst r) x \<and> (snd r \<longrightarrow> y = []))"

lemma begins_nil: "begins ([], e) t \<longleftrightarrow> \<not> e \<or> t = []"
  by (auto simp: begins_def in_lang_simps)

lemma begins_one: "begins (One c # is, e) t \<longleftrightarrow> t \<noteq> [] \<and> fits c (hd t) \<and> begins (is, e) (tl t)"
proof
  assume "begins (One c # is, e) t"
  then obtain d x y where "t = (d # x) @ y" "fits c d" "in_lang is x" "e \<longrightarrow> y = []"
    unfolding begins_def in_lang_simps(2) fst_conv snd_conv by blast
  then show "t \<noteq> [] \<and> fits c (hd t) \<and> begins (is, e) (tl t)" by (auto simp: begins_def)
next
  assume r: "t \<noteq> [] \<and> fits c (hd t) \<and> begins (is, e) (tl t)"
  then obtain x y where "tl t = x @ y" "in_lang is x" "e \<longrightarrow> y = []" unfolding begins_def fst_conv snd_conv by blast
  moreover have "t = hd t # tl t" using r by simp
  ultimately have "t = (hd t # x) @ y" "in_lang (One c # is) (hd t # x)" using r by (auto intro: lang_one)
  then show "begins (One c # is, e) t" using \<open>e \<longrightarrow> y = []\<close> unfolding begins_def fst_conv snd_conv by blast
qed

lemma begins_star: "begins (Star c # is, e) t \<longleftrightarrow> (\<exists>ds y. t = ds @ y \<and> (\<forall>d \<in> set ds. fits c d) \<and> begins (is, e) y)"
proof
  assume "begins (Star c # is, e) t"
  then obtain ds x y where "t = ds @ (x @ y)" "\<forall>d \<in> set ds. fits c d" "in_lang is x" "e \<longrightarrow> y = []"
    unfolding begins_def in_lang_simps(3) fst_conv snd_conv by (metis append.assoc)
  then show "\<exists>ds y. t = ds @ y \<and> (\<forall>d \<in> set ds. fits c d) \<and> begins (is, e) y"
    unfolding begins_def fst_conv snd_conv by blast
next
  assume "\<exists>ds y. t = ds @ y \<and> (\<forall>d \<in> set ds. fits c d) \<and> begins (is, e) y"
  then obtain ds x y where "t = (ds @ x) @ y" "\<forall>d \<in> set ds. fits c d" "in_lang is x" "e \<longrightarrow> y = []"
    unfolding begins_def fst_conv snd_conv by (metis append.assoc)
  then show "begins (Star c # is, e) t" unfolding begins_def fst_conv snd_conv by (blast intro: lang_star)
qed

lemma star_unfold:
  "(\<exists>ds y. t = ds @ y \<and> (\<forall>d \<in> set ds. fits c d) \<and> P y) \<longleftrightarrow>
    P t \<or> t \<noteq> [] \<and> fits c (hd t) \<and> (\<exists>ds y. tl t = ds @ y \<and> (\<forall>d \<in> set ds. fits c d) \<and> P y)" (is "?L \<longleftrightarrow> ?R")
proof
  assume ?L
  then obtain ds y where "t = ds @ y" "\<forall>d \<in> set ds. fits c d" "P y" by blast
  then show ?R by (cases ds) auto
next
  assume ?R
  then consider "P t" | ds y where "t = (hd t # ds) @ y" "\<forall>d \<in> set (hd t # ds). fits c d" "P y"
    by (metis append_Cons list.collapse set_ConsD)
  then show ?L
  proof cases
    case 1
    then show ?thesis by (intro exI[of _ "[]"] exI[of _ t]) simp
  qed blast
qed

lemma matchhere_begins:
  "matchhere re t \<longleftrightarrow> begins (parse_re re) t"
  "matchstar c re t \<longleftrightarrow> (\<exists>ds y. t = ds @ y \<and> (\<forall>d \<in> set ds. fits c d) \<and> begins (parse_re re) y)"
proof (induction re t and c re t rule: matchhere_matchstar.induct)
  case (1 re t)
  show ?case
  proof (cases re rule: parse_re.cases)
    case 1
    then show ?thesis by (simp add: matchhere.simps[of "[]" t] begins_nil)
  next
    case (2 c)
    then show ?thesis using "1.IH" by (auto simp: matchhere.simps[of "[c]" t] hd0_def begins_nil begins_one fits_def)
  next
    case (3 c d re')
    then show ?thesis using "1.IH"
      by (auto simp: matchhere.simps[of "c # d # re'" t] hd0_def begins_star begins_one fits_def split: prod.splits)
  qed
next
  case (2 c re t)
  then show ?case by (subst matchstar.simps, subst star_unfold) (auto simp: fits_def)
qed

lemma match_any_iff: "match_any re t \<longleftrightarrow> (\<exists>a y. t = a @ y \<and> matchhere re y)"
  by (induction t) (auto simp: Cons_eq_append_conv)

section \<open>Property\<close>

text \<open>
  C39: \<open>match\<close> decides whether the pattern occurs in the text. The pattern, without its anchors, is a
  list of characters, of which a dot stands for any one and a starred one for any number; the
  text has a part in its language, at the start when the pattern begins with a caret and at the
  end when it ends in a dollar sign.
\<close>

theorem match_iff_occurs:
  "match re t \<longleftrightarrow>
    (let r = (if hd0 re = CHR ''^'' then tl re else re); (is, at_end) = parse_re r in
     \<exists>a x y. t = a @ x @ y \<and> in_lang is x \<and> (hd0 re = CHR ''^'' \<longrightarrow> a = []) \<and> (at_end \<longrightarrow> y = []))"
proof (cases "hd0 re = CHR ''^''")
  case True
  then show ?thesis by (simp add: match_def matchhere_begins begins_def split_beta Let_def)
next
  case False
  then have "match re t \<longleftrightarrow> (\<exists>a y'. t = a @ y' \<and> begins (parse_re re) y')"
    by (simp add: match_def match_any_iff matchhere_begins)
  also have "\<dots> \<longleftrightarrow> (\<exists>a x y. t = a @ x @ y \<and> in_lang (fst (parse_re re)) x \<and> (snd (parse_re re) \<longrightarrow> y = []))"
    unfolding begins_def by blast
  finally show ?thesis using False by (simp add: split_beta Let_def)
qed

theorem match_iff_occurs_witness: "match ''^a.*z$'' ''abcz''"
proof -
  have "in_lang [One CHR ''a'', Star CHR ''.'', One CHR ''z''] (CHR ''a'' # ''bc'' @ [CHR ''z''])"
    by (intro in_lang.intros) (simp_all add: fits_def)
  then show ?thesis using match_iff_occurs[of "''^a.*z$''" "''abcz''"] by (simp add: hd0_def)
qed

end
