(* ===== verification/Spec2Isabelle.thy ===== *)
theory Spec2Isabelle
  imports Lighting Kalloc Wakeup House UserMem LogCrash Boot PipeSpec ConsoleSpec VirtioSpec PathSpec TrapSpec ArgSpec Ulights ShSpec ShTerm GrepSpec
begin

text \<open>
  A verification development for xv6 on RISC-V with a smart-lighting extension.

  The program is a kernel in C (\<open>src/kernel\<close>) and the user programs that run on it (\<open>src/user\<close>).
  Harts share the kernel's global state under spin locks. Above the locks stand the page allocator
  and the page tables; processes, which sleep, wake up and are scheduled; a disk driver, a buffer
  cache, a write-ahead log and the file system on it; files, pipes and the console; and the
  lighting module, which the timer interrupt and six system calls drive. User programs reach the
  kernel through traps and the table of system calls.

  \<^bold>\<open>How the code is modelled.\<close> A routine is a function on a state and has one of four outcomes
  (\<open>Prelude\<close>): it returns a value and a state, panics, loops forever, or is blocked: its thread has
  switched away or waits. A routine that itself sleeps or gives up the hart has a second definition,
  named with \<open>_resume\<close>, for what it does when it runs again; a caller that blocks inside such a routine
  (\<open>bget\<close>, \<open>bread\<close>, \<open>ilock\<close> and the calls above them) is modelled up to the switch. The state is a chain of extensible records, one link for each component,
  so that a routine works on the state of every component above its own. Unsigned machine
  integers, and the integers in structures of memory and disk, are words of their width and wrap
  around. Signed counters, flags and identifiers that C keeps in an \<open>int\<close> (\<open>noff\<close>, reference counts,
  pids, results) are integers: C leaves their overflow undefined, and what is proved of \<open>noff\<close> at
  arbitrary depth (C12) is for counts that fit the \<open>int\<close>. Memory is a function from addresses to bytes; C structures that are
  kept in memory, on disk or in user buffers are read and written in their layout (\<open>Bytes\<close>).
  An access outside of an object is the panic ``out of bounds''. A user program is a function of the
  answers to its system calls and logs the calls it makes (\<open>Ulib\<close>).

  \<^bold>\<open>Theories and sources.\<close>

  \<^item> \<open>Spinlock\<close>: \<open>spinlock.c\<close>. Mutual exclusion of any number of harts in any interleaving, no panic,
    and \<open>acquire\<close> as a run of the step relation (C1, C10--C12).
  \<^item> \<open>Kstring\<close>, \<open>Bytes\<close>: \<open>string.c\<close> and the layout of integers (C6, C7).
  \<^item> \<open>Kprintf\<close>: \<open>printf.c\<close> and polled output, against a separate definition of what a format means (C8, C9).
  \<^item> \<open>Lighting\<close>, \<open>Clock\<close>, \<open>House\<close>: \<open>lighting.c\<close>, \<open>roomenv.c\<close>, \<open>clockintr\<close> of \<open>trap.c\<close>, and their interleaving.
    Rooms stay well formed; what the shutoff rules turn off; how long ago a lit room was last marked; what the
    usage counters count (C2--C4, C15--C19).
  \<^item> \<open>Kalloc\<close>: \<open>kalloc.c\<close>. The allocator under any use by its clients (C14).
  \<^item> \<open>Proc\<close>, \<open>Wakeup\<close>, \<open>Sleeplock\<close>, \<open>Process\<close>: \<open>proc.c\<close> and \<open>sleeplock.c\<close>. No wakeup is lost, the scheduler,
    \<open>kill\<close>, and sleep locks (C13, C20--C23).
  \<^item> \<open>Vm\<close>, \<open>PageTable\<close>, \<open>PtWalk\<close>, \<open>UserMem\<close>: \<open>vm.c\<close>. Tables as trees, translations, and copies between
    kernel and user memory (C26, C27).
  \<^item> \<open>Bio\<close>, \<open>BioSpec\<close>, \<open>BioView\<close>: \<open>bio.c\<close>. The cache as an array of blocks (C28).
  \<^item> \<open>Log\<close>, \<open>LogDisk\<close>, \<open>LogSpec\<close>, \<open>LogCommit\<close>, \<open>LogCrash\<close>: \<open>log.c\<close>. A commit is atomic under crashes (C24, C25).
  \<^item> \<open>Fs\<close>, \<open>PathSpec\<close>: \<open>fs.c\<close>. Path names are split at slashes (C33).
  \<^item> \<open>Ring\<close>, \<open>File\<close>, \<open>PipeSpec\<close>, \<open>Console\<close>, \<open>ConsoleSpec\<close>: \<open>file.c\<close>, \<open>pipe.c\<close>, \<open>console.c\<close>, \<open>uart.c\<close>. A pipe is
    a bounded queue and the console a line discipline, on circular buffers (C29--C31).
  \<^item> \<open>Virtio\<close>, \<open>VirtioSpec\<close>: \<open>virtio_disk.c\<close>. The driver with the device does what \<open>Bio\<close> takes as one step (C32).
  \<^item> \<open>Exec\<close>, \<open>Sysproc\<close>, \<open>Sysfile\<close>, \<open>Trap\<close>, \<open>TrapSpec\<close>, \<open>ArgSpec\<close>: \<open>exec.c\<close>, \<open>syscall.c\<close>, \<open>sysproc.c\<close>,
    \<open>syslighting.c\<close>, \<open>sysfile.c\<close>, \<open>trap.c\<close>, \<open>plic.c\<close>. A system call from the trap to the return, with
    everything a trap writes (C5, C34--C36).
  \<^item> \<open>Boot\<close>, \<open>States\<close>: \<open>start.c\<close>, \<open>main.c\<close>, and a concrete state for the witnesses.
  \<^item> \<open>Ulib\<close>: \<open>ulib.c\<close> and \<open>printf.c\<close> of \<open>src/user\<close>.
  \<^item> \<open>Umalloc\<close>, \<open>UmallocHeap\<close>, \<open>UmallocOps\<close>, \<open>UmallocSpec\<close>: \<open>umalloc.c\<close>. The allocator's contract (C37).
  \<^item> \<open>Uprogs\<close>, \<open>GrepSpec\<close>: \<open>cat\<close>, \<open>wc\<close>, \<open>echo\<close>, \<open>kill\<close>, \<open>ln\<close>, \<open>mkdir\<close>, \<open>rm\<close>, \<open>grep\<close>, \<open>ls\<close>, \<open>init\<close>. The matcher of
    \<open>grep\<close> decides the language of its pattern (C39).
  \<^item> \<open>Ulights\<close>: \<open>lightctl\<close>, \<open>roomctl\<close>, \<open>energymon\<close>, \<open>autoshutoff\<close>.
  \<^item> \<open>Sh\<close>, \<open>ShLex\<close>, \<open>ShSpec\<close>, \<open>ShTerm\<close>: \<open>sh.c\<close>. The parser builds what the grammar says, and ends on every
    input (C38, C40).

  \<^bold>\<open>Interfaces.\<close> \<open>inv_system\<close> (\<open>Prelude\<close>) turns an inductive invariant into a fact on all reachable
  states; it is interpreted on the locks, the lighting module, the house, sleep and wakeup, and
  both allocators. \<open>ring_buffer\<close> (\<open>Ring\<close>) is the circular buffer of pipes and the console.

  \<^bold>\<open>Bounds.\<close> A loop of system calls ends because each turn uses an answer. The searches of the free
  list of \<open>malloc\<close> and the walk of \<open>nulterminate\<close> may run forever on a damaged structure and are partial;
  C37 and C40 show that they return. The functions of the shell's grammar are bounded in depth by
  \<open>parse_fuel\<close>, four calls for each character and four more: a cycle of four calls reads a character. C40 shows
  that the bound is never reached.
  The heap of a program lies below \<open>HEAPMAX\<close>, and C37 is about requests below two gigabytes,
  a break that only moves up, and programs that write only inside their blocks. C38 is about commands of
  fewer than \<open>MAXARGS\<close> words.

  \<^bold>\<open>Granularity.\<close> The steps of \<open>lk_step\<close> are the memory accesses of harts that use a lock in brackets of
  \<open>acquire\<close> and \<open>release\<close>; the interrupt state is not part of them. In \<open>house_step\<close> a section under one
  lock is one step, and so is the check for initialisation in front of it; \<open>auto_shutoff\<close> is two steps, since it
  reads the clock before its section. During \<open>uartintr\<close> no byte arrives; the read that acknowledges the
  interrupt has no effect that the model shows.

  \<^bold>\<open>Parameters.\<close> What the disk device does with a posted request is a parameter with the behaviour of
  the virtio specification as hypotheses (\<open>VirtioSpec\<close>); the answers of the kernel are the input of a
  user program, and C37, C38 and C40 assume of \<open>sbrk\<close> that new memory lies above the old.

  \<^bold>\<open>Not modelled.\<close> The assembly (\<open>entry.S\<close>, \<open>swtch.S\<close>, \<open>trampoline.S\<close>, \<open>kernelvec.S\<close>): a switch is a blocked
  outcome, and a trap starts with the trap frame filled. The test and stress programs
  (\<open>usertests.c\<close>, \<open>grind.c\<close>, \<open>lighttest.c\<close> and others), which define no behaviour of the system. The image
  builder \<open>mkfs.c\<close>, a program of the build host. The commands of the shell are typed objects, kept
  beside the memory in which \<open>malloc\<close> places them.
\<close>

end
